(* ===== verification/Base.thy ===== *)
theory Base
  imports Main "HOL-Library.AList" "HOL-Library.Sublist" "HOL-Library.Signed_Division"
begin

text \<open>
  The prelude: what the components use of Go itself. Strings are byte lists and the functions of
  package \<open>strings\<close> and \<open>strconv\<close> the code calls are written out; a Go map is an association list
  with distinct keys, whose order stands for the order in which the next \<open>range\<close> visits it (every
  lemma holds for every order); a \<open>time.Time\<close> is the number of nanoseconds since the zero time, so
  \<open>IsZero\<close> is equality with 0; an \<open>error\<close> result is a string option or the left side of a sum.
  Lower-casing is written for ASCII letters only, the alphabet of the identifiers it is applied to.
\<close>

named_theorems golib \<open>rewrite rules for the Go library functions\<close>
named_theorems inv_defs \<open>definitions of the components' invariants\<close>

section \<open>Machine integers and time\<close>

text \<open>A Go \<open>int\<close> or \<open>int64\<close> keeps the low 64 bits, read as two's complement.\<close>

definition wrap64 :: "int \<Rightarrow> int" where
  "wrap64 x = (x + 2 ^ 63) mod 2 ^ 64 - 2 ^ 63"

lemma wrap64_id: "- (2 ^ 63) \<le> x \<Longrightarrow> x < 2 ^ 63 \<Longrightarrow> wrap64 x = x"
  by (simp add: wrap64_def)

lemma wrap64_nonneg: "0 \<le> x \<Longrightarrow> x \<le> 2 ^ 62 \<Longrightarrow> wrap64 x = x"
  by (rule wrap64_id) simp_all

lemma wrap64_range: "- (2 ^ 63) \<le> wrap64 x" "wrap64 x < 2 ^ 63"
  using pos_mod_sign [of "2 ^ 64" "x + 2 ^ 63"] pos_mod_bound [of "2 ^ 64" "x + 2 ^ 63"]
  by (simp_all add: wrap64_def)

type_synonym gotime = int
type_synonym duration = int

abbreviation (input) zero_time :: gotime where
  "zero_time \<equiv> 0"

text \<open>\<open>Time.Sub\<close> saturates at the bounds of a duration.\<close>

definition time_sub :: "gotime \<Rightarrow> gotime \<Rightarrow> duration" where
  "time_sub a b = max (- (2 ^ 63)) (min (2 ^ 63 - 1) (a - b))"

lemma time_sub_mono: "a \<le> a' \<Longrightarrow> time_sub a b \<le> time_sub a' b"
  by (simp add: time_sub_def)

lemma time_sub_ge_iff:
  "0 < d \<Longrightarrow> d < 2 ^ 63 \<Longrightarrow> d \<le> time_sub a b \<longleftrightarrow> d \<le> a - b"
  by (auto simp: time_sub_def)

section \<open>Strings\<close>

definition lower_char :: "char \<Rightarrow> char" where
  "lower_char c = (let n = (of_char c :: nat) in if 65 \<le> n \<and> n \<le> 90 then char_of (n + 32) else c)"

definition to_lower :: "string \<Rightarrow> string" where
  "to_lower = map lower_char"

definition equal_fold :: "string \<Rightarrow> string \<Rightarrow> bool" where
  "equal_fold s t \<longleftrightarrow> to_lower s = to_lower t"

definition has_prefix :: "string \<Rightarrow> string \<Rightarrow> bool" where
  "has_prefix s p \<longleftrightarrow> prefix p s"

definition has_suffix :: "string \<Rightarrow> string \<Rightarrow> bool" where
  "has_suffix s p \<longleftrightarrow> suffix p s"

definition trim_prefix :: "string \<Rightarrow> string \<Rightarrow> string" where
  "trim_prefix s p = (if has_prefix s p then drop (length p) s else s)"

definition trim_suffix :: "string \<Rightarrow> string \<Rightarrow> string" where
  "trim_suffix s p = (if has_suffix s p then take (length s - length p) s else s)"

text \<open>\<open>strings.Index\<close> and \<open>strings.LastIndex\<close>: the offset, or \<open>None\<close> for the code's -1.\<close>

fun str_index :: "string \<Rightarrow> string \<Rightarrow> nat option" where
  "str_index [] p = (if p = [] then Some 0 else None)"
| "str_index (c # s) p =
     (if has_prefix (c # s) p then Some 0 else map_option Suc (str_index s p))"

fun last_index :: "string \<Rightarrow> string \<Rightarrow> nat option" where
  "last_index [] p = (if p = [] then Some 0 else None)"
| "last_index (c # s) p =
     (case last_index s p of
        Some i \<Rightarrow> Some (Suc i)
      | None \<Rightarrow> if has_prefix (c # s) p then Some 0 else None)"

definition contains :: "string \<Rightarrow> string \<Rightarrow> bool" where
  "contains s p \<longleftrightarrow> str_index s p \<noteq> None"

text \<open>\<open>strings.Split\<close> at a one-byte separator: one piece more than there are separators.\<close>

fun split_on :: "char \<Rightarrow> string \<Rightarrow> string list" where
  "split_on sep [] = [[]]"
| "split_on sep (c # s) =
     (if c = sep then [] # split_on sep s
      else case split_on sep s of [] \<Rightarrow> [[c]] | w # ws \<Rightarrow> (c # w) # ws)"

text \<open>The encodings of the runes \<open>unicode.IsSpace\<close> accepts, which \<open>strings.TrimSpace\<close> removes.\<close>

definition space_runes :: "string list" where
  "space_runes =
     [[CHR 0x09], [CHR 0x0A], [CHR 0x0B],
      [CHR 0x0C], [CHR 0x0D], [CHR 0x20],
      [CHR 0xC2, CHR 0x85], [CHR 0xC2, CHR 0xA0], [CHR 0xE1, CHR 0x9A, CHR 0x80],
      [CHR 0xE2, CHR 0x80, CHR 0x80], [CHR 0xE2, CHR 0x80, CHR 0x81], [CHR 0xE2, CHR 0x80, CHR 0x82],
      [CHR 0xE2, CHR 0x80, CHR 0x83], [CHR 0xE2, CHR 0x80, CHR 0x84], [CHR 0xE2, CHR 0x80, CHR 0x85],
      [CHR 0xE2, CHR 0x80, CHR 0x86], [CHR 0xE2, CHR 0x80, CHR 0x87], [CHR 0xE2, CHR 0x80, CHR 0x88],
      [CHR 0xE2, CHR 0x80, CHR 0x89], [CHR 0xE2, CHR 0x80, CHR 0x8A], [CHR 0xE2, CHR 0x80, CHR 0xA8],
      [CHR 0xE2, CHR 0x80, CHR 0xA9], [CHR 0xE2, CHR 0x80, CHR 0xAF], [CHR 0xE2, CHR 0x81, CHR 0x9F],
      [CHR 0xE3, CHR 0x80, CHR 0x80]]"

text \<open>Strips, from the front, every encoding in the list, as long as one is there.\<close>

function strip_runes :: "string list \<Rightarrow> string \<Rightarrow> string" where
  "strip_runes rs s =
     (case find (\<lambda>r. r \<noteq> [] \<and> prefix r s) rs of
        None \<Rightarrow> s
      | Some r \<Rightarrow> strip_runes rs (drop (length r) s))"
  by pat_completeness auto
termination
  by (relation "measure (\<lambda>(rs, s). length s)") (auto simp: find_Some_iff prefix_def)

declare strip_runes.simps [simp del]

definition trim_left :: "string \<Rightarrow> string" where
  "trim_left = strip_runes space_runes"

definition trim_right :: "string \<Rightarrow> string" where
  "trim_right s = rev (strip_runes (map rev space_runes) (rev s))"

definition trim_space :: "string \<Rightarrow> string" where
  "trim_space s = trim_right (trim_left s)"

lemma strip_runes_suffix: "suffix (strip_runes rs s) s"
proof (induction rs s rule: strip_runes.induct)
  case (1 rs s)
  show ?case
  proof (cases "find (\<lambda>r. r \<noteq> [] \<and> prefix r s) rs")
    case None
    then show ?thesis by (simp add: strip_runes.simps [of rs s])
  next
    case (Some r)
    then have "suffix (strip_runes rs (drop (length r) s)) (drop (length r) s)"
      by (rule "1.IH")
    with Some show ?thesis
      by (simp add: strip_runes.simps [of rs s]) (meson suffix_drop suffix_order.trans)
  qed
qed

lemma strip_runes_Nil [golib, simp]: "strip_runes rs [] = []"
  using strip_runes_suffix [of rs "[]"] by simp

lemma strip_runes_fixed: "strip_runes rs s = s \<longleftrightarrow> (\<forall>r \<in> set rs. r \<noteq> [] \<longrightarrow> \<not> prefix r s)"
proof
  assume fixed: "strip_runes rs s = s"
  show "\<forall>r \<in> set rs. r \<noteq> [] \<longrightarrow> \<not> prefix r s"
  proof (rule ccontr)
    assume "\<not> ?thesis"
    then obtain r where "find (\<lambda>r. r \<noteq> [] \<and> prefix r s) rs = Some r"
      by (cases "find (\<lambda>r. r \<noteq> [] \<and> prefix r s) rs") (auto simp: find_None_iff)
    moreover from this have "r \<noteq> []" "prefix r s" by (auto simp: find_Some_iff)
    moreover have "suffix (strip_runes rs (drop (length r) s)) (drop (length r) s)" by (rule strip_runes_suffix)
    ultimately have "length (strip_runes rs s) < length s"
      using suffix_length_le [OF \<open>suffix _ (drop (length r) s)\<close>] prefix_length_le [OF \<open>prefix r s\<close>]
      by (cases r) (simp_all add: strip_runes.simps [of rs s])
    then show False using fixed by simp
  qed
next
  assume "\<forall>r \<in> set rs. r \<noteq> [] \<longrightarrow> \<not> prefix r s"
  then have "find (\<lambda>r. r \<noteq> [] \<and> prefix r s) rs = None" by (auto simp: find_None_iff)
  then show "strip_runes rs s = s" by (simp add: strip_runes.simps [of rs s])
qed

lemma strip_runes_idem: "strip_runes rs (strip_runes rs s) = strip_runes rs s"
proof (induction rs s rule: strip_runes.induct)
  case (1 rs s)
  show ?case
  proof (cases "find (\<lambda>r. r \<noteq> [] \<and> prefix r s) rs")
    case None
    then show ?thesis by (simp add: strip_runes.simps [of rs s])
  next
    case (Some r)
    then show ?thesis using "1.IH" by (simp add: strip_runes.simps [of rs s])
  qed
qed

lemma trim_space_twice: "trim_space (trim_space s) = trim_space s"
proof -
  define t where "t = trim_left s"
  have l: "strip_runes space_runes t = t" by (simp add: t_def trim_left_def strip_runes_idem)
  have "suffix (strip_runes (map rev space_runes) (rev t)) (rev t)" by (rule strip_runes_suffix)
  then have "prefix (trim_right t) t" by (simp add: trim_right_def suffix_to_prefix)
  then have "strip_runes space_runes (trim_right t) = trim_right t"
    using l unfolding strip_runes_fixed by (meson prefix_order.trans)
  moreover have "trim_right (trim_right t) = trim_right t" by (simp add: trim_right_def strip_runes_idem)
  ultimately show ?thesis by (simp add: trim_space_def t_def trim_left_def)
qed

text \<open>A text that starts and ends with a byte of no space is not trimmed.\<close>

lemma strip_runes_hd:
  assumes "s \<noteq> []" and "\<And>r. r \<in> set rs \<Longrightarrow> r \<noteq> [] \<Longrightarrow> hd r \<noteq> hd s"
  shows "strip_runes rs s = s"
proof -
  have "find (\<lambda>r. r \<noteq> [] \<and> prefix r s) rs = None"
    using assms by (auto simp: find_None_iff prefix_def) (metis assms(2) hd_append2)+
  then show ?thesis by (simp add: strip_runes.simps [of rs s])
qed

lemma trim_space_graphic:
  assumes "s \<noteq> []"
    and "hd s \<notin> hd ` set space_runes" and "last s \<notin> last ` set space_runes"
  shows "trim_space s = s"
proof -
  have "trim_left s = s"
    unfolding trim_left_def using assms(1,2) by (intro strip_runes_hd) (auto, metis imageI)
  moreover have "strip_runes (map rev space_runes) (rev s) = rev s"
    using assms(1,3) by (intro strip_runes_hd) (auto simp: hd_rev, metis imageI)
  ultimately show ?thesis by (simp add: trim_space_def trim_right_def)
qed

lemma length_trim_left: "length (trim_left s) \<le> length s"
  by (simp add: trim_left_def strip_runes_suffix suffix_length_le)

lemma trim_space_Nil [golib, simp]: "trim_space [] = []"
  by (simp add: trim_space_def trim_left_def trim_right_def)

lemma has_prefix_append [golib, simp]: "has_prefix (p @ s) p"
  by (simp add: has_prefix_def)

lemma has_prefix_Nil [golib, simp]: "has_prefix s []"
  by (simp add: has_prefix_def)

lemma trim_prefix_append [golib, simp]: "trim_prefix (p @ s) p = s"
  by (simp add: trim_prefix_def)

lemma length_to_lower [golib, simp]: "length (to_lower s) = length s"
  by (simp add: to_lower_def)

lemma to_lower_Nil [golib, simp]: "to_lower [] = []" and
  to_lower_Cons: "to_lower (c # s) = lower_char c # to_lower s"
  by (simp_all add: to_lower_def)

lemma to_lower_eq_Nil [golib, simp]: "to_lower s = [] \<longleftrightarrow> s = []"
  by (simp add: to_lower_def)

lemma lower_char_idem [simp]: "lower_char (lower_char c) = lower_char c"
proof (cases "65 \<le> (of_char c :: nat) \<and> (of_char c :: nat) \<le> 90")
  case True
  then have "(of_char (char_of ((of_char c :: nat) + 32)) :: nat) = of_char c + 32"
    by (simp add: of_char_of)
  with True show ?thesis by (simp add: lower_char_def Let_def)
next
  case False
  then show ?thesis by (auto simp: lower_char_def Let_def)
qed

lemma to_lower_idem [golib, simp]: "to_lower (to_lower s) = to_lower s"
  by (simp add: to_lower_def)

lemma str_index_bound: "str_index s p = Some i \<Longrightarrow> i + length p \<le> length s"
  by (induction s arbitrary: i)
     (auto split: if_splits simp: has_prefix_def dest: prefix_length_le)

lemma str_index_prefix: "str_index s p = Some i \<Longrightarrow> has_prefix (drop i s) p"
  by (induction s arbitrary: i) (auto split: if_splits)

lemma last_index_bound: "last_index s p = Some i \<Longrightarrow> i + length p \<le> length s"
  by (induction s arbitrary: i)
     (auto split: if_splits option.splits simp: has_prefix_def dest: prefix_length_le)

lemma split_on_nonempty [simp]: "split_on sep s \<noteq> []"
  by (induction s) (auto split: list.splits)

lemma split_on_no_sep: "w \<in> set (split_on sep s) \<Longrightarrow> sep \<notin> set w"
  by (induction s arbitrary: w) (auto split: list.splits if_splits)

lemma split_on_single: "sep \<notin> set s \<Longrightarrow> split_on sep s = [s]"
  by (induction s) auto

lemma split_on_append: "sep \<notin> set a \<Longrightarrow> split_on sep (a @ sep # b) = a # split_on sep b"
  by (induction a) auto

section \<open>Decimal numbers\<close>

definition digit_of :: "char \<Rightarrow> int option" where
  "digit_of c = (let n = (of_char c :: nat) in if 48 \<le> n \<and> n \<le> 57 then Some (int n - 48) else None)"

definition is_digit :: "char \<Rightarrow> bool" where
  "is_digit c \<longleftrightarrow> digit_of c \<noteq> None"

fun digits_val :: "int \<Rightarrow> string \<Rightarrow> int option" where
  "digits_val acc [] = Some acc"
| "digits_val acc (c # s) =
     (case digit_of c of None \<Rightarrow> None | Some d \<Rightarrow> digits_val (10 * acc + d) s)"

text \<open>
  \<open>strconv.Atoi\<close> and \<open>strconv.ParseInt(s, 10, 64)\<close>: an optional sign, at least one digit, and the
  value within 64 bits; everything else is an error.
\<close>

definition atoi :: "string \<Rightarrow> int option" where
  "atoi s =
     (let (neg, ds) =
        (case s of
           [] \<Rightarrow> (False, [])
         | c # r \<Rightarrow> if c = CHR ''-'' then (True, r) else if c = CHR ''+'' then (False, r) else (False, s))
      in if ds = [] then None
         else case digits_val 0 ds of
           None \<Rightarrow> None
         | Some v \<Rightarrow>
             (let w = (if neg then - v else v) in
              if - (2 ^ 63) \<le> w \<and> w < 2 ^ 63 then Some w else None))"

definition digit_char :: "nat \<Rightarrow> char" where
  "digit_char d = char_of (48 + d)"

fun nat_digits :: "nat \<Rightarrow> string" where
  "nat_digits n = (if n < 10 then [digit_char n] else nat_digits (n div 10) @ [digit_char (n mod 10)])"

declare nat_digits.simps [simp del]

text \<open>\<open>strconv.FormatInt(n, 10)\<close> and \<open>strconv.Itoa\<close>.\<close>

definition itoa :: "int \<Rightarrow> string" where
  "itoa n = (if n < 0 then CHR ''-'' # nat_digits (nat (- n)) else nat_digits (nat n))"

lemma digit_char_eval:
  "digit_char 0 = CHR ''0''" "digit_char (Suc 0) = CHR ''1''" "digit_char 1 = CHR ''1''"
  "digit_char 2 = CHR ''2''" "digit_char 3 = CHR ''3''" "digit_char 4 = CHR ''4''"
  "digit_char 5 = CHR ''5''" "digit_char 6 = CHR ''6''" "digit_char 7 = CHR ''7''"
  "digit_char 8 = CHR ''8''" "digit_char 9 = CHR ''9''"
  by code_simp+

lemma digit_of_digit_char: "d < 10 \<Longrightarrow> digit_of (digit_char d) = Some (int d)"
  by (simp add: digit_of_def digit_char_def of_char_of)

lemma digits_val_append:
  "digits_val acc (s @ t) = (case digits_val acc s of None \<Rightarrow> None | Some v \<Rightarrow> digits_val v t)"
  by (induction s arbitrary: acc) (auto split: option.splits)

lemma digits_val_nat_digits: "digits_val 0 (nat_digits n) = Some (int n)"
proof (induction n rule: nat_digits.induct)
  case (1 n)
  show ?case
  proof (cases "n < 10")
    case True
    then show ?thesis by (simp add: nat_digits.simps [of n] digit_of_digit_char)
  next
    case False
    have "n mod 10 < 10" by simp
    moreover have "10 * int (n div 10) + int (n mod 10) = int n"
      by (simp add: zdiv_int zmod_int)
    ultimately show ?thesis using False "1.IH"
      by (simp add: nat_digits.simps [of n] digits_val_append digit_of_digit_char)
  qed
qed

lemma nat_digits_nonempty [simp]: "nat_digits n \<noteq> []"
  by (simp add: nat_digits.simps [of n])

lemma nat_digits_digits: "c \<in> set (nat_digits n) \<Longrightarrow> is_digit c"
proof (induction n rule: nat_digits.induct)
  case (1 n)
  have "is_digit (digit_char d)" if "d < 10" for d
    using that by (simp add: is_digit_def digit_of_digit_char)
  with 1 show ?case
    by (subst (asm) (2) nat_digits.simps) (auto split: if_splits)
qed

lemma not_digit_sign: "\<not> is_digit (CHR ''-'')" "\<not> is_digit (CHR ''+'')"
  by (simp_all add: is_digit_def digit_of_def)

lemma atoi_itoa:
  assumes "- (2 ^ 63) \<le> n" and "n < 2 ^ 63"
  shows "atoi (itoa n) = Some n"
proof (cases "n < 0")
  case True
  with assms show ?thesis by (simp add: atoi_def itoa_def digits_val_nat_digits)
next
  case False
  then obtain c r where cr: "nat_digits (nat n) = c # r"
    using nat_digits_nonempty by (cases "nat_digits (nat n)") auto
  then have "is_digit c" using nat_digits_digits by (metis list.set_intros(1))
  then have "c \<noteq> CHR ''-''" "c \<noteq> CHR ''+''" using not_digit_sign by auto
  with False assms cr digits_val_nat_digits [of "nat n"] show ?thesis
    by (simp add: atoi_def itoa_def)
qed

lemma nat_digits_inject: "nat_digits m = nat_digits n \<longleftrightarrow> m = n"
proof
  assume "nat_digits m = nat_digits n"
  then have "digits_val 0 (nat_digits m) = digits_val 0 (nat_digits n)" by simp
  then show "m = n" unfolding digits_val_nat_digits by simp
qed simp

lemma nat_digits_hd: "nat_digits n \<noteq> CHR ''-'' # r"
  using nat_digits_digits [of "CHR ''-''" n] not_digit_sign by auto

lemma itoa_inject: "itoa m = itoa n \<longleftrightarrow> m = n"
  using nat_digits_hd [of "nat m"] nat_digits_hd [of "nat n", symmetric]
  by (auto simp: itoa_def nat_digits_inject split: if_splits)

lemma itoa_nonempty [simp]: "itoa n \<noteq> []"
  by (simp add: itoa_def)

section \<open>Maps\<close>

text \<open>A predicate on the entries of an association list, over its lookups.\<close>

lemma list_all_map_of:
  assumes "distinct (map fst m)"
  shows "list_all (\<lambda>(k, v). P k v) m \<longleftrightarrow> (\<forall>k v. map_of m k = Some v \<longrightarrow> P k v)"
proof
  assume "list_all (\<lambda>(k, v). P k v) m"
  then show "\<forall>k v. map_of m k = Some v \<longrightarrow> P k v"
    by (auto simp: list_all_iff dest: map_of_SomeD)
next
  assume "\<forall>k v. map_of m k = Some v \<longrightarrow> P k v"
  with assms show "list_all (\<lambda>(k, v). P k v) m"
    by (auto simp: list_all_iff intro: map_of_is_SomeI)
qed

lemma in_set_update: "x \<in> set (AList.update k v m) \<Longrightarrow> x = (k, v) \<or> x \<in> set m"
  by (induction m) (auto split: if_splits)

lemma list_all_update: "list_all P m \<Longrightarrow> P (k, v) \<Longrightarrow> list_all P (AList.update k v m)"
  by (auto simp: list_all_iff dest!: in_set_update)

lemma in_set_delete: "x \<in> set (AList.delete k xs) \<longleftrightarrow> x \<in> set xs \<and> fst x \<noteq> k"
  by (auto simp: AList.delete_eq)

text \<open>Sums over an association list.\<close>

lemma update_fresh: "k \<notin> fst ` set xs \<Longrightarrow> AList.update k v xs = xs @ [(k, v)]"
  by (induction xs) auto

lemma map_of_filter_key: "map_of (filter (\<lambda>x. P (fst x)) xs) k = (if P k then map_of xs k else None)"
  by (induction xs) auto

lemma sum_update:
  fixes f :: "'v \<Rightarrow> int"
  assumes "distinct (map fst xs)"
  shows "sum_list (map (f \<circ> snd) (AList.update k v xs)) =
    sum_list (map (f \<circ> snd) xs) - (case map_of xs k of None \<Rightarrow> 0 | Some x \<Rightarrow> f x) + f v"
  using assms by (induction xs) (auto split: if_splits)

lemma sum_delete:
  fixes f :: "'v \<Rightarrow> int"
  assumes "distinct (map fst xs)"
  shows "sum_list (map (f \<circ> snd) (AList.delete k xs)) =
    sum_list (map (f \<circ> snd) xs) - (case map_of xs k of None \<Rightarrow> 0 | Some x \<Rightarrow> f x)"
  using assms
proof (induction xs)
  case (Cons x xs)
  show ?case
  proof (cases "fst x = k")
    case True
    then have "k \<notin> fst ` set xs" using Cons.prems by auto
    then show ?thesis using True by (cases x) simp
  qed (use Cons in \<open>auto split: option.splits\<close>)
qed simp

lemma sum_keys:
  fixes f :: "'v \<Rightarrow> int"
  assumes "distinct (map fst xs)"
  shows "sum_list (map (f \<circ> snd) xs) = (\<Sum>k \<in> dom (map_of xs). f (the (map_of xs k)))"
proof -
  have "sum_list (map (f \<circ> snd) xs) = sum_list (map (\<lambda>k. f (the (map_of xs k))) (map fst xs))"
  proof -
    have "map (f \<circ> snd) xs = map ((\<lambda>k. f (the (map_of xs k))) \<circ> fst) xs"
      using assms by (intro map_cong) (auto simp: map_of_is_SomeI)
    then show ?thesis by (simp only: map_map)
  qed
  also have "\<dots> = (\<Sum>k \<in> set (map fst xs). f (the (map_of xs k)))"
    using assms by (rule sum_list_distinct_conv_sum_set)
  finally show ?thesis by (simp add: dom_map_of_conv_image_fst)
qed

section \<open>Ordering by a comparison\<close>

text \<open>Byte order of texts, the order of SQLite's default collation and of Go strings.\<close>

fun text_less :: "string \<Rightarrow> string \<Rightarrow> bool" where
  "text_less s [] = False"
| "text_less [] (b # t) = True"
| "text_less (a # s) (b # t) = ((of_char a :: nat) < of_char b \<or> (a = b \<and> text_less s t))"

lemma text_less_irrefl [simp]: "\<not> text_less s s"
  by (induction s) auto

lemma text_less_trans: "text_less s t \<Longrightarrow> text_less t u \<Longrightarrow> text_less s u"
proof (induction s t arbitrary: u rule: text_less.induct)
  case (2 b t)
  then show ?case by (cases u) auto
next
  case (3 a s b t)
  then show ?case by (cases u) auto
qed simp

lemma text_less_linear: "text_less s t \<or> s = t \<or> text_less t s"
proof (induction s t rule: text_less.induct)
  case (1 s)
  then show ?case by (cases s) auto
next
  case (3 a s b t)
  have "a = b" if "(of_char a :: nat) = of_char b" using that by simp
  with 3 show ?case by (auto simp: neq_iff)
qed simp

fun ins_by :: "('a \<Rightarrow> 'a \<Rightarrow> bool) \<Rightarrow> 'a \<Rightarrow> 'a list \<Rightarrow> 'a list" where
  "ins_by le x [] = [x]"
| "ins_by le x (y # ys) = (if le x y then x # y # ys else y # ins_by le x ys)"

definition isort_by :: "('a \<Rightarrow> 'a \<Rightarrow> bool) \<Rightarrow> 'a list \<Rightarrow> 'a list" where
  "isort_by le xs = foldr (ins_by le) xs []"

lemma set_ins_by [simp]: "set (ins_by le x ys) = insert x (set ys)"
  by (induction ys) auto

lemma set_isort_by [simp]: "set (isort_by le xs) = set xs"
  unfolding isort_by_def by (induction xs) auto

lemma sum_isort_by [simp]: "sum_list (map f (isort_by le xs)) = (sum_list (map f xs) :: int)"
proof -
  have "sum_list (map f (ins_by le x ys)) = f x + sum_list (map f ys)" for x ys
    by (induction ys) auto
  then show ?thesis unfolding isort_by_def by (induction xs) auto
qed

lemma length_ins_by [simp]: "length (ins_by le x ys) = Suc (length ys)"
  by (induction ys) auto

lemma length_isort_by [simp]: "length (isort_by le xs) = length xs"
  unfolding isort_by_def by (induction xs) auto

lemma distinct_map_ins_by:
  "distinct (map f (ins_by le x ys)) \<longleftrightarrow> f x \<notin> f ` set ys \<and> distinct (map f ys)"
  by (induction ys) auto

lemma distinct_map_isort_by [simp]: "distinct (map f (isort_by le xs)) = distinct (map f xs)"
proof (induction xs)
  case (Cons x xs)
  have "isort_by le (x # xs) = ins_by le x (isort_by le xs)" by (simp add: isort_by_def)
  with Cons show ?case by (simp add: distinct_map_ins_by)
qed (simp add: isort_by_def)

lemma sorted_ins_by:
  assumes trans: "\<And>x y z. le x y \<Longrightarrow> le y z \<Longrightarrow> le x z" and total: "\<And>x y. le x y \<or> le y x"
  shows "sorted_wrt le ys \<Longrightarrow> sorted_wrt le (ins_by le x ys)"
  using total by (induction ys) (auto intro: trans)

lemma sorted_isort_by:
  assumes "\<And>x y z. le x y \<Longrightarrow> le y z \<Longrightarrow> le x z" and "\<And>x y. le x y \<or> le y x"
  shows "sorted_wrt le (isort_by le xs)"
  unfolding isort_by_def using sorted_ins_by [of le, OF assms] by (induction xs) auto

lemma find_SomeD: "find P xs = Some x \<Longrightarrow> x \<in> set xs \<and> P x"
  by (induction xs) (auto split: if_splits)

end
