(* ===== verification/Labels.thy ===== *)
theory Labels
  imports Base
begin

text \<open>
  \<open>internal/control/labels.go\<close>: which \<open>runs-on\<close> labels make a GitHub job one that this control
  plane handles. The labels that start with the prefix are the ones the runner is registered with.
\<close>

definition DefaultLabelPrefix :: string where
  "DefaultLabelPrefix = ''temperci-''"

definition OwnedLabels :: "string list \<Rightarrow> string \<Rightarrow> string list" where
  "OwnedLabels labels pfx =
     (let p = (if pfx = '''' then DefaultLabelPrefix else pfx) in
      filter (\<lambda>l. has_prefix l p) labels)"

definition IsOwned :: "string list \<Rightarrow> string \<Rightarrow> bool" where
  "IsOwned labels pfx \<longleftrightarrow> 0 < length (OwnedLabels labels pfx)"

lemma OwnedLabels_subset: "set (OwnedLabels labels pfx) \<subseteq> set labels"
  by (auto simp: OwnedLabels_def Let_def)

lemma IsOwned_iff: "IsOwned labels pfx \<longleftrightarrow> OwnedLabels labels pfx \<noteq> []"
  by (simp add: IsOwned_def)

lemma IsOwned_Cons:
  "IsOwned (l # ls) pfx \<longleftrightarrow>
     has_prefix l (if pfx = '''' then DefaultLabelPrefix else pfx) \<or> IsOwned ls pfx"
  by (auto simp: IsOwned_def OwnedLabels_def Let_def)

lemma OwnedLabels_idem: "OwnedLabels (OwnedLabels labels pfx) pfx = OwnedLabels labels pfx"
  by (simp add: OwnedLabels_def Let_def)

end
