(* ===== verification/Assignments.thy ===== *)
theory Assignments
  imports Base "HOL-Library.Multiset"
begin

text \<open>
  \<open>internal/control/assignment.go\<close>: the store of the jobs the control plane accepted. Each method
  of \<open>AssignmentStore\<close> holds the mutex while it reads and changes the store, unlocks, and only then
  writes a copy of the changed job through the persister. A definition here is the locked section:
  it returns the error, or the copy that is to be persisted (\<open>None\<close> when the code returns without
  persisting) and the new store. The clock is an argument. The write that follows is \<open>flushPersist\<close>
  (theory \<open>Persist\<close>), which other operations may overtake.

  The Go map \<open>byID\<close> is an association list with distinct keys, its order the next \<open>range\<close> order.
\<close>

section \<open>Data\<close>

text \<open>\<open>AssignmentStatus\<close> is a string type: a row may carry any text.\<close>

type_synonym status = string

definition AssignmentMinted :: status where "AssignmentMinted = ''minted''"
definition AssignmentAssigned :: status where "AssignmentAssigned = ''assigned''"
definition AssignmentStarted :: status where "AssignmentStarted = ''started''"
definition AssignmentFinished :: status where "AssignmentFinished = ''finished''"
definition AssignmentFailed :: status where "AssignmentFailed = ''failed''"

lemmas status_defs =
  AssignmentMinted_def AssignmentAssigned_def AssignmentStarted_def
  AssignmentFinished_def AssignmentFailed_def

lemma status_distinct [simp]:
  "AssignmentMinted \<noteq> AssignmentAssigned" "AssignmentAssigned \<noteq> AssignmentMinted"
  "AssignmentMinted \<noteq> AssignmentStarted" "AssignmentStarted \<noteq> AssignmentMinted"
  "AssignmentMinted \<noteq> AssignmentFinished" "AssignmentFinished \<noteq> AssignmentMinted"
  "AssignmentMinted \<noteq> AssignmentFailed" "AssignmentFailed \<noteq> AssignmentMinted"
  "AssignmentAssigned \<noteq> AssignmentStarted" "AssignmentStarted \<noteq> AssignmentAssigned"
  "AssignmentAssigned \<noteq> AssignmentFinished" "AssignmentFinished \<noteq> AssignmentAssigned"
  "AssignmentAssigned \<noteq> AssignmentFailed" "AssignmentFailed \<noteq> AssignmentAssigned"
  "AssignmentStarted \<noteq> AssignmentFinished" "AssignmentFinished \<noteq> AssignmentStarted"
  "AssignmentStarted \<noteq> AssignmentFailed" "AssignmentFailed \<noteq> AssignmentStarted"
  "AssignmentFinished \<noteq> AssignmentFailed" "AssignmentFailed \<noteq> AssignmentFinished"
  by (simp_all add: status_defs)

record assignment =
  a_job_id :: int
  a_run_id :: int
  a_org :: string
  a_repo :: string
  a_name :: string
  a_workflow_name :: string
  a_labels :: "string list"
  a_installation_id :: int
  a_runner_name :: string
  a_runner_id :: int
  a_jit :: string
  a_status :: status
  a_created_at :: gotime
  a_assigned_at :: gotime
  a_started_at :: gotime
  a_finished_at :: gotime
  a_agent_id :: string
  a_vm_id :: string
  a_warm_bind :: bool
  a_outcome :: string
  a_error :: string
  a_cache_hits :: int
  a_cache_misses :: int
  a_cache_bytes_in :: int
  a_cache_bytes_out :: int

text \<open>The zero value of the struct, from which composite literals start.\<close>

definition zero_assignment :: assignment where
  "zero_assignment =
     \<lparr> a_job_id = 0, a_run_id = 0, a_org = '''', a_repo = '''', a_name = '''', a_workflow_name = '''',
       a_labels = [], a_installation_id = 0, a_runner_name = '''', a_runner_id = 0, a_jit = '''',
       a_status = '''', a_created_at = 0, a_assigned_at = 0, a_started_at = 0, a_finished_at = 0,
       a_agent_id = '''', a_vm_id = '''', a_warm_bind = False, a_outcome = '''', a_error = '''',
       a_cache_hits = 0, a_cache_misses = 0, a_cache_bytes_in = 0, a_cache_bytes_out = 0 \<rparr>"

text \<open>\<open>minted_sig\<close>: the one-slot channel \<open>minted\<close> holds a token.\<close>

record assignment_store =
  by_id :: "(int \<times> assignment) list"
  pending :: "int list"
  minted_sig :: bool

record status_counts =
  c_minted :: int
  c_assigned :: int
  c_started :: int
  c_finished :: int
  c_failed :: int
  c_total :: int

datatype store_error =
    Unknown_job int
  | Other_agent int
  | Not_assigned_state int status
  | Cannot_finish int status
  | Already int status
  | Not_assigned int status

text \<open>What a method does under the lock: an error, or the copy to persist and the new store.\<close>

type_synonym locked = "store_error + assignment option \<times> assignment_store"

definition NewAssignmentStore :: assignment_store where
  "NewAssignmentStore = \<lparr> by_id = [], pending = [], minted_sig = False \<rparr>"

definition lookup_job :: "assignment_store \<Rightarrow> int \<Rightarrow> assignment option" where
  "lookup_job s j = map_of (by_id s) j"

text \<open>The assignment through the pointer kept in the map.\<close>

definition set_job :: "int \<Rightarrow> assignment \<Rightarrow> assignment_store \<Rightarrow> assignment_store" where
  "set_job j a s = s\<lparr> by_id := AList.update j a (by_id s) \<rparr>"

section \<open>The pending queue\<close>

definition enqueuePendingLocked :: "int \<Rightarrow> assignment_store \<Rightarrow> assignment_store" where
  "enqueuePendingLocked j s =
     (if j \<in> set (pending s) then s else s\<lparr> pending := pending s @ [j] \<rparr>)"

definition removePendingLocked :: "int \<Rightarrow> assignment_store \<Rightarrow> assignment_store" where
  "removePendingLocked j s = s\<lparr> pending := filter (\<lambda>i. i \<noteq> j) (pending s) \<rparr>"

text \<open>A send on a full one-slot channel falls to the \<open>default\<close> case.\<close>

definition signalMinted :: "assignment_store \<Rightarrow> assignment_store" where
  "signalMinted s = s\<lparr> minted_sig := True \<rparr>"

definition is_minted :: "assignment_store \<Rightarrow> int \<Rightarrow> bool" where
  "is_minted s j =
     (case lookup_job s j of None \<Rightarrow> False | Some a \<Rightarrow> a_status a = AssignmentMinted)"

fun find_index :: "('a \<Rightarrow> bool) \<Rightarrow> 'a list \<Rightarrow> nat option" where
  "find_index P [] = None"
| "find_index P (x # xs) = (if P x then Some 0 else map_option Suc (find_index P xs))"

definition wanted_repos :: "string list \<Rightarrow> string list" where
  "wanted_repos cached = filter (\<lambda>r. r \<noteq> '''') (map (\<lambda>r. to_lower (trim_space r)) cached)"

definition repo_wanted :: "string list \<Rightarrow> assignment_store \<Rightarrow> int \<Rightarrow> bool" where
  "repo_wanted want s j =
     (case lookup_job s j of
        None \<Rightarrow> False
      | Some a \<Rightarrow> a_status a = AssignmentMinted \<and> to_lower (a_repo a) \<in> set want)"

definition pickPendingLocked :: "string list \<Rightarrow> assignment_store \<Rightarrow> nat option" where
  "pickPendingLocked cached s =
     (let want = wanted_repos cached;
          fifo = find_index (is_minted s) (pending s)
      in if want \<noteq> []
         then case find_index (repo_wanted want s) (pending s) of Some i \<Rightarrow> Some i | None \<Rightarrow> fifo
         else fifo)"

definition remove_nth :: "nat \<Rightarrow> 'a list \<Rightarrow> 'a list" where
  "remove_nth i xs = take i xs @ drop (Suc i) xs"

section \<open>Operations\<close>

definition Put :: "gotime \<Rightarrow> assignment \<Rightarrow> assignment_store \<Rightarrow> assignment \<times> assignment_store" where
  "Put now a s =
     (let cp = (if a_created_at a = 0 then a\<lparr> a_created_at := now \<rparr> else a);
          prev = lookup_job s (a_job_id a);
          s1 = set_job (a_job_id a) cp s;
          s2 = (if a_status cp = AssignmentMinted
                then signalMinted
                  (case prev of
                     None \<Rightarrow> enqueuePendingLocked (a_job_id a) s1
                   | Some q \<Rightarrow> if a_status q \<noteq> AssignmentMinted
                               then enqueuePendingLocked (a_job_id a) s1 else s1)
                else s1)
      in (cp, s2))"

definition Get :: "int \<Rightarrow> assignment_store \<Rightarrow> assignment option" where
  "Get j s = lookup_job s j"

definition GetByRunnerName :: "string \<Rightarrow> assignment_store \<Rightarrow> assignment option" where
  "GetByRunnerName name s =
     (let n = trim_space name in
      if n = '''' then None
      else find (\<lambda>a. a_runner_name a = n) (map snd (by_id s)))"

definition Len :: "assignment_store \<Rightarrow> int" where
  "Len s = int (length (by_id s))"

definition PendingLen :: "assignment_store \<Rightarrow> int" where
  "PendingLen s = int (length (pending s))"

text \<open>
  \<open>WaitMinted\<close>: \<open>None\<close> while it blocks, otherwise the store it leaves (taking the token empties the
  channel). The event is the case of the \<open>select\<close> that is tried.
\<close>

datatype wait_event = Ctx_done | Timer_fired | Token

fun WaitMinted :: "duration \<Rightarrow> wait_event \<Rightarrow> assignment_store \<Rightarrow> assignment_store option" where
  "WaitMinted d ev s =
     (if d \<le> 0 \<or> 0 < PendingLen s then Some s
      else case ev of
        Ctx_done \<Rightarrow> Some s
      | Timer_fired \<Rightarrow> Some s
      | Token \<Rightarrow> if minted_sig s then Some (s\<lparr> minted_sig := False \<rparr>) else None)"

definition assign_to :: "gotime \<Rightarrow> string \<Rightarrow> assignment \<Rightarrow> assignment" where
  "assign_to now agent a =
     a\<lparr> a_status := AssignmentAssigned, a_agent_id := agent, a_assigned_at := now \<rparr>"

lemma find_index_bound: "find_index P xs = Some i \<Longrightarrow> i < length xs"
  by (induction xs arbitrary: i) (auto split: if_splits)

lemma pickPending_bound: "pickPendingLocked cached s = Some i \<Longrightarrow> i < length (pending s)"
  by (auto simp: pickPendingLocked_def Let_def split: if_splits option.splits
      dest: find_index_bound)

function claimNextUnlocked ::
  "gotime \<Rightarrow> string \<Rightarrow> string list \<Rightarrow> assignment_store \<Rightarrow> assignment option \<times> assignment_store" where
  "claimNextUnlocked now agent cached s =
     (case pickPendingLocked cached s of
        None \<Rightarrow> (None, s)
      | Some i \<Rightarrow>
          (let j = pending s ! i;
               s1 = s\<lparr> pending := remove_nth i (pending s) \<rparr>
           in case lookup_job s1 j of
                None \<Rightarrow> claimNextUnlocked now agent cached s1
              | Some a \<Rightarrow>
                  if a_status a \<noteq> AssignmentMinted then claimNextUnlocked now agent cached s1
                  else (let a' = assign_to now agent a in (Some a', set_job j a' s1))))"
  by pat_completeness auto
termination
  by (relation "measure (\<lambda>(now, agent, cached, s). length (pending s))")
     (auto dest!: pickPending_bound simp: remove_nth_def)

declare claimNextUnlocked.simps [simp del]

text \<open>The caller persists the job that is returned, when there is one.\<close>

definition ClaimNext ::
  "gotime \<Rightarrow> string \<Rightarrow> string list \<Rightarrow> assignment_store \<Rightarrow> assignment option \<times> assignment_store" where
  "ClaimNext now agent cached s =
     (if agent = '''' then (None, s)
      else case pickPendingLocked cached s of
        None \<Rightarrow> (None, s)
      | Some i \<Rightarrow>
          (let j = pending s ! i;
               s1 = s\<lparr> pending := remove_nth i (pending s) \<rparr>
           in case lookup_job s1 j of
                None \<Rightarrow> claimNextUnlocked now agent cached s1
              | Some a \<Rightarrow>
                  if a_status a \<noteq> AssignmentMinted then claimNextUnlocked now agent cached s1
                  else (let a' = assign_to now agent a in (Some a', set_job j a' s1))))"

definition SetIdentity ::
  "int \<Rightarrow> string \<Rightarrow> string \<Rightarrow> assignment_store \<Rightarrow> assignment option \<times> assignment_store" where
  "SetIdentity j name wname s =
     (if j = 0 \<or> (name = '''' \<and> wname = '''') then (None, s)
      else case lookup_job s j of
        None \<Rightarrow> (None, s)
      | Some a \<Rightarrow>
          (let (a1, ch1) = (if name \<noteq> '''' \<and> a_name a \<noteq> name
                            then (a\<lparr> a_name := name \<rparr>, True) else (a, False));
               (a2, ch2) = (if wname \<noteq> '''' \<and> a_workflow_name a1 \<noteq> wname
                            then (a1\<lparr> a_workflow_name := wname \<rparr>, True) else (a1, ch1))
           in if \<not> ch2 then (None, s) else (Some a2, set_job j a2 s)))"

definition SetCacheStats ::
  "int \<Rightarrow> int \<Rightarrow> int \<Rightarrow> int \<Rightarrow> int \<Rightarrow> assignment_store \<Rightarrow> locked" where
  "SetCacheStats j hits misses bytes_in bytes_out s =
     (case lookup_job s j of
        None \<Rightarrow> Inl (Unknown_job j)
      | Some a \<Rightarrow>
          (let a' = a\<lparr> a_cache_hits := hits, a_cache_misses := misses,
                       a_cache_bytes_in := bytes_in, a_cache_bytes_out := bytes_out \<rparr>
           in Inr (Some a', set_job j a' s)))"

definition start_record :: "gotime \<Rightarrow> string \<Rightarrow> string \<Rightarrow> bool \<Rightarrow> assignment \<Rightarrow> assignment" where
  "start_record now agent vm warm a =
     (let a1 = a\<lparr> a_status := AssignmentStarted, a_agent_id := agent,
                  a_vm_id := vm, a_warm_bind := warm \<rparr>
      in if a_started_at a1 = 0 then a1\<lparr> a_started_at := now \<rparr> else a1)"

definition MarkStarted ::
  "gotime \<Rightarrow> int \<Rightarrow> string \<Rightarrow> string \<Rightarrow> bool \<Rightarrow> assignment_store \<Rightarrow> locked" where
  "MarkStarted now j agent vm warm s =
     (case lookup_job s j of
        None \<Rightarrow> Inl (Unknown_job j)
      | Some a \<Rightarrow>
          if a_agent_id a \<noteq> '''' \<and> a_agent_id a \<noteq> agent then Inl (Other_agent j)
          else if a_status a \<noteq> AssignmentAssigned \<and> a_status a \<noteq> AssignmentStarted
          then Inl (Not_assigned_state j (a_status a))
          else
            (let a' = start_record now agent vm warm a in Inr (Some a', set_job j a' s)))"

text \<open>The update of the record once the guards of \<open>MarkFinished\<close> have passed.\<close>

definition finish_record ::
  "gotime \<Rightarrow> string \<Rightarrow> string \<Rightarrow> string \<Rightarrow> bool \<Rightarrow> string \<Rightarrow> assignment \<Rightarrow> assignment" where
  "finish_record now agent outcome vm warm msg a =
     (let already = (a_status a = AssignmentFinished);
          a1 = a\<lparr> a_status := AssignmentFinished, a_agent_id := agent \<rparr>;
          a2 = (if \<not> already
                then (let b = a1\<lparr> a_outcome := outcome \<rparr>
                      in if msg \<noteq> '''' then b\<lparr> a_error := msg \<rparr> else b)
                else a1);
          a3 = (if vm \<noteq> '''' then a2\<lparr> a_vm_id := vm \<rparr> else a2);
          a4 = a3\<lparr> a_warm_bind := (warm \<or> a_warm_bind a3) \<rparr>;
          a5 = (if a_finished_at a4 = 0 then a4\<lparr> a_finished_at := now \<rparr> else a4)
      in a5\<lparr> a_jit := '''' \<rparr>)"

definition MarkFinished ::
  "gotime \<Rightarrow> int \<Rightarrow> string \<Rightarrow> string \<Rightarrow> string \<Rightarrow> bool \<Rightarrow> string \<Rightarrow> assignment_store \<Rightarrow> locked" where
  "MarkFinished now j agent outcome vm warm msg s =
     (case lookup_job s j of
        None \<Rightarrow> Inl (Unknown_job j)
      | Some a \<Rightarrow>
          if a_agent_id a \<noteq> '''' \<and> a_agent_id a \<noteq> agent then Inl (Other_agent j)
          else if a_status a \<noteq> AssignmentAssigned \<and> a_status a \<noteq> AssignmentStarted
               \<and> a_status a \<noteq> AssignmentFinished
          then Inl (Cannot_finish j (a_status a))
          else (let a' = finish_record now agent outcome vm warm msg a
                in Inr (Some a', set_job j a' s)))"

text \<open>The update shared by \<open>ApplyGitHubOutcome\<close> and \<open>Cancel\<close>.\<close>

definition close_record :: "gotime \<Rightarrow> string \<Rightarrow> string \<Rightarrow> assignment \<Rightarrow> assignment" where
  "close_record now outcome msg a =
     (let a1 = a\<lparr> a_status := AssignmentFinished, a_outcome := outcome \<rparr>;
          a2 = (if msg \<noteq> '''' then a1\<lparr> a_error := msg \<rparr> else a1);
          a3 = (if a_finished_at a2 = 0 then a2\<lparr> a_finished_at := now \<rparr> else a2)
      in a3\<lparr> a_jit := '''' \<rparr>)"

definition ApplyGitHubOutcome ::
  "gotime \<Rightarrow> int \<Rightarrow> string \<Rightarrow> string \<Rightarrow> assignment_store \<Rightarrow> locked" where
  "ApplyGitHubOutcome now j outcome msg s =
     (case lookup_job s j of
        None \<Rightarrow> Inl (Unknown_job j)
      | Some a \<Rightarrow>
          (let a' = close_record now outcome msg a in Inr (Some a', set_job j a' s)))"

definition Cancel :: "gotime \<Rightarrow> int \<Rightarrow> string \<Rightarrow> assignment_store \<Rightarrow> locked" where
  "Cancel now j reason s =
     (case lookup_job s j of
        None \<Rightarrow> Inl (Unknown_job j)
      | Some a \<Rightarrow>
          if a_status a = AssignmentFinished \<and> a_outcome a = ''cancelled'' then Inr (None, s)
          else if a_status a = AssignmentFinished \<or> a_status a = AssignmentFailed
          then Inl (Already j (a_status a))
          else
            (let a' = close_record now ''cancelled'' reason a
             in Inr (Some a', removePendingLocked (a_job_id a) (set_job j a' s))))"

definition MarkFailed ::
  "int \<Rightarrow> string \<Rightarrow> assignment_store \<Rightarrow> assignment option \<times> assignment_store" where
  "MarkFailed j msg s =
     (case lookup_job s j of
        None \<Rightarrow> (None, s)
      | Some a \<Rightarrow>
          (let a' = a\<lparr> a_status := AssignmentFailed, a_error := msg, a_jit := '''' \<rparr>
           in (Some a', removePendingLocked j (set_job j a' s))))"

definition RequeueAssigned :: "int \<Rightarrow> assignment_store \<Rightarrow> locked" where
  "RequeueAssigned j s =
     (case lookup_job s j of
        None \<Rightarrow> Inl (Unknown_job j)
      | Some a \<Rightarrow>
          if a_status a \<noteq> AssignmentAssigned then Inl (Not_assigned j (a_status a))
          else
            (let a' = a\<lparr> a_status := AssignmentMinted, a_agent_id := '''',
                         a_assigned_at := 0, a_vm_id := '''' \<rparr>
             in Inr (Some a', enqueuePendingLocked j (set_job j a' s))))"

section \<open>Listings and pruning\<close>

text \<open>\<open>sort.Slice\<close> is not stable; the order of equal times is the order the map was visited in.\<close>

definition ListRecent :: "int \<Rightarrow> assignment_store \<Rightarrow> assignment list" where
  "ListRecent limit s =
     (let lim = (if limit \<le> 0 then 50 else limit);
          all = sort_key (\<lambda>a. - a_created_at a) (map (\<lambda>(_, a). a\<lparr> a_jit := '''' \<rparr>) (by_id s))
      in if lim < int (length all) then take (nat lim) all else all)"

definition count_one :: "assignment \<Rightarrow> status_counts \<Rightarrow> status_counts" where
  "count_one a c =
     (let c1 = c\<lparr> c_total := c_total c + 1 \<rparr>; st = a_status a in
      if st = AssignmentMinted then c1\<lparr> c_minted := c_minted c1 + 1 \<rparr>
      else if st = AssignmentAssigned then c1\<lparr> c_assigned := c_assigned c1 + 1 \<rparr>
      else if st = AssignmentStarted then c1\<lparr> c_started := c_started c1 + 1 \<rparr>
      else if st = AssignmentFinished then c1\<lparr> c_finished := c_finished c1 + 1 \<rparr>
      else if st = AssignmentFailed then c1\<lparr> c_failed := c_failed c1 + 1 \<rparr>
      else c1)"

definition CountByStatus :: "assignment_store \<Rightarrow> status_counts" where
  "CountByStatus s =
     fold count_one (map snd (by_id s))
       \<lparr> c_minted = 0, c_assigned = 0, c_started = 0, c_finished = 0, c_failed = 0, c_total = 0 \<rparr>"

definition stuck :: "gotime \<Rightarrow> duration \<Rightarrow> assignment \<Rightarrow> bool" where
  "stuck now age a \<longleftrightarrow>
     (a_status a = AssignmentAssigned \<or> a_status a = AssignmentStarted) \<and>
     (let r1 = (if a_status a = AssignmentStarted \<and> a_started_at a \<noteq> 0
                then a_started_at a else a_assigned_at a);
          r2 = (if r1 = 0 then a_created_at a else r1)
      in \<not> (r2 = 0 \<or> time_sub now r2 < age))"

definition ListStuck :: "gotime \<Rightarrow> duration \<Rightarrow> assignment_store \<Rightarrow> assignment list" where
  "ListStuck now age s = (if age \<le> 0 then [] else filter (stuck now age) (map snd (by_id s)))"

definition stale_minted :: "gotime \<Rightarrow> duration \<Rightarrow> assignment \<Rightarrow> bool" where
  "stale_minted now age a \<longleftrightarrow>
     a_status a = AssignmentMinted \<and>
     \<not> (a_created_at a = 0 \<or> time_sub now (a_created_at a) < age)"

definition ListStaleMinted :: "gotime \<Rightarrow> duration \<Rightarrow> assignment_store \<Rightarrow> assignment list" where
  "ListStaleMinted now age s =
     (if age \<le> 0 then [] else filter (stale_minted now age) (map snd (by_id s)))"

definition prunable :: "gotime \<Rightarrow> duration \<Rightarrow> assignment \<Rightarrow> bool" where
  "prunable now older a \<longleftrightarrow>
     (a_status a = AssignmentFinished \<or> a_status a = AssignmentFailed) \<and>
     (let ref = (if a_finished_at a = 0 then a_created_at a else a_finished_at a)
      in \<not> (ref = 0 \<or> time_sub now ref < older))"

text \<open>The persister's own pruning, when it has one, is \<open>db_prune_finished\<close> of theory \<open>Persist\<close>.\<close>

definition PruneFinished ::
  "gotime \<Rightarrow> duration \<Rightarrow> assignment_store \<Rightarrow> int \<times> assignment_store" where
  "PruneFinished now older s =
     (if older \<le> 0 then (0, s)
      else (int (length (filter (\<lambda>(_, a). prunable now older a) (by_id s))),
            s\<lparr> by_id := filter (\<lambda>(_, a). \<not> prunable now older a) (by_id s) \<rparr>))"

text \<open>
  \<open>loadLocked\<close> on what \<open>LoadAll\<close> returned (\<open>None\<close> for its error): a nil entry or one with job id 0
  is skipped, a later entry replaces an earlier one in the map, and every minted entry is sorted by
  creation time and job id into the queue.
\<close>

definition loadable :: "assignment option \<Rightarrow> bool" where
  "loadable x \<longleftrightarrow> (case x of None \<Rightarrow> False | Some a \<Rightarrow> a_job_id a \<noteq> 0)"

text \<open>The \<open>less\<close> function of \<open>sort.Slice\<close> in \<open>loadLocked\<close>, as a total order.\<close>

definition earlier :: "assignment \<Rightarrow> assignment \<Rightarrow> bool" where
  "earlier a b \<longleftrightarrow>
     (if a_created_at a = a_created_at b then a_job_id a \<le> a_job_id b
      else a_created_at a < a_created_at b)"

definition sort_minted :: "assignment list \<Rightarrow> assignment list" where
  "sort_minted as = isort_by earlier as"

definition loadLocked ::
  "assignment option list option \<Rightarrow> assignment_store \<Rightarrow> assignment_store option" where
  "loadLocked loaded s =
     (case loaded of
        None \<Rightarrow> None
      | Some all \<Rightarrow>
          (let good = map the (filter loadable all);
               m = fold (\<lambda>a m. AList.update (a_job_id a) a m) good [];
               minted = sort_minted (filter (\<lambda>a. a_status a = AssignmentMinted) good)
           in Some (fold (\<lambda>a t. enqueuePendingLocked (a_job_id a) t) minted
                      (s\<lparr> by_id := m, pending := [] \<rparr>))))"

section \<open>The operations as one step function\<close>

datatype store_op =
    Op_put assignment
  | Op_claim string "string list"
  | Op_identity int string string
  | Op_cache_stats int int int int int
  | Op_started int string string bool
  | Op_finished int string string string bool string
  | Op_github int string string
  | Op_cancel int string
  | Op_failed int string
  | Op_requeue int
  | Op_prune duration
  | Op_wait duration wait_event

text \<open>The error of the call, the copy it hands to the persister, the new store.\<close>

type_synonym op_result = "store_error option \<times> assignment option \<times> assignment_store"

definition of_locked :: "assignment_store \<Rightarrow> locked \<Rightarrow> op_result" where
  "of_locked s r = (case r of Inl e \<Rightarrow> (Some e, None, s) | Inr (f, s') \<Rightarrow> (None, f, s'))"

fun run_op :: "gotime \<Rightarrow> store_op \<Rightarrow> assignment_store \<Rightarrow> op_result" where
  "run_op now (Op_put a) s = (let (cp, s') = Put now a s in (None, Some cp, s'))"
| "run_op now (Op_claim agent cached) s = (None, ClaimNext now agent cached s)"
| "run_op now (Op_identity j name wname) s = (None, SetIdentity j name wname s)"
| "run_op now (Op_cache_stats j h m i out) s = of_locked s (SetCacheStats j h m i out s)"
| "run_op now (Op_started j agent vm warm) s = of_locked s (MarkStarted now j agent vm warm s)"
| "run_op now (Op_finished j agent outcome vm warm msg) s =
     of_locked s (MarkFinished now j agent outcome vm warm msg s)"
| "run_op now (Op_github j outcome msg) s = of_locked s (ApplyGitHubOutcome now j outcome msg s)"
| "run_op now (Op_cancel j reason) s = of_locked s (Cancel now j reason s)"
| "run_op now (Op_failed j msg) s = (None, MarkFailed j msg s)"
| "run_op now (Op_requeue j) s = of_locked s (RequeueAssigned j s)"
| "run_op now (Op_prune older) s = (None, None, snd (PruneFinished now older s))"
| "run_op now (Op_wait d ev) s =
     (None, None, case WaitMinted d ev s of None \<Rightarrow> s | Some s' \<Rightarrow> s')"

definition op_store :: "gotime \<Rightarrow> store_op \<Rightarrow> assignment_store \<Rightarrow> assignment_store" where
  "op_store now op s = snd (snd (run_op now op s))"

definition run_ops :: "(gotime \<times> store_op) list \<Rightarrow> assignment_store \<Rightarrow> assignment_store" where
  "run_ops ops s = fold (\<lambda>(now, op) t. op_store now op t) ops s"

section \<open>Invariant\<close>

text \<open>
  Keys are distinct and are the job ids, no job is queued twice, and every minted job is queued.
  (The converse fails: an outcome that GitHub reports for an unclaimed job leaves its id queued.)
\<close>

definition store_inv :: "assignment_store \<Rightarrow> bool" where
  "store_inv s \<longleftrightarrow>
     distinct (map fst (by_id s)) \<and> list_all (\<lambda>(k, a). a_job_id a = k) (by_id s) \<and>
     distinct (pending s) \<and>
     list_all (\<lambda>(k, a). a_status a = AssignmentMinted \<longrightarrow> k \<in> set (pending s)) (by_id s)"

lemma lookup_set_job [simp]:
  "lookup_job (set_job j a s) k = (if k = j then Some a else lookup_job s k)"
  by (simp add: lookup_job_def set_job_def AList.update_conv')

lemma lookup_job_frame [simp]:
  "lookup_job (enqueuePendingLocked j s) = lookup_job s"
  "lookup_job (removePendingLocked j s) = lookup_job s"
  "lookup_job (signalMinted s) = lookup_job s"
  "lookup_job (s\<lparr> pending := q \<rparr>) = lookup_job s"
  "lookup_job (s\<lparr> minted_sig := b \<rparr>) = lookup_job s"
  by (auto simp: lookup_job_def enqueuePendingLocked_def removePendingLocked_def signalMinted_def
      fun_eq_iff)

lemma pending_frame [simp]:
  "pending (set_job j a s) = pending s"
  "pending (signalMinted s) = pending s"
  by (simp_all add: set_job_def signalMinted_def)

lemma by_id_frame [simp]:
  "by_id (enqueuePendingLocked j s) = by_id s"
  "by_id (removePendingLocked j s) = by_id s"
  "by_id (signalMinted s) = by_id s"
  by (simp_all add: enqueuePendingLocked_def removePendingLocked_def signalMinted_def)

lemma set_pending [simp]:
  "set (pending (enqueuePendingLocked j s)) = insert j (set (pending s))"
  "set (pending (removePendingLocked j s)) = set (pending s) - {j}"
  by (auto simp: enqueuePendingLocked_def removePendingLocked_def)

lemma distinct_pending [simp]:
  "distinct (pending (enqueuePendingLocked j s)) = distinct (pending s)"
  "distinct (pending s) \<Longrightarrow> distinct (pending (removePendingLocked j s))"
  by (auto simp: enqueuePendingLocked_def removePendingLocked_def)

lemma is_minted_iff:
  "is_minted s j \<longleftrightarrow> (\<exists>a. lookup_job s j = Some a \<and> a_status a = AssignmentMinted)"
  by (simp add: is_minted_def split: option.splits)

lemma is_minted_frame [simp]:
  "is_minted (s\<lparr> pending := q \<rparr>) = is_minted s"
  "is_minted (set_job j a s) k =
     (if k = j then a_status a = AssignmentMinted else is_minted s k)"
  by (auto simp: is_minted_def fun_eq_iff)

lemma store_inv_iff:
  "store_inv s \<longleftrightarrow>
     distinct (map fst (by_id s)) \<and>
     (\<forall>k a. lookup_job s k = Some a \<longrightarrow> a_job_id a = k) \<and>
     distinct (pending s) \<and> (\<forall>k. is_minted s k \<longrightarrow> k \<in> set (pending s))"
  by (cases "distinct (map fst (by_id s))")
     (simp_all add: store_inv_def list_all_map_of lookup_job_def is_minted_iff, blast)

lemma store_invD:
  assumes "store_inv s"
  shows "distinct (pending s)" and "distinct (map fst (by_id s))"
    and "is_minted s k \<Longrightarrow> k \<in> set (pending s)"
    and "lookup_job s k = Some a \<Longrightarrow> a_job_id a = k"
  using assms by (auto simp: store_inv_iff)

lemma distinct_keys_set_job [simp]:
  "distinct (map fst (by_id s)) \<Longrightarrow> distinct (map fst (by_id (set_job j a s)))"
  by (simp add: set_job_def AList.distinct_update)

lemma set_job_inv:
  "store_inv s \<Longrightarrow> a_job_id a = j \<Longrightarrow> (a_status a = AssignmentMinted \<longrightarrow> j \<in> set (pending s)) \<Longrightarrow>
   store_inv (set_job j a s)"
  by (simp add: store_inv_iff)

lemma enqueue_inv: "store_inv s \<Longrightarrow> store_inv (enqueuePendingLocked j s)"
  by (simp add: store_inv_iff is_minted_iff)

lemma enqueue_set_job_inv:
  "store_inv s \<Longrightarrow> a_job_id a = j \<Longrightarrow> store_inv (enqueuePendingLocked j (set_job j a s))"
  by (auto simp: store_inv_iff is_minted_iff)

lemma remove_inv: "store_inv s \<Longrightarrow> \<not> is_minted s j \<Longrightarrow> store_inv (removePendingLocked j s)"
  by (auto simp: store_inv_iff is_minted_iff)

lemma set_remove_nth:
  "distinct xs \<Longrightarrow> i < length xs \<Longrightarrow> set (remove_nth i xs) = set xs - {xs ! i}"
proof -
  assume d: "distinct xs" and i: "i < length xs"
  then have xs: "xs = take i xs @ xs ! i # drop (Suc i) xs"
    by (simp add: id_take_nth_drop)
  have "distinct (take i xs @ xs ! i # drop (Suc i) xs)" using d xs by simp
  moreover have "set xs = set (take i xs) \<union> {xs ! i} \<union> set (drop (Suc i) xs)"
    by (subst xs) auto
  ultimately show ?thesis by (auto simp: remove_nth_def)
qed

lemma distinct_remove_nth: "distinct xs \<Longrightarrow> distinct (remove_nth i xs)"
  by (auto simp: remove_nth_def set_take_disj_set_drop_if_distinct)

lemma pop_unminted_inv:
  "store_inv s \<Longrightarrow> i < length (pending s) \<Longrightarrow> \<not> is_minted s (pending s ! i) \<Longrightarrow>
   store_inv (s\<lparr> pending := remove_nth i (pending s) \<rparr>)"
  by (auto simp: store_inv_iff set_remove_nth distinct_remove_nth is_minted_iff)

lemma pop_set_job_inv:
  "store_inv s \<Longrightarrow> i < length (pending s) \<Longrightarrow> pending s ! i = j \<Longrightarrow> a_job_id a = j \<Longrightarrow>
   a_status a \<noteq> AssignmentMinted \<Longrightarrow>
   store_inv (set_job j a (s\<lparr> pending := remove_nth i (pending s) \<rparr>))"
  by (auto simp: store_inv_iff set_remove_nth distinct_remove_nth set_job_def is_minted_iff lookup_job_def AList.update_conv' AList.distinct_update)

section \<open>Claiming\<close>

lemma find_index_Some_iff:
  "find_index P xs = Some i \<longleftrightarrow> i < length xs \<and> P (xs ! i) \<and> (\<forall>k < i. \<not> P (xs ! k))"
proof (induction xs arbitrary: i)
  case (Cons x xs)
  then show ?case
    by (cases i) (auto simp: less_Suc_eq_0_disj split: if_splits)
qed simp

lemma find_index_None_iff: "find_index P xs = None \<longleftrightarrow> (\<forall>x \<in> set xs. \<not> P x)"
  by (induction xs) auto

lemma repo_wanted_minted: "repo_wanted want s j \<Longrightarrow> is_minted s j"
  by (auto simp: repo_wanted_def is_minted_def split: option.splits)

lemma pickPending_minted:
  "pickPendingLocked cached s = Some i \<Longrightarrow> is_minted s (pending s ! i)"
  by (auto simp: pickPendingLocked_def Let_def find_index_Some_iff split: if_splits option.splits
      dest: repo_wanted_minted)

lemma pickPending_None_iff:
  "pickPendingLocked cached s = None \<longleftrightarrow> (\<forall>j \<in> set (pending s). \<not> is_minted s j)"
proof
  assume "pickPendingLocked cached s = None"
  then have "find_index (is_minted s) (pending s) = None"
    by (simp add: pickPendingLocked_def Let_def split: if_splits option.splits)
  then show "\<forall>j \<in> set (pending s). \<not> is_minted s j" by (simp add: find_index_None_iff)
next
  assume "\<forall>j \<in> set (pending s). \<not> is_minted s j"
  then show "pickPendingLocked cached s = None"
    using pickPending_bound pickPending_minted by (metis not_None_eq nth_mem)
qed

text \<open>The choice found a minted job, so the retry after a stale entry is never taken.\<close>

lemma ClaimNext_step:
  "agent \<noteq> '''' \<Longrightarrow> pickPendingLocked cached s = Some i \<Longrightarrow>
   \<exists>a. lookup_job s (pending s ! i) = Some a \<and> a_status a = AssignmentMinted \<and>
     ClaimNext now agent cached s =
       (Some (assign_to now agent a),
        set_job (pending s ! i) (assign_to now agent a)
          (s\<lparr> pending := remove_nth i (pending s) \<rparr>))"
  using pickPending_minted [of cached s i]
  by (auto simp: ClaimNext_def is_minted_iff Let_def)

lemma ClaimNext_cases:
  obtains (none) "ClaimNext now agent cached s = (None, s)"
      "agent = '''' \<or> pickPendingLocked cached s = None"
  | (some) i a where "agent \<noteq> ''''" "pickPendingLocked cached s = Some i" "i < length (pending s)"
      "lookup_job s (pending s ! i) = Some a" "a_status a = AssignmentMinted"
      "ClaimNext now agent cached s =
         (Some (assign_to now agent a),
          set_job (pending s ! i) (assign_to now agent a)
            (s\<lparr> pending := remove_nth i (pending s) \<rparr>))"
proof (cases "agent = '''' \<or> pickPendingLocked cached s = None")
  case True
  then show ?thesis by (intro none) (auto simp: ClaimNext_def)
next
  case False
  then obtain i where i: "agent \<noteq> ''''" "pickPendingLocked cached s = Some i" by auto
  from ClaimNext_step [OF this] i pickPending_bound show ?thesis by (blast intro: some)
qed

lemma assign_to_simps [simp]:
  "a_job_id (assign_to now agent a) = a_job_id a"
  "a_status (assign_to now agent a) = AssignmentAssigned"
  "a_agent_id (assign_to now agent a) = agent"
  "a_assigned_at (assign_to now agent a) = now"
  by (simp_all add: assign_to_def)

lemma ClaimNext_inv:
  assumes inv: "store_inv s"
  shows "store_inv (snd (ClaimNext now agent cached s))"
  using ClaimNext_cases [of now agent cached s]
proof cases
  case none
  with inv show ?thesis by simp
next
  case (some i a)
  with inv show ?thesis by (simp add: pop_set_job_inv store_invD(4) [OF inv])
qed

section \<open>The updated records\<close>

lemma start_record_simps [simp]:
  "a_job_id (start_record now agent vm warm a) = a_job_id a"
  "a_status (start_record now agent vm warm a) = AssignmentStarted"
  "a_agent_id (start_record now agent vm warm a) = agent"
  "a_jit (start_record now agent vm warm a) = a_jit a"
  "a_outcome (start_record now agent vm warm a) = a_outcome a"
  by (simp_all add: start_record_def Let_def)

lemma finish_record_simps [simp]:
  "a_job_id (finish_record now agent outcome vm warm msg a) = a_job_id a"
  "a_status (finish_record now agent outcome vm warm msg a) = AssignmentFinished"
  "a_agent_id (finish_record now agent outcome vm warm msg a) = agent"
  "a_jit (finish_record now agent outcome vm warm msg a) = []"
  "a_outcome (finish_record now agent outcome vm warm msg a) =
     (if a_status a = AssignmentFinished then a_outcome a else outcome)"
  "a_error (finish_record now agent outcome vm warm msg a) =
     (if a_status a = AssignmentFinished \<or> msg = [] then a_error a else msg)"
  "a_finished_at (finish_record now agent outcome vm warm msg a) =
     (if a_finished_at a = 0 then now else a_finished_at a)"
  by (simp_all add: finish_record_def Let_def)

lemma close_record_simps [simp]:
  "a_job_id (close_record now outcome msg a) = a_job_id a"
  "a_status (close_record now outcome msg a) = AssignmentFinished"
  "a_jit (close_record now outcome msg a) = []"
  "a_outcome (close_record now outcome msg a) = outcome"
  "a_finished_at (close_record now outcome msg a) =
     (if a_finished_at a = 0 then now else a_finished_at a)"
  by (simp_all add: close_record_def Let_def)

section \<open>Every operation keeps the invariant\<close>

lemma Put_inv: "store_inv s \<Longrightarrow> store_inv (snd (Put now a s))"
  by (auto simp: Put_def Let_def store_inv_iff is_minted_iff split: option.splits)

lemma SetIdentity_inv: "store_inv s \<Longrightarrow> store_inv (snd (SetIdentity j name wname s))"
  by (auto simp: SetIdentity_def Let_def is_minted_iff store_invD(3,4) intro!: set_job_inv
      split: option.splits if_splits)

lemma SetCacheStats_inv:
  "store_inv s \<Longrightarrow> SetCacheStats j h m i out s = Inr (f, s') \<Longrightarrow> store_inv s'"
  by (auto simp: SetCacheStats_def Let_def is_minted_iff store_invD(3,4) intro!: set_job_inv
      split: option.splits)

lemma MarkStarted_inv:
  "store_inv s \<Longrightarrow> MarkStarted now j agent vm warm s = Inr (f, s') \<Longrightarrow> store_inv s'"
  by (auto simp: MarkStarted_def Let_def store_invD(4) intro!: set_job_inv
      split: option.splits if_splits)

lemma MarkFinished_inv:
  "store_inv s \<Longrightarrow> MarkFinished now j agent outcome vm warm msg s = Inr (f, s') \<Longrightarrow> store_inv s'"
  by (auto simp: MarkFinished_def Let_def store_invD(4) intro!: set_job_inv
      split: option.splits if_splits)

lemma ApplyGitHubOutcome_inv:
  "store_inv s \<Longrightarrow> ApplyGitHubOutcome now j outcome msg s = Inr (f, s') \<Longrightarrow> store_inv s'"
  by (auto simp: ApplyGitHubOutcome_def Let_def store_invD(4) intro!: set_job_inv
      split: option.splits if_splits)

lemma Cancel_inv:
  "store_inv s \<Longrightarrow> Cancel now j reason s = Inr (f, s') \<Longrightarrow> store_inv s'"
  by (auto simp: Cancel_def Let_def store_invD(4) intro!: set_job_inv remove_inv
      split: option.splits if_splits)

lemma MarkFailed_inv: "store_inv s \<Longrightarrow> store_inv (snd (MarkFailed j msg s))"
  by (auto simp: MarkFailed_def Let_def store_invD(4) intro!: set_job_inv remove_inv
      split: option.splits)

lemma RequeueAssigned_inv:
  "store_inv s \<Longrightarrow> RequeueAssigned j s = Inr (f, s') \<Longrightarrow> store_inv s'"
  by (auto simp: RequeueAssigned_def Let_def store_invD(4) intro!: enqueue_set_job_inv
      split: option.splits if_splits)

lemma PruneFinished_inv: "store_inv s \<Longrightarrow> store_inv (snd (PruneFinished now older s))"
  by (auto simp: PruneFinished_def store_inv_def distinct_map_filter list_all_iff)

lemma WaitMinted_inv: "store_inv s \<Longrightarrow> WaitMinted d ev s = Some s' \<Longrightarrow> store_inv s'"
  by (cases ev) (auto simp: store_inv_def split: if_splits)

lemmas locked_invs =
  SetCacheStats_inv MarkStarted_inv MarkFinished_inv ApplyGitHubOutcome_inv Cancel_inv
  RequeueAssigned_inv

declare WaitMinted.simps [simp del]

lemma of_locked_inv:
  "store_inv s \<Longrightarrow> (\<And>f s'. r = Inr (f, s') \<Longrightarrow> store_inv s') \<Longrightarrow> store_inv (snd (snd (of_locked s r)))"
  by (auto simp: of_locked_def split: sum.splits)

lemma op_store_inv:
  assumes "store_inv s"
  shows "store_inv (op_store now op s)"
proof (cases op)
  case (Op_put a)
  with Put_inv [OF assms] show ?thesis by (simp add: op_store_def split_def Let_def)
next
  case (Op_claim agent cached)
  with ClaimNext_inv [OF assms] show ?thesis by (simp add: op_store_def)
next
  case (Op_identity j name wname)
  with SetIdentity_inv [OF assms] show ?thesis by (simp add: op_store_def)
next
  case (Op_failed j msg)
  with MarkFailed_inv [OF assms] show ?thesis by (simp add: op_store_def)
next
  case (Op_prune older)
  with PruneFinished_inv [OF assms] show ?thesis by (simp add: op_store_def)
next
  case (Op_wait d ev)
  with WaitMinted_inv [OF assms] assms show ?thesis
    by (simp add: op_store_def split: option.splits)
qed (simp_all only: op_store_def run_op.simps,
     (rule of_locked_inv [OF assms], erule locked_invs [OF assms])+)

lemma NewAssignmentStore_inv: "store_inv NewAssignmentStore"
  by (simp add: NewAssignmentStore_def store_inv_def)

lemma run_ops_inv: "store_inv s \<Longrightarrow> store_inv (run_ops ops s)"
  unfolding run_ops_def by (induction ops arbitrary: s) (auto simp: op_store_inv)

section \<open>Life cycle\<close>

text \<open>
  The transitions the operations other than \<open>Put\<close> (a new mint) can make on one job's status;
  \<open>None\<close> is a job that is not stored.
\<close>

inductive job_step :: "status option \<Rightarrow> status option \<Rightarrow> bool" where
  stay: "job_step x x"
| claim: "job_step (Some AssignmentMinted) (Some AssignmentAssigned)"
| start: "job_step (Some AssignmentAssigned) (Some AssignmentStarted)"
| finish: "job_step (Some x) (Some AssignmentFinished)"
| fail: "job_step (Some x) (Some AssignmentFailed)"
| requeue: "job_step (Some AssignmentAssigned) (Some AssignmentMinted)"
| prune: "x = AssignmentFinished \<or> x = AssignmentFailed \<Longrightarrow> job_step (Some x) None"

inductive_simps job_step_None: "job_step None x"
inductive_simps job_step_Started: "job_step (Some AssignmentStarted) x"
inductive_simps job_step_Finished: "job_step (Some AssignmentFinished) x"
inductive_simps job_step_Failed: "job_step (Some AssignmentFailed) x"

declare job_step.stay [intro]

definition status_of :: "assignment_store \<Rightarrow> int \<Rightarrow> status option" where
  "status_of s j = map_option a_status (lookup_job s j)"

lemma status_of_frame [simp]:
  "status_of (set_job j a s) k = (if k = j then Some (a_status a) else status_of s k)"
  "status_of (enqueuePendingLocked j s) = status_of s"
  "status_of (removePendingLocked j s) = status_of s"
  "status_of (signalMinted s) = status_of s"
  "status_of (s\<lparr> pending := q \<rparr>) = status_of s"
  "status_of (s\<lparr> minted_sig := b \<rparr>) = status_of s"
  by (simp_all add: status_of_def fun_eq_iff)

lemma status_of_lookup: "lookup_job s j = Some a \<Longrightarrow> status_of s j = Some (a_status a)"
  by (simp add: status_of_def)

lemma lookup_PruneFinished:
  assumes "distinct (map fst (by_id s))" and "0 < older"
  shows "lookup_job (snd (PruneFinished now older s)) k =
    (case lookup_job s k of
       None \<Rightarrow> None | Some a \<Rightarrow> if prunable now older a then None else Some a)"
proof -
  have d: "distinct (map fst (filter (\<lambda>(_, a). \<not> prunable now older a) (by_id s)))"
    using assms by (simp add: distinct_map_filter)
  show ?thesis
  proof (cases "lookup_job s k")
    case None
    then have "k \<notin> fst ` set (by_id s)" by (simp add: lookup_job_def map_of_eq_None_iff)
    then have "k \<notin> fst ` set (filter (\<lambda>(_, a). \<not> prunable now older a) (by_id s))" by auto
    then have "map_of (filter (\<lambda>(_, a). \<not> prunable now older a) (by_id s)) k = None"
      by (simp only: map_of_eq_None_iff not_False_eq_True)
    with None assms show ?thesis by (simp add: lookup_job_def PruneFinished_def)
  next
    case (Some a)
    then have kv: "(k, a) \<in> set (by_id s)" by (simp add: lookup_job_def map_of_SomeD)
    show ?thesis
    proof (cases "prunable now older a")
      case True
      have "b = a" if "(k, b) \<in> set (by_id s)" for b
        using that kv assms(1) by (metis eq_key_imp_eq_value)
      with True have "k \<notin> fst ` set (filter (\<lambda>(_, a). \<not> prunable now older a) (by_id s))" by auto
      then have "map_of (filter (\<lambda>(_, a). \<not> prunable now older a) (by_id s)) k = None"
        by (simp only: map_of_eq_None_iff not_False_eq_True)
      with True Some assms show ?thesis by (simp add: lookup_job_def PruneFinished_def)
    next
      case False
      with kv have "(k, a) \<in> set (filter (\<lambda>(_, a). \<not> prunable now older a) (by_id s))" by simp
      with d False Some assms show ?thesis
        by (simp add: lookup_job_def PruneFinished_def map_of_is_SomeI)
    qed
  qed
qed

lemma lookup_prune_cases:
  assumes "store_inv s"
  shows "lookup_job (snd (PruneFinished now older s)) k = lookup_job s k \<or>
    (lookup_job (snd (PruneFinished now older s)) k = None \<and>
     (\<exists>a. lookup_job s k = Some a \<and> prunable now older a))"
  using lookup_PruneFinished [OF store_invD(2) [OF assms], of older now k]
  by (cases "0 < older") (auto simp: PruneFinished_def split: option.splits)

lemma lookup_WaitMinted:
  "WaitMinted d ev s = Some s' \<Longrightarrow> lookup_job s' = lookup_job s"
  by (cases ev) (auto simp: WaitMinted.simps split: if_splits)

fun put_job :: "store_op \<Rightarrow> int option" where
  "put_job (Op_put a) = Some (a_job_id a)"
| "put_job _ = None"

text \<open>How an operation that is not a \<open>Put\<close> of the job changes the job's entry.\<close>

lemma ClaimNext_lookup:
  "lookup_job (snd (ClaimNext now agent cached s)) k = lookup_job s k \<or>
   (\<exists>a. agent \<noteq> '''' \<and> lookup_job s k = Some a \<and> a_status a = AssignmentMinted \<and>
      lookup_job (snd (ClaimNext now agent cached s)) k = Some (assign_to now agent a))"
  using ClaimNext_cases [of now agent cached s] by cases auto

lemma job_step_op:
  assumes inv: "store_inv s" and "put_job op \<noteq> Some k"
  shows "job_step (status_of s k) (status_of (op_store now op s) k)"
proof (cases op)
  case (Op_put a)
  with assms(2) show ?thesis
    by (auto simp: op_store_def Put_def Let_def split: option.splits)
next
  case (Op_claim agent cached)
  with ClaimNext_lookup [of now agent cached s k] show ?thesis
    by (auto simp: op_store_def status_of_def intro: job_step.claim)
next
  case (Op_prune older)
  with lookup_prune_cases [OF inv, of now older k] show ?thesis
    by (auto simp: op_store_def status_of_def prunable_def intro: job_step.prune)
next
  case (Op_wait d ev)
  then show ?thesis
    by (auto simp: op_store_def status_of_def lookup_WaitMinted split: option.splits)
next
  case (Op_identity j name wname)
  then show ?thesis
    by (auto simp: op_store_def SetIdentity_def status_of_lookup Let_def split: option.splits)
next
  case (Op_cache_stats j h m i out)
  then show ?thesis
    by (auto simp: op_store_def of_locked_def SetCacheStats_def status_of_lookup Let_def
        split: option.splits)
next
  case (Op_started j agent vm warm)
  then show ?thesis
    by (auto simp: op_store_def of_locked_def MarkStarted_def status_of_lookup Let_def
        intro: job_step.intros split: option.splits)
next
  case (Op_finished j agent outcome vm warm msg)
  then show ?thesis
    by (auto simp: op_store_def of_locked_def MarkFinished_def status_of_lookup Let_def
        intro: job_step.intros split: option.splits)
next
  case (Op_github j outcome msg)
  then show ?thesis
    by (auto simp: op_store_def of_locked_def ApplyGitHubOutcome_def status_of_lookup Let_def
        intro: job_step.intros split: option.splits)
next
  case (Op_cancel j reason)
  then show ?thesis
    by (auto simp: op_store_def of_locked_def Cancel_def status_of_lookup Let_def
        intro: job_step.intros split: option.splits)
next
  case (Op_failed j msg)
  then show ?thesis
    by (auto simp: op_store_def MarkFailed_def status_of_lookup Let_def
        intro: job_step.intros split: option.splits)
next
  case (Op_requeue j)
  then show ?thesis
    by (auto simp: op_store_def of_locked_def RequeueAssigned_def status_of_lookup Let_def
        intro: job_step.intros split: option.splits)
qed

lemma put_job_other:
  "put_job op \<noteq> Some k \<Longrightarrow> op = Op_put a \<Longrightarrow> lookup_job (op_store now op s) k = lookup_job s k"
  by (auto simp: op_store_def Put_def Let_def split: option.splits)

text \<open>How a claim sequence hands out jobs.\<close>

fun run_claims ::
  "(gotime \<times> string \<times> string list) list \<Rightarrow> assignment_store \<Rightarrow> int list \<times> assignment_store" where
  "run_claims [] s = ([], s)"
| "run_claims ((now, agent, cached) # cs) s =
     (case ClaimNext now agent cached s of
        (None, s1) \<Rightarrow> run_claims cs s1
      | (Some a, s1) \<Rightarrow> (let (js, s2) = run_claims cs s1 in (a_job_id a # js, s2)))"

definition claimable :: "assignment_store \<Rightarrow> int list" where
  "claimable s = filter (is_minted s) (pending s)"

definition claim_order :: "string list \<Rightarrow> assignment_store \<Rightarrow> int list" where
  "claim_order cached s =
     filter (repo_wanted (wanted_repos cached) s) (pending s) @ claimable s"

lemma find_index_filter:
  "find_index P xs = Some i \<Longrightarrow> \<exists>ys. filter P xs = xs ! i # ys"
  by (induction xs arbitrary: i) (auto split: if_splits)

lemma repo_wanted_empty: "repo_wanted [] s j = False"
  by (simp add: repo_wanted_def split: option.splits)

lemma claim_order_Cons:
  "pickPendingLocked cached s = Some i \<Longrightarrow> \<exists>ys. claim_order cached s = pending s ! i # ys"
  by (auto simp: pickPendingLocked_def Let_def claim_order_def claimable_def repo_wanted_empty
      find_index_None_iff split: if_splits option.splits dest!: find_index_filter)

lemma claim_order_Nil: "pickPendingLocked cached s = None \<Longrightarrow> claim_order cached s = []"
  by (auto simp: pickPending_None_iff claim_order_def claimable_def filter_empty_conv
      dest: repo_wanted_minted)

lemma remove_nth_filter:
  "distinct xs \<Longrightarrow> i < length xs \<Longrightarrow> remove_nth i xs = filter (\<lambda>k. k \<noteq> xs ! i) xs"
proof (induction xs arbitrary: i)
  case (Cons x xs)
  show ?case
  proof (cases i)
    case 0
    with Cons.prems have "filter (\<lambda>k. k \<noteq> x) xs = xs" by (auto simp: filter_id_conv)
    with 0 show ?thesis by (simp add: remove_nth_def)
  next
    case (Suc m)
    with Cons have "remove_nth m xs = filter (\<lambda>k. k \<noteq> xs ! m) xs" by simp
    moreover have "x \<noteq> xs ! m" using Cons.prems Suc by auto
    ultimately show ?thesis using Suc by (simp add: remove_nth_def)
  qed
qed simp

lemma filter_neq_id: "x \<notin> set xs \<Longrightarrow> filter (\<lambda>k. k \<noteq> x) xs = xs"
  by (induction xs) auto

lemma length_filter_neq:
  "distinct xs \<Longrightarrow> x \<in> set xs \<Longrightarrow> length xs = Suc (length (filter (\<lambda>k. k \<noteq> x) xs))"
  by (induction xs) (auto simp: filter_neq_id)

lemma claimable_after_claim:
  assumes inv: "store_inv s" and i: "i < length (pending s)"
    and j: "pending s ! i = j" and st: "a_status a' \<noteq> AssignmentMinted"
  shows "claimable (set_job j a' (s\<lparr> pending := remove_nth i (pending s) \<rparr>)) =
    filter (\<lambda>k. k \<noteq> j) (claimable s)"
  using remove_nth_filter [OF store_invD(1) [OF inv] i] st
  by (auto simp: claimable_def j intro!: filter_cong)

lemma run_claims_distinct:
  "store_inv s \<Longrightarrow>
   distinct (fst (run_claims cs s)) \<and> set (fst (run_claims cs s)) \<subseteq> set (claimable s) \<and>
   length (fst (run_claims cs s)) =
     min (length (filter (\<lambda>c. fst (snd c) \<noteq> '''') cs)) (length (claimable s))"
proof (induction cs arbitrary: s)
  case (Cons c cs)
  obtain now agent cached where c: "c = (now, agent, cached)" by (cases c)
  from ClaimNext_cases [of now agent cached s] show ?case
  proof cases
    case none
    moreover have "claimable s = []" if "agent \<noteq> ''''"
      using that none by (auto simp: pickPending_None_iff claimable_def filter_empty_conv)
    ultimately show ?thesis using Cons by (auto simp: c)
  next
    case (some i a)
    let ?j = "pending s ! i"
    let ?s1 = "set_job ?j (assign_to now agent a) (s\<lparr> pending := remove_nth i (pending s) \<rparr>)"
    have id: "a_job_id a = ?j" using Cons.prems some(4) by (rule store_invD)
    have inv: "store_inv ?s1"
      using Cons.prems some by (intro pop_set_job_inv) (simp_all add: id)
    have cl: "claimable ?s1 = filter (\<lambda>k. k \<noteq> ?j) (claimable s)"
      using Cons.prems some by (intro claimable_after_claim) simp_all
    have mem: "?j \<in> set (claimable s)"
      using some by (simp add: claimable_def is_minted_iff)
    have dist: "distinct (claimable s)"
      using Cons.prems by (simp add: claimable_def store_invD)
    have len: "length (claimable s) = Suc (length (claimable ?s1))"
      unfolding cl using dist mem by (rule length_filter_neq)
    from Cons.IH [OF inv] show ?thesis
      using some len mem unfolding cl by (auto simp: c id split: prod.splits)
  qed
qed simp

text \<open>
  C2. A claim with an agent id answers a job whenever one is minted: the head of the claim order
  (queued jobs of the cached repositories first, then first-in first-out). The job becomes assigned to that agent, leaves the queue, and no
  other job changes; otherwise the store is unchanged.
\<close>

theorem claim_next_correct:
  fixes now :: gotime and agent :: string and cached :: "string list"
  assumes "store_inv s"
  shows "case ClaimNext now agent cached s of
     (None, s') \<Rightarrow> s' = s \<and> (agent = '''' \<or> (\<forall>j. \<not> is_minted s j))
   | (Some a', s') \<Rightarrow>
       agent \<noteq> '''' \<and> a_job_id a' = hd (claim_order cached s) \<and> is_minted s (a_job_id a') \<and>
       map_option (assign_to now agent) (lookup_job s (a_job_id a')) = Some a' \<and>
       claimable s' = filter (\<lambda>k. k \<noteq> a_job_id a') (claimable s) \<and>
       lookup_job s' = (lookup_job s)(a_job_id a' \<mapsto> a')"
  using ClaimNext_cases [of now agent cached s]
proof cases
  case none
  then show ?thesis using store_invD(3) [OF assms] by (auto simp: pickPending_None_iff)
next
  case (some i a)
  have id: "a_job_id a = pending s ! i" using assms some(4) by (rule store_invD)
  moreover have "hd (claim_order cached s) = pending s ! i"
    using claim_order_Cons [OF some(2)] by auto
  ultimately show ?thesis
    using some assms by (simp add: claimable_after_claim is_minted_iff fun_eq_iff)
qed

definition demo_job :: "int \<Rightarrow> string \<Rightarrow> assignment" where
  "demo_job j repo = zero_assignment\<lparr> a_job_id := j, a_repo := repo, a_status := AssignmentMinted,
     a_created_at := j, a_jit := ''jit'' \<rparr>"

definition demo_store :: assignment_store where
  "demo_store = run_ops [(1, Op_put (demo_job 7 ''o/a'')), (2, Op_put (demo_job 8 ''o/b''))]
     NewAssignmentStore"

lemma demo_store_inv: "store_inv demo_store"
  unfolding demo_store_def by (rule run_ops_inv) (rule NewAssignmentStore_inv)

theorem claim_next_correct_witness:
  "store_inv demo_store \<and> claimable demo_store = [7, 8] \<and>
   a_job_id (the (fst (ClaimNext 5 ''ag'' [''O/B ''] demo_store))) = 8 \<and>
   claimable (snd (ClaimNext 5 ''ag'' [''O/B ''] demo_store)) = [7]"
proof -
  have c: "claimable demo_store = [7, 8]" by code_simp
  have j: "map_option a_job_id (fst (ClaimNext 5 ''ag'' [''O/B ''] demo_store)) = Some 8"
    by code_simp
  with claim_next_correct [OF demo_store_inv, where now = 5 and agent = "''ag''" and cached = "[''O/B '']"] c
  show ?thesis by (auto simp: demo_store_inv split: prod.splits option.splits)
qed

text \<open>
  C3. However many agents claim, in whatever order, no job is handed out twice, only minted jobs
  are handed out, and every claim with an agent id gets one until they are used up.
\<close>

theorem claims_never_repeat:
  assumes "store_inv s"
  shows "distinct (fst (run_claims cs s)) \<and> set (fst (run_claims cs s)) \<subseteq> set (claimable s) \<and>
    length (fst (run_claims cs s)) =
      min (length (filter (\<lambda>c. fst (snd c) \<noteq> '''') cs)) (length (claimable s))"
  using assms by (rule run_claims_distinct)

theorem claims_never_repeat_witness:
  "store_inv demo_store \<and>
   distinct (fst (run_claims [(5, ''x'', []), (6, '''', []), (7, ''y'', []), (8, ''z'', [])] demo_store)) \<and>
   length (fst (run_claims [(5, ''x'', []), (6, '''', []), (7, ''y'', []), (8, ''z'', [])] demo_store)) = 2"
proof -
  have "length (claimable demo_store) = 2" by code_simp
  with claims_never_repeat [OF demo_store_inv,
      of "[(5, ''x'', []), (6, '''', []), (7, ''y'', []), (8, ''z'', [])]"] demo_store_inv
  show ?thesis by simp
qed

section \<open>Ownership, terminal states and secrets\<close>

text \<open>The operations an agent performs under its own id.\<close>

fun agent_of :: "store_op \<Rightarrow> string option" where
  "agent_of (Op_claim agent cached) = Some agent"
| "agent_of (Op_started j agent vm warm) = Some agent"
| "agent_of (Op_finished j agent outcome vm warm msg) = Some agent"
| "agent_of _ = None"

definition by_other :: "string \<Rightarrow> store_op \<Rightarrow> bool" where
  "by_other me op \<longleftrightarrow> (case agent_of op of None \<Rightarrow> False | Some ag \<Rightarrow> ag \<noteq> me)"

definition owned_by :: "string \<Rightarrow> assignment \<Rightarrow> bool" where
  "owned_by me a \<longleftrightarrow> me \<noteq> '''' \<and> a_agent_id a = me \<and> a_status a \<noteq> AssignmentMinted"

lemma by_other_step:
  assumes "owned_by me a" and "lookup_job s j = Some a" and "by_other me op"
  shows "lookup_job (op_store now op s) j = Some a"
proof (cases op)
  case (Op_claim agent cached)
  with ClaimNext_lookup [of now agent cached s j] assms show ?thesis
    by (auto simp: op_store_def owned_by_def)
next
  case (Op_started k agent vm warm)
  with assms show ?thesis
    by (auto simp: op_store_def of_locked_def MarkStarted_def by_other_def owned_by_def Let_def
        split: option.splits)
next
  case (Op_finished k agent outcome vm warm msg)
  with assms show ?thesis
    by (auto simp: op_store_def of_locked_def MarkFinished_def by_other_def owned_by_def Let_def
        split: option.splits)
qed (use assms in \<open>simp_all add: by_other_def\<close>)

lemma by_others_run:
  "owned_by me a \<Longrightarrow> lookup_job s j = Some a \<Longrightarrow> list_all (\<lambda>(now, op). by_other me op) ops \<Longrightarrow>
   lookup_job (run_ops ops s) j = Some a"
  unfolding run_ops_def
  by (induction ops arbitrary: s) (auto simp: by_other_step)


definition demo_claimed :: assignment_store where
  "demo_claimed = op_store 5 (Op_claim ''ag'' []) demo_store"

definition demo_rivals :: "(gotime \<times> store_op) list" where
  "demo_rivals = [(6, Op_claim ''b'' []), (7, Op_started 7 ''b'' ''vm9'' True),
     (8, Op_finished 7 ''b'' ''success'' ''vm9'' True '''')]"


text \<open>Operations that may replace a recorded outcome: a new mint, GitHub's own verdict, a mint
  failure of the same job, and pruning.\<close>

fun settles :: "int \<Rightarrow> store_op \<Rightarrow> bool" where
  "settles j (Op_put a) = (a_job_id a = j)"
| "settles j (Op_github k outcome msg) = (k = j)"
| "settles j (Op_failed k msg) = (k = j)"
| "settles j (Op_prune older) = True"
| "settles j _ = False"

definition verdict :: "assignment \<Rightarrow> status \<times> string \<times> string \<times> gotime" where
  "verdict a = (a_status a, a_outcome a, a_error a, a_finished_at a)"

definition has_verdict :: "assignment_store \<Rightarrow> int \<Rightarrow> status \<times> string \<times> string \<times> gotime \<Rightarrow> bool" where
  "has_verdict s j v \<longleftrightarrow> map_option verdict (lookup_job s j) = Some v"

lemma has_verdict_step:
  assumes "has_verdict s j v" and "\<not> settles j op" and "fst v = AssignmentFinished"
    and "snd (snd (snd v)) \<noteq> 0"
  shows "has_verdict (op_store now op s) j v"
proof -
  obtain a where a: "lookup_job s j = Some a" and v: "v = verdict a"
    using assms(1) by (auto simp: has_verdict_def)
  have fin: "a_status a = AssignmentFinished" "a_finished_at a \<noteq> 0"
    using assms(3,4) by (auto simp: v verdict_def)
  show ?thesis
  proof (cases op)
    case (Op_claim agent cached)
    with ClaimNext_lookup [of now agent cached s j] a fin v show ?thesis
      by (auto simp: op_store_def has_verdict_def)
  next
    case (Op_put b)
    with assms(2) a v show ?thesis
      by (simp add: has_verdict_def op_store_def Put_def Let_def split: option.splits)
  next
    case (Op_identity k name wname)
    with a v show ?thesis
      by (auto simp: op_store_def SetIdentity_def Let_def has_verdict_def verdict_def
          split: option.splits)
  next
    case (Op_cache_stats k h m i out)
    with a v show ?thesis
      by (auto simp: op_store_def of_locked_def SetCacheStats_def Let_def has_verdict_def
          verdict_def split: option.splits)
  next
    case (Op_started k agent vm warm)
    with a v fin show ?thesis
      by (auto simp: op_store_def of_locked_def MarkStarted_def Let_def has_verdict_def
          split: option.splits)
  next
    case (Op_finished k agent outcome vm warm msg)
    with a v fin show ?thesis
      by (auto simp: op_store_def of_locked_def MarkFinished_def Let_def has_verdict_def
          verdict_def split: option.splits)
  next
    case (Op_cancel k reason)
    with a v fin show ?thesis
      by (auto simp: op_store_def of_locked_def Cancel_def Let_def has_verdict_def
          split: option.splits)
  next
    case (Op_requeue k)
    with a v fin show ?thesis
      by (auto simp: op_store_def of_locked_def RequeueAssigned_def Let_def has_verdict_def
          split: option.splits)
  next
    case (Op_wait d ev)
    with a v show ?thesis
      by (auto simp: op_store_def has_verdict_def lookup_WaitMinted split: option.splits)
  next
    case (Op_github k out msg)
    with assms(2) a v show ?thesis
      by (auto simp: op_store_def of_locked_def ApplyGitHubOutcome_def Let_def has_verdict_def
          split: option.splits)
  next
    case (Op_failed k msg)
    with assms(2) a v show ?thesis
      by (auto simp: op_store_def MarkFailed_def Let_def has_verdict_def split: option.splits)
  qed (use assms(2) in simp_all)
qed

lemma has_verdict_run:
  "has_verdict s j v \<Longrightarrow> list_all (\<lambda>(now, op). \<not> settles j op) ops \<Longrightarrow>
   fst v = AssignmentFinished \<Longrightarrow> snd (snd (snd v)) \<noteq> 0 \<Longrightarrow> has_verdict (run_ops ops s) j v"
  unfolding run_ops_def
  by (induction ops arbitrary: s) (auto simp: has_verdict_step)

text \<open>
  C14. The first terminal outcome wins: once a job is finished, its status, outcome, error text and
  finishing time survive every later claim, start, finish, cancel and requeue, whoever sends it.
\<close>

theorem first_outcome_wins:
  assumes "has_verdict s j (AssignmentFinished, outcome, msg, t)" and "t \<noteq> 0"
    and "list_all (\<lambda>(now, op). \<not> settles j op) ops"
  shows "has_verdict (run_ops ops s) j (AssignmentFinished, outcome, msg, t)"
  using assms by (intro has_verdict_run) simp_all

definition demo_finished :: assignment_store where
  "demo_finished = op_store 9 (Op_finished 7 ''ag'' ''success'' ''vm1'' False '''') demo_claimed"

definition demo_late :: "(gotime \<times> store_op) list" where
  "demo_late = [(10, Op_finished 7 ''ag'' ''failure'' '''' True ''stale log''), (11, Op_cancel 7 ''no''),
     (12, Op_requeue 7), (13, Op_started 7 ''ag'' ''vm1'' False)]"

theorem first_outcome_wins_witness:
  "has_verdict demo_finished 7 (AssignmentFinished, ''success'', '''', 9) \<and>
   has_verdict (run_ops demo_late demo_finished) 7 (AssignmentFinished, ''success'', '''', 9)"
proof -
  have v: "has_verdict demo_finished 7 (AssignmentFinished, ''success'', '''', 9)" by code_simp
  have "list_all (\<lambda>(now, op). \<not> settles 7 op) demo_late" by code_simp
  with v first_outcome_wins [OF v] show ?thesis by simp
qed

definition past_start :: "status option \<Rightarrow> bool" where
  "past_start x \<longleftrightarrow>
     x \<in> {None, Some AssignmentStarted, Some AssignmentFinished, Some AssignmentFailed}"

lemma started_stays_step:
  assumes "store_inv s" and "put_job op \<noteq> Some j"
    and "past_start (status_of s j)"
  shows "past_start (status_of (op_store now op s) j)"
  using job_step_op [OF assms(1,2), of now] assms(3)
  by (auto simp: past_start_def job_step_None job_step_Started job_step_Finished job_step_Failed)

lemma started_stays_run:
  "store_inv s \<Longrightarrow> list_all (\<lambda>(now, op). put_job op \<noteq> Some j) ops \<Longrightarrow> past_start (status_of s j) \<Longrightarrow>
   past_start (status_of (run_ops ops s) j)"
  unfolding run_ops_def
  by (induction ops arbitrary: s) (auto simp: started_stays_step op_store_inv)

text \<open>
  C15. A job whose runner has started is never handed out again: without a new mint of the same job
  no sequence of operations brings it back to minted or assigned, so a build is not run twice.
\<close>

theorem started_never_requeued:
  assumes "store_inv s" and "status_of s j = Some AssignmentStarted"
    and "list_all (\<lambda>(now, op). put_job op \<noteq> Some j) ops"
  shows "past_start (status_of (run_ops ops s) j)"
  using assms by (intro started_stays_run) (simp_all add: past_start_def)

definition demo_started :: assignment_store where
  "demo_started = op_store 6 (Op_started 7 ''ag'' ''vm1'' False) demo_claimed"

lemma demo_started_inv: "store_inv demo_started"
  unfolding demo_started_def demo_claimed_def by (intro op_store_inv demo_store_inv)

theorem started_never_requeued_witness:
  "status_of demo_started 7 = Some AssignmentStarted \<and>
   past_start (status_of
     (run_ops [(7, Op_requeue 7), (8, Op_claim ''b'' []), (9, Op_claim ''c'' [])] demo_started) 7)"
proof -
  have st: "status_of demo_started 7 = Some AssignmentStarted" by code_simp
  have "list_all (\<lambda>(now, op). put_job op \<noteq> Some 7)
    [(7, Op_requeue 7), (8, Op_claim ''b'' []), (9, Op_claim ''c'' [])]" by simp
  from st started_never_requeued [OF demo_started_inv st this] show ?thesis by blast
qed

section \<open>Secrets\<close>

definition terminal :: "assignment \<Rightarrow> bool" where
  "terminal a \<longleftrightarrow> a_status a = AssignmentFinished \<or> a_status a = AssignmentFailed"

definition no_secret :: "assignment \<Rightarrow> bool" where
  "no_secret a \<longleftrightarrow> (if terminal a then a_jit a = '''' else True)"

definition secret_inv :: "assignment_store \<Rightarrow> bool" where
  "secret_inv s \<longleftrightarrow> list_all (\<lambda>(k, a). no_secret a) (by_id s)"

definition clean_put :: "store_op \<Rightarrow> bool" where
  "clean_put op \<longleftrightarrow> (case op of Op_put a \<Rightarrow> no_secret a | _ \<Rightarrow> True)"

text \<open>
  A property of single jobs that every record update of the operations keeps is an invariant of the
  store. \<open>okt\<close> says which clock readings are admitted.
\<close>

locale job_invariant =
  fixes P :: "assignment \<Rightarrow> bool" and okt :: "gotime \<Rightarrow> bool"
  assumes P_created: "P a \<Longrightarrow> okt now \<Longrightarrow> P (a\<lparr> a_created_at := now \<rparr>)"
    and P_assign: "P a \<Longrightarrow> okt now \<Longrightarrow> P (assign_to now agent a)"
    and P_name: "P a \<Longrightarrow> P (a\<lparr> a_name := n \<rparr>)"
    and P_workflow: "P a \<Longrightarrow> P (a\<lparr> a_workflow_name := n \<rparr>)"
    and P_cache: "P a \<Longrightarrow> P (a\<lparr> a_cache_hits := h, a_cache_misses := m,
      a_cache_bytes_in := i, a_cache_bytes_out := out \<rparr>)"
    and P_start: "P a \<Longrightarrow> okt now \<Longrightarrow> P (start_record now agent vm warm a)"
    and P_finish: "P a \<Longrightarrow> okt now \<Longrightarrow> P (finish_record now agent outcome vm warm msg a)"
    and P_close: "P a \<Longrightarrow> okt now \<Longrightarrow> P (close_record now outcome msg a)"
    and P_fail: "P a \<Longrightarrow> P (a\<lparr> a_status := AssignmentFailed, a_error := msg, a_jit := [] \<rparr>)"
    and P_requeue: "P a \<Longrightarrow> P (a\<lparr> a_status := AssignmentMinted, a_agent_id := [],
      a_assigned_at := 0, a_vm_id := [] \<rparr>)"
begin

definition all_jobs :: "assignment_store \<Rightarrow> bool" where
  "all_jobs s \<longleftrightarrow> list_all (\<lambda>(k, a). P a) (by_id s)"

lemma all_jobs_set: "all_jobs s \<Longrightarrow> P a \<Longrightarrow> all_jobs (set_job j a s)"
  by (simp add: all_jobs_def set_job_def list_all_update)

lemma all_jobs_frame [simp]:
  "all_jobs (enqueuePendingLocked j s) = all_jobs s"
  "all_jobs (removePendingLocked j s) = all_jobs s"
  "all_jobs (signalMinted s) = all_jobs s"
  "all_jobs (s\<lparr> pending := q \<rparr>) = all_jobs s"
  "all_jobs (s\<lparr> minted_sig := b \<rparr>) = all_jobs s"
  by (simp_all add: all_jobs_def)

lemma all_jobsD: "all_jobs s \<Longrightarrow> lookup_job s j = Some a \<Longrightarrow> P a"
  by (auto simp: all_jobs_def lookup_job_def list_all_iff dest: map_of_SomeD)

lemma all_jobs_step:
  assumes inv: "all_jobs s" and okt: "okt now" and put: "\<And>a. op = Op_put a \<Longrightarrow> P a"
  shows "all_jobs (op_store now op s)"
proof (cases op)
  case (Op_put a)
  have "P (a\<lparr> a_created_at := now \<rparr>)" "P a" using put [OF Op_put] okt by (simp_all add: P_created)
  with inv Op_put show ?thesis
    by (cases "a_created_at a = 0")
      (simp_all add: op_store_def Put_def Let_def all_jobs_set split: option.splits)
next
  case (Op_claim agent cached)
  from ClaimNext_cases [of now agent cached s] Op_claim inv show ?thesis
    by cases (auto simp: op_store_def okt intro!: all_jobs_set P_assign dest: all_jobsD)
next
  case (Op_identity j name wname)
  with inv show ?thesis
    by (auto simp: op_store_def SetIdentity_def Let_def intro!: all_jobs_set P_name P_workflow
        dest: all_jobsD split: option.splits)
next
  case (Op_cache_stats j h m i out)
  with inv show ?thesis
    by (auto simp: op_store_def of_locked_def SetCacheStats_def Let_def
        intro!: all_jobs_set P_cache dest: all_jobsD split: option.splits)
next
  case (Op_started j agent vm warm)
  with inv okt show ?thesis
    by (auto simp: op_store_def of_locked_def MarkStarted_def Let_def
        intro!: all_jobs_set P_start dest: all_jobsD split: option.splits)
next
  case (Op_finished j agent outcome vm warm msg)
  with inv okt show ?thesis
    by (auto simp: op_store_def of_locked_def MarkFinished_def Let_def
        intro!: all_jobs_set P_finish dest: all_jobsD split: option.splits)
next
  case (Op_github j outcome msg)
  with inv okt show ?thesis
    by (auto simp: op_store_def of_locked_def ApplyGitHubOutcome_def Let_def
        intro!: all_jobs_set P_close dest: all_jobsD split: option.splits)
next
  case (Op_cancel j reason)
  with inv okt show ?thesis
    by (auto simp: op_store_def of_locked_def Cancel_def Let_def
        intro!: all_jobs_set P_close dest: all_jobsD split: option.splits)
next
  case (Op_failed j msg)
  with inv show ?thesis
    by (auto simp: op_store_def MarkFailed_def Let_def
        intro!: all_jobs_set P_fail dest: all_jobsD split: option.splits)
next
  case (Op_requeue j)
  with inv show ?thesis
    by (auto simp: op_store_def of_locked_def RequeueAssigned_def Let_def
        intro!: all_jobs_set P_requeue dest: all_jobsD split: option.splits)
next
  case (Op_prune older)
  with inv show ?thesis
    by (auto simp: op_store_def PruneFinished_def all_jobs_def list_all_iff)
next
  case (Op_wait d ev)
  with inv show ?thesis
    by (cases ev) (auto simp: op_store_def WaitMinted.simps)
qed

end

interpretation secrets: job_invariant no_secret "\<lambda>_. True"
  by unfold_locales (simp_all add: no_secret_def terminal_def split: if_split_asm)

lemma secret_inv_all_jobs: "secret_inv s = secrets.all_jobs s"
  by (simp add: secret_inv_def secrets.all_jobs_def)

lemma secret_run:
  "secret_inv s \<Longrightarrow> list_all (\<lambda>(now, op). clean_put op) ops \<Longrightarrow> secret_inv (run_ops ops s)"
  unfolding run_ops_def
proof (induction ops arbitrary: s)
  case (Cons x ops)
  obtain now op where x: "x = (now, op)" by (cases x)
  have "secret_inv (op_store now op s)"
    unfolding secret_inv_all_jobs
    by (rule secrets.all_jobs_step)
      (use Cons.prems x in \<open>auto simp: secret_inv_all_jobs clean_put_def\<close>)
  with Cons x show ?case by simp
qed simp

text \<open>
  The JIT secret of a job does not outlive it: if no finished or failed job is put in with a
  secret, then after any sequence of operations no finished or failed job holds one.
\<close>

theorem terminal_jobs_hold_no_secret:
  assumes "list_all (\<lambda>(now, op). clean_put op) ops"
  shows "secret_inv (run_ops ops NewAssignmentStore)"
  using assms by (intro secret_run) (simp_all add: secret_inv_def NewAssignmentStore_def)

definition demo_trace :: "(gotime \<times> store_op) list" where
  "demo_trace = [(1, Op_put (demo_job 7 ''o/a'')), (2, Op_put (demo_job 8 ''o/b'')),
     (5, Op_claim ''ag'' []), (6, Op_failed 8 ''boom''), (9, Op_finished 7 ''ag'' ''success'' '''' False '''')]"

theorem terminal_jobs_hold_no_secret_witness:
  "secret_inv (run_ops demo_trace NewAssignmentStore) \<and>
   a_jit (demo_job 7 ''o/a'') = ''jit'' \<and>
   list_all (\<lambda>(k, a). terminal a) (by_id (run_ops demo_trace NewAssignmentStore))"
proof -
  have "list_all (\<lambda>(now, op). clean_put op) demo_trace" by code_simp
  then have "secret_inv (run_ops demo_trace NewAssignmentStore)"
    by (rule terminal_jobs_hold_no_secret)
  moreover have "a_jit (demo_job 7 ''o/a'') = ''jit''" by (simp add: demo_job_def)
  moreover have "list_all (\<lambda>(k, a). terminal a) (by_id (run_ops demo_trace NewAssignmentStore))"
    by code_simp
  ultimately show ?thesis by simp
qed

section \<open>Loading\<close>

lemma sort_minted_sorted: "sorted_wrt earlier (sort_minted as)"
  unfolding sort_minted_def by (rule sorted_isort_by) (auto simp: earlier_def split: if_splits)

lemma set_sort_minted [simp]: "set (sort_minted as) = set as"
  by (simp add: sort_minted_def)

lemma distinct_ids_sort:
  "distinct (map a_job_id (sort_minted as)) \<longleftrightarrow> distinct (map a_job_id as)"
  by (simp add: sort_minted_def)

lemma fold_enqueue:
  "distinct (map a_job_id as) \<Longrightarrow> a_job_id ` set as \<inter> set (pending s) = {} \<Longrightarrow>
   fold (\<lambda>a t. enqueuePendingLocked (a_job_id a) t) as s = s\<lparr> pending := pending s @ map a_job_id as \<rparr>"
  by (induction as arbitrary: s) (auto simp: enqueuePendingLocked_def)

lemma fold_update_id:
  "distinct (map a_job_id as) \<Longrightarrow> a_job_id ` set as \<inter> fst ` set m = {} \<Longrightarrow>
   fold (\<lambda>a m. AList.update (a_job_id a) a m) as m = m @ map (\<lambda>a. (a_job_id a, a)) as"
proof (induction as arbitrary: m)
  case (Cons a as)
  have new: "a_job_id a \<notin> fst ` set m" using Cons.prems by auto
  then have "AList.update (a_job_id a) a m = m @ [(a_job_id a, a)]"
    by (induction m) auto
  with Cons show ?case by auto
qed simp

lemma set_loadable:
  "a \<in> set (map the (filter loadable all)) \<longleftrightarrow> Some a \<in> set all \<and> a_job_id a \<noteq> 0"
  by (induction all) (auto simp: loadable_def split: option.splits)

lemma load_queue:
  assumes "distinct (map a_job_id (map the (filter loadable all)))"
  shows "\<exists>s'. loadLocked (Some all) s = Some s' \<and> store_inv s' \<and>
    (\<forall>j a. lookup_job s' j = Some a \<longleftrightarrow> Some a \<in> set all \<and> a_job_id a = j \<and> j \<noteq> 0) \<and>
    pending s' = map a_job_id (sort_minted
      (filter (\<lambda>a. a_status a = AssignmentMinted) (map the (filter loadable all)))) \<and>
    sorted_wrt earlier (sort_minted
      (filter (\<lambda>a. a_status a = AssignmentMinted) (map the (filter loadable all))))"
proof -
  define good where "good = map the (filter loadable all)"
  define m where "m = sort_minted (filter (\<lambda>a. a_status a = AssignmentMinted) good)"
  define s' where "s' = s\<lparr> by_id := map (\<lambda>a. (a_job_id a, a)) good, pending := map a_job_id m \<rparr>"
  have d: "distinct (map a_job_id good)" using assms by (simp add: good_def)
  then have dm: "distinct (map a_job_id m)"
    by (simp add: m_def distinct_ids_sort distinct_map_filter)
  have load: "loadLocked (Some all) s = Some s'"
    unfolding loadLocked_def option.case Let_def
    by (simp only: good_def [symmetric] m_def [symmetric])
      (simp add: fold_update_id [OF d] fold_enqueue [OF dm] s'_def)
  have dk: "distinct (map fst (by_id s'))" using d by (simp add: s'_def comp_def)
  have mem: "a \<in> set good \<longleftrightarrow> Some a \<in> set all \<and> a_job_id a \<noteq> 0" for a
    unfolding good_def by (rule set_loadable)
  have look: "lookup_job s' j = Some a \<longleftrightarrow> Some a \<in> set all \<and> a_job_id a = j \<and> j \<noteq> 0" for j a
    unfolding lookup_job_def map_of_eq_Some_iff [OF dk] by (auto simp: s'_def mem)
  have "set (pending s') = a_job_id ` {a \<in> set good. a_status a = AssignmentMinted}"
    by (simp add: s'_def m_def)
  then have "store_inv s'"
    unfolding store_inv_iff using dk dm look by (auto simp: is_minted_iff mem s'_def)
  with load look sort_minted_sorted show ?thesis
    unfolding good_def [symmetric] m_def [symmetric]
    by (intro exI [of _ s']) (simp add: s'_def m_def)
qed

text \<open>
  A restart loses no claimable work: when the persister lists rows with distinct job ids, the
  loaded store satisfies the invariant, holds exactly the rows with a job id, and its queue is the
  minted jobs in the order of their creation time and job id.
\<close>

theorem load_restores_queue:
  assumes "distinct (map a_job_id (map the (filter loadable all)))"
  shows "\<exists>s'. loadLocked (Some all) s = Some s' \<and> store_inv s' \<and>
    (\<forall>j a. lookup_job s' j = Some a \<longleftrightarrow> Some a \<in> set all \<and> a_job_id a = j \<and> j \<noteq> 0) \<and>
    pending s' = map a_job_id (sort_minted
      (filter (\<lambda>a. a_status a = AssignmentMinted) (map the (filter loadable all)))) \<and>
    sorted_wrt earlier (sort_minted
      (filter (\<lambda>a. a_status a = AssignmentMinted) (map the (filter loadable all))))"
  using assms by (rule load_queue)

theorem load_restores_queue_witness:
  "distinct (map a_job_id (map the (filter loadable
     [Some (demo_job 9 ''o/z''), None, Some (demo_job 0 ''''), Some (demo_job 4 ''o/a'')]))) \<and>
   map_option pending (loadLocked
     (Some [Some (demo_job 9 ''o/z''), None, Some (demo_job 0 ''''), Some (demo_job 4 ''o/a'')])
     demo_store) = Some [4, 9]"
proof -
  let ?all = "[Some (demo_job 9 ''o/z''), None, Some (demo_job 0 ''''), Some (demo_job 4 ''o/a'')]"
  have d: "distinct (map a_job_id (map the (filter loadable ?all)))" by code_simp
  have "map a_job_id (sort_minted
      (filter (\<lambda>a. a_status a = AssignmentMinted) (map the (filter loadable ?all)))) = [4, 9]"
    by code_simp
  with load_restores_queue [OF d, of demo_store] d show ?thesis by auto
qed

section \<open>Counts, listings and pruning\<close>

lemma count_fold_total: "c_total (fold count_one as c) = c_total c + int (length as)"
  by (induction as arbitrary: c) (auto simp: count_one_def Let_def)

lemma count_fold_status:
  "c_minted (fold count_one as c) = c_minted c + int (length (filter (\<lambda>a. a_status a = AssignmentMinted) as))"
  "c_assigned (fold count_one as c) = c_assigned c + int (length (filter (\<lambda>a. a_status a = AssignmentAssigned) as))"
  "c_started (fold count_one as c) = c_started c + int (length (filter (\<lambda>a. a_status a = AssignmentStarted) as))"
  "c_finished (fold count_one as c) = c_finished c + int (length (filter (\<lambda>a. a_status a = AssignmentFinished) as))"
  "c_failed (fold count_one as c) = c_failed c + int (length (filter (\<lambda>a. a_status a = AssignmentFailed) as))"
  by (induction as arbitrary: c) (auto simp: count_one_def Let_def)

definition status_count :: "status \<Rightarrow> assignment_store \<Rightarrow> int" where
  "status_count st s = int (length (filter (\<lambda>a. a_status a = st) (map snd (by_id s))))"

lemma CountByStatus_counts:
  "c_total (CountByStatus s) = Len s"
  "c_minted (CountByStatus s) = status_count AssignmentMinted s"
  "c_assigned (CountByStatus s) = status_count AssignmentAssigned s"
  "c_started (CountByStatus s) = status_count AssignmentStarted s"
  "c_finished (CountByStatus s) = status_count AssignmentFinished s"
  "c_failed (CountByStatus s) = status_count AssignmentFailed s"
  by (simp_all add: CountByStatus_def Len_def status_count_def count_fold_total count_fold_status)

lemma status_count_prune:
  "st \<noteq> AssignmentFinished \<Longrightarrow> st \<noteq> AssignmentFailed \<Longrightarrow>
   status_count st (snd (PruneFinished now older s)) = status_count st s"
proof -
  assume st: "st \<noteq> AssignmentFinished" "st \<noteq> AssignmentFailed"
  have "filter (\<lambda>x. (case x of (_, a) \<Rightarrow> \<not> prunable now older a) \<and> a_status (snd x) = st) (by_id s)
    = filter ((\<lambda>a. a_status a = st) \<circ> snd) (by_id s)"
    by (rule filter_cong) (use st in \<open>auto simp: prunable_def\<close>)
  then show ?thesis by (simp add: status_count_def PruneFinished_def)
qed

text \<open>
  The status counters agree with the map: the total is the number of stored jobs, each counter
  counts its own status, and pruning takes from the finished and failed counts only, exactly the
  jobs it reports, leaving the jobs that are still minted, assigned or started.
\<close>

theorem counts_and_pruning:
  "c_total (CountByStatus s) = Len s \<and>
   c_total (CountByStatus (snd (PruneFinished now older s))) =
     c_total (CountByStatus s) - fst (PruneFinished now older s) \<and>
   c_minted (CountByStatus (snd (PruneFinished now older s))) = c_minted (CountByStatus s) \<and>
   c_assigned (CountByStatus (snd (PruneFinished now older s))) = c_assigned (CountByStatus s) \<and>
   c_started (CountByStatus (snd (PruneFinished now older s))) = c_started (CountByStatus s)"
proof -
  have "int (length (filter (\<lambda>(_, a). \<not> prunable now older a) xs)) =
      int (length xs) - int (length (filter (\<lambda>(_, a). prunable now older a) xs))"
    for xs :: "(int \<times> assignment) list"
    by (induction xs) auto
  then have "Len (snd (PruneFinished now older s)) = Len s - fst (PruneFinished now older s)"
    by (simp add: PruneFinished_def Len_def)
  then show ?thesis by (simp add: CountByStatus_counts status_count_prune)
qed

text \<open>
  The listing the dashboard shows holds no secrets, is ordered newest first, has at most the
  requested number of jobs, and every job it leaves out is no newer than those it shows.
\<close>

theorem list_recent_correct:
  "list_all (\<lambda>a. a_jit a = '''') (ListRecent limit s) \<and>
   sorted_wrt (\<lambda>a b. a_created_at b \<le> a_created_at a) (ListRecent limit s) \<and>
   int (length (ListRecent limit s)) = min (Len s) (if limit \<le> 0 then 50 else limit) \<and>
   (\<exists>rest. mset (ListRecent limit s @ rest) = mset (map (\<lambda>(_, a). a\<lparr> a_jit := '''' \<rparr>) (by_id s)) \<and>
     list_all (\<lambda>a. list_all (\<lambda>b. a_created_at b \<le> a_created_at a) rest) (ListRecent limit s))"
proof -
  define lim where "lim = nat (if limit \<le> 0 then 50 else limit)"
  define all where "all = sort_key (\<lambda>a. - a_created_at a) (map (\<lambda>(_, a). a\<lparr> a_jit := '''' \<rparr>) (by_id s))"
  have L: "ListRecent limit s = take lim all"
    by (simp add: ListRecent_def Let_def lim_def all_def)
  have len: "int (length all) = Len s" by (simp add: all_def Len_def)
  have "sorted (map (\<lambda>a. - a_created_at a) all)" by (simp add: all_def)
  then have srt: "sorted_wrt (\<lambda>a b. a_created_at b \<le> a_created_at a) all"
    by (simp add: sorted_map)
  then have "sorted_wrt (\<lambda>a b. a_created_at b \<le> a_created_at a) (take lim all @ drop lim all)"
    by simp
  then have "list_all (\<lambda>a. list_all (\<lambda>b. a_created_at b \<le> a_created_at a) (drop lim all)) (take lim all)"
    unfolding sorted_wrt_append by (auto simp: list_all_iff)
  moreover have "mset (take lim all @ drop lim all) = mset (map (\<lambda>(_, a). a\<lparr> a_jit := '''' \<rparr>) (by_id s))"
    by (simp add: all_def)
  moreover have "list_all (\<lambda>a. a_jit a = '''') (take lim all)"
    by (auto simp: list_all_iff all_def dest!: in_set_takeD)
  moreover have "int (length (take lim all)) = min (Len s) (if limit \<le> 0 then 50 else limit)"
    using len by (auto simp: lim_def)
  ultimately show ?thesis unfolding L using srt by (metis sorted_wrt_take)
qed

section \<open>What an operation hands to the persister\<close>

definition is_prune :: "store_op \<Rightarrow> bool" where
  "is_prune op \<longleftrightarrow> (case op of Op_prune _ \<Rightarrow> True | _ \<Rightarrow> False)"

definition after_flush ::
  "(int \<Rightarrow> assignment option) \<Rightarrow> assignment option \<Rightarrow> (int \<Rightarrow> assignment option)" where
  "after_flush m f = (case f of None \<Rightarrow> m | Some a \<Rightarrow> m(a_job_id a \<mapsto> a))"

lemma after_flush_simps [simp]:
  "after_flush m None = m" "after_flush m (Some a) = m(a_job_id a \<mapsto> a)"
  by (simp_all add: after_flush_def)

lemma lookup_set_job_upd: "lookup_job (set_job j a s) = (lookup_job s)(j \<mapsto> a)"
  by (simp add: fun_eq_iff)

text \<open>Except for pruning, the copy handed over is the only entry that changed.\<close>

lemma flushed_copy:
  assumes inv: "store_inv s" and np: "\<not> is_prune op" and r: "run_op now op s = (e, f, s')"
  shows "lookup_job s' = after_flush (lookup_job s) f"
proof (cases op)
  case (Op_put a)
  with r show ?thesis
    by (auto simp: Put_def Let_def lookup_set_job_upd split: option.splits if_splits)
next
  case (Op_claim agent cached)
  from ClaimNext_cases [of now agent cached s] Op_claim r show ?thesis
    by cases (auto simp: lookup_set_job_upd store_invD(4) [OF inv])
next
  case (Op_identity j name wname)
  with r show ?thesis
    by (auto simp: SetIdentity_def Let_def lookup_set_job_upd store_invD(4) [OF inv]
        split: option.splits if_splits)
next
  case (Op_cache_stats j h m i out)
  with r show ?thesis
    by (auto simp: of_locked_def SetCacheStats_def Let_def lookup_set_job_upd store_invD(4) [OF inv]
        split: option.splits)
next
  case (Op_started j agent vm warm)
  with r show ?thesis
    by (auto simp: of_locked_def MarkStarted_def Let_def lookup_set_job_upd store_invD(4) [OF inv]
        split: option.splits if_splits)
next
  case (Op_finished j agent outcome vm warm msg)
  with r show ?thesis
    by (auto simp: of_locked_def MarkFinished_def Let_def lookup_set_job_upd store_invD(4) [OF inv]
        split: option.splits if_splits)
next
  case (Op_github j outcome msg)
  with r show ?thesis
    by (auto simp: of_locked_def ApplyGitHubOutcome_def Let_def lookup_set_job_upd
        store_invD(4) [OF inv] split: option.splits)
next
  case (Op_cancel j reason)
  with r show ?thesis
    by (auto simp: of_locked_def Cancel_def Let_def lookup_set_job_upd store_invD(4) [OF inv]
        split: option.splits if_splits)
next
  case (Op_failed j msg)
  with r show ?thesis
    by (auto simp: MarkFailed_def Let_def lookup_set_job_upd store_invD(4) [OF inv]
        split: option.splits)
next
  case (Op_requeue j)
  with r show ?thesis
    by (auto simp: of_locked_def RequeueAssigned_def Let_def lookup_set_job_upd
        store_invD(4) [OF inv] split: option.splits if_splits)
next
  case (Op_prune older)
  with np show ?thesis by (simp add: is_prune_def)
next
  case (Op_wait d ev)
  with r show ?thesis by (auto simp: lookup_WaitMinted split: option.splits)
qed

lemma flushed_in_store:
  "store_inv s \<Longrightarrow> \<not> is_prune op \<Longrightarrow> run_op now op s = (e, Some a, s') \<Longrightarrow>
   lookup_job s' (a_job_id a) = Some a"
  using flushed_copy by fastforce

section \<open>A queue entry that outlives its job\<close>

definition stale_ops :: "(gotime \<times> store_op) list" where
  "stale_ops = [(1, Op_put (demo_job 7 ''o/a'')),
     (2, Op_put ((demo_job 7 ''o/a'')\<lparr> a_status := AssignmentFailed, a_jit := '''' \<rparr>))]"

text \<open>
  An id left in the queue by a job that failed after it was minted defeats the long poll: no job
  can be claimed, yet waiting returns at once, whatever the duration, so a claim loops until its
  deadline without ever blocking.
\<close>

theorem stale_entry_defeats_wait:
  "claimable (run_ops stale_ops NewAssignmentStore) = [] \<and>
   PendingLen (run_ops stale_ops NewAssignmentStore) = 1 \<and>
   fst (ClaimNext now agent cached (run_ops stale_ops NewAssignmentStore)) = None \<and>
   WaitMinted d ev (run_ops stale_ops NewAssignmentStore) = Some (run_ops stale_ops NewAssignmentStore)"
proof -
  let ?s = "run_ops stale_ops NewAssignmentStore"
  have c: "claimable ?s = []" and p: "PendingLen ?s = 1" by code_simp+
  have "\<not> is_minted ?s j" if "j \<in> set (pending ?s)" for j
    using c that by (simp add: claimable_def filter_empty_conv)
  then have "pickPendingLocked cached ?s = None" by (simp add: pickPending_None_iff)
  then have "fst (ClaimNext now agent cached ?s) = None" by (simp add: ClaimNext_def)
  with c p show ?thesis by (simp add: WaitMinted.simps)
qed

end
