(* ===== verification/JobLogs.thy ===== *)
theory JobLogs
  imports Base
begin

text \<open>
  Job logs: what the agent uploads (\<open>internal/agent/joblogs.go\<close>), the rows of the \<open>job_logs\<close> table and
  the statements on them (\<open>internal/store/joblogs.go\<close>), and the live copy the control plane keeps
  between two writes (\<open>internal/control/livelogs.go\<close>). The events column is the list itself, its JSON text and
  the text of \<open>updated_at\<close> being left out; whether the insert fails is an argument.
\<close>

section \<open>Rows\<close>

record job_event =
  ev_time :: gotime
  ev_source :: string
  ev_level :: string
  ev_message :: string

record job_log =
  l_job_id :: int
  l_runner :: string
  l_agent :: string
  l_console :: string
  l_workflow :: string
  l_events :: "job_event list"
  l_updated_at :: gotime

type_synonym log_table = "(int \<times> job_log) list"

datatype log_error = Log_job_id_required | Log_write_failed

definition maxJobEvents :: nat where
  "maxJobEvents = 200"

definition GetJobLog :: "int \<Rightarrow> log_table \<Rightarrow> log_error + job_log" where
  "GetJobLog j db =
     (if j = 0 then Inl Log_job_id_required
      else case map_of db j of
        None \<Rightarrow> Inr \<lparr> l_job_id = j, l_runner = '''', l_agent = '''', l_console = '''', l_workflow = '''',
                   l_events = [], l_updated_at = 0 \<rparr>
      | Some l \<Rightarrow> Inr l)"

definition writeJobLog :: "bool \<Rightarrow> gotime \<Rightarrow> job_log \<Rightarrow> log_table \<Rightarrow> log_error + log_table" where
  "writeJobLog ok now l db =
     (if ok then Inr (AList.update (l_job_id l) (l\<lparr> l_updated_at := now \<rparr>) db)
      else Inl Log_write_failed)"

definition looksLikeActionsStepLog :: "string \<Rightarrow> bool" where
  "looksLikeActionsStepLog s \<longleftrightarrow>
     contains s ''##[group]'' \<or> contains s ''##[section]'' \<or> contains s ''##[command]'' \<or>
     contains s ''##[error]''"

definition looksLikeRunnerDiag :: "string \<Rightarrow> bool" where
  "looksLikeRunnerDiag s \<longleftrightarrow>
     contains s ''INFO JobServerQueue]'' \<or> contains s ''INFO HostContext]'' \<or>
     contains s ''INFO JobRunner]'' \<or> contains s ''INFO StepsRunner]''"

definition AcceptWorkflowLog :: "string \<Rightarrow> bool" where
  "AcceptWorkflowLog s \<longleftrightarrow>
     (if trim_space s = '''' then False
      else if looksLikeActionsStepLog s then True
      else \<not> looksLikeRunnerDiag s)"

definition MergeJobLogs ::
  "bool \<Rightarrow> gotime \<Rightarrow> int \<Rightarrow> string \<Rightarrow> string \<Rightarrow> string \<Rightarrow> string \<Rightarrow> log_table \<Rightarrow> log_error + log_table" where
  "MergeJobLogs ok now j runner agent console workflow db =
     (case GetJobLog j db of
        Inl e \<Rightarrow> Inl e
      | Inr l \<Rightarrow>
          (let l1 = (if runner \<noteq> '''' then l\<lparr> l_runner := runner \<rparr> else l);
               l2 = (if agent \<noteq> '''' then l1\<lparr> l_agent := agent \<rparr> else l1);
               l3 = (if console \<noteq> '''' then l2\<lparr> l_console := console \<rparr> else l2);
               l4 = (if workflow \<noteq> '''' \<and> AcceptWorkflowLog workflow
                     then l3\<lparr> l_workflow := workflow \<rparr> else l3)
           in writeJobLog ok now l4 db))"

definition ApplyWorkflowAppend :: "string \<Rightarrow> int \<Rightarrow> string \<Rightarrow> string \<times> bool" where
  "ApplyWorkflowAppend cur offset chunk =
     (if chunk = '''' \<or> offset < 0 then (cur, False)
      else if cur = '''' then
        (if offset \<noteq> 0 \<or> \<not> AcceptWorkflowLog chunk then (cur, False) else (chunk, True))
      else if offset = int (length cur) then (cur @ chunk, True)
      else if offset < int (length cur) \<and> int (length cur) < offset + int (length chunk)
      then (take (nat offset) cur @ chunk, True)
      else (cur, False))"

definition AppendWorkflowLog ::
  "bool \<Rightarrow> gotime \<Rightarrow> int \<Rightarrow> int \<Rightarrow> string \<Rightarrow> log_table \<Rightarrow> log_error + log_table" where
  "AppendWorkflowLog ok now j offset chunk db =
     (case GetJobLog j db of
        Inl e \<Rightarrow> Inl e
      | Inr l \<Rightarrow>
          (case ApplyWorkflowAppend (l_workflow l) offset chunk of
             (next, changed) \<Rightarrow>
               if \<not> changed then Inr db else writeJobLog ok now (l\<lparr> l_workflow := next \<rparr>) db))"

definition SetWorkflowLog ::
  "bool \<Rightarrow> gotime \<Rightarrow> int \<Rightarrow> string \<Rightarrow> log_table \<Rightarrow> log_error + log_table" where
  "SetWorkflowLog ok now j s db =
     (case GetJobLog j db of
        Inl e \<Rightarrow> Inl e
      | Inr l \<Rightarrow>
          if \<not> AcceptWorkflowLog s then Inr db
          else writeJobLog ok now (l\<lparr> l_workflow := s \<rparr>) db)"

definition AppendJobEvent ::
  "bool \<Rightarrow> gotime \<Rightarrow> int \<Rightarrow> job_event \<Rightarrow> log_table \<Rightarrow> log_error + log_table" where
  "AppendJobEvent ok now j ev db =
     (if j = 0 then Inl Log_job_id_required
      else
        (let e1 = (if ev_time ev = 0 then ev\<lparr> ev_time := now \<rparr> else ev);
             e2 = (if ev_level e1 = '''' then e1\<lparr> ev_level := ''info'' \<rparr> else e1)
         in case GetJobLog j db of
              Inl e \<Rightarrow> Inl e
            | Inr l \<Rightarrow>
                (let evs = l_events l @ [e2];
                     kept = (if maxJobEvents < length evs
                             then drop (length evs - maxJobEvents) evs else evs)
                 in writeJobLog ok now (l\<lparr> l_events := kept \<rparr>) db)))"

section \<open>The agent's side\<close>

definition nextWorkflowUpload :: "string \<Rightarrow> string \<Rightarrow> string \<times> string \<times> int \<times> bool" where
  "nextWorkflowUpload prev cur =
     (if cur = '''' \<or> cur = prev then ('''', '''', 0, False)
      else if prev \<noteq> '''' \<and> has_prefix cur prev
      then ('''', drop (length prev) cur, int (length prev), True)
      else (cur, '''', 0, True))"

section \<open>The live copy of the control plane\<close>

text \<open>\<open>liveWF\<close> and \<open>liveWFAt\<close> of \<open>Server\<close>, and the table (\<open>None\<close> when no database is configured).\<close>

record live_logs =
  live_wf :: "(int \<times> string) list"
  live_at :: "(int \<times> gotime) list"
  live_db :: "log_table option"

definition workflowPersistEvery :: duration where
  "workflowPersistEvery = 1000000000"

definition liveWorkflow :: "int \<Rightarrow> live_logs \<Rightarrow> string" where
  "liveWorkflow j s = (case map_of (live_wf s) j of None \<Rightarrow> '''' | Some t \<Rightarrow> t)"

definition rememberWorkflow :: "bool \<Rightarrow> gotime \<Rightarrow> int \<Rightarrow> string \<Rightarrow> bool \<Rightarrow> live_logs \<Rightarrow> live_logs" where
  "rememberWorkflow ok now j s persist_now st =
     (if j = 0 \<or> s = '''' then st
      else
        (let last = (case map_of (live_at st) j of None \<Rightarrow> 0 | Some t \<Rightarrow> t);
             due = (persist_now \<or> last = 0 \<or> workflowPersistEvery \<le> time_sub now last);
             st1 = st\<lparr> live_wf := AList.update j s (live_wf st) \<rparr>;
             st2 = (if due then st1\<lparr> live_at := AList.update j now (live_at st1) \<rparr> else st1)
         in if \<not> due then st2
            else case live_db st2 of
              None \<Rightarrow> st2
            | Some db \<Rightarrow>
                (case SetWorkflowLog ok now j s db of
                   Inl e \<Rightarrow> st2 | Inr db' \<Rightarrow> st2\<lparr> live_db := Some db' \<rparr>)))"

definition applyLiveAppend :: "bool \<Rightarrow> gotime \<Rightarrow> int \<Rightarrow> int \<Rightarrow> string \<Rightarrow> live_logs \<Rightarrow> live_logs" where
  "applyLiveAppend ok now j offset chunk st =
     (if j = 0 \<or> chunk = '''' then st
      else
        (let live = liveWorkflow j st;
             cur = (if live = ''''
                    then (case live_db st of
                            None \<Rightarrow> ''''
                          | Some db \<Rightarrow> (case GetJobLog j db of Inl e \<Rightarrow> '''' | Inr l \<Rightarrow> l_workflow l))
                    else live)
         in case ApplyWorkflowAppend cur offset chunk of
              (next, changed) \<Rightarrow>
                if \<not> changed then st else rememberWorkflow ok now j next False st))"

definition overlayLiveWorkflow :: "int \<Rightarrow> job_log \<Rightarrow> live_logs \<Rightarrow> job_log" where
  "overlayLiveWorkflow j l st =
     (let live = liveWorkflow j st in
      if live = '''' then l
      else if l_workflow l = '''' \<or> length (l_workflow l) \<le> length live then l\<lparr> l_workflow := live \<rparr>
      else l)"

text \<open>The workflow part of the handler \<open>handleJobLogs\<close>.\<close>

definition receiveWorkflow ::
  "bool \<Rightarrow> gotime \<Rightarrow> int \<Rightarrow> string \<times> string \<times> int \<times> bool \<Rightarrow> live_logs \<Rightarrow> live_logs" where
  "receiveWorkflow ok now j up st =
     (case up of (full, chunk, offset, send) \<Rightarrow>
        if \<not> send then st
        else
          (let st1 = (if full \<noteq> '''' then rememberWorkflow ok now j full True st else st)
           in if chunk \<noteq> '''' then applyLiveAppend ok now j offset chunk st1 else st1))"

section \<open>Lemmas\<close>

lemma liveWorkflow_remember:
  "j \<noteq> 0 \<Longrightarrow> s \<noteq> [] \<Longrightarrow> liveWorkflow j (rememberWorkflow ok now j s p st) = s"
  by (auto simp: rememberWorkflow_def Let_def liveWorkflow_def AList.update_conv'
      split: option.splits sum.splits)

lemma append_heals:
  assumes "prefix live new" and "length live < length new" and "live \<noteq> []"
    and "0 \<le> off" and "off \<le> int (length live)"
  shows "ApplyWorkflowAppend live off (drop (nat off) new) = (new, True)"
proof -
  obtain z where new: "new = live @ z" using assms(1) by (auto simp: prefix_def)
  have n: "nat off \<le> length live" using assms(4,5) by simp
  show ?thesis
  proof (cases "off = int (length live)")
    case True
    then show ?thesis using assms by (simp add: ApplyWorkflowAppend_def new)
  next
    case False
    then have lt: "off < int (length live)" using assms(5) by simp
    have "take (nat off) live @ drop (nat off) new = new"
      using n by (metis append_take_drop_id new take_append diff_is_0_eq take0 append_Nil2)
    moreover have "drop (nat off) new \<noteq> []" using n assms(2) by simp
    moreover have "off + int (length (drop (nat off) new)) = int (length new)"
      using n assms by simp
    ultimately show ?thesis using lt assms by (simp add: ApplyWorkflowAppend_def)
  qed
qed

text \<open>
  Log streaming converges: whatever append was lost or repeated before, when the control plane
  holds a non-empty prefix of the agent's log, an upload that starts inside that prefix brings it to
  the agent's log exactly; a repeated upload changes nothing.
\<close>

theorem workflow_upload_heals:
  assumes "prefix live new" and "length live < length new" and "live \<noteq> []"
    and "0 \<le> off" and "off \<le> int (length live)"
  shows "ApplyWorkflowAppend live off (drop (nat off) new) = (new, True) \<and>
    ApplyWorkflowAppend new off (drop (nat off) new) = (new, False)"
  using append_heals [OF assms] assms by (auto simp: ApplyWorkflowAppend_def)

theorem workflow_upload_heals_witness:
  "ApplyWorkflowAppend ''abc'' 1 ''bcde'' = (''abcde'', True) \<and>
   ApplyWorkflowAppend ''abcde'' 1 ''bcde'' = (''abcde'', False)"
proof -
  have p: "prefix ''abc'' ''abcde''" by (simp add: prefix_def)
  show ?thesis using workflow_upload_heals [OF p, of 1] by simp
qed

lemma live_after_upload:
  assumes "j \<noteq> 0" and "liveWorkflow j st = prev"
  shows "liveWorkflow j (receiveWorkflow ok now j (nextWorkflowUpload prev cur) st) =
    (if cur = [] then prev else cur)"
proof (cases "cur = [] \<or> cur = prev")
  case True
  then show ?thesis using assms by (auto simp: nextWorkflowUpload_def receiveWorkflow_def)
next
  case False
  show ?thesis
  proof (cases "prev \<noteq> [] \<and> has_prefix cur prev")
    case True
    then have p: "prefix prev cur" "prev \<noteq> []" by (auto simp: has_prefix_def)
    then have len: "length prev < length cur" using False
      by (metis prefix_length_less prefix_order.le_imp_less_or_eq)
    have "ApplyWorkflowAppend prev (int (length prev)) (drop (length prev) cur) = (cur, True)"
      using append_heals [OF p(1) len p(2), of "int (length prev)"] by simp
    then show ?thesis
      using True False assms len
      by (simp add: nextWorkflowUpload_def receiveWorkflow_def applyLiveAppend_def Let_def
          liveWorkflow_remember)
  next
    case False': False
    then show ?thesis
      using False assms
      by (auto simp: nextWorkflowUpload_def receiveWorkflow_def Let_def liveWorkflow_remember)
  qed
qed

text \<open>The agent reads its log again and again and uploads the difference to what it sent last.\<close>

fun stream_log :: "bool \<Rightarrow> int \<Rightarrow> string \<Rightarrow> (gotime \<times> string) list \<Rightarrow> live_logs \<Rightarrow> live_logs" where
  "stream_log ok j prev [] st = st"
| "stream_log ok j prev ((now, cur) # rest) st =
     stream_log ok j (if cur = '''' then prev else cur) rest
       (receiveWorkflow ok now j (nextWorkflowUpload prev cur) st)"

lemma stream_log_live:
  "j \<noteq> 0 \<Longrightarrow> liveWorkflow j st = prev \<Longrightarrow>
   liveWorkflow j (stream_log ok j prev reads st) =
     fold (\<lambda>(now, cur) p. if cur = '''' then p else cur) reads prev"
  by (induction reads arbitrary: prev st) (auto simp: live_after_upload)

text \<open>
  A stream of uploads in order reproduces the guest's log on the control plane, whether the log
  grew, was replaced or was unreadable in between: the live copy is the last non-empty text read,
  even when the database refuses every write.
\<close>

theorem streamed_log_is_last_read:
  assumes "j \<noteq> 0" and "liveWorkflow j st = ''''"
  shows "liveWorkflow j (stream_log ok j '''' reads st) =
    fold (\<lambda>(now, cur) p. if cur = '''' then p else cur) reads ''''"
  using assms by (rule stream_log_live)

theorem streamed_log_is_last_read_witness:
  "liveWorkflow 7 (stream_log False 7 '''' [(1, ''a''), (2, ''ab''), (3, ''''), (4, ''abcd''), (5, ''x'')]
     \<lparr> live_wf = [], live_at = [], live_db = Some [] \<rparr>) = ''x''"
  using streamed_log_is_last_read [of 7 "\<lparr> live_wf = [], live_at = [], live_db = Some [] \<rparr>" False
      "[(1, ''a''), (2, ''ab''), (3, ''''), (4, ''abcd''), (5, ''x'')]"]
  by (simp add: liveWorkflow_def)

section \<open>Rows are bounded and independent\<close>

definition events_bounded :: "log_table \<Rightarrow> bool" where
  "events_bounded db \<longleftrightarrow> list_all (\<lambda>(j, l). length (l_events l) \<le> maxJobEvents \<and> l_job_id l = j) db"

lemma GetJobLog_bounded:
  "events_bounded db \<Longrightarrow> GetJobLog j db = Inr l \<Longrightarrow> length (l_events l) \<le> maxJobEvents \<and> l_job_id l = j"
  by (auto simp: GetJobLog_def events_bounded_def list_all_iff split: if_splits option.splits
      dest!: map_of_SomeD)

lemma writeJobLog_bounded:
  "events_bounded db \<Longrightarrow> length (l_events l) \<le> maxJobEvents \<Longrightarrow> writeJobLog ok now l db = Inr db' \<Longrightarrow>
   events_bounded db'"
  by (auto simp: writeJobLog_def events_bounded_def intro!: list_all_update split: if_splits)

lemma writeJobLog_get:
  "writeJobLog ok now l db = Inr db' \<Longrightarrow> k \<noteq> 0 \<Longrightarrow>
   GetJobLog k db' = (if k = l_job_id l then Inr (l\<lparr> l_updated_at := now \<rparr>) else GetJobLog k db)"
  by (auto simp: writeJobLog_def GetJobLog_def AList.update_conv' split: if_splits)

text \<open>
  Appending an event keeps at most 200 of them per job, always the newest in order, with the new
  one last; the other columns and every other job's row are unchanged.
\<close>

theorem append_event_keeps_newest:
  assumes "events_bounded db" and "GetJobLog j db = Inr l" and "ev_time ev \<noteq> 0" and "ev_level ev \<noteq> ''''"
    and "AppendJobEvent True now j ev db = Inr db'"
  shows "events_bounded db' \<and>
    GetJobLog j db' = Inr (l\<lparr> l_events := drop (length (l_events l) + 1 - maxJobEvents) (l_events l) @ [ev],
                             l_updated_at := now \<rparr>) \<and>
    (\<forall>k. k = j \<or> GetJobLog k db' = GetJobLog k db)"
proof -
  have j: "j \<noteq> 0" using assms(2) by (auto simp: GetJobLog_def)
  have l: "length (l_events l) \<le> maxJobEvents" "l_job_id l = j"
    using GetJobLog_bounded [OF assms(1,2)] by auto
  let ?evs = "drop (length (l_events l) + 1 - maxJobEvents) (l_events l) @ [ev]"
  have w: "writeJobLog True now (l\<lparr> l_events := ?evs \<rparr>) db = Inr db'"
    using assms l j by (auto simp: AppendJobEvent_def Let_def maxJobEvents_def split: if_splits)
  have "length ?evs \<le> maxJobEvents" using l by (simp add: maxJobEvents_def)
  then have "events_bounded db'" by (intro writeJobLog_bounded [OF assms(1) _ w]) simp
  moreover have "GetJobLog k db' = GetJobLog k db" if "k \<noteq> j" for k
    using writeJobLog_get [OF w] that l by (cases "k = 0") (auto simp: GetJobLog_def)
  ultimately show ?thesis using writeJobLog_get [OF w j] l by auto
qed

definition demo_event :: job_event where
  "demo_event = \<lparr> ev_time = 5, ev_source = ''agent'', ev_level = ''info'', ev_message = ''started'' \<rparr>"

theorem append_event_keeps_newest_witness:
  "\<exists>db'. AppendJobEvent True 9 3 demo_event [] = Inr db' \<and> events_bounded db' \<and>
     map_option (map ev_message \<circ> l_events) (case GetJobLog 3 db' of Inl e \<Rightarrow> None | Inr l \<Rightarrow> Some l)
       = Some [''started'']"
proof -
  define l where "l = \<lparr> l_job_id = 3, l_runner = '''', l_agent = '''', l_console = '''', l_workflow = '''',
      l_events = [], l_updated_at = 0 \<rparr>"
  have g: "GetJobLog 3 [] = Inr l" by (simp add: GetJobLog_def l_def)
  obtain db' where a: "AppendJobEvent True 9 3 demo_event [] = Inr db'"
    by (auto simp: AppendJobEvent_def GetJobLog_def writeJobLog_def Let_def)
  have "events_bounded []" by (simp add: events_bounded_def)
  from append_event_keeps_newest [OF this g _ _ a] a show ?thesis
    by (auto simp: demo_event_def l_def)
qed

end
