(* ===== verification/CommandQueues.thy ===== *)
theory CommandQueues
  imports Base
begin

text \<open>
  The two queues of operator commands that wait on the control plane until their agent's next
  heartbeat: \<open>cmdQueue\<close> (\<open>internal/control/agentcmds.go\<close>) and \<open>cacheQueue\<close>
  (\<open>internal/control/cacheops.go\<close>), the wire types of their commands (\<open>internal/api/types.go\<close>), and the
  contract both satisfy, stated as a locale.
\<close>

section \<open>Commands\<close>

definition AgentCmdKillVM :: string where "AgentCmdKillVM = ''kill_vm''"
definition CacheOpPurgeAll :: string where "CacheOpPurgeAll = ''purge_all''"
definition CacheOpPurgeRepo :: string where "CacheOpPurgeRepo = ''purge_repo''"

record AgentCmd =
  cmd_id :: string
  cmd_action :: string
  cmd_vm_id :: string
  cmd_job_id :: int

record CacheOp =
  op_id :: string
  op_action :: string
  op_repo :: string

text \<open>The sequence counter and the commands waiting for each agent.\<close>

record 'c queue_state =
  q_seq :: int
  q_by_id :: "(string \<times> 'c list) list"

type_synonym cmdQueue = "AgentCmd queue_state"
type_synonym cacheQueue = "CacheOp queue_state"

definition newQueue :: "'c queue_state" where
  "newQueue = \<lparr> q_seq = 0, q_by_id = [] \<rparr>"

definition waiting :: "'c queue_state \<Rightarrow> string \<Rightarrow> 'c list" where
  "waiting q agent = (case map_of (q_by_id q) agent of None \<Rightarrow> [] | Some cs \<Rightarrow> cs)"

definition push_cmd :: "string \<Rightarrow> (int \<Rightarrow> 'c) \<Rightarrow> 'c queue_state \<Rightarrow> 'c queue_state" where
  "push_cmd agent mk q =
     (let n = wrap64 (q_seq q + 1) in
      q\<lparr> q_seq := n, q_by_id := AList.update agent (waiting q agent @ [mk n]) (q_by_id q) \<rparr>)"

definition enqueueKill :: "string \<Rightarrow> string \<Rightarrow> int \<Rightarrow> cmdQueue \<Rightarrow> cmdQueue" where
  "enqueueKill agent vm job q =
     (let ag = trim_space agent; v = trim_space vm in
      if ag = '''' \<or> v = '''' then q
      else push_cmd ag (\<lambda>n. \<lparr> cmd_id = itoa n, cmd_action = AgentCmdKillVM, cmd_vm_id = v,
                             cmd_job_id = job \<rparr>) q)"

text \<open>\<open>take\<close> of both queues: the commands of the agent, in order, which leave the queue.\<close>

definition take_cmds :: "string \<Rightarrow> 'c queue_state \<Rightarrow> 'c list \<times> 'c queue_state" where
  "take_cmds agent q =
     (if agent = '''' then ([], q)
      else (let cs = waiting q agent in
            if cs = [] then ([], q)
            else (cs, q\<lparr> q_by_id := AList.delete agent (q_by_id q) \<rparr>)))"

definition enqueue_one :: "string \<Rightarrow> string \<Rightarrow> string \<Rightarrow> cacheQueue \<Rightarrow> cacheQueue" where
  "enqueue_one agent action repo q =
     push_cmd agent (\<lambda>n. \<lparr> op_id = itoa n, op_action = action, op_repo = repo \<rparr>) q"

fun cache_enqueue :: "string list \<Rightarrow> string \<Rightarrow> string \<Rightarrow> cacheQueue \<Rightarrow> int \<times> cacheQueue" where
  "cache_enqueue [] action repo q = (0, q)"
| "cache_enqueue (a # as) action repo q =
     (let id = trim_space a in
      if id = '''' then cache_enqueue as action repo q
      else (case cache_enqueue as action repo (enqueue_one id action repo q) of
              (n, q') \<Rightarrow> (n + 1, q')))"

definition cacheAction :: "string \<Rightarrow> string" where
  "cacheAction repo = (if trim_space repo = '''' then CacheOpPurgeAll else CacheOpPurgeRepo)"

text \<open>\<open>validateCacheRepo\<close>: \<open>True\<close> for a nil error.\<close>

definition validateCacheRepo :: "string \<Rightarrow> bool" where
  "validateCacheRepo repo =
     (let r = trim_space repo in
      if r = '''' then True
      else (let parts = split_on (CHR ''/'') r in
            length parts = 2 \<and> parts ! 0 \<noteq> '''' \<and> parts ! 1 \<noteq> ''''))"

section \<open>The contract\<close>

text \<open>
  A queue of commands per agent: \<open>put\<close> adds a command that carries the next sequence number to the queue of the agent
  that \<open>target\<close> says, or does nothing; \<open>pull\<close> hands over and empties what waits for one agent, if it names one.
\<close>

locale command_queue =
  fixes put :: "string \<Rightarrow> 'p \<Rightarrow> 'q \<Rightarrow> 'q"
    and pull :: "string \<Rightarrow> 'q \<Rightarrow> 'c list \<times> 'q"
    and held :: "'q \<Rightarrow> string \<Rightarrow> 'c list"
    and seq :: "'q \<Rightarrow> int"
    and mk :: "int \<Rightarrow> 'p \<Rightarrow> 'c"
    and target :: "string \<Rightarrow> 'p \<Rightarrow> string option"
  assumes put_held: "target b p = Some a \<Longrightarrow>
      held (put b p q) = (held q)(a := held q a @ [mk (wrap64 (seq q + 1)) p])"
    and put_seq: "target b p = Some a \<Longrightarrow> seq (put b p q) = wrap64 (seq q + 1)"
    and put_none: "target b p = None \<Longrightarrow> put b p q = q"
    and pull_out: "a \<noteq> '''' \<Longrightarrow> fst (pull a q) = held q a"
    and pull_held: "a \<noteq> '''' \<Longrightarrow> held (snd (pull a q)) = (held q)(a := [])"
    and pull_seq: "seq (snd (pull a q)) = seq q"
    and pull_none: "pull '''' q = ([], q)"
begin

text \<open>A schedule: \<open>Inl (a, p)\<close> puts a command, \<open>Inr a\<close> is a heartbeat of agent \<open>a\<close>.\<close>

fun play :: "(string \<times> 'p + string) list \<Rightarrow> 'q \<Rightarrow> (string \<times> 'c list) list \<times> 'q" where
  "play [] q = ([], q)"
| "play (Inl (a, p) # es) q = play es (put a p q)"
| "play (Inr a # es) q =
     (case pull a q of (cs, q1) \<Rightarrow> (case play es q1 of (out, q2) \<Rightarrow> ((a, cs) # out, q2)))"

definition delivered :: "string \<Rightarrow> (string \<times> 'c list) list \<Rightarrow> 'c list" where
  "delivered a out = concat (map snd (filter (\<lambda>x. fst x = a) out))"

text \<open>The commands put for one agent, numbered from the counter on.\<close>

fun issued :: "string \<Rightarrow> (string \<times> 'p + string) list \<Rightarrow> int \<Rightarrow> 'c list" where
  "issued a [] n = []"
| "issued a (Inl (b, p) # es) n =
     (case target b p of
        None \<Rightarrow> issued a es n
      | Some k \<Rightarrow> (if k = a then [mk (wrap64 (n + 1)) p] else []) @ issued a es (wrap64 (n + 1)))"
| "issued a (Inr b # es) n = issued a es n"

lemma exactly_once:
  "delivered a (fst (play es q)) @ held (snd (play es q)) a = held q a @ issued a es (seq q)"
proof (induction es q rule: play.induct)
  case (2 b p es q)
  then show ?case by (cases "target b p") (simp_all add: put_held put_seq put_none)
next
  case (3 b es q)
  show ?case
  proof (cases "b = ''''")
    case True
    then show ?thesis using 3 by (auto simp: pull_none delivered_def split: prod.splits)
  next
    case False
    obtain cs q1 where pull: "pull b q = (cs, q1)" by (cases "pull b q")
    have "cs = held q b" "held q1 = (held q)(b := [])" "seq q1 = seq q"
      using pull_out [OF False, of q] pull_held [OF False, of q] pull_seq [of b q] pull by simp_all
    with 3 pull show ?thesis by (auto simp: delivered_def split: prod.splits)
  qed
qed (simp add: delivered_def)

lemma play_append:
  "play (es @ fs) q = (case play es q of (out, q1) \<Rightarrow> case play fs q1 of (out', q2) \<Rightarrow> (out @ out', q2))"
  by (induction es q rule: play.induct) (auto split: prod.splits)

lemma heartbeat_empties: "a \<noteq> '''' \<Longrightarrow> held (snd (play (es @ [Inr a]) q)) a = []"
  using pull_held [of a] by (auto simp: play_append split: prod.splits) (metis fun_upd_same snd_conv)

lemma issued_heartbeat: "issued a (es @ [Inr b]) n = issued a es n"
  by (induction a es n rule: issued.induct) (auto split: option.splits)

lemma all_delivered:
  "a \<noteq> '''' \<Longrightarrow> delivered a (fst (play (es @ [Inr a]) q)) = held q a @ issued a es (seq q)"
  using exactly_once [of a "es @ [Inr a]" q] by (simp add: heartbeat_empties issued_heartbeat)

end

section \<open>Both queues satisfy it\<close>

lemma waiting_push:
  "waiting (push_cmd a mk q) = (waiting q)(a := waiting q a @ [mk (wrap64 (q_seq q + 1))])"
  by (auto simp: push_cmd_def waiting_def Let_def AList.update_conv' fun_eq_iff)

lemma seq_push: "q_seq (push_cmd a mk q) = wrap64 (q_seq q + 1)"
  by (simp add: push_cmd_def Let_def)

lemma waiting_take:
  "a \<noteq> '''' \<Longrightarrow> fst (take_cmds a q) = waiting q a"
  "a \<noteq> '''' \<Longrightarrow> waiting (snd (take_cmds a q)) = (waiting q)(a := [])"
  "q_seq (snd (take_cmds a q)) = q_seq q"
  "take_cmds '''' q = ([], q)"
  by (auto simp: take_cmds_def waiting_def Let_def fun_eq_iff AList.delete_conv'
      split: option.splits)

definition kill_cmd :: "int \<Rightarrow> string \<times> int \<Rightarrow> AgentCmd" where
  "kill_cmd n p = \<lparr> cmd_id = itoa n, cmd_action = AgentCmdKillVM, cmd_vm_id = trim_space (fst p),
     cmd_job_id = snd p \<rparr>"

definition put_kill :: "string \<Rightarrow> string \<times> int \<Rightarrow> cmdQueue \<Rightarrow> cmdQueue" where
  "put_kill a p q = enqueueKill a (fst p) (snd p) q"

text \<open>A kill goes to the trimmed name of its agent, and is dropped without an agent or a guest.\<close>

definition kill_target :: "string \<Rightarrow> string \<times> int \<Rightarrow> string option" where
  "kill_target a p = (if trim_space a = '''' \<or> trim_space (fst p) = '''' then None else Some (trim_space a))"

interpretation kills: command_queue put_kill take_cmds waiting q_seq kill_cmd kill_target
  by unfold_locales
    (auto simp: put_kill_def enqueueKill_def kill_target_def kill_cmd_def Let_def waiting_push seq_push
      waiting_take split: if_splits)

definition purge_op :: "int \<Rightarrow> string \<times> string \<Rightarrow> CacheOp" where
  "purge_op n p = \<lparr> op_id = itoa n, op_action = fst p, op_repo = snd p \<rparr>"

definition put_purge :: "string \<Rightarrow> string \<times> string \<Rightarrow> cacheQueue \<Rightarrow> cacheQueue" where
  "put_purge a p q = snd (cache_enqueue [a] (fst p) (snd p) q)"

definition purge_target :: "string \<Rightarrow> string \<times> string \<Rightarrow> string option" where
  "purge_target a p = (if trim_space a = '''' then None else Some (trim_space a))"

interpretation purges: command_queue put_purge take_cmds waiting q_seq purge_op purge_target
  by unfold_locales
    (auto simp: put_purge_def enqueue_one_def purge_op_def purge_target_def Let_def waiting_push seq_push waiting_take
      split: if_splits)

text \<open>
  C17. A kill command is delivered exactly once, in order, and by the agent's next heartbeat: over any schedule of
  commands and heartbeats, under whatever names, what an agent has been sent followed by what still waits for it is what
  was issued for it, each command with its own number, and with each of its heartbeats everything issued for it until
  then has been sent. A command is issued for the trimmed name of the agent it was given.
\<close>

theorem kill_commands_exactly_once:
  "kills.delivered a (fst (kills.play es newQueue)) @ waiting (snd (kills.play es newQueue)) a = kills.issued a es 0 \<and>
   (a \<noteq> '''' \<longrightarrow> kills.delivered a (fst (kills.play (es @ [Inr a]) newQueue)) = kills.issued a es 0)"
  using kills.exactly_once [of a es newQueue] kills.all_delivered [of a es newQueue] by (simp add: newQueue_def waiting_def)

theorem kill_commands_exactly_once_witness:
  "''h1'' \<noteq> '''' \<and>
   kills.delivered ''h1'' (fst (kills.play ([Inl (''h1'', ''vm1'', 7), Inl (''h2'', ''vm2'', 8), Inr ''h1'',
       Inl ('' h1'', ''vm3'', 9)] @ [Inr ''h1'']) newQueue))
   = [kill_cmd 1 (''vm1'', 7), kill_cmd 3 (''vm3'', 9)]"
proof -
  let ?es = "[Inl (''h1'', ''vm1'', 7), Inl (''h2'', ''vm2'', 8), Inr ''h1'', Inl ('' h1'', ''vm3'', 9)]
    :: (string \<times> string \<times> int + string) list"
  have trims: "trim_space ''vm1'' = ''vm1''" "trim_space ''vm2'' = ''vm2''" "trim_space ''vm3'' = ''vm3''"
    "trim_space ''h1'' = ''h1''" "trim_space ''h2'' = ''h2''" "trim_space '' h1'' = ''h1''" by code_simp+
  have "kills.delivered ''h1'' (fst (kills.play (?es @ [Inr ''h1'']) newQueue)) = kills.issued ''h1'' ?es 0"
    using kill_commands_exactly_once [of "''h1''" ?es] by blast
  also have "\<dots> = [kill_cmd 1 (''vm1'', 7), kill_cmd 3 (''vm3'', 9)]" by (simp add: wrap64_def kill_target_def trims)
  finally show ?thesis by simp
qed

text \<open>An agent whose name begins or ends with blanks is never sent a command: they wait under the trimmed name.\<close>

lemma padded_agent_is_never_told:
  assumes "trim_space a \<noteq> a"
  shows "kills.issued a es n = []"
proof -
  have "a \<noteq> trim_space b" for b using assms by (metis trim_space_twice)
  then show ?thesis by (induction a es n rule: kills.issued.induct) (auto simp: kill_target_def)
qed


lemma cache_enqueue_count:
  "fst (cache_enqueue as action repo q) = int (length (filter (\<lambda>a. trim_space a \<noteq> '''') as))"
  by (induction as arbitrary: q) (auto simp: Let_def split: prod.splits, metis fst_conv)

end
