(* ===== verification/Registry.thy ===== *)
theory Registry
  imports Complex_Main CommandQueues
begin

text \<open>
  The wire types between agents and the control plane (\<open>internal/api/types.go\<close>) and the registry of
  agents (\<open>internal/control/agents.go\<close>), whose methods hold its mutex for their whole body. A pointer
  field is an option; a nil slice and an empty one are told apart only where the code does, by an
  option.
\<close>

section \<open>Wire types\<close>

record VMUsage =
  u_id :: string
  u_state :: string
  u_job_id :: string
  u_vcpus :: int
  u_memory_mib :: int
  u_pid :: int
  u_cpu_percent :: real
  u_rss_mib :: real
  u_disk_mib :: real
  u_created_at :: gotime
  u_sampled_at :: gotime
  u_guest_ip :: string
  u_host_ip :: string
  u_tap :: string
  u_shape :: string
  u_console_tail :: string
  u_agent_tail :: string

record HostResources =
  hr_ram_total :: int
  hr_ram_avail :: int
  hr_allocated :: int
  hr_reserve :: int
  hr_disk_total :: int
  hr_disk_free :: int
  hr_num_cpu :: int
  hr_configured_max_ready :: int
  hr_effective_max_ready :: int
  hr_clamp_reason :: string
  hr_last_admit_reason :: string
  hr_exclusive_busy :: bool

record CacheEntryUsage =
  ce_key :: string
  ce_version :: string
  ce_bytes :: int
  ce_created :: gotime
  ce_last_access :: gotime

record CacheRepoUsage =
  cr_repo :: string
  cr_bytes :: int
  cr_entries :: int
  cr_last_access :: gotime
  cr_keys :: "CacheEntryUsage list"

record CacheUsage =
  cu_bytes :: int
  cu_max_bytes :: int
  cu_entries :: int
  cu_repos :: "CacheRepoUsage list"

record RegisterRequest =
  rq_agent_id :: string
  rq_max_capacity :: int
  rq_capacity :: int
  rq_warm :: int
  rq_busy :: int
  rq_labels :: "string list"
  rq_vms :: "VMUsage list"
  rq_cached_repos :: "string list option"
  rq_cache :: "CacheUsage option"
  rq_resources :: "HostResources option"

record AgentInfo =
  ai_agent_id :: string
  ai_max_capacity :: int
  ai_capacity :: int
  ai_warm :: int
  ai_busy :: int
  ai_labels :: "string list"
  ai_registered_at :: gotime
  ai_last_seen :: gotime
  ai_vms :: "VMUsage list"
  ai_cached_repos :: "string list option"
  ai_cache :: "CacheUsage option"
  ai_resources :: "HostResources option"

record RegisterResponse =
  rr_ok :: bool
  rr_agent_id :: string
  rr_cache_ops :: "CacheOp list"
  rr_commands :: "AgentCmd list"

record ClaimRequest =
  cq_agent_id :: string
  cq_free_slots :: int
  cq_warm :: int
  cq_busy :: int
  cq_cached_repos :: "string list"
  cq_wait_ms :: int

record JobStartedRequest =
  sq_agent_id :: string
  sq_job_id :: int
  sq_vm_id :: string
  sq_warm_bind :: bool

record JobFinishedRequest =
  fq_agent_id :: string
  fq_job_id :: int
  fq_outcome :: string
  fq_warm_bind :: bool
  fq_vm_id :: string
  fq_error :: string
  fq_runner_log :: string
  fq_agent_log :: string
  fq_console_log :: string
  fq_workflow_log :: string
  fq_cache_hits :: int
  fq_cache_misses :: int
  fq_cache_bytes_in :: int
  fq_cache_bytes_out :: int

record JobLogsRequest =
  lq_agent_id :: string
  lq_job_id :: int
  lq_runner_log :: string
  lq_agent_log :: string
  lq_console_log :: string
  lq_workflow_log :: string
  lq_workflow_offset :: int
  lq_workflow_append :: string

section \<open>The registry\<close>

type_synonym registry = "(string \<times> AgentInfo) list"

definition new_agent :: "string \<Rightarrow> gotime \<Rightarrow> AgentInfo" where
  "new_agent agent now =
     \<lparr> ai_agent_id = agent, ai_max_capacity = 0, ai_capacity = 0, ai_warm = 0, ai_busy = 0,
       ai_labels = [], ai_registered_at = now, ai_last_seen = 0, ai_vms = [],
       ai_cached_repos = None, ai_cache = None, ai_resources = None \<rparr>"

definition refresh_agent :: "gotime \<Rightarrow> RegisterRequest \<Rightarrow> AgentInfo \<Rightarrow> AgentInfo" where
  "refresh_agent now r i =
     (let i1 = (if 0 < rq_max_capacity r then i\<lparr> ai_max_capacity := rq_max_capacity r \<rparr> else i);
          i2 = i1\<lparr> ai_capacity := rq_capacity r, ai_warm := rq_warm r, ai_busy := rq_busy r \<rparr>;
          i3 = (if rq_labels r \<noteq> [] then i2\<lparr> ai_labels := rq_labels r \<rparr> else i2);
          i4 = i3\<lparr> ai_vms := rq_vms r \<rparr>;
          i5 = (if rq_cached_repos r \<noteq> None then i4\<lparr> ai_cached_repos := rq_cached_repos r \<rparr> else i4);
          i6 = (if rq_cache r \<noteq> None then i5\<lparr> ai_cache := rq_cache r \<rparr> else i5);
          i7 = (if rq_resources r \<noteq> None then i6\<lparr> ai_resources := rq_resources r \<rparr> else i6)
      in i7\<lparr> ai_last_seen := now \<rparr>)"

definition Register :: "gotime \<Rightarrow> RegisterRequest \<Rightarrow> registry \<Rightarrow> AgentInfo \<times> registry" where
  "Register now r reg =
     (let info = (case map_of reg (rq_agent_id r) of
                    None \<Rightarrow> new_agent (rq_agent_id r) now | Some i \<Rightarrow> i);
          info' = refresh_agent now r info
      in (info', AList.update (rq_agent_id r) info' reg))"

definition UpdateCapacity :: "gotime \<Rightarrow> string \<Rightarrow> int \<Rightarrow> int \<Rightarrow> int \<Rightarrow> registry \<Rightarrow> registry" where
  "UpdateCapacity now agent free warm busy reg =
     (case map_of reg agent of
        None \<Rightarrow> reg
      | Some i \<Rightarrow> AList.update agent
          (i\<lparr> ai_capacity := free, ai_warm := warm, ai_busy := busy, ai_last_seen := now \<rparr>) reg)"

definition HasCapacity :: "string \<Rightarrow> int \<Rightarrow> bool" where
  "HasCapacity agent free = (if free \<le> 0 then False else True)"

definition GetAgent :: "string \<Rightarrow> registry \<Rightarrow> AgentInfo option" where
  "GetAgent agent reg = map_of reg agent"

definition Touch :: "gotime \<Rightarrow> string \<Rightarrow> registry \<Rightarrow> registry" where
  "Touch now agent reg =
     (case map_of reg agent of
        None \<Rightarrow> reg
      | Some i \<Rightarrow> AList.update agent (i\<lparr> ai_last_seen := now \<rparr>) reg)"

definition ListAgents :: "registry \<Rightarrow> AgentInfo list" where
  "ListAgents reg = map snd reg"

definition registry_ok :: "registry \<Rightarrow> bool" where
  "registry_ok reg \<longleftrightarrow> distinct (map fst reg) \<and> list_all (\<lambda>(k, i). ai_agent_id i = k) reg"

lemma refresh_agent_simps [simp]:
  "ai_agent_id (refresh_agent now r i) = ai_agent_id i"
  "ai_registered_at (refresh_agent now r i) = ai_registered_at i"
  "ai_last_seen (refresh_agent now r i) = now"
  "ai_vms (refresh_agent now r i) = rq_vms r"
  "ai_capacity (refresh_agent now r i) = rq_capacity r"
  "ai_labels (refresh_agent now r i) = (if rq_labels r = [] then ai_labels i else rq_labels r)"
  "ai_cache (refresh_agent now r i) = (if rq_cache r = None then ai_cache i else rq_cache r)"
  by (simp_all add: refresh_agent_def Let_def)

lemma registry_okD: "registry_ok reg \<Longrightarrow> map_of reg k = Some i \<Longrightarrow> ai_agent_id i = k"
  by (auto simp: registry_ok_def list_all_iff dest!: map_of_SomeD)

lemma registry_ok_update:
  "registry_ok reg \<Longrightarrow> ai_agent_id i = k \<Longrightarrow> registry_ok (AList.update k i reg)"
  by (auto simp: registry_ok_def AList.distinct_update intro!: list_all_update)

lemma Register_ok: "registry_ok reg \<Longrightarrow> registry_ok (snd (Register now r reg))"
  by (auto simp: Register_def Let_def new_agent_def dest: registry_okD intro!: registry_ok_update
      split: option.splits)

lemma UpdateCapacity_ok: "registry_ok reg \<Longrightarrow> registry_ok (UpdateCapacity now a f w b reg)"
  by (auto simp: UpdateCapacity_def dest: registry_okD intro!: registry_ok_update
      split: option.splits)

lemma Touch_ok: "registry_ok reg \<Longrightarrow> registry_ok (Touch now a reg)"
  by (auto simp: Touch_def dest: registry_okD intro!: registry_ok_update split: option.splits)

text \<open>
  A heartbeat replaces what the agent reports about itself, its virtual machines even when there
  are none left, keeps the first registration time and what it did not report, and leaves every other
  agent alone.
\<close>

theorem register_refreshes:
  assumes "registry_ok reg"
  shows "registry_ok (snd (Register now r reg)) \<and>
    (case GetAgent (rq_agent_id r) (snd (Register now r reg)) of
       None \<Rightarrow> False
     | Some i \<Rightarrow> i = fst (Register now r reg) \<and> ai_agent_id i = rq_agent_id r \<and>
         ai_vms i = rq_vms r \<and> ai_capacity i = rq_capacity r \<and> ai_last_seen i = now \<and>
         ai_registered_at i =
           (case GetAgent (rq_agent_id r) reg of None \<Rightarrow> now | Some old \<Rightarrow> ai_registered_at old) \<and>
         ai_cache i = (if rq_cache r = None
           then Option.bind (GetAgent (rq_agent_id r) reg) ai_cache else rq_cache r)) \<and>
    (\<forall>k. k = rq_agent_id r \<or> GetAgent k (snd (Register now r reg)) = GetAgent k reg)"
  using Register_ok [OF assms] registry_okD [OF assms]
  by (auto simp: Register_def GetAgent_def Let_def AList.update_conv' new_agent_def
      split: option.splits)

definition demo_register :: RegisterRequest where
  "demo_register = \<lparr> rq_agent_id = ''h1'', rq_max_capacity = 4, rq_capacity = 3, rq_warm = 1, rq_busy = 1,
     rq_labels = [], rq_vms = [], rq_cached_repos = None, rq_cache = None, rq_resources = None \<rparr>"

theorem register_refreshes_witness:
  "registry_ok (snd (Register 5 demo_register [])) \<and>
   map_option ai_registered_at
     (GetAgent ''h1'' (snd (Register 9 demo_register (snd (Register 5 demo_register []))))) = Some 5"
proof -
  have ok: "registry_ok []" by (simp add: registry_ok_def)
  have g: "rq_agent_id demo_register = ''h1''" by (simp add: demo_register_def)
  have first: "map_option ai_registered_at (GetAgent ''h1'' (snd (Register 5 demo_register []))) = Some 5"
    using register_refreshes [OF ok, of 5 demo_register]
    by (auto simp: g GetAgent_def split: option.splits)
  then have "map_option ai_registered_at
     (GetAgent ''h1'' (snd (Register 9 demo_register (snd (Register 5 demo_register []))))) = Some 5"
    using register_refreshes [OF Register_ok [OF ok], of 9 demo_register 5 demo_register]
    by (auto simp: g split: option.splits)
  with Register_ok [OF ok] show ?thesis by simp
qed


end
