(* ===== verification/Outcome.thy ===== *)
theory Outcome
  imports Base
begin

text \<open>
  \<open>internal/agent/outcome.go\<close>: what the official runner's log says about a job. Both the agent and the
  control plane read it. The lower-casing is ASCII, so an offset into the lower-cased text is the
  offset into the text.
\<close>

definition running_prefix :: string where
  "running_prefix = ''running job:''"

definition RunningJobName :: "string \<Rightarrow> string" where
  "RunningJobName log =
     (case last_index (to_lower log) running_prefix of
        None \<Rightarrow> ''''
      | Some i \<Rightarrow>
          (let rest = drop (i + length running_prefix) log;
               line = (case str_index rest [CHR 0x0A] of Some n \<Rightarrow> take n rest | None \<Rightarrow> rest)
           in trim_space line))"

definition jobCompletedOK :: "string \<Rightarrow> bool" where
  "jobCompletedOK log \<longleftrightarrow> contains (to_lower log) ''completed with result: succeeded''"

definition jobCompletedFailed :: "string \<Rightarrow> bool" where
  "jobCompletedFailed log \<longleftrightarrow>
     (let low = to_lower log in
      contains low ''completed with result: failed'' \<or>
      contains low ''completed with result: cancelled'' \<or>
      contains low ''completed with result: canceled'')"

definition runnerLogIndicatesAbort :: "string \<Rightarrow> bool" where
  "runnerLogIndicatesAbort log \<longleftrightarrow>
     (let low = to_lower log in
      if contains low ''out of memory'' then True
      else if contains low ''unknown error code: 134'' then True
      else contains low ''aborted'' \<and> contains low ''runner.listener'')"

definition RefineOutcomeForJob :: "string \<Rightarrow> string \<Rightarrow> string \<Rightarrow> string" where
  "RefineOutcomeForJob outcome log assigned =
     (let started = RunningJobName log in
      if assigned \<noteq> '''' \<and> started \<noteq> '''' \<and> \<not> equal_fold started assigned then ''error''
      else if outcome \<noteq> ''success'' then outcome
      else if jobCompletedOK log then ''success''
      else if jobCompletedFailed log \<or> runnerLogIndicatesAbort log then ''failure''
      else ''success'')"

definition RefineOutcome :: "string \<Rightarrow> string \<Rightarrow> string" where
  "RefineOutcome outcome log = RefineOutcomeForJob outcome log ''''"

section \<open>Lemmas\<close>

lemma last_index_None_suffix: "last_index s p = None \<Longrightarrow> \<not> has_prefix s p"
  by (cases s) (auto split: option.splits if_splits simp: has_prefix_def)

lemma last_index_append_last:
  assumes "has_prefix (c # s) p" and "last_index s p = None"
  shows "last_index (a @ c # s) p = Some (length a)"
  using assms by (induction a) auto

lemma to_lower_append: "to_lower (a @ b) = to_lower a @ to_lower b"
  by (simp add: to_lower_def)

lemma str_index_newline:
  "CHR 0x0A \<notin> set name \<Longrightarrow> str_index (name @ CHR 0x0A # post) [CHR 0x0A] = Some (length name)"
  by (induction name) (auto simp: has_prefix_def)

text \<open>
  The runner log names the job the runner accepted: the text of the last \<open>Running job:\<close> line, in
  any letter case and whatever comes before it, up to the end of the line and trimmed.
\<close>

theorem running_job_name_last_line:
  assumes "to_lower p = running_prefix" and "CHR 0x0A \<notin> set name"
    and "last_index (to_lower (drop 1 p @ name @ CHR 0x0A # post)) running_prefix = None"
  shows "RunningJobName (pre @ p @ name @ CHR 0x0A # post) = trim_space name"
proof -
  have lp: "length p = length running_prefix" using assms(1) by (metis length_to_lower)
  then obtain c q where p: "p = c # q" by (cases p) (auto simp: running_prefix_def)
  let ?tail = "p @ name @ CHR 0x0A # post"
  have "has_prefix (to_lower ?tail) running_prefix"
    by (simp add: to_lower_append assms(1) has_prefix_def)
  moreover have "to_lower ?tail = lower_char c # to_lower (drop 1 p @ name @ CHR 0x0A # post)"
    by (simp add: p to_lower_Cons)
  ultimately have "last_index (to_lower (pre @ ?tail)) running_prefix = Some (length pre)"
    using last_index_append_last assms(3) by (metis length_to_lower to_lower_append)
  then show ?thesis
    using assms(2) by (simp add: RunningJobName_def Let_def lp [symmetric] str_index_newline)
qed

theorem running_job_name_last_line_witness:
  "RunningJobName (''x Running job: a'' @ [CHR 0x0A] @ ''Running job:'' @ '' E2E '' @ CHR 0x0A # ''done'')
     = ''E2E''"
proof -
  have "RunningJobName ((''x Running job: a'' @ [CHR 0x0A]) @ ''Running job:'' @ '' E2E '' @ CHR 0x0A # ''done'')
      = trim_space '' E2E ''"
    by (rule running_job_name_last_line) code_simp+
  moreover have "trim_space '' E2E '' = ''E2E''" by code_simp
  ultimately show ?thesis by simp
qed

text \<open>
  The refinement only ever makes an outcome worse: it reports success exactly when the runner
  process succeeded, no other job was accepted, and the log has a success line or no sign of failure;
  every other outcome is kept unless the wrong job ran, and refining twice changes nothing.
\<close>

theorem refine_outcome_conservative:
  "(RefineOutcomeForJob outcome log assigned = ''success'') =
     (outcome = ''success'' \<and>
      (assigned = '''' \<or> RunningJobName log = '''' \<or> equal_fold (RunningJobName log) assigned) \<and>
      (jobCompletedOK log \<or> \<not> (jobCompletedFailed log \<or> runnerLogIndicatesAbort log))) \<and>
   RefineOutcomeForJob outcome log assigned \<in> {outcome, ''error'', ''failure''} \<and>
   RefineOutcomeForJob (RefineOutcomeForJob outcome log assigned) log assigned
     = RefineOutcomeForJob outcome log assigned"
  by (auto simp: RefineOutcomeForJob_def Let_def)

end
