(* ===== verification/Webhooks.thy ===== *)
theory Webhooks
  imports Labels Assignments JobLogs Registry Outcome
begin

text \<open>
  What the control plane does with GitHub's events: \<open>internal/github/workflow_job.go\<close> and
  \<open>webhook.go\<close>, the \<open>Handler\<close> of \<open>internal/control/handler.go\<close>, \<open>github_complete.go\<close> and the webhook
  route of \<open>server.go\<close>. The state is the part of \<open>Server\<close> these touch. GitHub's answer to a JIT
  request is an argument (\<open>minter\<close>), as are the decoded JSON body and the HMAC. A goroutine the
  route starts is a task that is kept in the state and runs at some later time.
\<close>

section \<open>Events\<close>

record WorkflowJob =
  wj_id :: int
  wj_run_id :: int
  wj_name :: string
  wj_workflow_name :: string
  wj_conclusion :: string
  wj_labels :: "string list"
  wj_runner_name :: string

record WorkflowJobEvent =
  ev_action :: string
  ev_job :: WorkflowJob
  ev_workflow :: string
  ev_repo_full_name :: string
  ev_org_login :: string
  ev_installation_id :: int

definition EventWorkflowName :: "WorkflowJobEvent \<Rightarrow> string" where
  "EventWorkflowName ev =
     (if ev_workflow ev \<noteq> '''' then ev_workflow ev
      else if wj_workflow_name (ev_job ev) \<noteq> '''' then wj_workflow_name (ev_job ev)
      else '''')"

text \<open>The signature of the raw body: \<open>mac\<close> is HMAC-SHA256, \<open>unhex\<close> is \<open>hex.DecodeString\<close>.\<close>

definition VerifyWebhookSignature ::
  "(string \<Rightarrow> string \<Rightarrow> string) \<Rightarrow> (string \<Rightarrow> string option) \<Rightarrow> string \<Rightarrow> string \<Rightarrow> string \<Rightarrow> bool" where
  "VerifyWebhookSignature mac unhex secret body header =
     (if secret = '''' then False
      else if \<not> has_prefix header ''sha256='' then False
      else case unhex (trim_prefix header ''sha256='') of
        None \<Rightarrow> False
      | Some got \<Rightarrow> got = mac secret body)"

section \<open>Server state\<close>

text \<open>
  \<open>sv_writes\<close> is the sequence of copies handed to the persister and \<open>sv_deleted\<close> the calls of
  \<open>DeleteOrgRunner\<close> (organisation, runner, installation).
\<close>

record server =
  sv_store :: assignment_store
  sv_agents :: registry
  sv_cmds :: cmdQueue
  sv_cacheq :: cacheQueue
  sv_logs :: live_logs
  sv_writes :: "assignment list"
  sv_deleted :: "(string \<times> int \<times> int) list"

record HandlerConfig =
  hc_org :: string
  hc_label_prefix :: string
  hc_runner_group :: int
  hc_deleter :: bool

definition NewHandler :: "HandlerConfig \<Rightarrow> HandlerConfig" where
  "NewHandler c =
     (let c1 = (if hc_label_prefix c = '''' then c\<lparr> hc_label_prefix := DefaultLabelPrefix \<rparr> else c)
      in if hc_runner_group c1 = 0 then c1\<lparr> hc_runner_group := 1 \<rparr> else c1)"

record jit_request =
  jr_org :: string
  jr_name :: string
  jr_group :: int
  jr_labels :: "string list"
  jr_installation :: int

record jit_response =
  jp_runner_id :: int
  jp_encoded :: string

type_synonym minter = "jit_request \<Rightarrow> string + jit_response"

datatype handle_result =
    Ignored string "assignment option"
  | Handled "assignment option"
  | Handle_error string

text \<open>One operation on the assignment store, with its write.\<close>

definition do_op :: "gotime \<Rightarrow> store_op \<Rightarrow> server \<Rightarrow> store_error option \<times> server" where
  "do_op now op sv =
     (case run_op now op (sv_store sv) of
        (e, f, s') \<Rightarrow>
          (e, sv\<lparr> sv_store := s',
                  sv_writes := sv_writes sv @ (case f of None \<Rightarrow> [] | Some a \<Rightarrow> [a]) \<rparr>))"

definition recordJobEvent :: "gotime \<Rightarrow> int \<Rightarrow> string \<Rightarrow> string \<Rightarrow> string \<Rightarrow> server \<Rightarrow> server" where
  "recordJobEvent now j source level msg sv =
     (if j = 0 \<or> msg = '''' then sv
      else case live_db (sv_logs sv) of
        None \<Rightarrow> sv
      | Some db \<Rightarrow>
          (case AppendJobEvent True now j
                  \<lparr> ev_time = 0, ev_source = source, ev_level = level, ev_message = msg \<rparr> db of
             Inl e \<Rightarrow> sv
           | Inr db' \<Rightarrow> sv\<lparr> sv_logs := (sv_logs sv)\<lparr> live_db := Some db' \<rparr> \<rparr>))"

definition deleteJobRunner :: "HandlerConfig \<Rightarrow> assignment \<Rightarrow> server \<Rightarrow> server" where
  "deleteJobRunner c a sv =
     (if \<not> hc_deleter c \<or> a_runner_id a = 0 \<or> a_org a = '''' then sv
      else sv\<lparr> sv_deleted := sv_deleted sv @ [(a_org a, a_runner_id a, a_installation_id a)] \<rparr>)"

definition runner_name :: "int \<Rightarrow> string" where
  "runner_name j = ''temperci-job-'' @ itoa j"

section \<open>Handler\<close>

text \<open>The record both branches of \<open>HandleWorkflowJob\<close> put in, before what they differ in.\<close>

definition job_of_event :: "HandlerConfig \<Rightarrow> string \<Rightarrow> WorkflowJobEvent \<Rightarrow> assignment" where
  "job_of_event c org ev =
     zero_assignment\<lparr> a_job_id := wj_id (ev_job ev), a_run_id := wj_run_id (ev_job ev), a_org := org,
       a_repo := ev_repo_full_name ev, a_name := wj_name (ev_job ev),
       a_workflow_name := EventWorkflowName ev,
       a_labels := OwnedLabels (wj_labels (ev_job ev)) (hc_label_prefix c),
       a_installation_id := ev_installation_id ev, a_runner_name := runner_name (wj_id (ev_job ev)) \<rparr>"

definition HandleWorkflowJob ::
  "HandlerConfig \<Rightarrow> minter \<Rightarrow> gotime \<Rightarrow> WorkflowJobEvent \<Rightarrow> server \<Rightarrow> handle_result \<times> server" where
  "HandleWorkflowJob c mint now ev sv =
     (if ev_action ev \<noteq> ''queued'' then (Ignored ''action_not_queued'' None, sv)
      else let owned = OwnedLabels (wj_labels (ev_job ev)) (hc_label_prefix c) in
        if owned = [] then (Ignored ''labels_not_owned'' None, sv)
        else let org = (if ev_org_login ev = '''' then hc_org c else ev_org_login ev) in
          if org = '''' then (Handle_error ''cannot determine org'', sv)
          else
            (case mint \<lparr> jr_org = org, jr_name = runner_name (wj_id (ev_job ev)),
                         jr_group = hc_runner_group c, jr_labels = owned,
                         jr_installation = ev_installation_id ev \<rparr> of
               Inl err \<Rightarrow>
                 (let a = (job_of_event c org ev)\<lparr> a_status := AssignmentFailed, a_error := err \<rparr>
                  in (Handle_error err, snd (do_op now (Op_put a) sv)))
             | Inr jit \<Rightarrow>
                 (let a = (job_of_event c org ev)\<lparr> a_runner_id := jp_runner_id jit,
                        a_jit := jp_encoded jit, a_status := AssignmentMinted \<rparr>
                  in (Handled (Some a), snd (do_op now (Op_put a) sv)))))"

definition reminted :: "jit_response \<Rightarrow> string \<Rightarrow> assignment \<Rightarrow> assignment" where
  "reminted jit reason a =
     a\<lparr> a_runner_name := runner_name (a_job_id a), a_runner_id := jp_runner_id jit,
       a_jit := jp_encoded jit, a_status := AssignmentMinted, a_agent_id := '''', a_vm_id := '''',
       a_warm_bind := False, a_outcome := '''', a_error := reason, a_assigned_at := 0,
       a_started_at := 0, a_finished_at := 0 \<rparr>"

definition Remint ::
  "HandlerConfig \<Rightarrow> minter \<Rightarrow> gotime \<Rightarrow> int \<Rightarrow> string \<Rightarrow> server \<Rightarrow> (string + assignment option) \<times> server" where
  "Remint c mint now j reason sv =
     (case Get j (sv_store sv) of
        None \<Rightarrow> (Inl ''unknown job'', sv)
      | Some a \<Rightarrow>
          if a_org a = '''' \<or> a_labels a = [] then (Inl ''missing org/labels'', sv)
          else
            (case mint \<lparr> jr_org = a_org a, jr_name = runner_name (a_job_id a),
                         jr_group = hc_runner_group c, jr_labels = a_labels a,
                         jr_installation = a_installation_id a \<rparr> of
               Inl err \<Rightarrow> (Inl err, sv)
             | Inr jit \<Rightarrow>
                 (let sv' = snd (do_op now (Op_put (reminted jit reason a)) sv)
                  in (Inr (Get j (sv_store sv')), sv'))))"

section \<open>Completion and stolen runners\<close>

definition stolen_reason :: "string \<Rightarrow> WorkflowJobEvent \<Rightarrow> string" where
  "stolen_reason name ev =
     ''runner '' @ name @ '' accepted job '' @ itoa (wj_id (ev_job ev)) @ '' ('' @ wj_name (ev_job ev) @ '')''"

definition recoverStolenRunner ::
  "HandlerConfig \<Rightarrow> minter \<Rightarrow> gotime \<Rightarrow> WorkflowJobEvent \<Rightarrow> server \<Rightarrow> handle_result \<times> server" where
  "recoverStolenRunner c mint now ev sv =
     (if wj_id (ev_job ev) = 0 then (Ignored ''no_job'' None, sv)
      else let name = trim_space (wj_runner_name (ev_job ev)) in
        if name = '''' then (Ignored ''no_runner'' None, sv)
        else case GetByRunnerName name (sv_store sv) of
          None \<Rightarrow> (Ignored ''unknown_runner'' None, sv)
        | Some minted \<Rightarrow>
            if a_job_id minted = wj_id (ev_job ev) then (Ignored ''runner_matches_job'' None, sv)
            else
              (let reason = stolen_reason name ev
               in case Remint c mint now (a_job_id minted) reason sv of
                    (Inl err, sv') \<Rightarrow> (Ignored ''remint_failed'' None, sv')
                  | (Inr got, sv') \<Rightarrow>
                      (Handled got,
                       recordJobEvent now (a_job_id minted) ''control'' ''warn''
                         (reason @ ''; reminted JIT'') sv')))"

definition githubJobOutcome :: "string \<Rightarrow> string \<Rightarrow> string" where
  "githubJobOutcome action conclusion =
     (let c = to_lower (trim_space conclusion) in
      if c \<noteq> '''' then c
      else if equal_fold (trim_space action) ''cancelled'' then ''cancelled''
      else ''failure'')"

definition finishFromGitHub ::
  "HandlerConfig \<Rightarrow> gotime \<Rightarrow> WorkflowJobEvent \<Rightarrow> server \<Rightarrow> handle_result \<times> server" where
  "finishFromGitHub c now ev sv =
     (if wj_id (ev_job ev) = 0 then (Ignored ''no_job'' None, sv)
      else case Get (wj_id (ev_job ev)) (sv_store sv) of
        None \<Rightarrow> (Ignored ''unknown_job'' None, sv)
      | Some a \<Rightarrow>
          (let outcome = githubJobOutcome (ev_action ev) (wj_conclusion (ev_job ev));
               msg0 = ''github workflow_job '' @ ev_action ev;
               msg = (if wj_conclusion (ev_job ev) \<noteq> '''' then msg0 @ '': '' @ wj_conclusion (ev_job ev)
                      else msg0)
           in
           if a_status a = AssignmentFinished \<or> a_status a = AssignmentFailed then
             (case do_op now (Op_github (a_job_id a) outcome msg) sv of
                (Some e, sv1) \<Rightarrow> (Ignored ''apply_outcome'' None, sv1)
              | (None, sv1) \<Rightarrow>
                  (let sv2 = recordJobEvent now (a_job_id a) ''control'' ''warn'' msg sv1
                   in (Ignored ''already_terminal'' (Get (a_job_id a) (sv_store sv2)), sv2)))
           else
             (let (failed, sv1) =
                (if a_status a = AssignmentMinted then
                   (if outcome = ''cancelled''
                    then (False, snd (do_op now (Op_cancel (a_job_id a) msg) sv))
                    else (False, snd (do_op now (Op_failed (a_job_id a) msg) sv)))
                 else
                   (case do_op now (Op_finished (a_job_id a) (a_agent_id a) outcome (a_vm_id a)
                            (a_warm_bind a) msg) sv of
                      (e, sv') \<Rightarrow> (e \<noteq> None, sv')))
              in if failed then (Ignored ''mark_finished'' None, sv1)
                 else
                   (let sv2 = (if a_agent_id a \<noteq> '''' \<and> a_vm_id a \<noteq> ''''
                               then sv1\<lparr> sv_cmds := enqueueKill (a_agent_id a) (a_vm_id a) (a_job_id a)
                                      (sv_cmds sv1) \<rparr>
                               else sv1);
                        sv3 = deleteJobRunner c a sv2;
                        sv4 = recordJobEvent now (a_job_id a) ''control'' ''warn'' msg sv3
                    in (Handled (Get (a_job_id a) (sv_store sv4)), sv4)))))"

section \<open>The webhook route\<close>

text \<open>What the route answers, and the goroutine it leaves behind.\<close>

datatype task = Task_recover WorkflowJobEvent | Task_mint WorkflowJobEvent

datatype reply = Reply nat string

record webhook_request =
  wr_read_error :: bool
  wr_body :: string
  wr_signature :: string
  wr_event :: string

definition reply_of :: "handle_result \<Rightarrow> reply" where
  "reply_of r =
     (case r of
        Ignored reason _ \<Rightarrow> Reply 200 (''ignored:'' @ reason)
      | Handled _ \<Rightarrow> Reply 200 ''accepted''
      | Handle_error _ \<Rightarrow> Reply 500 ''handler error'')"

definition handleGitHubWebhook ::
  "(string \<Rightarrow> bool) \<Rightarrow> (string \<Rightarrow> WorkflowJobEvent option) \<Rightarrow> HandlerConfig option \<Rightarrow> minter \<Rightarrow> gotime \<Rightarrow>
   webhook_request \<Rightarrow> server \<Rightarrow> reply \<times> task option \<times> server" where
  "handleGitHubWebhook signed parse handler mint now r sv =
     (if wr_read_error r then (Reply 400 ''read body'', None, sv)
      else if 1048576 < length (wr_body r) then (Reply 413 ''body too large'', None, sv)
      else if \<not> signed (wr_signature r) then (Reply 401 ''invalid signature'', None, sv)
      else if wr_event r \<noteq> '''' \<and> wr_event r \<noteq> ''workflow_job'' \<and> wr_event r \<noteq> ''ping''
      then (Reply 200 ''ignored:event_type'', None, sv)
      else if wr_event r = ''ping'' then (Reply 200 ''ok'', None, sv)
      else case handler of
        None \<Rightarrow> (Reply 500 ''handler not configured'', None, sv)
      | Some c \<Rightarrow>
          (case parse (wr_body r) of
             None \<Rightarrow> (Reply 500 ''handler error'', None, sv)
           | Some ev \<Rightarrow>
               if ev_action ev = ''completed'' \<or> ev_action ev = ''cancelled'' then
                 (case finishFromGitHub c now ev sv of (res, sv') \<Rightarrow> (reply_of res, None, sv'))
               else if ev_action ev = ''in_progress'' then
                 (Reply 200 ''accepted'', Some (Task_recover ev), sv)
               else if ev_action ev \<noteq> ''queued'' \<or> \<not> IsOwned (wj_labels (ev_job ev)) (hc_label_prefix c) then
                 (case HandleWorkflowJob c mint now ev sv of (res, sv') \<Rightarrow> (reply_of res, None, sv'))
               else (Reply 200 ''accepted'', Some (Task_mint ev), sv)))"

definition run_task :: "HandlerConfig \<Rightarrow> minter \<Rightarrow> gotime \<Rightarrow> task \<Rightarrow> server \<Rightarrow> server" where
  "run_task c mint now t sv =
     (case t of
        Task_recover ev \<Rightarrow> snd (recoverStolenRunner c mint now ev sv)
      | Task_mint ev \<Rightarrow>
          (case HandleWorkflowJob c mint now ev sv of
             (Handle_error err, sv') \<Rightarrow>
               recordJobEvent now (wj_id (ev_job ev)) ''control'' ''error'' (''mint JIT failed: '' @ err) sv'
           | (Handled (Some a), sv') \<Rightarrow>
               recordJobEvent now (a_job_id a) ''control'' ''info''
                 (''minted JIT config repo='' @ a_repo a @ '' runner='' @ a_runner_name a) sv'
           | (_, sv') \<Rightarrow> sv'))"

end
