(* ===== verification/ControlServer.thy ===== *)
theory ControlServer
  imports Webhooks
begin

text \<open>
  The other routes of the control plane that change its state: the agent API of
  \<open>internal/control/server.go\<close>, cancelling and killing from \<open>dashboard.go\<close>, the reconciler of
  \<open>reconcile.go\<close>; then all of them as one step relation, with the invariants of the assignment store
  lifted to every reachable server state. Requests arrive decoded; publishing to the dashboard is
  left out.
\<close>

section \<open>Agent API\<close>

text \<open>\<open>withAgentAuth\<close>: the status answered instead of the handler, or \<open>None\<close> when it runs.\<close>

definition tokenEqual :: "string \<Rightarrow> string \<Rightarrow> bool" where
  "tokenEqual a b = (if length a \<noteq> length b then False else a = b)"

definition withAgentAuth :: "string \<Rightarrow> string \<Rightarrow> nat option" where
  "withAgentAuth agent_token auth =
     (if agent_token = '''' then Some 503
      else if auth = '''' then Some 401
      else let tok = (if has_prefix auth ''Bearer '' then trim_prefix auth ''Bearer '' else auth) in
        if \<not> tokenEqual tok agent_token then Some 401 else None)"

definition handleAgentRegister ::
  "gotime \<Rightarrow> RegisterRequest \<Rightarrow> server \<Rightarrow> RegisterResponse option \<times> server" where
  "handleAgentRegister now r sv =
     (if trim_space (rq_agent_id r) = '''' then (None, sv)
      else let (info, reg) = Register now r (sv_agents sv);
               sv1 = sv\<lparr> sv_agents := reg \<rparr>;
               (ops, cq) = take_cmds (ai_agent_id info) (sv_cacheq sv1);
               sv2 = sv1\<lparr> sv_cacheq := cq \<rparr>;
               (cmds, kq) = take_cmds (ai_agent_id info) (sv_cmds sv2);
               sv3 = sv2\<lparr> sv_cmds := kq \<rparr>
           in (Some \<lparr> rr_ok = True, rr_agent_id = ai_agent_id info, rr_cache_ops = ops,
                     rr_commands = cmds \<rparr>, sv3))"

text \<open>
  The long poll of a claim: every element of the list is a time at which the loop claims and the
  operations other goroutines perform on the store before the next; the list ends with the deadline
  or the request.
\<close>

fun claim_loop ::
  "string \<Rightarrow> string list \<Rightarrow> (gotime \<times> (gotime \<times> store_op) list) list \<Rightarrow> server \<Rightarrow>
   assignment option \<times> server" where
  "claim_loop agent cached [] sv = (None, sv)"
| "claim_loop agent cached ((now, others) # polls) sv =
     (case ClaimNext now agent cached (sv_store sv) of
        (Some a, s') \<Rightarrow> (Some a, sv\<lparr> sv_store := s', sv_writes := sv_writes sv @ [a] \<rparr>)
      | (None, s') \<Rightarrow>
          claim_loop agent cached polls
            (fold (\<lambda>(t, op) v. snd (do_op t op v)) others (sv\<lparr> sv_store := s' \<rparr>)))"

definition handleJobClaim ::
  "gotime \<Rightarrow> ClaimRequest \<Rightarrow> (gotime \<times> (gotime \<times> store_op) list) list \<Rightarrow> server \<Rightarrow>
   (nat + assignment option) \<times> server" where
  "handleJobClaim now r polls sv =
     (let ag = cq_agent_id r in
      if trim_space ag = '''' then (Inl 400, sv)
      else if cq_free_slots r \<le> 0 then
        (Inr None, sv\<lparr> sv_agents := Touch now ag (UpdateCapacity now ag 0 (cq_warm r) (cq_busy r)
           (sv_agents sv)) \<rparr>)
      else
        (let sv1 = sv\<lparr> sv_agents := Touch now ag (UpdateCapacity now ag (cq_free_slots r) (cq_warm r)
               (cq_busy r) (sv_agents sv)) \<rparr>
         in case claim_loop ag (cq_cached_repos r) polls sv1 of
              (None, sv2) \<Rightarrow> (Inr None, sv2)
            | (Some a, sv2) \<Rightarrow>
                (let sv3 = sv2\<lparr> sv_agents := UpdateCapacity now ag (cq_free_slots r - 1) (cq_warm r)
                       (cq_busy r + 1) (sv_agents sv2) \<rparr>
                 in (Inr (Some a),
                     recordJobEvent now (a_job_id a) ''control'' ''info'' (''claimed by agent '' @ ag) sv3))))"

definition handleJobStarted :: "gotime \<Rightarrow> JobStartedRequest \<Rightarrow> server \<Rightarrow> nat \<times> server" where
  "handleJobStarted now r sv =
     (if sq_agent_id r = '''' \<or> sq_job_id r = 0 then (400, sv)
      else case do_op now (Op_started (sq_job_id r) (sq_agent_id r) (sq_vm_id r) (sq_warm_bind r)) sv of
        (Some e, sv1) \<Rightarrow> (409, sv1)
      | (None, sv1) \<Rightarrow>
          (let sv2 = sv1\<lparr> sv_agents := Touch now (sq_agent_id r) (sv_agents sv1) \<rparr>;
               msg = ''started on '' @ sq_vm_id r @ (if sq_warm_bind r then '' (warm bind)'' else '''')
           in (200, recordJobEvent now (sq_job_id r) ''agent'' ''info'' msg sv2)))"

definition mergeJobLogs ::
  "gotime \<Rightarrow> int \<Rightarrow> string \<Rightarrow> string \<Rightarrow> string \<Rightarrow> string \<Rightarrow> server \<Rightarrow> server" where
  "mergeJobLogs now j runner agent console workflow sv =
     (if j = 0 \<or> (runner = '''' \<and> agent = '''' \<and> console = '''' \<and> workflow = '''') then sv
      else case live_db (sv_logs sv) of
        None \<Rightarrow> sv
      | Some db \<Rightarrow>
          (case MergeJobLogs True now j runner agent console workflow db of
             Inl e \<Rightarrow> sv
           | Inr db' \<Rightarrow> sv\<lparr> sv_logs := (sv_logs sv)\<lparr> live_db := Some db' \<rparr> \<rparr>))"

definition remember_live :: "gotime \<Rightarrow> int \<Rightarrow> string \<Rightarrow> server \<Rightarrow> server" where
  "remember_live now j text' sv =
     sv\<lparr> sv_logs := rememberWorkflow True now j text' True (sv_logs sv) \<rparr>"

text \<open>The runner ran a job of another name: the test in \<open>handleJobFinished\<close>.\<close>

definition ran_other_job :: "JobFinishedRequest \<Rightarrow> server \<Rightarrow> bool" where
  "ran_other_job r sv \<longleftrightarrow>
     (case Get (fq_job_id r) (sv_store sv) of
        None \<Rightarrow> False
      | Some a \<Rightarrow>
          a_name a \<noteq> '''' \<and> a_status a \<noteq> AssignmentFinished \<and> a_status a \<noteq> AssignmentFailed \<and>
          RefineOutcomeForJob ''success'' (fq_runner_log r) (a_name a) = ''error'')"

definition other_job_reason :: "JobFinishedRequest \<Rightarrow> string" where
  "other_job_reason r =
     (let started = RunningJobName (fq_runner_log r) in
      ''runner accepted different GitHub job'' @ (if started \<noteq> '''' then '': '' @ started else ''''))"

definition merge_finished :: "gotime \<Rightarrow> JobFinishedRequest \<Rightarrow> server \<Rightarrow> server" where
  "merge_finished now r sv =
     mergeJobLogs now (fq_job_id r) (fq_runner_log r) (fq_agent_log r) (fq_console_log r)
       (fq_workflow_log r) sv"

definition finish_report ::
  "gotime \<Rightarrow> JobFinishedRequest \<Rightarrow> string \<Rightarrow> string \<Rightarrow> server \<Rightarrow> nat \<times> server" where
  "finish_report now r outcome err sv =
     (case do_op now (Op_finished (fq_job_id r) (fq_agent_id r) outcome (fq_vm_id r) (fq_warm_bind r) err)
             sv of
        (Some e, sv1) \<Rightarrow> (409, sv1)
      | (None, sv1) \<Rightarrow>
          (let sv2 = (if fq_cache_hits r \<noteq> 0 \<or> fq_cache_misses r \<noteq> 0 \<or> fq_cache_bytes_in r \<noteq> 0 \<or>
                         fq_cache_bytes_out r \<noteq> 0
                      then snd (do_op now (Op_cache_stats (fq_job_id r) (fq_cache_hits r)
                             (fq_cache_misses r) (fq_cache_bytes_in r) (fq_cache_bytes_out r)) sv1)
                      else sv1);
               sv3 = merge_finished now r sv2;
               live = liveWorkflow (fq_job_id r) (sv_logs sv3);
               sv4 = (if fq_workflow_log r \<noteq> '''' then remember_live now (fq_job_id r) (fq_workflow_log r) sv3
                      else if live \<noteq> '''' then remember_live now (fq_job_id r) live sv3
                      else sv3);
               sv5 = sv4\<lparr> sv_agents := Touch now (fq_agent_id r) (sv_agents sv4) \<rparr>;
               msg = ''finished outcome='' @ outcome @ (if err \<noteq> '''' then '' err='' @ err else '''');
               level = (if outcome \<noteq> ''success'' then ''warn'' else ''info'')
           in (200, recordJobEvent now (fq_job_id r) ''agent'' level msg sv5)))"

definition handleJobFinished ::
  "HandlerConfig option \<Rightarrow> minter \<Rightarrow> gotime \<Rightarrow> JobFinishedRequest \<Rightarrow> server \<Rightarrow> nat \<times> server" where
  "handleJobFinished handler mint now r sv =
     (if fq_agent_id r = '''' \<or> fq_job_id r = 0 then (400, sv)
      else let outcome = (if fq_outcome r = '''' then ''unknown'' else fq_outcome r) in
        if \<not> ran_other_job r sv then finish_report now r outcome (fq_error r) sv
        else
          (let reason = other_job_reason r;
               err = (if fq_error r = '''' then reason else fq_error r)
           in case handler of
                None \<Rightarrow> finish_report now r ''error'' err sv
              | Some c \<Rightarrow>
                  (case Remint c mint now (fq_job_id r) reason sv of
                     (Inl rerr, sv1) \<Rightarrow> finish_report now r ''error'' err sv1
                   | (Inr got, sv1) \<Rightarrow>
                       (let sv2 = merge_finished now r sv1;
                            sv3 = sv2\<lparr> sv_agents := Touch now (fq_agent_id r) (sv_agents sv2) \<rparr>
                        in (200, recordJobEvent now (fq_job_id r) ''control'' ''warn''
                                   (reason @ ''; reminted JIT'') sv3)))))"

definition handleJobLogs :: "gotime \<Rightarrow> JobLogsRequest \<Rightarrow> server \<Rightarrow> nat \<times> server" where
  "handleJobLogs now r sv =
     (if lq_agent_id r = '''' \<or> lq_job_id r = 0 then (400, sv)
      else
        (let sv1 = mergeJobLogs now (lq_job_id r) (lq_runner_log r) (lq_agent_log r) (lq_console_log r)
               (lq_workflow_log r) sv;
             sv2 = (if lq_workflow_log r \<noteq> ''''
                    then remember_live now (lq_job_id r) (lq_workflow_log r) sv1 else sv1);
             sv3 = (if lq_workflow_append r \<noteq> ''''
                    then sv2\<lparr> sv_logs := applyLiveAppend True now (lq_job_id r) (lq_workflow_offset r)
                           (lq_workflow_append r) (sv_logs sv2) \<rparr>
                    else sv2)
         in (200, sv3\<lparr> sv_agents := Touch now (lq_agent_id r) (sv_agents sv3) \<rparr>)))"

section \<open>Dashboard\<close>

definition handleJobCancel :: "HandlerConfig \<Rightarrow> gotime \<Rightarrow> int option \<Rightarrow> server \<Rightarrow> nat \<times> server" where
  "handleJobCancel c now pid sv =
     (case pid of
        None \<Rightarrow> (400, sv)
      | Some j \<Rightarrow>
          if j = 0 then (400, sv)
          else case Get j (sv_store sv) of
            None \<Rightarrow> (404, sv)
          | Some a \<Rightarrow>
              (case do_op now (Op_cancel j ''cancelled from dashboard'') sv of
                 (Some e, sv1) \<Rightarrow> (409, sv1)
               | (None, sv1) \<Rightarrow>
                   (let sv2 = (if a_agent_id a \<noteq> '''' \<and> a_vm_id a \<noteq> ''''
                               then sv1\<lparr> sv_cmds := enqueueKill (a_agent_id a) (a_vm_id a) j (sv_cmds sv1) \<rparr>
                               else sv1);
                        sv3 = deleteJobRunner c a sv2
                    in (200, recordJobEvent now j ''control'' ''warn'' ''cancelled from dashboard'' sv3))))"

fun find_agent_vm :: "string \<Rightarrow> AgentInfo list \<Rightarrow> (string \<times> int) option" where
  "find_agent_vm vm [] = None"
| "find_agent_vm vm (a # as) =
     (case find (\<lambda>v. u_id v = vm) (ai_vms a) of
        Some v \<Rightarrow> Some (ai_agent_id a, case atoi (trim_space (u_job_id v)) of None \<Rightarrow> 0 | Some n \<Rightarrow> n)
      | None \<Rightarrow> find_agent_vm vm as)"

definition findVM :: "string \<Rightarrow> server \<Rightarrow> string \<times> int" where
  "findVM vm sv =
     (case find_agent_vm vm (ListAgents (sv_agents sv)) of
        Some r \<Rightarrow> r
      | None \<Rightarrow>
          (case find (\<lambda>a. a_vm_id a = vm \<and> (a_status a = AssignmentStarted \<or> a_status a = AssignmentAssigned))
                  (ListRecent 200 (sv_store sv)) of
             Some a \<Rightarrow> (a_agent_id a, a_job_id a)
           | None \<Rightarrow> ('''', 0)))"

definition handleVMKill :: "HandlerConfig \<Rightarrow> gotime \<Rightarrow> string \<Rightarrow> server \<Rightarrow> nat \<times> server" where
  "handleVMKill c now path_id sv =
     (let vm = trim_space path_id in
      if vm = '''' then (400, sv)
      else let (agent, j) = findVM vm sv in
        if agent = '''' then (404, sv)
        else
          (let sv1 =
             (if j \<noteq> 0 then
                (case do_op now (Op_cancel j ''vm killed from dashboard'') sv of
                   (Some e, sv') \<Rightarrow> sv'
                 | (None, sv') \<Rightarrow>
                     (let sv'' = recordJobEvent now j ''control'' ''warn'' ''vm killed from dashboard'' sv'
                      in case Get j (sv_store sv'') of
                           None \<Rightarrow> sv'' | Some a \<Rightarrow> deleteJobRunner c a sv''))
              else sv)
           in (200, sv1\<lparr> sv_cmds := enqueueKill agent vm j (sv_cmds sv1) \<rparr>)))"

section \<open>Reconciler\<close>

record reconciler =
  rc_stuck_after :: duration
  rc_stale_minted_after :: duration
  rc_delete :: bool
  rc_kill :: bool

definition assignmentFinishedRetention :: duration where
  "assignmentFinishedRetention = 7 * 24 * 3600 * 1000000000"

definition drop_runner :: "bool \<Rightarrow> assignment \<Rightarrow> server \<Rightarrow> server" where
  "drop_runner configured a sv =
     (if configured \<and> a_runner_id a \<noteq> 0 \<and> a_org a \<noteq> ''''
      then sv\<lparr> sv_deleted := sv_deleted sv @ [(a_org a, a_runner_id a, a_installation_id a)] \<rparr> else sv)"

definition reconcile_stuck :: "reconciler \<Rightarrow> gotime \<Rightarrow> assignment \<Rightarrow> server \<Rightarrow> server" where
  "reconcile_stuck rc now a sv =
     (let sv1 = snd (do_op now (Op_finished (a_job_id a) (a_agent_id a) ''stuck'' (a_vm_id a)
                (a_warm_bind a) ''assignment stuck past deadline'') sv);
          sv2 = (if rc_kill rc \<and> a_agent_id a \<noteq> '''' \<and> a_vm_id a \<noteq> ''''
                 then sv1\<lparr> sv_cmds := enqueueKill (a_agent_id a) (a_vm_id a) (a_job_id a) (sv_cmds sv1) \<rparr>
                 else sv1)
      in drop_runner (rc_delete rc) a sv2)"

definition reconcile_stale :: "reconciler \<Rightarrow> gotime \<Rightarrow> assignment \<Rightarrow> server \<Rightarrow> server" where
  "reconcile_stale rc now a sv =
     drop_runner (rc_delete rc) a
       (snd (do_op now (Op_failed (a_job_id a) ''minted job expired without claim'') sv))"

text \<open>One pass with a context that is not cancelled: the number of jobs it closed, and the state.\<close>

definition ReconcileOnce :: "reconciler \<Rightarrow> gotime \<Rightarrow> server \<Rightarrow> int \<times> server" where
  "ReconcileOnce rc now sv =
     (let stuck_jobs = (if 0 < rc_stuck_after rc then ListStuck now (rc_stuck_after rc) (sv_store sv) else []);
          sv1 = fold (reconcile_stuck rc now) stuck_jobs sv;
          stale_jobs = (if 0 < rc_stale_minted_after rc
                        then ListStaleMinted now (rc_stale_minted_after rc) (sv_store sv1) else []);
          sv2 = fold (reconcile_stale rc now) stale_jobs sv1;
          sv3 = snd (do_op now (Op_prune assignmentFinishedRetention) sv2)
      in (int (length stuck_jobs) + int (length stale_jobs), sv3))"

section \<open>Everything acts through the store's operations\<close>

definition good_op :: "store_op \<Rightarrow> bool" where
  "good_op op \<longleftrightarrow>
     (case op of
        Op_put a \<Rightarrow> a_runner_name a = runner_name (a_job_id a) \<and> no_secret a
      | _ \<Rightarrow> True)"

inductive acts :: "assignment_store \<Rightarrow> assignment_store \<Rightarrow> bool" where
  acts_refl [intro]: "acts s s"
| acts_op: "acts s s' \<Longrightarrow> good_op op \<Longrightarrow> acts s (op_store now op s')"

lemma acts_one: "good_op op \<Longrightarrow> acts s (op_store now op s)"
  by (rule acts_op [OF acts_refl])

lemma acts_trans: "acts s t \<Longrightarrow> acts r s \<Longrightarrow> acts r t"
  by (induction rule: acts.induct) (auto intro: acts_op)

lemma do_op_store [simp]: "sv_store (snd (do_op now op sv)) = op_store now op (sv_store sv)"
  by (simp add: do_op_def op_store_def split: prod.splits)

lemma do_op_storeD: "do_op now op sv = (e, sv') \<Longrightarrow> sv_store sv' = op_store now op (sv_store sv)"
  by (metis do_op_store snd_conv)

lemma store_frame [simp]:
  "sv_store (recordJobEvent now j src lvl msg sv) = sv_store sv"
  "sv_store (deleteJobRunner c a sv) = sv_store sv"
  "sv_store (mergeJobLogs now j r ag co w sv) = sv_store sv"
  "sv_store (merge_finished now fr sv) = sv_store sv"
  "sv_store (remember_live now j t sv) = sv_store sv"
  "sv_store (drop_runner b a sv) = sv_store sv"
  by (simp_all add: recordJobEvent_def deleteJobRunner_def mergeJobLogs_def merge_finished_def
      remember_live_def drop_runner_def split: option.splits sum.splits)

definition sv_acts :: "server \<Rightarrow> server \<Rightarrow> bool" where
  "sv_acts sv sv' \<longleftrightarrow> acts (sv_store sv) (sv_store sv')"

lemma sv_acts_refl [intro, simp]: "sv_acts sv sv"
  by (auto simp: sv_acts_def)

lemma sv_acts_trans: "sv_acts sv sv1 \<Longrightarrow> sv_acts sv1 sv2 \<Longrightarrow> sv_acts sv sv2"
  unfolding sv_acts_def by (rule acts_trans)

lemma sv_acts_do: "good_op op \<Longrightarrow> sv_acts sv (snd (do_op now op sv))"
  by (simp add: sv_acts_def acts_one)

lemma sv_acts_doD: "do_op now op sv = (e, sv') \<Longrightarrow> good_op op \<Longrightarrow> sv_acts sv sv'"
  by (metis sv_acts_do snd_conv)

lemma sv_acts_frame [simp]:
  "sv_acts sv (recordJobEvent now j src lvl msg sv') = sv_acts sv sv'"
  "sv_acts sv (deleteJobRunner c a sv') = sv_acts sv sv'"
  "sv_acts sv (mergeJobLogs now j r ag co w sv') = sv_acts sv sv'"
  "sv_acts sv (merge_finished now fr sv') = sv_acts sv sv'"
  "sv_acts sv (remember_live now j t sv') = sv_acts sv sv'"
  "sv_acts sv (drop_runner b a sv') = sv_acts sv sv'"
  "sv_acts sv (sv'\<lparr> sv_agents := reg \<rparr>) = sv_acts sv sv'"
  "sv_acts sv (sv'\<lparr> sv_cmds := q \<rparr>) = sv_acts sv sv'"
  "sv_acts sv (sv'\<lparr> sv_cacheq := cq \<rparr>) = sv_acts sv sv'"
  "sv_acts sv (sv'\<lparr> sv_logs := lg \<rparr>) = sv_acts sv sv'"
  by (simp_all add: sv_acts_def)

lemma good_op_simps [simp]:
  "good_op (Op_claim ag ca)" "good_op (Op_started j ag vm w)" "good_op (Op_finished j ag oc vm w m)"
  "good_op (Op_github j oc m)" "good_op (Op_cancel j m)" "good_op (Op_failed j m)"
  "good_op (Op_prune d)" "good_op (Op_cache_stats j h mi i out)"
  by (simp_all add: good_op_def)

lemma Handle_acts: "HandleWorkflowJob c mint now ev sv = (res, sv') \<Longrightarrow> sv_acts sv sv'"
  by (auto simp: HandleWorkflowJob_def Let_def job_of_event_def zero_assignment_def good_op_def
      no_secret_def terminal_def intro!: sv_acts_do split: if_splits sum.splits)

lemma Remint_acts: "Remint c mint now j reason sv = (res, sv') \<Longrightarrow> sv_acts sv sv'"
  by (auto simp: Remint_def Let_def reminted_def good_op_def no_secret_def terminal_def
      intro!: sv_acts_do split: if_splits sum.splits option.splits)

lemma recover_acts: "recoverStolenRunner c mint now ev sv = (res, sv') \<Longrightarrow> sv_acts sv sv'"
  by (auto simp: recoverStolenRunner_def Let_def dest!: Remint_acts
      split: if_splits sum.splits option.splits prod.splits)

lemma finishFromGitHub_acts: "finishFromGitHub c now ev sv = (res, sv') \<Longrightarrow> sv_acts sv sv'"
  by (auto simp: finishFromGitHub_def Let_def dest!: sv_acts_doD intro!: sv_acts_do
      split: if_splits option.splits prod.splits)

lemma webhook_acts:
  "handleGitHubWebhook signed parse h mint now r sv = (rep, t, sv') \<Longrightarrow> sv_acts sv sv'"
  by (auto simp: handleGitHubWebhook_def dest!: finishFromGitHub_acts Handle_acts
      split: if_splits option.splits prod.splits)

lemma task_acts: "sv_acts sv (run_task c mint now t sv)"
  by (cases t) (auto simp: run_task_def dest!: Handle_acts
      split: prod.splits handle_result.splits option.splits, metis recover_acts surjective_pairing)

lemma fold_acts: "(\<And>x sv. sv_acts sv (f x sv)) \<Longrightarrow> sv_acts sv (fold f xs sv)"
  by (induction xs arbitrary: sv) (auto intro: sv_acts_trans)

definition good_polls :: "(gotime \<times> (gotime \<times> store_op) list) list \<Rightarrow> bool" where
  "good_polls polls \<longleftrightarrow> list_all (\<lambda>(now, others). list_all (\<lambda>(t, op). good_op op) others) polls"

lemma fold_do_acts:
  "list_all (\<lambda>(t, op). good_op op) others \<Longrightarrow>
   sv_acts sv (fold (\<lambda>(t, op) v. snd (do_op t op v)) others sv)"
  by (induction others arbitrary: sv) (auto intro: sv_acts_trans [OF sv_acts_do])

lemma ClaimNext_acts:
  "ClaimNext now ag ca (sv_store sv) = (r, s') \<Longrightarrow> sv_store sv' = s' \<Longrightarrow> sv_acts sv sv'"
  using acts_one [of "Op_claim ag ca" "sv_store sv" now]
  by (simp add: sv_acts_def op_store_def)

lemma claim_loop_acts:
  "good_polls polls \<Longrightarrow> sv_acts sv (snd (claim_loop ag ca polls sv))"
proof (induction ag ca polls sv rule: claim_loop.induct)
  case (2 ag ca now others polls sv)
  obtain r s' where r: "ClaimNext now ag ca (sv_store sv) = (r, s')"
    by (cases "ClaimNext now ag ca (sv_store sv)")
  show ?case
  proof (cases r)
    case (Some a)
    have "sv_acts sv (sv\<lparr> sv_store := s', sv_writes := sv_writes sv @ [a] \<rparr>)"
      by (rule ClaimNext_acts [OF r]) simp
    with r Some show ?thesis by simp
  next
    case None
    let ?sv1 = "sv\<lparr> sv_store := s' \<rparr>"
    let ?sv2 = "fold (\<lambda>(t, op) v. snd (do_op t op v)) others ?sv1"
    have g: "list_all (\<lambda>(t, op). good_op op) others" "good_polls polls"
      using "2.prems" by (auto simp: good_polls_def)
    have "sv_acts sv ?sv1" by (rule ClaimNext_acts [OF r]) simp
    moreover have "sv_acts ?sv1 ?sv2" by (rule fold_do_acts [OF g(1)])
    moreover have "sv_acts ?sv2 (snd (claim_loop ag ca polls ?sv2))"
      using r None g(2) by (intro "2.IH") auto
    ultimately show ?thesis using r None by (auto intro: sv_acts_trans)
  qed
qed simp

lemma claim_acts: "good_polls polls \<Longrightarrow> sv_acts sv (snd (handleJobClaim now r polls sv))"
  using claim_loop_acts [of polls "sv\<lparr> sv_agents := Touch now (cq_agent_id r) (UpdateCapacity now
      (cq_agent_id r) (cq_free_slots r) (cq_warm r) (cq_busy r) (sv_agents sv)) \<rparr>"
      "cq_agent_id r" "cq_cached_repos r"]
  by (auto simp: handleJobClaim_def Let_def sv_acts_def split: prod.splits option.splits)

lemma started_acts: "sv_acts sv (snd (handleJobStarted now r sv))"
  by (auto simp: handleJobStarted_def Let_def dest!: sv_acts_doD split: prod.splits option.splits)

lemma finish_report_acts: "sv_acts sv (snd (finish_report now r oc err sv))"
proof -
  obtain e sv1 where d: "do_op now (Op_finished (fq_job_id r) (fq_agent_id r) oc (fq_vm_id r)
      (fq_warm_bind r) err) sv = (e, sv1)" by (metis surj_pair)
  then have a: "sv_acts sv sv1" by (rule sv_acts_doD) simp
  have stats: "sv_acts sv (snd (do_op now (Op_cache_stats j h mi i out) sv1))" for j h mi i out
    by (rule sv_acts_trans [OF a sv_acts_do]) simp
  show ?thesis
    using a stats by (cases e) (simp_all add: finish_report_def d Let_def)
qed

lemma finished_acts: "sv_acts sv (snd (handleJobFinished h mint now r sv))"
  by (auto simp: handleJobFinished_def Let_def dest!: Remint_acts
      intro: finish_report_acts sv_acts_trans [OF _ finish_report_acts]
      split: prod.splits option.splits sum.splits)

lemma logs_acts: "sv_acts sv (snd (handleJobLogs now r sv))"
  by (simp add: handleJobLogs_def Let_def)

lemma register_acts: "sv_acts sv (snd (handleAgentRegister now r sv))"
  by (simp add: handleAgentRegister_def Let_def split: prod.splits)

lemma cancel_acts: "sv_acts sv (snd (handleJobCancel c now pid sv))"
  by (auto simp: handleJobCancel_def Let_def dest!: sv_acts_doD split: prod.splits option.splits)

lemma kill_acts: "sv_acts sv (snd (handleVMKill c now p sv))"
  by (auto simp: handleVMKill_def Let_def dest!: sv_acts_doD split: prod.splits option.splits)

lemma reconcile_acts: "sv_acts sv (snd (ReconcileOnce rc now sv))"
proof -
  have a: "sv_acts v (reconcile_stuck rc now x v)" "sv_acts v (reconcile_stale rc now x v)" for v x
    using sv_acts_do [of "Op_finished (a_job_id x) (a_agent_id x) ''stuck'' (a_vm_id x) (a_warm_bind x)
        ''assignment stuck past deadline''" v now]
      sv_acts_do [of "Op_failed (a_job_id x) ''minted job expired without claim''" v now]
    by (simp_all add: reconcile_stuck_def reconcile_stale_def Let_def)
  show ?thesis
    unfolding ReconcileOnce_def Let_def snd_conv
    by (intro sv_acts_trans [OF _ sv_acts_do] sv_acts_trans [OF fold_acts fold_acts] a good_op_simps)
qed

section \<open>Runner names\<close>

lemma digit_not_space_end: "is_digit c \<Longrightarrow> c \<notin> last ` set space_runes"
  by (auto simp: space_runes_def is_digit_def digit_of_def)

lemma last_itoa_digit: "is_digit (last (itoa k))"
proof -
  have "is_digit (last (nat_digits n))" for n
    by (rule nat_digits_digits [of _ n]) simp
  then show ?thesis by (simp add: itoa_def)
qed

lemma runner_name_trim: "trim_space (runner_name k) = runner_name k"
proof (rule trim_space_graphic)
  show "runner_name k \<noteq> []" by (simp add: runner_name_def)
  show "hd (runner_name k) \<notin> hd ` set space_runes"
    by (simp add: runner_name_def space_runes_def)
  show "last (runner_name k) \<notin> last ` set space_runes"
    using digit_not_space_end [OF last_itoa_digit [of k]] by (simp add: runner_name_def)
qed

lemma runner_name_inject: "runner_name j = runner_name k \<longleftrightarrow> j = k"
  by (simp add: runner_name_def itoa_inject)

definition own_name :: "assignment \<Rightarrow> bool" where
  "own_name a \<longleftrightarrow> a_runner_name a = runner_name (a_job_id a)"

interpretation names: job_invariant own_name "\<lambda>_. True"
  by unfold_locales
    (simp_all add: own_name_def assign_to_def start_record_def finish_record_def close_record_def Let_def)

text \<open>The store of every reachable server state.\<close>

definition control_inv :: "assignment_store \<Rightarrow> bool" where
  "control_inv s \<longleftrightarrow> store_inv s \<and> secret_inv s \<and> list_all (\<lambda>(k, a). own_name a) (by_id s)"

lemma control_inv_op:
  assumes "control_inv s" and "good_op op"
  shows "control_inv (op_store now op s)"
proof -
  have "store_inv (op_store now op s)" using assms by (auto simp: control_inv_def intro: op_store_inv)
  moreover have "secrets.all_jobs (op_store now op s)"
    by (rule secrets.all_jobs_step)
      (use assms in \<open>auto simp: control_inv_def secret_inv_all_jobs good_op_def\<close>)
  moreover have "names.all_jobs (op_store now op s)"
    by (rule names.all_jobs_step)
      (use assms in \<open>auto simp: control_inv_def names.all_jobs_def good_op_def own_name_def\<close>)
  ultimately show ?thesis
    by (simp add: control_inv_def secret_inv_all_jobs names.all_jobs_def)
qed

lemma control_inv_acts: "acts s s' \<Longrightarrow> control_inv s \<Longrightarrow> control_inv s'"
  by (induction rule: acts.induct) (auto intro: control_inv_op)

lemma acts_store_inv: "acts s s' \<Longrightarrow> store_inv s \<Longrightarrow> store_inv s'"
  by (induction rule: acts.induct) (auto intro: op_store_inv)

lemma control_inv_start: "control_inv NewAssignmentStore"
  by (simp add: control_inv_def NewAssignmentStore_inv secret_inv_def)
    (simp add: NewAssignmentStore_def)

lemma GetByRunnerName_own:
  assumes "control_inv s"
  shows "GetByRunnerName (runner_name k) s = lookup_job s k"
proof -
  have inv: "store_inv s" and own: "list_all (\<lambda>(k, a). own_name a) (by_id s)"
    using assms by (auto simp: control_inv_def)
  have ne: "runner_name k \<noteq> []" by (simp add: runner_name_def)
  have key: "a_job_id a = i \<and> own_name a" if "(i, a) \<in> set (by_id s)" for i a
    using that inv own by (auto simp: store_inv_def list_all_iff)
  show ?thesis
  proof (cases "lookup_job s k")
    case None
    then have "k \<notin> fst ` set (by_id s)" by (simp add: lookup_job_def map_of_eq_None_iff)
    then have "\<not> (\<exists>a \<in> set (map snd (by_id s)). a_runner_name a = runner_name k)"
      using key by (force simp: own_name_def runner_name_inject)
    then have "find (\<lambda>a. a_runner_name a = runner_name k) (map snd (by_id s)) = None"
      by (auto simp: find_None_iff)
    with None ne show ?thesis by (simp add: GetByRunnerName_def runner_name_trim Let_def)
  next
    case (Some a)
    then have ka: "(k, a) \<in> set (by_id s)" by (simp add: lookup_job_def map_of_SomeD)
    then have "a \<in> set (map snd (by_id s))" "a_runner_name a = runner_name k"
      using key by (force simp: own_name_def)+
    then obtain b where b: "find (\<lambda>a. a_runner_name a = runner_name k) (map snd (by_id s)) = Some b"
      by (cases "find (\<lambda>a. a_runner_name a = runner_name k) (map snd (by_id s))")
        (auto simp: find_None_iff)
    then have "b \<in> set (map snd (by_id s))" "a_runner_name b = runner_name k"
      by (auto dest: find_SomeD)
    then obtain i where ib: "(i, b) \<in> set (by_id s)" by auto
    then have "i = k" using key [OF ib] \<open>a_runner_name b = runner_name k\<close>
      by (simp add: own_name_def runner_name_inject)
    then have "b = a" using ib ka store_invD(2) [OF inv] by (metis eq_key_imp_eq_value)
    with b Some ne show ?thesis by (simp add: GetByRunnerName_def runner_name_trim Let_def)
  qed
qed

section \<open>Reachable states\<close>

text \<open>
  A step is one request, one background task, one claim with what others do to the store while it
  waits, or one pass of the reconciler. The fixed arguments are the environment: signature check,
  JSON decoding, configuration and GitHub.
\<close>

record environment =
  e_signed :: "string \<Rightarrow> bool"
  e_parse :: "string \<Rightarrow> WorkflowJobEvent option"
  e_config :: HandlerConfig
  e_mint :: minter
  e_rc :: reconciler

inductive control_step :: "environment \<Rightarrow> server \<times> task list \<Rightarrow> server \<times> task list \<Rightarrow> bool" for E where
  webhook: "handleGitHubWebhook (e_signed E) (e_parse E) (Some (e_config E)) (e_mint E) now r sv = (rep, t, sv') \<Longrightarrow>
    control_step E (sv, ts) (sv', ts @ (case t of None \<Rightarrow> [] | Some x \<Rightarrow> [x]))"
| background: "i < length ts \<Longrightarrow>
    control_step E (sv, ts) (run_task (e_config E) (e_mint E) now (ts ! i) sv, remove_nth i ts)"
| register: "control_step E (sv, ts) (snd (handleAgentRegister now rq sv), ts)"
| claim: "good_polls polls \<Longrightarrow> control_step E (sv, ts) (snd (handleJobClaim now cq polls sv), ts)"
| started: "control_step E (sv, ts) (snd (handleJobStarted now sq sv), ts)"
| finished: "control_step E (sv, ts) (snd (handleJobFinished (Some (e_config E)) (e_mint E) now fq sv), ts)"
| logs: "control_step E (sv, ts) (snd (handleJobLogs now lq sv), ts)"
| cancel: "control_step E (sv, ts) (snd (handleJobCancel (e_config E) now pid sv), ts)"
| kill: "control_step E (sv, ts) (snd (handleVMKill (e_config E) now path sv), ts)"
| reconcile: "control_step E (sv, ts) (snd (ReconcileOnce (e_rc E) now sv), ts)"

inductive control_reach :: "environment \<Rightarrow> server \<Rightarrow> server \<times> task list \<Rightarrow> bool" for E sv0 where
  init: "control_reach E sv0 (sv0, [])"
| step: "control_reach E sv0 x \<Longrightarrow> control_step E x y \<Longrightarrow> control_reach E sv0 y"

inductive_cases control_stepE: "control_step E x y"

lemma control_step_acts: "control_step E x y \<Longrightarrow> sv_acts (fst x) (fst y)"
  by (induction rule: control_step.induct)
    (auto intro: webhook_acts task_acts register_acts claim_acts started_acts finished_acts logs_acts
      cancel_acts kill_acts reconcile_acts)

lemma control_reach_inv:
  "control_reach E sv0 x \<Longrightarrow> control_inv (sv_store sv0) \<Longrightarrow> control_inv (sv_store (fst x))"
proof (induction rule: control_reach.induct)
  case (step x y)
  have "acts (sv_store (fst x)) (sv_store (fst y))"
    using control_step_acts [OF step(2)] by (simp add: sv_acts_def)
  with step show ?case by (blast intro: control_inv_acts)
qed simp

definition demo_event_job :: "string \<Rightarrow> int \<Rightarrow> WorkflowJobEvent" where
  "demo_event_job action j =
     \<lparr> ev_action = action,
       ev_job = \<lparr> wj_id = j, wj_run_id = 1, wj_name = ''e2e'', wj_workflow_name = '''', wj_conclusion = '''',
         wj_labels = [''temperci-4vcpu''], wj_runner_name = '''' \<rparr>,
       ev_workflow = ''CI'', ev_repo_full_name = ''o/a'', ev_org_login = ''o'', ev_installation_id = 3 \<rparr>"

definition demo_config :: HandlerConfig where
  "demo_config = NewHandler \<lparr> hc_org = '''', hc_label_prefix = '''', hc_runner_group = 0, hc_deleter = True \<rparr>"

definition demo_mint :: minter where
  "demo_mint r = Inr \<lparr> jp_runner_id = 11, jp_encoded = ''jit'' \<rparr>"

definition demo_server :: server where
  "demo_server = \<lparr> sv_store = NewAssignmentStore, sv_agents = [], sv_cmds = newQueue, sv_cacheq = newQueue,
     sv_logs = \<lparr> live_wf = [], live_at = [], live_db = None \<rparr>, sv_writes = [], sv_deleted = [] \<rparr>"

definition demo_env :: environment where
  "demo_env = \<lparr> e_signed = (\<lambda>_. True), e_parse = (\<lambda>_. Some (demo_event_job ''queued'' 7)),
     e_config = demo_config, e_mint = demo_mint,
     e_rc = \<lparr> rc_stuck_after = 0, rc_stale_minted_after = 0, rc_delete = False, rc_kill = False \<rparr> \<rparr>"

definition demo_request :: webhook_request where
  "demo_request = \<lparr> wr_read_error = False, wr_body = '''', wr_signature = '''', wr_event = ''workflow_job'' \<rparr>"

definition demo_minted :: server where
  "demo_minted = run_task demo_config demo_mint 5 (Task_mint (demo_event_job ''queued'' 7)) demo_server"

definition demo_assigned :: server where
  "demo_assigned = snd (handleJobClaim 6 \<lparr> cq_agent_id = ''a'', cq_free_slots = 1, cq_warm = 0, cq_busy = 0,
     cq_cached_repos = [], cq_wait_ms = 0 \<rparr> [(6, [])] demo_minted)"

definition demo_running :: server where
  "demo_running = snd (handleJobStarted 7 \<lparr> sq_agent_id = ''a'', sq_job_id = 7, sq_vm_id = ''vm1'',
     sq_warm_bind = False \<rparr> demo_assigned)"

lemma demo_webhook:
  "handleGitHubWebhook (e_signed demo_env) (e_parse demo_env) (Some (e_config demo_env)) (e_mint demo_env) 5
     demo_request demo_server
   = (Reply 200 ''accepted'', Some (Task_mint (demo_event_job ''queued'' 7)), demo_server)"
proof -
  have "IsOwned (wj_labels (ev_job (demo_event_job ''queued'' 7))) (hc_label_prefix demo_config)"
    by code_simp
  then show ?thesis
    by (simp add: handleGitHubWebhook_def demo_env_def demo_request_def)
      (simp add: demo_event_job_def)
qed

lemma demo_reach_running: "control_reach demo_env demo_server (demo_running, [])"
proof -
  have "control_reach demo_env demo_server (demo_server, [Task_mint (demo_event_job ''queued'' 7)])"
    using control_reach.step [OF control_reach.init control_step.webhook [OF demo_webhook]] by simp
  then have "control_reach demo_env demo_server (demo_minted, [])"
    by (rule control_reach.step)
      (use control_step.background [of 0 "[Task_mint (demo_event_job ''queued'' 7)]" demo_env demo_server 5]
        in \<open>simp add: demo_minted_def remove_nth_def demo_env_def\<close>)
  then have "control_reach demo_env demo_server (demo_assigned, [])"
    by (rule control_reach.step)
      (use control_step.claim [of "[(6, [])]"] in \<open>simp add: demo_assigned_def good_polls_def\<close>)
  then show ?thesis
    by (rule control_reach.step) (use control_step.started in \<open>simp add: demo_running_def\<close>)
qed

text \<open>
  C1. Whatever the agents, GitHub, the operators and the timers do, in any interleaving, the store of
  the control plane keeps its invariant: every minted job is queued once, finished jobs hold no secret,
  and every job's runner carries the name made from its job id.
\<close>

theorem control_plane_inv:
  assumes "control_reach E sv0 (sv, ts)" and "sv_store sv0 = NewAssignmentStore"
  shows "control_inv (sv_store sv)"
  using control_reach_inv [OF assms(1)] control_inv_start assms(2) by simp

theorem control_plane_inv_witness:
  "control_inv (sv_store demo_running) \<and>
   map_option a_status (lookup_job (sv_store demo_running) 7) = Some AssignmentStarted"
proof -
  have "sv_store demo_server = NewAssignmentStore" by (simp add: demo_server_def)
  then have "control_inv (sv_store demo_running)"
    by (rule control_plane_inv [OF demo_reach_running])
  moreover have "map_option a_status (lookup_job (sv_store demo_running) 7) = Some AssignmentStarted"
    by code_simp
  ultimately show ?thesis by simp
qed

lemma Remint_spec:
  assumes "store_inv (sv_store sv)" and "lookup_job (sv_store sv) k = Some a"
    and "a_org a \<noteq> ''''" and "a_labels a \<noteq> []" and "\<And>r. mint r = Inr jit"
  obtains sv' b where "Remint c mint now k reason sv = (Inr (Some b), sv')"
    and "lookup_job (sv_store sv') = (lookup_job (sv_store sv))(k \<mapsto> b)"
    and "a_jit b = jp_encoded jit" and "a_agent_id b = ''''" and "k \<in> set (claimable (sv_store sv'))"
proof -
  have id: "a_job_id a = k" using assms(1,2) by (rule store_invD(4))
  define b where "b = (let x = reminted jit reason a
    in if a_created_at x = 0 then x\<lparr> a_created_at := now \<rparr> else x)"
  define sv' where "sv' = snd (do_op now (Op_put (reminted jit reason a)) sv)"
  have b: "a_jit b = jp_encoded jit" "a_agent_id b = ''''" "a_status b = AssignmentMinted"
    by (simp_all add: b_def reminted_def Let_def)
  have l: "lookup_job (sv_store sv') = (lookup_job (sv_store sv))(k \<mapsto> b)"
    by (auto simp: sv'_def op_store_def Put_def Let_def reminted_def id lookup_set_job_upd b_def
        split: option.splits)
  have "store_inv (sv_store sv')" using assms(1) by (simp add: sv'_def op_store_inv)
  then have "k \<in> set (claimable (sv_store sv'))"
    using store_invD(3) [of "sv_store sv'" k] b l by (auto simp: claimable_def is_minted_iff)
  moreover have "Remint c mint now k reason sv = (Inr (Some b), sv')"
    using assms l by (simp add: Remint_def Get_def Let_def sv'_def [symmetric])
  ultimately show ?thesis using l b by (intro that)
qed

text \<open>
  C16. When GitHub gives the runner made for job \<open>k\<close> to another job, the control plane finds \<open>k\<close> by the
  runner's name and mints it anew: \<open>k\<close> is minted and claimable again with the new secret, bound to no
  agent, and no other job is touched.
\<close>

theorem stolen_runner_recovered:
  assumes "control_inv (sv_store sv)" and "lookup_job (sv_store sv) k = Some a"
    and "a_org a \<noteq> ''''" and "a_labels a \<noteq> []"
    and "wj_runner_name (ev_job ev) = runner_name k" and "wj_id (ev_job ev) \<noteq> k" and "wj_id (ev_job ev) \<noteq> 0"
    and "\<And>r. mint r = Inr jit"
  shows "case recoverStolenRunner c mint now ev sv of (res, sv') \<Rightarrow>
     k \<in> set (claimable (sv_store sv')) \<and>
     map_option a_jit (lookup_job (sv_store sv') k) = Some (jp_encoded jit) \<and>
     map_option a_agent_id (lookup_job (sv_store sv') k) = Some '''' \<and>
     res = Handled (lookup_job (sv_store sv') k) \<and>
     (\<forall>j. j = k \<or> lookup_job (sv_store sv') j = lookup_job (sv_store sv) j)"
proof -
  have inv: "store_inv (sv_store sv)" using assms(1) by (simp add: control_inv_def)
  have id: "a_job_id a = k" using inv assms(2) by (rule store_invD(4))
  have nm: "runner_name k \<noteq> []" by (simp add: runner_name_def)
  obtain sv' b where r: "Remint c mint now k (stolen_reason (runner_name k) ev) sv = (Inr (Some b), sv')"
    and p: "lookup_job (sv_store sv') = (lookup_job (sv_store sv))(k \<mapsto> b)"
      "a_jit b = jp_encoded jit" "a_agent_id b = ''''" "k \<in> set (claimable (sv_store sv'))"
    by (rule Remint_spec [OF inv assms(2-4,8)])
  have g: "GetByRunnerName (runner_name k) (sv_store sv) = Some a"
    using assms(1,2) by (simp add: GetByRunnerName_own)
  have "recoverStolenRunner c mint now ev sv = (Handled (Some b),
      recordJobEvent now k ''control'' ''warn'' (stolen_reason (runner_name k) ev @ ''; reminted JIT'') sv')"
    unfolding recoverStolenRunner_def Let_def assms(5) runner_name_trim g
    using assms(6,7) nm by (simp add: id r)
  then show ?thesis using p by simp
qed

definition demo_taken :: WorkflowJobEvent where
  "demo_taken = (demo_event_job ''in_progress'' 9)\<lparr> ev_job := (ev_job (demo_event_job ''in_progress'' 9))
     \<lparr> wj_runner_name := runner_name 7 \<rparr> \<rparr>"

lemma demo_running_inv: "control_inv (sv_store demo_running)"
  using control_reach_inv [OF demo_reach_running] control_inv_start by (simp add: demo_server_def)

lemma demo_running_job: "\<exists>a. lookup_job (sv_store demo_running) 7 = Some a \<and> a_org a = ''o'' \<and>
    a_labels a = [''temperci-4vcpu''] \<and> a_agent_id a = ''a'' \<and> a_status a = AssignmentStarted \<and>
    a_name a = ''e2e''"
proof -
  have "map_option (\<lambda>a. (a_org a, a_labels a, a_agent_id a, a_status a, a_name a))
      (lookup_job (sv_store demo_running) 7)
    = Some (''o'', [''temperci-4vcpu''], ''a'', AssignmentStarted, ''e2e'')" by code_simp
  then show ?thesis by auto
qed

theorem stolen_runner_recovered_witness:
  "control_inv (sv_store demo_running) \<and>
   7 \<in> set (claimable (sv_store (snd (recoverStolenRunner demo_config demo_mint 8 demo_taken demo_running))))"
proof -
  obtain a where a: "lookup_job (sv_store demo_running) 7 = Some a" "a_org a \<noteq> ''''" "a_labels a \<noteq> []"
    using demo_running_job by auto
  have "wj_runner_name (ev_job demo_taken) = runner_name 7" "wj_id (ev_job demo_taken) \<noteq> 7"
    "wj_id (ev_job demo_taken) \<noteq> 0" "\<And>r. demo_mint r = Inr \<lparr> jp_runner_id = 11, jp_encoded = ''jit'' \<rparr>"
    by (simp_all add: demo_taken_def demo_event_job_def demo_mint_def)
  from stolen_runner_recovered [OF demo_running_inv a this, where c = demo_config and now = 8] demo_running_inv
  show ?thesis by (simp add: case_prod_unfold)
qed

section \<open>Behaviour the guards do not cover\<close>

text \<open>
  A finish report that shows another job's name is acted on whoever sends it: the job is minted
  anew and handed to the next claim although the reporting agent does not own it, while the owner's
  runner is still at work.
\<close>

theorem finish_report_of_other_agent_remints:
  assumes "store_inv (sv_store sv)" and "lookup_job (sv_store sv) (fq_job_id r) = Some a"
    and "a_org a \<noteq> ''''" and "a_labels a \<noteq> []" and "\<And>q. mint q = Inr jit"
    and "a_agent_id a \<noteq> ''''" and "fq_agent_id r \<noteq> a_agent_id a" and "fq_agent_id r \<noteq> ''''"
    and "fq_job_id r \<noteq> 0" and "ran_other_job r sv"
  shows "case handleJobFinished (Some c) mint now r sv of (code, sv') \<Rightarrow>
    code = 200 \<and> fq_job_id r \<in> set (claimable (sv_store sv')) \<and>
    map_option a_agent_id (lookup_job (sv_store sv') (fq_job_id r)) = Some ''''"
proof -
  obtain sv1 b where r: "Remint c mint now (fq_job_id r) (other_job_reason r) sv = (Inr (Some b), sv1)"
    and l: "lookup_job (sv_store sv1) = (lookup_job (sv_store sv))(fq_job_id r \<mapsto> b)"
    and b: "a_jit b = jp_encoded jit" "a_agent_id b = ''''" "fq_job_id r \<in> set (claimable (sv_store sv1))"
    by (rule Remint_spec [OF assms(1-5)])
  show ?thesis
    unfolding handleJobFinished_def Let_def r option.case
    using assms(8,9,10) l b by simp
qed

definition demo_foreign :: JobFinishedRequest where
  "demo_foreign = \<lparr> fq_agent_id = ''b'', fq_job_id = 7, fq_outcome = ''success'', fq_warm_bind = False,
     fq_vm_id = '''', fq_error = '''', fq_runner_log = ''Running job: lint'', fq_agent_log = '''',
     fq_console_log = '''', fq_workflow_log = '''', fq_cache_hits = 0, fq_cache_misses = 0,
     fq_cache_bytes_in = 0, fq_cache_bytes_out = 0 \<rparr>"

theorem finish_report_of_other_agent_remints_witness:
  "status_of (sv_store demo_running) 7 = Some AssignmentStarted \<and>
   fst (handleJobFinished (Some demo_config) demo_mint 9 demo_foreign demo_running) = 200 \<and>
   7 \<in> set (claimable (sv_store (snd (handleJobFinished (Some demo_config) demo_mint 9 demo_foreign demo_running))))"
proof -
  obtain a where a: "lookup_job (sv_store demo_running) (fq_job_id demo_foreign) = Some a"
    "a_org a \<noteq> ''''" "a_labels a \<noteq> []" and ag: "a_agent_id a \<noteq> ''''" "fq_agent_id demo_foreign \<noteq> a_agent_id a"
      and st: "a_status a = AssignmentStarted"
    using demo_running_job by (auto simp: demo_foreign_def)
  have inv: "store_inv (sv_store demo_running)" using demo_running_inv by (simp add: control_inv_def)
  have m: "\<And>q. demo_mint q = Inr \<lparr> jp_runner_id = 11, jp_encoded = ''jit'' \<rparr>" by (simp add: demo_mint_def)
  have "fq_agent_id demo_foreign \<noteq> ''''" "fq_job_id demo_foreign \<noteq> 0"
    by (simp_all add: demo_foreign_def)
  moreover have "ran_other_job demo_foreign demo_running" by code_simp
  ultimately have "case handleJobFinished (Some demo_config) demo_mint 9 demo_foreign demo_running of
      (code, sv') \<Rightarrow> code = 200 \<and> fq_job_id demo_foreign \<in> set (claimable (sv_store sv')) \<and>
        map_option a_agent_id (lookup_job (sv_store sv') (fq_job_id demo_foreign)) = Some ''''"
    by (rule finish_report_of_other_agent_remints [OF inv a m ag])
  with a st show ?thesis by (simp add: case_prod_unfold demo_foreign_def status_of_def)
qed

text \<open>
  An owned \<open>queued\<close> event whose JIT request succeeds always ends with the job claimable, with the
  new secret, whatever state the job was in: a redelivered event puts a running job back in the queue.
\<close>

theorem queued_event_makes_claimable:
  assumes "store_inv (sv_store sv)" and "ev_action ev = ''queued''"
    and "IsOwned (wj_labels (ev_job ev)) (hc_label_prefix c)" and "ev_org_login ev \<noteq> ''''"
    and "\<And>q. mint q = Inr jit"
  shows "case HandleWorkflowJob c mint now ev sv of (res, sv') \<Rightarrow>
    wj_id (ev_job ev) \<in> set (claimable (sv_store sv')) \<and>
    map_option a_jit (lookup_job (sv_store sv') (wj_id (ev_job ev))) = Some (jp_encoded jit) \<and>
    map_option a_agent_id (lookup_job (sv_store sv') (wj_id (ev_job ev))) = Some '''' \<and>
    (\<forall>j. j = wj_id (ev_job ev) \<or> lookup_job (sv_store sv') j = lookup_job (sv_store sv) j)"
proof -
  define a where "a = (job_of_event c (ev_org_login ev) ev)\<lparr> a_runner_id := jp_runner_id jit,
    a_jit := jp_encoded jit, a_status := AssignmentMinted \<rparr>"
  have fields: "a_job_id a = wj_id (ev_job ev)" "a_jit a = jp_encoded jit" "a_agent_id a = ''''"
    "a_status a = AssignmentMinted"
    by (simp_all add: a_def job_of_event_def zero_assignment_def)
  define sv' where "sv' = snd (do_op now (Op_put a) sv)"
  obtain b where l: "lookup_job (sv_store sv') = (lookup_job (sv_store sv))(wj_id (ev_job ev) \<mapsto> b)"
    and b: "a_jit b = jp_encoded jit" "a_agent_id b = ''''" "a_status b = AssignmentMinted"
    by (rule that [of "if a_created_at a = 0 then a\<lparr> a_created_at := now \<rparr> else a"])
      (auto simp: sv'_def op_store_def Put_def Let_def fields lookup_set_job_upd split: option.splits)
  have "store_inv (sv_store sv')" using assms(1) by (simp add: sv'_def op_store_inv)
  then have "wj_id (ev_job ev) \<in> set (claimable (sv_store sv'))"
    using store_invD(3) [of "sv_store sv'" "wj_id (ev_job ev)"] b l
    by (auto simp: claimable_def is_minted_iff)
  moreover have "snd (HandleWorkflowJob c mint now ev sv) = sv'"
    using assms(2-5) by (simp add: HandleWorkflowJob_def Let_def IsOwned_iff sv'_def a_def)
  ultimately show ?thesis using l b by (simp add: case_prod_unfold)
qed

theorem queued_event_makes_claimable_witness:
  "status_of (sv_store demo_running) 7 = Some AssignmentStarted \<and>
   7 \<in> set (claimable (sv_store (snd (HandleWorkflowJob demo_config demo_mint 9 (demo_event_job ''queued'' 7)
     demo_running))))"
proof -
  have inv: "store_inv (sv_store demo_running)" using demo_running_inv by (simp add: control_inv_def)
  have m: "\<And>q. demo_mint q = Inr \<lparr> jp_runner_id = 11, jp_encoded = ''jit'' \<rparr>" by (simp add: demo_mint_def)
  have "ev_action (demo_event_job ''queued'' 7) = ''queued''" "ev_org_login (demo_event_job ''queued'' 7) \<noteq> ''''"
    "wj_id (ev_job (demo_event_job ''queued'' 7)) = 7"
    by (simp_all add: demo_event_job_def)
  moreover have "IsOwned (wj_labels (ev_job (demo_event_job ''queued'' 7))) (hc_label_prefix demo_config)"
    by code_simp
  moreover have "status_of (sv_store demo_running) 7 = Some AssignmentStarted" by code_simp
  ultimately show ?thesis
    using queued_event_makes_claimable [OF inv _ _ _ m, where ev = "demo_event_job ''queued'' 7" and c = demo_config and now = 9]
    by (simp add: case_prod_unfold)
qed

section \<open>One pass of the reconciler\<close>

lemma fold_close:
  assumes step: "\<And>a v. lookup_job (sv_store v) (a_job_id a) = Some a \<Longrightarrow> pre a \<Longrightarrow>
      lookup_job (sv_store (f a v)) = (lookup_job (sv_store v))(a_job_id a \<mapsto> g a)"
  shows "distinct (map a_job_id L) \<Longrightarrow>
    list_all (\<lambda>a. lookup_job (sv_store sv) (a_job_id a) = Some a \<and> pre a) L \<Longrightarrow>
    lookup_job (sv_store (fold f L sv)) j =
      (if j \<in> a_job_id ` set L then map_option g (lookup_job (sv_store sv) j)
       else lookup_job (sv_store sv) j)"
proof (induction L arbitrary: sv)
  case (Cons a L)
  have l: "lookup_job (sv_store (f a sv)) = (lookup_job (sv_store sv))(a_job_id a \<mapsto> g a)"
    using Cons.prems by (intro step) auto
  have a: "lookup_job (sv_store sv) (a_job_id a) = Some a" using Cons.prems by simp
  have "list_all (\<lambda>b. lookup_job (sv_store (f a sv)) (a_job_id b) = Some b \<and> pre b) L"
    unfolding list_all_iff
  proof (intro ballI)
    fix b assume b: "b \<in> set L"
    then have "a_job_id b \<noteq> a_job_id a" using Cons.prems(1) by (metis distinct.simps(2) image_eqI list.map(2) set_map)
    moreover have "lookup_job (sv_store sv) (a_job_id b) = Some b \<and> pre b"
      using Cons.prems(2) b by (simp add: list_all_iff)
    ultimately show "lookup_job (sv_store (f a sv)) (a_job_id b) = Some b \<and> pre b"
      unfolding l by simp
  qed
  then have "lookup_job (sv_store (fold f L (f a sv))) j =
      (if j \<in> a_job_id ` set L then map_option g (lookup_job (sv_store (f a sv)) j)
       else lookup_job (sv_store (f a sv)) j)"
    using Cons.prems by (intro Cons.IH) simp_all
  then have "lookup_job (sv_store (fold f (a # L) sv)) j =
      (if j \<in> a_job_id ` set L then map_option g (((lookup_job (sv_store sv))(a_job_id a \<mapsto> g a)) j)
       else ((lookup_job (sv_store sv))(a_job_id a \<mapsto> g a)) j)"
    by (simp add: l)
  moreover have "a_job_id a \<notin> a_job_id ` set L" using Cons.prems(1) by simp
  ultimately show ?case using a by (cases "j = a_job_id a") auto
qed simp

definition close_stuck :: "gotime \<Rightarrow> assignment \<Rightarrow> assignment" where
  "close_stuck now a = finish_record now (a_agent_id a) ''stuck'' (a_vm_id a) (a_warm_bind a)
     ''assignment stuck past deadline'' a"

definition close_stale :: "assignment \<Rightarrow> assignment" where
  "close_stale a = a\<lparr> a_status := AssignmentFailed, a_error := ''minted job expired without claim'',
     a_jit := '''' \<rparr>"

lemma reconcile_stuck_lookup:
  "lookup_job (sv_store v) (a_job_id a) = Some a \<Longrightarrow> stuck now age a \<Longrightarrow>
   lookup_job (sv_store (reconcile_stuck rc now a v)) =
     (lookup_job (sv_store v))(a_job_id a \<mapsto> close_stuck now a)"
  by (auto simp: reconcile_stuck_def Let_def drop_runner_def op_store_def of_locked_def MarkFinished_def
      close_stuck_def lookup_set_job_upd stuck_def)

lemma reconcile_stale_lookup:
  "lookup_job (sv_store v) (a_job_id a) = Some a \<Longrightarrow>
   lookup_job (sv_store (reconcile_stale rc now a v)) =
     (lookup_job (sv_store v))(a_job_id a \<mapsto> close_stale a)"
  by (simp add: reconcile_stale_def op_store_def MarkFailed_def Let_def close_stale_def
      lookup_set_job_upd)

lemma listed_jobs:
  assumes "store_inv s"
  shows "distinct (map a_job_id (filter P (map snd (by_id s))))"
    and "list_all (\<lambda>a. lookup_job s (a_job_id a) = Some a \<and> P a) (filter P (map snd (by_id s)))"
    and "j \<in> a_job_id ` set (filter P (map snd (by_id s))) \<longleftrightarrow>
      (case lookup_job s j of None \<Rightarrow> False | Some a \<Rightarrow> P a)"
proof -
  have key: "a_job_id (snd x) = fst x" if "x \<in> set (by_id s)" for x
    using that assms by (auto simp: store_inv_def list_all_iff)
  then have m: "map a_job_id (map snd (by_id s)) = map fst (by_id s)" by simp
  have d: "distinct (map fst (by_id s))" using assms by (simp add: store_inv_def)
  then show "distinct (map a_job_id (filter P (map snd (by_id s))))"
    using m by (metis distinct_map_filter)
  have look: "lookup_job s (a_job_id (snd x)) = Some (snd x)" if "x \<in> set (by_id s)" for x
    using that key [OF that] d by (simp add: lookup_job_def)
  then show "list_all (\<lambda>a. lookup_job s (a_job_id a) = Some a \<and> P a) (filter P (map snd (by_id s)))"
    by (auto simp: list_all_iff)
  have "j \<in> a_job_id ` set (filter P (map snd (by_id s))) \<longleftrightarrow>
      (\<exists>x \<in> set (by_id s). a_job_id (snd x) = j \<and> P (snd x))"
    by (auto simp: image_iff)
  also have "\<dots> \<longleftrightarrow> (\<exists>x \<in> set (by_id s). fst x = j \<and> P (snd x))"
    using key by (intro bex_cong) auto
  also have "\<dots> \<longleftrightarrow> (\<exists>a. lookup_job s j = Some a \<and> P a)"
    unfolding lookup_job_def map_of_eq_Some_iff [OF d] by force
  also have "\<dots> \<longleftrightarrow> (case lookup_job s j of None \<Rightarrow> False | Some a \<Rightarrow> P a)"
    by (cases "lookup_job s j") simp_all
  finally show "j \<in> a_job_id ` set (filter P (map snd (by_id s))) \<longleftrightarrow>
      (case lookup_job s j of None \<Rightarrow> False | Some a \<Rightarrow> P a)" .
qed

lemma fold_close_filter:
  assumes step: "\<And>a v. lookup_job (sv_store v) (a_job_id a) = Some a \<Longrightarrow> P a \<Longrightarrow>
      lookup_job (sv_store (f a v)) = (lookup_job (sv_store v))(a_job_id a \<mapsto> g a)"
    and inv: "store_inv (sv_store sv)"
  shows "lookup_job (sv_store (fold f (filter P (map snd (by_id (sv_store sv)))) sv)) j =
    map_option (\<lambda>a. if P a then g a else a) (lookup_job (sv_store sv) j)"
proof -
  let ?L = "filter P (map snd (by_id (sv_store sv)))"
  have "lookup_job (sv_store (fold f ?L sv)) j =
      (if j \<in> a_job_id ` set ?L then map_option g (lookup_job (sv_store sv) j)
       else lookup_job (sv_store sv) j)"
    by (rule fold_close [where pre = P, OF step listed_jobs(1,2) [OF inv]])
  then show ?thesis
    unfolding listed_jobs(3) [OF inv] by (cases "lookup_job (sv_store sv) j") simp_all
qed

text \<open>What a pass makes of one job.\<close>

definition reconciled :: "reconciler \<Rightarrow> gotime \<Rightarrow> assignment \<Rightarrow> assignment option" where
  "reconciled rc now a =
     (let b = (if 0 < rc_stuck_after rc \<and> stuck now (rc_stuck_after rc) a then close_stuck now a
               else if 0 < rc_stale_minted_after rc \<and> stale_minted now (rc_stale_minted_after rc) a
               then close_stale a else a)
      in if prunable now assignmentFinishedRetention b then None else Some b)"

lemma stuck_not_stale: "stuck now d a \<Longrightarrow> \<not> stale_minted now e (close_stuck now a)"
  by (simp add: stale_minted_def close_stuck_def)

text \<open>
  A pass of the reconciler does to every job exactly what its age calls for and nothing else:
  stuck jobs are finished, unclaimed minted jobs fail, old closed jobs are dropped, and every other job is
  as before.
\<close>

theorem reconcile_pass_spec:
  assumes inv: "store_inv (sv_store sv)"
  shows "lookup_job (sv_store (snd (ReconcileOnce rc now sv))) j =
    Option.bind (lookup_job (sv_store sv) j) (reconciled rc now)"
proof -
  define A where "A = (if 0 < rc_stuck_after rc then ListStuck now (rc_stuck_after rc) (sv_store sv) else [])"
  define sv1 where "sv1 = fold (reconcile_stuck rc now) A sv"
  define B where "B = (if 0 < rc_stale_minted_after rc
    then ListStaleMinted now (rc_stale_minted_after rc) (sv_store sv1) else [])"
  define sv2 where "sv2 = fold (reconcile_stale rc now) B sv1"
  have final: "snd (ReconcileOnce rc now sv) = snd (do_op now (Op_prune assignmentFinishedRetention) sv2)"
    by (simp add: ReconcileOnce_def Let_def A_def sv1_def B_def sv2_def)
  let ?S = "\<lambda>a. 0 < rc_stuck_after rc \<and> stuck now (rc_stuck_after rc) a"
  have A: "A = filter ?S (map snd (by_id (sv_store sv)))"
    by (auto simp: A_def ListStuck_def)
  have l1: "lookup_job (sv_store sv1) j = map_option (\<lambda>a. if ?S a then close_stuck now a else a)
      (lookup_job (sv_store sv) j)" for j
    unfolding sv1_def A by (rule fold_close_filter [OF _ inv]) (auto intro: reconcile_stuck_lookup)
  have "sv_acts sv sv1"
    unfolding sv1_def by (rule fold_acts)
      (simp add: reconcile_stuck_def Let_def sv_acts_do)
  then have inv1: "store_inv (sv_store sv1)" using inv acts_store_inv by (simp add: sv_acts_def)
  let ?M = "\<lambda>a. 0 < rc_stale_minted_after rc \<and> stale_minted now (rc_stale_minted_after rc) a"
  have B: "B = filter ?M (map snd (by_id (sv_store sv1)))"
    by (auto simp: B_def ListStaleMinted_def)
  have l2: "lookup_job (sv_store sv2) j = map_option (\<lambda>a. if ?M a then close_stale a else a)
      (lookup_job (sv_store sv1) j)" for j
    unfolding sv2_def B by (rule fold_close_filter [OF _ inv1]) (auto intro: reconcile_stale_lookup)
  have "sv_acts sv1 sv2"
    unfolding sv2_def by (rule fold_acts) (simp add: reconcile_stale_def sv_acts_do)
  then have inv2: "store_inv (sv_store sv2)" using inv1 acts_store_inv by (simp add: sv_acts_def)
  have l3: "lookup_job (sv_store (snd (ReconcileOnce rc now sv))) j =
      (case lookup_job (sv_store sv2) j of
         None \<Rightarrow> None | Some b \<Rightarrow> if prunable now assignmentFinishedRetention b then None else Some b)"
    unfolding final do_op_store op_store_def run_op.simps snd_conv
    by (rule lookup_PruneFinished [OF store_invD(2) [OF inv2]]) (simp add: assignmentFinishedRetention_def)
  show ?thesis
  proof (cases "lookup_job (sv_store sv) j")
    case None
    then show ?thesis by (simp add: l3 l2 l1)
  next
    case (Some a)
    then show ?thesis
      by (cases "0 < rc_stuck_after rc"; cases "stuck now (rc_stuck_after rc) a";
          cases "0 < rc_stale_minted_after rc"; cases "stale_minted now (rc_stale_minted_after rc) a")
        (simp_all add: l3 l2 l1 reconciled_def Let_def stuck_not_stale)
  qed
qed

definition demo_rc :: reconciler where
  "demo_rc = \<lparr> rc_stuck_after = 100, rc_stale_minted_after = 100, rc_delete = True, rc_kill = True \<rparr>"

theorem reconcile_pass_spec_witness:
  "store_inv (sv_store demo_running) \<and>
   map_option a_outcome (lookup_job (sv_store (snd (ReconcileOnce demo_rc 500 demo_running))) 7)
     = Some ''stuck''"
proof -
  have inv: "store_inv (sv_store demo_running)" using demo_running_inv by (simp add: control_inv_def)
  have "map_option a_outcome (Option.bind (lookup_job (sv_store demo_running) 7) (reconciled demo_rc 500))
    = Some ''stuck''" by code_simp
  with reconcile_pass_spec [OF inv, of demo_rc 500 7] inv show ?thesis by simp
qed

end
