(* ===== verification/StoredTime.thy ===== *)
theory StoredTime
  imports Base
begin

text \<open>
  How timestamps are kept in the SQLite text columns (\<open>formatStoredTime\<close> and \<open>parseStoredTime\<close> of
  \<open>internal/store/assignments.go\<close>): the layout \<open>time.RFC3339Nano\<close> in UTC, the empty text for the zero
  time. The calendar of package \<open>time\<close> is written out: years from 1, leap years, days of a month.
  The parser is the part of \<open>time.Parse\<close> that texts of this layout in UTC reach; every other text is the zero
  time, which is what the code's two discarded errors give for it.
\<close>

section \<open>Calendar\<close>

definition leap_year :: "nat \<Rightarrow> bool" where
  "leap_year y \<longleftrightarrow> (y mod 4 = 0 \<and> y mod 100 \<noteq> 0) \<or> y mod 400 = 0"

definition year_days :: "nat \<Rightarrow> nat" where
  "year_days y = (if leap_year y then 366 else 365)"

definition month_days :: "nat \<Rightarrow> nat list" where
  "month_days y = [31, if leap_year y then 29 else 28, 31, 30, 31, 30, 31, 31, 30, 31, 30, 31]"

text \<open>Days before the first of January of a year, counted from year 1.\<close>

fun days_before_year :: "nat \<Rightarrow> nat" where
  "days_before_year 0 = 0"
| "days_before_year (Suc y) = (if y = 0 then 0 else days_before_year y + year_days y)"

function year_loop :: "nat \<Rightarrow> nat \<Rightarrow> nat \<times> nat" where
  "year_loop y d = (if d < year_days y then (y, d) else year_loop (Suc y) (d - year_days y))"
  by pat_completeness auto
termination by (relation "measure snd") (auto simp: year_days_def split: if_splits)

declare year_loop.simps [simp del]

fun month_loop :: "nat list \<Rightarrow> nat \<Rightarrow> nat \<times> nat" where
  "month_loop [] d = (0, d)"
| "month_loop (m # ms) d =
     (if d < m then (0, d) else (let (i, r) = month_loop ms (d - m) in (Suc i, r)))"

lemma year_loop_sum:
  "year_loop y d = (y', r) \<Longrightarrow> 0 < y \<Longrightarrow>
   days_before_year y' + r = days_before_year y + d \<and> r < year_days y' \<and> y \<le> y'"
proof (induction y d arbitrary: y' r rule: year_loop.induct)
  case (1 y d)
  show ?case
  proof (cases "d < year_days y")
    case True
    with 1 show ?thesis by (simp add: year_loop.simps [of y d])
  next
    case False
    with 1 have "days_before_year y' + r = days_before_year (Suc y) + (d - year_days y) \<and>
        r < year_days y' \<and> Suc y \<le> y'"
      by (simp add: year_loop.simps [of y d])
    with False "1.prems" show ?thesis by auto
  qed
qed

lemma days_before_year_mono: "a \<le> b \<Longrightarrow> days_before_year a \<le> days_before_year b"
  by (induction rule: dec_induct) auto

lemma month_loop_sum:
  "month_loop ms d = (i, r) \<Longrightarrow> d < sum_list ms \<Longrightarrow>
   sum_list (take i ms) + r = d \<and> i < length ms \<and> r < ms ! i"
proof (induction ms d arbitrary: i r rule: month_loop.induct)
  case (2 m ms d)
  show ?case
  proof (cases "d < m")
    case False
    with "2.prems" obtain k where k: "month_loop ms (d - m) = (k, r)" "i = Suc k"
      by (auto split: prod.splits)
    have "d - m < sum_list ms" using False "2.prems" by auto
    with "2.IH" [OF False k(1)] have "sum_list (take k ms) + r = d - m" "k < length ms" "r < ms ! k"
      by auto
    with False k(2) show ?thesis by simp
  qed (use "2.prems" in simp)
qed simp

lemma sum_month_days: "sum_list (month_days y) = year_days y"
  by (simp add: month_days_def year_days_def)

lemma length_month_days: "length (month_days y) = 12"
  by (simp add: month_days_def)

lemma month_days_bound: "m \<in> set (month_days y) \<Longrightarrow> m \<le> 31"
  by (auto simp: month_days_def split: if_splits)

section \<open>Fixed-width decimals\<close>

definition pad_digits :: "nat \<Rightarrow> nat \<Rightarrow> string" where
  "pad_digits w n = replicate (w - length (nat_digits n)) (CHR ''0'') @ nat_digits n"

lemma length_nat_digits: "n < 10 ^ w \<Longrightarrow> 0 < w \<Longrightarrow> length (nat_digits n) \<le> w"
proof (induction n arbitrary: w rule: nat_digits.induct)
  case (1 n)
  show ?case
  proof (cases "n < 10")
    case True
    with 1 show ?thesis by (simp add: nat_digits.simps [of n])
  next
    case False
    with "1.prems" obtain v where v: "w = Suc v" by (cases w) auto
    have "0 < v" using False "1.prems" v by (cases v) auto
    moreover have "n div 10 < 10 ^ v" using "1.prems" v by (simp add: less_mult_imp_div_less mult.commute)
    ultimately show ?thesis using False "1.IH" [of v] v by (simp add: nat_digits.simps [of n])
  qed
qed

lemma length_pad_digits: "n < 10 ^ w \<Longrightarrow> 0 < w \<Longrightarrow> length (pad_digits w n) = w"
  using length_nat_digits [of n w] by (simp add: pad_digits_def)

lemma digits_val_zeros: "digits_val 0 (replicate k (CHR ''0'') @ s) = digits_val 0 s"
  by (induction k) (auto simp: digit_of_def)

lemma digits_val_pad: "digits_val 0 (pad_digits w n) = Some (int n)"
  by (simp add: pad_digits_def digits_val_zeros digits_val_nat_digits)

definition fixed_num :: "nat \<Rightarrow> nat \<Rightarrow> string \<Rightarrow> nat option" where
  "fixed_num i w s =
     (let t = take w (drop i s) in
      if length t = w then map_option nat (digits_val 0 t) else None)"

lemma fixed_num_pad:
  "length a = i \<Longrightarrow> n < 10 ^ w \<Longrightarrow> 0 < w \<Longrightarrow> fixed_num i w (a @ pad_digits w n @ b) = Some n"
  by (simp add: fixed_num_def length_pad_digits digits_val_pad)

section \<open>Formatting\<close>

definition frac_digits :: "nat \<Rightarrow> string" where
  "frac_digits n = rev (dropWhile (\<lambda>c. c = CHR ''0'') (rev (pad_digits 9 n)))"

definition frac_text :: "nat \<Rightarrow> string" where
  "frac_text n = (if n = 0 then '''' else CHR ''.'' # frac_digits n)"

text \<open>Times from year 1 up to the year 9999, the last that four digits can carry.\<close>

definition rfc3339nano :: "gotime \<Rightarrow> string" where
  "rfc3339nano t =
     (let n = nat t; ns = n mod 1000000000; secs = n div 1000000000;
               (y, yd) = year_loop 1 (secs div 86400);
               (m, md) = month_loop (month_days y) yd;
               s = secs mod 86400
           in pad_digits 4 y @ ''-'' @ pad_digits 2 (m + 1) @ ''-'' @ pad_digits 2 (md + 1) @ ''T'' @
              pad_digits 2 (s div 3600) @ '':'' @ pad_digits 2 (s div 60 mod 60) @ '':'' @
              pad_digits 2 (s mod 60) @ frac_text ns @ ''Z'')"

definition formatStoredTime :: "gotime \<Rightarrow> string" where
  "formatStoredTime t = (if t = 0 then '''' else rfc3339nano t)"

text \<open>The fraction and the zone after the seconds; digits after the ninth are dropped.\<close>

definition parse_frac :: "string \<Rightarrow> nat option" where
  "parse_frac r =
     (if r = ''Z'' then Some 0
      else case r of
        [] \<Rightarrow> None
      | c # ds \<Rightarrow>
          if c = CHR ''.'' \<and> ds \<noteq> [] \<and> last ds = CHR ''Z'' \<and> butlast ds \<noteq> []
             \<and> list_all is_digit (butlast ds)
          then map_option nat (digits_val 0 (take 9 (butlast ds @ replicate 9 (CHR ''0''))))
          else None)"

definition parseStoredTime :: "string \<Rightarrow> gotime" where
  "parseStoredTime s =
     (case (fixed_num 0 4 s, fixed_num 5 2 s, fixed_num 8 2 s, fixed_num 11 2 s, fixed_num 14 2 s,
            fixed_num 17 2 s, parse_frac (drop 19 s)) of
        (Some y, Some mo, Some d, Some h, Some mi, Some sec, Some ns) \<Rightarrow>
          if s ! 4 = CHR ''-'' \<and> s ! 7 = CHR ''-'' \<and> s ! 10 = CHR ''T'' \<and> s ! 13 = CHR '':'' \<and>
             s ! 16 = CHR '':'' \<and> 1 \<le> y \<and> 1 \<le> mo \<and> mo \<le> 12 \<and> 1 \<le> d \<and> d \<le> month_days y ! (mo - 1) \<and>
             h < 24 \<and> mi < 60 \<and> sec < 60
          then int ((((days_before_year y + sum_list (take (mo - 1) (month_days y)) + (d - 1)) * 86400
                  + h * 3600 + mi * 60 + sec) * 1000000000) + ns)
          else 0
      | _ \<Rightarrow> 0)"

section \<open>Round trip\<close>

lemma length_2: "length xs = 2 \<Longrightarrow> \<exists>a b. xs = [a, b]"
  by (auto simp: length_Suc_conv numeral_2_eq_2)

lemma length_4: "length xs = 4 \<Longrightarrow> \<exists>a b c d. xs = [a, b, c, d]"
  by (auto simp: length_Suc_conv eval_nat_numeral)

lemma parse_fields:
  assumes "length A = 4" "length B = 2" "length C = 2" "length D = 2" "length E = 2" "length F = 2"
    and s: "s = A @ ''-'' @ B @ ''-'' @ C @ ''T'' @ D @ '':'' @ E @ '':'' @ F @ z"
  shows "take 4 (drop 0 s) = A" "take 2 (drop 5 s) = B" "take 2 (drop 8 s) = C"
    "take 2 (drop 11 s) = D" "take 2 (drop 14 s) = E" "take 2 (drop 17 s) = F" "drop 19 s = z"
    "s ! 4 = CHR ''-''" "s ! 7 = CHR ''-''" "s ! 10 = CHR ''T''" "s ! 13 = CHR '':''"
    "s ! 16 = CHR '':''"
proof -
  obtain a b c d where A: "A = [a, b, c, d]" using length_4 [OF assms(1)] by blast
  obtain e f where B: "B = [e, f]" using length_2 [OF assms(2)] by blast
  obtain g h where C: "C = [g, h]" using length_2 [OF assms(3)] by blast
  obtain i j where D: "D = [i, j]" using length_2 [OF assms(4)] by blast
  obtain k l where E: "E = [k, l]" using length_2 [OF assms(5)] by blast
  obtain m n where F: "F = [m, n]" using length_2 [OF assms(6)] by blast
  have "s = [a, b, c, d, CHR ''-'', e, f, CHR ''-'', g, h, CHR ''T'', i, j, CHR '':'', k, l,
      CHR '':'', m, n] @ z"
    unfolding s A B C D E F by simp
  then show "take 4 (drop 0 s) = A" "take 2 (drop 5 s) = B" "take 2 (drop 8 s) = C"
    "take 2 (drop 11 s) = D" "take 2 (drop 14 s) = E" "take 2 (drop 17 s) = F" "drop 19 s = z"
    "s ! 4 = CHR ''-''" "s ! 7 = CHR ''-''" "s ! 10 = CHR ''T''" "s ! 13 = CHR '':''"
    "s ! 16 = CHR '':''"
    by (simp_all add: A B C D E F)
qed

lemma strip_zeros: "ds = rev (dropWhile (\<lambda>c. c = CHR ''0'') (rev ds)) @ replicate
    (length ds - length (dropWhile (\<lambda>c. c = CHR ''0'') (rev ds))) (CHR ''0'')"
proof -
  let ?P = "\<lambda>c. c = CHR ''0''"
  have "rev ds = takeWhile ?P (rev ds) @ dropWhile ?P (rev ds)" by simp
  then have "ds = rev (dropWhile ?P (rev ds)) @ rev (takeWhile ?P (rev ds))"
    by (metis rev_append rev_rev_ident)
  moreover have "rev (takeWhile ?P (rev ds)) = replicate (length (takeWhile ?P (rev ds))) (CHR ''0'')"
    by (rule replicate_eqI) (auto dest: set_takeWhileD)
  moreover have "length (takeWhile ?P (rev ds)) + length (dropWhile ?P (rev ds)) = length ds"
    by (metis length_append length_rev takeWhile_dropWhile_id)
  then have "length (takeWhile ?P (rev ds)) = length ds - length (dropWhile ?P (rev ds))" by simp
  ultimately show ?thesis by simp
qed

lemma frac_digits_pad:
  assumes "n < 1000000000"
  shows "take 9 (frac_digits n @ replicate 9 (CHR ''0'')) = pad_digits 9 n"
proof -
  have len: "length (pad_digits 9 n) = 9" using assms by (simp add: length_pad_digits)
  define k where "k = 9 - length (frac_digits n)"
  have split: "pad_digits 9 n = frac_digits n @ replicate k (CHR ''0'')"
    using strip_zeros [of "pad_digits 9 n"] len by (simp add: frac_digits_def k_def)
  then have k: "length (frac_digits n) + k = 9" using len by (metis length_append length_replicate)
  have "replicate 9 (CHR ''0'') = replicate k (CHR ''0'') @ replicate (9 - k) (CHR ''0'')"
    using k by (simp flip: replicate_add)
  then have "frac_digits n @ replicate 9 (CHR ''0'') = pad_digits 9 n @ replicate (9 - k) (CHR ''0'')"
    using split by simp
  then show ?thesis using len by simp
qed

lemma pad_digits_digits: "list_all is_digit (pad_digits w n)"
  by (auto simp: pad_digits_def list_all_iff is_digit_def digit_of_def
      dest: nat_digits_digits [unfolded is_digit_def])

lemma frac_digits_digits: "list_all is_digit (frac_digits n)"
  using pad_digits_digits [of 9 n] by (auto simp: frac_digits_def list_all_iff dest!: set_dropWhileD)

lemma digit_not_Z: "\<not> is_digit (CHR ''Z'')" "is_digit c \<Longrightarrow> c \<noteq> CHR ''.''"
  by (auto simp: is_digit_def digit_of_def)

lemma frac_digits_nonempty: "0 < n \<Longrightarrow> frac_digits n \<noteq> []"
proof
  assume n: "0 < n" and e: "frac_digits n = []"
  then have z: "\<forall>c \<in> set (pad_digits 9 n). c = CHR ''0''"
    by (auto simp: frac_digits_def dropWhile_eq_Nil_conv)
  then have "pad_digits 9 n = replicate (length (pad_digits 9 n)) (CHR ''0'')"
    by (simp add: replicate_eqI)
  then have "digits_val 0 (pad_digits 9 n) = digits_val 0 (replicate (length (pad_digits 9 n)) (CHR ''0'') @ [])"
    by simp
  then show False unfolding digits_val_zeros digits_val_pad using n by simp
qed

lemma parse_frac_text: "n < 1000000000 \<Longrightarrow> parse_frac (frac_text n @ ''Z'') = Some n"
proof (cases "n = 0")
  case False
  assume n: "n < 1000000000"
  have "digits_val 0 (take 9 (frac_digits n @ replicate 9 (CHR ''0''))) = Some (int n)"
    unfolding frac_digits_pad [OF n] by (rule digits_val_pad)
  with False frac_digits_nonempty [of n] frac_digits_digits [of n] show ?thesis
    by (simp add: frac_text_def parse_frac_def butlast_append)
qed (simp add: frac_text_def parse_frac_def)

lemma fixed_numI:
  "take w (drop i s) = pad_digits w n \<Longrightarrow> n < 10 ^ w \<Longrightarrow> 0 < w \<Longrightarrow> fixed_num i w s = Some n"
  by (simp add: fixed_num_def length_pad_digits digits_val_pad)

lemma parse_pads:
  assumes "y < 10000" "mo < 100" "d < 100" "h < 100" "mi < 100" "sec < 100"
    and s: "s = pad_digits 4 y @ ''-'' @ pad_digits 2 mo @ ''-'' @ pad_digits 2 d @ ''T'' @
      pad_digits 2 h @ '':'' @ pad_digits 2 mi @ '':'' @ pad_digits 2 sec @ z"
    and z: "parse_frac z = Some ns"
    and "1 \<le> y" "1 \<le> mo" "mo \<le> 12" "1 \<le> d" "d \<le> month_days y ! (mo - 1)"
      "h < 24" "mi < 60" "sec < 60"
  shows "parseStoredTime s =
    int ((((days_before_year y + sum_list (take (mo - 1) (month_days y)) + (d - 1)) * 86400
      + h * 3600 + mi * 60 + sec) * 1000000000) + ns)"
proof -
  have len: "length (pad_digits 4 y) = 4" "length (pad_digits 2 mo) = 2" "length (pad_digits 2 d) = 2"
    "length (pad_digits 2 h) = 2" "length (pad_digits 2 mi) = 2" "length (pad_digits 2 sec) = 2"
    using assms(1-6) by (simp_all add: length_pad_digits)
  note f = parse_fields [OF len s]
  have "fixed_num 0 4 s = Some y" "fixed_num 5 2 s = Some mo" "fixed_num 8 2 s = Some d"
    "fixed_num 11 2 s = Some h" "fixed_num 14 2 s = Some mi" "fixed_num 17 2 s = Some sec"
    using assms(1-6) by (intro fixed_numI f; simp)+
  with f z assms(9-16) show ?thesis by (simp add: parseStoredTime_def)
qed

lemma storable_date:
  assumes "year_loop 1 D = (y, yd)" and "month_loop (month_days y) yd = (m, md)"
    and "D < days_before_year 10000"
  shows "days_before_year y + sum_list (take m (month_days y)) + md = D"
    "1 \<le> y" "y < 10000" "m < 12" "md < month_days y ! m" "md < 99"
proof -
  have y: "days_before_year y + yd = D" "yd < year_days y" "1 \<le> y"
    using year_loop_sum [OF assms(1)] by auto
  show "1 \<le> y" by fact
  have m: "sum_list (take m (month_days y)) + md = yd" "m < 12" "md < month_days y ! m"
    using month_loop_sum [OF assms(2)] y(2) by (simp_all add: sum_month_days length_month_days)
  show "days_before_year y + sum_list (take m (month_days y)) + md = D" using y m by simp
  show "m < 12" "md < month_days y ! m" by fact+
  have "month_days y ! m \<in> set (month_days y)" using m(2) by (simp add: length_month_days)
  from month_days_bound [OF this] m(3) show "md < 99" by simp
  show "y < 10000"
  proof (rule ccontr)
    assume "\<not> y < 10000"
    then have "days_before_year 10000 \<le> days_before_year y" by (intro days_before_year_mono) simp
    with y assms(3) show False by simp
  qed
qed

lemma stored_time_roundtrip_aux:
  assumes "0 \<le> t" and "t < int (days_before_year 10000) * 86400 * 1000000000"
  shows "parseStoredTime (formatStoredTime t) = t"
proof (cases "t = 0")
  case True
  then show ?thesis by (simp add: formatStoredTime_def parseStoredTime_def fixed_num_def)
next
  case False
  define n where "n = nat t"
  define secs where "secs = n div 1000000000"
  define s where "s = secs mod 86400"
  obtain y yd where y: "year_loop 1 (secs div 86400) = (y, yd)" by (cases "year_loop 1 (secs div 86400)")
  obtain m md where m: "month_loop (month_days y) yd = (m, md)" by (cases "month_loop (month_days y) yd")
  have "n < days_before_year 10000 * 86400 * 1000000000"
    using assms unfolding n_def by linarith
  then have "secs div 86400 < days_before_year 10000"
    by (simp add: secs_def less_mult_imp_div_less)
  note date = storable_date [OF y m this]
  have s: "s < 86400" by (simp add: s_def)
  then have b: "s div 3600 < 24" "s div 60 mod 60 < 60" "s mod 60 < 60" by auto
  have hms: "s div 3600 * 3600 + s div 60 mod 60 * 60 + s mod 60 = s"
  proof -
    define q where "q = s div 60"
    have "s div 3600 = q div 60" by (simp add: q_def div_mult2_eq [symmetric])
    moreover have "q div 60 * 60 + q mod 60 = q" "q * 60 + s mod 60 = s" by (simp_all add: q_def)
    ultimately show ?thesis unfolding q_def [symmetric] by linarith
  qed
  have fmt: "formatStoredTime t = pad_digits 4 y @ ''-'' @ pad_digits 2 (m + 1) @ ''-'' @
      pad_digits 2 (md + 1) @ ''T'' @ pad_digits 2 (s div 3600) @ '':'' @
      pad_digits 2 (s div 60 mod 60) @ '':'' @ pad_digits 2 (s mod 60) @
      (frac_text (n mod 1000000000) @ ''Z'')"
    unfolding formatStoredTime_def rfc3339nano_def n_def [symmetric] Let_def secs_def [symmetric] y m
      s_def [symmetric] split_conv using False by simp
  have "parseStoredTime (formatStoredTime t) =
      int ((((days_before_year y + sum_list (take (m + 1 - 1) (month_days y)) + (md + 1 - 1)) * 86400
        + s div 3600 * 3600 + s div 60 mod 60 * 60 + s mod 60) * 1000000000) + n mod 1000000000)"
    using date b fmt
    by (intro parse_pads [where z = "frac_text (n mod 1000000000) @ ''Z''"] parse_frac_text) simp_all
  also have "days_before_year y + sum_list (take (m + 1 - 1) (month_days y)) + (md + 1 - 1) = secs div 86400"
    using date(1) by simp
  also have "secs div 86400 * 86400 + s div 3600 * 3600 + s div 60 mod 60 * 60 + s mod 60 = secs"
    using hms div_mult_mod_eq [of secs 86400] unfolding s_def by linarith
  also have "secs * 1000000000 + n mod 1000000000 = n" by (simp add: secs_def)
  finally show ?thesis using assms(1) by (simp add: n_def)
qed

text \<open>
  What is written to a timestamp column is read back unchanged: the round trip through the
  stored text is the identity on every time from the zero time through the year 9999.
\<close>

theorem stored_time_roundtrip:
  assumes "0 \<le> t" and "t < int (days_before_year 10000) * 86400 * 1000000000"
  shows "parseStoredTime (formatStoredTime t) = t"
  using assms by (rule stored_time_roundtrip_aux)

lemma days_before_year_lower: "365 * y \<le> days_before_year (Suc y)"
  by (induction y) (auto simp: year_days_def)

lemma replicate_3: "replicate 3 c = [c, c, c]"
  by (simp add: numeral_3_eq_3)

lemmas formatStoredTime_eval =
  formatStoredTime_def rfc3339nano_def Let_def year_loop.simps [of "Suc 0"] year_days_def leap_year_def
  month_days_def pad_digits_def nat_digits.simps digit_char_eval replicate_3 frac_text_def frac_digits_def

theorem stored_time_roundtrip_witness:
  "formatStoredTime 5500000000 = ''0001-01-01T00:00:05.5Z'' \<and>
   parseStoredTime (formatStoredTime 5500000000) = 5500000000"
proof -
  have "365 * 9999 \<le> days_before_year 10000" using days_before_year_lower [of 9999] by simp
  then have "(5500000000::int) < int (days_before_year 10000) * 86400 * 1000000000" by linarith
  then have "parseStoredTime (formatStoredTime 5500000000) = 5500000000"
    by (intro stored_time_roundtrip) simp_all
  moreover have "formatStoredTime 5500000000 = ''0001-01-01T00:00:05.5Z''"
    by (simp add: formatStoredTime_eval)
  ultimately show ?thesis by simp
qed

end
