(* ===== verification/Json.thy ===== *)
theory Json
  imports Base
begin

text \<open>
  The JSON text of a list of strings, as \<open>encoding/json\<close> writes it (compact, with the HTML-safe
  escapes) and reads that text back. Bytes from 128 are copied, which is what the encoder does with
  valid UTF-8 other than U+2028 and U+2029; the labels it is used for are ASCII.
\<close>

definition hex_char :: "nat \<Rightarrow> char" where
  "hex_char d = (if d < 10 then char_of (48 + d) else char_of (87 + d))"

definition hex_val :: "char \<Rightarrow> nat option" where
  "hex_val c =
     (let n = of_char c in
      if 48 \<le> n \<and> n \<le> 57 then Some (n - 48)
      else if 97 \<le> n \<and> n \<le> 102 then Some (n - 87)
      else if 65 \<le> n \<and> n \<le> 70 then Some (n - 55)
      else None)"

definition json_escape :: "char \<Rightarrow> string" where
  "json_escape c =
     (let n = (of_char c :: nat) in
      if c = CHR 0x22 \<or> c = CHR 0x5C then [CHR 0x5C, c]
      else if c = CHR 0x08 then [CHR 0x5C, CHR ''b'']
      else if c = CHR 0x0C then [CHR 0x5C, CHR ''f'']
      else if c = CHR 0x0A then [CHR 0x5C, CHR ''n'']
      else if c = CHR 0x0D then [CHR 0x5C, CHR ''r'']
      else if c = CHR 0x09 then [CHR 0x5C, CHR ''t'']
      else if n < 32 \<or> n = 38 \<or> n = 60 \<or> n = 62
      then [CHR 0x5C, CHR ''u'', CHR ''0'', CHR ''0'', hex_char (n div 16), hex_char (n mod 16)]
      else [c])"

definition json_string :: "string \<Rightarrow> string" where
  "json_string s = CHR 0x22 # concat (map json_escape s) @ [CHR 0x22]"

fun json_items :: "string list \<Rightarrow> string" where
  "json_items [] = ''''"
| "json_items [s] = json_string s"
| "json_items (s # ss) = json_string s @ '','' @ json_items ss"

definition json_strings :: "string list \<Rightarrow> string" where
  "json_strings ss = ''['' @ json_items ss @ '']''"

definition json_simple_escape :: "char \<Rightarrow> char option" where
  "json_simple_escape e =
     (if e = CHR 0x22 \<or> e = CHR 0x5C \<or> e = CHR ''/'' then Some e
      else if e = CHR ''b'' then Some (CHR 0x08)
      else if e = CHR ''f'' then Some (CHR 0x0C)
      else if e = CHR ''n'' then Some (CHR 0x0A)
      else if e = CHR ''r'' then Some (CHR 0x0D)
      else if e = CHR ''t'' then Some (CHR 0x09)
      else None)"

text \<open>The rest of a string after its opening quote: the text read and what follows it.\<close>

fun json_body :: "string \<Rightarrow> (string \<times> string) option" where
  "json_body [] = None"
| "json_body (c # r) =
     (if c = CHR 0x22 then Some ([], r)
      else if c = CHR 0x5C then
        (case r of
           [] \<Rightarrow> None
         | e # r1 \<Rightarrow>
             if e = CHR ''u'' then
               (case r1 of
                  h0 # h1 # h2 # h3 # r2 \<Rightarrow>
                    (case (hex_val h0, hex_val h1, hex_val h2, hex_val h3) of
                       (Some 0, Some 0, Some a, Some b) \<Rightarrow>
                         if 16 * a + b < 128
                         then map_option (\<lambda>(t, z). (char_of (16 * a + b) # t, z)) (json_body r2)
                         else None
                     | _ \<Rightarrow> None)
                | _ \<Rightarrow> None)
             else (case json_simple_escape e of
                 None \<Rightarrow> None
               | Some d \<Rightarrow> map_option (\<lambda>(t, z). (d # t, z)) (json_body r1)))
      else if (of_char c :: nat) < 32 then None
      else map_option (\<lambda>(t, z). (c # t, z)) (json_body r))"

text \<open>The items of an array after the opening bracket; fuel is one more than the items read.\<close>

fun json_list :: "nat \<Rightarrow> string \<Rightarrow> string list option" where
  "json_list 0 s = None"
| "json_list (Suc n) s =
     (case s of
        [] \<Rightarrow> None
      | c # r \<Rightarrow>
          if c \<noteq> CHR 0x22 then None
          else case json_body r of
            None \<Rightarrow> None
          | Some (t, z) \<Rightarrow>
              if z = '']'' then Some [t]
              else if has_prefix z '',''
              then map_option (\<lambda>ts. t # ts) (json_list n (drop 1 z))
              else None)"

definition json_read_strings :: "string \<Rightarrow> string list option" where
  "json_read_strings s =
     (if s = ''[]'' then Some []
      else if has_prefix s ''['' then json_list (length s) (drop 1 s) else None)"

section \<open>Round trip\<close>

lemma hex_val_char: "d < 16 \<Longrightarrow> hex_val (hex_char d) = Some d"
  by (auto simp: hex_val_def hex_char_def Let_def of_char_of)

lemma json_body_escape:
  "json_body (json_escape c @ r) = map_option (\<lambda>(t, z). (c # t, z)) (json_body r)"
proof -
  let ?n = "of_char c :: nat"
  let ?S = "{CHR 0x22, CHR 0x5C, CHR 0x08, CHR 0x0C, CHR 0x0A, CHR 0x0D, CHR 0x09}"
  have hex: "hex_val (CHR ''0'') = Some 0" by (simp add: hex_val_def)
  consider "c \<in> ?S"
    | "c \<notin> ?S" "?n < 32 \<or> ?n = 38 \<or> ?n = 60 \<or> ?n = 62"
    | "c \<notin> ?S" "\<not> (?n < 32 \<or> ?n = 38 \<or> ?n = 60 \<or> ?n = 62)"
    by blast
  then show ?thesis
  proof cases
    case 1
    then show ?thesis by (auto simp: json_escape_def json_simple_escape_def)
  next
    case 2
    then have n: "?n < 64" by auto
    then have "16 * (?n div 16) + ?n mod 16 = ?n" "?n div 16 < 16" by auto
    with 2 n show ?thesis by (simp add: json_escape_def Let_def hex_val_char hex)
  next
    case 3
    then show ?thesis by (simp add: json_escape_def Let_def)
  qed
qed

lemma json_body_string: "json_body (concat (map json_escape s) @ CHR 0x22 # r) = Some (s, r)"
  by (induction s) (simp_all add: json_body_escape del: json_body.simps(2), simp)

lemma json_list_items:
  "ss \<noteq> [] \<Longrightarrow> length ss \<le> n \<Longrightarrow> json_list n (json_items ss @ '']'') = Some ss"
proof (induction ss arbitrary: n rule: json_items.induct)
  case (2 s)
  then obtain m where "n = Suc m" by (cases n) auto
  then show ?case by (simp add: json_string_def json_body_string)
next
  case (3 s t ts)
  then obtain m where m: "n = Suc m" by (cases n) auto
  with 3 have "json_list m (json_items (t # ts) @ '']'') = Some (t # ts)" by simp
  with m show ?case by (simp add: json_string_def json_body_string has_prefix_def)
qed simp

lemma length_json_items: "length ss \<le> length (json_items ss)"
  by (induction ss rule: json_items.induct) (auto simp: json_string_def)

lemma json_strings_roundtrip: "json_read_strings (json_strings ss) = Some ss"
proof (cases "ss = []")
  case True
  then show ?thesis by (simp add: json_strings_def json_read_strings_def)
next
  case False
  then obtain x xs where "ss = x # xs" by (cases ss) auto
  then have "json_strings ss \<noteq> ''[]''"
    by (cases xs) (auto simp: json_strings_def json_string_def)
  moreover have "json_list (length (json_strings ss)) (json_items ss @ '']'') = Some ss"
    using False length_json_items [of ss] by (intro json_list_items) (simp_all add: json_strings_def)
  ultimately show ?thesis by (simp add: json_read_strings_def json_strings_def has_prefix_def)
qed

end
