(* ===== verification/Persist.thy ===== *)
theory Persist
  imports Assignments StoredTime Json
begin

text \<open>
  The durable copy of the assignments: the rows and SQL statements of
  \<open>internal/store/assignments.go\<close> and the adapter \<open>storePersister\<close> of \<open>internal/control/persist.go\<close>.
  The table is an association list with the primary key \<open>job_id\<close>; \<open>ORDER BY\<close> and \<open><\<close> on a text column
  compare bytes. Whether a statement fails is an argument, the driver being outside the repository.
\<close>

section \<open>Rows\<close>

text \<open>
  One record for \<open>AssignmentRow\<close> (times and booleans) and for a table row (text and integer columns).
\<close>

record ('t, 'b) row =
  r_job_id :: int
  r_run_id :: int
  r_org :: string
  r_repo :: string
  r_labels_json :: string
  r_installation_id :: int
  r_runner_name :: string
  r_runner_id :: int
  r_jit :: string
  r_status :: string
  r_created_at :: 't
  r_assigned_at :: 't
  r_started_at :: 't
  r_finished_at :: 't
  r_agent_id :: string
  r_vm_id :: string
  r_warm_bind :: 'b
  r_outcome :: string
  r_error :: string
  r_cache_hits :: int
  r_cache_misses :: int
  r_cache_bytes_in :: int
  r_cache_bytes_out :: int
  r_job_name :: string
  r_workflow_name :: string

type_synonym AssignmentRow = "(gotime, bool) row"
type_synonym table_row = "(string, int) row"
type_synonym table = "(int \<times> table_row) list"

datatype db_error = Job_id_required | Statement_failed

definition assignmentToRow :: "assignment \<Rightarrow> AssignmentRow" where
  "assignmentToRow a =
     \<lparr> r_job_id = a_job_id a, r_run_id = a_run_id a, r_org = a_org a, r_repo = a_repo a,
       r_labels_json = (if a_labels a \<noteq> [] then json_strings (a_labels a) else ''[]''),
       r_installation_id = a_installation_id a, r_runner_name = a_runner_name a,
       r_runner_id = a_runner_id a, r_jit = a_jit a, r_status = a_status a,
       r_created_at = a_created_at a, r_assigned_at = a_assigned_at a,
       r_started_at = a_started_at a, r_finished_at = a_finished_at a,
       r_agent_id = a_agent_id a, r_vm_id = a_vm_id a, r_warm_bind = a_warm_bind a,
       r_outcome = a_outcome a, r_error = a_error a, r_cache_hits = a_cache_hits a,
       r_cache_misses = a_cache_misses a, r_cache_bytes_in = a_cache_bytes_in a,
       r_cache_bytes_out = a_cache_bytes_out a, r_job_name = a_name a,
       r_workflow_name = a_workflow_name a \<rparr>"

definition rowToAssignment :: "AssignmentRow \<Rightarrow> assignment" where
  "rowToAssignment r =
     \<lparr> a_job_id = r_job_id r, a_run_id = r_run_id r, a_org = r_org r, a_repo = r_repo r,
       a_name = r_job_name r, a_workflow_name = r_workflow_name r,
       a_labels = (if r_labels_json r \<noteq> '''' \<and> r_labels_json r \<noteq> ''[]''
                   then (case json_read_strings (r_labels_json r) of None \<Rightarrow> [] | Some ls \<Rightarrow> ls)
                   else []),
       a_installation_id = r_installation_id r, a_runner_name = r_runner_name r,
       a_runner_id = r_runner_id r, a_jit = r_jit r, a_status = r_status r,
       a_created_at = r_created_at r, a_assigned_at = r_assigned_at r,
       a_started_at = r_started_at r, a_finished_at = r_finished_at r,
       a_agent_id = r_agent_id r, a_vm_id = r_vm_id r, a_warm_bind = r_warm_bind r,
       a_outcome = r_outcome r, a_error = r_error r, a_cache_hits = r_cache_hits r,
       a_cache_misses = r_cache_misses r, a_cache_bytes_in = r_cache_bytes_in r,
       a_cache_bytes_out = r_cache_bytes_out r \<rparr>"

section \<open>Statements\<close>

text \<open>The values the insert statement binds.\<close>

definition row_columns :: "AssignmentRow \<Rightarrow> table_row" where
  "row_columns r =
     \<lparr> r_job_id = r_job_id r, r_run_id = r_run_id r, r_org = r_org r, r_repo = r_repo r,
       r_labels_json = r_labels_json r, r_installation_id = r_installation_id r,
       r_runner_name = r_runner_name r, r_runner_id = r_runner_id r, r_jit = r_jit r,
       r_status = r_status r, r_created_at = formatStoredTime (r_created_at r),
       r_assigned_at = formatStoredTime (r_assigned_at r),
       r_started_at = formatStoredTime (r_started_at r),
       r_finished_at = formatStoredTime (r_finished_at r),
       r_agent_id = r_agent_id r, r_vm_id = r_vm_id r, r_warm_bind = (if r_warm_bind r then 1 else 0),
       r_outcome = r_outcome r, r_error = r_error r, r_cache_hits = r_cache_hits r,
       r_cache_misses = r_cache_misses r, r_cache_bytes_in = r_cache_bytes_in r,
       r_cache_bytes_out = r_cache_bytes_out r, r_job_name = r_job_name r,
       r_workflow_name = r_workflow_name r \<rparr>"

definition scanAssignment :: "table_row \<Rightarrow> AssignmentRow" where
  "scanAssignment c =
     \<lparr> r_job_id = r_job_id c, r_run_id = r_run_id c, r_org = r_org c, r_repo = r_repo c,
       r_labels_json = r_labels_json c, r_installation_id = r_installation_id c,
       r_runner_name = r_runner_name c, r_runner_id = r_runner_id c, r_jit = r_jit c,
       r_status = r_status c, r_created_at = parseStoredTime (r_created_at c),
       r_assigned_at = parseStoredTime (r_assigned_at c),
       r_started_at = parseStoredTime (r_started_at c),
       r_finished_at = parseStoredTime (r_finished_at c),
       r_agent_id = r_agent_id c, r_vm_id = r_vm_id c, r_warm_bind = (r_warm_bind c \<noteq> 0),
       r_outcome = r_outcome c, r_error = r_error c, r_cache_hits = r_cache_hits c,
       r_cache_misses = r_cache_misses c, r_cache_bytes_in = r_cache_bytes_in c,
       r_cache_bytes_out = r_cache_bytes_out c, r_job_name = r_job_name c,
       r_workflow_name = r_workflow_name c \<rparr>"

definition scrub_row :: "AssignmentRow \<Rightarrow> AssignmentRow" where
  "scrub_row r =
     (let r1 = (if r_status r = ''finished'' \<or> r_status r = ''failed'' then r\<lparr> r_jit := '''' \<rparr> else r)
      in if r_labels_json r1 = '''' then r1\<lparr> r_labels_json := ''[]'' \<rparr> else r1)"

definition UpsertAssignment :: "bool \<Rightarrow> AssignmentRow \<Rightarrow> table \<Rightarrow> db_error + table" where
  "UpsertAssignment ok r db =
     (if r_job_id r = 0 then Inl Job_id_required
      else if \<not> ok then Inl Statement_failed
      else Inr (AList.update (r_job_id r) (row_columns (scrub_row r)) db))"

definition GetAssignment :: "int \<Rightarrow> table \<Rightarrow> AssignmentRow option" where
  "GetAssignment j db = map_option scanAssignment (map_of db j)"

definition created_order :: "table_row \<Rightarrow> table_row \<Rightarrow> bool" where
  "created_order a b \<longleftrightarrow>
     text_less (r_created_at a) (r_created_at b) \<or>
     (r_created_at a = r_created_at b \<and> r_job_id a \<le> r_job_id b)"

definition ListAssignments :: "table \<Rightarrow> AssignmentRow list" where
  "ListAssignments db = map scanAssignment (isort_by created_order (map snd db))"

definition DeleteAssignment :: "bool \<Rightarrow> int \<Rightarrow> table \<Rightarrow> db_error + table" where
  "DeleteAssignment ok j db = (if ok then Inr (AList.delete j db) else Inl Statement_failed)"

definition old_row :: "string \<Rightarrow> table_row \<Rightarrow> bool" where
  "old_row cutoff c \<longleftrightarrow>
     (r_status c = ''finished'' \<or> r_status c = ''failed'') \<and>
     ((r_finished_at c \<noteq> '''' \<and> text_less (r_finished_at c) cutoff) \<or>
      (r_finished_at c = '''' \<and> r_created_at c \<noteq> '''' \<and> text_less (r_created_at c) cutoff))"

definition db_prune_finished ::
  "bool \<Rightarrow> gotime \<Rightarrow> duration \<Rightarrow> table \<Rightarrow> db_error + int \<times> table" where
  "db_prune_finished ok now older db =
     (if older \<le> 0 then Inr (0, db)
      else if \<not> ok then Inl Statement_failed
      else (let cutoff = rfc3339nano (now - older) in
            Inr (int (length (filter (\<lambda>(_, c). old_row cutoff c) db)),
                 filter (\<lambda>(_, c). \<not> old_row cutoff c) db)))"

section \<open>The persister\<close>

definition storePersister_Persist :: "bool \<Rightarrow> assignment \<Rightarrow> table \<Rightarrow> db_error + table" where
  "storePersister_Persist ok a db = UpsertAssignment ok (assignmentToRow a) db"

definition storePersister_LoadAll :: "table \<Rightarrow> assignment option list" where
  "storePersister_LoadAll db = map (\<lambda>r. Some (rowToAssignment r)) (ListAssignments db)"

text \<open>\<open>flushPersist\<close>: without a copy nothing is written; an error is logged and the table kept.\<close>

definition flushPersist :: "bool \<Rightarrow> assignment option \<Rightarrow> table \<Rightarrow> db_error option \<times> table" where
  "flushPersist ok f db =
     (case f of
        None \<Rightarrow> (None, db)
      | Some a \<Rightarrow>
          (case storePersister_Persist ok a db of
             Inl e \<Rightarrow> (Some e, db) | Inr db' \<Rightarrow> (None, db')))"

text \<open>A start of the control plane on an existing table: \<open>NewAssignmentStoreWithPersister\<close>.\<close>

definition NewAssignmentStoreWithPersister :: "table \<Rightarrow> assignment_store option" where
  "NewAssignmentStoreWithPersister db =
     loadLocked (Some (storePersister_LoadAll db)) NewAssignmentStore"

section \<open>Round trips\<close>

definition in_calendar :: "gotime \<Rightarrow> bool" where
  "in_calendar t \<longleftrightarrow> 0 \<le> t \<and> t < int (days_before_year 10000) * 86400 * 1000000000"

lemma in_calendar_roundtrip: "in_calendar t \<Longrightarrow> parseStoredTime (formatStoredTime t) = t"
  unfolding in_calendar_def by (intro stored_time_roundtrip_aux) auto

lemma in_calendar_zero: "in_calendar 0"
  using days_before_year_lower [of 9999] by (simp add: in_calendar_def)

definition row_in_calendar :: "AssignmentRow \<Rightarrow> bool" where
  "row_in_calendar r \<longleftrightarrow>
     in_calendar (r_created_at r) \<and> in_calendar (r_assigned_at r) \<and>
     in_calendar (r_started_at r) \<and> in_calendar (r_finished_at r)"

lemma scan_columns: "row_in_calendar r \<Longrightarrow> scanAssignment (row_columns r) = r"
  by (simp add: row_in_calendar_def scanAssignment_def row_columns_def in_calendar_roundtrip)

definition storable :: "assignment \<Rightarrow> bool" where
  "storable a \<longleftrightarrow>
     a_job_id a \<noteq> 0 \<and> in_calendar (a_created_at a) \<and> in_calendar (a_assigned_at a) \<and>
     in_calendar (a_started_at a) \<and> in_calendar (a_finished_at a)"

definition without_secret :: "assignment \<Rightarrow> assignment" where
  "without_secret a = (if terminal a then a\<lparr> a_jit := '''' \<rparr> else a)"

lemma json_strings_nonempty: "ls \<noteq> [] \<Longrightarrow> json_strings ls \<noteq> [] \<and> json_strings ls \<noteq> ''[]''"
  using json_strings_roundtrip [of ls] by (auto simp: json_read_strings_def json_strings_def)

lemma row_assignment: "rowToAssignment (assignmentToRow a) = a"
  by (simp add: rowToAssignment_def assignmentToRow_def json_strings_nonempty json_strings_roundtrip)

lemma labels_json_nonempty: "r_labels_json (assignmentToRow a) \<noteq> []"
  using json_strings_nonempty [of "a_labels a"] by (auto simp: assignmentToRow_def)

lemma scrub_assignmentToRow: "scrub_row (assignmentToRow a) = assignmentToRow (without_secret a)"
  using labels_json_nonempty [of a]
  by (simp add: scrub_row_def Let_def without_secret_def terminal_def status_defs assignmentToRow_def)

lemma job_id_simps [simp]:
  "r_job_id (assignmentToRow a) = a_job_id a" "a_job_id (without_secret a) = a_job_id a"
  "r_job_id (row_columns r) = r_job_id r" "r_job_id (scanAssignment c) = r_job_id c"
  "a_job_id (rowToAssignment r) = r_job_id r"
  by (simp_all add: assignmentToRow_def without_secret_def row_columns_def scanAssignment_def
      rowToAssignment_def)

lemma stored_form: "storable a \<Longrightarrow>
  rowToAssignment (scanAssignment (row_columns (scrub_row (assignmentToRow a)))) = without_secret a"
proof -
  assume "storable a"
  then have "row_in_calendar (assignmentToRow (without_secret a))"
    by (simp add: row_in_calendar_def storable_def assignmentToRow_def without_secret_def)
  then show ?thesis by (simp add: scrub_assignmentToRow scan_columns row_assignment)
qed

text \<open>
  A persisted job is read back as it was, labels and timestamps included; only the secret of a
  finished or failed job is dropped, on disk as well.
\<close>

theorem persist_get_roundtrip:
  assumes "storable a"
  shows "case storePersister_Persist True a db of
      Inl e \<Rightarrow> False
    | Inr db' \<Rightarrow> map_option rowToAssignment (GetAssignment (a_job_id a) db') = Some (without_secret a)
        \<and> (\<forall>k. k = a_job_id a \<or> GetAssignment k db' = GetAssignment k db)"
  using assms stored_form [OF assms]
  by (simp add: storePersister_Persist_def UpsertAssignment_def GetAssignment_def storable_def
      AList.update_conv')

section \<open>The persister interface\<close>

text \<open>
  What \<open>AssignmentStore\<close> relies on: a persisted copy replaces what is held for its job and nothing
  else, and \<open>LoadAll\<close> returns each held job once.
\<close>

locale assignment_persister =
  fixes persist :: "assignment \<Rightarrow> 'db \<Rightarrow> 'db"
    and load_all :: "'db \<Rightarrow> assignment option list"
    and contents :: "'db \<Rightarrow> int \<Rightarrow> assignment option"
    and good :: "assignment \<Rightarrow> bool"
    and okdb :: "'db \<Rightarrow> bool"
  assumes persist_ok: "okdb db \<Longrightarrow> good a \<Longrightarrow> okdb (persist a db)"
    and persist_contents:
      "okdb db \<Longrightarrow> good a \<Longrightarrow> contents (persist a db) = (contents db)(a_job_id a \<mapsto> a)"
    and load_distinct:
      "okdb db \<Longrightarrow> distinct (map a_job_id (map the (filter loadable (load_all db))))"
    and load_contents:
      "okdb db \<Longrightarrow> Some a \<in> set (load_all db) \<longleftrightarrow> contents db (a_job_id a) = Some a"
    and contents_key: "okdb db \<Longrightarrow> contents db j = Some a \<Longrightarrow> a_job_id a = j \<and> j \<noteq> 0"
begin

definition persist_opt :: "assignment option \<Rightarrow> 'db \<Rightarrow> 'db" where
  "persist_opt f db = (case f of None \<Rightarrow> db | Some a \<Rightarrow> persist a db)"

text \<open>An operation and the write of its copy, with nothing in between.\<close>

definition through :: "gotime \<Rightarrow> store_op \<Rightarrow> assignment_store \<times> 'db \<Rightarrow> assignment_store \<times> 'db" where
  "through now op x =
     (let (e, f, s') = run_op now op (fst x) in (s', persist_opt f (snd x)))"

definition synced :: "assignment_store \<times> 'db \<Rightarrow> bool" where
  "synced x \<longleftrightarrow> store_inv (fst x) \<and> okdb (snd x) \<and> contents (snd x) = lookup_job (fst x)"

lemma through_synced:
  assumes x: "synced x" and np: "\<not> is_prune op"
    and good: "\<And>e a s'. run_op now op (fst x) = (e, Some a, s') \<Longrightarrow> good a"
  shows "synced (through now op x)"
proof -
  obtain e f s' where r: "run_op now op (fst x) = (e, f, s')" by (cases "run_op now op (fst x)")
  have "store_inv (op_store now op (fst x))" using x by (intro op_store_inv) (simp add: synced_def)
  then have inv: "store_inv s'" by (simp add: op_store_def r)
  have "lookup_job s' = after_flush (lookup_job (fst x)) f"
    using x np r by (intro flushed_copy) (auto simp: synced_def)
  with x inv good r show ?thesis
    by (cases f) (auto simp: synced_def through_def persist_opt_def persist_ok persist_contents)
qed

lemma restart:
  assumes "okdb db"
  shows "\<exists>s'. loadLocked (Some (load_all db)) s = Some s' \<and> store_inv s' \<and> lookup_job s' = contents db"
proof -
  obtain s' where s': "loadLocked (Some (load_all db)) s = Some s'" "store_inv s'"
    and l: "\<And>j a. lookup_job s' j = Some a \<longleftrightarrow> Some a \<in> set (load_all db) \<and> a_job_id a = j \<and> j \<noteq> 0"
    using load_queue [OF load_distinct [OF assms], of s] by blast
  have "lookup_job s' j = contents db j" for j
  proof (cases "contents db j")
    case None
    have "contents db j = Some a" if "lookup_job s' j = Some a" for a
      using that unfolding l load_contents [OF assms] by blast
    with None show ?thesis by (cases "lookup_job s' j") auto
  next
    case (Some a)
    with l [of j a] load_contents [OF assms] contents_key [OF assms Some] show ?thesis by auto
  qed
  with s' show ?thesis by blast
qed

end

section \<open>The SQLite adapter as a persister\<close>

definition table_ok :: "table \<Rightarrow> bool" where
  "table_ok db \<longleftrightarrow> distinct (map fst db) \<and> list_all (\<lambda>(k, c). r_job_id c = k \<and> k \<noteq> 0) db"

definition table_contents :: "table \<Rightarrow> int \<Rightarrow> assignment option" where
  "table_contents db j = map_option rowToAssignment (GetAssignment j db)"

definition persist_row :: "assignment \<Rightarrow> table \<Rightarrow> table" where
  "persist_row a db = snd (flushPersist True (Some a) db)"

definition persistable :: "assignment \<Rightarrow> bool" where
  "persistable a \<longleftrightarrow> storable a \<and> no_secret a"

lemma persistable_without_secret: "persistable a \<Longrightarrow> without_secret a = a"
  by (simp add: persistable_def without_secret_def no_secret_def split: if_splits)

lemma persist_row_update:
  "storable a \<Longrightarrow>
   persist_row a db = AList.update (a_job_id a) (row_columns (scrub_row (assignmentToRow a))) db"
  by (simp add: persist_row_def flushPersist_def storePersister_Persist_def UpsertAssignment_def
      storable_def)

lemma scrub_job_id [simp]: "r_job_id (scrub_row r) = r_job_id r"
  by (simp add: scrub_row_def Let_def)

lemma table_ok_persist: "table_ok db \<Longrightarrow> storable a \<Longrightarrow> table_ok (persist_row a db)"
  unfolding table_ok_def persist_row_update
  by (auto simp: AList.distinct_update storable_def intro!: list_all_update)

lemma table_contents_persist:
  "storable a \<Longrightarrow> table_contents (persist_row a db) = (table_contents db)(a_job_id a \<mapsto> without_secret a)"
  by (auto simp: fun_eq_iff table_contents_def GetAssignment_def persist_row_update
      AList.update_conv' stored_form)

lemma LoadAll_ids:
  "map a_job_id (map the (storePersister_LoadAll db)) = map r_job_id (isort_by created_order (map snd db))"
  by (simp add: storePersister_LoadAll_def ListAssignments_def)

lemma table_ok_ids: "table_ok db \<Longrightarrow> map r_job_id (map snd db) = map fst db"
  by (induction db) (auto simp: table_ok_def)

lemma LoadAll_distinct:
  assumes "table_ok db"
  shows "distinct (map a_job_id (map the (storePersister_LoadAll db)))"
  using assms unfolding LoadAll_ids distinct_map_isort_by table_ok_ids [OF assms]
  by (simp add: table_ok_def)

lemma LoadAll_contents:
  assumes "table_ok db"
  shows "Some a \<in> set (storePersister_LoadAll db) \<longleftrightarrow> table_contents db (a_job_id a) = Some a"
proof
  assume "Some a \<in> set (storePersister_LoadAll db)"
  then obtain k c where kc: "(k, c) \<in> set db" and a: "a = rowToAssignment (scanAssignment c)"
    by (force simp: storePersister_LoadAll_def ListAssignments_def image_iff)
  have "map_of db k = Some c" using assms kc by (simp add: table_ok_def)
  moreover have "r_job_id c = k" using assms kc by (auto simp: table_ok_def list_all_iff)
  ultimately show "table_contents db (a_job_id a) = Some a"
    by (simp add: a table_contents_def GetAssignment_def)
next
  assume "table_contents db (a_job_id a) = Some a"
  then obtain c where "map_of db (a_job_id a) = Some c" and a: "a = rowToAssignment (scanAssignment c)"
    by (auto simp: table_contents_def GetAssignment_def)
  then have "c \<in> snd ` set db" by (force dest: map_of_SomeD)
  then show "Some a \<in> set (storePersister_LoadAll db)"
    by (auto simp: storePersister_LoadAll_def ListAssignments_def a)
qed

interpretation sqlite: assignment_persister persist_row storePersister_LoadAll table_contents
  persistable table_ok
proof
  fix db :: table and a :: assignment and j :: int
  assume ok: "table_ok db"
  show "table_ok (persist_row a db)" if "persistable a"
    using ok that by (simp add: table_ok_persist persistable_def)
  show "table_contents (persist_row a db) = (table_contents db)(a_job_id a \<mapsto> a)" if "persistable a"
    using that persistable_without_secret [OF that]
    by (simp add: table_contents_persist persistable_def)
  have "distinct (map (a_job_id \<circ> the) (filter loadable (storePersister_LoadAll db)))"
    using LoadAll_distinct [OF ok] by (simp add: distinct_map_filter)
  then show "distinct (map a_job_id (map the (filter loadable (storePersister_LoadAll db))))" by simp
  show "Some a \<in> set (storePersister_LoadAll db) \<longleftrightarrow> table_contents db (a_job_id a) = Some a"
    using ok by (rule LoadAll_contents)
  show "a_job_id a = j \<and> j \<noteq> 0" if "table_contents db j = Some a"
    using that ok
    by (auto simp: table_contents_def GetAssignment_def table_ok_def list_all_iff dest!: map_of_SomeD)
qed

interpretation persistables: job_invariant persistable in_calendar
  by unfold_locales
    (simp_all add: persistable_def storable_def no_secret_def terminal_def assign_to_def
      start_record_def finish_record_def close_record_def Let_def in_calendar_zero
      split: if_split_asm)

definition op_persistable :: "gotime \<Rightarrow> store_op \<Rightarrow> bool" where
  "op_persistable now op \<longleftrightarrow> in_calendar now \<and>
     (case op of Op_put a \<Rightarrow> persistable a | Op_prune _ \<Rightarrow> False | _ \<Rightarrow> True)"

text \<open>The control plane run with every write finished before the next operation.\<close>

definition run_through ::
  "(gotime \<times> store_op) list \<Rightarrow> assignment_store \<times> table \<Rightarrow> assignment_store \<times> table" where
  "run_through ops x = fold (\<lambda>(now, op) y. sqlite.through now op y) ops x"

lemma through_step:
  assumes "sqlite.synced x" and "persistables.all_jobs (fst x)" and "op_persistable now op"
  shows "sqlite.synced (sqlite.through now op x) \<and> persistables.all_jobs (fst (sqlite.through now op x))"
proof -
  have now: "in_calendar now" and np: "\<not> is_prune op" and put: "\<And>a. op = Op_put a \<Longrightarrow> persistable a"
    using assms(3) by (auto simp: op_persistable_def is_prune_def split: store_op.splits)
  have fst: "fst (sqlite.through now op x) = op_store now op (fst x)"
    by (simp add: sqlite.through_def op_store_def split_def Let_def)
  have inv: "store_inv (fst x)" using assms(1) by (simp add: sqlite.synced_def)
  have jobs: "persistables.all_jobs (op_store now op (fst x))"
    by (rule persistables.all_jobs_step [OF assms(2) now put])
  have "persistable a" if r: "run_op now op (fst x) = (e, Some a, s')" for e a s'
    using flushed_in_store [OF inv np r] jobs
    by (auto simp: op_store_def r intro: persistables.all_jobsD)
  with assms(1) np jobs fst show ?thesis by (auto intro: sqlite.through_synced)
qed

lemma run_through_synced:
  "sqlite.synced x \<Longrightarrow> persistables.all_jobs (fst x) \<Longrightarrow>
   list_all (\<lambda>(now, op). op_persistable now op) ops \<Longrightarrow> sqlite.synced (run_through ops x)"
  unfolding run_through_def
proof (induction ops arbitrary: x)
  case (Cons o1 ops)
  obtain now op where "o1 = (now, op)" by (cases o1)
  with Cons through_step [of x now op] show ?case by simp
qed simp


lemma persist_get_roundtrip_witness:
  "storable (demo_job 7 ''o/a'') \<and>
   (case storePersister_Persist True (demo_job 7 ''o/a'') [] of
      Inl e \<Rightarrow> False
    | Inr db' \<Rightarrow> map_option rowToAssignment (GetAssignment 7 db') = Some (without_secret (demo_job 7 ''o/a'')))"
proof -
  have "in_calendar 7" using in_calendar_zero by (simp add: in_calendar_def)
  then have st: "storable (demo_job 7 ''o/a'')"
    by (simp add: storable_def demo_job_def zero_assignment_def in_calendar_zero)
  moreover have "a_job_id (demo_job 7 ''o/a'') = 7" by (simp add: demo_job_def)
  ultimately show ?thesis using persist_get_roundtrip [OF st, of "[]"] by (simp split: sum.splits)
qed

lemma in_calendar_small: "0 \<le> t \<Longrightarrow> t \<le> 1000000000 \<Longrightarrow> in_calendar t"
  using days_before_year_lower [of 9999] by (simp add: in_calendar_def)

lemma demo_trace_persistable: "list_all (\<lambda>(now, op). op_persistable now op) demo_trace"
  by (simp add: demo_trace_def op_persistable_def in_calendar_small persistable_def storable_def
      no_secret_def terminal_def demo_job_def zero_assignment_def)


section \<open>Writes that overtake each other\<close>

text \<open>
  The code unlocks the store before it writes: the copies of completed operations are in flight, and
  the goroutines write them in any order. A state is the store, the copies in flight, the table.
\<close>

inductive async_step ::
  "assignment_store \<times> assignment list \<times> table \<Rightarrow> assignment_store \<times> assignment list \<times> table \<Rightarrow> bool"
where
  operate: "run_op now op s = (e, f, s') \<Longrightarrow>
    async_step (s, fl, db) (s', fl @ (case f of None \<Rightarrow> [] | Some a \<Rightarrow> [a]), db)"
| flush: "i < length fl \<Longrightarrow>
    async_step (s, fl, db) (s, remove_nth i fl, snd (flushPersist True (Some (fl ! i)) db))"

inductive async_reach :: "assignment_store \<times> assignment list \<times> table \<Rightarrow> bool" where
  start: "async_reach (NewAssignmentStore, [], [])"
| step: "async_reach x \<Longrightarrow> async_step x y \<Longrightarrow> async_reach y"

inductive_cases async_stepE: "async_step x y"

definition race_put :: assignment_store where
  "race_put = op_store 1 (Op_put (demo_job 7 ''o/a'')) NewAssignmentStore"

definition race_claim :: assignment_store where
  "race_claim = op_store 2 (Op_claim ''ag'' []) race_put"

definition race_done :: assignment_store where
  "race_done = op_store 3 (Op_finished 7 ''ag'' ''success'' '''' False '''') race_claim"

definition race_copy :: "assignment_store \<Rightarrow> assignment" where
  "race_copy s = the (lookup_job s 7)"

definition race_table :: table where
  "race_table = persist_row (race_copy race_claim) (persist_row (race_copy race_done)
     (persist_row (race_copy race_put) []))"

lemma race_runs:
  "run_op 1 (Op_put (demo_job 7 ''o/a'')) NewAssignmentStore = (None, Some (race_copy race_put), race_put)"
  "run_op 2 (Op_claim ''ag'' []) race_put = (None, Some (race_copy race_claim), race_claim)"
  "run_op 3 (Op_finished 7 ''ag'' ''success'' '''' False '''') race_claim =
     (None, Some (race_copy race_done), race_done)"
  by code_simp+

lemma race_reached: "async_reach (race_done, [], race_table)"
proof -
  have "async_reach (race_put, [race_copy race_put], [])"
    using async_reach.step [OF async_reach.start async_step.operate [OF race_runs(1)]] by simp
  then have "async_reach (race_put, [], persist_row (race_copy race_put) [])"
    by (rule async_reach.step)
      (use async_step.flush [of 0 "[race_copy race_put]"] in \<open>simp add: persist_row_def remove_nth_def\<close>)
  then have "async_reach (race_claim, [race_copy race_claim], persist_row (race_copy race_put) [])"
    by (rule async_reach.step) (use async_step.operate [OF race_runs(2), of "[]"] in simp)
  then have "async_reach (race_done, [race_copy race_claim, race_copy race_done],
      persist_row (race_copy race_put) [])"
    by (rule async_reach.step)
      (use async_step.operate [OF race_runs(3), of "[race_copy race_claim]"] in simp)
  then have "async_reach (race_done, [race_copy race_claim],
      persist_row (race_copy race_done) (persist_row (race_copy race_put) []))"
    by (rule async_reach.step)
      (use async_step.flush [of 1 "[race_copy race_claim, race_copy race_done]"]
        in \<open>simp add: persist_row_def remove_nth_def\<close>)
  then show ?thesis
    by (rule async_reach.step)
      (use async_step.flush [of 0 "[race_copy race_claim]"]
        in \<open>simp add: persist_row_def remove_nth_def race_table_def\<close>)
qed

text \<open>
  The writes are not ordered: a reachable state with no write in flight has a finished job in
  memory whose row in the table is the older, assigned one; a restart brings the job back as
  assigned, with its secret.
\<close>

theorem late_write_wins:
  "\<exists>s db. async_reach (s, [], db) \<and> status_of s 7 = Some AssignmentFinished \<and>
     map_option a_status (table_contents db 7) = Some AssignmentAssigned \<and>
     map_option a_jit (table_contents db 7) = Some ''jit''"
proof -
  have copies: "race_copy race_put = demo_job 7 ''o/a''"
    "race_copy race_claim = assign_to 2 ''ag'' (demo_job 7 ''o/a'')"
    "race_copy race_done = finish_record 3 ''ag'' ''success'' '''' False ''''
       (assign_to 2 ''ag'' (demo_job 7 ''o/a''))"
    by code_simp+
  have "storable (race_copy race_put)" "storable (race_copy race_claim)" "storable (race_copy race_done)"
    by (simp_all add: copies storable_def demo_job_def zero_assignment_def assign_to_def
        finish_record_def Let_def in_calendar_small)
  then have "table_contents race_table 7 = Some (without_secret (race_copy race_claim))"
    by (simp add: race_table_def table_contents_persist copies assign_to_def demo_job_def)
  moreover have "without_secret (race_copy race_claim) = race_copy race_claim"
    by (simp add: copies without_secret_def terminal_def)
  moreover have "status_of race_done 7 = Some AssignmentFinished" by code_simp
  ultimately have "status_of race_done 7 = Some AssignmentFinished \<and>
     map_option a_status (table_contents race_table 7) = Some AssignmentAssigned \<and>
     map_option a_jit (table_contents race_table 7) = Some ''jit''"
    by (simp add: copies) (simp add: assign_to_def demo_job_def)
  with race_reached show ?thesis by blast
qed

end
