(* ===== verification/Shapes.thy ===== *)
theory Shapes
  imports Base
begin

text \<open>
  \<open>internal/agent/shape.go\<close>: guest sizes and the \<open>runs-on\<close> labels that name them. The regular
  expression is written out as the matcher it denotes; its case-insensitive classes are ASCII. Sizes
  are 64-bit integers, so the product of a label's GiB with 1024 wraps.
\<close>

section \<open>Data\<close>

definition defaultImageToken :: string where
  "defaultImageToken = ''ubuntu-2404''"

definition ExclusiveJobMiB :: int where
  "ExclusiveJobMiB = 12 * 1024"

definition ExclusiveShape :: "int \<Rightarrow> bool" where
  "ExclusiveShape mem \<longleftrightarrow> ExclusiveJobMiB \<le> mem"

record VMShape =
  vs_label :: string
  vs_vcpus :: int
  vs_memory :: int
  vs_min_ready :: int

type_synonym shapeKey = "int \<times> int"

definition shape_key :: "VMShape \<Rightarrow> shapeKey" where
  "shape_key s = (vs_vcpus s, vs_memory s)"

section \<open>Labels\<close>

definition ShapeLabel :: "int \<Rightarrow> int \<Rightarrow> string" where
  "ShapeLabel vcpus mem =
     (let v = (if vcpus \<le> 0 then 2 else vcpus);
          m = (if mem \<le> 0 then 2048 else mem)
      in if v = 4 \<and> m = 8192 then ''temperci-4vcpu-'' @ defaultImageToken
         else (let g0 = m sdiv 1024; g = (if g0 < 1 then 1 else g0)
               in ''temperci-'' @ itoa v @ ''vcpu-'' @ itoa g @ ''g-'' @ defaultImageToken))"

definition token_char :: "char \<Rightarrow> bool" where
  "token_char c \<longleftrightarrow>
     is_digit c \<or> c = CHR ''.'' \<or> c = CHR ''-'' \<or>
     (let n = (of_char (lower_char c) :: nat) in 97 \<le> n \<and> n \<le> 122)"

text \<open>\<open>(?:-([a-z0-9.-]+))?$\<close>\<close>

definition label_tail :: "string \<Rightarrow> bool" where
  "label_tail r \<longleftrightarrow>
     (case r of
        [] \<Rightarrow> True
      | c # t \<Rightarrow> c = CHR ''-'' \<and> t \<noteq> [] \<and> list_all token_char t)"

text \<open>\<open>-(\d+)g\<close> with the tail after it; the digits.\<close>

definition label_memory :: "string \<Rightarrow> string option" where
  "label_memory r =
     (case r of
        [] \<Rightarrow> None
      | c # t \<Rightarrow>
          (let ds = takeWhile is_digit t; u = dropWhile is_digit t in
           if c = CHR ''-'' \<and> ds \<noteq> [] \<and> u \<noteq> [] \<and> lower_char (hd u) = CHR ''g'' \<and> label_tail (tl u)
           then Some ds else None))"

text \<open>The match of \<open>shapeLabelRe\<close>: the two captured digit strings, the second empty when absent.\<close>

definition match_shape_label :: "string \<Rightarrow> (string \<times> string) option" where
  "match_shape_label s =
     (if to_lower (take 9 s) \<noteq> ''temperci-'' then None
      else let ds = takeWhile is_digit (drop 9 s); r = dropWhile is_digit (drop 9 s) in
        if ds = [] \<or> to_lower (take 4 r) \<noteq> ''vcpu'' then None
        else case label_memory (drop 4 r) of
          Some g \<Rightarrow> Some (ds, g)
        | None \<Rightarrow> if label_tail (drop 4 r) then Some (ds, '''') else None)"

definition ParseShapeLabel :: "string \<Rightarrow> int \<times> int \<times> bool" where
  "ParseShapeLabel label =
     (case match_shape_label (trim_space label) of
        None \<Rightarrow> (0, 0, False)
      | Some (m1, m2) \<Rightarrow>
          (case atoi m1 of
             None \<Rightarrow> (0, 0, False)
           | Some v \<Rightarrow>
               if v \<le> 0 then (0, 0, False)
               else if m2 \<noteq> '''' then
                 (case atoi m2 of
                    None \<Rightarrow> (0, 0, False)
                  | Some g \<Rightarrow> if g \<le> 0 then (0, 0, False) else (v, g, True))
               else (v, 0, True)))"

section \<open>Resolving a job's labels\<close>

definition defaultShape :: "VMShape list \<Rightarrow> int \<Rightarrow> int \<Rightarrow> VMShape" where
  "defaultShape catalog dv dm =
     (case catalog of
        s # _ \<Rightarrow> s
      | [] \<Rightarrow>
          (let v = (if dv \<le> 0 then 2 else dv); m = (if dm \<le> 0 then 2048 else dm)
           in \<lparr> vs_label = ShapeLabel v m, vs_vcpus = v, vs_memory = m, vs_min_ready = 0 \<rparr>))"

definition findShape :: "VMShape list \<Rightarrow> int \<Rightarrow> int \<Rightarrow> VMShape option" where
  "findShape catalog v m = find (\<lambda>s. vs_vcpus s = v \<and> vs_memory s = m) catalog"

definition findShapeByVCPU :: "VMShape list \<Rightarrow> int \<Rightarrow> VMShape option" where
  "findShapeByVCPU catalog v = find (\<lambda>s. vs_vcpus s = v) catalog"

fun resolve_labels :: "string list \<Rightarrow> VMShape list \<Rightarrow> VMShape \<Rightarrow> VMShape" where
  "resolve_labels [] catalog dflt = dflt"
| "resolve_labels (raw # rest) catalog dflt =
     (case ParseShapeLabel raw of
        (v, g, ok) \<Rightarrow>
          if \<not> ok then resolve_labels rest catalog dflt
          else
            (let mem = (if g = 0
                        then (case findShapeByVCPU catalog v of
                                Some s \<Rightarrow> vs_memory s | None \<Rightarrow> vs_memory dflt)
                        else wrap64 (g * 1024))
             in case findShape catalog v mem of
                  Some s \<Rightarrow> s
                | None \<Rightarrow> \<lparr> vs_label = ShapeLabel v mem, vs_vcpus = v, vs_memory = mem,
                             vs_min_ready = 0 \<rparr>))"

definition ResolveJobShape :: "string list \<Rightarrow> VMShape list \<Rightarrow> int \<Rightarrow> int \<Rightarrow> VMShape" where
  "ResolveJobShape labels catalog dv dm = resolve_labels labels catalog (defaultShape catalog dv dm)"

section \<open>Lemmas\<close>

lemma takeWhile_digits: "list_all is_digit ds \<Longrightarrow> \<not> is_digit c \<Longrightarrow> takeWhile is_digit (ds @ c # r) = ds"
  and dropWhile_digits: "list_all is_digit ds \<Longrightarrow> \<not> is_digit c \<Longrightarrow> dropWhile is_digit (ds @ c # r) = c # r"
  by (induction ds) auto

lemma itoa_digits: "0 \<le> n \<Longrightarrow> list_all is_digit (itoa n)"
  by (auto simp: itoa_def list_all_iff dest: nat_digits_digits)

lemma label_chars:
  "\<not> is_digit (CHR ''v'')" "\<not> is_digit (CHR ''g'')" "lower_char (CHR ''g'') = CHR ''g''"
  by code_simp+

lemma default_token_tail: "label_tail (CHR ''-'' # defaultImageToken)"
  by code_simp

lemma match_full_label:
  assumes "0 \<le> v" and "0 \<le> g"
  shows "match_shape_label (''temperci-'' @ itoa v @ ''vcpu-'' @ itoa g @ ''g-'' @ defaultImageToken)
    = Some (itoa v, itoa g)"
proof -
  let ?r = "''vcpu-'' @ itoa g @ ''g-'' @ defaultImageToken"
  let ?s = "''temperci-'' @ itoa v @ ?r"
  have "to_lower (take 9 ?s) = ''temperci-''" "drop 9 ?s = itoa v @ ?r"
    by (simp_all add: to_lower_Cons lower_char_def)
  moreover have "takeWhile is_digit (itoa v @ ?r) = itoa v" "dropWhile is_digit (itoa v @ ?r) = ?r"
    using takeWhile_digits [OF itoa_digits [OF assms(1)] label_chars(1)]
      dropWhile_digits [OF itoa_digits [OF assms(1)] label_chars(1)] by simp_all
  moreover have "to_lower (take 4 ?r) = ''vcpu''" by (simp add: to_lower_Cons lower_char_def)
  moreover have "label_memory (drop 4 ?r) = Some (itoa g)"
    using takeWhile_digits [OF itoa_digits [OF assms(2)] label_chars(2)]
      dropWhile_digits [OF itoa_digits [OF assms(2)] label_chars(2)] default_token_tail
    by (simp add: label_memory_def label_chars)
  ultimately show ?thesis by (simp add: match_shape_label_def Let_def)
qed

lemma shape_label_trim:
  "trim_space (''temperci-'' @ x @ ''-'' @ defaultImageToken) = ''temperci-'' @ x @ ''-'' @ defaultImageToken"
  by (rule trim_space_graphic) (simp_all add: defaultImageToken_def space_runes_def)

lemma parse_full_label:
  assumes "0 < v" "0 < g" and "v < 2 ^ 63" "g < 2 ^ 63"
  shows "ParseShapeLabel (''temperci-'' @ itoa v @ ''vcpu-'' @ itoa g @ ''g-'' @ defaultImageToken) = (v, g, True)"
proof -
  have "trim_space (''temperci-'' @ itoa v @ ''vcpu-'' @ itoa g @ ''g-'' @ defaultImageToken)
      = ''temperci-'' @ itoa v @ ''vcpu-'' @ itoa g @ ''g-'' @ defaultImageToken"
    using shape_label_trim [of "itoa v @ ''vcpu-'' @ itoa g @ ''g''"] by simp
  then have m: "match_shape_label (trim_space (''temperci-'' @ itoa v @ ''vcpu-'' @ itoa g @ ''g-'' @
      defaultImageToken)) = Some (itoa v, itoa g)"
    using match_full_label [of v g] assms by (simp only:)
  show ?thesis
    unfolding ParseShapeLabel_def m using assms by (simp add: atoi_itoa)
qed

text \<open>
  The label of a size names that size: a shape of positive vCPUs and whole GiB, given as the
  label it is advertised under, is resolved to a guest of exactly those vCPUs and that memory, whatever
  the catalog, unless it is the one size whose label leaves the memory out.
\<close>

theorem shape_label_resolves:
  assumes "0 < v" and "0 < g" and "v < 2 ^ 63" and "g * 1024 < 2 ^ 63" and "(v, g) \<noteq> (4, 8)"
  shows "shape_key (ResolveJobShape [ShapeLabel v (g * 1024)] catalog dv dm) = (v, g * 1024)"
proof -
  have "g * 1024 sdiv 1024 = g" using assms by (simp add: signed_divide_int_def)
  then have "ShapeLabel v (g * 1024) = ''temperci-'' @ itoa v @ ''vcpu-'' @ itoa g @ ''g-'' @ defaultImageToken"
    using assms by (auto simp: ShapeLabel_def Let_def)
  then have "ParseShapeLabel (ShapeLabel v (g * 1024)) = (v, g, True)"
    using parse_full_label [of v g] assms by simp
  moreover have "wrap64 (g * 1024) = g * 1024" using assms by (intro wrap64_id) auto
  ultimately show ?thesis
    using assms
    by (auto simp: ResolveJobShape_def Let_def shape_key_def findShape_def dest: find_SomeD
        split: option.splits)
qed

theorem shape_label_resolves_witness:
  "shape_key (ResolveJobShape [ShapeLabel 2 (16 * 1024)] [] 0 0) = (2, 16 * 1024)"
  by (rule shape_label_resolves) simp_all

text \<open>
  A label's memory is not checked for range: a label that asks for 2 to the 53 GiB resolves to a
  negative size, and one that asks for 2 to the 54 plus 1 GiB to a guest of 1 GiB.
\<close>

theorem shape_memory_wraps:
  "vs_memory (ResolveJobShape [''temperci-2vcpu-9007199254740992g''] catalog dv dm) = - (2 ^ 63) \<and>
   vs_memory (ResolveJobShape [''temperci-2vcpu-18014398509481985g''] catalog dv dm) = 1024"
proof -
  have p: "ParseShapeLabel ''temperci-2vcpu-9007199254740992g'' = (2, 9007199254740992, True)"
    "ParseShapeLabel ''temperci-2vcpu-18014398509481985g'' = (2, 18014398509481985, True)"
    by code_simp+
  have w: "wrap64 (9007199254740992 * 1024) = - (2 ^ 63)" "wrap64 (18014398509481985 * 1024) = 1024"
    by (simp_all add: wrap64_def)
  show ?thesis
    unfolding ResolveJobShape_def resolve_labels.simps p
    using w by (auto simp: Let_def findShape_def dest: find_SomeD split: option.splits)
qed

text \<open>
  The default size's label leaves the memory out and takes it from the first catalog entry with four
  vCPUs: with a larger such entry listed first, the label of the 8 GiB shape resolves to the larger one.
\<close>

theorem default_label_takes_first_four_vcpu:
  assumes "find (\<lambda>s. vs_vcpus s = 4) catalog = Some s"
  shows "shape_key (ResolveJobShape [ShapeLabel 4 8192] catalog dv dm) = (4, vs_memory s)"
proof -
  have "ParseShapeLabel (ShapeLabel 4 8192) = (4, 0, True)" by code_simp
  then show ?thesis
    using assms
    by (auto simp: ResolveJobShape_def Let_def shape_key_def findShape_def findShapeByVCPU_def
        dest: find_SomeD split: option.splits)
qed

theorem default_label_takes_first_four_vcpu_witness:
  "shape_key (ResolveJobShape [ShapeLabel 4 8192]
     [\<lparr> vs_label = ''big'', vs_vcpus = 4, vs_memory = 16384, vs_min_ready = 0 \<rparr>,
      \<lparr> vs_label = ''std'', vs_vcpus = 4, vs_memory = 8192, vs_min_ready = 1 \<rparr>] 0 0) = (4, 16384)"
  using default_label_takes_first_four_vcpu
    [of "[\<lparr> vs_label = ''big'', vs_vcpus = 4, vs_memory = 16384, vs_min_ready = 0 \<rparr>,
          \<lparr> vs_label = ''std'', vs_vcpus = 4, vs_memory = 8192, vs_min_ready = 1 \<rparr>]"]
  by simp

end
