(* ===== verification/HostAdmission.thy ===== *)
theory HostAdmission
  imports Shapes
begin

text \<open>
  \<open>internal/agent/admission.go\<close> and the pool settings of \<open>internal/agent/agent.go\<close>: how many guests fit
  on a host, whether one more may be created, and how the pool's targets are lowered to the host. Every
  sum and product is taken in 64 bits. A file's size and block count, which \<open>os.Stat\<close> gives, are
  arguments.
\<close>

section \<open>Data\<close>

record HostInventory =
  inv_ram_total :: int
  inv_ram_avail :: int
  inv_disk_total :: int
  inv_disk_free :: int
  inv_num_cpu :: int

record Admission =
  ad_memory :: int
  ad_disk :: int
  ad_reserve_ram :: int
  ad_reserve_disk :: int

record AdmitDecision =
  dec_ok :: bool
  dec_reason :: string

definition OverlaySlopMiB :: int where
  "OverlaySlopMiB = 256"

definition ReasonRAMCommitted :: string where "ReasonRAMCommitted = ''ram_committed''"
definition ReasonRAMAvail :: string where "ReasonRAMAvail = ''ram_available''"
definition ReasonDiskFree :: string where "ReasonDiskFree = ''disk_free''"
definition ReasonRAMFit :: string where "ReasonRAMFit = ''ram''"
definition ReasonDiskFit :: string where "ReasonDiskFit = ''disk''"

record PoolConfig =
  pc_min_ready :: int
  pc_max_ready :: int
  pc_max_total :: int
  pc_vcpus :: int
  pc_memory :: int
  pc_disk :: int
  pc_reserve_ram :: int
  pc_reserve_disk :: int
  pc_image :: string
  pc_kernel :: string
  pc_idle_recycle :: duration
  pc_reconcile_interval :: duration
  pc_retry_base :: duration
  pc_retry_max :: duration
  pc_bind_wait :: duration
  pc_guest_ready_wait :: duration
  pc_shapes :: "VMShape list"

section \<open>Operations\<close>

definition ad_mem :: "Admission \<Rightarrow> int" where
  "ad_mem a = (if ad_memory a \<le> 0 then 2048 else ad_memory a)"

definition MaxFit :: "Admission \<Rightarrow> HostInventory \<Rightarrow> int \<times> string" where
  "MaxFit a h =
     (let u0 = wrap64 (inv_ram_total h - ad_reserve_ram a);
          usable = (if u0 < 0 then 0 else u0);
          n = usable sdiv ad_mem a
      in if ad_disk a > 0 then
           (let d0 = wrap64 (inv_disk_free h - ad_reserve_disk a);
                usable_disk = (if d0 < 0 then 0 else d0);
                disk_fit = usable_disk sdiv ad_disk a
            in if disk_fit < n then (disk_fit, ReasonDiskFit) else (n, ReasonRAMFit))
         else (n, ReasonRAMFit))"

definition CanCreateMemory :: "Admission \<Rightarrow> HostInventory \<Rightarrow> int \<Rightarrow> int \<Rightarrow> AdmitDecision" where
  "CanCreateMemory a h committed nxt =
     (let need = (if nxt \<le> 0 then ad_mem a else nxt);
          com = (if committed < 0 then 0 else committed)
      in if wrap64 (com + need) > wrap64 (inv_ram_total h - ad_reserve_ram a)
         then \<lparr> dec_ok = False, dec_reason = ReasonRAMCommitted \<rparr>
         else if inv_ram_avail h < need then \<lparr> dec_ok = False, dec_reason = ReasonRAMAvail \<rparr>
         else if ad_disk a > 0 \<and> inv_disk_free h < wrap64 (ad_disk a + ad_reserve_disk a)
         then \<lparr> dec_ok = False, dec_reason = ReasonDiskFree \<rparr>
         else \<lparr> dec_ok = True, dec_reason = '''' \<rparr>)"

definition CanCreate :: "Admission \<Rightarrow> HostInventory \<Rightarrow> int \<Rightarrow> AdmitDecision" where
  "CanCreate a h allocated =
     (let n = (if allocated < 0 then 0 else allocated)
      in CanCreateMemory a h (wrap64 (n * ad_mem a)) (ad_mem a))"

definition Remaining :: "Admission \<Rightarrow> HostInventory \<Rightarrow> int \<Rightarrow> int" where
  "Remaining a h allocated =
     (if \<not> dec_ok (CanCreate a h allocated) then 0
      else
        (let usable = wrap64 (inv_ram_total h - ad_reserve_ram a - allocated * ad_mem a);
             ram = usable sdiv ad_mem a;
             live = inv_ram_avail h sdiv ad_mem a;
             ram1 = (if live < ram then live else ram);
             ram2 = (if ram1 < 0 then 0 else ram1)
         in if ad_disk a > 0 then
              (let disk = wrap64 (inv_disk_free h - ad_reserve_disk a) sdiv ad_disk a
               in if disk < ram2 then disk else ram2)
            else ram2))"

text \<open>\<open>os.Stat\<close>: the size, and the allocated 512-byte blocks where the system tells them.\<close>

definition allocatedBytes :: "int option \<Rightarrow> int" where
  "allocatedBytes st = (case st of None \<Rightarrow> 0 | Some blocks \<Rightarrow> wrap64 (blocks * 512))"

definition OverlayEstimateMiB :: "(int \<times> int option) option \<Rightarrow> int" where
  "OverlayEstimateMiB stat =
     (case stat of
        None \<Rightarrow> OverlaySlopMiB
      | Some (bytes, st) \<Rightarrow>
          if bytes \<le> 0 then OverlaySlopMiB
          else (let alloc = allocatedBytes st;
                    n = (if alloc > 0 \<and> alloc < bytes then alloc else bytes)
                in n sdiv (1024 * 1024) + OverlaySlopMiB))"

definition pool_admission :: "PoolConfig \<Rightarrow> Admission" where
  "pool_admission cfg =
     \<lparr> ad_memory = pc_memory cfg, ad_disk = pc_disk cfg,
       ad_reserve_ram = pc_reserve_ram cfg, ad_reserve_disk = pc_reserve_disk cfg \<rparr>"

definition ClampPoolToHost :: "PoolConfig \<Rightarrow> HostInventory \<Rightarrow> PoolConfig \<times> int \<times> string" where
  "ClampPoolToHost cfg h =
     (case MaxFit (pool_admission cfg) h of
        (fit, why) \<Rightarrow>
          if pc_max_ready cfg > fit then
            (let cfg1 = cfg\<lparr> pc_max_ready := fit \<rparr>
             in (if pc_min_ready cfg1 > pc_max_ready cfg1
                 then cfg1\<lparr> pc_min_ready := pc_max_ready cfg1 \<rparr> else cfg1, fit, why))
          else (cfg, fit, ''''))"

section \<open>Lemmas\<close>

text \<open>Sizes that fit a real machine: no sum of two of them, and no product of a count, leaves 64 bits.\<close>

definition host_size :: "int \<Rightarrow> bool" where
  "host_size x \<longleftrightarrow> 0 \<le> x \<and> x < 2 ^ 40"

definition host_sizes :: "Admission \<Rightarrow> HostInventory \<Rightarrow> bool" where
  "host_sizes a h \<longleftrightarrow>
     host_size (ad_mem a) \<and> ad_disk a < 2 ^ 40 \<and> host_size (ad_reserve_ram a) \<and>
     host_size (ad_reserve_disk a) \<and> host_size (inv_ram_total h) \<and> host_size (inv_ram_avail h) \<and>
     host_size (inv_disk_free h)"

lemma ad_mem_pos: "0 < ad_mem a"
  by (simp add: ad_mem_def)

lemma ad_mem_nonneg: "0 \<le> ad_mem a"
  using ad_mem_pos [of a] by simp

lemma sdiv_nonneg: "0 \<le> x \<Longrightarrow> 0 < (m :: int) \<Longrightarrow> x sdiv m = x div m"
  by (cases "x = 0") (simp_all add: signed_divide_int_def sgn_if)

lemma le_div_iff: "0 < (m :: int) \<Longrightarrow> n \<le> x div m \<longleftrightarrow> n * m \<le> x"
  using zdiv_mono1 [of "n * m" x m] div_mult_mod_eq [of x m] pos_mod_sign [of m x]
  by (smt (verit) mult_right_mono nonzero_mult_div_cancel_right)

text \<open>What one more guest takes from the host, and the test in plain numbers.\<close>

definition after_creates :: "Admission \<Rightarrow> nat \<Rightarrow> HostInventory \<Rightarrow> HostInventory" where
  "after_creates a k h =
     h\<lparr> inv_ram_avail := inv_ram_avail h - int k * ad_mem a,
        inv_disk_free := inv_disk_free h - int k * ad_disk a \<rparr>"

definition room_for :: "Admission \<Rightarrow> HostInventory \<Rightarrow> int \<Rightarrow> int \<Rightarrow> bool" where
  "room_for a h n k \<longleftrightarrow>
     (n + k) * ad_mem a \<le> inv_ram_total h - ad_reserve_ram a \<and> k * ad_mem a \<le> inv_ram_avail h \<and>
     (0 < ad_disk a \<longrightarrow> k * ad_disk a \<le> inv_disk_free h - ad_reserve_disk a)"

lemma room_for_mono:
  assumes "room_for a h n k" and "0 \<le> j" "j \<le> k"
  shows "room_for a h n j"
proof -
  have "(n + j) * ad_mem a \<le> (n + k) * ad_mem a" "j * ad_mem a \<le> k * ad_mem a"
    using assms(3) by (auto intro!: mult_right_mono ad_mem_nonneg)
  moreover have "0 < ad_disk a \<Longrightarrow> j * ad_disk a \<le> k * ad_disk a"
    using assms(3) by (intro mult_right_mono) auto
  ultimately show ?thesis using assms(1) unfolding room_for_def by linarith
qed

lemma can_create_room:
  assumes "host_sizes a h" and "0 \<le> n" "n < 2 ^ 20" "k < 2 ^ 20"
  shows "dec_ok (CanCreate a (after_creates a k h) (n + int k)) \<longleftrightarrow> room_for a h n (int k + 1)"
proof -
  let ?N = "n + int k"
  have "int k < 2 ^ 20" using assms(4) by simp
  then have N: "0 \<le> ?N" "?N < 2 ^ 21" using assms by auto
  have m: "0 < ad_mem a" "ad_mem a < 2 ^ 40" using assms(1) ad_mem_pos [of a] by (simp_all add: host_sizes_def host_size_def)
  have "?N * ad_mem a \<le> 2 ^ 21 * 2 ^ 40" using N m by (intro mult_mono) auto
  then have p: "0 \<le> ?N * ad_mem a" "?N * ad_mem a < 2 ^ 62" using N m by auto
  have w: "wrap64 (?N * ad_mem a) = ?N * ad_mem a"
    "wrap64 (?N * ad_mem a + ad_mem a) = ?N * ad_mem a + ad_mem a"
    "wrap64 (inv_ram_total h - ad_reserve_ram a) = inv_ram_total h - ad_reserve_ram a"
    using p m assms(1) by (auto simp: host_sizes_def host_size_def intro!: wrap64_id)
  have d: "0 < ad_disk a \<Longrightarrow> wrap64 (ad_disk a + ad_reserve_disk a) = ad_disk a + ad_reserve_disk a"
    using assms(1) by (auto simp: host_sizes_def host_size_def intro!: wrap64_id)
  have "\<not> ?N < 0" "\<not> ?N * ad_mem a < 0" "\<not> ad_mem a \<le> 0" using N p m by linarith+
  then have "dec_ok (CanCreate a (after_creates a k h) ?N) \<longleftrightarrow>
      ?N * ad_mem a + ad_mem a \<le> inv_ram_total h - ad_reserve_ram a \<and>
      ad_mem a \<le> inv_ram_avail h - int k * ad_mem a \<and>
      (0 < ad_disk a \<longrightarrow> ad_disk a + ad_reserve_disk a \<le> inv_disk_free h - int k * ad_disk a)"
    using w d by (auto simp: CanCreate_def CanCreateMemory_def after_creates_def Let_def)
  also have "\<dots> \<longleftrightarrow> room_for a h n (int k + 1)"
    by (auto simp: room_for_def algebra_simps)
  finally show ?thesis .
qed

lemma remaining_room:
  assumes "host_sizes a h" and "0 \<le> n" "n < 2 ^ 20" and "0 \<le> j"
  shows "j \<le> Remaining a h n \<longleftrightarrow> j = 0 \<or> room_for a h n j"
proof (cases "room_for a h n 1")
  case False
  then have "\<not> dec_ok (CanCreate a h n)"
    using can_create_room [of a h n 0] assms by (simp add: after_creates_def)
  then have "Remaining a h n = 0" by (simp add: Remaining_def)
  moreover have "j = 0" if "room_for a h n j"
  proof (rule ccontr)
    assume "j \<noteq> 0"
    then show False using room_for_mono [OF that, of 1] False assms(4) by auto
  qed
  ultimately show ?thesis using assms(4) by auto
next
  case True
  then have ok: "dec_ok (CanCreate a h n)"
    using can_create_room [of a h n 0] assms by (simp add: after_creates_def)
  have m: "0 < ad_mem a" "ad_mem a < 2 ^ 40" using assms(1) ad_mem_pos [of a] by (simp_all add: host_sizes_def host_size_def)
  have "n * ad_mem a \<le> 2 ^ 20 * 2 ^ 40" using assms m by (intro mult_mono) auto
  then have p: "0 \<le> n * ad_mem a" "n * ad_mem a < 2 ^ 61" using assms m by auto
  let ?u = "inv_ram_total h - ad_reserve_ram a - n * ad_mem a"
  let ?d = "inv_disk_free h - ad_reserve_disk a"
  have w: "wrap64 ?u = ?u" "wrap64 ?d = ?d"
    using p m assms(1) by (auto simp: host_sizes_def host_size_def intro!: wrap64_id)
  have nn: "0 \<le> ?u" "0 \<le> inv_ram_avail h" "0 < ad_disk a \<Longrightarrow> 0 \<le> ?d"
    using True m by (auto simp: room_for_def algebra_simps)
  then have q: "0 \<le> ?u div ad_mem a" "0 \<le> inv_ram_avail h div ad_mem a"
    using m by (simp_all add: pos_imp_zdiv_nonneg_iff)
  have "Remaining a h n =
      (let r = min (?u div ad_mem a) (inv_ram_avail h div ad_mem a)
       in if 0 < ad_disk a then min r (?d div ad_disk a) else r)"
    using ok w nn q m by (auto simp: Remaining_def Let_def sdiv_nonneg min_def)
  then have "j \<le> Remaining a h n \<longleftrightarrow> j * ad_mem a \<le> ?u \<and> j * ad_mem a \<le> inv_ram_avail h \<and>
      (0 < ad_disk a \<longrightarrow> j * ad_disk a \<le> ?d)"
    using m by (auto simp: Let_def le_div_iff)
  also have "\<dots> \<longleftrightarrow> room_for a h n j" by (auto simp: room_for_def algebra_simps)
  finally have "j \<le> Remaining a h n \<longleftrightarrow> room_for a h n j" .
  moreover have "room_for a h n 0" using room_for_mono [OF True, of 0] by simp
  ultimately show ?thesis by auto
qed

section \<open>Properties\<close>

text \<open>
  The number of further creates the agent reports is exact: that many creates in a row pass the
  admission test, each one counted and taking its memory and disk from the host, and no more.
\<close>

theorem remaining_counts_creates:
  assumes "host_sizes a h" and "0 \<le> n" "n < 2 ^ 20" and "k < 2 ^ 20"
  shows "int k \<le> Remaining a h n \<longleftrightarrow>
    (\<forall>i<k. dec_ok (CanCreate a (after_creates a i h) (n + int i)))"
proof -
  have "(\<forall>i<k. dec_ok (CanCreate a (after_creates a i h) (n + int i))) \<longleftrightarrow>
      (\<forall>i<k. room_for a h n (int i + 1))"
    using can_create_room [OF assms(1-3)] assms(4) by (meson less_trans)
  also have "\<dots> \<longleftrightarrow> k = 0 \<or> room_for a h n (int k)"
  proof (cases k)
    case (Suc l)
    then show ?thesis
      using room_for_mono [of a h n "int k"] by (auto simp: less_Suc_eq_le add.commute)
  qed simp
  finally show ?thesis using remaining_room [OF assms(1-3), of "int k"] by simp
qed

definition demo_admission :: Admission where
  "demo_admission = \<lparr> ad_memory = 8192, ad_disk = 4096, ad_reserve_ram = 2048, ad_reserve_disk = 5120 \<rparr>"

definition demo_host :: HostInventory where
  "demo_host = \<lparr> inv_ram_total = 32768, inv_ram_avail = 30000, inv_disk_total = 100000,
     inv_disk_free = 40000, inv_num_cpu = 8 \<rparr>"

theorem remaining_counts_creates_witness:
  "int 2 \<le> Remaining demo_admission demo_host 1 \<longleftrightarrow>
     (\<forall>i<2. dec_ok (CanCreate demo_admission (after_creates demo_admission i demo_host) (1 + int i)))"
  by (rule remaining_counts_creates)
    (simp_all add: host_sizes_def host_size_def ad_mem_def demo_admission_def demo_host_def)

lemma max_fit_room:
  assumes "host_sizes a h" and "0 \<le> n"
  shows "n \<le> fst (MaxFit a h) \<longleftrightarrow>
    n * ad_mem a \<le> max 0 (inv_ram_total h - ad_reserve_ram a) \<and>
    (0 < ad_disk a \<longrightarrow> n * ad_disk a \<le> max 0 (inv_disk_free h - ad_reserve_disk a))"
proof -
  let ?r = "max 0 (inv_ram_total h - ad_reserve_ram a)"
  let ?d = "max 0 (inv_disk_free h - ad_reserve_disk a)"
  have w: "wrap64 (inv_ram_total h - ad_reserve_ram a) = inv_ram_total h - ad_reserve_ram a"
    "wrap64 (inv_disk_free h - ad_reserve_disk a) = inv_disk_free h - ad_reserve_disk a"
    using assms(1) by (auto simp: host_sizes_def host_size_def intro!: wrap64_id)
  have "fst (MaxFit a h) =
      (if 0 < ad_disk a then min (?r div ad_mem a) (?d div ad_disk a) else ?r div ad_mem a)"
    using w sdiv_nonneg [of ?r "ad_mem a"] sdiv_nonneg [of ?d "ad_disk a"] ad_mem_pos [of a]
    by (auto simp: MaxFit_def Let_def min_def max_def)
  then show ?thesis using ad_mem_pos [of a] by (auto simp: le_div_iff)
qed

text \<open>
  The pool's targets are lowered to the host and no further: the ready limit becomes the smaller of
  the configured one and the largest number of guests whose memory and disk fit what the host has beyond
  its reserve, the minimum never exceeds it, and nothing else changes.
\<close>

theorem clamp_to_host_fits:
  assumes "host_sizes (pool_admission cfg) h" and "pc_min_ready cfg \<le> pc_max_ready cfg"
    and "ClampPoolToHost cfg h = (cfg', fit, why)" and "0 \<le> n"
  shows "pc_max_ready cfg' = min (pc_max_ready cfg) fit \<and>
    (n \<le> fit \<longleftrightarrow>
      n * ad_mem (pool_admission cfg) \<le> max 0 (inv_ram_total h - pc_reserve_ram cfg) \<and>
      (0 < pc_disk cfg \<longrightarrow> n * pc_disk cfg \<le> max 0 (inv_disk_free h - pc_reserve_disk cfg))) \<and>
    pc_min_ready cfg' = min (pc_min_ready cfg) (pc_max_ready cfg') \<and>
    cfg'\<lparr> pc_min_ready := pc_min_ready cfg, pc_max_ready := pc_max_ready cfg \<rparr> = cfg \<and>
    (why = '''' \<longleftrightarrow> cfg' = cfg)"
proof -
  obtain f w where m: "MaxFit (pool_admission cfg) h = (f, w)" by fastforce
  have w: "w \<noteq> ''''"
    using m by (auto simp: MaxFit_def Let_def ReasonRAMFit_def ReasonDiskFit_def split: if_splits)
  have fit: "fit = f" using assms(3) m by (auto simp: ClampPoolToHost_def Let_def split: if_splits)
  have "n \<le> fit \<longleftrightarrow> n * ad_mem (pool_admission cfg) \<le> max 0 (inv_ram_total h - pc_reserve_ram cfg) \<and>
      (0 < pc_disk cfg \<longrightarrow> n * pc_disk cfg \<le> max 0 (inv_disk_free h - pc_reserve_disk cfg))"
    using max_fit_room [OF assms(1,4)] m fit by (simp add: pool_admission_def)
  moreover have "pc_max_ready cfg' = min (pc_max_ready cfg) fit \<and>
      pc_min_ready cfg' = min (pc_min_ready cfg) (pc_max_ready cfg') \<and>
      cfg'\<lparr> pc_min_ready := pc_min_ready cfg, pc_max_ready := pc_max_ready cfg \<rparr> = cfg \<and>
      (why = '''' \<longleftrightarrow> cfg' = cfg)"
  proof (cases "pc_max_ready cfg > f")
    case True
    then have "pc_max_ready cfg' = f"
      using assms(3) m by (auto simp: ClampPoolToHost_def Let_def split: if_splits)
    with True have "cfg' \<noteq> cfg" by auto
    with True show ?thesis
      using assms(2,3) m w by (auto simp: ClampPoolToHost_def Let_def split: if_splits)
  qed (use assms(2,3) m in \<open>auto simp: ClampPoolToHost_def\<close>)
  ultimately show ?thesis by blast
qed

definition demo_pool_config :: PoolConfig where
  "demo_pool_config =
     \<lparr> pc_min_ready = 4, pc_max_ready = 9, pc_max_total = 41, pc_vcpus = 4, pc_memory = 8192, pc_disk = 4096,
       pc_reserve_ram = 2048, pc_reserve_disk = 5120, pc_image = ''base.img'', pc_kernel = ''vmlinux'',
       pc_idle_recycle = 0, pc_reconcile_interval = 1, pc_retry_base = 100, pc_retry_max = 5000,
       pc_bind_wait = 2000, pc_guest_ready_wait = 45000,
       pc_shapes = [\<lparr> vs_label = ''s'', vs_vcpus = 4, vs_memory = 8192, vs_min_ready = 1 \<rparr>] \<rparr>"

theorem clamp_to_host_fits_witness:
  "pc_max_ready (fst (ClampPoolToHost demo_pool_config demo_host)) = min 9 3 \<and> (3::int) \<le> 3 \<and>
   pc_min_ready (fst (ClampPoolToHost demo_pool_config demo_host)) = 3"
proof -
  have c: "ClampPoolToHost demo_pool_config demo_host =
      (demo_pool_config\<lparr> pc_max_ready := 3, pc_min_ready := 3 \<rparr>, 3, ''ram'')" by code_simp
  have "host_sizes (pool_admission demo_pool_config) demo_host"
    by (simp add: host_sizes_def host_size_def ad_mem_def pool_admission_def demo_pool_config_def demo_host_def)
  moreover have "pc_min_ready demo_pool_config \<le> pc_max_ready demo_pool_config"
    by (simp add: demo_pool_config_def)
  ultimately show ?thesis
    using clamp_to_host_fits [OF _ _ c, of 3] unfolding c by (simp add: demo_pool_config_def)
qed

end
