(* ===== verification/Pool.thy ===== *)
theory Pool
  imports HostAdmission "HOL-Library.Word"
begin

text \<open>
  \<open>internal/agent/pool.go\<close>: the warm pool. Each function here is the code between two lock operations of
  the pool's mutex, or the sequential composition of such sections when nothing else runs in between; the
  theory \<open>PoolSystem\<close> interleaves the sections. The pool's map of guests is an association list whose order
  stands for the order in which Go happens to range over the map. The hypervisor, the host sample, the
  clock and fresh guest names are arguments. Metrics are 64-bit counters.
\<close>

section \<open>Data\<close>

datatype VMState = PoolBoot | Warm | Busy | Destroying

text \<open>The order of a guest's life.\<close>

primrec life_stage :: "VMState \<Rightarrow> nat" where
  "life_stage PoolBoot = 0"
| "life_stage Warm = 1"
| "life_stage Busy = 2"
| "life_stage Destroying = 3"

instantiation VMState :: linorder
begin

definition less_eq_VMState :: "VMState \<Rightarrow> VMState \<Rightarrow> bool" where
  "less_eq_VMState a b \<longleftrightarrow> life_stage a \<le> life_stage b"

definition less_VMState :: "VMState \<Rightarrow> VMState \<Rightarrow> bool" where
  "less_VMState a b \<longleftrightarrow> life_stage a < life_stage b"

instance
proof
  fix a b c :: VMState
  show "a \<le> b \<Longrightarrow> b \<le> a \<Longrightarrow> a = b"
    by (cases a; cases b) (simp_all add: less_eq_VMState_def)
qed (auto simp: less_eq_VMState_def less_VMState_def)

end

lemmas life_order = less_eq_VMState_def less_VMState_def

type_synonym vmID = string

record poolVM =
  pv_id :: vmID
  pv_state :: VMState
  pv_job :: string
  pv_vcpus :: int
  pv_memory :: int
  pv_created :: gotime
  pv_warm_since :: gotime
  pv_busy_since :: gotime
  pv_destroy_after :: gotime
  pv_tries :: int
  pv_err :: string

record Metrics =
  mt_warm_binds :: "64 word"
  mt_cold_starts :: "64 word"
  mt_destroys_ok :: "64 word"
  mt_destroy_fail :: "64 word"
  mt_recycles :: "64 word"
  mt_orphans :: "64 word"

record pool =
  pl_cfg :: PoolConfig
  pl_vms :: "(vmID \<times> poolVM) list"
  pl_started :: bool
  pl_stopping :: bool
  pl_last_err :: string
  pl_metrics :: Metrics
  pl_in_flight :: int
  pl_in_flight_mem :: int
  pl_configured_max :: int
  pl_clamp_reason :: string
  pl_last_admit :: string
  pl_wake :: bool

record JobPayload =
  jp_job_id :: string
  jp_runner_name :: string
  jp_labels :: "string list"
  jp_jit :: string

record BindResult =
  br_vm :: vmID
  br_warm :: bool
  br_job :: string

record Counts =
  ct_boot :: int
  ct_warm :: int
  ct_busy :: int
  ct_destroying :: int

datatype pool_error =
    ErrNoCapacity | ErrNotBusy | ErrPoolStopped | ErrImageRequired | ErrStarted
  | ErrJobRequired | ErrUnknownVM | ErrNewID | ErrSweep string | ErrDestroy string
  | ErrProvision string | ErrRunner string | ErrCancelled

text \<open>The inventory source: none configured, or the result of its \<open>Sample\<close>.\<close>

type_synonym sample = "HostInventory option option"

section \<open>Construction\<close>

definition no_metrics :: Metrics where
  "no_metrics = \<lparr> mt_warm_binds = 0, mt_cold_starts = 0, mt_destroys_ok = 0, mt_destroy_fail = 0,
     mt_recycles = 0, mt_orphans = 0 \<rparr>"

definition sane_counts :: "PoolConfig \<Rightarrow> PoolConfig" where
  "sane_counts c0 =
     (let c1 = (if pc_min_ready c0 < 0 then c0\<lparr> pc_min_ready := 1 \<rparr> else c0);
          c2 = (if pc_max_ready c1 < pc_min_ready c1 then c1\<lparr> pc_max_ready := pc_min_ready c1 \<rparr> else c1);
          c3 = (if pc_max_ready c2 \<le> 0 \<and> pc_min_ready c2 = 0 then c2\<lparr> pc_max_ready := 1 \<rparr> else c2);
          c4 = (if pc_max_total c3 \<le> 0 then c3\<lparr> pc_max_total := wrap64 (pc_max_ready c3 + 32) \<rparr> else c3)
      in c4)"

definition sane_shapes :: "PoolConfig \<Rightarrow> PoolConfig" where
  "sane_shapes c0 =
     (let c1 = (if pc_vcpus c0 \<le> 0 then c0\<lparr> pc_vcpus := 2 \<rparr> else c0);
          c2 = (if pc_memory c1 \<le> 0 then c1\<lparr> pc_memory := 2048 \<rparr> else c1)
      in if pc_shapes c2 = [] then
           c2\<lparr> pc_shapes := [\<lparr> vs_label = ShapeLabel (pc_vcpus c2) (pc_memory c2), vs_vcpus = pc_vcpus c2,
                              vs_memory = pc_memory c2, vs_min_ready = pc_min_ready c2 \<rparr>] \<rparr>
         else c2)"

definition second :: duration where "second = 1000000000"
definition millisecond :: duration where "millisecond = 1000000"

definition or_default :: "duration \<Rightarrow> duration \<Rightarrow> duration" where
  "or_default d x = (if x \<le> 0 then d else x)"

definition sane_times :: "PoolConfig \<Rightarrow> PoolConfig" where
  "sane_times c =
     c\<lparr> pc_reconcile_interval := or_default second (pc_reconcile_interval c),
        pc_retry_base := or_default (100 * millisecond) (pc_retry_base c),
        pc_retry_max := or_default (5 * second) (pc_retry_max c),
        pc_bind_wait := or_default (2 * second) (pc_bind_wait c),
        pc_guest_ready_wait := or_default (45 * second) (pc_guest_ready_wait c) \<rparr>"

text \<open>\<open>stat\<close> is what \<open>os.Stat\<close> says of the image.\<close>

definition NewPool :: "(int \<times> int option) option \<Rightarrow> sample \<Rightarrow> PoolConfig \<Rightarrow> pool_error + pool" where
  "NewPool stat smp cfg0 =
     (let c1 = sane_shapes (sane_counts cfg0)
      in if pc_image c1 = '''' then Inl ErrImageRequired
         else
           (let c2 = sane_times c1;
                c3 = (if pc_disk c2 \<le> 0 then c2\<lparr> pc_disk := OverlayEstimateMiB stat \<rparr> else c2);
                (c4, why) =
                  (case smp of
                     None \<Rightarrow> (c3, '''')
                   | Some None \<Rightarrow> (c3\<lparr> pc_min_ready := 0, pc_max_ready := 0 \<rparr>, ''inventory_error'')
                   | Some (Some h) \<Rightarrow>
                       (case ClampPoolToHost c3 h of
                          (c, _, w) \<Rightarrow> (c, if pc_max_ready c < pc_max_ready c3 then w else '''')))
            in Inr \<lparr> pl_cfg = c4, pl_vms = [], pl_started = False, pl_stopping = False, pl_last_err = '''',
                     pl_metrics = no_metrics, pl_in_flight = 0, pl_in_flight_mem = 0,
                     pl_configured_max = pc_max_ready c3, pl_clamp_reason = why, pl_last_admit = '''',
                     pl_wake = False \<rparr>))"

section \<open>Reading the pool\<close>

definition get_vm :: "vmID \<Rightarrow> pool \<Rightarrow> poolVM option" where
  "get_vm i p = map_of (pl_vms p) i"

definition put_vm :: "vmID \<Rightarrow> poolVM \<Rightarrow> pool \<Rightarrow> pool" where
  "put_vm i vm p = p\<lparr> pl_vms := AList.update i vm (pl_vms p) \<rparr>"

definition del_vm :: "vmID \<Rightarrow> pool \<Rightarrow> pool" where
  "del_vm i p = p\<lparr> pl_vms := AList.delete i (pl_vms p) \<rparr>"

definition kick :: "pool \<Rightarrow> pool" where
  "kick p = p\<lparr> pl_wake := True \<rparr>"

definition in_state :: "VMState \<Rightarrow> pool \<Rightarrow> int" where
  "in_state st p = int (length (filter (\<lambda>(i, vm). pv_state vm = st) (pl_vms p)))"

definition countsLocked :: "pool \<Rightarrow> Counts" where
  "countsLocked p =
     \<lparr> ct_boot = in_state PoolBoot p, ct_warm = in_state Warm p,
       ct_busy = in_state Busy p, ct_destroying = in_state Destroying p \<rparr>"

definition Total :: "Counts \<Rightarrow> int" where
  "Total c = ct_boot c + ct_warm c + ct_busy c + ct_destroying c"

fun oldest_warm :: "int \<Rightarrow> int \<Rightarrow> (vmID \<times> poolVM) list \<Rightarrow> (vmID \<times> gotime) option \<Rightarrow> (vmID \<times> gotime) option"
where
  "oldest_warm v m [] best = best"
| "oldest_warm v m ((i, vm) # r) best =
     (if pv_state vm \<noteq> Warm then oldest_warm v m r best
      else if pv_vcpus vm \<noteq> v \<or> pv_memory vm \<noteq> m then oldest_warm v m r best
      else case best of
             None \<Rightarrow> oldest_warm v m r (Some (i, pv_warm_since vm))
           | Some (b, t) \<Rightarrow>
               if pv_warm_since vm < t then oldest_warm v m r (Some (i, pv_warm_since vm))
               else oldest_warm v m r best)"

definition pickWarmLocked :: "int \<Rightarrow> int \<Rightarrow> pool \<Rightarrow> vmID option" where
  "pickWarmLocked v m p = map_option fst (oldest_warm v m (pl_vms p) None)"

definition matchingPoolBootLocked :: "int \<Rightarrow> int \<Rightarrow> pool \<Rightarrow> bool" where
  "matchingPoolBootLocked v m p =
     list_ex (\<lambda>(i, vm). pv_state vm = PoolBoot \<and> pv_vcpus vm = v \<and> pv_memory vm = m) (pl_vms p)"

definition countShapeLocked :: "int \<Rightarrow> int \<Rightarrow> VMState list \<Rightarrow> pool \<Rightarrow> int" where
  "countShapeLocked v m states p =
     int (length (filter (\<lambda>(i, vm). pv_vcpus vm = v \<and> pv_memory vm = m \<and> pv_state vm \<in> set states) (pl_vms p)))"

fun add_memory :: "int \<Rightarrow> (vmID \<times> poolVM) list \<Rightarrow> int \<Rightarrow> int" where
  "add_memory dflt [] n = n"
| "add_memory dflt ((i, vm) # r) n =
     add_memory dflt r (wrap64 (n + (if pv_memory vm > 0 then pv_memory vm else dflt)))"

definition allocatedRAMLocked :: "pool \<Rightarrow> int" where
  "allocatedRAMLocked p = add_memory (pc_memory (pl_cfg p)) (pl_vms p) (pl_in_flight_mem p)"

definition reclaimableLocked :: "pool \<Rightarrow> bool" where
  "reclaimableLocked p \<longleftrightarrow>
     pl_in_flight p > 0 \<or> list_ex (\<lambda>(i, vm). pv_state vm \<in> {Busy, PoolBoot, Destroying}) (pl_vms p)"

definition noteAdmitRefuse :: "string \<Rightarrow> pool \<Rightarrow> pool" where
  "noteAdmitRefuse reason p = p\<lparr> pl_last_admit := reason \<rparr>"

definition canCreateLocked :: "sample \<Rightarrow> int \<Rightarrow> pool \<Rightarrow> bool \<times> pool" where
  "canCreateLocked smp next_mem p =
     (if Total (countsLocked p) + pl_in_flight p \<ge> pc_max_total (pl_cfg p)
      then (False, noteAdmitRefuse ''max_total_vms'' p)
      else case smp of
        None \<Rightarrow> (True, p\<lparr> pl_last_admit := '''' \<rparr>)
      | Some None \<Rightarrow> (False, noteAdmitRefuse ''inventory_error'' p)
      | Some (Some h) \<Rightarrow>
          (let need = (if next_mem \<le> 0 then pc_memory (pl_cfg p) else next_mem);
               d = CanCreateMemory (pool_admission (pl_cfg p)) h (allocatedRAMLocked p) need
           in if dec_ok d then (True, p\<lparr> pl_last_admit := '''' \<rparr>)
              else (False, noteAdmitRefuse (dec_reason d) p)))"

definition remainingCreatesLocked :: "sample \<Rightarrow> pool \<Rightarrow> int \<times> pool" where
  "remainingCreatesLocked smp p =
     (case smp of
        None \<Rightarrow> (1048576, p)
      | Some None \<Rightarrow> (0, p\<lparr> pl_last_admit := ''inventory_error'' \<rparr>)
      | Some (Some h) \<Rightarrow>
          (Remaining (pool_admission (pl_cfg p)) h (Total (countsLocked p) + pl_in_flight p), p))"

definition EffectiveMaxReady :: "pool \<Rightarrow> int" where
  "EffectiveMaxReady p = pc_max_ready (pl_cfg p)"

definition ConfiguredMaxReady :: "pool \<Rightarrow> int" where
  "ConfiguredMaxReady p =
     (if pl_configured_max p > 0 then pl_configured_max p else pc_max_ready (pl_cfg p))"

definition DesiredIDs :: "pool \<Rightarrow> vmID list" where
  "DesiredIDs p = map fst (pl_vms p)"

definition inc_metric :: "((64 word \<Rightarrow> 64 word) \<Rightarrow> Metrics \<Rightarrow> Metrics) \<Rightarrow> pool \<Rightarrow> pool" where
  "inc_metric upd p = p\<lparr> pl_metrics := upd (\<lambda>n. n + 1) (pl_metrics p) \<rparr>"

section \<open>Destroying\<close>

text \<open>\<open>base << shift\<close>, at most the configured maximum.\<close>

definition backoff :: "PoolConfig \<Rightarrow> int \<Rightarrow> duration" where
  "backoff cfg tries =
     (let s0 = tries - 1; s1 = (if s0 > 6 then 6 else s0); s = (if s1 < 0 then 0 else s1);
          b = wrap64 (pc_retry_base cfg * 2 ^ nat s)
      in if b > pc_retry_max cfg then pc_retry_max cfg else b)"

text \<open>The locked part of \<open>destroyNow\<close>, after the cleaner has answered.\<close>

definition destroy_result :: "gotime \<Rightarrow> string option \<Rightarrow> vmID \<Rightarrow> pool \<Rightarrow> pool" where
  "destroy_result now err i p =
     (case err of
        Some e \<Rightarrow>
          (let p1 = (inc_metric mt_destroy_fail_update p)\<lparr> pl_last_err := e \<rparr>
           in case get_vm i p1 of
                None \<Rightarrow> p1
              | Some vm \<Rightarrow>
                  (let n = pv_tries vm + 1
                   in put_vm i (vm\<lparr> pv_state := Destroying, pv_tries := n, pv_err := e,
                                    pv_destroy_after := now + backoff (pl_cfg p) n \<rparr>) p1))
      | None \<Rightarrow> del_vm i ((inc_metric mt_destroys_ok_update p)\<lparr> pl_last_err := '''' \<rparr>))"

definition destroyNow :: "gotime \<Rightarrow> string option \<Rightarrow> vmID \<Rightarrow> pool \<Rightarrow> pool_error option \<times> pool" where
  "destroyNow now err i p = (map_option ErrDestroy err, destroy_result now err i p)"

definition mark_destroying :: "poolVM \<Rightarrow> poolVM" where
  "mark_destroying vm = vm\<lparr> pv_state := Destroying, pv_job := '''', pv_destroy_after := zero_time \<rparr>"

definition begin_destroy_section :: "vmID \<Rightarrow> pool \<Rightarrow> bool \<times> pool" where
  "begin_destroy_section i p =
     (case get_vm i p of
        None \<Rightarrow> (False, p)
      | Some vm \<Rightarrow> (True, put_vm i (mark_destroying vm) p))"

definition beginDestroy :: "gotime \<Rightarrow> string option \<Rightarrow> vmID \<Rightarrow> pool \<Rightarrow> pool_error option \<times> pool" where
  "beginDestroy now err i p =
     (case begin_destroy_section i p of
        (False, p1) \<Rightarrow> (map_option ErrDestroy err, p1)
      | (True, p1) \<Rightarrow> destroyNow now err i p1)"

definition job_finished_section :: "vmID \<Rightarrow> pool \<Rightarrow> bool \<times> pool" where
  "job_finished_section i p =
     (case get_vm i p of
        None \<Rightarrow> (False, p)
      | Some vm \<Rightarrow>
          if pv_state vm \<noteq> Busy then (False, p) else (True, put_vm i (mark_destroying vm) p))"

definition JobFinished :: "gotime \<Rightarrow> string option \<Rightarrow> vmID \<Rightarrow> pool \<Rightarrow> pool_error option \<times> pool" where
  "JobFinished now err i p =
     (case job_finished_section i p of
        (False, p1) \<Rightarrow> (Some ErrNotBusy, p1)
      | (True, p1) \<Rightarrow> (case destroyNow now err i p1 of (e, p2) \<Rightarrow> (e, kick p2)))"

definition KillVM :: "gotime \<Rightarrow> string option \<Rightarrow> vmID \<Rightarrow> pool \<Rightarrow> pool_error option \<times> pool" where
  "KillVM now err i p =
     (case get_vm i p of
        None \<Rightarrow> (Some ErrUnknownVM, p)
      | Some vm \<Rightarrow> if pv_state vm = Busy then JobFinished now err i p else beginDestroy now err i p)"

definition warm_ids :: "pool \<Rightarrow> vmID list" where
  "warm_ids p = map fst (filter (\<lambda>(i, vm). pv_state vm = Warm) (pl_vms p))"

text \<open>Destroying a list of guests one after the other: how many went, and the first error.\<close>

fun destroy_each ::
  "gotime \<Rightarrow> (vmID \<Rightarrow> string option) \<Rightarrow> vmID list \<Rightarrow> pool \<Rightarrow> int \<times> pool_error option \<times> pool"
where
  "destroy_each now errs [] p = (0, None, p)"
| "destroy_each now errs (i # r) p =
     (case beginDestroy now (errs i) i p of
        (Some e, p1) \<Rightarrow> (case destroy_each now errs r p1 of (n, _, p2) \<Rightarrow> (n, Some e, p2))
      | (None, p1) \<Rightarrow>
          (case destroy_each now errs r (inc_metric mt_recycles_update p1) of
             (n, f, p2) \<Rightarrow> (n + 1, f, p2)))"

definition DrainWarm ::
  "gotime \<Rightarrow> (vmID \<Rightarrow> string option) \<Rightarrow> pool \<Rightarrow> int \<times> pool_error option \<times> pool" where
  "DrainWarm now errs p =
     (case destroy_each now errs (warm_ids p) p of (n, f, p1) \<Rightarrow> (n, f, kick p1))"

definition ReloadImage ::
  "gotime \<Rightarrow> (vmID \<Rightarrow> string option) \<Rightarrow> (int \<times> int option) option \<Rightarrow> string \<Rightarrow> bool \<Rightarrow> pool \<Rightarrow>
   int \<times> pool_error option \<times> pool" where
  "ReloadImage now errs stat path drain p =
     (let p1 = (if path \<noteq> ''''
                then p\<lparr> pl_cfg := (pl_cfg p)\<lparr> pc_image := path, pc_disk := OverlayEstimateMiB stat \<rparr> \<rparr>
                else p)
      in if drain then DrainWarm now errs p1 else (0, None, p1))"

definition idle_ids :: "gotime \<Rightarrow> pool \<Rightarrow> vmID list" where
  "idle_ids now p =
     map fst (filter (\<lambda>(i, vm). pv_state vm = Warm \<and> pv_warm_since vm \<noteq> zero_time \<and>
       time_sub now (pv_warm_since vm) \<ge> pc_idle_recycle (pl_cfg p)) (pl_vms p))"

definition recycleIdle :: "gotime \<Rightarrow> (vmID \<Rightarrow> string option) \<Rightarrow> pool \<Rightarrow> pool" where
  "recycleIdle now errs p =
     (if pc_idle_recycle (pl_cfg p) \<le> 0 then p else snd (snd (destroy_each now errs (idle_ids now p) p)))"

definition due_ids :: "gotime \<Rightarrow> pool \<Rightarrow> vmID list" where
  "due_ids now p =
     map fst (filter (\<lambda>(i, vm). pv_state vm = Destroying \<and>
       \<not> (pv_destroy_after vm \<noteq> zero_time \<and> now < pv_destroy_after vm)) (pl_vms p))"

definition retryDestroys :: "gotime \<Rightarrow> (vmID \<Rightarrow> string option) \<Rightarrow> pool \<Rightarrow> pool" where
  "retryDestroys now errs p = fold (\<lambda>i. destroy_result now (errs i) i) (due_ids now p) p"

section \<open>Booting\<close>

text \<open>The sizes \<open>provision\<close> asks the hypervisor for.\<close>

definition provision_shape :: "PoolConfig \<Rightarrow> VMShape \<Rightarrow> VMShape" where
  "provision_shape cfg s =
     (let s1 = (if vs_vcpus s \<le> 0 then s\<lparr> vs_vcpus := pc_vcpus cfg \<rparr> else s)
      in if vs_memory s1 \<le> 0 then s1\<lparr> vs_memory := pc_memory cfg \<rparr> else s1)"

definition booting_vm :: "gotime \<Rightarrow> vmID \<Rightarrow> VMShape \<Rightarrow> poolVM" where
  "booting_vm now i s =
     \<lparr> pv_id = i, pv_state = PoolBoot, pv_job = '''', pv_vcpus = vs_vcpus s, pv_memory = vs_memory s,
       pv_created = now, pv_warm_since = zero_time, pv_busy_since = zero_time,
       pv_destroy_after = zero_time, pv_tries = 0, pv_err = '''' \<rparr>"

text \<open>\<open>i\<close> is the fresh name, \<open>None\<close> when \<open>newID\<close> fails.\<close>

definition reservePoolBoot ::
  "gotime \<Rightarrow> sample \<Rightarrow> vmID option \<Rightarrow> VMShape \<Rightarrow> pool \<Rightarrow> pool_error option \<times> pool" where
  "reservePoolBoot now smp id_opt s p =
     (case id_opt of
        None \<Rightarrow> (Some ErrNewID, p)
      | Some i \<Rightarrow>
          if pl_stopping p then (Some ErrPoolStopped, p)
          else
            (let c = countsLocked p in
             if ct_busy c > 0 then (Some ErrNoCapacity, p)
             else if countShapeLocked (vs_vcpus s) (vs_memory s) [Warm, PoolBoot] p \<ge> vs_min_ready s
             then (Some ErrNoCapacity, p)
             else case canCreateLocked smp (vs_memory s) p of
               (False, p1) \<Rightarrow> (Some ErrNoCapacity, p1)
             | (True, p1) \<Rightarrow>
                 if ct_warm c + ct_boot c \<ge> pc_max_ready (pl_cfg p) then (Some ErrNoCapacity, p1)
                 else (None, put_vm i (booting_vm now i s) p1)))"

text \<open>\<open>finishBootWarm\<close> once \<open>provision\<close> has answered; the flag says whether the guest became warm.\<close>

definition finish_boot_section :: "gotime \<Rightarrow> bool \<Rightarrow> vmID \<Rightarrow> pool \<Rightarrow> bool \<times> pool" where
  "finish_boot_section now provisioned i p =
     (if \<not> provisioned then (False, del_vm i p)
      else case get_vm i p of
        None \<Rightarrow> (False, p)
      | Some vm \<Rightarrow> (True, put_vm i (vm\<lparr> pv_state := Warm, pv_warm_since := now \<rparr>) p))"

text \<open>
  One catalog entry of \<open>replenish\<close>: reserving until a refusal. The supply is what \<open>newID\<close> answers, its end
  a failure; each reserved guest is then booted by a goroutine of its own. The flag says that the pass
  ends here.
\<close>

fun replenish_shape ::
  "gotime \<Rightarrow> sample \<Rightarrow> VMShape \<Rightarrow> vmID list \<Rightarrow> pool \<Rightarrow> bool \<times> vmID list \<times> vmID list \<times> pool" where
  "replenish_shape now smp s [] p =
     (case reservePoolBoot now smp None s p of (_, p1) \<Rightarrow> (True, [], [], p1))"
| "replenish_shape now smp s (i # ids) p =
     (case reservePoolBoot now smp (Some i) s p of
        (Some e, p1) \<Rightarrow> (e \<noteq> ErrNoCapacity \<and> e \<noteq> ErrPoolStopped, [], ids, p1)
      | (None, p1) \<Rightarrow>
          (case replenish_shape now smp s ids p1 of
             (stop, new, rest, p2) \<Rightarrow> (stop, i # new, rest, p2)))"

fun replenish_all ::
  "gotime \<Rightarrow> sample \<Rightarrow> VMShape list \<Rightarrow> vmID list \<Rightarrow> pool \<Rightarrow> vmID list \<times> pool" where
  "replenish_all now smp [] ids p = ([], p)"
| "replenish_all now smp (s # ss) ids p =
     (if vs_min_ready s \<le> 0 then replenish_all now smp ss ids p
      else case replenish_shape now smp s ids p of
        (stop, new, rest, p1) \<Rightarrow>
          if stop then (new, p1)
          else (case replenish_all now smp ss rest p1 of (later, p2) \<Rightarrow> (new @ later, p2)))"

definition replenish :: "gotime \<Rightarrow> sample \<Rightarrow> vmID list \<Rightarrow> pool \<Rightarrow> vmID list \<times> pool" where
  "replenish now smp ids p = replenish_all now smp (pc_shapes (pl_cfg p)) ids p"

text \<open>A pass with nothing running beside it; the boots it starts are answered later.\<close>

definition reconcile ::
  "gotime \<Rightarrow> (vmID \<Rightarrow> string option) \<Rightarrow> sample \<Rightarrow> vmID list \<Rightarrow> pool \<Rightarrow> vmID list \<times> pool" where
  "reconcile now errs smp ids p = replenish now smp ids (recycleIdle now errs (retryDestroys now errs p))"

section \<open>Binding a job\<close>

text \<open>What the locked part of one round of \<open>Bind\<close>'s loop decides.\<close>

datatype bind_round =
    Refused pool_error
  | BoundWarm vmID
  | WaitBoot
  | ColdCreate
  | WaitReclaim
  | WaitReconciler

definition job_shape :: "JobPayload \<Rightarrow> pool \<Rightarrow> VMShape" where
  "job_shape job p =
     ResolveJobShape (jp_labels job) (pc_shapes (pl_cfg p)) (pc_vcpus (pl_cfg p)) (pc_memory (pl_cfg p))"

definition bound :: "gotime \<Rightarrow> string \<Rightarrow> poolVM \<Rightarrow> poolVM" where
  "bound now job vm =
     vm\<lparr> pv_state := Busy, pv_job := job, pv_busy_since := now, pv_warm_since := zero_time \<rparr>"

definition bind_section ::
  "gotime \<Rightarrow> gotime \<Rightarrow> sample \<Rightarrow> string \<Rightarrow> VMShape \<Rightarrow> pool \<Rightarrow> bind_round \<times> pool" where
  "bind_section started now smp job s p =
     (if pl_stopping p \<or> \<not> pl_started p then (Refused ErrPoolStopped, p)
      else case pickWarmLocked (vs_vcpus s) (vs_memory s) p of
        Some i \<Rightarrow>
          (case get_vm i p of
             None \<Rightarrow> (BoundWarm i, p)
           | Some vm \<Rightarrow> (BoundWarm i, put_vm i (bound now job vm) p))
      | None \<Rightarrow>
          if matchingPoolBootLocked (vs_vcpus s) (vs_memory s) p \<and>
             now < started + pc_guest_ready_wait (pl_cfg p)
          then (WaitBoot, kick p)
          else case canCreateLocked smp (vs_memory s) p of
            (True, p1) \<Rightarrow>
              (ColdCreate, p1\<lparr> pl_in_flight := pl_in_flight p1 + 1,
                               pl_in_flight_mem := wrap64 (pl_in_flight_mem p1 + vs_memory s) \<rparr>)
          | (False, p1) \<Rightarrow>
              if reclaimableLocked p1 then (WaitReclaim, kick p1)
              else if now > started + pc_bind_wait (pl_cfg p) then (Refused ErrNoCapacity, p1)
              else (WaitReconciler, kick p1))"

definition cold_vm :: "gotime \<Rightarrow> vmID \<Rightarrow> string \<Rightarrow> VMShape \<Rightarrow> poolVM" where
  "cold_vm now i job s =
     \<lparr> pv_id = i, pv_state = Busy, pv_job = job, pv_vcpus = vs_vcpus s, pv_memory = vs_memory s,
       pv_created = now, pv_warm_since = zero_time, pv_busy_since = now,
       pv_destroy_after = zero_time, pv_tries = 0, pv_err = '''' \<rparr>"

text \<open>The locked part after \<open>createAndBoot\<close>, whose answer is an error or the guest's name.\<close>

definition cold_section ::
  "gotime \<Rightarrow> pool_error + vmID \<Rightarrow> string \<Rightarrow> VMShape \<Rightarrow> pool \<Rightarrow> (pool_error + vmID) \<times> pool" where
  "cold_section now res job s p =
     (let p1 = p\<lparr> pl_in_flight := pl_in_flight p - 1,
                  pl_in_flight_mem := wrap64 (pl_in_flight_mem p - vs_memory s) \<rparr>
      in case res of
           Inl e \<Rightarrow> (Inl e, p1)
         | Inr i \<Rightarrow>
             if pl_stopping p1 then (Inl ErrPoolStopped, p1)
             else (Inr i, put_vm i (cold_vm now i job s) p1))"

text \<open>The end of \<open>Bind\<close>: the runner is started, or the guest is destroyed.\<close>

definition bind_end ::
  "gotime \<Rightarrow> string option \<Rightarrow> string option \<Rightarrow> bool \<Rightarrow> vmID \<Rightarrow> string \<Rightarrow> pool \<Rightarrow>
   (pool_error + BindResult) \<times> pool" where
  "bind_end now runner_err destroy_err warm i job p =
     (case runner_err of
        Some e \<Rightarrow> (case beginDestroy now destroy_err i p of (_, p1) \<Rightarrow> (Inl (ErrRunner e), p1))
      | None \<Rightarrow>
          (Inr \<lparr> br_vm = i, br_warm = warm, br_job = job \<rparr>,
           kick (inc_metric (if warm then mt_warm_binds_update else mt_cold_starts_update) p)))"

text \<open>
  \<open>Bind\<close> as its caller sees it, over the rounds of its loop: what each round's clock and sample are, what
  the rest of the program does to the pool while a round waits, and whether the context ends the wait.
\<close>

record bind_env =
  be_now :: gotime
  be_sample :: sample
  be_cancelled :: bool
  be_others :: "pool \<Rightarrow> pool"
  be_create :: "pool_error + vmID"
  be_runner_err :: "string option"
  be_destroy_err :: "string option"

fun bind_loop ::
  "gotime \<Rightarrow> string \<Rightarrow> VMShape \<Rightarrow> bind_env list \<Rightarrow> pool \<Rightarrow> ((pool_error + BindResult) \<times> pool) option"
where
  "bind_loop started job s [] p = None"
| "bind_loop started job s (e # es) p =
     (case bind_section started (be_now e) (be_sample e) job s p of
        (Refused err, p1) \<Rightarrow> Some (Inl err, p1)
      | (BoundWarm i, p1) \<Rightarrow>
          Some (bind_end (be_now e) (be_runner_err e) (be_destroy_err e) True i job (be_others e p1))
      | (ColdCreate, p1) \<Rightarrow>
          (case cold_section (be_now e) (be_create e) job s (be_others e p1) of
             (Inl err, p2) \<Rightarrow> Some (Inl err, p2)
           | (Inr i, p2) \<Rightarrow>
               Some (bind_end (be_now e) (be_runner_err e) (be_destroy_err e) False i job p2))
      | (_, p1) \<Rightarrow>
          if be_cancelled e then Some (Inl ErrCancelled, p1) else bind_loop started job s es (be_others e p1))"

definition Bind ::
  "gotime \<Rightarrow> JobPayload \<Rightarrow> bind_env list \<Rightarrow> pool \<Rightarrow> ((pool_error + BindResult) \<times> pool) option" where
  "Bind started job es p =
     (if jp_job_id job = '''' then Some (Inl ErrJobRequired, p)
      else bind_loop started (jp_job_id job) (job_shape job p) es p)"

text \<open>
  Every round of a bind waited: nobody cancelled it, and once its two deadlines are over, each round still found a
  create under way or a guest that is busy, booting or being destroyed.
\<close>

fun waiting_rounds :: "gotime \<Rightarrow> string \<Rightarrow> VMShape \<Rightarrow> bind_env list \<Rightarrow> pool \<Rightarrow> bool" where
  "waiting_rounds started job s [] p \<longleftrightarrow> True"
| "waiting_rounds started job s (e # es) p \<longleftrightarrow>
     fst (bind_section started (be_now e) (be_sample e) job s p) \<in> {WaitBoot, WaitReclaim, WaitReconciler} \<and>
     \<not> be_cancelled e \<and>
     (be_now e \<le> started + pc_bind_wait (pl_cfg p) \<or> be_now e < started + pc_guest_ready_wait (pl_cfg p) \<or>
        reclaimableLocked p) \<and>
     waiting_rounds started job s es (be_others e (snd (bind_section started (be_now e) (be_sample e) job s p)))"

section \<open>Starting and stopping\<close>

text \<open>\<open>sweep\<close> is the answer of the orphan sweep: an error, or how many instances it destroyed.\<close>

definition Start :: "string + nat \<Rightarrow> pool \<Rightarrow> pool_error option \<times> pool" where
  "Start sweep p =
     (if pl_started p then (Some ErrStarted, p)
      else
        (let p1 = p\<lparr> pl_started := True, pl_stopping := False \<rparr>
         in case sweep of
              Inl e \<Rightarrow> (Some (ErrSweep e), p1\<lparr> pl_started := False \<rparr>)
            | Inr n \<Rightarrow>
                (None, kick (p1\<lparr> pl_metrics := (pl_metrics p1)\<lparr>
                   mt_orphans := mt_orphans (pl_metrics p1) + of_nat n \<rparr> \<rparr>))))"

definition stop_begin :: "pool \<Rightarrow> pool" where
  "stop_begin p = (if pl_started p then p\<lparr> pl_stopping := True \<rparr> else p)"

definition Stop :: "pool \<Rightarrow> pool" where
  "Stop p = (if pl_started p then (stop_begin p)\<lparr> pl_started := False \<rparr> else p)"

fun shutdown_each :: "gotime \<Rightarrow> (vmID \<Rightarrow> string option) \<Rightarrow> vmID list \<Rightarrow> pool \<Rightarrow> pool_error option \<times> pool" where
  "shutdown_each now errs [] p = (None, p)"
| "shutdown_each now errs (i # r) p =
     (case destroyNow now (errs i) i p of
        (e, p1) \<Rightarrow> (case shutdown_each now errs r p1 of
                      (f, p2) \<Rightarrow> (if e \<noteq> None then e else f, p2)))"

definition Shutdown :: "gotime \<Rightarrow> (vmID \<Rightarrow> string option) \<Rightarrow> pool \<Rightarrow> pool_error option \<times> pool" where
  "Shutdown now errs p = shutdown_each now errs (DesiredIDs (Stop p)) (Stop p)"

section \<open>Lemmas\<close>

named_theorems pool_simps \<open>rewrite rules for the pool's fields and guests\<close>

definition pool_wf :: "pool \<Rightarrow> bool" where
  "pool_wf p \<longleftrightarrow> distinct (map fst (pl_vms p))"

lemma get_put_vm [pool_simps]: "get_vm j (put_vm i vm p) = (if j = i then Some vm else get_vm j p)"
  by (simp add: get_vm_def put_vm_def update_conv')

lemma get_del_vm [pool_simps]: "get_vm j (del_vm i p) = (if j = i then None else get_vm j p)"
  by (simp add: get_vm_def del_vm_def delete_conv')

lemma put_vm_fields [pool_simps]:
  "pl_cfg (put_vm i vm p) = pl_cfg p" "pl_started (put_vm i vm p) = pl_started p"
  "pl_stopping (put_vm i vm p) = pl_stopping p" "pl_in_flight (put_vm i vm p) = pl_in_flight p"
  "pl_in_flight_mem (put_vm i vm p) = pl_in_flight_mem p" "pl_vms (put_vm i vm p) = AList.update i vm (pl_vms p)"
  by (simp_all add: put_vm_def)

lemma del_vm_fields [pool_simps]:
  "pl_cfg (del_vm i p) = pl_cfg p" "pl_started (del_vm i p) = pl_started p"
  "pl_stopping (del_vm i p) = pl_stopping p" "pl_in_flight (del_vm i p) = pl_in_flight p"
  "pl_in_flight_mem (del_vm i p) = pl_in_flight_mem p" "pl_vms (del_vm i p) = AList.delete i (pl_vms p)"
  by (simp_all add: del_vm_def)

lemma kick_fields [pool_simps]:
  "pl_cfg (kick p) = pl_cfg p" "pl_started (kick p) = pl_started p" "pl_stopping (kick p) = pl_stopping p"
  "pl_in_flight (kick p) = pl_in_flight p" "pl_in_flight_mem (kick p) = pl_in_flight_mem p"
  "pl_vms (kick p) = pl_vms p" "get_vm j (kick p) = get_vm j p"
  by (simp_all add: kick_def get_vm_def)

lemma get_vm_fields [pool_simps]:
  "get_vm j (p\<lparr> pl_last_err := e \<rparr>) = get_vm j p" "get_vm j (p\<lparr> pl_last_admit := a \<rparr>) = get_vm j p"
  "get_vm j (p\<lparr> pl_in_flight := n, pl_in_flight_mem := m \<rparr>) = get_vm j p"
  "get_vm j (p\<lparr> pl_started := b, pl_stopping := c \<rparr>) = get_vm j p"
  by (simp_all add: get_vm_def)

lemma inc_metric_fields [pool_simps]:
  "pl_cfg (inc_metric u p) = pl_cfg p" "pl_started (inc_metric u p) = pl_started p"
  "pl_stopping (inc_metric u p) = pl_stopping p" "pl_in_flight (inc_metric u p) = pl_in_flight p"
  "pl_in_flight_mem (inc_metric u p) = pl_in_flight_mem p" "pl_vms (inc_metric u p) = pl_vms p"
  "get_vm j (inc_metric u p) = get_vm j p"
  by (simp_all add: inc_metric_def get_vm_def)

lemma bound_simps [pool_simps]:
  "pv_state (bound now job vm) = Busy" "pv_job (bound now job vm) = job"
  "pv_memory (bound now job vm) = pv_memory vm" "pv_vcpus (bound now job vm) = pv_vcpus vm"
  by (simp_all add: bound_def)

lemma mark_destroying_simps [pool_simps]:
  "pv_state (mark_destroying vm) = Destroying" "pv_job (mark_destroying vm) = ''''"
  "pv_memory (mark_destroying vm) = pv_memory vm" "pv_vcpus (mark_destroying vm) = pv_vcpus vm"
  "pv_destroy_after (mark_destroying vm) = zero_time"
  by (simp_all add: mark_destroying_def)

lemma new_vm_simps [pool_simps]:
  "pv_state (booting_vm now i s) = PoolBoot" "pv_job (booting_vm now i s) = ''''"
  "pv_memory (booting_vm now i s) = vs_memory s" "pv_vcpus (booting_vm now i s) = vs_vcpus s"
  "pv_state (cold_vm now i job s) = Busy" "pv_job (cold_vm now i job s) = job"
  "pv_memory (cold_vm now i job s) = vs_memory s" "pv_vcpus (cold_vm now i job s) = vs_vcpus s"
  by (simp_all add: booting_vm_def cold_vm_def)

lemma can_create_pool:
  "snd (canCreateLocked smp m p) = p\<lparr> pl_last_admit := pl_last_admit (snd (canCreateLocked smp m p)) \<rparr>"
  by (simp add: canCreateLocked_def noteAdmitRefuse_def Let_def split: option.split)

lemma can_create_fields:
  assumes "canCreateLocked smp m p = (b, q)"
  shows "pl_vms q = pl_vms p" "pl_in_flight q = pl_in_flight p" "pl_in_flight_mem q = pl_in_flight_mem p"
    "pl_cfg q = pl_cfg p" "pl_started q = pl_started p" "pl_stopping q = pl_stopping p"
proof -
  obtain a where "q = p\<lparr> pl_last_admit := a \<rparr>" using can_create_pool [of smp m p] assms by simp
  then show "pl_vms q = pl_vms p" "pl_in_flight q = pl_in_flight p" "pl_in_flight_mem q = pl_in_flight_mem p"
    "pl_cfg q = pl_cfg p" "pl_started q = pl_started p" "pl_stopping q = pl_stopping p" by simp_all
qed

lemma Total_countsLocked: "Total (countsLocked p) = int (length (pl_vms p))"
proof -
  have "length (filter (\<lambda>(i, vm). pv_state vm = PoolBoot) xs)
      + length (filter (\<lambda>(i, vm). pv_state vm = Warm) xs) + length (filter (\<lambda>(i, vm). pv_state vm = Busy) xs)
      + length (filter (\<lambda>(i, vm). pv_state vm = Destroying) xs) = length xs" for xs :: "(vmID \<times> poolVM) list"
  proof (induction xs)
    case (Cons x xs)
    obtain i vm where x: "x = (i, vm)" by fastforce
    show ?case using Cons.IH unfolding x by (cases "pv_state vm") simp_all
  qed simp
  from this [of "pl_vms p"] show ?thesis
    by (simp add: Total_def countsLocked_def in_state_def flip: of_nat_add)
qed

lemma can_create_total:
  "fst (canCreateLocked smp m p) \<Longrightarrow> int (length (pl_vms p)) + pl_in_flight p < pc_max_total (pl_cfg p)"
  by (auto simp: canCreateLocked_def Total_countsLocked split: if_splits)

lemma reclaimable_can_create:
  assumes "canCreateLocked smp m p = (b, q)"
  shows "reclaimableLocked q = reclaimableLocked p"
  using can_create_fields [OF assms] by (simp add: reclaimableLocked_def)

lemma bind_section_waits:
  assumes "bind_section started now smp job s p = (r, q)" and "r \<in> {WaitBoot, WaitReclaim, WaitReconciler}"
  shows "now \<le> started + pc_bind_wait (pl_cfg p) \<or> now < started + pc_guest_ready_wait (pl_cfg p) \<or> reclaimableLocked p"
proof -
  obtain b p1 where c: "canCreateLocked smp (vs_memory s) p = (b, p1)" by fastforce
  show ?thesis
    using assms c reclaimable_can_create [OF c] can_create_fields(4) [OF c]
    by (cases b) (auto simp: bind_section_def split: if_splits option.splits)
qed

text \<open>A bind that has not returned after some rounds is waiting for another guest.\<close>

lemma bind_loop_waits: "bind_loop started job s es p = None \<Longrightarrow> waiting_rounds started job s es p"
proof (induction es arbitrary: p)
  case (Cons e es)
  obtain r p1 where b: "bind_section started (be_now e) (be_sample e) job s p = (r, p1)" by fastforce
  have next_round: "\<not> be_cancelled e \<and> r \<in> {WaitBoot, WaitReclaim, WaitReconciler} \<and>
      bind_loop started job s es (be_others e p1) = None"
    using Cons.prems b by (auto split: bind_round.splits if_splits prod.splits sum.splits)
  moreover have "be_now e \<le> started + pc_bind_wait (pl_cfg p) \<or> be_now e < started + pc_guest_ready_wait (pl_cfg p) \<or>
      reclaimableLocked p"
    using bind_section_waits [OF b] next_round by blast
  ultimately show ?case using Cons.IH b by simp
qed simp

text \<open>
  The wait is without bound: where no create is allowed and nothing of the right size is warm or booting, a guest that is
  not gone holds every round, also one whose destruction keeps failing.
\<close>

lemma undestroyed_guest_blocks_bind:
  assumes "pl_started p" "\<not> pl_stopping p" "pickWarmLocked (vs_vcpus s) (vs_memory s) p = None"
    and "\<not> matchingPoolBootLocked (vs_vcpus s) (vs_memory s) p" "(i, vm) \<in> set (pl_vms p)" "pv_state vm = Destroying"
    and "int (length (pl_vms p)) + pl_in_flight p \<ge> pc_max_total (pl_cfg p)"
    and "\<And>e q. e \<in> set es \<Longrightarrow> \<not> be_cancelled e \<and> be_others e q = q\<lparr> pl_last_admit := '''' \<rparr>"
  shows "bind_loop started job s es p = None"
  using assms
proof (induction es arbitrary: p)
  case (Cons e es)
  have re: "reclaimableLocked p" using Cons.prems(5,6) by (auto simp: reclaimableLocked_def list_ex_iff)
  obtain q where c: "canCreateLocked (be_sample e) (vs_memory s) p = (False, q)"
    using Cons.prems(7) by (simp add: canCreateLocked_def Total_countsLocked)
  note f = can_create_fields [OF c]
  have same: "reclaimableLocked q" using re f by (simp add: reclaimableLocked_def)
  have b: "bind_section started (be_now e) (be_sample e) job s p = (WaitReclaim, kick q)"
    using Cons.prems(1-4) c same by (simp add: bind_section_def)
  have "bind_loop started job s es (be_others e (kick q)) = None"
    using Cons.prems f
    by (intro Cons.IH) (auto simp: kick_def pickWarmLocked_def matchingPoolBootLocked_def)
  then show ?case using b Cons.prems(8) [of e] by simp
qed simp

text \<open>The candidates for a bind, and the choice among them.\<close>

definition warm_match :: "int \<Rightarrow> int \<Rightarrow> poolVM \<Rightarrow> bool" where
  "warm_match v m vm \<longleftrightarrow> pv_state vm = Warm \<and> pv_vcpus vm = v \<and> pv_memory vm = m"

definition candidates :: "int \<Rightarrow> int \<Rightarrow> (vmID \<times> poolVM) list \<Rightarrow> (vmID \<times> gotime) list" where
  "candidates v m xs = map (\<lambda>(i, vm). (i, pv_warm_since vm)) (filter (\<lambda>(i, vm). warm_match v m vm) xs)"

definition older :: "vmID \<times> gotime \<Rightarrow> (vmID \<times> gotime) option \<Rightarrow> (vmID \<times> gotime) option" where
  "older x best = (case best of None \<Rightarrow> Some x | Some b \<Rightarrow> Some (if snd x < snd b then x else b))"

lemma oldest_warm_fold: "oldest_warm v m xs best = fold older (candidates v m xs) best"
  by (induction v m xs best rule: oldest_warm.induct)
    (auto simp: candidates_def older_def warm_match_def split: option.splits)

lemma older_Some: "older x (Some b) = Some (if snd x < snd b then x else b)"
  by (simp add: older_def)

lemma fold_older_Some:
  "\<exists>x. fold older xs (Some b) = Some x \<and> x \<in> insert b (set xs) \<and> (\<forall>y \<in> insert b (set xs). snd x \<le> snd y)"
proof (induction xs arbitrary: b)
  case (Cons a xs)
  show ?case
  proof (cases "snd a < snd b")
    case True
    obtain x where "fold older xs (Some a) = Some x" "x \<in> insert a (set xs)" "\<forall>y \<in> insert a (set xs). snd x \<le> snd y"
      using Cons.IH [of a] by blast
    then show ?thesis using True by (intro exI [of _ x]) (auto simp: older_Some)
  next
    case False
    obtain x where "fold older xs (Some b) = Some x" "x \<in> insert b (set xs)" "\<forall>y \<in> insert b (set xs). snd x \<le> snd y"
      using Cons.IH [of b] by blast
    then show ?thesis using False by (intro exI [of _ x]) (auto simp: older_Some)
  qed
qed simp

lemma pick_warm_None:
  "pickWarmLocked v m p = None \<longleftrightarrow> (\<forall>(i, vm) \<in> set (pl_vms p). \<not> warm_match v m vm)"
proof (cases "candidates v m (pl_vms p)")
  case Nil
  then show ?thesis
    by (auto simp: pickWarmLocked_def oldest_warm_fold candidates_def filter_empty_conv)
next
  case (Cons b bs)
  have "b \<in> set (candidates v m (pl_vms p))" by (simp add: Cons)
  then have "\<exists>(i, vm) \<in> set (pl_vms p). warm_match v m vm" by (auto simp: candidates_def)
  then show ?thesis
    using Cons fold_older_Some [of bs b] by (auto simp: pickWarmLocked_def oldest_warm_fold older_def)
qed

lemma pick_warm_Some:
  assumes "pool_wf p" and "pickWarmLocked v m p = Some i"
  obtains vm where "get_vm i p = Some vm" "warm_match v m vm"
    "\<And>j w. get_vm j p = Some w \<Longrightarrow> warm_match v m w \<Longrightarrow> pv_warm_since vm \<le> pv_warm_since w"
proof -
  obtain b bs where c: "candidates v m (pl_vms p) = b # bs"
    using assms(2) by (cases "candidates v m (pl_vms p)") (auto simp: pickWarmLocked_def oldest_warm_fold)
  obtain x where x: "fold older bs (Some b) = Some x" "x \<in> set (candidates v m (pl_vms p))"
    "\<forall>y \<in> set (candidates v m (pl_vms p)). snd x \<le> snd y"
    using fold_older_Some [of bs b] unfolding c by auto
  have i: "i = fst x" using assms(2) x(1) c by (simp add: pickWarmLocked_def oldest_warm_fold older_def)
  obtain vm where "(i, vm) \<in> set (pl_vms p)" "warm_match v m vm" "snd x = pv_warm_since vm"
    using x(2) i by (auto simp: candidates_def)
  moreover have "pv_warm_since vm \<le> pv_warm_since w" if "get_vm j p = Some w" "warm_match v m w" for j w
  proof -
    have "(j, pv_warm_since w) \<in> set (candidates v m (pl_vms p))"
      using that by (force simp: candidates_def get_vm_def dest: map_of_SomeD)
    then show ?thesis using x(3) \<open>snd x = pv_warm_since vm\<close> by auto
  qed
  ultimately show ?thesis using assms(1) by (intro that) (auto simp: get_vm_def pool_wf_def)
qed

section \<open>Properties\<close>

text \<open>
  A job is bound to the oldest warm guest of its size: while the pool runs, a bind in whose size a warm
  guest waits is answered at once with one that has waited longest, which becomes busy with that job; no
  other guest, and no counter of the pool, changes.
\<close>

theorem bind_takes_oldest_warm:
  assumes "pool_wf p" and "pl_started p" and "\<not> pl_stopping p"
    and "get_vm j p = Some w" and "warm_match (vs_vcpus s) (vs_memory s) w"
  shows "\<exists>i vm. bind_section started now smp job s p = (BoundWarm i, put_vm i (bound now job vm) p) \<and>
    get_vm i p = Some vm \<and> warm_match (vs_vcpus s) (vs_memory s) vm \<and>
    (\<forall>k u. get_vm k p = Some u \<longrightarrow> warm_match (vs_vcpus s) (vs_memory s) u \<longrightarrow>
       pv_warm_since vm \<le> pv_warm_since u)"
proof -
  have "(j, w) \<in> set (pl_vms p)" using assms(4) by (simp add: get_vm_def map_of_SomeD)
  then have "pickWarmLocked (vs_vcpus s) (vs_memory s) p \<noteq> None" using assms(5) pick_warm_None by blast
  then obtain i where i: "pickWarmLocked (vs_vcpus s) (vs_memory s) p = Some i" by blast
  obtain vm where "get_vm i p = Some vm" "warm_match (vs_vcpus s) (vs_memory s) vm"
    "\<And>j w. get_vm j p = Some w \<Longrightarrow> warm_match (vs_vcpus s) (vs_memory s) w \<Longrightarrow> pv_warm_since vm \<le> pv_warm_since w"
    using pick_warm_Some [OF assms(1) i] by metis
  then show ?thesis using i assms(2,3) by (auto simp: bind_section_def)
qed

definition demo_shape :: VMShape where
  "demo_shape = \<lparr> vs_label = ''s'', vs_vcpus = 4, vs_memory = 8192, vs_min_ready = 1 \<rparr>"

definition demo_warm :: "vmID \<Rightarrow> gotime \<Rightarrow> poolVM" where
  "demo_warm i t = (booting_vm 1 i demo_shape)\<lparr> pv_state := Warm, pv_warm_since := t \<rparr>"

definition demo_pool :: "(vmID \<times> poolVM) list \<Rightarrow> pool" where
  "demo_pool vms =
     \<lparr> pl_cfg = demo_pool_config, pl_vms = vms, pl_started = True, pl_stopping = False, pl_last_err = '''',
       pl_metrics = no_metrics, pl_in_flight = 0, pl_in_flight_mem = 0, pl_configured_max = 9,
       pl_clamp_reason = '''', pl_last_admit = '''', pl_wake = False \<rparr>"

theorem bind_takes_oldest_warm_witness:
  "\<exists>i vm. bind_section 50 50 None ''job'' demo_shape
       (demo_pool [(''vm-1'', demo_warm ''vm-1'' 20), (''vm-2'', demo_warm ''vm-2'' 10)]) =
     (BoundWarm i, put_vm i (bound 50 ''job'' vm)
       (demo_pool [(''vm-1'', demo_warm ''vm-1'' 20), (''vm-2'', demo_warm ''vm-2'' 10)])) \<and>
     pv_warm_since vm \<le> 10"
proof -
  let ?p = "demo_pool [(''vm-1'', demo_warm ''vm-1'' 20), (''vm-2'', demo_warm ''vm-2'' 10)]"
  have g: "get_vm ''vm-2'' ?p = Some (demo_warm ''vm-2'' 10)" and w: "pool_wf ?p"
    and st: "pl_started ?p" "\<not> pl_stopping ?p"
    by (simp_all add: get_vm_def demo_pool_def pool_wf_def)
  have m: "warm_match (vs_vcpus demo_shape) (vs_memory demo_shape) (demo_warm ''vm-2'' 10)"
    by (simp add: warm_match_def demo_warm_def booting_vm_def)
  have t: "pv_warm_since (demo_warm ''vm-2'' 10) = 10" by (simp add: demo_warm_def)
  show ?thesis using bind_takes_oldest_warm [OF w st g m] g m t by metis
qed

text \<open>The settings a pool starts with.\<close>

definition config_ok :: "PoolConfig \<Rightarrow> bool" where
  "config_ok c \<longleftrightarrow>
     0 \<le> pc_min_ready c \<and> pc_min_ready c \<le> pc_max_ready c \<and> 0 < pc_max_total c \<and> 0 < pc_vcpus c \<and>
     0 < pc_memory c \<and> pc_shapes c \<noteq> [] \<and> pc_image c \<noteq> '''' \<and> 0 < pc_reconcile_interval c \<and>
     0 < pc_retry_base c \<and> 0 < pc_retry_max c \<and> 0 < pc_bind_wait c \<and> 0 < pc_guest_ready_wait c"

lemma max_fit_nonneg: "0 \<le> fst (MaxFit a h)"
  using ad_mem_pos [of a]
  by (auto simp: MaxFit_def Let_def sdiv_nonneg pos_imp_zdiv_nonneg_iff)

lemma clamp_keeps_ok:
  assumes "config_ok c" and "ClampPoolToHost c h = (c', fit, why)"
  shows "config_ok c' \<and> pc_max_ready c' \<le> pc_max_ready c"
proof -
  have "0 \<le> fst (MaxFit (pool_admission c) h)" by (rule max_fit_nonneg)
  then show ?thesis
    using assms by (auto simp: ClampPoolToHost_def config_ok_def Let_def split: prod.splits if_splits)
qed

lemma sane_counts_ok:
  "pc_max_ready c < 2 ^ 62 \<Longrightarrow> pc_min_ready c < 2 ^ 62 \<Longrightarrow>
    0 \<le> pc_min_ready (sane_counts c) \<and> pc_min_ready (sane_counts c) \<le> pc_max_ready (sane_counts c) \<and>
    0 < pc_max_total (sane_counts c) \<and> pc_image (sane_counts c) = pc_image c"
  by (auto simp: sane_counts_def Let_def wrap64_id)

lemma sane_shapes_ok:
  "0 < pc_vcpus (sane_shapes c) \<and> 0 < pc_memory (sane_shapes c) \<and> pc_shapes (sane_shapes c) \<noteq> [] \<and>
   pc_min_ready (sane_shapes c) = pc_min_ready c \<and> pc_max_ready (sane_shapes c) = pc_max_ready c \<and>
   pc_max_total (sane_shapes c) = pc_max_total c \<and> pc_image (sane_shapes c) = pc_image c"
  by (auto simp: sane_shapes_def Let_def)

lemma sane_times_ok:
  "0 < pc_reconcile_interval (sane_times c) \<and> 0 < pc_retry_base (sane_times c) \<and> 0 < pc_retry_max (sane_times c) \<and>
   0 < pc_bind_wait (sane_times c) \<and> 0 < pc_guest_ready_wait (sane_times c)"
  by (auto simp: sane_times_def or_default_def second_def millisecond_def)

lemma sane_times_other:
  "pc_vcpus (sane_times c) = pc_vcpus c" "pc_memory (sane_times c) = pc_memory c"
  "pc_shapes (sane_times c) = pc_shapes c" "pc_min_ready (sane_times c) = pc_min_ready c"
  "pc_max_ready (sane_times c) = pc_max_ready c" "pc_max_total (sane_times c) = pc_max_total c"
  "pc_image (sane_times c) = pc_image c" "pc_disk (sane_times c) = pc_disk c"
  by (simp_all add: sane_times_def)

text \<open>
  Whatever the configuration, a pool starts empty, stopped, and with usable settings: ordered targets
  that do not exceed the configured limit, a positive cap, guest size and intervals, and a catalog. When
  the host cannot be sampled the targets are zero, so that nothing is created in advance.
\<close>

theorem new_pool_settings:
  assumes "NewPool stat smp cfg = Inr p" and "pc_max_ready cfg < 2 ^ 62" and "pc_min_ready cfg < 2 ^ 62"
  shows "config_ok (pl_cfg p) \<and> pl_vms p = [] \<and> pl_in_flight p = 0 \<and> \<not> pl_started p \<and>
    pc_max_ready (pl_cfg p) \<le> pl_configured_max p \<and>
    (smp = Some None \<longrightarrow> pc_max_ready (pl_cfg p) = 0 \<and> pl_clamp_reason p = ''inventory_error'')"
proof -
  let ?c1 = "sane_shapes (sane_counts cfg)"
  let ?c2 = "sane_times ?c1"
  let ?c3 = "if pc_disk ?c2 \<le> 0 then ?c2\<lparr> pc_disk := OverlayEstimateMiB stat \<rparr> else ?c2"
  have img: "pc_image ?c1 \<noteq> ''''" using assms(1) by (auto simp: NewPool_def Let_def split: if_splits)
  then have ok: "config_ok ?c3"
    using sane_counts_ok [OF assms(2,3)] sane_shapes_ok [of "sane_counts cfg"] sane_times_ok [of ?c1]
    by (simp add: config_ok_def sane_times_other)
  show ?thesis
  proof (cases smp)
    case None
    then show ?thesis using assms(1) ok img by (auto simp: NewPool_def Let_def split: if_splits)
  next
    case (Some hs)
    show ?thesis
    proof (cases hs)
      case None
      have "config_ok (?c3\<lparr> pc_min_ready := 0, pc_max_ready := 0 \<rparr>)" "0 \<le> pc_max_ready ?c3"
        using ok by (auto simp: config_ok_def)
      then show ?thesis using assms(1) img Some None by (auto simp: NewPool_def Let_def split: if_splits)
    next
      case (Some h)
      obtain c' fit why where cl: "ClampPoolToHost ?c3 h = (c', fit, why)" by (metis prod_cases3)
      then have "pl_cfg p = c' \<and> pl_vms p = [] \<and> pl_in_flight p = 0 \<and> \<not> pl_started p \<and>
          pl_configured_max p = pc_max_ready ?c3"
        using assms(1) img \<open>smp = Some hs\<close> Some by (auto simp: NewPool_def Let_def)
      then show ?thesis using clamp_keeps_ok [OF ok cl] \<open>smp = Some hs\<close> Some by simp
    qed
  qed
qed

theorem new_pool_settings_witness:
  "\<exists>p. NewPool None (Some (Some demo_host)) (demo_pool_config\<lparr> pc_min_ready := -1, pc_max_total := 0 \<rparr>) = Inr p \<and>
    config_ok (pl_cfg p) \<and> pc_max_ready (pl_cfg p) = 3"
proof -
  let ?r = "NewPool None (Some (Some demo_host)) (demo_pool_config\<lparr> pc_min_ready := -1, pc_max_total := 0 \<rparr>)"
  have e: "case ?r of Inl e \<Rightarrow> False | Inr p \<Rightarrow> pc_max_ready (pl_cfg p) = 3" by code_simp
  then obtain p where p: "?r = Inr p" by (cases ?r) simp_all
  then have "config_ok (pl_cfg p)" using new_pool_settings [OF p] by (simp add: demo_pool_config_def)
  then show ?thesis using p e by simp
qed

text \<open>Failures of destroying one guest, one after the other.\<close>

definition destroy_failures :: "vmID \<Rightarrow> (gotime \<times> string) list \<Rightarrow> pool \<Rightarrow> pool" where
  "destroy_failures i fs p = fold (\<lambda>(t, e). destroy_result t (Some e) i) fs p"

lemma destroy_failure_step:
  "get_vm i p = Some vm \<Longrightarrow>
    get_vm i (destroy_result t (Some e) i p) =
      Some (vm\<lparr> pv_state := Destroying, pv_tries := pv_tries vm + 1, pv_err := e,
               pv_destroy_after := t + backoff (pl_cfg p) (pv_tries vm + 1) \<rparr>) \<and>
    pl_cfg (destroy_result t (Some e) i p) = pl_cfg p"
  by (simp add: destroy_result_def Let_def pool_simps)

lemma backoff_eq:
  assumes "0 < pc_retry_base cfg" and "pc_retry_base cfg < 2 ^ 56" and "0 < n"
  shows "backoff cfg n = min (pc_retry_max cfg) (pc_retry_base cfg * 2 ^ min 6 (nat n - 1))"
proof -
  let ?s = "nat (if (if 6 < n - 1 then 6 else n - 1) < 0 then 0 else (if 6 < n - 1 then 6 else n - 1))"
  have s: "?s = min 6 (nat n - 1)" using assms(3) by auto
  have "(2 :: int) ^ min 6 (nat n - 1) \<le> 2 ^ 6" by (intro power_increasing) auto
  then have "pc_retry_base cfg * 2 ^ min 6 (nat n - 1) \<le> 2 ^ 56 * 2 ^ 6"
    using assms by (intro mult_mono) auto
  then have "pc_retry_base cfg * 2 ^ min 6 (nat n - 1) \<le> 2 ^ 62" by simp
  moreover have "0 \<le> pc_retry_base cfg * 2 ^ min 6 (nat n - 1)" using assms by simp
  ultimately have w: "wrap64 (pc_retry_base cfg * 2 ^ min 6 (nat n - 1)) = pc_retry_base cfg * 2 ^ min 6 (nat n - 1)"
    by (rule wrap64_nonneg [rotated])
  show ?thesis unfolding backoff_def Let_def s w by (simp add: min_def)
qed

text \<open>
  A guest whose destruction keeps failing is never forgotten, and is retried with a capped exponential
  backoff: after k failures it is still held as destroying, with k tries counted and the last error, and is
  not retried before the last failure plus the base times 2 to the power of k - 1, of 6 at most, and the
  configured maximum at most.
\<close>

theorem destroy_failures_back_off:
  assumes "get_vm i p = Some vm" and "pv_tries vm = 0" and "fs \<noteq> []"
    and "0 < pc_retry_base (pl_cfg p)" and "pc_retry_base (pl_cfg p) < 2 ^ 56"
  shows "get_vm i (destroy_failures i fs p) =
    Some (vm\<lparr> pv_state := Destroying, pv_tries := int (length fs), pv_err := snd (last fs),
             pv_destroy_after := fst (last fs) +
               min (pc_retry_max (pl_cfg p)) (pc_retry_base (pl_cfg p) * 2 ^ min 6 (length fs - 1)) \<rparr>)"
proof -
  have "get_vm i (destroy_failures i fs p) =
      Some (vm\<lparr> pv_state := Destroying, pv_tries := int (length fs), pv_err := snd (last fs),
               pv_destroy_after := fst (last fs) + backoff (pl_cfg p) (int (length fs)) \<rparr>) \<and>
      pl_cfg (destroy_failures i fs p) = pl_cfg p"
    using assms(3)
  proof (induction fs rule: rev_nonempty_induct)
    case (single x)
    then show ?case
      using destroy_failure_step [OF assms(1), of "fst x" "snd x"] assms(2)
      by (simp add: destroy_failures_def split_def)
  next
    case (snoc x xs)
    let ?q = "destroy_failures i xs p"
    have "destroy_failures i (xs @ [x]) p = destroy_result (fst x) (Some (snd x)) i ?q"
      by (simp add: destroy_failures_def split_def)
    then show ?case
      using destroy_failure_step [OF conjunct1 [OF snoc.IH], of "fst x" "snd x"] snoc.IH
      by (simp add: add.commute)
  qed
  then show ?thesis using backoff_eq [OF assms(4,5), of "int (length fs)"] assms(3) by simp
qed

theorem destroy_failures_back_off_witness:
  "map_option (\<lambda>vm. (pv_tries vm, pv_destroy_after vm))
     (get_vm ''vm-1'' (destroy_failures ''vm-1'' [(10, ''busy''), (200, ''busy''), (500, ''busy'')]
        (demo_pool [(''vm-1'', demo_warm ''vm-1'' 20)]))) = Some (3, 900)"
proof -
  let ?p = "demo_pool [(''vm-1'', demo_warm ''vm-1'' 20)]"
  have "get_vm ''vm-1'' ?p = Some (demo_warm ''vm-1'' 20)" by (simp add: get_vm_def demo_pool_def)
  then show ?thesis
    using destroy_failures_back_off [of "''vm-1''" ?p "demo_warm ''vm-1'' 20"
        "[(10, ''busy''), (200, ''busy''), (500, ''busy'')]"]
    by (simp add: demo_pool_def demo_pool_config_def demo_warm_def booting_vm_def)
qed

text \<open>Refilling the warm pool.\<close>

definition have_ready :: "VMShape \<Rightarrow> pool \<Rightarrow> int" where
  "have_ready s p = countShapeLocked (vs_vcpus s) (vs_memory s) [Warm, PoolBoot] p"

definition boots_of :: "gotime \<Rightarrow> VMShape \<Rightarrow> vmID list \<Rightarrow> (vmID \<times> poolVM) list" where
  "boots_of now s ids = map (\<lambda>i. (i, booting_vm now i s)) ids"

text \<open>Room for \<open>d\<close> more guests, and names for them.\<close>

definition refill_ready :: "int \<Rightarrow> vmID list \<Rightarrow> pool \<Rightarrow> bool" where
  "refill_ready d ids p \<longleftrightarrow>
     \<not> pl_stopping p \<and> in_state Busy p = 0 \<and> distinct ids \<and> set ids \<inter> fst ` set (pl_vms p) = {} \<and>
     int (length (pl_vms p)) + pl_in_flight p + d \<le> pc_max_total (pl_cfg p) \<and>
     in_state Warm p + in_state PoolBoot p + d \<le> pc_max_ready (pl_cfg p)"

lemma refill_step:
  assumes "refill_ready d (i # ids) p" and "have_ready s p < vs_min_ready s" and "0 < d"
  shows "\<exists>a. reservePoolBoot now None (Some i) s p =
      (None, p\<lparr> pl_last_admit := a, pl_vms := pl_vms p @ boots_of now s [i] \<rparr>)"
    and "refill_ready (d - 1) ids (p\<lparr> pl_last_admit := a, pl_vms := pl_vms p @ boots_of now s [i] \<rparr>)"
    and "have_ready s (p\<lparr> pl_last_admit := a, pl_vms := pl_vms p @ boots_of now s [i] \<rparr>) = have_ready s p + 1"
proof -
  have c: "canCreateLocked None (vs_memory s) p = (True, p\<lparr> pl_last_admit := '''' \<rparr>)"
    using assms(1,3) by (simp add: canCreateLocked_def Total_countsLocked refill_ready_def)
  show "\<exists>a. reservePoolBoot now None (Some i) s p =
      (None, p\<lparr> pl_last_admit := a, pl_vms := pl_vms p @ boots_of now s [i] \<rparr>)"
    using assms c
    by (intro exI [of _ "''''"]) (auto simp: reservePoolBoot_def Let_def refill_ready_def have_ready_def
      countsLocked_def put_vm_def update_fresh boots_of_def)
  show "refill_ready (d - 1) ids (p\<lparr> pl_last_admit := a, pl_vms := pl_vms p @ boots_of now s [i] \<rparr>)"
    using assms(1) by (auto simp: refill_ready_def in_state_def boots_of_def pool_simps)
  show "have_ready s (p\<lparr> pl_last_admit := a, pl_vms := pl_vms p @ boots_of now s [i] \<rparr>) = have_ready s p + 1"
    by (simp add: have_ready_def countShapeLocked_def boots_of_def pool_simps)
qed

lemma refill_full:
  "refill_ready d ids p \<Longrightarrow> vs_min_ready s \<le> have_ready s p \<Longrightarrow>
    reservePoolBoot now smp (Some i) s p = (Some ErrNoCapacity, p)"
  by (simp add: reservePoolBoot_def Let_def refill_ready_def have_ready_def countsLocked_def)

lemma replenish_shape_fills:
  assumes "refill_ready d ids p" and "int n = max 0 (vs_min_ready s - have_ready s p)"
    and "int n \<le> d" and "n < length ids"
  shows "\<exists>a. replenish_shape now None s ids p =
      (False, take n ids, drop (Suc n) ids, p\<lparr> pl_last_admit := a, pl_vms := pl_vms p @ boots_of now s (take n ids) \<rparr>)"
  using assms
proof (induction n arbitrary: ids p d)
  case 0
  obtain i rest where ids: "ids = i # rest" using "0.prems"(4) by (cases ids) auto
  have "vs_min_ready s \<le> have_ready s p" using "0.prems"(2) by simp
  then show ?case
    using refill_full [OF "0.prems"(1), of s now None i]
    by (intro exI [of _ "pl_last_admit p"]) (simp add: ids boots_of_def)
next
  case (Suc n)
  obtain i rest where ids: "ids = i # rest" using Suc.prems(4) by (cases ids) auto
  have lt: "have_ready s p < vs_min_ready s" "0 < d" using Suc.prems(2,3) by auto
  have rd: "refill_ready d (i # rest) p" using Suc.prems(1) ids by simp
  obtain a where r: "reservePoolBoot now None (Some i) s p =
      (None, p\<lparr> pl_last_admit := a, pl_vms := pl_vms p @ boots_of now s [i] \<rparr>)"
    using refill_step(1) [OF rd lt] by blast
  let ?q = "p\<lparr> pl_last_admit := a, pl_vms := pl_vms p @ boots_of now s [i] \<rparr>"
  have "int n = max 0 (vs_min_ready s - have_ready s ?q)"
    using Suc.prems(2) refill_step(3) [OF rd lt] by auto
  moreover have "int n \<le> d - 1" "n < length rest" using Suc.prems(3,4) ids by auto
  ultimately obtain b where "replenish_shape now None s rest ?q =
      (False, take n rest, drop (Suc n) rest, ?q\<lparr> pl_last_admit := b, pl_vms := pl_vms ?q @ boots_of now s (take n rest) \<rparr>)"
    using Suc.IH [OF refill_step(2) [OF rd lt, of now a]] by blast
  then show ?case using r by (intro exI [of _ b]) (simp add: ids boots_of_def)
qed

lemma have_ready_append:
  "have_ready s p \<le> have_ready s (p\<lparr> pl_last_admit := a, pl_vms := pl_vms p @ xs \<rparr>)"
  by (simp add: have_ready_def countShapeLocked_def)

lemma refill_after_shape:
  assumes "refill_ready d ids p" and "int n \<le> d" and "n < length ids"
  shows "refill_ready (d - int n) (drop (Suc n) ids)
    (p\<lparr> pl_last_admit := a, pl_vms := pl_vms p @ boots_of now s (take n ids) \<rparr>)"
proof -
  have f: "filter (\<lambda>(i, vm). pv_state vm = st) (boots_of now s xs) = (if st = PoolBoot then boots_of now s xs else [])"
    for st xs by (induction xs) (auto simp: boots_of_def pool_simps)
  have "set (take n ids) \<inter> set (drop (Suc n) ids) = {}"
    using assms(1) set_take_disj_set_drop_if_distinct [of ids n "Suc n"] by (simp add: refill_ready_def)
  then show ?thesis
    using assms f set_drop_subset [of "Suc n" ids]
    by (auto simp: refill_ready_def in_state_def boots_of_def min_def distinct_drop)
qed

definition total_target :: "VMShape list \<Rightarrow> int" where
  "total_target ss = sum_list (map (\<lambda>s. max 0 (vs_min_ready s)) ss)"

lemma total_target_nonneg: "0 \<le> total_target ss"
  unfolding total_target_def by (intro sum_list_nonneg) auto

lemma replenish_all_fills:
  assumes "refill_ready (total_target ss) ids p" and "total_target ss + int (length ss) \<le> int (length ids)"
  shows "\<exists>a xs new. replenish_all now None ss ids p = (new, p\<lparr> pl_last_admit := a, pl_vms := pl_vms p @ xs \<rparr>) \<and>
    map fst xs = new \<and> (\<forall>(i, vm) \<in> set xs. pv_state vm = PoolBoot) \<and>
    (\<forall>s \<in> set ss. vs_min_ready s \<le> 0 \<or> vs_min_ready s \<le> have_ready s (p\<lparr> pl_last_admit := a, pl_vms := pl_vms p @ xs \<rparr>))"
  using assms
proof (induction ss arbitrary: ids p)
  case Nil
  show ?case by (intro exI [of _ "pl_last_admit p"] exI [of _ "[]"]) simp
next
  case (Cons s ss)
  show ?case
  proof (cases "vs_min_ready s \<le> 0")
    case True
    then have "total_target (s # ss) = total_target ss" by (simp add: total_target_def)
    then obtain a xs new where "replenish_all now None ss ids p = (new, p\<lparr> pl_last_admit := a, pl_vms := pl_vms p @ xs \<rparr>)"
      "map fst xs = new" "\<forall>(i, vm) \<in> set xs. pv_state vm = PoolBoot"
      "\<forall>s \<in> set ss. vs_min_ready s \<le> 0 \<or> vs_min_ready s \<le> have_ready s (p\<lparr> pl_last_admit := a, pl_vms := pl_vms p @ xs \<rparr>)"
      using Cons.IH [of ids p] Cons.prems by auto
    then show ?thesis using True by (intro exI [of _ a] exI [of _ xs] exI [of _ new]) simp
  next
    case False
    define n where "n = nat (max 0 (vs_min_ready s - have_ready s p))"
    have h0: "0 \<le> have_ready s p" by (simp add: have_ready_def countShapeLocked_def)
    have t: "total_target (s # ss) = vs_min_ready s + total_target ss" using False by (simp add: total_target_def)
    have n: "int n = max 0 (vs_min_ready s - have_ready s p)" "int n \<le> vs_min_ready s" "n < length ids"
      using False h0 t Cons.prems(2) total_target_nonneg [of ss] by (auto simp: n_def)
    have nd: "int n \<le> total_target (s # ss)" using n(2) t total_target_nonneg [of ss] by simp
    obtain a where r: "replenish_shape now None s ids p = (False, take n ids, drop (Suc n) ids,
        p\<lparr> pl_last_admit := a, pl_vms := pl_vms p @ boots_of now s (take n ids) \<rparr>)"
      using replenish_shape_fills [OF Cons.prems(1) n(1) nd n(3)] by blast
    let ?q = "p\<lparr> pl_last_admit := a, pl_vms := pl_vms p @ boots_of now s (take n ids) \<rparr>"
    have "refill_ready (total_target (s # ss) - int n) (drop (Suc n) ids) ?q"
      by (rule refill_after_shape [OF Cons.prems(1) nd n(3)])
    then have rq: "refill_ready (total_target ss) (drop (Suc n) ids) ?q"
      using t n(2) unfolding refill_ready_def by linarith
    have "total_target ss + int (length ss) \<le> int (length (drop (Suc n) ids))"
      using Cons.prems(2) t n(2,3) by simp
    then obtain b xs new where ih: "replenish_all now None ss (drop (Suc n) ids) ?q =
          (new, ?q\<lparr> pl_last_admit := b, pl_vms := pl_vms ?q @ xs \<rparr>)"
        "map fst xs = new" "\<forall>(i, vm) \<in> set xs. pv_state vm = PoolBoot"
        "\<forall>s \<in> set ss. vs_min_ready s \<le> 0 \<or>
          vs_min_ready s \<le> have_ready s (?q\<lparr> pl_last_admit := b, pl_vms := pl_vms ?q @ xs \<rparr>)"
      using Cons.IH [OF rq] by blast
    have "have_ready s ?q = have_ready s p + int n"
      using n(3) by (simp add: have_ready_def countShapeLocked_def boots_of_def filter_map o_def pool_simps)
    then have "vs_min_ready s \<le> have_ready s (?q\<lparr> pl_last_admit := b, pl_vms := pl_vms ?q @ xs \<rparr>)"
      using n(1) have_ready_append [of s ?q xs b] by linarith
    then show ?thesis
      using False r ih
      by (intro exI [of _ b] exI [of _ "boots_of now s (take n ids) @ xs"] exI [of _ "take n ids @ new"])
        (auto simp: boots_of_def pool_simps o_def)
  qed
qed

text \<open>
  One refill reaches every target: with no job running, no host sample to refuse, room for all targets
  under both limits and enough fresh names, a pass of the reconciler leaves at least the configured number
  of warm or booting guests of every size in the catalog; it only adds guests, each newly booting and
  each under one of the names it reports.
\<close>

theorem replenish_reaches_targets:
  assumes "refill_ready (total_target (pc_shapes (pl_cfg p))) ids p"
    and "total_target (pc_shapes (pl_cfg p)) + int (length (pc_shapes (pl_cfg p))) \<le> int (length ids)"
    and "replenish now None ids p = (new, p')"
  shows "(\<forall>s \<in> set (pc_shapes (pl_cfg p)). vs_min_ready s \<le> 0 \<or> vs_min_ready s \<le> have_ready s p') \<and>
    (\<exists>xs. pl_vms p' = pl_vms p @ xs \<and> map fst xs = new \<and> (\<forall>(i, vm) \<in> set xs. pv_state vm = PoolBoot))"
proof -
  obtain a xs new' where "replenish_all now None (pc_shapes (pl_cfg p)) ids p =
        (new', p\<lparr> pl_last_admit := a, pl_vms := pl_vms p @ xs \<rparr>)"
      "map fst xs = new'" "\<forall>(i, vm) \<in> set xs. pv_state vm = PoolBoot"
      "\<forall>s \<in> set (pc_shapes (pl_cfg p)). vs_min_ready s \<le> 0 \<or>
        vs_min_ready s \<le> have_ready s (p\<lparr> pl_last_admit := a, pl_vms := pl_vms p @ xs \<rparr>)"
    using replenish_all_fills [OF assms(1,2)] by blast
  then show ?thesis using assms(3) by (auto simp: replenish_def)
qed

theorem replenish_reaches_targets_witness:
  "have_ready demo_shape (snd (replenish 5 None [''vm-1'', ''vm-2''] (demo_pool []))) \<ge> 1"
proof -
  obtain new p' where r: "replenish 5 None [''vm-1'', ''vm-2''] (demo_pool []) = (new, p')" by fastforce
  have "refill_ready (total_target (pc_shapes (pl_cfg (demo_pool [])))) [''vm-1'', ''vm-2''] (demo_pool [])"
    by (simp add: refill_ready_def total_target_def demo_pool_def demo_pool_config_def in_state_def)
  moreover have "total_target (pc_shapes (pl_cfg (demo_pool []))) + int (length (pc_shapes (pl_cfg (demo_pool []))))
      \<le> int (length [''vm-1'', ''vm-2''])"
    by (simp add: total_target_def demo_pool_def demo_pool_config_def)
  ultimately show ?thesis
    using replenish_reaches_targets [OF _ _ r] r
    by (auto simp: demo_shape_def demo_pool_def demo_pool_config_def)
qed

text \<open>A host with room for one more guest of 8 GiB beside two warm ones.\<close>

definition half_full_pool :: pool where
  "half_full_pool = demo_pool [(''vm-1'', demo_warm ''vm-1'' 10), (''vm-2'', demo_warm ''vm-2'' 20)]"

definition labelled_job :: "string \<Rightarrow> JobPayload" where
  "labelled_job label = \<lparr> jp_job_id = ''1'', jp_runner_name = ''r'', jp_labels = [label], jp_jit = '''' \<rparr>"

definition bind_demo :: "string \<Rightarrow> bind_round \<times> pool" where
  "bind_demo label =
     bind_section 50 50 (Some (Some demo_host)) ''1'' (job_shape (labelled_job label) half_full_pool) half_full_pool"

text \<open>
  One job's label can switch the memory check off for the others. While a job that asks for 8 GiB is
  being created on this host, a further guest of 8 GiB is refused. While a job that asks for 2 to the 53
  GiB is being created, which gets a guest of the configured 8 GiB, its negative size cancels the memory of
  all guests, and the further guest is admitted.
\<close>

theorem huge_label_defeats_memory_check:
  "fst (bind_demo ''temperci-2vcpu-8g'') = ColdCreate \<and>
   \<not> fst (canCreateLocked (Some (Some demo_host)) 8192 (snd (bind_demo ''temperci-2vcpu-8g''))) \<and>
   fst (bind_demo ''temperci-2vcpu-9007199254740992g'') = ColdCreate \<and>
   vs_memory (provision_shape demo_pool_config
     (job_shape (labelled_job ''temperci-2vcpu-9007199254740992g'') half_full_pool)) = 8192 \<and>
   fst (canCreateLocked (Some (Some demo_host)) 8192 (snd (bind_demo ''temperci-2vcpu-9007199254740992g'')))"
  by code_simp

end
