(* ===== verification/PoolSystem.thy ===== *)
theory PoolSystem
  imports Pool
begin

text \<open>
  The pool of \<open>internal/agent/pool.go\<close> under concurrency. Its mutex is held for a section at a time and let
  go while a guest is created, booted or destroyed, so the sections of all binds, boots, destroys and
  passes of the reconciler interleave. The state adds to the pool what is under way: the cold creates, the
  boots, the destroys, and the names that a kill, a drain or a recycling pass has picked and not yet
  marked. Two histories record which names were ever used, and which guest was given to which job.
\<close>

section \<open>State and steps\<close>

record pool_sys =
  ps_pool :: pool
  ps_creates :: "(string \<times> VMShape) list"
  ps_boots :: "vmID list"
  ps_dying :: "vmID list"
  ps_doomed :: "vmID list"
  ps_used :: "vmID list"
  ps_served :: "(vmID \<times> string) list"

definition sys_init :: "pool \<Rightarrow> pool_sys" where
  "sys_init p = \<lparr> ps_pool = p, ps_creates = [], ps_boots = [], ps_dying = [], ps_doomed = [],
     ps_used = [], ps_served = [] \<rparr>"

definition after_bind :: "bind_round \<Rightarrow> string \<Rightarrow> VMShape \<Rightarrow> pool_sys \<Rightarrow> pool_sys" where
  "after_bind r job s y =
     (case r of
        BoundWarm i \<Rightarrow> y\<lparr> ps_served := (i, job) # ps_served y \<rparr>
      | ColdCreate \<Rightarrow> y\<lparr> ps_creates := (job, s) # ps_creates y \<rparr>
      | _ \<Rightarrow> y)"

definition after_cold :: "pool_error + vmID \<Rightarrow> pool_error + vmID \<Rightarrow> string \<Rightarrow> VMShape \<Rightarrow> pool_sys \<Rightarrow> pool_sys" where
  "after_cold res r job s y =
     (let y1 = y\<lparr> ps_creates := remove1 (job, s) (ps_creates y) \<rparr>;
          y2 = (case res of Inl _ \<Rightarrow> y1 | Inr i \<Rightarrow> y1\<lparr> ps_used := i # ps_used y1 \<rparr>)
      in case r of Inl _ \<Rightarrow> y2 | Inr i \<Rightarrow> y2\<lparr> ps_served := (i, job) # ps_served y2 \<rparr>)"

text \<open>\<open>oks\<close> and \<open>okh\<close> restrict the sizes jobs resolve to and the samples the host gives.\<close>

inductive pool_step :: "(VMShape \<Rightarrow> bool) \<Rightarrow> (sample \<Rightarrow> bool) \<Rightarrow> pool_sys \<Rightarrow> pool_sys \<Rightarrow> bool"
  for oks :: "VMShape \<Rightarrow> bool" and okh :: "sample \<Rightarrow> bool" where
  st_bind: "jp_job_id job \<noteq> '''' \<Longrightarrow> s = job_shape job (ps_pool y) \<Longrightarrow> oks s \<Longrightarrow> okh smp \<Longrightarrow>
    bind_section started now smp (jp_job_id job) s (ps_pool y) = (r, p) \<Longrightarrow>
    pool_step oks okh y (after_bind r (jp_job_id job) s (y\<lparr> ps_pool := p \<rparr>))"
| st_cold: "(job, s) \<in> set (ps_creates y) \<Longrightarrow> (\<And>i. res = Inr i \<Longrightarrow> i \<notin> set (ps_used y)) \<Longrightarrow>
    cold_section now res job s (ps_pool y) = (r, p) \<Longrightarrow>
    pool_step oks okh y (after_cold res r job s (y\<lparr> ps_pool := p \<rparr>))"
| st_runner_failed: "(i, job) \<in> set (ps_served y) \<Longrightarrow>
    pool_step oks okh y (y\<lparr> ps_doomed := i # ps_doomed y \<rparr>)"
| st_kill: "get_vm i (ps_pool y) = Some vm \<Longrightarrow> pv_state vm \<noteq> Busy \<Longrightarrow>
    pool_step oks okh y (y\<lparr> ps_doomed := i # ps_doomed y \<rparr>)"
| st_finished: "job_finished_section i (ps_pool y) = (True, p) \<Longrightarrow>
    pool_step oks okh y (y\<lparr> ps_pool := p, ps_dying := i # ps_dying y \<rparr>)"
| st_drain: "pool_step oks okh y (y\<lparr> ps_doomed := warm_ids (ps_pool y) @ ps_doomed y \<rparr>)"
| st_recycle: "0 < pc_idle_recycle (pl_cfg (ps_pool y)) \<Longrightarrow>
    pool_step oks okh y (y\<lparr> ps_doomed := idle_ids now (ps_pool y) @ ps_doomed y \<rparr>)"
| st_begin: "i \<in> set (ps_doomed y) \<Longrightarrow> begin_destroy_section i (ps_pool y) = (found, p) \<Longrightarrow>
    pool_step oks okh y (y\<lparr> ps_pool := p, ps_doomed := remove1 i (ps_doomed y),
      ps_dying := (if found then i # ps_dying y else ps_dying y) \<rparr>)"
| st_retry: "pool_step oks okh y (y\<lparr> ps_dying := due_ids now (ps_pool y) @ ps_dying y \<rparr>)"
| st_shutdown: "\<not> pl_started (ps_pool y) \<Longrightarrow>
    pool_step oks okh y (y\<lparr> ps_dying := DesiredIDs (ps_pool y) @ ps_dying y \<rparr>)"
| st_destroyed: "i \<in> set (ps_dying y) \<Longrightarrow>
    pool_step oks okh y (y\<lparr> ps_pool := destroy_result now err i (ps_pool y), ps_dying := remove1 i (ps_dying y) \<rparr>)"
| st_reserve: "s \<in> set (pc_shapes (pl_cfg (ps_pool y))) \<Longrightarrow> 0 < vs_min_ready s \<Longrightarrow> i \<notin> set (ps_used y) \<Longrightarrow>
    okh smp \<Longrightarrow> reservePoolBoot now smp (Some i) s (ps_pool y) = (None, p) \<Longrightarrow>
    pool_step oks okh y (y\<lparr> ps_pool := p, ps_boots := i # ps_boots y, ps_used := i # ps_used y \<rparr>)"
| st_refused: "reservePoolBoot now smp id_opt s (ps_pool y) = (Some e, p) \<Longrightarrow>
    pool_step oks okh y (y\<lparr> ps_pool := p \<rparr>)"
| st_booted: "i \<in> set (ps_boots y) \<Longrightarrow> finish_boot_section now provisioned i (ps_pool y) = (warm, p) \<Longrightarrow>
    pool_step oks okh y (y\<lparr> ps_pool := p, ps_boots := remove1 i (ps_boots y) \<rparr>)"
| st_start: "Start sweep (ps_pool y) = (e, p) \<Longrightarrow> pool_step oks okh y (y\<lparr> ps_pool := p \<rparr>)"
| st_stop: "pool_step oks okh y (y\<lparr> ps_pool := stop_begin (ps_pool y) \<rparr>)"
| st_stopped: "pl_stopping (ps_pool y) \<Longrightarrow> ps_boots y = [] \<Longrightarrow>
    pool_step oks okh y (y\<lparr> ps_pool := Stop (ps_pool y) \<rparr>)"
| st_reload: "ReloadImage now errs stat path False (ps_pool y) = (n, e, p) \<Longrightarrow>
    pool_step oks okh y (y\<lparr> ps_pool := p \<rparr>)"

inductive_cases pool_stepE: "pool_step oks okh y y'"

definition pool_reach :: "(VMShape \<Rightarrow> bool) \<Rightarrow> (sample \<Rightarrow> bool) \<Rightarrow> pool_sys \<Rightarrow> pool_sys \<Rightarrow> bool" where
  "pool_reach oks okh = (pool_step oks okh)\<^sup>*\<^sup>*"

lemma pool_reach_induct [consumes 1, case_names init step]:
  assumes "pool_reach oks okh y0 y" and "P y0" and "\<And>u v. P u \<Longrightarrow> pool_step oks okh u v \<Longrightarrow> P v"
  shows "P y"
  using assms(1) unfolding pool_reach_def by (induction rule: rtranclp_induct) (use assms(2,3) in auto)

section \<open>What the sections do to the guests\<close>

text \<open>Everything but the map of guests and the two in-flight counters.\<close>

definition same_guests :: "pool \<Rightarrow> pool \<Rightarrow> bool" where
  "same_guests p q \<longleftrightarrow>
     pl_vms q = pl_vms p \<and> pl_in_flight q = pl_in_flight p \<and> pl_in_flight_mem q = pl_in_flight_mem p"

text \<open>The settings that never change once the pool runs.\<close>

definition same_limits :: "pool \<Rightarrow> pool \<Rightarrow> bool" where
  "same_limits p q \<longleftrightarrow>
     pc_max_total (pl_cfg q) = pc_max_total (pl_cfg p) \<and> pc_memory (pl_cfg q) = pc_memory (pl_cfg p) \<and>
     pc_reserve_ram (pl_cfg q) = pc_reserve_ram (pl_cfg p) \<and> pc_shapes (pl_cfg q) = pc_shapes (pl_cfg p) \<and>
     pc_max_ready (pl_cfg q) = pc_max_ready (pl_cfg p)"

lemmas same_defs = same_guests_def same_limits_def

lemma bind_section_cases:
  assumes "bind_section started now smp job s p = (r, q)" and "pool_wf p"
  obtains (bound) i vm where "r = BoundWarm i" "get_vm i p = Some vm" "pv_state vm = Warm"
      "q = put_vm i (bound now job vm) p"
  | (cold) "r = ColdCreate" "fst (canCreateLocked smp (vs_memory s) p)" "pl_vms q = pl_vms p"
      "pl_in_flight q = pl_in_flight p + 1" "pl_in_flight_mem q = wrap64 (pl_in_flight_mem p + vs_memory s)"
      "pl_cfg q = pl_cfg p"
  | (other) "\<forall>i. r \<noteq> BoundWarm i" "r \<noteq> ColdCreate" "same_guests p q" "pl_cfg q = pl_cfg p"
proof (cases "pl_stopping p \<or> \<not> pl_started p")
  case True
  then show thesis using assms(1) by (intro other) (auto simp: bind_section_def same_defs)
next
  case run: False
  show thesis
  proof (cases "pickWarmLocked (vs_vcpus s) (vs_memory s) p")
    case (Some i)
    obtain vm where "get_vm i p = Some vm" "warm_match (vs_vcpus s) (vs_memory s) vm"
      using pick_warm_Some [OF assms(2) Some] by metis
    then show thesis using assms(1) run Some by (intro bound) (auto simp: bind_section_def warm_match_def)
  next
    case None
    obtain b p1 where c: "canCreateLocked smp (vs_memory s) p = (b, p1)" by fastforce
    note p1 = can_create_fields [OF c]
    show thesis
    proof (cases "matchingPoolBootLocked (vs_vcpus s) (vs_memory s) p \<and> now < started + pc_guest_ready_wait (pl_cfg p)")
      case True
      then show thesis using assms(1) run None
        by (intro other) (auto simp: bind_section_def same_defs pool_simps)
    next
      case False
      show thesis
      proof (cases b)
        case True
        then show thesis using assms(1) run None False c p1
          by (intro cold) (auto simp: bind_section_def)
      next
        case nb: False
        then show thesis using assms(1) run None False c p1
          by (intro other) (auto simp: bind_section_def same_defs pool_simps split: if_splits)
      qed
    qed
  qed
qed

lemma cold_section_cases:
  assumes "cold_section now res job s p = (r, q)"
  obtains (failed) e where "r = Inl e" "pl_vms q = pl_vms p"
  | (created) i where "res = Inr i" "r = Inr i" "pl_vms q = AList.update i (cold_vm now i job s) (pl_vms p)"
  using assms by (auto simp: cold_section_def Let_def pool_simps split: sum.splits if_splits)

lemma cold_section_fields:
  assumes "cold_section now res job s p = (r, q)"
  shows "pl_in_flight q = pl_in_flight p - 1" "pl_in_flight_mem q = wrap64 (pl_in_flight_mem p - vs_memory s)"
    "pl_cfg q = pl_cfg p"
  using assms by (auto simp: cold_section_def Let_def pool_simps split: sum.splits if_splits)

lemma reserve_refused:
  "reservePoolBoot now smp id_opt s p = (Some e, q) \<Longrightarrow> same_guests p q \<and> pl_cfg q = pl_cfg p"
proof -
  assume r: "reservePoolBoot now smp id_opt s p = (Some e, q)"
  obtain b p1 where c: "canCreateLocked smp (vs_memory s) p = (b, p1)" by fastforce
  have "q = p \<or> q = p1"
    using r c by (auto simp: reservePoolBoot_def Let_def split: option.splits if_splits bool.splits)
  then show ?thesis using can_create_fields [OF c] by (auto simp: same_guests_def)
qed

lemma reserve_done:
  assumes "reservePoolBoot now smp (Some i) s p = (None, q)"
  shows "fst (canCreateLocked smp (vs_memory s) p)"
    and "pl_vms q = AList.update i (booting_vm now i s) (pl_vms p)" and "pl_cfg q = pl_cfg p"
    and "pl_in_flight q = pl_in_flight p" and "pl_in_flight_mem q = pl_in_flight_mem p"
proof -
  obtain b p1 where c: "canCreateLocked smp (vs_memory s) p = (b, p1)" by fastforce
  have "b" "q = put_vm i (booting_vm now i s) p1"
    using assms c by (auto simp: reservePoolBoot_def Let_def split: if_splits bool.splits)
  then show "fst (canCreateLocked smp (vs_memory s) p)"
    "pl_vms q = AList.update i (booting_vm now i s) (pl_vms p)" "pl_cfg q = pl_cfg p"
    "pl_in_flight q = pl_in_flight p" "pl_in_flight_mem q = pl_in_flight_mem p"
    using c can_create_fields [OF c] by (simp_all add: pool_simps)
qed

lemma begin_destroy_cases:
  assumes "begin_destroy_section i p = (found, q)"
  obtains (absent) "get_vm i p = None" "q = p" | (marked) vm where "get_vm i p = Some vm" "q = put_vm i (mark_destroying vm) p"
  using assms by (auto simp: begin_destroy_section_def split: option.splits)

lemma job_finished_cases:
  assumes "job_finished_section i p = (True, q)"
  obtains vm where "get_vm i p = Some vm" "pv_state vm = Busy" "q = put_vm i (mark_destroying vm) p"
  using assms by (auto simp: job_finished_section_def split: option.splits if_splits)

lemma finish_boot_cases:
  assumes "finish_boot_section now ok i p = (w, q)"
  obtains (failed) "q = del_vm i p" | (gone) "q = p" "get_vm i p = None"
  | (warm) vm where "get_vm i p = Some vm" "q = put_vm i (vm\<lparr> pv_state := Warm, pv_warm_since := now \<rparr>) p"
  using assms by (auto simp: finish_boot_section_def split: option.splits if_splits)

lemma destroy_result_cases:
  obtains (gone) "pl_vms (destroy_result now err i p) = AList.delete i (pl_vms p)"
  | (absent) "pl_vms (destroy_result now err i p) = pl_vms p"
  | (failed) vm vm' where "get_vm i p = Some vm" "pv_state vm' = Destroying" "pv_memory vm' = pv_memory vm"
      "pv_job vm' = pv_job vm"
      "pl_vms (destroy_result now err i p) = AList.update i vm' (pl_vms p)"
proof (cases err)
  case None
  then show thesis by (intro gone) (simp add: destroy_result_def pool_simps)
next
  case (Some e)
  show thesis
  proof (cases "get_vm i p")
    case None
    then show thesis using Some by (intro absent) (simp add: destroy_result_def Let_def pool_simps)
  next
    case (Some vm)
    then show thesis using \<open>err = Some e\<close>
      by (intro failed [of vm]) (simp_all add: destroy_result_def Let_def pool_simps)
  qed
qed

lemma destroy_result_fields:
  "pl_cfg (destroy_result now err i p) = pl_cfg p" "pl_in_flight (destroy_result now err i p) = pl_in_flight p"
  "pl_in_flight_mem (destroy_result now err i p) = pl_in_flight_mem p"
  by (simp_all add: destroy_result_def Let_def pool_simps split: option.split)

lemma lifecycle_fields:
  "Start sweep p = (e, q) \<Longrightarrow> same_guests p q \<and> pl_cfg q = pl_cfg p"
  "same_guests p (stop_begin p) \<and> pl_cfg (stop_begin p) = pl_cfg p"
  "same_guests p (Stop p) \<and> pl_cfg (Stop p) = pl_cfg p"
  "ReloadImage now errs stat path False p = (n, err, q) \<Longrightarrow> same_guests p q \<and> same_limits p q"
  by (auto simp: Start_def stop_begin_def Stop_def ReloadImage_def same_defs Let_def pool_simps
      split: sum.splits if_splits)

lemma lifecycle_cfg:
  "pl_cfg (stop_begin p) = pl_cfg p" "pl_cfg (Stop p) = pl_cfg p"
  "pl_vms (stop_begin p) = pl_vms p" "pl_vms (Stop p) = pl_vms p"
  using lifecycle_fields(2,3) by (simp_all add: same_guests_def)

section \<open>The invariant\<close>

text \<open>What a guest's state says of the boots under way and of the jobs given out.\<close>

definition guest_ok :: "vmID list \<Rightarrow> (vmID \<times> string) list \<Rightarrow> vmID \<Rightarrow> poolVM \<Rightarrow> bool" where
  "guest_ok boots served i vm =
     (case pv_state vm of
        PoolBoot \<Rightarrow> i \<in> set boots \<and> pv_job vm = ''''
      | Warm \<Rightarrow> i \<notin> set boots \<and> i \<notin> fst ` set served \<and> pv_job vm = ''''
      | Busy \<Rightarrow> (i, pv_job vm) \<in> set served \<and> pv_job vm \<noteq> ''''
      | Destroying \<Rightarrow> i \<in> set boots \<longrightarrow> pv_job vm = '''')"

definition guests_ok ::
  "(vmID \<times> poolVM) list \<Rightarrow> vmID list \<Rightarrow> (vmID \<times> string) list \<Rightarrow> vmID list \<Rightarrow> bool" where
  "guests_ok vms boots served used \<longleftrightarrow>
     distinct (map fst vms) \<and>
     (\<forall>i vm. map_of vms i = Some vm \<longrightarrow> i \<in> set used \<and> guest_ok boots served i vm)"

definition history_ok :: "vmID list \<Rightarrow> (vmID \<times> string) list \<Rightarrow> vmID list \<Rightarrow> bool" where
  "history_ok boots served used \<longleftrightarrow>
     distinct boots \<and> set boots \<subseteq> set used \<and> distinct (map fst served) \<and>
     fst ` set served \<subseteq> set used \<and> fst ` set served \<inter> set boots = {}"

definition counters_ok :: "pool \<Rightarrow> (string \<times> VMShape) list \<Rightarrow> bool" where
  "counters_ok p creates \<longleftrightarrow>
     pl_in_flight p = int (length creates) \<and>
     int (length (pl_vms p)) + pl_in_flight p \<le> pc_max_total (pl_cfg p) \<and>
     (\<forall>(job, s) \<in> set creates. job \<noteq> '''')"

definition sys_ok :: "pool_sys \<Rightarrow> bool" where
  "sys_ok y \<longleftrightarrow>
     guests_ok (pl_vms (ps_pool y)) (ps_boots y) (ps_served y) (ps_used y) \<and>
     history_ok (ps_boots y) (ps_served y) (ps_used y) \<and> counters_ok (ps_pool y) (ps_creates y)"

lemmas sys_defs = sys_ok_def guests_ok_def history_ok_def counters_ok_def

lemma guests_ok_update:
  assumes "guests_ok vms boots served used" and "guest_ok boots' served' i vm'" and "i \<in> set used'"
    and "set used \<subseteq> set used'"
    and "\<And>j vm. j \<noteq> i \<Longrightarrow> guest_ok boots served j vm \<Longrightarrow> guest_ok boots' served' j vm"
  shows "guests_ok (AList.update i vm' vms) boots' served' used'"
  using assms by (auto simp: guests_ok_def update_conv' distinct_update)

lemma guests_ok_delete:
  assumes "guests_ok vms boots served used"
    and "\<And>j vm. j \<noteq> i \<Longrightarrow> guest_ok boots served j vm \<Longrightarrow> guest_ok boots' served' j vm"
  shows "guests_ok (AList.delete i vms) boots' served' used"
  using assms by (auto simp: guests_ok_def delete_conv' distinct_delete)

lemma guests_ok_mono:
  assumes "guests_ok vms boots served used" and "set used \<subseteq> set used'"
    and "\<And>j vm. guest_ok boots served j vm \<Longrightarrow> j \<in> set used \<Longrightarrow> guest_ok boots' served' j vm"
  shows "guests_ok vms boots' served' used'"
  using assms by (auto simp: guests_ok_def)

lemma length_update:
  "length (AList.update i v xs) = (if i \<in> fst ` set xs then length xs else Suc (length xs))"
  by (induction xs) auto

lemma get_vm_key: "get_vm i p = Some vm \<Longrightarrow> i \<in> fst ` set (pl_vms p)"
  by (force simp: get_vm_def dest: map_of_SomeD)

section \<open>Every step keeps it\<close>

lemma sys_ok_same_guests:
  assumes "sys_ok y" and "same_guests (ps_pool y) p" and "pc_max_total (pl_cfg p) = pc_max_total (pl_cfg (ps_pool y))"
  shows "sys_ok (y\<lparr> ps_pool := p \<rparr>)"
  using assms by (simp add: sys_ok_def counters_ok_def same_guests_def)

lemma sys_ok_bind:
  assumes ok: "sys_ok y" and job: "job \<noteq> ''''"
    and b: "bind_section started now smp job s (ps_pool y) = (r, q)"
  shows "sys_ok (after_bind r job s (y\<lparr> ps_pool := q \<rparr>))"
proof -
  have "pool_wf (ps_pool y)" using ok by (simp add: sys_ok_def guests_ok_def pool_wf_def)
  from b this show ?thesis
  proof (cases rule: bind_section_cases)
    case (bound i vm)
    have w: "i \<notin> set (ps_boots y)" "i \<notin> fst ` set (ps_served y)" "i \<in> set (ps_used y)"
      using ok bound by (auto simp: sys_defs guest_ok_def get_vm_def split: VMState.splits)
    have "guests_ok (AList.update i (Pool.bound now job vm) (pl_vms (ps_pool y)))
        (ps_boots y) ((i, job) # ps_served y) (ps_used y)"
      using ok w job
      by (intro guests_ok_update [where boots = "ps_boots y" and served = "ps_served y" and used = "ps_used y"])
        (auto simp: sys_ok_def guest_ok_def pool_simps split: VMState.splits)
    then show ?thesis
      using ok w bound get_vm_key [OF bound(2)]
      by (simp add: sys_ok_def history_ok_def counters_ok_def after_bind_def pool_simps length_update)
  next
    case cold
    then show ?thesis
      using ok job can_create_total [of smp "vs_memory s" "ps_pool y"]
      by (auto simp: sys_ok_def counters_ok_def after_bind_def)
  next
    case other
    then have "after_bind r job s (y\<lparr> ps_pool := q \<rparr>) = y\<lparr> ps_pool := q \<rparr>"
      by (cases r) (simp_all add: after_bind_def)
    then show ?thesis using sys_ok_same_guests [OF ok] other by simp
  qed
qed

lemma sys_ok_cold:
  assumes ok: "sys_ok y" and mem: "(job, s) \<in> set (ps_creates y)"
    and fresh: "\<And>i. res = Inr i \<Longrightarrow> i \<notin> set (ps_used y)"
    and c: "cold_section now res job s (ps_pool y) = (r, q)"
  shows "sys_ok (after_cold res r job s (y\<lparr> ps_pool := q \<rparr>))"
proof -
  note f = cold_section_fields [OF c]
  have n: "int (length (remove1 (job, s) (ps_creates y))) = int (length (ps_creates y)) - 1"
    using mem length_pos_if_in_set [OF mem] by (simp add: length_remove1 of_nat_diff Suc_leI)
  have sub: "set (remove1 (job, s) (ps_creates y)) \<subseteq> set (ps_creates y)" by (rule set_remove1_subset)
  have job: "job \<noteq> ''''" using ok mem by (auto simp: sys_defs)
  from c show ?thesis
  proof (cases rule: cold_section_cases)
    case (failed e)
    have "counters_ok q (remove1 (job, s) (ps_creates y))"
      using ok n f sub failed(2) by (fastforce simp: sys_ok_def counters_ok_def)
    then show ?thesis
      using ok failed f by (auto simp: sys_ok_def guests_ok_def history_ok_def after_cold_def Let_def split: sum.splits)
  next
    case (created i)
    have i: "i \<notin> set (ps_used y)" using fresh created by blast
    then have k: "i \<notin> set (ps_boots y)" "i \<notin> fst ` set (ps_served y)" "i \<notin> fst ` set (pl_vms (ps_pool y))"
      using ok by (auto simp: sys_defs dest!: map_of_is_SomeI)
    have "guests_ok (pl_vms q) (ps_boots y) ((i, job) # ps_served y) (i # ps_used y)"
      unfolding created(3) using ok k job
      by (intro guests_ok_update [where boots = "ps_boots y" and served = "ps_served y" and used = "ps_used y"])
        (auto simp: sys_ok_def guest_ok_def pool_simps split: VMState.splits)
    moreover have "counters_ok q (remove1 (job, s) (ps_creates y))"
      using ok n f sub k(3) created(3) by (fastforce simp: sys_ok_def counters_ok_def length_update)
    ultimately show ?thesis
      using ok k created by (auto simp: sys_ok_def history_ok_def after_cold_def)
  qed
qed

lemma sys_ok_mark:
  assumes ok: "sys_ok y" and g: "get_vm i (ps_pool y) = Some vm"
  shows "sys_ok (y\<lparr> ps_pool := put_vm i (mark_destroying vm) (ps_pool y) \<rparr>)"
proof -
  have "guests_ok (AList.update i (mark_destroying vm) (pl_vms (ps_pool y))) (ps_boots y) (ps_served y) (ps_used y)"
    using ok g
    by (intro guests_ok_update [where boots = "ps_boots y" and served = "ps_served y" and used = "ps_used y"])
      (auto simp: sys_ok_def guests_ok_def guest_ok_def get_vm_def pool_simps)
  then show ?thesis
    using ok get_vm_key [OF g] by (simp add: sys_ok_def counters_ok_def pool_simps length_update)
qed

lemma sys_ok_destroyed:
  assumes ok: "sys_ok y"
  shows "sys_ok (y\<lparr> ps_pool := destroy_result now err i (ps_pool y) \<rparr>)"
proof -
  let ?q = "destroy_result now err i (ps_pool y)"
  have "guests_ok (pl_vms ?q) (ps_boots y) (ps_served y) (ps_used y) \<and>
      length (pl_vms ?q) \<le> length (pl_vms (ps_pool y))"
  proof (cases rule: destroy_result_cases [of now err i "ps_pool y"])
    case gone
    then show ?thesis
      using ok guests_ok_delete [of "pl_vms (ps_pool y)" "ps_boots y" "ps_served y" "ps_used y" i]
      by (simp add: sys_ok_def length_delete_le)
  next
    case absent
    then show ?thesis using ok by (simp add: sys_ok_def)
  next
    case (failed vm vm')
    have "guest_ok (ps_boots y) (ps_served y) i vm" "fst ` set (ps_served y) \<inter> set (ps_boots y) = {}"
        "i \<in> set (ps_used y)"
      using ok failed(1) by (auto simp: sys_defs get_vm_def)
    then have "guest_ok (ps_boots y) (ps_served y) i vm'"
      using failed(2,4) by (cases "pv_state vm") (force simp: guest_ok_def)+
    then have "guests_ok (AList.update i vm' (pl_vms (ps_pool y))) (ps_boots y) (ps_served y) (ps_used y)"
      using ok \<open>i \<in> set (ps_used y)\<close>
      by (intro guests_ok_update [where boots = "ps_boots y" and served = "ps_served y" and used = "ps_used y"])
        (simp_all add: sys_ok_def)
    then show ?thesis using failed(5) get_vm_key [OF failed(1)] by (simp add: length_update)
  qed
  then show ?thesis using ok by (simp add: sys_ok_def counters_ok_def destroy_result_fields)
qed

lemma sys_ok_reserve:
  assumes ok: "sys_ok y" and fresh: "i \<notin> set (ps_used y)"
    and r: "reservePoolBoot now smp (Some i) s (ps_pool y) = (None, q)"
  shows "sys_ok (y\<lparr> ps_pool := q, ps_boots := i # ps_boots y, ps_used := i # ps_used y \<rparr>)"
proof -
  note d = reserve_done [OF r]
  have k: "i \<notin> set (ps_boots y)" "i \<notin> fst ` set (ps_served y)" "i \<notin> fst ` set (pl_vms (ps_pool y))"
    using ok fresh by (auto simp: sys_defs dest!: map_of_is_SomeI)
  have "guests_ok (pl_vms q) (i # ps_boots y) (ps_served y) (i # ps_used y)"
    unfolding d(2) using ok k
    by (intro guests_ok_update [where boots = "ps_boots y" and served = "ps_served y" and used = "ps_used y"])
      (auto simp: sys_ok_def guest_ok_def pool_simps split: VMState.splits)
  then show ?thesis
    using ok k fresh d can_create_total [OF d(1)]
    by (auto simp: sys_ok_def history_ok_def counters_ok_def length_update)
qed

lemma sys_ok_booted:
  assumes ok: "sys_ok y" and i: "i \<in> set (ps_boots y)"
    and f: "finish_boot_section now provisioned i (ps_pool y) = (w, q)"
  shows "sys_ok (y\<lparr> ps_pool := q, ps_boots := remove1 i (ps_boots y) \<rparr>)"
proof -
  let ?b = "remove1 i (ps_boots y)"
  have h: "history_ok (ps_boots y) (ps_served y) (ps_used y)" using ok by (simp add: sys_ok_def)
  then have b: "set ?b = set (ps_boots y) - {i}" "distinct ?b" by (simp_all add: history_ok_def)
  have h': "history_ok ?b (ps_served y) (ps_used y)" using h b by (auto simp: history_ok_def)
  have s: "i \<notin> fst ` set (ps_served y)" using h i by (auto simp: history_ok_def)
  have old: "j \<noteq> i \<Longrightarrow> guest_ok (ps_boots y) (ps_served y) j vm \<Longrightarrow> guest_ok ?b (ps_served y) j vm" for j vm
    using b by (auto simp: guest_ok_def split: VMState.splits)
  have g: "guests_ok (pl_vms (ps_pool y)) (ps_boots y) (ps_served y) (ps_used y)" using ok by (simp add: sys_ok_def)
  have "guests_ok (pl_vms q) ?b (ps_served y) (ps_used y) \<and> length (pl_vms q) \<le> length (pl_vms (ps_pool y)) \<and>
      pl_cfg q = pl_cfg (ps_pool y) \<and> pl_in_flight q = pl_in_flight (ps_pool y)"
    using f
  proof (cases rule: finish_boot_cases)
    case failed
    then show ?thesis using guests_ok_delete [OF g old] by (simp add: pool_simps length_delete_le)
  next
    case gone
    have "guests_ok (pl_vms (ps_pool y)) ?b (ps_served y) (ps_used y)"
      unfolding guests_ok_def
    proof (intro conjI allI impI)
      show "distinct (map fst (pl_vms (ps_pool y)))" using g by (simp add: guests_ok_def)
      fix j vm
      assume j: "map_of (pl_vms (ps_pool y)) j = Some vm"
      then show "j \<in> set (ps_used y)" using g by (simp add: guests_ok_def)
      have "j \<noteq> i" using j gone(2) by (auto simp: get_vm_def)
      then show "guest_ok ?b (ps_served y) j vm" using old g j by (simp add: guests_ok_def)
    qed
    then show ?thesis using gone by simp
  next
    case (warm vm)
    have "guest_ok (ps_boots y) (ps_served y) i vm" using g warm(1) by (simp add: guests_ok_def get_vm_def)
    then have "pv_job vm = ''''"
      using i s by (cases "pv_state vm") (force simp: guest_ok_def)+
    then have "guests_ok (pl_vms q) ?b (ps_served y) (ps_used y)"
      unfolding warm(2) put_vm_fields using g old b s i h
      by (intro guests_ok_update [where boots = "ps_boots y" and served = "ps_served y" and used = "ps_used y"])
        (auto simp: guest_ok_def history_ok_def)
    then show ?thesis using warm get_vm_key [OF warm(1)] by (simp add: pool_simps length_update)
  qed
  then show ?thesis using ok h' by (auto simp: sys_ok_def counters_ok_def)
qed

lemma sys_ok_fields:
  "sys_ok (y\<lparr> ps_doomed := d \<rparr>) = sys_ok y" "sys_ok (y\<lparr> ps_dying := e \<rparr>) = sys_ok y"
  by (simp_all add: sys_ok_def)

lemma sys_ok_update:
  "sys_ok (y\<lparr> ps_pool := p, ps_dying := e \<rparr>) = sys_ok (y\<lparr> ps_pool := p \<rparr>)"
  "sys_ok (y\<lparr> ps_pool := p, ps_doomed := d, ps_dying := e \<rparr>) = sys_ok (y\<lparr> ps_pool := p \<rparr>)"
  by (simp_all add: sys_ok_def)

lemma pool_step_ok:
  assumes "sys_ok y" and "pool_step oks okh y y'"
  shows "sys_ok y'"
  using assms(2)
proof cases
  case (st_bind job s smp started now r p)
  then show ?thesis using sys_ok_bind [OF assms(1)] by simp
next
  case (st_cold job s res now r p)
  then show ?thesis using sys_ok_cold [OF assms(1)] by blast
next
  case (st_finished i p)
  from st_finished(2) show ?thesis
  proof (cases rule: job_finished_cases)
    case (1 vm)
    then show ?thesis using sys_ok_mark [OF assms(1)] st_finished(1) by (simp add: sys_ok_update)
  qed
next
  case (st_begin i found p)
  from st_begin(3) show ?thesis
  proof (cases rule: begin_destroy_cases)
    case absent
    then show ?thesis using assms(1) st_begin(1) by (simp add: sys_ok_def)
  next
    case (marked vm)
    then show ?thesis using sys_ok_mark [OF assms(1) marked(1)] st_begin(1) by (simp add: sys_ok_update)
  qed
next
  case (st_destroyed i now err)
  then show ?thesis using sys_ok_destroyed [OF assms(1)] by (simp add: sys_ok_update)
next
  case (st_reserve s i smp now p)
  then show ?thesis using sys_ok_reserve [OF assms(1)] by simp
next
  case (st_refused now smp id_opt s e p)
  then show ?thesis using sys_ok_same_guests [OF assms(1)] reserve_refused [OF st_refused(2)] by simp
next
  case (st_booted i now provisioned warm p)
  then show ?thesis using sys_ok_booted [OF assms(1)] by simp
next
  case (st_start sweep e p)
  then show ?thesis using sys_ok_same_guests [OF assms(1)] lifecycle_fields(1) [OF st_start(2)] by simp
next
  case st_stop
  then show ?thesis using sys_ok_same_guests [OF assms(1)] lifecycle_fields(2) by simp
next
  case st_stopped
  then show ?thesis using sys_ok_same_guests [OF assms(1)] lifecycle_fields(3) by simp
next
  case (st_reload now errs stat path n e p)
  then show ?thesis
    using sys_ok_same_guests [OF assms(1)] lifecycle_fields(4) [OF st_reload(2)] by (simp add: same_limits_def)
qed (use assms(1) in \<open>simp_all add: sys_ok_fields\<close>)

lemma sys_init_ok:
  "pl_vms p = [] \<Longrightarrow> pl_in_flight p = 0 \<Longrightarrow> 0 \<le> pc_max_total (pl_cfg p) \<Longrightarrow> sys_ok (sys_init p)"
  by (simp add: sys_defs sys_init_def)

lemma pool_reach_ok:
  assumes "pool_reach oks okh (sys_init p) y" and "pl_vms p = []" "pl_in_flight p = 0" "0 \<le> pc_max_total (pl_cfg p)"
  shows "sys_ok y"
  using assms(1)
proof (induction rule: pool_reach_induct)
  case init
  show ?case using sys_init_ok assms(2-4) by blast
next
  case (step u v)
  then show ?case using pool_step_ok by blast
qed

lemma pool_step_max_total:
  "pool_step oks okh y y' \<Longrightarrow> sys_ok y \<Longrightarrow> same_limits (ps_pool y) (ps_pool y')"
proof (induction rule: pool_step.induct)
  case (st_bind job s y smp started now r p)
  then have "pool_wf (ps_pool y)" by (simp add: sys_ok_def guests_ok_def pool_wf_def)
  with st_bind(5) have "pl_cfg p = pl_cfg (ps_pool y)"
    by (cases rule: bind_section_cases) (simp_all add: pool_simps)
  then show ?case by (cases r) (simp_all add: after_bind_def same_limits_def)
next
  case (st_cold job s y res now r p)
  then show ?case
    using cold_section_fields(3) [OF st_cold(3)] by (auto simp: after_cold_def Let_def same_limits_def split: sum.splits)
qed (auto simp: same_limits_def destroy_result_fields lifecycle_cfg pool_simps reserve_done(3)
    dest!: reserve_refused lifecycle_fields(1,4)
    elim!: job_finished_cases begin_destroy_cases finish_boot_cases)

section \<open>Properties\<close>

text \<open>
  C4. A guest serves one job. However binds, boots, kills, drains, refills and destroys interleave, no guest
  is ever given to a second job; a busy guest runs the job it was given to, and a warm or booting one holds
  no job and was never given one.
\<close>

theorem one_job_per_guest:
  assumes "pool_reach oks okh (sys_init p) y" and "pl_vms p = []" and "pl_in_flight p = 0"
    and "0 \<le> pc_max_total (pl_cfg p)"
  shows "distinct (map fst (ps_served y)) \<and>
    (\<forall>i vm. get_vm i (ps_pool y) = Some vm \<longrightarrow>
       (pv_state vm = Busy \<longrightarrow> pv_job vm \<noteq> '''' \<and> (i, pv_job vm) \<in> set (ps_served y)) \<and>
       (pv_state vm \<in> {Warm, PoolBoot} \<longrightarrow> pv_job vm = '''' \<and> i \<notin> fst ` set (ps_served y)))"
proof -
  have ok: "sys_ok y" by (rule pool_reach_ok [OF assms])
  have "pv_state vm = Busy \<longrightarrow> pv_job vm \<noteq> '''' \<and> (i, pv_job vm) \<in> set (ps_served y)"
    and "pv_state vm \<in> {Warm, PoolBoot} \<longrightarrow> pv_job vm = '''' \<and> i \<notin> fst ` set (ps_served y)"
    if "get_vm i (ps_pool y) = Some vm" for i vm
  proof -
    have g: "guest_ok (ps_boots y) (ps_served y) i vm" "fst ` set (ps_served y) \<inter> set (ps_boots y) = {}"
      using ok that by (auto simp: sys_defs get_vm_def)
    then show "pv_state vm = Busy \<longrightarrow> pv_job vm \<noteq> '''' \<and> (i, pv_job vm) \<in> set (ps_served y)"
      by (cases "pv_state vm") (simp_all add: guest_ok_def)
    show "pv_state vm \<in> {Warm, PoolBoot} \<longrightarrow> pv_job vm = '''' \<and> i \<notin> fst ` set (ps_served y)"
      using g by (cases "pv_state vm") (auto simp: guest_ok_def)
  qed
  then show ?thesis using ok by (auto simp: sys_ok_def history_ok_def)
qed

text \<open>
  C10. The hard cap holds at every moment: the guests held in any state, failed destroys included, and the
  creates under way together never exceed the configured total.
\<close>

theorem guests_never_exceed_cap:
  assumes "pool_reach oks okh (sys_init p) y" and "pl_vms p = []" and "pl_in_flight p = 0"
    and "0 \<le> pc_max_total (pl_cfg p)"
  shows "Total (countsLocked (ps_pool y)) + int (length (ps_creates y)) \<le> pc_max_total (pl_cfg p)"
proof -
  have "sys_ok y" by (rule pool_reach_ok [OF assms])
  moreover have "sys_ok y \<and> same_limits p (ps_pool y)"
    using assms(1)
  proof (induction rule: pool_reach_induct)
    case init
    show ?case using sys_init_ok assms(2-4) by (simp add: sys_init_def same_limits_def)
  next
    case (step u v)
    then show ?case using pool_step_ok pool_step_max_total by (fastforce simp: same_limits_def)
  qed
  ultimately show ?thesis by (simp add: sys_ok_def counters_ok_def Total_countsLocked same_limits_def)
qed

text \<open>That a guest, if it is still there, has not gone back.\<close>

definition forward :: "vmID \<Rightarrow> pool \<Rightarrow> pool \<Rightarrow> bool" where
  "forward i p q \<longleftrightarrow>
     (\<forall>vm vm'. get_vm i p = Some vm \<longrightarrow> get_vm i q = Some vm' \<longrightarrow> pv_state vm \<le> pv_state vm')"

lemma forward_same: "pl_vms q = pl_vms p \<Longrightarrow> forward i p q"
  by (simp add: forward_def get_vm_def)

lemma forward_update:
  "pl_vms q = AList.update j w (pl_vms p) \<Longrightarrow>
    (\<And>vm. j = i \<Longrightarrow> get_vm i p = Some vm \<Longrightarrow> pv_state vm \<le> pv_state w) \<Longrightarrow> forward i p q"
  by (auto simp: forward_def get_vm_def update_conv')

lemma forward_fresh: "pl_vms q = AList.update j w (pl_vms p) \<Longrightarrow> j \<noteq> i \<Longrightarrow> forward i p q"
  by (auto simp: forward_def get_vm_def update_conv')

lemma forward_delete: "pl_vms q = AList.delete j (pl_vms p) \<Longrightarrow> forward i p q"
  by (auto simp: forward_def get_vm_def delete_conv')

lemma life_le_Destroying: "a \<le> Destroying"
  by (cases a) (simp_all add: life_order)

lemma forward_mark: "forward i p (put_vm j (mark_destroying vm) p)"
  by (rule forward_update [OF put_vm_fields(6)]) (simp add: pool_simps life_le_Destroying)

lemma key_used: "sys_ok y \<Longrightarrow> get_vm i (ps_pool y) = Some vm \<Longrightarrow> i \<in> set (ps_used y)"
  by (auto simp: sys_ok_def guests_ok_def get_vm_def)

text \<open>
  A guest's life goes one way: in every step, a guest whose boot is not under way moves only forward
  through booting, warm, busy and destroying, or leaves the pool.
\<close>

theorem guests_move_forward:
  assumes "pool_step oks okh y y'" and "sys_ok y" and "i \<notin> set (ps_boots y)"
    and "get_vm i (ps_pool y) = Some vm" and "get_vm i (ps_pool y') = Some vm'"
  shows "pv_state vm \<le> pv_state vm'"
proof -
  have "forward i (ps_pool y) (ps_pool y')"
    using assms(1)
  proof cases
    case (st_bind job s smp started now r p)
    have y': "ps_pool y' = p" using st_bind(1) by (cases r) (simp_all add: after_bind_def)
    have "pool_wf (ps_pool y)" using assms(2) by (simp add: sys_ok_def guests_ok_def pool_wf_def)
    with st_bind(6) show ?thesis
    proof (cases rule: bind_section_cases)
      case (bound j w)
      then show ?thesis unfolding y'
        by (intro forward_update [of p j "Pool.bound now (jp_job_id job) w"])
          (auto simp: pool_simps life_order)
    qed (auto simp: y' same_guests_def intro: forward_same)
  next
    case (st_cold job s res now r p)
    have y': "ps_pool y' = p" using st_cold(1) by (auto simp: after_cold_def Let_def split: sum.splits)
    from st_cold(4) show ?thesis
    proof (cases rule: cold_section_cases)
      case (created j)
      then have "j \<noteq> i" using st_cold(3) key_used [OF assms(2,4)] by auto
      then show ?thesis unfolding y' by (intro forward_update [OF created(3)]) simp
    qed (simp add: y' forward_same)
  next
    case (st_finished j p)
    from st_finished(2) show ?thesis
      by (cases rule: job_finished_cases) (simp add: st_finished(1) forward_mark)
  next
    case (st_begin j found p)
    from st_begin(3) show ?thesis
      by (cases rule: begin_destroy_cases) (simp_all add: st_begin(1) forward_mark forward_same)
  next
    case (st_destroyed j now err)
    have y': "ps_pool y' = destroy_result now err j (ps_pool y)" by (simp add: st_destroyed(1))
    show ?thesis
    proof (cases rule: destroy_result_cases [of now err j "ps_pool y"])
      case (failed w w')
      then show ?thesis unfolding y' by (intro forward_update [OF failed(5)]) (simp add: life_le_Destroying)
    qed (simp_all add: y' forward_same forward_delete)
  next
    case (st_reserve s j smp now p)
    then have "j \<noteq> i" using key_used [OF assms(2,4)] by auto
    then show ?thesis using st_reserve(1) reserve_done(2) [OF st_reserve(6)]
      by (intro forward_fresh [of _ j "booting_vm now j s"]) simp_all
  next
    case (st_refused now smp id_opt s e p)
    then show ?thesis using reserve_refused [OF st_refused(2)] by (simp add: same_guests_def forward_same)
  next
    case (st_booted j now provisioned w p)
    have "j \<noteq> i" using st_booted(2) assms(3) by auto
    from st_booted(3) show ?thesis
    proof (cases rule: finish_boot_cases)
      case (warm u)
      then show ?thesis using \<open>j \<noteq> i\<close> st_booted(1) forward_fresh [OF put_vm_fields(6)] by simp
    qed (simp_all add: st_booted(1) forward_same forward_delete pool_simps)
  next
    case (st_start sweep e p)
    then show ?thesis using lifecycle_fields(1) [OF st_start(2)] by (simp add: same_guests_def forward_same)
  next
    case (st_reload now errs stat path n e p)
    then show ?thesis using lifecycle_fields(4) [OF st_reload(2)] by (simp add: same_guests_def forward_same)
  qed (simp_all add: forward_same lifecycle_cfg)
  then show ?thesis using assms(4,5) by (simp add: forward_def)
qed

section \<open>Memory\<close>

text \<open>The memory of the guests held, and of the creates under way.\<close>

definition guest_memory :: "(vmID \<times> poolVM) list \<Rightarrow> int" where
  "guest_memory vms = sum_list (map (\<lambda>(i, vm). pv_memory vm) vms)"

definition create_memory :: "(string \<times> VMShape) list \<Rightarrow> int" where
  "create_memory cs = sum_list (map (\<lambda>(job, s). vs_memory s) cs)"

definition committed :: "pool_sys \<Rightarrow> int" where
  "committed y = guest_memory (pl_vms (ps_pool y)) + create_memory (ps_creates y)"

text \<open>A size a host can have, and the samples of a host with \<open>host\<close> MiB.\<close>

definition real_shape :: "VMShape \<Rightarrow> bool" where
  "real_shape s \<longleftrightarrow> 0 < vs_memory s \<and> vs_memory s < 2 ^ 40"

definition sampled_host :: "int \<Rightarrow> sample \<Rightarrow> bool" where
  "sampled_host host smp \<longleftrightarrow>
     (case smp of None \<Rightarrow> False | Some None \<Rightarrow> True | Some (Some h) \<Rightarrow> inv_ram_total h = host)"

definition ram_ok :: "int \<Rightarrow> pool_sys \<Rightarrow> bool" where
  "ram_ok host y \<longleftrightarrow>
     (\<forall>(i, vm) \<in> set (pl_vms (ps_pool y)). 0 < pv_memory vm) \<and>
     (\<forall>(job, s) \<in> set (ps_creates y). 0 < vs_memory s) \<and>
     pl_in_flight_mem (ps_pool y) = create_memory (ps_creates y) \<and>
     (\<forall>s \<in> set (pc_shapes (pl_cfg (ps_pool y))). real_shape s) \<and>
     host_size host \<and> host_size (pc_reserve_ram (pl_cfg (ps_pool y))) \<and>
     committed y \<le> max 0 (host - pc_reserve_ram (pl_cfg (ps_pool y)))"

lemma guest_memory_nonneg: "(\<forall>(i, vm) \<in> set vms. 0 < pv_memory vm) \<Longrightarrow> 0 \<le> guest_memory vms"
  unfolding guest_memory_def by (intro sum_list_nonneg) (auto dest: less_imp_le)

lemma create_memory_nonneg: "(\<forall>(job, s) \<in> set cs. 0 < vs_memory s) \<Longrightarrow> 0 \<le> create_memory cs"
  unfolding create_memory_def by (intro sum_list_nonneg) (auto dest: less_imp_le)

lemma guest_memory_Cons [simp]: "guest_memory ((i, vm) # xs) = pv_memory vm + guest_memory xs"
  by (simp add: guest_memory_def)

lemma guest_memory_update_same:
  "map_of xs i = Some vm \<Longrightarrow> pv_memory vm' = pv_memory vm \<Longrightarrow>
    guest_memory (AList.update i vm' xs) = guest_memory xs"
  by (induction xs) (auto split: if_splits)

lemma guest_memory_fresh:
  "i \<notin> fst ` set xs \<Longrightarrow> guest_memory (AList.update i vm xs) = guest_memory xs + pv_memory vm"
  by (induction xs) (auto simp: guest_memory_def)

lemma guest_memory_delete:
  "(\<forall>(j, vm) \<in> set xs. 0 < pv_memory vm) \<Longrightarrow> guest_memory (AList.delete i xs) \<le> guest_memory xs"
  by (induction xs) (auto simp: AList.delete_eq guest_memory_def)

lemma add_memory_sum:
  assumes "\<forall>(i, vm) \<in> set xs. 0 < pv_memory vm" and "0 \<le> n" and "n + guest_memory xs \<le> 2 ^ 62"
  shows "add_memory dflt xs n = n + guest_memory xs"
  using assms
proof (induction dflt xs n rule: add_memory.induct)
  case (2 dflt i vm r n)
  have pos: "0 < pv_memory vm" "0 \<le> guest_memory r" using "2.prems"(1) guest_memory_nonneg [of r] by auto
  then have w: "wrap64 (n + pv_memory vm) = n + pv_memory vm"
    using "2.prems"(2,3) by (intro wrap64_nonneg) auto
  show ?case using 2 pos w by (simp add: add.assoc)
qed (simp add: guest_memory_def)

lemma can_create_memory:
  assumes ram: "ram_ok host y" and ok: "fst (canCreateLocked smp m (ps_pool y))"
    and h: "sampled_host host smp" and m: "0 < m" "m < 2 ^ 40"
  shows "committed y + m \<le> host - pc_reserve_ram (pl_cfg (ps_pool y))"
proof -
  let ?p = "ps_pool y"
  obtain hi where smp: "smp = Some (Some hi)" "inv_ram_total hi = host"
    using h ok by (auto simp: sampled_host_def canCreateLocked_def split: option.splits if_splits)
  have nn: "0 \<le> guest_memory (pl_vms ?p)" "0 \<le> create_memory (ps_creates y)"
    using ram guest_memory_nonneg create_memory_nonneg by (auto simp: ram_ok_def)
  have small: "committed y < 2 ^ 40" using ram by (auto simp: ram_ok_def host_size_def)
  have alloc: "allocatedRAMLocked ?p = committed y"
    using ram nn small add_memory_sum [of "pl_vms ?p" "create_memory (ps_creates y)"]
    by (simp add: allocatedRAMLocked_def ram_ok_def committed_def)
  have w: "wrap64 (committed y + m) = committed y + m"
    "wrap64 (host - pc_reserve_ram (pl_cfg ?p)) = host - pc_reserve_ram (pl_cfg ?p)"
    using small nn m ram by (auto simp: ram_ok_def host_size_def committed_def intro!: wrap64_id)
  have "0 \<le> committed y" using nn by (simp add: committed_def)
  then show ?thesis
    using ok smp m alloc w
    by (auto simp: canCreateLocked_def CanCreateMemory_def pool_admission_def Let_def split: if_splits)
qed

lemma ram_ok_shrink:
  assumes "ram_ok host y" and "ps_creates y' = ps_creates y" and "same_limits (ps_pool y) (ps_pool y')"
    and "pl_in_flight_mem (ps_pool y') = pl_in_flight_mem (ps_pool y)"
    and "\<forall>(i, vm) \<in> set (pl_vms (ps_pool y')). 0 < pv_memory vm"
    and "guest_memory (pl_vms (ps_pool y')) \<le> guest_memory (pl_vms (ps_pool y))"
  shows "ram_ok host y'"
  using assms by (auto simp: ram_ok_def same_limits_def committed_def)

lemma positive_update:
  "\<forall>(i, vm) \<in> set xs. 0 < pv_memory vm \<Longrightarrow> 0 < pv_memory w \<Longrightarrow>
    \<forall>(i, vm) \<in> set (AList.update j w xs). 0 < pv_memory vm"
  using in_set_update [of _ j w xs] by fastforce

lemma positive_delete:
  "\<forall>(i, vm) \<in> set xs. 0 < pv_memory vm \<Longrightarrow> \<forall>(i, vm) \<in> set (AList.delete j xs). 0 < pv_memory vm"
  by (auto simp: AList.delete_eq)

text \<open>An edit that neither adds a guest nor changes a guest's memory.\<close>

lemma ram_ok_edit:
  assumes ram: "ram_ok host y" and f: "ps_creates y' = ps_creates y" "same_limits (ps_pool y) (ps_pool y')"
    "pl_in_flight_mem (ps_pool y') = pl_in_flight_mem (ps_pool y)"
    and e: "pl_vms (ps_pool y') = pl_vms (ps_pool y) \<or> (\<exists>i. pl_vms (ps_pool y') = AList.delete i (pl_vms (ps_pool y))) \<or>
      (\<exists>i vm vm'. get_vm i (ps_pool y) = Some vm \<and> pv_memory vm' = pv_memory vm \<and>
        pl_vms (ps_pool y') = AList.update i vm' (pl_vms (ps_pool y)))"
  shows "ram_ok host y'"
proof (rule ram_ok_shrink [OF ram f])
  have pos: "\<forall>(i, vm) \<in> set (pl_vms (ps_pool y)). 0 < pv_memory vm" using ram by (simp add: ram_ok_def)
  show "\<forall>(i, vm) \<in> set (pl_vms (ps_pool y')). 0 < pv_memory vm"
    using e
  proof (elim disjE exE conjE)
    fix i vm vm'
    assume g: "get_vm i (ps_pool y) = Some vm" "pv_memory vm' = pv_memory vm"
      "pl_vms (ps_pool y') = AList.update i vm' (pl_vms (ps_pool y))"
    then have "0 < pv_memory vm'" using pos by (auto simp: get_vm_def dest!: map_of_SomeD)
    then show ?thesis using g(3) positive_update [OF pos] by simp
  qed (use pos positive_delete [OF pos] in simp_all)
  show "guest_memory (pl_vms (ps_pool y')) \<le> guest_memory (pl_vms (ps_pool y))"
    using e guest_memory_delete [OF pos] by (auto simp: get_vm_def guest_memory_update_same)
qed

lemmas ram_ok_same = ram_ok_edit [OF _ _ _ _ disjI1]

lemma ram_ok_del:
  "ram_ok host y \<Longrightarrow> ps_creates y' = ps_creates y \<Longrightarrow> same_limits (ps_pool y) (ps_pool y') \<Longrightarrow>
    pl_in_flight_mem (ps_pool y') = pl_in_flight_mem (ps_pool y) \<Longrightarrow>
    pl_vms (ps_pool y') = AList.delete i (pl_vms (ps_pool y)) \<Longrightarrow> ram_ok host y'"
  using ram_ok_edit by blast

lemma ram_ok_put:
  "ram_ok host y \<Longrightarrow> ps_creates y' = ps_creates y \<Longrightarrow> same_limits (ps_pool y) (ps_pool y') \<Longrightarrow>
    pl_in_flight_mem (ps_pool y') = pl_in_flight_mem (ps_pool y) \<Longrightarrow>
    get_vm i (ps_pool y) = Some vm \<Longrightarrow> pv_memory vm' = pv_memory vm \<Longrightarrow>
    pl_vms (ps_pool y') = AList.update i vm' (pl_vms (ps_pool y)) \<Longrightarrow> ram_ok host y'"
  using ram_ok_edit by blast

lemma real_job_shape:
  "real_shape s \<Longrightarrow> 0 < vs_memory s \<and> vs_memory s < 2 ^ 40"
  by (simp add: real_shape_def)

lemma pool_step_ram:
  assumes step: "pool_step real_shape (sampled_host host) y y'" and ok: "sys_ok y" and ram: "ram_ok host y"
  shows "ram_ok host y'"
proof -
  note lim = pool_step_max_total [OF step ok]
  note same = ram_ok_same [OF ram _ lim] and del = ram_ok_del [OF ram _ lim] and put = ram_ok_put [OF ram _ lim]
  have nn: "0 \<le> create_memory (ps_creates y)" "create_memory (ps_creates y) < 2 ^ 40"
    using ram create_memory_nonneg guest_memory_nonneg [of "pl_vms (ps_pool y)"]
    by (auto simp: ram_ok_def committed_def host_size_def)
  from step show ?thesis
  proof cases
    case (st_bind job s smp started now r p)
    have wf: "pool_wf (ps_pool y)" using ok by (simp add: sys_ok_def guests_ok_def pool_wf_def)
    from st_bind(6) wf show ?thesis
    proof (cases rule: bind_section_cases)
      case (bound i vm)
      have y': "y' = y\<lparr> ps_pool := p, ps_served := (i, jp_job_id job) # ps_served y \<rparr>"
        using st_bind(1) bound(1) by (simp add: after_bind_def)
      show ?thesis
        by (rule put [where i = i and vm = vm and vm' = "Pool.bound now (jp_job_id job) vm"])
          (simp_all add: y' bound pool_simps)
    next
      case cold
      have m: "0 < vs_memory s" "vs_memory s < 2 ^ 40" using real_job_shape [OF st_bind(4)] by auto
      have y': "y' = y\<lparr> ps_pool := p, ps_creates := (jp_job_id job, s) # ps_creates y \<rparr>"
        using st_bind(1) cold(1) by (simp add: after_bind_def)
      have "wrap64 (create_memory (ps_creates y) + vs_memory s) = create_memory (ps_creates y) + vs_memory s"
        using m nn by (intro wrap64_nonneg) auto
      then show ?thesis
        using ram cold m can_create_memory [OF ram cold(2) st_bind(5) m]
        by (simp add: y' ram_ok_def committed_def create_memory_def)
    next
      case other
      then have "y' = y\<lparr> ps_pool := p \<rparr>" using st_bind(1) by (cases r) (simp_all add: after_bind_def)
      then show ?thesis using other by (intro same) (simp_all add: same_guests_def)
    qed
  next
    case (st_cold job s res now r p)
    note f = cold_section_fields [OF st_cold(4)]
    have sum: "create_memory (ps_creates y) = vs_memory s + create_memory (remove1 (job, s) (ps_creates y))"
      unfolding create_memory_def by (subst sum_list_map_remove1 [OF st_cold(2)]) simp
    have m: "0 < vs_memory s" using ram st_cold(2) by (auto simp: ram_ok_def)
    have pos: "\<forall>(job, s) \<in> set (remove1 (job, s) (ps_creates y)). 0 < vs_memory s"
      using ram set_remove1_subset [of "(job, s)" "ps_creates y"] by (fastforce simp: ram_ok_def)
    have le: "0 \<le> create_memory (remove1 (job, s) (ps_creates y))"
      "create_memory (remove1 (job, s) (ps_creates y)) \<le> 2 ^ 62"
      using create_memory_nonneg [OF pos] sum nn m by simp_all
    have "pl_in_flight_mem (ps_pool y) - vs_memory s = create_memory (remove1 (job, s) (ps_creates y))"
      using ram sum by (simp add: ram_ok_def)
    then have mem: "pl_in_flight_mem p = create_memory (remove1 (job, s) (ps_creates y))"
      using f(2) wrap64_nonneg [OF le] by simp
    have y': "ps_creates y' = remove1 (job, s) (ps_creates y)" "ps_pool y' = p"
      using st_cold(1) by (auto simp: after_cold_def Let_def split: sum.splits)
    from st_cold(4) show ?thesis
    proof (cases rule: cold_section_cases)
      case (failed e)
      then show ?thesis using ram mem sum m pos f(3) by (simp add: ram_ok_def committed_def y')
    next
      case (created i)
      then have k: "i \<notin> fst ` set (pl_vms (ps_pool y))"
        using st_cold(3) ok by (auto simp: sys_ok_def guests_ok_def dest!: map_of_is_SomeI)
      have "\<forall>(i, vm) \<in> set (pl_vms p). 0 < pv_memory vm"
        unfolding created(3) using ram m by (intro positive_update) (auto simp: ram_ok_def pool_simps)
      then show ?thesis using ram mem sum pos f(3) created(3)
        by (simp add: ram_ok_def committed_def y' guest_memory_fresh [OF k] pool_simps)
    qed
  next
    case (st_finished i p)
    from st_finished(2) obtain vm where "get_vm i (ps_pool y) = Some vm" "p = put_vm i (mark_destroying vm) (ps_pool y)"
      by (rule job_finished_cases)
    then show ?thesis
      by (intro put [where i = i and vm = vm and vm' = "mark_destroying vm"]) (simp_all add: st_finished(1) pool_simps)
  next
    case (st_begin i found p)
    from st_begin(3) show ?thesis
    proof (cases rule: begin_destroy_cases)
      case absent
      then show ?thesis by (intro same) (simp_all add: st_begin(1))
    next
      case (marked vm)
      then show ?thesis
        by (intro put [where i = i and vm = vm and vm' = "mark_destroying vm"]) (simp_all add: st_begin(1) pool_simps)
    qed
  next
    case (st_destroyed i now err)
    show ?thesis
    proof (cases rule: destroy_result_cases [of now err i "ps_pool y"])
      case gone
      then show ?thesis by (intro del [where i = i]) (simp_all add: st_destroyed(1) destroy_result_fields)
    next
      case absent
      then show ?thesis by (intro same) (simp_all add: st_destroyed(1) destroy_result_fields)
    next
      case (failed vm vm')
      then show ?thesis
        by (intro put [where i = i and vm = vm and vm' = vm']) (simp_all add: st_destroyed(1) destroy_result_fields)
    qed
  next
    case (st_reserve s i smp now p)
    note d = reserve_done [OF st_reserve(6)]
    have m: "0 < vs_memory s" "vs_memory s < 2 ^ 40" using ram st_reserve(2) by (auto simp: ram_ok_def real_shape_def)
    have k: "i \<notin> fst ` set (pl_vms (ps_pool y))"
      using st_reserve(4) ok by (auto simp: sys_ok_def guests_ok_def dest!: map_of_is_SomeI)
    have "\<forall>(i, vm) \<in> set (pl_vms p). 0 < pv_memory vm"
      unfolding d(2) using ram m by (intro positive_update) (auto simp: ram_ok_def pool_simps)
    then show ?thesis
      using ram can_create_memory [OF ram d(1) st_reserve(5) m] d
      by (simp add: st_reserve(1) ram_ok_def committed_def guest_memory_fresh [OF k] pool_simps)
  next
    case (st_refused now smp id_opt s e p)
    then show ?thesis using reserve_refused [OF st_refused(2)] by (intro same) (simp_all add: same_guests_def)
  next
    case (st_booted i now provisioned warm p)
    from st_booted(3) show ?thesis
    proof (cases rule: finish_boot_cases)
      case failed
      then show ?thesis by (intro del [where i = i]) (simp_all add: st_booted(1) pool_simps)
    next
      case gone
      then show ?thesis by (intro same) (simp_all add: st_booted(1))
    next
      case (warm vm)
      then show ?thesis
        by (intro put [where i = i and vm = vm and vm' = "vm\<lparr> pv_state := Warm, pv_warm_since := now \<rparr>"])
          (simp_all add: st_booted(1) pool_simps)
    qed
  next
    case (st_start sweep e p)
    then show ?thesis using lifecycle_fields(1) [OF st_start(2)] by (intro same) (simp_all add: same_guests_def)
  next
    case st_stop
    then show ?thesis using lifecycle_fields(2) by (intro same) (simp_all add: same_guests_def)
  next
    case st_stopped
    then show ?thesis using lifecycle_fields(3) by (intro same) (simp_all add: same_guests_def)
  next
    case (st_reload now errs stat path n e p)
    then show ?thesis using lifecycle_fields(4) [OF st_reload(2)] by (intro same) (simp_all add: same_guests_def)
  qed (use ram in \<open>simp_all add: ram_ok_def committed_def\<close>)
qed


section \<open>Runs\<close>

text \<open>Concrete runs on the demonstration host: one guest, refilled, booted, and bound to one job.\<close>

definition demo_job :: JobPayload where
  "demo_job = labelled_job ''temperci-4vcpu-8g''"

abbreviation demo_sample :: sample where
  "demo_sample \<equiv> Some (Some demo_host)"

definition run_reserve :: "pool_sys \<Rightarrow> pool_sys" where
  "run_reserve y = y\<lparr> ps_pool := snd (reservePoolBoot 5 demo_sample (Some ''vm-1'') demo_shape (ps_pool y)),
     ps_boots := ''vm-1'' # ps_boots y, ps_used := ''vm-1'' # ps_used y \<rparr>"

definition run_booted :: "pool_sys \<Rightarrow> pool_sys" where
  "run_booted y = y\<lparr> ps_pool := snd (finish_boot_section 20 True ''vm-1'' (ps_pool y)),
     ps_boots := remove1 ''vm-1'' (ps_boots y) \<rparr>"

definition run_bind :: "pool_sys \<Rightarrow> pool_sys" where
  "run_bind y =
     (case bind_section 30 30 demo_sample ''1'' (job_shape demo_job (ps_pool y)) (ps_pool y) of
        (r, p) \<Rightarrow> after_bind r ''1'' (job_shape demo_job (ps_pool y)) (y\<lparr> ps_pool := p \<rparr>))"

definition run_kill :: "pool_sys \<Rightarrow> pool_sys" where
  "run_kill y = y\<lparr> ps_doomed := ''vm-1'' # ps_doomed y \<rparr>"

definition run_drain :: "pool_sys \<Rightarrow> pool_sys" where
  "run_drain y = y\<lparr> ps_doomed := warm_ids (ps_pool y) @ ps_doomed y \<rparr>"

definition run_begin :: "pool_sys \<Rightarrow> pool_sys" where
  "run_begin y =
     (case begin_destroy_section ''vm-1'' (ps_pool y) of
        (found, p) \<Rightarrow> y\<lparr> ps_pool := p, ps_doomed := remove1 ''vm-1'' (ps_doomed y),
          ps_dying := (if found then ''vm-1'' # ps_dying y else ps_dying y) \<rparr>)"

definition demo_start :: pool_sys where "demo_start = sys_init (demo_pool [])"

abbreviation demo_step :: "pool_sys \<Rightarrow> pool_sys \<Rightarrow> bool" where
  "demo_step \<equiv> pool_step real_shape (sampled_host 32768)"

lemma demo_sampled: "sampled_host 32768 demo_sample"
  by (simp add: sampled_host_def demo_host_def)

lemma run_reserve_step:
  assumes "fst (reservePoolBoot 5 demo_sample (Some ''vm-1'') demo_shape (ps_pool y)) = None"
    and "''vm-1'' \<notin> set (ps_used y)" and "demo_shape \<in> set (pc_shapes (pl_cfg (ps_pool y)))"
  shows "demo_step y (run_reserve y)"
  unfolding run_reserve_def
  using assms demo_sampled
  by (intro pool_step.st_reserve [where smp = demo_sample and now = 5 and s = demo_shape])
    (simp_all add: demo_shape_def prod_eq_iff)

lemma run_booted_step: "''vm-1'' \<in> set (ps_boots y) \<Longrightarrow> demo_step y (run_booted y)"
  unfolding run_booted_def
  by (rule pool_step.st_booted [where now = 20 and provisioned = True
        and warm = "fst (finish_boot_section 20 True ''vm-1'' (ps_pool y))"]) simp_all

lemma run_bind_step:
  assumes "real_shape (job_shape demo_job (ps_pool y))"
  shows "demo_step y (run_bind y)"
proof -
  obtain r p where b: "bind_section 30 30 demo_sample ''1'' (job_shape demo_job (ps_pool y)) (ps_pool y) = (r, p)"
    by fastforce
  have j: "jp_job_id demo_job = ''1''" by (simp add: demo_job_def labelled_job_def)
  show ?thesis
    using pool_step.st_bind [where job = demo_job and y = y and s = "job_shape demo_job (ps_pool y)"
        and oks = real_shape and okh = "sampled_host 32768" and smp = demo_sample and started = 30 and now = 30
        and r = r and p = p] assms demo_sampled b j
    by (simp add: run_bind_def)
qed

lemma run_kill_step:
  "get_vm ''vm-1'' (ps_pool y) = Some vm \<Longrightarrow> pv_state vm \<noteq> Busy \<Longrightarrow> demo_step y (run_kill y)"
  unfolding run_kill_def by (rule pool_step.st_kill)

lemma run_begin_step: "''vm-1'' \<in> set (ps_doomed y) \<Longrightarrow> demo_step y (run_begin y)"
  unfolding run_begin_def
  by (cases "begin_destroy_section ''vm-1'' (ps_pool y)") (simp add: pool_step.st_begin)

lemma run_drain_step: "demo_step y (run_drain y)"
  unfolding run_drain_def by (rule pool_step.st_drain)

lemmas run_defs = run_reserve_def run_booted_def run_bind_def run_kill_def run_begin_def run_drain_def

lemma demo_refilled: "pool_reach real_shape (sampled_host 32768) demo_start (run_reserve demo_start)"
  unfolding pool_reach_def
  by (rule r_into_rtranclp, rule run_reserve_step; code_simp)

lemma demo_warm_reach:
  "pool_reach real_shape (sampled_host 32768) demo_start (run_booted (run_reserve demo_start))"
  using demo_refilled unfolding pool_reach_def
  by (rule rtranclp.rtrancl_into_rtrancl) (rule run_booted_step, code_simp)

lemma demo_bound:
  "pool_reach real_shape (sampled_host 32768) demo_start (run_bind (run_booted (run_reserve demo_start)))"
  using demo_warm_reach unfolding pool_reach_def
  by (rule rtranclp.rtrancl_into_rtrancl) (rule run_bind_step, code_simp)

text \<open>A guest of the pool that is busy with the job.\<close>

definition busy_with :: "string \<Rightarrow> vmID \<Rightarrow> pool_sys \<Rightarrow> bool" where
  "busy_with job i y =
     (case get_vm i (ps_pool y) of None \<Rightarrow> False | Some vm \<Rightarrow> pv_state vm = Busy \<and> pv_job vm = job)"

text \<open>
  A killed guest can be given a job. Killing a guest that is still booting marks it as destroying, but
  the end of its boot makes it warm again whatever its state: it is then bound to a job while the
  destruction the kill began is still under way, and that destruction takes the guest from the job.
\<close>

theorem killed_boot_is_bound:
  "\<exists>y. pool_reach real_shape (sampled_host 32768) demo_start y \<and> busy_with ''1'' ''vm-1'' y \<and>
    ''vm-1'' \<in> set (ps_dying y) \<and>
    get_vm ''vm-1'' (destroy_result 40 None ''vm-1'' (ps_pool y)) = None"
proof -
  let ?y1 = "run_reserve demo_start"
  let ?y2 = "run_kill ?y1"
  let ?y3 = "run_begin ?y2"
  let ?y4 = "run_booted ?y3"
  let ?y5 = "run_bind ?y4"
  have "\<exists>vm. get_vm ''vm-1'' (ps_pool ?y1) = Some vm \<and> pv_state vm \<noteq> Busy"
    by (intro exI [of _ "booting_vm 5 ''vm-1'' demo_shape"]) code_simp
  then have "demo_step ?y1 ?y2" using run_kill_step by blast
  moreover have "demo_step ?y2 ?y3" by (rule run_begin_step, code_simp)
  moreover have "demo_step ?y3 ?y4" by (rule run_booted_step, code_simp)
  moreover have "demo_step ?y4 ?y5" by (rule run_bind_step, code_simp)
  ultimately have "pool_reach real_shape (sampled_host 32768) demo_start ?y5"
    using demo_refilled unfolding pool_reach_def by (meson rtranclp.rtrancl_into_rtrancl)
  moreover have "busy_with ''1'' ''vm-1'' ?y5" by code_simp
  moreover have "''vm-1'' \<in> set (ps_dying ?y5)" by code_simp
  ultimately show ?thesis by (intro exI [of _ ?y5]) (simp add: pool_simps destroy_result_def)
qed

text \<open>
  A drain or an idle recycling can destroy a running job's guest: it picks the warm guests under the
  lock, and destroys each one later without looking at it again; a guest bound in between goes from busy
  to destroying although its job has not ended.
\<close>

theorem drain_can_take_busy_guest:
  "\<exists>y y'. pool_reach real_shape (sampled_host 32768) demo_start y \<and> busy_with ''1'' ''vm-1'' y \<and>
    demo_step y y' \<and> map_option pv_state (get_vm ''vm-1'' (ps_pool y')) = Some Destroying \<and>
    ''vm-1'' \<in> set (ps_dying y')"
proof -
  let ?y2 = "run_booted (run_reserve demo_start)"
  let ?y3 = "run_drain ?y2"
  let ?y4 = "run_bind ?y3"
  let ?y5 = "run_begin ?y4"
  have "demo_step ?y2 ?y3" by (rule run_drain_step)
  moreover have "demo_step ?y3 ?y4" by (rule run_bind_step, code_simp)
  ultimately have "pool_reach real_shape (sampled_host 32768) demo_start ?y4"
    using demo_warm_reach unfolding pool_reach_def by (meson rtranclp.rtrancl_into_rtrancl)
  moreover have "busy_with ''1'' ''vm-1'' ?y4" by code_simp
  moreover have "demo_step ?y4 ?y5" by (rule run_begin_step, code_simp)
  moreover have "map_option pv_state (get_vm ''vm-1'' (ps_pool ?y5)) = Some Destroying" by code_simp
  moreover have "''vm-1'' \<in> set (ps_dying ?y5)" by code_simp
  ultimately show ?thesis by blast
qed

section \<open>Witnesses\<close>

lemma demo_pool_empty:
  "pl_vms (demo_pool []) = []" "pl_in_flight (demo_pool []) = 0" "pl_in_flight_mem (demo_pool []) = 0"
  "0 \<le> pc_max_total (pl_cfg (demo_pool []))"
  "\<forall>s \<in> set (pc_shapes (pl_cfg (demo_pool []))). real_shape s" "host_size 32768"
  "host_size (pc_reserve_ram (pl_cfg (demo_pool [])))"
  by (simp_all add: demo_pool_def demo_pool_config_def real_shape_def host_size_def)

lemma demo_reach:
  "pool_reach real_shape (sampled_host 32768) (sys_init (demo_pool [])) (run_bind (run_booted (run_reserve demo_start)))"
  using demo_bound by (simp add: demo_start_def)

theorem one_job_per_guest_witness:
  "distinct (map fst (ps_served (run_bind (run_booted (run_reserve demo_start))))) \<and>
   ps_served (run_bind (run_booted (run_reserve demo_start))) = [(''vm-1'', ''1'')]"
proof -
  have "ps_served (run_bind (run_booted (run_reserve demo_start))) = [(''vm-1'', ''1'')]" by code_simp
  then show ?thesis using one_job_per_guest [OF demo_reach demo_pool_empty(1,2,4)] by simp
qed

theorem guests_never_exceed_cap_witness:
  "Total (countsLocked (ps_pool (run_bind (run_booted (run_reserve demo_start))))) \<le> 41"
proof -
  let ?y = "run_bind (run_booted (run_reserve demo_start))"
  have "ps_creates ?y = []" by code_simp
  then show ?thesis
    using guests_never_exceed_cap [OF demo_reach demo_pool_empty(1,2,4)]
    by (simp add: demo_pool_def demo_pool_config_def)
qed


theorem guests_move_forward_witness: "Warm \<le> Busy \<and> busy_with ''1'' ''vm-1'' (run_bind (run_booted (run_reserve demo_start)))"
proof -
  let ?y = "run_booted (run_reserve demo_start)"
  have st: "demo_step ?y (run_bind ?y)" by (rule run_bind_step, code_simp)
  have ok: "sys_ok ?y"
    using pool_reach_ok [of _ _ "demo_pool []", OF _ demo_pool_empty(1,2,4)] demo_warm_reach
    unfolding demo_start_def by blast
  have b: "''vm-1'' \<notin> set (ps_boots ?y)" by code_simp
  obtain vm where vm: "get_vm ''vm-1'' (ps_pool ?y) = Some vm" "pv_state vm = Warm"
  proof -
    have "map_option pv_state (get_vm ''vm-1'' (ps_pool ?y)) = Some Warm" by code_simp
    then show thesis using that by auto
  qed
  have busy: "busy_with ''1'' ''vm-1'' (run_bind ?y)" by code_simp
  then obtain vm' where vm': "get_vm ''vm-1'' (ps_pool (run_bind ?y)) = Some vm'" "pv_state vm' = Busy"
    by (auto simp: busy_with_def split: option.splits)
  show ?thesis using guests_move_forward [OF st ok b vm(1) vm'(1)] vm(2) vm'(2) busy by simp
qed

end
