(* ===== verification/CacheIndex.thy ===== *)
theory CacheIndex
  imports Base
begin

text \<open>
  Eviction from the two host caches, \<open>internal/ghacache/store.go\<close> and \<open>internal/ocicache/store.go\<close>: both
  keep an index of what is on disk with a running total, and when the total is over the limit remove
  entries, oldest access first, until it is not. The loop is one function here; what it promises is the
  contract of a locale that each store fulfils with its own index, order and protected entry.
\<close>

section \<open>Sums in 64 bits\<close>

lemma wrap64_wrap_left [simp]: "wrap64 (wrap64 a + b) = wrap64 (a + b)"
proof -
  have "wrap64 a = a - 2 ^ 64 * ((a + 2 ^ 63) div 2 ^ 64)"
    unfolding wrap64_def by (simp only: minus_mult_div_eq_mod [symmetric])
  then have "wrap64 a + b + 2 ^ 63 = (a + b + 2 ^ 63) + 2 ^ 64 * (- ((a + 2 ^ 63) div 2 ^ 64))"
    by (simp add: algebra_simps)
  then have "(wrap64 a + b + 2 ^ 63) mod 2 ^ 64 = (a + b + 2 ^ 63) mod 2 ^ 64"
    by (simp only: mod_mult_self2)
  then show ?thesis by (simp add: wrap64_def [of "wrap64 a + b"] wrap64_def [of "a + b"])
qed


lemma wrap64_wrap [simp]: "wrap64 (wrap64 a) = wrap64 a"
  using wrap64_wrap_left [of a 0] by simp

lemma wrap64_wrap_right [simp]: "wrap64 (b + wrap64 a) = wrap64 (b + a)"
  using wrap64_wrap_left [of a b] by (simp add: add.commute)

lemma wrap64_wrap_minus [simp]: "wrap64 (wrap64 a - b) = wrap64 (a - b)"
  using wrap64_wrap_left [of a "- b"] by simp

section \<open>The loop\<close>

text \<open>
  The items are the candidates in the order of eviction, with their sizes. The result is what was removed,
  the new total, and whether every removal from the disk succeeded.
\<close>

fun evict_run ::
  "int \<Rightarrow> ('k \<Rightarrow> bool) \<Rightarrow> ('k \<Rightarrow> bool) \<Rightarrow> ('k \<times> int) list \<Rightarrow> int \<Rightarrow> 'k list \<times> int \<times> bool" where
  "evict_run limit keep rm_ok [] t = ([], t, True)"
| "evict_run limit keep rm_ok ((k, sz) # r) t =
     (if t \<le> limit then ([], t, True)
      else if keep k then evict_run limit keep rm_ok r t
      else if \<not> rm_ok k then ([], t, False)
      else (case evict_run limit keep rm_ok r (wrap64 (t - sz)) of
              (ks, t', ok) \<Rightarrow> (k # ks, t', ok)))"

definition sizes :: "('k \<times> int) list \<Rightarrow> int" where
  "sizes xs = sum_list (map snd xs)"

definition without :: "'k list \<Rightarrow> ('k \<times> int) list \<Rightarrow> ('k \<times> int) list" where
  "without ks xs = filter (\<lambda>x. fst x \<notin> set ks) xs"

lemma in_without: "x \<in> set (without ks xs) \<longleftrightarrow> x \<in> set xs \<and> fst x \<notin> set ks"
  by (auto simp: without_def)

lemma evict_run_subset: "set (fst (evict_run limit keep rm_ok xs t)) \<subseteq> fst ` set xs"
  by (induction limit keep rm_ok xs t rule: evict_run.induct) (auto split: prod.splits)

lemma evict_run_removable:
  "k \<in> set (fst (evict_run limit keep rm_ok xs t)) \<Longrightarrow> \<not> keep k \<and> rm_ok k"
  by (induction limit keep rm_ok xs t rule: evict_run.induct) (auto split: prod.splits if_splits)

lemma without_outside: "fst ` set xs \<inter> set ks = {} \<Longrightarrow> without ks xs = xs"
  by (auto simp: without_def filter_id_conv)

lemma sizes_without_Cons:
  assumes "distinct (map fst ((k, sz) # xs))" and "set ks \<subseteq> fst ` set xs"
  shows "sizes (without (k # ks) ((k, sz) # xs)) = sizes (without ks xs)"
    and "sizes (without ks ((k, sz) # xs)) = sz + sizes (without ks xs)"
proof -
  have "filter (\<lambda>x. fst x \<noteq> k \<and> fst x \<notin> set ks) xs = filter (\<lambda>x. fst x \<notin> set ks) xs"
    using assms(1) by (intro filter_cong) force+
  then show "sizes (without (k # ks) ((k, sz) # xs)) = sizes (without ks xs)"
    by (simp add: without_def sizes_def)
  show "sizes (without ks ((k, sz) # xs)) = sz + sizes (without ks xs)"
    using assms by (auto simp: without_def sizes_def)
qed

text \<open>The total keeps being the sum of what is left, over any other contents \<open>c\<close>.\<close>

lemma evict_run_total:
  assumes "distinct (map fst xs)" and "evict_run limit keep rm_ok xs (wrap64 (c + sizes xs)) = (ks, t', ok)"
  shows "t' = wrap64 (c + sizes (without ks xs))"
  using assms
proof (induction limit keep rm_ok xs "wrap64 (c + sizes xs)" arbitrary: c ks t' ok rule: evict_run.induct)
  case (2 limit keep rm_ok k sz r)
  let ?t = "wrap64 (c + sizes ((k, sz) # r))"
  consider "?t \<le> limit" | "\<not> ?t \<le> limit" "keep k" | "\<not> ?t \<le> limit" "\<not> keep k" "\<not> rm_ok k"
    | "\<not> ?t \<le> limit" "\<not> keep k" "rm_ok k" by blast
  then show ?case
  proof cases
    case 2
    have e: "evict_run limit keep rm_ok r (wrap64 ((c + sz) + sizes r)) = (ks, t', ok)"
      using "2.prems"(2) 2 by (simp add: sizes_def add.assoc)
    have "set ks \<subseteq> fst ` set r" using evict_run_subset [of limit keep rm_ok r "wrap64 (c + sz + sizes r)"] e by simp
    moreover have "t' = wrap64 ((c + sz) + sizes (without ks r))"
      using "2.hyps"(1) [OF 2 _ _ e] "2.prems"(1) by (simp add: sizes_def add.assoc)
    ultimately show ?thesis using sizes_without_Cons(2) [OF "2.prems"(1)] by (simp add: add.assoc)
  next
    case 4
    obtain ks' t'' ok' where e: "evict_run limit keep rm_ok r (wrap64 (c + sizes r)) = (ks', t'', ok')" by (metis prod_cases3)
    have eq: "wrap64 (wrap64 (c + sizes ((k, sz) # r)) - sz) = wrap64 (c + sizes r)"
      by (simp add: sizes_def algebra_simps)
    have "ks = k # ks'" "t' = t''" using "2.prems"(2) 4 e eq by auto
    moreover have "set ks' \<subseteq> fst ` set r" using evict_run_subset [of limit keep rm_ok r "wrap64 (c + sizes r)"] e by simp
    moreover have "t'' = wrap64 (c + sizes (without ks' r))"
      using "2.hyps"(2) [OF 4(1,2) _ _ _ e] 4 "2.prems"(1) eq by simp
    ultimately show ?thesis using sizes_without_Cons(1) [OF "2.prems"(1)] by simp
  qed (use "2.prems"(2) in \<open>auto simp: without_def\<close>)
qed (simp add: without_def)

text \<open>When every removal succeeds, the total ends within the limit or nothing but protected entries is left.\<close>

lemma evict_run_enough:
  assumes "distinct (map fst xs)" and "evict_run limit keep rm_ok xs t = (ks, t', True)"
  shows "t' \<le> limit \<or> (\<forall>x \<in> set (without ks xs). keep (fst x))"
  using assms
proof (induction limit keep rm_ok xs t arbitrary: ks t' rule: evict_run.induct)
  case (2 limit keep rm_ok k sz r t)
  then show ?case
    by (auto simp: without_def split: if_splits prod.splits)
qed (simp add: without_def)

text \<open>What is removed comes before what stays, protected entries apart.\<close>

lemma evict_run_prefix:
  assumes "sorted_wrt R xs" and "distinct (map fst xs)" and "evict_run limit keep rm_ok xs t = (ks, t', ok)"
    and "x \<in> set xs" "fst x \<in> set ks" and "y \<in> set (without ks xs)" "\<not> keep (fst y)"
  shows "R x y"
  using assms
proof (induction limit keep rm_ok xs t arbitrary: ks t' ok rule: evict_run.induct)
  case (2 limit keep rm_ok k sz r t)
  consider "t \<le> limit \<or> (\<not> keep k \<and> \<not> rm_ok k)" | "\<not> t \<le> limit" "keep k"
    | "\<not> t \<le> limit" "\<not> keep k" "rm_ok k" by blast
  then show ?case
  proof cases
    case 1
    then have "ks = []" using "2.prems"(3) by (auto split: if_splits)
    then show ?thesis using "2.prems"(5) by simp
  next
    case 2
    then have e: "evict_run limit keep rm_ok r t = (ks, t', ok)" using "2.prems"(3) by simp
    then have "set ks \<subseteq> fst ` set r" using evict_run_subset [of limit keep rm_ok r t] by simp
    then have "x \<noteq> (k, sz)" using "2.prems"(2,5) by auto
    moreover have "y \<noteq> (k, sz)" using "2.prems"(7) 2(2) by auto
    ultimately have "x \<in> set r" "y \<in> set (without ks r)"
      using "2.prems"(4,6) by (simp_all add: in_without)
    then show ?thesis using "2.IH"(1) [OF 2 _ _ e] "2.prems" by auto
  next
    case 3
    obtain ks' t'' ok' where e: "evict_run limit keep rm_ok r (wrap64 (t - sz)) = (ks', t'', ok')" by (metis prod_cases3)
    then have ks: "ks = k # ks'" using "2.prems"(3) 3 by auto
    have y: "y \<in> set r" "y \<in> set (without ks' r)" using "2.prems"(6) ks by (auto simp: in_without)
    show ?thesis
    proof (cases "x = (k, sz)")
      case True
      then show ?thesis using "2.prems"(1) y(1) by auto
    next
      case False
      then have "x \<in> set r" "fst x \<in> set ks'" using "2.prems"(2,4,5) ks by auto
      then show ?thesis using "2.IH"(2) [OF 3(1,2) _ _ _ e] 3 y(2) "2.prems" by auto
    qed
  qed
qed simp

section \<open>The contract of an evicting store\<close>

text \<open>
  \<open>items\<close> is the index in the order of eviction, \<open>used\<close> the running total, \<open>before\<close> the order, and \<open>evict\<close>
  the store's operation, for a protected entry and a disk that may refuse a removal.
\<close>

locale evicting_store =
  fixes items :: "'s \<Rightarrow> ('k \<times> int) list"
    and used :: "'s \<Rightarrow> int"
    and limit :: "'s \<Rightarrow> int"
    and evict :: "('k \<Rightarrow> bool) \<Rightarrow> ('k \<Rightarrow> bool) \<Rightarrow> 's \<Rightarrow> bool \<times> 's"
    and good :: "'s \<Rightarrow> bool"
  assumes distinct_items: "good s \<Longrightarrow> distinct (map fst (items s))"
    and evict_spec: "good s \<Longrightarrow> evict_run (limit s) keep rm_ok (items s) (used s) = (ks, t, ok) \<Longrightarrow>
      evict keep rm_ok s = (res, s') \<Longrightarrow>
      res = ok \<and> good s' \<and> used s' = t \<and> limit s' = limit s \<and> set (items s') = set (without ks (items s))"
begin

definition accounted :: "'s \<Rightarrow> bool" where
  "accounted s \<longleftrightarrow> good s \<and> used s = wrap64 (sizes (items s))"

lemma evict_cases:
  assumes "good s" and "evict keep rm_ok s = (res, s')"
  obtains ks where "evict_run (limit s) keep rm_ok (items s) (used s) = (ks, used s', res)"
    "good s'" "limit s' = limit s" "set (items s') = set (without ks (items s))"
proof -
  obtain ks t ok where e: "evict_run (limit s) keep rm_ok (items s) (used s) = (ks, t, ok)" by (metis prod_cases3)
  then show thesis using evict_spec [OF assms(1) e assms(2)] that by blast
qed

lemma sizes_same_set:
  assumes "distinct (map fst xs)" and "distinct (map fst ys)" and "set xs = set ys"
  shows "sizes xs = sizes ys"
proof -
  have "distinct xs" "distinct ys" using assms(1,2) by (simp_all add: distinct_map)
  then show ?thesis
    unfolding sizes_def using assms(3) by (simp add: sum_list_distinct_conv_sum_set)
qed

lemma evict_accounted:
  assumes "accounted s" and "evict keep rm_ok s = (res, s')"
  shows "accounted s'"
proof -
  have g: "good s" and u: "used s = wrap64 (0 + sizes (items s))" using assms(1) by (simp_all add: accounted_def)
  obtain ks where ks: "evict_run (limit s) keep rm_ok (items s) (used s) = (ks, used s', res)"
    "good s'" "set (items s') = set (without ks (items s))"
    by (rule evict_cases [OF g assms(2)])
  have "used s' = wrap64 (0 + sizes (without ks (items s)))"
    by (rule evict_run_total [OF distinct_items [OF g] ks(1) [unfolded u]])
  moreover have "distinct (map fst (without ks (items s)))"
    using distinct_items [OF g] by (simp add: without_def distinct_map_filter)
  ultimately show ?thesis
    using sizes_same_set [OF distinct_items [OF ks(2)] _ ks(3)] ks(2) by (simp add: accounted_def)
qed

lemma evict_enough:
  assumes "good s" and "evict keep rm_ok s = (True, s')"
  shows "used s' \<le> limit s' \<or> (\<forall>x \<in> set (items s'). keep (fst x))"
proof -
  obtain ks where ks: "evict_run (limit s) keep rm_ok (items s) (used s) = (ks, used s', True)"
    "limit s' = limit s" "set (items s') = set (without ks (items s))"
    by (rule evict_cases [OF assms])
  then show ?thesis using evict_run_enough [OF distinct_items [OF assms(1)] ks(1)] by simp
qed

lemma evict_keeps:
  assumes "good s" and "evict keep rm_ok s = (res, s')" and "x \<in> set (items s)" and "keep (fst x)"
  shows "x \<in> set (items s')"
proof -
  obtain ks where ks: "evict_run (limit s) keep rm_ok (items s) (used s) = (ks, used s', res)"
    "set (items s') = set (without ks (items s))"
    by (rule evict_cases [OF assms(1,2)])
  then show ?thesis
    using assms(3,4) evict_run_removable [of "fst x" "limit s" keep rm_ok "items s" "used s"] by (auto simp: in_without)
qed

lemma evict_only_removes:
  assumes "good s" and "evict keep rm_ok s = (res, s')"
  shows "set (items s') \<subseteq> set (items s)"
  by (rule evict_cases [OF assms]) (auto simp: in_without)

lemma evict_idle:
  assumes "good s" and "evict keep rm_ok s = (res, s')" and "used s \<le> limit s"
  shows "res \<and> used s' = used s \<and> set (items s') = set (items s)"
proof -
  have "evict_run (limit s) keep rm_ok (items s) (used s) = ([], used s, True)"
    using assms(3) by (cases "items s" rule: list.exhaust) auto
  then show ?thesis using evict_spec [OF assms(1) _ assms(2)] by (simp add: without_def)
qed

end

text \<open>A store that evicts in the order of last access, as its index has it.\<close>

locale lru_store = evicting_store items used limit evict good
  for items :: "'s \<Rightarrow> ('k \<times> int) list" and used limit evict good +
  fixes accessed :: "'s \<Rightarrow> 'k \<Rightarrow> int"
  assumes by_access: "good s \<Longrightarrow> sorted_wrt (\<lambda>x y. accessed s (fst x) \<le> accessed s (fst y)) (items s)"
begin

lemma evict_oldest:
  assumes "good s" and "evict keep rm_ok s = (res, s')"
    and "x \<in> set (items s)" "x \<notin> set (items s')" and "y \<in> set (items s')" "\<not> keep (fst y)"
  shows "accessed s (fst x) \<le> accessed s (fst y)"
proof -
  obtain ks where ks: "evict_run (limit s) keep rm_ok (items s) (used s) = (ks, used s', res)"
    "set (items s') = set (without ks (items s))"
    by (rule evict_cases [OF assms(1,2)])
  then show ?thesis
    using evict_run_prefix [OF by_access [OF assms(1)] distinct_items [OF assms(1)] ks(1), of x y] assms(3-6)
    by (auto simp: in_without)
qed

end

end
