(* ===== verification/ActionsCache.thy ===== *)
theory ActionsCache
  imports CacheIndex "HOL-Library.Multiset"
begin

text \<open>
  \<open>internal/ghacache/store.go\<close>: the host's Actions cache. The state is the index in memory and what the
  cache directory holds: the uploads under way by their directory name, and the entries by repository and
  directory name. Texts stand for byte strings. The hash, the clock, fresh names and a disk that refuses
  a removal are arguments; other disk errors are not modelled. A repository whose owner is called
  \<open>uploads\<close> would share the directory of the uploads and is not told apart from others here.
\<close>

section \<open>Data\<close>

record cacheMeta =
  cm_id :: string
  cm_repo :: string
  cm_key :: string
  cm_version :: string
  cm_size :: int
  cm_state :: string
  cm_created :: gotime
  cm_last :: gotime

record cacheIndexEnt =
  ci_id :: string
  ci_repo :: string
  ci_key :: string
  ci_version :: string
  ci_dir :: "string \<times> string"
  ci_size :: int
  ci_created :: gotime
  ci_last :: gotime

record upload_dir =
  ud_meta :: cacheMeta
  ud_data :: "string option"
  ud_blocks :: "(string \<times> string) list"

record ghaStore =
  gs_max :: int
  gs_idx :: "(string \<times> cacheIndexEnt) list"
  gs_total :: int
  gs_uploads :: "(string \<times> upload_dir) list"
  gs_entries :: "((string \<times> string) \<times> cacheMeta \<times> string) list"

record EntryUsage =
  eu_key :: string
  eu_version :: string
  eu_bytes :: int
  eu_created :: gotime
  eu_last :: gotime

record RepoUsage =
  ru_repo :: string
  ru_bytes :: int
  ru_entries :: int
  ru_last :: gotime
  ru_keys :: "EntryUsage list"

record cacheUsage =
  us_bytes :: int
  us_max :: int
  us_entries :: int
  us_repos :: "RepoUsage list"

datatype cache_error =
    ErrExists | ErrInvalidRepo | ErrKeyRequired | ErrRandom | ErrUnknownUpload string
  | ErrMissingBlock string | ErrNoUpload | ErrNoData | ErrBlobNotFound | ErrRemove

section \<open>Names and order\<close>

definition validateRepo :: "string \<Rightarrow> bool" where
  "validateRepo repo \<longleftrightarrow>
     (let parts = split_on (CHR ''/'') (trim_space repo)
      in length parts = 2 \<and> list_all (\<lambda>p. p \<noteq> '''' \<and> p \<noteq> ''.'' \<and> p \<noteq> ''..'' \<and>
           CHR 0x5C \<notin> set p \<and> CHR '':'' \<notin> set p) parts)"

definition nul :: string where "nul = [CHR 0x00]"

definition entryID :: "(string \<Rightarrow> string) \<Rightarrow> string \<Rightarrow> string \<Rightarrow> string \<Rightarrow> string" where
  "entryID sha repo key version = sha (repo @ nul @ key @ nul @ version)"

definition name_le :: "string \<times> 'a \<Rightarrow> string \<times> 'a \<Rightarrow> bool" where
  "name_le a b \<longleftrightarrow> \<not> text_less (fst b) (fst a)"

text \<open>\<open>os.ReadDir\<close>: the entries of a directory, sorted by name.\<close>

definition read_dir :: "(string \<times> 'a) list \<Rightarrow> (string \<times> 'a) list" where
  "read_dir d = isort_by name_le d"

definition repo_dir :: "string \<Rightarrow> ghaStore \<Rightarrow> (string \<times> cacheMeta \<times> string) list" where
  "repo_dir repo s =
     read_dir (map (\<lambda>((r, i), e). (i, e)) (filter (\<lambda>((r, i), e). r = repo) (gs_entries s)))"

definition index_of :: "cacheMeta \<Rightarrow> string \<times> string \<Rightarrow> cacheIndexEnt" where
  "index_of m dir =
     \<lparr> ci_id = cm_id m, ci_repo = cm_repo m, ci_key = cm_key m, ci_version = cm_version m, ci_dir = dir,
       ci_size = cm_size m, ci_created = cm_created m, ci_last = cm_last m \<rparr>"

section \<open>The index\<close>

fun rebuild_from ::
  "((string \<times> string) \<times> cacheMeta \<times> string) list \<Rightarrow> (string \<times> cacheIndexEnt) list \<times> int \<Rightarrow>
   (string \<times> cacheIndexEnt) list \<times> int" where
  "rebuild_from [] acc = acc"
| "rebuild_from ((dir, m, d) # r) (idx, t) =
     (if cm_state m \<noteq> ''ready'' \<or> cm_id m = '''' then rebuild_from r (idx, t)
      else rebuild_from r (AList.update (cm_id m) (index_of m dir) idx, wrap64 (t + cm_size m)))"

definition rebuildIndex :: "ghaStore \<Rightarrow> ghaStore" where
  "rebuildIndex s =
     (case rebuild_from (gs_entries s) ([], 0) of (idx, t) \<Rightarrow> s\<lparr> gs_idx := idx, gs_total := t \<rparr>)"

text \<open>Opening a directory with these contents.\<close>

definition OpenStore ::
  "int \<Rightarrow> (string \<times> upload_dir) list \<Rightarrow> ((string \<times> string) \<times> cacheMeta \<times> string) list \<Rightarrow> ghaStore" where
  "OpenStore max_bytes ups ents =
     rebuildIndex \<lparr> gs_max = (if max_bytes \<le> 0 then 50 * 2 ^ 30 else max_bytes), gs_idx = [], gs_total = 0,
       gs_uploads = ups, gs_entries = ents \<rparr>"

definition rememberLocked :: "cacheMeta \<Rightarrow> string \<times> string \<Rightarrow> ghaStore \<Rightarrow> ghaStore" where
  "rememberLocked m dir s =
     (let t = (case map_of (gs_idx s) (cm_id m) of
                 None \<Rightarrow> gs_total s | Some old \<Rightarrow> wrap64 (gs_total s - ci_size old))
      in s\<lparr> gs_idx := AList.update (cm_id m) (index_of m dir) (gs_idx s), gs_total := wrap64 (t + cm_size m) \<rparr>)"

definition forgetLocked :: "string \<Rightarrow> ghaStore \<Rightarrow> ghaStore" where
  "forgetLocked i s =
     (case map_of (gs_idx s) i of
        None \<Rightarrow> s
      | Some e \<Rightarrow> s\<lparr> gs_idx := AList.delete i (gs_idx s), gs_total := wrap64 (gs_total s - ci_size e) \<rparr>)"

definition sort_texts :: "string list \<Rightarrow> string list" where
  "sort_texts xs = isort_by (\<lambda>a b. \<not> text_less b a) (remdups xs)"

definition Repos :: "ghaStore \<Rightarrow> string list" where
  "Repos s = sort_texts (filter (\<lambda>r. r \<noteq> '''') (map (ci_repo \<circ> snd) (gs_idx s)))"

definition bigger_first :: "EntryUsage \<Rightarrow> EntryUsage \<Rightarrow> bool" where
  "bigger_first a b \<longleftrightarrow>
     (if eu_bytes a \<noteq> eu_bytes b then eu_bytes a > eu_bytes b else \<not> text_less (eu_key b) (eu_key a))"

definition repo_usage :: "string \<Rightarrow> cacheIndexEnt list \<Rightarrow> RepoUsage" where
  "repo_usage r es =
     \<lparr> ru_repo = r, ru_bytes = wrap64 (sum_list (map ci_size es)), ru_entries = int (length es),
       ru_last = fold (\<lambda>e t. if ci_last e > t then ci_last e else t) es zero_time,
       ru_keys = isort_by bigger_first (map (\<lambda>e. \<lparr> eu_key = ci_key e, eu_version = ci_version e,
         eu_bytes = ci_size e, eu_created = ci_created e, eu_last = ci_last e \<rparr>) es) \<rparr>"

definition usageLocked :: "ghaStore \<Rightarrow> cacheUsage" where
  "usageLocked s =
     (let es = filter (\<lambda>e. ci_repo e \<noteq> '''') (map snd (gs_idx s))
      in \<lparr> us_bytes = wrap64 (sum_list (map ci_size es)), us_max = gs_max s, us_entries = int (length es),
           us_repos = map (\<lambda>r. repo_usage r (filter (\<lambda>e. ci_repo e = r) es)) (Repos s) \<rparr>)"

section \<open>Eviction\<close>

definition lru_before :: "string \<times> cacheIndexEnt \<Rightarrow> string \<times> cacheIndexEnt \<Rightarrow> bool" where
  "lru_before a b \<longleftrightarrow>
     (if ci_last (snd a) = ci_last (snd b) then \<not> text_less (ci_id (snd b)) (ci_id (snd a))
      else ci_last (snd a) < ci_last (snd b))"

definition victims :: "ghaStore \<Rightarrow> (string \<times> int) list" where
  "victims s = map (\<lambda>(i, e). (i, ci_size e)) (isort_by lru_before (gs_idx s))"

definition entry_path :: "string \<Rightarrow> ghaStore \<Rightarrow> (string \<times> string) option" where
  "entry_path i s = map_option ci_dir (map_of (gs_idx s) i)"

text \<open>Removing an evicted entry: its directory, then its index entry.\<close>

definition remove_entry :: "string \<Rightarrow> ghaStore \<Rightarrow> ghaStore" where
  "remove_entry i s =
     (let s1 = (case entry_path i s of None \<Rightarrow> s | Some d \<Rightarrow> s\<lparr> gs_entries := AList.delete d (gs_entries s) \<rparr>)
      in forgetLocked i s1)"

definition evict_with :: "(string \<Rightarrow> bool) \<Rightarrow> (string \<Rightarrow> bool) \<Rightarrow> ghaStore \<Rightarrow> bool \<times> ghaStore" where
  "evict_with keep rm_ok s =
     (if gs_total s \<le> gs_max s then (True, s)
      else case evict_run (gs_max s) keep rm_ok (victims s) (gs_total s) of
        (ks, t, ok) \<Rightarrow> (ok, fold remove_entry ks s))"

definition evictLocked :: "(string \<Rightarrow> bool) \<Rightarrow> string \<Rightarrow> ghaStore \<Rightarrow> bool \<times> ghaStore" where
  "evictLocked rm_ok keep_id s = evict_with (\<lambda>i. i = keep_id) rm_ok s"

section \<open>Lookup\<close>

definition ready_entries :: "string \<Rightarrow> ghaStore \<Rightarrow> cacheMeta list" where
  "ready_entries repo s = filter (\<lambda>m. cm_state m = ''ready'') (map (\<lambda>(i, m, d). m) (repo_dir repo s))"

definition newer_of :: "cacheMeta \<Rightarrow> cacheMeta option \<Rightarrow> cacheMeta option" where
  "newer_of e best =
     (case best of
        None \<Rightarrow> Some e
      | Some b \<Rightarrow>
          if cm_created e > cm_created b \<or> (cm_created e = cm_created b \<and> text_less (cm_key b) (cm_key e))
          then Some e else Some b)"

fun restore_lookup :: "string list \<Rightarrow> string \<Rightarrow> cacheMeta list \<Rightarrow> cacheMeta option" where
  "restore_lookup [] version es = None"
| "restore_lookup (pre # ps) version es =
     (if pre = '''' then restore_lookup ps version es
      else case fold newer_of (filter (\<lambda>e. cm_version e = version \<and> has_prefix (cm_key e) pre) es) None of
             Some b \<Rightarrow> Some b
           | None \<Rightarrow> restore_lookup ps version es)"

definition lookup_entry :: "string \<Rightarrow> string list \<Rightarrow> string \<Rightarrow> cacheMeta list \<Rightarrow> cacheMeta option" where
  "lookup_entry key restore version es =
     (case (if key = '''' then None else find (\<lambda>e. cm_key e = key \<and> cm_version e = version) es) of
        Some e \<Rightarrow> Some e
      | None \<Rightarrow> restore_lookup restore version es)"

definition lookupLocked :: "string \<Rightarrow> string \<Rightarrow> string list \<Rightarrow> string \<Rightarrow> ghaStore \<Rightarrow> cacheMeta option" where
  "lookupLocked repo key restore version s = lookup_entry key restore version (ready_entries repo s)"

section \<open>Operations\<close>

definition CreateUpload ::
  "gotime \<Rightarrow> string option \<Rightarrow> string \<Rightarrow> string \<Rightarrow> string \<Rightarrow> ghaStore \<Rightarrow> (cache_error + string) \<times> ghaStore" where
  "CreateUpload now rid repo key version s =
     (if \<not> validateRepo repo then (Inl ErrInvalidRepo, s)
      else if key = '''' \<or> version = '''' then (Inl ErrKeyRequired, s)
      else if lookupLocked repo key [] version s \<noteq> None then (Inl ErrExists, s)
      else case rid of
        None \<Rightarrow> (Inl ErrRandom, s)
      | Some i \<Rightarrow>
          (let m = \<lparr> cm_id = i, cm_repo = repo, cm_key = key, cm_version = version, cm_size = 0,
                     cm_state = ''upload'', cm_created = now, cm_last = now \<rparr>
           in (Inr i, s\<lparr> gs_uploads := AList.update i \<lparr> ud_meta = m, ud_data = None, ud_blocks = [] \<rparr>
                         (gs_uploads s) \<rparr>)))"

definition WriteUpload :: "string \<Rightarrow> string \<Rightarrow> ghaStore \<Rightarrow> cache_error option \<times> ghaStore" where
  "WriteUpload i data s =
     (case map_of (gs_uploads s) i of
        None \<Rightarrow> (Some (ErrUnknownUpload i), s)
      | Some u \<Rightarrow> (None, s\<lparr> gs_uploads := AList.update i (u\<lparr> ud_data := Some data \<rparr>) (gs_uploads s) \<rparr>))"

definition AppendUpload :: "string \<Rightarrow> string \<Rightarrow> string \<Rightarrow> ghaStore \<Rightarrow> cache_error option \<times> ghaStore" where
  "AppendUpload i block data s =
     (case map_of (gs_uploads s) i of
        None \<Rightarrow> (Some (ErrUnknownUpload i), s)
      | Some u \<Rightarrow> (None, s\<lparr> gs_uploads := AList.update i (u\<lparr> ud_blocks := AList.update block data (ud_blocks u) \<rparr>)
                              (gs_uploads s) \<rparr>))"

text \<open>The blocks in the given order, up to the first that is missing.\<close>

fun commit_blocks :: "(string \<times> string) list \<Rightarrow> string list \<Rightarrow> string \<Rightarrow> cache_error option \<times> string" where
  "commit_blocks blocks [] out = (None, out)"
| "commit_blocks blocks (b # bs) out =
     (case map_of blocks b of
        None \<Rightarrow> (Some (ErrMissingBlock b), out)
      | Some d \<Rightarrow> commit_blocks blocks bs (out @ d))"

definition CommitBlocks :: "string \<Rightarrow> string list \<Rightarrow> ghaStore \<Rightarrow> cache_error option \<times> ghaStore" where
  "CommitBlocks i ids s =
     (case map_of (gs_uploads s) i of
        None \<Rightarrow> (Some (ErrUnknownUpload i), s)
      | Some u \<Rightarrow>
          (case commit_blocks (ud_blocks u) ids '''' of
             (err, out) \<Rightarrow>
               (err, s\<lparr> gs_uploads := AList.update i (u\<lparr> ud_data := Some out \<rparr>) (gs_uploads s) \<rparr>)))"

definition findUploadLocked :: "string \<Rightarrow> string \<Rightarrow> string \<Rightarrow> ghaStore \<Rightarrow> string option" where
  "findUploadLocked repo key version s =
     map_option (\<lambda>(i, u). cm_id (ud_meta u))
       (find (\<lambda>(i, u). cm_repo (ud_meta u) = repo \<and> cm_key (ud_meta u) = key \<and>
                        cm_version (ud_meta u) = version \<and> cm_state (ud_meta u) = ''upload'')
          (read_dir (gs_uploads s)))"

definition Finalize ::
  "(string \<Rightarrow> string) \<Rightarrow> gotime \<Rightarrow> (string \<Rightarrow> bool) \<Rightarrow> string \<Rightarrow> string \<Rightarrow> string \<Rightarrow> int \<Rightarrow> ghaStore \<Rightarrow>
   (cache_error + cacheMeta) \<times> ghaStore" where
  "Finalize sha now rm_ok repo key version declared s =
     (case findUploadLocked repo key version s of
        None \<Rightarrow> (Inl ErrNoUpload, s)
      | Some up \<Rightarrow>
          (case Option.bind (map_of (gs_uploads s) up) ud_data of
             None \<Rightarrow> (Inl ErrNoData, s)
           | Some data \<Rightarrow>
               (let bytes = (if declared \<le> 0 then int (length data) else declared);
                    eid = entryID sha repo key version;
                    m = \<lparr> cm_id = eid, cm_repo = repo, cm_key = key, cm_version = version, cm_size = bytes,
                          cm_state = ''ready'', cm_created = now, cm_last = now \<rparr>;
                    s1 = rememberLocked m (repo, eid)
                           (s\<lparr> gs_entries := AList.update (repo, eid) (m, data) (gs_entries s) \<rparr>);
                    s2 = s1\<lparr> gs_uploads := AList.delete up (gs_uploads s1) \<rparr>
                in case evictLocked rm_ok eid s2 of
                     (True, s3) \<Rightarrow> (Inr m, s3)
                   | (False, s3) \<Rightarrow> (Inl ErrRemove, s3))))"

definition GetEntry ::
  "gotime \<Rightarrow> string \<Rightarrow> string \<Rightarrow> string list \<Rightarrow> string \<Rightarrow> ghaStore \<Rightarrow> cacheMeta option \<times> ghaStore" where
  "GetEntry now repo key restore version s =
     (case lookupLocked repo key restore version s of
        None \<Rightarrow> (None, s)
      | Some e \<Rightarrow>
          (let e' = e\<lparr> cm_last := now \<rparr> in
           (Some e',
            (case map_of (gs_entries s) (repo, cm_id e) of
               None \<Rightarrow> s
             | Some (m, d) \<Rightarrow> s\<lparr> gs_entries := AList.update (repo, cm_id e) (e', d) (gs_entries s) \<rparr>))))"

definition ReadBlob :: "string \<Rightarrow> ghaStore \<Rightarrow> cache_error + string" where
  "ReadBlob i s =
     (case entry_path i s of
        None \<Rightarrow> Inl ErrBlobNotFound
      | Some dir \<Rightarrow>
          (case map_of (gs_entries s) dir of None \<Rightarrow> Inl ErrNoData | Some (m, d) \<Rightarrow> Inr d))"

fun delete_dirs ::
  "string \<Rightarrow> (string \<Rightarrow> bool) \<Rightarrow> (string \<times> cacheMeta \<times> string) list \<Rightarrow> int \<times> int \<Rightarrow> ghaStore \<Rightarrow>
   (int \<times> int \<times> cache_error option) \<times> ghaStore" where
  "delete_dirs repo rm_ok [] (n, b) s = ((n, b, None), s)"
| "delete_dirs repo rm_ok ((i, m, d) # r) (n, b) s =
     (let (n1, b1) = (if cm_state m = ''ready'' then (n + 1, wrap64 (b + cm_size m)) else (n, b))
      in if \<not> rm_ok i then ((n1, b1, Some ErrRemove), s)
         else delete_dirs repo rm_ok r (n1, b1)
           (forgetLocked (cm_id m) (s\<lparr> gs_entries := AList.delete (repo, i) (gs_entries s) \<rparr>)))"

definition DeleteRepo :: "(string \<Rightarrow> bool) \<Rightarrow> string \<Rightarrow> ghaStore \<Rightarrow> (int \<times> int \<times> cache_error option) \<times> ghaStore" where
  "DeleteRepo rm_ok repo s =
     (if \<not> validateRepo repo then ((0, 0, Some ErrInvalidRepo), s)
      else delete_dirs repo rm_ok (repo_dir repo s) (0, 0) s)"

text \<open>The first component of a repository's path; the directory \<open>ca\<close> is left alone.\<close>

definition owner_of :: "string \<Rightarrow> string" where
  "owner_of repo = takeWhile (\<lambda>c. c \<noteq> CHR ''/'') repo"

definition DeleteAll :: "ghaStore \<Rightarrow> (int \<times> int) \<times> ghaStore" where
  "DeleteAll s =
     (let u = usageLocked s
      in ((us_entries u, us_bytes u),
          s\<lparr> gs_entries := filter (\<lambda>((r, i), e). owner_of r = ''ca'') (gs_entries s), gs_uploads := [],
             gs_idx := [], gs_total := 0 \<rparr>))"

section \<open>The eviction contract holds\<close>

definition index_keys :: "ghaStore \<Rightarrow> bool" where
  "index_keys s \<longleftrightarrow> distinct (map fst (gs_idx s)) \<and> (\<forall>(i, e) \<in> set (gs_idx s). ci_id e = i)"

definition accessed_at :: "ghaStore \<Rightarrow> string \<Rightarrow> int" where
  "accessed_at s i = (case map_of (gs_idx s) i of None \<Rightarrow> 0 | Some e \<Rightarrow> ci_last e)"

lemma text_le_trans: "\<not> text_less b a \<Longrightarrow> \<not> text_less c b \<Longrightarrow> \<not> text_less c a"
  using text_less_linear text_less_trans by blast

lemma lru_before_trans: "lru_before a b \<Longrightarrow> lru_before b c \<Longrightarrow> lru_before a c"
  by (auto simp: lru_before_def dest: text_le_trans split: if_splits)

lemma lru_before_total: "lru_before a b \<or> lru_before b a"
  by (auto simp: lru_before_def dest: text_less_trans)

lemma set_victims: "set (victims s) = (\<lambda>(i, e). (i, ci_size e)) ` set (gs_idx s)"
  by (simp add: victims_def)

lemma fst_victims: "map fst (victims s) = map fst (isort_by lru_before (gs_idx s))"
  by (simp add: victims_def split_def)

lemma distinct_victims: "distinct (map fst (gs_idx s)) \<Longrightarrow> distinct (map fst (victims s))"
  by (simp add: fst_victims)

lemma forget_idx: "gs_idx (forgetLocked i s) = AList.delete i (gs_idx s)"
  by (auto simp: forgetLocked_def map_of_eq_None_iff split: option.split)

lemma remove_entry_fields:
  "gs_idx (remove_entry i s) = AList.delete i (gs_idx s)" "gs_max (remove_entry i s) = gs_max s"
  "gs_uploads (remove_entry i s) = gs_uploads s"
  "gs_total (remove_entry i s) =
     (case map_of (gs_idx s) i of None \<Rightarrow> gs_total s | Some e \<Rightarrow> wrap64 (gs_total s - ci_size e))"
  "gs_entries (remove_entry i s) =
     (case map_of (gs_idx s) i of None \<Rightarrow> gs_entries s | Some e \<Rightarrow> AList.delete (ci_dir e) (gs_entries s))"
proof -
  define s1 where "s1 = (case entry_path i s of None \<Rightarrow> s | Some d \<Rightarrow> s\<lparr> gs_entries := AList.delete d (gs_entries s) \<rparr>)"
  then have s1: "s1 = (case entry_path i s of None \<Rightarrow> s | Some d \<Rightarrow> s\<lparr> gs_entries := AList.delete d (gs_entries s) \<rparr>)"
    "gs_idx s1 = gs_idx s" "gs_max s1 = gs_max s" "gs_uploads s1 = gs_uploads s" "gs_total s1 = gs_total s"
    by (simp_all split: option.split)
  have r: "remove_entry i s = forgetLocked i s1" by (simp add: remove_entry_def s1(1))
  show "gs_idx (remove_entry i s) = AList.delete i (gs_idx s)" unfolding r by (simp add: forget_idx s1(2))
  show "gs_max (remove_entry i s) = gs_max s" "gs_uploads (remove_entry i s) = gs_uploads s"
    "gs_total (remove_entry i s) =
       (case map_of (gs_idx s) i of None \<Rightarrow> gs_total s | Some e \<Rightarrow> wrap64 (gs_total s - ci_size e))"
    unfolding r by (simp_all add: forgetLocked_def s1(2-5) split: option.split)
  show "gs_entries (remove_entry i s) =
     (case map_of (gs_idx s) i of None \<Rightarrow> gs_entries s | Some e \<Rightarrow> AList.delete (ci_dir e) (gs_entries s))"
    unfolding r by (cases "map_of (gs_idx s) i") (simp_all add: forgetLocked_def s1(2) s1(1) entry_path_def)
qed

lemma fold_remove_fields:
  "gs_max (fold remove_entry ks s) = gs_max s" "gs_uploads (fold remove_entry ks s) = gs_uploads s"
  "gs_idx (fold remove_entry ks s) = filter (\<lambda>x. fst x \<notin> set ks) (gs_idx s)"
proof (induction ks arbitrary: s)
  case (Cons k ks)
  case 1 show ?case by (simp add: Cons remove_entry_fields)
  case 2 show ?case by (simp add: Cons remove_entry_fields)
  case 3
  have "AList.delete k (gs_idx s) = filter (\<lambda>x. fst x \<noteq> k) (gs_idx s)"
    by (simp add: AList.delete_eq split_def eq_commute)
  then show ?case by (simp add: Cons remove_entry_fields conj_commute)
qed simp_all

text \<open>The local total of the loop is the store's.\<close>

lemma evict_fold_total:
  assumes "distinct (map fst xs)" and "\<forall>(k, sz) \<in> set xs. \<exists>e. map_of (gs_idx s) k = Some e \<and> ci_size e = sz"
    and "evict_run limit keep rm_ok xs (gs_total s) = (ks, t, ok)"
  shows "gs_total (fold remove_entry ks s) = t"
  using assms
proof (induction limit keep rm_ok xs "gs_total s" arbitrary: s ks t ok rule: evict_run.induct)
  case (2 limit keep rm_ok k sz r)
  consider "gs_total s \<le> limit \<or> (\<not> keep k \<and> \<not> rm_ok k)" | "\<not> gs_total s \<le> limit" "keep k"
    | "\<not> gs_total s \<le> limit" "\<not> keep k" "rm_ok k" by blast
  then show ?case
  proof cases
    case 1
    then have "ks = []" "t = gs_total s" using "2.prems"(3) by (auto split: if_splits)
    then show ?thesis by simp
  next
    case 2
    then show ?thesis using "2.hyps"(1) [OF 2] "2.prems" by simp
  next
    case 3
    let ?s = "remove_entry k s"
    obtain e where e: "map_of (gs_idx s) k = Some e" "ci_size e = sz" using "2.prems"(2) by auto
    have t: "gs_total ?s = wrap64 (gs_total s - sz)" by (simp add: remove_entry_fields e)
    obtain ks' t' ok' where r: "evict_run limit keep rm_ok r (gs_total ?s) = (ks', t', ok')" by (metis prod_cases3)
    then have ks: "ks = k # ks'" "t = t'" using "2.prems"(3) 3 t by auto
    have "\<forall>(j, sz) \<in> set r. \<exists>e. map_of (gs_idx ?s) j = Some e \<and> ci_size e = sz"
    proof clarify
      fix j sz'
      assume j: "(j, sz') \<in> set r"
      then have "j \<noteq> k" using "2.prems"(1) by force
      then show "\<exists>e. map_of (gs_idx ?s) j = Some e \<and> ci_size e = sz'"
        using "2.prems"(2) j by (auto simp: remove_entry_fields)
    qed
    then have "gs_total (fold remove_entry ks' ?s) = t'"
      using "2.hyps"(2) [OF 3(1,2) _ t [symmetric] _ _ r] 3 "2.prems"(1) by simp
    then show ?thesis by (simp add: ks)
  qed
qed simp

interpretation actions: evicting_store victims gs_total gs_max evict_with index_keys
proof
  fix s :: ghaStore
  assume "index_keys s"
  then show "distinct (map fst (victims s))" by (simp add: index_keys_def distinct_victims)
next
  fix s s' :: ghaStore and keep rm_ok ks t ok res
  assume g: "index_keys s" and run: "evict_run (gs_max s) keep rm_ok (victims s) (gs_total s) = (ks, t, ok)"
    and ev: "evict_with keep rm_ok s = (res, s')"
  have d: "distinct (map fst (gs_idx s))" using g by (simp add: index_keys_def)
  have m: "\<forall>(k, sz) \<in> set (victims s). \<exists>e. map_of (gs_idx s) k = Some e \<and> ci_size e = sz"
    using d by (auto simp: set_victims intro: map_of_is_SomeI)
  have t: "gs_total (fold remove_entry ks s) = t"
    by (rule evict_fold_total [OF distinct_victims [OF d] m run])
  have idle: "gs_total s \<le> gs_max s \<Longrightarrow> ks = [] \<and> t = gs_total s \<and> ok"
    using run by (cases "victims s" rule: list.exhaust) auto
  have s': "s' = fold remove_entry ks s" "res = ok"
    using ev run idle by (auto simp: evict_with_def split: if_splits)
  have "set (victims s') = set (without ks (victims s))"
    by (force simp: s' set_victims fold_remove_fields in_without image_iff)
  moreover have "index_keys s'"
    using g by (simp add: index_keys_def s' fold_remove_fields distinct_map_filter)
  ultimately show "res = ok \<and> index_keys s' \<and> gs_total s' = t \<and> gs_max s' = gs_max s \<and>
      set (victims s') = set (without ks (victims s))"
    using t by (simp add: s' fold_remove_fields)
qed

interpretation actions_lru: lru_store victims gs_total gs_max evict_with index_keys accessed_at
proof
  fix s :: ghaStore
  assume g: "index_keys s"
  let ?xs = "isort_by lru_before (gs_idx s)"
  have "sorted_wrt lru_before ?xs"
    by (rule sorted_isort_by [OF lru_before_trans lru_before_total])
  then have "sorted_wrt (\<lambda>a b. accessed_at s (fst a) \<le> accessed_at s (fst b)) ?xs"
  proof (rule sorted_wrt_mono_rel [rotated])
    fix a b
    assume ab: "a \<in> set ?xs" "b \<in> set ?xs" "lru_before a b"
    then have "map_of (gs_idx s) (fst a) = Some (snd a)" "map_of (gs_idx s) (fst b) = Some (snd b)"
      using g by (auto simp: index_keys_def intro: map_of_is_SomeI)
    then show "accessed_at s (fst a) \<le> accessed_at s (fst b)"
      using ab(3) by (auto simp: accessed_at_def lru_before_def split: if_splits)
  qed
  then show "sorted_wrt (\<lambda>x y. accessed_at s (fst x) \<le> accessed_at s (fst y)) (victims s)"
    by (simp add: victims_def sorted_wrt_map split_def)
qed

section \<open>The invariant\<close>

text \<open>A repository name that needs no special directory and keeps the parts of an entry's name apart.\<close>

definition plain_repo :: "string \<Rightarrow> bool" where
  "plain_repo r \<longleftrightarrow> validateRepo r \<and> CHR 0x00 \<notin> set r \<and> owner_of r \<noteq> ''ca''"

text \<open>What the code relies on from SHA-256: names of different repositories' entries differ.\<close>

definition no_collision :: "(string \<Rightarrow> string) \<Rightarrow> bool" where
  "no_collision sha \<longleftrightarrow>
     (\<forall>x. sha x \<noteq> '''') \<and>
     (\<forall>r k v r' k' v'. CHR 0x00 \<notin> set r \<longrightarrow> CHR 0x00 \<notin> set r' \<longrightarrow>
        entryID sha r k v = entryID sha r' k' v' \<longrightarrow> r = r')"

definition entry_ok :: "(string \<Rightarrow> string) \<Rightarrow> string \<times> string \<Rightarrow> cacheMeta \<Rightarrow> bool" where
  "entry_ok sha dir m \<longleftrightarrow>
     dir = (cm_repo m, cm_id m) \<and> cm_state m = ''ready'' \<and> plain_repo (cm_repo m) \<and>
     cm_id m = entryID sha (cm_repo m) (cm_key m) (cm_version m)"

text \<open>The index has the entry as the disk does, but for the time of the last access.\<close>

definition agree :: "cacheIndexEnt \<Rightarrow> string \<times> string \<Rightarrow> cacheMeta \<Rightarrow> bool" where
  "agree e dir m \<longleftrightarrow> e\<lparr> ci_last := 0 \<rparr> = (index_of m dir)\<lparr> ci_last := 0 \<rparr>"

definition disk_ok :: "(string \<Rightarrow> string) \<Rightarrow> ghaStore \<Rightarrow> bool" where
  "disk_ok sha s \<longleftrightarrow>
     distinct (map fst (gs_entries s)) \<and>
     (\<forall>dir m d. map_of (gs_entries s) dir = Some (m, d) \<longrightarrow>
        entry_ok sha dir m \<and> (\<exists>e. map_of (gs_idx s) (snd dir) = Some e \<and> agree e dir m)) \<and>
     (\<forall>i e. map_of (gs_idx s) i = Some e \<longrightarrow>
        snd (ci_dir e) = i \<and> (\<exists>m d. map_of (gs_entries s) (ci_dir e) = Some (m, d)))"

definition uploads_ok :: "ghaStore \<Rightarrow> bool" where
  "uploads_ok s \<longleftrightarrow> distinct (map fst (gs_uploads s)) \<and>
     (\<forall>i u. map_of (gs_uploads s) i = Some u \<longrightarrow> cm_id (ud_meta u) = i)"

definition store_ok :: "(string \<Rightarrow> string) \<Rightarrow> ghaStore \<Rightarrow> bool" where
  "store_ok sha s \<longleftrightarrow> actions.accounted s \<and> disk_ok sha s \<and> uploads_ok s"

declare map_of_eq_Some_iff [simp del]

lemma disk_okD:
  assumes "disk_ok sha s"
  shows "distinct (map fst (gs_entries s))"
    and "map_of (gs_entries s) dir = Some (m, d) \<Longrightarrow> entry_ok sha dir m"
    and "map_of (gs_entries s) dir = Some (m, d) \<Longrightarrow> \<exists>e. map_of (gs_idx s) (snd dir) = Some e \<and> agree e dir m"
    and "map_of (gs_idx s) i = Some e \<Longrightarrow> snd (ci_dir e) = i"
    and "map_of (gs_idx s) i = Some e \<Longrightarrow> \<exists>m d. map_of (gs_entries s) (ci_dir e) = Some (m, d)"
  using assms unfolding disk_ok_def by blast+

lemma store_okD: "store_ok sha s \<Longrightarrow> disk_ok sha s" "store_ok sha s \<Longrightarrow> actions.accounted s"
    "store_ok sha s \<Longrightarrow> uploads_ok s"
  by (simp_all add: store_ok_def)

lemma disk_okI:
  assumes "distinct (map fst (gs_entries s))"
    and "\<And>dir m d. map_of (gs_entries s) dir = Some (m, d) \<Longrightarrow>
      entry_ok sha dir m \<and> (\<exists>e. map_of (gs_idx s) (snd dir) = Some e \<and> agree e dir m)"
    and "\<And>i e. map_of (gs_idx s) i = Some e \<Longrightarrow> snd (ci_dir e) = i \<and> (\<exists>m d. map_of (gs_entries s) (ci_dir e) = Some (m, d))"
  shows "disk_ok sha s"
  using assms unfolding disk_ok_def by blast

lemma sizes_victims: "sizes (victims s) = sum_list (map (ci_size \<circ> snd) (gs_idx s))"
  by (simp add: sizes_def victims_def split_def o_def)

lemma accounted_iff:
  "actions.accounted s \<longleftrightarrow> index_keys s \<and> gs_total s = wrap64 (sum_list (map (ci_size \<circ> snd) (gs_idx s)))"
  by (simp add: actions.accounted_def sizes_victims)

lemma index_keys_update: "index_keys s \<Longrightarrow> ci_id e = i \<Longrightarrow> index_keys (s\<lparr> gs_idx := AList.update i e (gs_idx s) \<rparr>)"
  by (auto simp: index_keys_def distinct_update dest!: in_set_update)

lemma index_of_simps [simp]:
  "ci_id (index_of m dir) = cm_id m" "ci_size (index_of m dir) = cm_size m" "ci_dir (index_of m dir) = dir"
  "ci_repo (index_of m dir) = cm_repo m" "ci_key (index_of m dir) = cm_key m"
  "ci_version (index_of m dir) = cm_version m" "ci_last (index_of m dir) = cm_last m"
  by (simp_all add: index_of_def)

lemma agree_index_of [simp]: "agree (index_of m dir) dir m"
  by (simp add: agree_def)

lemma agreeD:
  assumes "agree e dir m"
  shows "ci_dir e = dir" "ci_size e = cm_size m" "ci_id e = cm_id m" "ci_repo e = cm_repo m"
    "ci_key e = cm_key m" "ci_version e = cm_version m"
proof -
  have "f (e\<lparr> ci_last := 0 \<rparr>) = f ((index_of m dir)\<lparr> ci_last := 0 \<rparr>)" for f :: "cacheIndexEnt \<Rightarrow> 'a"
    using assms by (simp add: agree_def)
  from this [of ci_dir] this [of ci_size] this [of ci_id] this [of ci_repo] this [of ci_key] this [of ci_version]
  show "ci_dir e = dir" "ci_size e = cm_size m" "ci_id e = cm_id m" "ci_repo e = cm_repo m"
    "ci_key e = cm_key m" "ci_version e = cm_version m" by simp_all
qed

lemma accounted_remember:
  assumes "actions.accounted s"
  shows "actions.accounted (rememberLocked m dir s)"
proof -
  have k: "index_keys s" "distinct (map fst (gs_idx s))" using assms by (simp_all add: accounted_iff index_keys_def)
  have "index_keys (rememberLocked m dir s)"
    using index_keys_update [OF k(1), of "index_of m dir"] by (simp add: rememberLocked_def index_keys_def)
  then show ?thesis
    using assms k(2) by (simp add: accounted_iff rememberLocked_def Let_def sum_update algebra_simps split: option.split)
qed

lemma accounted_remove:
  assumes "actions.accounted s"
  shows "actions.accounted (remove_entry i s)"
proof -
  have k: "distinct (map fst (gs_idx s))" using assms by (simp add: accounted_iff index_keys_def)
  have "index_keys (remove_entry i s)"
    using assms by (auto simp: accounted_iff index_keys_def remove_entry_fields distinct_delete in_set_delete)
  then show ?thesis
    using assms k by (simp add: accounted_iff remove_entry_fields sum_delete algebra_simps split: option.split)
qed

lemma disk_ok_remove:
  assumes "disk_ok sha s"
  shows "disk_ok sha (remove_entry i s)"
proof (cases "map_of (gs_idx s) i")
  case None
  then have "gs_idx (remove_entry i s) = gs_idx s" "gs_entries (remove_entry i s) = gs_entries s"
    using map_of_eq_None_iff [of "gs_idx s" i] by (simp_all add: remove_entry_fields None)
  then show ?thesis using assms by (simp add: disk_ok_def)
next
  case (Some e)
  have f: "gs_idx (remove_entry i s) = AList.delete i (gs_idx s)"
      "gs_entries (remove_entry i s) = AList.delete (ci_dir e) (gs_entries s)"
    using Some by (simp_all add: remove_entry_fields)
  have i: "snd (ci_dir e) = i" by (rule disk_okD(4) [OF assms Some])
  show ?thesis
  proof (rule disk_okI)
    show "distinct (map fst (gs_entries (remove_entry i s)))"
      unfolding f using disk_okD(1) [OF assms] by (rule distinct_delete)
  next
    fix dir m d
    assume "map_of (gs_entries (remove_entry i s)) dir = Some (m, d)"
    then have m: "map_of (gs_entries s) dir = Some (m, d)" and ne: "dir \<noteq> ci_dir e"
      unfolding f delete_conv' by (auto split: if_splits)
    obtain e' where e': "map_of (gs_idx s) (snd dir) = Some e'" "agree e' dir m"
      using disk_okD(3) [OF assms m] by blast
    have "snd dir \<noteq> i"
    proof
      assume "snd dir = i"
      then have "e' = e" using e'(1) Some by simp
      then show False using agreeD(1) [OF e'(2)] ne by simp
    qed
    then show "entry_ok sha dir m \<and> (\<exists>e. map_of (gs_idx (remove_entry i s)) (snd dir) = Some e \<and> agree e dir m)"
      using disk_okD(2) [OF assms m] e' by (auto simp: f)
  next
    fix j e'
    assume "map_of (gs_idx (remove_entry i s)) j = Some e'"
    then have j: "map_of (gs_idx s) j = Some e'" "j \<noteq> i"
      unfolding f delete_conv' by (auto split: if_splits)
    have "snd (ci_dir e') = j" by (rule disk_okD(4) [OF assms j(1)])
    moreover obtain m d where "map_of (gs_entries s) (ci_dir e') = Some (m, d)"
      using disk_okD(5) [OF assms j(1)] by blast
    moreover have "ci_dir e' \<noteq> ci_dir e" using calculation(1) i j(2) by auto
    ultimately show "snd (ci_dir e') = j \<and> (\<exists>m d. map_of (gs_entries (remove_entry i s)) (ci_dir e') = Some (m, d))"
      by (auto simp: f)
  qed
qed


lemma store_ok_remove: "store_ok sha s \<Longrightarrow> store_ok sha (remove_entry i s)"
  unfolding store_ok_def using accounted_remove disk_ok_remove by (auto simp: uploads_ok_def remove_entry_fields(3))

lemma store_ok_fold_remove: "store_ok sha s \<Longrightarrow> store_ok sha (fold remove_entry ks s)"
proof (induction ks arbitrary: s)
  case (Cons k ks)
  then show ?case using store_ok_remove by simp
qed simp

lemma store_ok_evict: "store_ok sha s \<Longrightarrow> evictLocked rm_ok k s = (b, s') \<Longrightarrow> store_ok sha s'"
  using store_ok_fold_remove by (auto simp: evictLocked_def evict_with_def split: if_splits prod.splits)

section \<open>Every operation keeps it\<close>

lemma store_ok_uploads:
  "store_ok sha s \<Longrightarrow> uploads_ok (s\<lparr> gs_uploads := u \<rparr>) \<Longrightarrow> store_ok sha (s\<lparr> gs_uploads := u \<rparr>)"
  by (simp add: store_ok_def accounted_iff index_keys_def disk_ok_def uploads_ok_def)

lemma uploads_ok_update:
  "uploads_ok s \<Longrightarrow> cm_id (ud_meta u) = i \<Longrightarrow> uploads_ok (s\<lparr> gs_uploads := AList.update i u (gs_uploads s) \<rparr>)"
  by (simp add: uploads_ok_def distinct_update update_conv')

lemma store_ok_upload_update:
  "store_ok sha s \<Longrightarrow> cm_id (ud_meta u) = i \<Longrightarrow> store_ok sha (s\<lparr> gs_uploads := AList.update i u (gs_uploads s) \<rparr>)"
  by (rule store_ok_uploads) (auto simp: store_ok_def uploads_ok_update)

lemma upload_id: "store_ok sha s \<Longrightarrow> map_of (gs_uploads s) i = Some u \<Longrightarrow> cm_id (ud_meta u) = i"
  by (simp add: store_ok_def uploads_ok_def)

lemma CreateUpload_ok:
  "store_ok sha s \<Longrightarrow> CreateUpload now rid repo key version s = (r, s') \<Longrightarrow> store_ok sha s'"
  using store_ok_upload_update by (auto simp: CreateUpload_def Let_def split: if_splits option.splits)

lemma WriteUpload_ok: "store_ok sha s \<Longrightarrow> WriteUpload i data s = (r, s') \<Longrightarrow> store_ok sha s'"
  using store_ok_upload_update upload_id by (auto simp: WriteUpload_def split: option.splits)

lemma AppendUpload_ok: "store_ok sha s \<Longrightarrow> AppendUpload i b data s = (r, s') \<Longrightarrow> store_ok sha s'"
  using store_ok_upload_update upload_id by (auto simp: AppendUpload_def split: option.splits)

lemma CommitBlocks_ok: "store_ok sha s \<Longrightarrow> CommitBlocks i ids s = (r, s') \<Longrightarrow> store_ok sha s'"
  using store_ok_upload_update upload_id by (auto simp: CommitBlocks_def split: option.splits prod.splits)

lemma remember_fields:
  "gs_entries (rememberLocked m dir s) = gs_entries s" "gs_uploads (rememberLocked m dir s) = gs_uploads s"
  "gs_idx (rememberLocked m dir s) = AList.update (cm_id m) (index_of m dir) (gs_idx s)"
  "gs_max (rememberLocked m dir s) = gs_max s"
  by (simp_all add: rememberLocked_def Let_def)

lemma no_collisionD:
  "no_collision sha \<Longrightarrow> entryID sha r k v = entryID sha r' k' v' \<Longrightarrow> CHR 0x00 \<notin> set r \<Longrightarrow>
    CHR 0x00 \<notin> set r' \<Longrightarrow> r = r'"
  unfolding no_collision_def by blast

text \<open>Adding or replacing an entry, on the disk and in the index.\<close>

lemma store_ok_add:
  assumes ok: "store_ok sha s" and sha: "no_collision sha" and m: "entry_ok sha dir m"
  shows "store_ok sha (rememberLocked m dir (s\<lparr> gs_entries := AList.update dir (m, d) (gs_entries s) \<rparr>))"
proof -
  let ?s = "s\<lparr> gs_entries := AList.update dir (m, d) (gs_entries s) \<rparr>"
  have dir: "dir = (cm_repo m, cm_id m)" using m by (simp add: entry_ok_def)
  have acc: "actions.accounted (rememberLocked m dir ?s)"
    using ok by (intro accounted_remember) (simp add: store_ok_def accounted_iff index_keys_def)
  note dk = store_okD(1) [OF ok]
  have same: "dir' = dir" if e: "map_of (gs_entries s) dir' = Some (m', d')" "snd dir' = cm_id m" for dir' m' d'
  proof -
    have e': "entry_ok sha dir' m'" by (rule disk_okD(2) [OF dk e(1)])
    then have "entryID sha (cm_repo m') (cm_key m') (cm_version m') = entryID sha (cm_repo m) (cm_key m) (cm_version m)"
      using m e(2) by (auto simp: entry_ok_def)
    then have "cm_repo m' = cm_repo m"
      using no_collisionD [OF sha] e' m by (auto simp: entry_ok_def plain_repo_def)
    then show ?thesis using dir e(2) e' by (auto simp: entry_ok_def)
  qed
  have disk: "disk_ok sha (rememberLocked m dir ?s)"
  proof (rule disk_okI)
    show "distinct (map fst (gs_entries (rememberLocked m dir ?s)))"
      using disk_okD(1) [OF dk] by (simp add: remember_fields distinct_update)
  next
    fix dir' m' d'
    assume "map_of (gs_entries (rememberLocked m dir ?s)) dir' = Some (m', d')"
    then have e: "(if dir' = dir then Some (m, d) else map_of (gs_entries s) dir') = Some (m', d')"
      by (simp add: remember_fields update_conv')
    show "entry_ok sha dir' m' \<and>
        (\<exists>e. map_of (gs_idx (rememberLocked m dir ?s)) (snd dir') = Some e \<and> agree e dir' m')"
    proof (cases "dir' = dir")
      case True
      then show ?thesis using e dir m by (auto simp: remember_fields update_conv')
    next
      case False
      then have e': "map_of (gs_entries s) dir' = Some (m', d')" using e by simp
      then have "snd dir' \<noteq> cm_id m" using same False by blast
      then show ?thesis
        using disk_okD(2,3) [OF dk e'] by (simp add: remember_fields update_conv')
    qed
  next
    fix i e
    assume "map_of (gs_idx (rememberLocked m dir ?s)) i = Some e"
    then have e: "(if i = cm_id m then Some (index_of m dir) else map_of (gs_idx s) i) = Some e"
      by (simp add: remember_fields update_conv' split: if_splits)
    show "snd (ci_dir e) = i \<and> (\<exists>m' d'. map_of (gs_entries (rememberLocked m dir ?s)) (ci_dir e) = Some (m', d'))"
    proof (cases "i = cm_id m")
      case True
      then show ?thesis using e dir by (auto simp: remember_fields update_conv')
    next
      case False
      then have "map_of (gs_idx s) i = Some e" using e by simp
      then show ?thesis using disk_okD(4,5) [OF dk] by (auto simp: remember_fields update_conv')
    qed
  qed
  show ?thesis using acc disk ok by (simp add: store_ok_def uploads_ok_def remember_fields)
qed

text \<open>What \<open>Finalize\<close> makes of an upload, before it evicts.\<close>

definition final_meta :: "(string \<Rightarrow> string) \<Rightarrow> gotime \<Rightarrow> string \<Rightarrow> string \<Rightarrow> string \<Rightarrow> int \<Rightarrow> string \<Rightarrow> cacheMeta" where
  "final_meta sha now repo key version declared data =
     \<lparr> cm_id = entryID sha repo key version, cm_repo = repo, cm_key = key, cm_version = version,
       cm_size = (if declared \<le> 0 then int (length data) else declared), cm_state = ''ready'',
       cm_created = now, cm_last = now \<rparr>"

definition promoted :: "cacheMeta \<Rightarrow> string \<Rightarrow> string \<Rightarrow> ghaStore \<Rightarrow> ghaStore" where
  "promoted m data up s =
     (let s1 = rememberLocked m (cm_repo m, cm_id m)
                 (s\<lparr> gs_entries := AList.update (cm_repo m, cm_id m) (m, data) (gs_entries s) \<rparr>)
      in s1\<lparr> gs_uploads := AList.delete up (gs_uploads s1) \<rparr>)"

lemma Finalize_eq:
  "Finalize sha now rm_ok repo key version declared s =
     (case findUploadLocked repo key version s of
        None \<Rightarrow> (Inl ErrNoUpload, s)
      | Some up \<Rightarrow>
          (case Option.bind (map_of (gs_uploads s) up) ud_data of
             None \<Rightarrow> (Inl ErrNoData, s)
           | Some data \<Rightarrow>
               (let m = final_meta sha now repo key version declared data in
                case evictLocked rm_ok (cm_id m) (promoted m data up s) of
                  (ok, s') \<Rightarrow> (if ok then Inr m else Inl ErrRemove, s'))))"
  by (simp add: Finalize_def final_meta_def promoted_def Let_def split: option.split prod.split bool.split)

lemma Finalize_cases:
  assumes "Finalize sha now rm_ok repo key version declared s = (r, s')"
  obtains (no_upload) "s' = s" "r = Inl ErrNoUpload \<or> r = Inl ErrNoData"
  | (evicted) up data m ok where "findUploadLocked repo key version s = Some up"
    "Option.bind (map_of (gs_uploads s) up) ud_data = Some data"
    "m = final_meta sha now repo key version declared data"
    "evictLocked rm_ok (cm_id m) (promoted m data up s) = (ok, s')" "r = (if ok then Inr m else Inl ErrRemove)"
proof (cases "\<exists>up data. findUploadLocked repo key version s = Some up \<and>
    Option.bind (map_of (gs_uploads s) up) ud_data = Some data")
  case False
  then have "s' = s \<and> (r = Inl ErrNoUpload \<or> r = Inl ErrNoData)" using assms
    by (auto simp: Finalize_eq split: option.splits)
  then show thesis using no_upload by blast
next
  case True
  then obtain up data where up: "findUploadLocked repo key version s = Some up"
    "Option.bind (map_of (gs_uploads s) up) ud_data = Some data" by blast
  let ?m = "final_meta sha now repo key version declared data"
  obtain ok s3 where "evictLocked rm_ok (cm_id ?m) (promoted ?m data up s) = (ok, s3)" by fastforce
  then show thesis using assms up by (intro evicted [OF up refl]) (auto simp: Finalize_eq Let_def)
qed

lemma promoted_ok:
  assumes ok: "store_ok sha s" and sha: "no_collision sha" and repo: "plain_repo repo"
  shows "store_ok sha (promoted (final_meta sha now repo key version declared data) data up s)"
    (is "store_ok sha (promoted ?m data up s)")
proof -
  let ?s1 = "rememberLocked ?m (cm_repo ?m, cm_id ?m)
    (s\<lparr> gs_entries := AList.update (cm_repo ?m, cm_id ?m) (?m, data) (gs_entries s) \<rparr>)"
  have "entry_ok sha (cm_repo ?m, cm_id ?m) ?m" using repo by (simp add: entry_ok_def final_meta_def)
  then have s1: "store_ok sha ?s1" by (rule store_ok_add [OF ok sha])
  have "uploads_ok (?s1\<lparr> gs_uploads := AList.delete up (gs_uploads ?s1) \<rparr>)"
    using s1 by (simp add: store_ok_def uploads_ok_def distinct_delete delete_conv')
  then show ?thesis using store_ok_uploads [OF s1] by (simp add: promoted_def Let_def)
qed

lemma Finalize_ok:
  assumes ok: "store_ok sha s" and sha: "no_collision sha" and repo: "plain_repo repo"
    and f: "Finalize sha now rm_ok repo key version declared s = (r, s')"
  shows "store_ok sha s'"
  using f
proof (cases rule: Finalize_cases)
  case no_upload
  then show ?thesis using ok by simp
next
  case (evicted up data m b)
  then show ?thesis using promoted_ok [OF ok sha repo] store_ok_evict by blast
qed


lemma set_repo_dir: "(i, m, d) \<in> set (repo_dir repo s) \<longleftrightarrow> ((repo, i), m, d) \<in> set (gs_entries s)"
  by (force simp: repo_dir_def read_dir_def)

lemma ready_entriesD:
  assumes "store_ok sha s" and "e \<in> set (ready_entries repo s)"
  obtains d where "map_of (gs_entries s) (repo, cm_id e) = Some (e, d)" "entry_ok sha (repo, cm_id e) e"
proof -
  note dk = store_okD(1) [OF assms(1)]
  obtain i d where "((repo, i), e, d) \<in> set (gs_entries s)"
    using assms(2) by (auto simp: ready_entries_def set_repo_dir)
  then have m: "map_of (gs_entries s) (repo, i) = Some (e, d)" by (rule map_of_is_SomeI [OF disk_okD(1) [OF dk]])
  then show thesis using disk_okD(2) [OF dk m] that by (auto simp: entry_ok_def)
qed

lemma fold_newer_in: "fold newer_of es best = Some b \<Longrightarrow> b \<in> set es \<or> best = Some b"
  by (induction es arbitrary: best) (fastforce simp: newer_of_def split: option.splits if_splits)+

lemma restore_lookup_in: "restore_lookup ps version es = Some b \<Longrightarrow> b \<in> set es"
  by (induction ps version es rule: restore_lookup.induct) (auto dest: fold_newer_in split: if_splits option.splits)

lemma lookup_in: "lookup_entry key restore version es = Some e \<Longrightarrow> e \<in> set es"
  by (auto simp: lookup_entry_def dest: find_SomeD restore_lookup_in split: if_splits option.splits)

text \<open>A new time of access in the entry's file.\<close>

lemma store_ok_touch:
  assumes ok: "store_ok sha s" and g: "map_of (gs_entries s) dir = Some (m, d)"
  shows "store_ok sha (s\<lparr> gs_entries := AList.update dir (m\<lparr> cm_last := now \<rparr>, d) (gs_entries s) \<rparr>)" (is "store_ok sha ?s")
proof -
  note dk = store_okD(1) [OF ok]
  have "disk_ok sha ?s"
  proof (rule disk_okI)
    show "distinct (map fst (gs_entries ?s))" using disk_okD(1) [OF dk] by (simp add: distinct_update)
  next
    fix dir' m' d'
    assume "map_of (gs_entries ?s) dir' = Some (m', d')"
    then have e: "(if dir' = dir then Some (m\<lparr> cm_last := now \<rparr>, d) else map_of (gs_entries s) dir') = Some (m', d')"
      by (simp add: update_conv')
    have "entry_ok sha dir (m\<lparr> cm_last := now \<rparr>)" using disk_okD(2) [OF dk g] by (simp add: entry_ok_def)
    moreover have "\<exists>e. map_of (gs_idx s) (snd dir) = Some e \<and> agree e dir (m\<lparr> cm_last := now \<rparr>)"
      using disk_okD(3) [OF dk g] by (auto simp: agree_def index_of_def)
    ultimately show "entry_ok sha dir' m' \<and> (\<exists>e. map_of (gs_idx ?s) (snd dir') = Some e \<and> agree e dir' m')"
      using e disk_okD(2,3) [OF dk] by (auto split: if_splits)
  next
    fix i e
    assume "map_of (gs_idx ?s) i = Some e"
    then show "snd (ci_dir e) = i \<and> (\<exists>m d. map_of (gs_entries ?s) (ci_dir e) = Some (m, d))"
      using disk_okD(4,5) [OF dk] by (auto simp: update_conv')
  qed
  then show ?thesis using ok by (simp add: store_ok_def accounted_iff index_keys_def uploads_ok_def)
qed

lemma GetEntry_ok:
  assumes ok: "store_ok sha s" and g: "GetEntry now repo key restore version s = (r, s')"
  shows "store_ok sha s'"
proof (cases "lookupLocked repo key restore version s")
  case None
  then show ?thesis using ok g by (simp add: GetEntry_def)
next
  case (Some e)
  then have "e \<in> set (ready_entries repo s)" by (simp add: lookupLocked_def lookup_in)
  then obtain d where "map_of (gs_entries s) (repo, cm_id e) = Some (e, d)" by (rule ready_entriesD [OF ok])
  then show ?thesis using g Some store_ok_touch [OF ok] by (auto simp: GetEntry_def Let_def)
qed

text \<open>Deleting an entry's directory and forgetting it is removing it.\<close>

lemma forget_is_remove:
  assumes ok: "store_ok sha s" and m: "map_of (gs_entries s) (repo, i) = Some (m, d)"
  shows "forgetLocked (cm_id m) (s\<lparr> gs_entries := AList.delete (repo, i) (gs_entries s) \<rparr>) = remove_entry i s"
proof -
  note dk = store_okD(1) [OF ok]
  have i: "cm_id m = i" using disk_okD(2) [OF dk m] by (simp add: entry_ok_def)
  obtain e where e: "map_of (gs_idx s) i = Some e" "agree e (repo, i) m" using disk_okD(3) [OF dk m] by auto
  have "entry_path i s = Some (repo, i)" using e agreeD(1) [OF e(2)] by (simp add: entry_path_def)
  then show ?thesis by (simp add: remove_entry_def i)
qed

lemma delete_dirs_ok:
  "store_ok sha s \<Longrightarrow> distinct (map fst xs) \<Longrightarrow>
    (\<And>i m d. (i, m, d) \<in> set xs \<Longrightarrow> map_of (gs_entries s) (repo, i) = Some (m, d)) \<Longrightarrow>
    delete_dirs repo rm_ok xs acc s = (r, s') \<Longrightarrow> store_ok sha s'"
proof (induction xs arbitrary: acc s)
  case Nil
  then show ?case by (cases acc) simp
next
  case (Cons x xs)
  obtain i m d where x: "x = (i, m, d)" by (metis prod_cases3)
  obtain n b where acc: "acc = (n, b)" by fastforce
  have mi: "map_of (gs_entries s) (repo, i) = Some (m, d)" using Cons.prems(3) x by auto
  let ?s = "remove_entry i s"
  have s: "forgetLocked (cm_id m) (s\<lparr> gs_entries := AList.delete (repo, i) (gs_entries s) \<rparr>) = ?s"
    by (rule forget_is_remove [OF Cons.prems(1) mi])
  obtain e where e: "map_of (gs_idx s) i = Some e" "agree e (repo, i) m"
    using disk_okD(3) [OF store_okD(1) [OF Cons.prems(1)] mi] by auto
  have ents: "gs_entries ?s = AList.delete (repo, i) (gs_entries s)"
    using e agreeD(1) [OF e(2)] by (simp add: remove_entry_fields)
  have rest: "map_of (gs_entries ?s) (repo, j) = Some (m', d')" if j: "(j, m', d') \<in> set xs" for j m' d'
  proof -
    have "j \<noteq> i" using Cons.prems(2) j x by force
    then show ?thesis using Cons.prems(3) j by (auto simp: ents)
  qed
  obtain acc' where "s' = s \<or> delete_dirs repo rm_ok xs acc' ?s = (r, s')"
    using Cons.prems(4) s by (auto simp: x acc Let_def split: if_splits)
  then show ?case
  proof
    assume "delete_dirs repo rm_ok xs acc' ?s = (r, s')"
    then show ?thesis
      using Cons.prems(2) by (intro Cons.IH [OF store_ok_remove [OF Cons.prems(1)] _ rest]) simp_all
  qed (use Cons.prems(1) in simp)
qed


lemma DeleteRepo_ok:
  assumes ok: "store_ok sha s" and d: "DeleteRepo rm_ok repo s = (r, s')"
  shows "store_ok sha s'"
proof -
  note dk = store_okD(1) [OF ok]
  have "distinct (map fst (repo_dir repo s))"
  proof -
    have "distinct (map fst (map (\<lambda>((r, i), e). (i, e)) (filter (\<lambda>((r, i), e). r = repo) xs)))"
      if "distinct (map fst xs)" for xs :: "((string \<times> string) \<times> cacheMeta \<times> string) list"
      using that by (induction xs) force+
    then show ?thesis using disk_okD(1) [OF dk] by (simp add: repo_dir_def read_dir_def)
  qed
  moreover have "map_of (gs_entries s) (repo, i) = Some (m, d)" if "(i, m, d) \<in> set (repo_dir repo s)" for i m d
    using map_of_is_SomeI [OF disk_okD(1) [OF dk]] that by (auto simp: set_repo_dir)
  ultimately have "delete_dirs repo rm_ok (repo_dir repo s) acc s = (r, s') \<Longrightarrow> store_ok sha s'" for acc
    by (rule delete_dirs_ok [OF ok])
  then show ?thesis
    using d ok by (auto simp: DeleteRepo_def split: if_splits)
qed

lemma DeleteAll_ok:
  assumes ok: "store_ok sha s" and d: "DeleteAll s = (r, s')"
  shows "store_ok sha s'"
proof -
  note dk = store_okD(1) [OF ok]
  have "owner_of r \<noteq> ''ca''" if "((r, i), e) \<in> set (gs_entries s)" for r i e
  proof -
    obtain m d where e: "e = (m, d)" by fastforce
    have "map_of (gs_entries s) (r, i) = Some (m, d)" using map_of_is_SomeI [OF disk_okD(1) [OF dk] that] e by simp
    then show ?thesis using disk_okD(2) [OF dk] by (auto simp: entry_ok_def plain_repo_def)
  qed
  then have "filter (\<lambda>((r, i), e). owner_of r = ''ca'') (gs_entries s) = []" by (auto simp: filter_empty_conv)
  then show ?thesis
    using d by (auto simp: DeleteAll_def Let_def store_ok_def accounted_iff index_keys_def disk_ok_def uploads_ok_def wrap64_def)
qed

section \<open>Restarts\<close>

abbreviation indexed :: "(string \<times> string) \<times> cacheMeta \<times> string \<Rightarrow> string \<times> cacheIndexEnt" where
  "indexed x \<equiv> (cm_id (fst (snd x)), index_of (fst (snd x)) (fst x))"

lemma rebuild_from_distinct:
  assumes "\<forall>x \<in> set es. cm_state (fst (snd x)) = ''ready'' \<and> cm_id (fst (snd x)) \<noteq> ''''"
    and "distinct (map fst idx @ map (cm_id \<circ> fst \<circ> snd) es)" and "wrap64 t = t"
  shows "rebuild_from es (idx, t) =
    (idx @ map indexed es, wrap64 (t + sum_list (map (cm_size \<circ> fst \<circ> snd) es)))"
  using assms
proof (induction es arbitrary: idx t)
  case (Cons x es)
  obtain dir m d where x: "x = (dir, m, d)" by (metis prod_cases3)
  have "cm_id m \<notin> fst ` set idx" using Cons.prems(2) by (auto simp: x)
  then have "rebuild_from (x # es) (idx, t) = rebuild_from es (idx @ [indexed x], wrap64 (t + cm_size m))"
    using Cons.prems(1) by (simp add: x update_fresh)
  also have "\<dots> = ((idx @ [indexed x]) @ map indexed es,
      wrap64 (wrap64 (t + cm_size m) + sum_list (map (cm_size \<circ> fst \<circ> snd) es)))"
    using Cons.prems by (intro Cons.IH) (auto simp: x)
  finally show ?case by (simp only: x) (simp add: add.assoc o_def)
qed simp

lemma distinct_ids:
  assumes "disk_ok sha s"
  shows "distinct (map (cm_id \<circ> fst \<circ> snd) (gs_entries s))"
proof -
  have "x = y" if xy: "x \<in> set (gs_entries s)" "y \<in> set (gs_entries s)"
    "cm_id (fst (snd x)) = cm_id (fst (snd y))" for x y
  proof -
    obtain dx mx cx dy my cy where e: "x = (dx, mx, cx)" "y = (dy, my, cy)" by (metis prod_cases3)
    have m: "map_of (gs_entries s) dx = Some (mx, cx)" "map_of (gs_entries s) dy = Some (my, cy)"
      using xy(1,2) map_of_is_SomeI [OF disk_okD(1) [OF assms]] by (simp_all add: e)
    then have "snd dx = snd dy"
      using disk_okD(2) [OF assms m(1)] disk_okD(2) [OF assms m(2)] xy(3) by (simp add: entry_ok_def e)
    then have "dx = dy"
    proof -
      obtain ex ey where "map_of (gs_idx s) (snd dx) = Some ex" "agree ex dx mx"
          "map_of (gs_idx s) (snd dy) = Some ey" "agree ey dy my"
        using disk_okD(3) [OF assms m(1)] disk_okD(3) [OF assms m(2)] by blast
      then show ?thesis using \<open>snd dx = snd dy\<close> agreeD(1) [of ex dx mx] agreeD(1) [of ey dy my] by simp
    qed
    then show ?thesis using m e by simp
  qed
  moreover have "distinct (gs_entries s)" using disk_okD(1) [OF assms] by (simp add: distinct_map)
  ultimately show ?thesis by (auto simp: distinct_map inj_on_def)
qed

lemma OpenStore_eq:
  assumes "disk_ok sha s" and "no_collision sha"
  shows "OpenStore mx ups (gs_entries s) =
    \<lparr> gs_max = (if mx \<le> 0 then 50 * 2 ^ 30 else mx), gs_idx = map indexed (gs_entries s),
      gs_total = wrap64 (sum_list (map (cm_size \<circ> fst \<circ> snd) (gs_entries s))),
      gs_uploads = ups, gs_entries = gs_entries s \<rparr>"
proof -
  have "cm_state m = ''ready'' \<and> cm_id m \<noteq> ''''" if "(dir, m, d) \<in> set (gs_entries s)" for dir m d
  proof -
    have "entry_ok sha dir m"
      using disk_okD(2) [OF assms(1)] map_of_is_SomeI [OF disk_okD(1) [OF assms(1)] that] by blast
    then show ?thesis using assms(2) by (simp add: entry_ok_def no_collision_def entryID_def)
  qed
  then have "\<forall>x \<in> set (gs_entries s). cm_state (fst (snd x)) = ''ready'' \<and> cm_id (fst (snd x)) \<noteq> ''''"
    by fastforce
  then have "rebuild_from (gs_entries s) ([], 0) =
      ([] @ map indexed (gs_entries s), wrap64 (0 + sum_list (map (cm_size \<circ> fst \<circ> snd) (gs_entries s))))"
    using distinct_ids [OF assms(1)] by (intro rebuild_from_distinct) (simp_all add: wrap64_def)
  then show ?thesis by (simp add: OpenStore_def rebuildIndex_def)
qed

lemma map_of_indexed:
  assumes "disk_ok sha s" and "map_of (gs_entries s) dir = Some (m, d)"
  shows "map_of (map indexed (gs_entries s)) (snd dir) = Some (index_of m dir)"
proof (rule map_of_is_SomeI)
  show "distinct (map fst (map indexed (gs_entries s)))" using distinct_ids [OF assms(1)] by (simp add: o_def)
  have "(dir, m, d) \<in> set (gs_entries s)" using assms(2) by (rule map_of_SomeD)
  moreover have "cm_id m = snd dir" using disk_okD(2) [OF assms] by (simp add: entry_ok_def)
  ultimately show "(snd dir, index_of m dir) \<in> set (map indexed (gs_entries s))" by force
qed

lemma indexed_in:
  assumes "disk_ok sha s" and "map_of (map indexed (gs_entries s)) i = Some e"
  obtains m d where "map_of (gs_entries s) (ci_dir e) = Some (m, d)" "snd (ci_dir e) = i" "e = index_of m (ci_dir e)"
proof -
  have "(i, e) \<in> set (map indexed (gs_entries s))" by (rule map_of_SomeD [OF assms(2)])
  then obtain dir m d where x: "(dir, m, d) \<in> set (gs_entries s)" "i = cm_id m" "e = index_of m dir" by auto
  have m: "map_of (gs_entries s) dir = Some (m, d)" by (rule map_of_is_SomeI [OF disk_okD(1) [OF assms(1)] x(1)])
  then show thesis using that disk_okD(2) [OF assms(1) m] x by (simp add: entry_ok_def)
qed

text \<open>The index in memory and the one a restart builds differ in times of access only.\<close>

lemma restart_index:
  assumes "disk_ok sha s"
  shows "map_option (\<lambda>e. e\<lparr> ci_last := 0 \<rparr>) (map_of (map indexed (gs_entries s)) i) =
    map_option (\<lambda>e. e\<lparr> ci_last := 0 \<rparr>) (map_of (gs_idx s) i)"
proof (cases "map_of (gs_idx s) i")
  case None
  have "map_of (map indexed (gs_entries s)) i = None"
  proof (rule ccontr)
    assume "map_of (map indexed (gs_entries s)) i \<noteq> None"
    then obtain e where "map_of (map indexed (gs_entries s)) i = Some e" by blast
    then obtain m d where "map_of (gs_entries s) (ci_dir e) = Some (m, d)" "snd (ci_dir e) = i"
      by (rule indexed_in [OF assms])
    then show False using disk_okD(3) [OF assms] None by fastforce
  qed
  then show ?thesis using None by simp
next
  case (Some e)
  obtain m d where m: "map_of (gs_entries s) (ci_dir e) = Some (m, d)" using disk_okD(5) [OF assms Some] by blast
  have i: "snd (ci_dir e) = i" by (rule disk_okD(4) [OF assms Some])
  have "agree e (ci_dir e) m" using disk_okD(3) [OF assms m] Some i by simp
  then show ?thesis using Some map_of_indexed [OF assms m] i by (simp add: agree_def)
qed

lemma store_ok_restart:
  assumes ok: "store_ok sha s" and sha: "no_collision sha"
  shows "store_ok sha (OpenStore mx (gs_uploads s) (gs_entries s))" (is "store_ok sha ?s")
proof -
  note dk = store_okD(1) [OF ok]
  have f: "gs_idx ?s = map indexed (gs_entries s)" "gs_entries ?s = gs_entries s" "gs_uploads ?s = gs_uploads s"
    "gs_total ?s = wrap64 (sum_list (map (cm_size \<circ> fst \<circ> snd) (gs_entries s)))"
    by (simp_all add: OpenStore_eq [OF dk sha])
  have "disk_ok sha ?s"
  proof (rule disk_okI)
    show "distinct (map fst (gs_entries ?s))" using disk_okD(1) [OF dk] by (simp add: f)
  next
    fix dir m d
    assume "map_of (gs_entries ?s) dir = Some (m, d)"
    then have m: "map_of (gs_entries s) dir = Some (m, d)" by (simp only: f)
    show "entry_ok sha dir m \<and> (\<exists>e. map_of (gs_idx ?s) (snd dir) = Some e \<and> agree e dir m)"
      using disk_okD(2) [OF dk m] map_of_indexed [OF dk m] by (simp add: f)
  next
    fix i e
    assume "map_of (gs_idx ?s) i = Some e"
    then have "map_of (map indexed (gs_entries s)) i = Some e" by (simp only: f)
    then show "snd (ci_dir e) = i \<and> (\<exists>m d. map_of (gs_entries ?s) (ci_dir e) = Some (m, d))"
      by (rule indexed_in [OF dk]) (simp add: f)
  qed
  moreover have "index_keys ?s"
    using distinct_ids [OF dk] by (auto simp: index_keys_def f o_def)
  ultimately show ?thesis
    using ok by (simp add: store_ok_def accounted_iff uploads_ok_def f o_def)
qed

lemma sum_same_mset:
  fixes f :: "'a \<Rightarrow> int"
  assumes "mset xs = mset ys"
  shows "sum_list (map f xs) = sum_list (map f ys)"
proof -
  have "sum_mset (mset (map f xs)) = sum_mset (mset (map f ys))" using assms by simp
  then show ?thesis by (simp only: sum_mset_sum_list)
qed

lemma same_index_sums:
  fixes f :: "'b \<Rightarrow> int"
  assumes "distinct (map fst xs)" and "distinct (map fst ys)"
    and "\<And>i. map_option g (map_of xs i) = map_option g (map_of ys i)"
  shows "length xs = length ys" and "sum_list (map (f \<circ> g \<circ> snd) xs) = sum_list (map (f \<circ> g \<circ> snd) ys)"
proof -
  let ?h = "\<lambda>xs. map (\<lambda>(k, v). (k, g v)) xs"
  have d: "distinct (map fst (?h xs))" "distinct (map fst (?h ys))" using assms(1,2) by (simp_all add: o_def split_def)
  have "map_of (?h xs) = map_of (?h ys)" using assms(3) by (simp add: map_of_map fun_eq_iff)
  then have "x \<in> set (?h xs) \<longleftrightarrow> x \<in> set (?h ys)" for x
    using map_of_eq_Some_iff [OF d(1), of "fst x" "snd x"] map_of_eq_Some_iff [OF d(2), of "fst x" "snd x"] by simp
  then have "set (?h xs) = set (?h ys)" by blast
  moreover have "distinct (?h xs)" "distinct (?h ys)"
    using d by (blast intro: distinct_map [THEN iffD1, THEN conjunct1])+
  ultimately have p: "mset (?h xs) = mset (?h ys)" using set_eq_iff_mset_eq_distinct by blast
  then show "length xs = length ys" by (metis length_map size_mset)
  have "sum_list (map (f \<circ> snd) (?h xs)) = sum_list (map (f \<circ> snd) (?h ys))"
    by (rule sum_same_mset [OF p])
  then show "sum_list (map (f \<circ> g \<circ> snd) xs) = sum_list (map (f \<circ> g \<circ> snd) ys)"
    by (simp add: o_def split_def)
qed

end
