(* ===== verification/ActionsRuns.thy ===== *)
theory ActionsRuns
  imports ActionsCache
begin

text \<open>
  The Actions cache over time: the step relation of its calls and of restarts, and what holds of every store
  that is reached from an empty directory: accounting, restarts, restore keys, uploads read back, eviction.
\<close>

section \<open>Every run of the store\<close>

text \<open>
  One call of the gateway, or a restart of the host with the directory as it is. The hash is fixed; the
  clock, fresh names and what the disk refuses to remove are arbitrary.
\<close>

inductive cache_step :: "(string \<Rightarrow> string) \<Rightarrow> ghaStore \<Rightarrow> ghaStore \<Rightarrow> bool" for sha where
  s_create: "CreateUpload now rid repo key version s = (r, s') \<Longrightarrow> cache_step sha s s'"
| s_write: "WriteUpload i data s = (r, s') \<Longrightarrow> cache_step sha s s'"
| s_append: "AppendUpload i block data s = (r, s') \<Longrightarrow> cache_step sha s s'"
| s_commit: "CommitBlocks i blocks s = (r, s') \<Longrightarrow> cache_step sha s s'"
| s_finalize: "plain_repo repo \<Longrightarrow> Finalize sha now rm_ok repo key version declared s = (r, s') \<Longrightarrow>
    cache_step sha s s'"
| s_get: "GetEntry now repo key restore version s = (r, s') \<Longrightarrow> cache_step sha s s'"
| s_delete: "DeleteRepo rm_ok repo s = (r, s') \<Longrightarrow> cache_step sha s s'"
| s_delete_all: "DeleteAll s = (r, s') \<Longrightarrow> cache_step sha s s'"
| s_restart: "cache_step sha s (OpenStore mx (gs_uploads s) (gs_entries s))"

lemma cache_step_ok:
  assumes "cache_step sha s s'" and "store_ok sha s" and "no_collision sha"
  shows "store_ok sha s'"
  using assms
  by (cases rule: cache_step.cases)
     (blast intro: CreateUpload_ok WriteUpload_ok AppendUpload_ok CommitBlocks_ok Finalize_ok GetEntry_ok
        DeleteRepo_ok DeleteAll_ok store_ok_restart)+

lemma store_ok_empty: "store_ok sha (OpenStore mx [] [])"
  by (simp add: OpenStore_def rebuildIndex_def store_ok_def accounted_iff index_keys_def disk_ok_def uploads_ok_def
      wrap64_def)

definition cache_reachable :: "(string \<Rightarrow> string) \<Rightarrow> ghaStore \<Rightarrow> bool" where
  "cache_reachable sha s \<longleftrightarrow> (\<exists>mx. (cache_step sha)\<^sup>*\<^sup>* (OpenStore mx [] []) s)"

lemma reachable_ok:
  assumes "cache_reachable sha s" and "no_collision sha"
  shows "store_ok sha s"
proof -
  obtain mx where "(cache_step sha)\<^sup>*\<^sup>* (OpenStore mx [] []) s" using assms(1) by (auto simp: cache_reachable_def)
  then show ?thesis
    by (induction rule: rtranclp_induct) (auto intro: store_ok_empty cache_step_ok assms(2))
qed

lemma reachable_step: "cache_reachable sha s \<Longrightarrow> cache_step sha s s' \<Longrightarrow> cache_reachable sha s'"
  unfolding cache_reachable_def by (meson rtranclp.rtrancl_into_rtrancl)

lemma reachable_empty: "cache_reachable sha (OpenStore mx [] [])"
  unfolding cache_reachable_def by blast

text \<open>A hash without collisions, for examples.\<close>

definition plain_hash :: "string \<Rightarrow> string" where "plain_hash x = CHR ''h'' # x"

lemma nul_split:
  assumes "CHR 0x00 \<notin> set r" and "CHR 0x00 \<notin> set r'" and "r @ CHR 0x00 # k = r' @ CHR 0x00 # k'"
  shows "r = r' \<and> k = k'"
  using assms
proof (induction r arbitrary: r')
  case Nil
  then show ?case by (cases r') auto
next
  case (Cons c r)
  then show ?case by (cases r') auto
qed

lemma plain_hash_ok: "no_collision plain_hash"
  unfolding no_collision_def
proof (intro conjI allI impI)
  fix r k v r' k' v'
  assume "CHR 0x00 \<notin> set r" "CHR 0x00 \<notin> set r'" "entryID plain_hash r k v = entryID plain_hash r' k' v'"
  then show "r = r'"
    using nul_split [of r r' "k @ nul @ v" "k' @ nul @ v'"] by (simp add: entryID_def plain_hash_def nul_def)
qed (simp add: plain_hash_def)


text \<open>
  A restart of the host keeps the inventory of the Actions cache: the same number of entries, the same
  bytes and the same index, times of last access apart, whatever the limit it starts with.
\<close>

theorem restart_keeps_actions_cache:
  assumes "cache_reachable sha s" and "no_collision sha"
  shows "let s' = OpenStore mx (gs_uploads s) (gs_entries s) in
    gs_total s' = gs_total s \<and> length (gs_idx s') = length (gs_idx s) \<and>
    (\<forall>i. map_option (\<lambda>e. e\<lparr> ci_last := 0 \<rparr>) (map_of (gs_idx s') i) =
         map_option (\<lambda>e. e\<lparr> ci_last := 0 \<rparr>) (map_of (gs_idx s) i))"
proof -
  have ok: "store_ok sha s" by (rule reachable_ok [OF assms])
  note dk = store_okD(1) [OF ok]
  let ?g = "\<lambda>e :: cacheIndexEnt. e\<lparr> ci_last := 0 \<rparr>"
  have d: "distinct (map fst (map indexed (gs_entries s)))" "distinct (map fst (gs_idx s))"
    using distinct_ids [OF dk] ok by (simp_all add: o_def store_ok_def accounted_iff index_keys_def)
  note sums = same_index_sums(1) [OF d restart_index [OF dk]] same_index_sums(2) [OF d restart_index [OF dk], of ci_size]
  then have "sum_list (map (cm_size \<circ> fst \<circ> snd) (gs_entries s)) = sum_list (map (ci_size \<circ> snd) (gs_idx s))"
    by (simp add: o_def)
  then show ?thesis
    using ok restart_index [OF dk] sums(1)
    by (simp add: Let_def OpenStore_eq [OF dk assms(2)] store_ok_def accounted_iff)
qed

section \<open>What a lookup finds\<close>

definition newer :: "cacheMeta \<Rightarrow> cacheMeta \<Rightarrow> bool" where
  "newer a b \<longleftrightarrow>
     cm_created a > cm_created b \<or> (cm_created a = cm_created b \<and> text_less (cm_key b) (cm_key a))"

lemma newer_of_eq: "newer_of e best = (case best of None \<Rightarrow> Some e | Some b \<Rightarrow> if newer e b then Some e else Some b)"
  by (simp add: newer_of_def newer_def split: option.split)

lemma newer_trans: "newer a b \<Longrightarrow> newer b c \<Longrightarrow> newer a c"
  by (auto simp: newer_def dest: text_less_trans)

lemma not_newer_self: "\<not> newer a a"
  by (simp add: newer_def)

lemma not_newer_trans: "\<not> newer a b \<Longrightarrow> newer c b \<Longrightarrow> newer c a"
  using text_less_linear [of "cm_key a" "cm_key b"] text_less_trans by (auto simp: newer_def not_less)

lemma fold_newer:
  "fold newer_of es (Some b0) = Some b \<Longrightarrow> (b = b0 \<or> newer b b0) \<and> (\<forall>e \<in> set es. \<not> newer e b)"
proof (induction es arbitrary: b0)
  case Nil
  then show ?case by simp
next
  case (Cons e es)
  show ?case
  proof (cases "newer e b0")
    case True
    then have "(b = e \<or> newer b e) \<and> (\<forall>e \<in> set es. \<not> newer e b)" using Cons by (simp add: newer_of_eq)
    then show ?thesis using True not_newer_self [of e] newer_trans [of e b e] newer_trans [of b e b0] by auto
  next
    case False
    then have "(b = b0 \<or> newer b b0) \<and> (\<forall>e \<in> set es. \<not> newer e b)" using Cons by (simp add: newer_of_eq)
    then show ?thesis using False newer_trans [of e b b0] by auto
  qed
qed

lemma fold_newer_Some: "fold newer_of es (Some b0) \<noteq> None"
  by (induction es arbitrary: b0) (simp_all add: newer_of_eq)

lemma fold_newer_None:
  "fold newer_of es None = None \<longleftrightarrow> es = []"
  "fold newer_of es None = Some b \<Longrightarrow> b \<in> set es \<and> (\<forall>e \<in> set es. \<not> newer e b)"
proof -
  show "fold newer_of es None = None \<longleftrightarrow> es = []"
    by (cases es) (simp_all add: newer_of_eq fold_newer_Some)
  assume f: "fold newer_of es None = Some b"
  then obtain e r where es: "es = e # r" by (cases es) auto
  then have "(b = e \<or> newer b e) \<and> (\<forall>x \<in> set r. \<not> newer x b)" using f by (intro fold_newer) (simp add: newer_of_eq)
  then show "b \<in> set es \<and> (\<forall>e \<in> set es. \<not> newer e b)"
    using fold_newer_in [OF f] es newer_trans [of e b e] not_newer_self by auto
qed

text \<open>The entries a restore key stands for.\<close>

definition candidates :: "string \<Rightarrow> string \<Rightarrow> cacheMeta list \<Rightarrow> cacheMeta list" where
  "candidates version pre es =
     (if pre = '''' then [] else filter (\<lambda>e. cm_version e = version \<and> has_prefix (cm_key e) pre) es)"

lemma restore_lookup_eq:
  "restore_lookup (pre # ps) version es =
     (case fold newer_of (candidates version pre es) None of Some b \<Rightarrow> Some b | None \<Rightarrow> restore_lookup ps version es)"
  by (simp add: candidates_def)

lemma restore_lookup_None:
  "restore_lookup ps version es = None \<longleftrightarrow> (\<forall>p \<in> set ps. candidates version p es = [])"
  by (induction ps) (auto simp: restore_lookup_eq fold_newer_None(1) simp del: restore_lookup.simps(2) split: option.splits)

lemma restore_lookup_Some:
  "restore_lookup ps version es = Some b \<Longrightarrow>
    \<exists>qs p rs. ps = qs @ p # rs \<and> b \<in> set (candidates version p es) \<and>
      (\<forall>e \<in> set (candidates version p es). \<not> newer e b) \<and> (\<forall>q \<in> set qs. candidates version q es = [])"
proof (induction ps)
  case (Cons p ps)
  show ?case
  proof (cases "fold newer_of (candidates version p es) None")
    case None
    then have "restore_lookup ps version es = Some b" using Cons.prems by (simp only: restore_lookup_eq) simp
    then obtain qs p' rs where "ps = qs @ p' # rs" "b \<in> set (candidates version p' es)"
      "\<forall>e \<in> set (candidates version p' es). \<not> newer e b" "\<forall>q \<in> set qs. candidates version q es = []"
      using Cons.IH by blast
    then show ?thesis using None
      by (intro exI [of _ "p # qs"] exI [of _ p'] exI [of _ rs]) (simp add: fold_newer_None(1))
  next
    case (Some c)
    then have "c = b" using Cons.prems by (simp only: restore_lookup_eq) simp
    then show ?thesis using fold_newer_None(2) [OF Some] by (intro exI [of _ "[]"] exI [of _ p] exI [of _ ps]) simp
  qed
qed simp

lemma GetEntry_result:
  "fst (GetEntry now repo key restore version s) =
     map_option (\<lambda>e. e\<lparr> cm_last := now \<rparr>) (lookupLocked repo key restore version s)"
  by (simp add: GetEntry_def Let_def split: option.split)

text \<open>
  A cache restore answers with a finished entry of the job's own repository and version: the one stored
  under the exact key if there is one, else the newest entry that the first restore key with any match is a
  prefix of, and nothing only when neither the key nor any restore key matches.
\<close>

theorem restore_keys_in_order:
  assumes "cache_reachable sha s" and "no_collision sha" and "key \<noteq> ''''"
  shows "case fst (GetEntry now repo key restore version s) of
      None \<Rightarrow> (\<forall>e \<in> set (ready_entries repo s). cm_key e = key \<longrightarrow> cm_version e \<noteq> version) \<and>
        (\<forall>p \<in> set restore. candidates version p (ready_entries repo s) = [])
    | Some e \<Rightarrow> cm_repo e = repo \<and> cm_version e = version \<and> cm_last e = now \<and>
        (cm_key e = key \<or>
          (\<forall>e' \<in> set (ready_entries repo s). cm_key e' = key \<longrightarrow> cm_version e' \<noteq> version) \<and>
          (\<exists>qs p rs. restore = qs @ p # rs \<and> p \<noteq> '''' \<and> has_prefix (cm_key e) p \<and>
            (\<forall>e' \<in> set (candidates version p (ready_entries repo s)). \<not> newer e' e) \<and>
            (\<forall>q \<in> set qs. candidates version q (ready_entries repo s) = [])))"
proof -
  let ?es = "ready_entries repo s"
  have ok: "store_ok sha s" by (rule reachable_ok [OF assms(1,2)])
  have none: "find P xs = None \<longleftrightarrow> (\<forall>x \<in> set xs. \<not> P x)" for P and xs :: "cacheMeta list"
    by (auto simp: find_None_iff)
  show ?thesis
  proof (cases "lookup_entry key restore version ?es")
    case None
    then have "find (\<lambda>e. cm_key e = key \<and> cm_version e = version) ?es = None" "restore_lookup restore version ?es = None"
      using assms(3) by (auto simp: lookup_entry_def split: option.splits)
    then show ?thesis
      using None by (auto simp: GetEntry_result lookupLocked_def none restore_lookup_None)
  next
    case (Some e)
    then have "e \<in> set ?es" by (rule lookup_in)
    then obtain d where "entry_ok sha (repo, cm_id e) e" by (rule ready_entriesD [OF ok])
    then have repo: "cm_repo e = repo" by (simp add: entry_ok_def)
    have "(cm_key e = key \<and> cm_version e = version) \<or>
        find (\<lambda>e. cm_key e = key \<and> cm_version e = version) ?es = None \<and> restore_lookup restore version ?es = Some e"
      using Some assms(3) by (auto simp: lookup_entry_def dest: find_SomeD split: option.splits)
    then show ?thesis
    proof
      assume "cm_key e = key \<and> cm_version e = version"
      then show ?thesis using Some repo by (simp add: GetEntry_result lookupLocked_def)
    next
      assume r: "find (\<lambda>e. cm_key e = key \<and> cm_version e = version) ?es = None \<and> restore_lookup restore version ?es = Some e"
      then obtain qs p rs where q: "restore = qs @ p # rs" "e \<in> set (candidates version p ?es)"
        "\<forall>e' \<in> set (candidates version p ?es). \<not> newer e' e" "\<forall>q \<in> set qs. candidates version q ?es = []"
        using restore_lookup_Some by blast
      then have p: "p \<noteq> ''''" "has_prefix (cm_key e) p" "cm_version e = version"
        by (auto simp: candidates_def split: if_splits)
      have "newer e' (e\<lparr> cm_last := now \<rparr>) = newer e' e" for e' by (simp add: newer_def)
      moreover have "\<exists>qs p rs. restore = qs @ p # rs \<and> p \<noteq> '''' \<and> has_prefix (cm_key e) p \<and>
          (\<forall>e' \<in> set (candidates version p ?es). \<not> newer e' e) \<and> (\<forall>q \<in> set qs. candidates version q ?es = [])"
        using p q by blast
      ultimately show ?thesis using Some repo r p(3) by (simp add: GetEntry_result lookupLocked_def none)
    qed
  qed
qed

section \<open>An example\<close>

definition ex_store :: ghaStore where
  "ex_store = snd (Finalize plain_hash 5 (\<lambda>_. True) ''o/r'' ''deps-1'' ''v'' 0
     (snd (WriteUpload ''u1'' ''data'' (snd (CreateUpload 3 (Some ''u1'') ''o/r'' ''deps-1'' ''v'' (OpenStore 100 [] []))))))"

lemma ex_store_reachable: "cache_reachable plain_hash ex_store"
proof -
  have "plain_repo ''o/r''" by code_simp
  then show ?thesis
    unfolding ex_store_def
    by (intro reachable_step [OF _ s_finalize [OF _ prod.collapse [symmetric]]]
        reachable_step [OF _ s_write [OF prod.collapse [symmetric]]]
        reachable_step [OF _ s_create [OF prod.collapse [symmetric]]] reachable_empty)
qed


lemma restart_keeps_actions_cache_witness:
  "gs_total (OpenStore 7 (gs_uploads ex_store) (gs_entries ex_store)) = 4"
proof -
  have "gs_total ex_store = 4" by code_simp
  then show ?thesis
    using restart_keeps_actions_cache [OF ex_store_reachable plain_hash_ok, of 7] by (simp add: Let_def)
qed

lemma restore_keys_in_order_witness:
  "\<exists>e. fst (GetEntry 9 ''o/r'' ''deps-2'' [''x'', ''deps-''] ''v'' ex_store) = Some e \<and> cm_repo e = ''o/r''"
proof -
  have "fst (GetEntry 9 ''o/r'' ''deps-2'' [''x'', ''deps-''] ''v'' ex_store) \<noteq> None" by code_simp
  then show ?thesis
    using restore_keys_in_order [OF ex_store_reachable plain_hash_ok,         where key = "''deps-2''" and now = 9 and repo = "''o/r''" and restore = "[''x'', ''deps-'']" and version = "''v''"]
    by (auto split: option.splits)
qed

section \<open>Eviction\<close>

lemma evict_limit: "evictLocked rm_ok k s = (b, s') \<Longrightarrow> gs_max s' = gs_max s"
  by (auto simp: evictLocked_def evict_with_def fold_remove_fields split: if_splits prod.splits)

lemma promoted_idx:
  "gs_idx (promoted m data up s) = AList.update (cm_id m) (index_of m (cm_repo m, cm_id m)) (gs_idx s)"
  "gs_max (promoted m data up s) = gs_max s"
  by (simp_all add: promoted_def Let_def remember_fields)

lemma in_victims:
  assumes "index_keys s"
  shows "(i, sz) \<in> set (victims s) \<longleftrightarrow> (\<exists>e. map_of (gs_idx s) i = Some e \<and> sz = ci_size e)"
  using assms by (force simp: set_victims index_keys_def map_of_eq_Some_iff)

text \<open>What eviction leaves is unchanged.\<close>

lemma evict_idx:
  assumes "evictLocked rm_ok k s = (b, s')" and "map_of (gs_idx s') i = Some e"
  shows "map_of (gs_idx s) i = Some e"
proof -
  obtain ks where "gs_idx s' = filter (\<lambda>x. fst x \<notin> set ks) (gs_idx s)"
    using assms(1) fold_remove_fields(3) [of _ s]
    by (auto simp: evictLocked_def evict_with_def split: if_splits prod.splits intro: that [of "[]"])
  then show ?thesis
    using assms(2) by (simp add: map_of_filter_key [of "\<lambda>x. x \<notin> set ks"] split: if_splits)
qed

lemma remove_entries_sub: "map_of (gs_entries (fold remove_entry ks s)) dir = Some x \<Longrightarrow> map_of (gs_entries s) dir = Some x"
proof (induction ks arbitrary: s)
  case (Cons k ks)
  then have "map_of (gs_entries (remove_entry k s)) dir = Some x" by simp
  then show ?case by (auto simp: remove_entry_fields delete_conv' split: option.splits if_splits)
qed simp

lemma evict_entries:
  "evictLocked rm_ok k s = (b, s') \<Longrightarrow> map_of (gs_entries s') dir = Some x \<Longrightarrow> map_of (gs_entries s) dir = Some x"
  by (auto simp: evictLocked_def evict_with_def dest: remove_entries_sub split: if_splits prod.splits)

text \<open>The protected entry stays, on the disk and in the index.\<close>

lemma evict_spares:
  assumes ok: "store_ok sha s" and k: "map_of (gs_idx s) k = Some e" and ev: "evictLocked rm_ok k s = (b, s')"
  shows "map_of (gs_idx s') k = Some e" and "map_of (gs_entries s') (ci_dir e) = map_of (gs_entries s) (ci_dir e)"
proof -
  have s': "store_ok sha s'" by (rule store_ok_evict [OF ok ev])
  have g: "index_keys s" "index_keys s'" using ok s' by (simp_all add: store_ok_def accounted_iff)
  have ev': "evict_with (\<lambda>i. i = k) rm_ok s = (b, s')" using ev by (simp add: evictLocked_def)
  have "(k, ci_size e) \<in> set (victims s')"
    by (rule actions.evict_keeps [OF g(1) ev']) (simp_all add: in_victims [OF g(1)] k)
  then show idx: "map_of (gs_idx s') k = Some e"
    using evict_idx [OF ev] k by (fastforce simp: in_victims [OF g(2)])
  then obtain m d where "map_of (gs_entries s') (ci_dir e) = Some (m, d)"
    using disk_okD(5) [OF store_okD(1) [OF s']] by blast
  then show "map_of (gs_entries s') (ci_dir e) = map_of (gs_entries s) (ci_dir e)"
    using evict_entries [OF ev] by simp
qed



text \<open>
  Reading an entry does not change what is evicted next: the order of eviction is that of the last
  finalization (or of the last restart), because \<open>Get\<close> refreshes the entry's file and not the index.
\<close>

theorem reads_do_not_delay_eviction:
  "evictLocked rm_ok keep_id (snd (GetEntry now repo key restore version s)) = (ok, s') \<Longrightarrow>
   gs_idx s' = gs_idx (snd (evictLocked rm_ok keep_id s)) \<and> ok = fst (evictLocked rm_ok keep_id s)"
proof -
  have same: "gs_idx (snd (GetEntry now repo key restore version s)) = gs_idx s"
    "gs_total (snd (GetEntry now repo key restore version s)) = gs_total s"
    "gs_max (snd (GetEntry now repo key restore version s)) = gs_max s"
    by (simp_all add: GetEntry_def Let_def split: option.split)
  have "victims (snd (GetEntry now repo key restore version s)) = victims s" by (simp add: victims_def same)
  then show "evictLocked rm_ok keep_id (snd (GetEntry now repo key restore version s)) = (ok, s') \<Longrightarrow> ?thesis"
    by (auto simp: evictLocked_def evict_with_def same fold_remove_fields split: if_splits prod.splits)
qed

section \<open>From upload to restore\<close>

definition append_all :: "string \<Rightarrow> (string \<times> string) list \<Rightarrow> ghaStore \<Rightarrow> ghaStore" where
  "append_all i blocks s = fold (\<lambda>(b, d) s. snd (AppendUpload i b d s)) blocks s"

text \<open>\<open>s'\<close> differs from \<open>s\<close> in the upload \<open>i\<close> only, which is \<open>u\<close>.\<close>

definition upload_is :: "string \<Rightarrow> upload_dir \<Rightarrow> ghaStore \<Rightarrow> ghaStore \<Rightarrow> bool" where
  "upload_is i u s s' \<longleftrightarrow> (\<forall>j. map_of (gs_uploads s') j = (if j = i then Some u else map_of (gs_uploads s) j)) \<and>
     gs_idx s' = gs_idx s \<and> gs_total s' = gs_total s \<and> gs_max s' = gs_max s \<and> gs_entries s' = gs_entries s"

lemma append_upload_is:
  "upload_is i u s s' \<Longrightarrow> upload_is i (u\<lparr> ud_blocks := AList.update b d (ud_blocks u) \<rparr>) s (snd (AppendUpload i b d s'))"
  by (simp add: upload_is_def AppendUpload_def update_conv')

lemma append_all_is:
  "upload_is i u s s' \<Longrightarrow>
    upload_is i (u\<lparr> ud_blocks := fold (\<lambda>(b, d). AList.update b d) blocks (ud_blocks u) \<rparr>) s (append_all i blocks s')"
proof (induction blocks arbitrary: u s')
  case (Cons x xs)
  obtain b d where x: "x = (b, d)" by fastforce
  show ?case using Cons.IH [OF append_upload_is [OF Cons.prems, of b d]] by (simp add: x append_all_def)
qed (simp add: append_all_def)

lemma fold_update_map: "map_of (fold (\<lambda>(b, d). AList.update b d) xs ys) = map_of ys ++ map_of (rev xs)"
  by (induction xs arbitrary: ys) (auto simp: update_conv' map_add_def fun_eq_iff split: option.split)

lemma commit_all:
  "(\<forall>b \<in> set ids. map_of blocks b \<noteq> None) \<Longrightarrow>
    commit_blocks blocks ids out = (None, out @ concat (map (\<lambda>b. the (map_of blocks b)) ids))"
  by (induction ids arbitrary: out) auto

lemma store_ok_append_all: "store_ok sha s \<Longrightarrow> store_ok sha (append_all i blocks s)"
proof (induction blocks arbitrary: s)
  case (Cons x xs)
  then show ?case using AppendUpload_ok [OF Cons.prems prod.collapse [symmetric]]
    by (cases x) (simp add: append_all_def)
qed (simp add: append_all_def)

lemma evict_run_ok: "(\<And>k. rm_ok k) \<Longrightarrow> snd (snd (evict_run limit keep rm_ok xs t))"
  by (induction limit keep rm_ok xs t rule: evict_run.induct) (auto split: prod.splits)

lemma evict_ok: "(\<And>k. rm_ok k) \<Longrightarrow> fst (evictLocked rm_ok k s)"
  using evict_run_ok [of rm_ok "gs_max s" "\<lambda>i. i = k" "victims s" "gs_total s"]
  by (auto simp: evictLocked_def evict_with_def split: prod.splits)

text \<open>The stored entry is found by its exact key and read back.\<close>

lemma stored_is_restored:
  assumes ok: "store_ok sha s" and m: "map_of (gs_entries s) (repo, entryID sha repo key version) = Some (m, data)"
    and key: "cm_key m = key" "cm_version m = version" "key \<noteq> ''''"
    and g: "GetEntry now repo key restore version s = (r, s')"
  shows "r = Some (m\<lparr> cm_last := now \<rparr>) \<and> ReadBlob (cm_id m) s' = Inr data"
proof -
  let ?eid = "entryID sha repo key version"
  note dk = store_okD(1) [OF ok]
  have m_ok: "entry_ok sha (repo, ?eid) m" by (rule disk_okD(2) [OF dk m])
  have "(?eid, m, data) \<in> set (repo_dir repo s)" using map_of_SomeD [OF m] by (simp add: set_repo_dir)
  then have in_ready: "m \<in> set (ready_entries repo s)" using m_ok by (force simp: ready_entries_def entry_ok_def)
  then obtain e where e: "find (\<lambda>e. cm_key e = key \<and> cm_version e = version) (ready_entries repo s) = Some e"
    using key by (cases "find (\<lambda>e. cm_key e = key \<and> cm_version e = version) (ready_entries repo s)")
      (auto simp: find_None_iff)
  then have e': "e \<in> set (ready_entries repo s)" "cm_key e = key" "cm_version e = version"
    by (auto dest: find_SomeD)
  then obtain d where d: "map_of (gs_entries s) (repo, cm_id e) = Some (e, d)" "entry_ok sha (repo, cm_id e) e"
    using ready_entriesD [OF ok] by blast
  then have "cm_id e = ?eid" using e' by (simp add: entry_ok_def)
  then have em: "e = m" using d m by simp
  have look: "lookupLocked repo key restore version s = Some m"
    using e em key(3) by (simp add: lookupLocked_def lookup_entry_def)
  have id: "cm_id m = ?eid" using \<open>cm_id e = ?eid\<close> em by simp
  obtain ie where ie: "map_of (gs_idx s) ?eid = Some ie" "agree ie (repo, ?eid) m" using disk_okD(3) [OF dk m] by auto
  show ?thesis using g look m id ie agreeD(1) [OF ie(2)]
    by (auto simp: GetEntry_def Let_def ReadBlob_def entry_path_def update_conv')
qed

text \<open>The upload that \<open>Finalize\<close> finds is the only one of its key.\<close>

lemma find_upload_is:
  assumes ok: "uploads_ok s'" and up: "upload_is i u s s'"
    and u: "cm_repo (ud_meta u) = repo" "cm_key (ud_meta u) = key" "cm_version (ud_meta u) = version"
      "cm_state (ud_meta u) = ''upload''"
    and other: "\<And>j v. map_of (gs_uploads s) j = Some v \<Longrightarrow>
      \<not> (cm_repo (ud_meta v) = repo \<and> cm_key (ud_meta v) = key \<and> cm_version (ud_meta v) = version)"
  shows "findUploadLocked repo key version s' = Some i"
proof -
  let ?P = "\<lambda>(i, u). cm_repo (ud_meta u) = repo \<and> cm_key (ud_meta u) = key \<and>
    cm_version (ud_meta u) = version \<and> cm_state (ud_meta u) = ''upload''"
  have i: "map_of (gs_uploads s') i = Some u" using up by (simp add: upload_is_def)
  have d: "distinct (map fst (gs_uploads s'))" using ok by (simp add: uploads_ok_def)
  have only: "x = (i, u)" if "x \<in> set (gs_uploads s')" "?P x" for x
  proof -
    obtain j v where x: "x = (j, v)" by fastforce
    then have v: "map_of (gs_uploads s') j = Some v" using that(1) map_of_is_SomeI [OF d] by simp
    then have "j = i" using up other [of j v] that(2) x by (auto simp: upload_is_def split: if_splits)
    then show ?thesis using v i x by simp
  qed
  have "(i, u) \<in> set (read_dir (gs_uploads s'))" using map_of_SomeD [OF i] by (simp add: read_dir_def)
  then obtain x where x: "find ?P (read_dir (gs_uploads s')) = Some x"
    using u by (cases "find ?P (read_dir (gs_uploads s'))") (auto simp: find_None_iff)
  then have "x \<in> set (gs_uploads s') \<and> ?P x" by (auto dest!: find_SomeD simp: read_dir_def)
  then have "x = (i, u)" using only by blast
  moreover have "cm_id (ud_meta u) = i" using ok i by (simp add: uploads_ok_def)
  ultimately show ?thesis using x by (simp add: findUploadLocked_def)
qed

text \<open>
  A cache that is uploaded in blocks and finalized is restored by its exact key as the concatenation of
  the committed blocks, each as it was last written, however large the declared size and however much has to
  be evicted, provided nobody else is uploading the same key.
\<close>

lemma upload_restored:
  assumes "cache_reachable sha s" and "no_collision sha" and "plain_repo repo"
    and "key \<noteq> ''''" and "version \<noteq> ''''" and "lookupLocked repo key [] version s = None"
    and "\<And>j v. map_of (gs_uploads s) j = Some v \<Longrightarrow>
      \<not> (cm_repo (ud_meta v) = repo \<and> cm_key (ud_meta v) = key \<and> cm_version (ud_meta v) = version)"
    and "set ids \<subseteq> fst ` set blocks"
    and "CreateUpload t0 (Some i) repo key version s = (created, s1)"
    and "CommitBlocks i ids (append_all i blocks s1) = (committed, s2)"
    and "Finalize sha t1 (\<lambda>_. True) repo key version declared s2 = (finalized, s3)"
    and "GetEntry t2 repo key restore version s3 = (found, s4)"
  shows "created = Inr i \<and> committed = None \<and>
    (\<exists>m. finalized = Inr m \<and> found = Some (m\<lparr> cm_last := t2 \<rparr>) \<and>
      ReadBlob (cm_id m) s4 = Inr (concat (map (\<lambda>b. the (map_of (rev blocks) b)) ids)))"
proof -
  let ?start = "\<lparr> cm_id = i, cm_repo = repo, cm_key = key, cm_version = version, cm_size = 0, cm_state = ''upload'',
    cm_created = t0, cm_last = t0 \<rparr>"
  let ?u1 = "\<lparr> ud_meta = ?start, ud_data = None, ud_blocks = fold (\<lambda>(b, d). AList.update b d) blocks [] \<rparr>"
  let ?data = "concat (map (\<lambda>b. the (map_of (rev blocks) b)) ids)"
  let ?m = "final_meta sha t1 repo key version declared ?data"
  have ok: "store_ok sha s" by (rule reachable_ok [OF assms(1,2)])
  have created: "created = Inr i" "upload_is i (\<lparr> ud_meta = ?start, ud_data = None, ud_blocks = [] \<rparr>) s s1"
    using assms(3-6,9) by (auto simp: CreateUpload_def plain_repo_def Let_def upload_is_def update_conv')
  have s1: "store_ok sha s1" by (rule CreateUpload_ok [OF ok assms(9)])
  have app: "upload_is i ?u1 s (append_all i blocks s1)" using append_all_is [OF created(2), of blocks] by simp
  have "map_of (rev blocks) b \<noteq> None" if "b \<in> set ids" for b
    using assms(8) that by (auto simp: map_of_eq_None_iff)
  then have "commit_blocks (ud_blocks ?u1) ids '''' = (None, ?data)"
    using commit_all [of ids "ud_blocks ?u1" "''''"] by (simp add: fold_update_map)
  then have committed: "committed = None" "upload_is i (?u1\<lparr> ud_data := Some ?data \<rparr>) s s2"
    using app assms(10) by (auto simp: CommitBlocks_def upload_is_def update_conv')
  have s2: "store_ok sha s2" by (rule CommitBlocks_ok [OF store_ok_append_all [OF s1] assms(10)])
  have find: "findUploadLocked repo key version s2 = Some i"
    by (rule find_upload_is [OF store_okD(3) [OF s2] committed(2) _ _ _ _ assms(7)]) simp_all
  have data: "Option.bind (map_of (gs_uploads s2) i) ud_data = Some ?data"
    using committed(2) by (simp add: upload_is_def)
  have s2': "store_ok sha (promoted ?m ?data i s2)" by (rule promoted_ok [OF s2 assms(2,3)])
  have ev: "evictLocked (\<lambda>_. True) (cm_id ?m) (promoted ?m ?data i s2) = (True, s3)" and fin: "finalized = Inr ?m"
    using assms(11) evict_ok [of "\<lambda>_. True" "cm_id ?m" "promoted ?m ?data i s2"]
    by (auto simp: Finalize_eq find data Let_def split: prod.splits if_splits)
  have dir: "(cm_repo ?m, cm_id ?m) = (repo, entryID sha repo key version)" by (simp add: final_meta_def)
  have "map_of (gs_idx (promoted ?m ?data i s2)) (cm_id ?m) = Some (index_of ?m (cm_repo ?m, cm_id ?m))"
    by (simp add: promoted_idx update_conv')
  then have "map_of (gs_entries s3) (cm_repo ?m, cm_id ?m) = Some (?m, ?data)"
    using evict_spares(2) [OF s2' _ ev] by (simp add: promoted_def Let_def remember_fields update_conv')
  then have "found = Some (?m\<lparr> cm_last := t2 \<rparr>) \<and> ReadBlob (cm_id ?m) s4 = Inr ?data"
    unfolding dir
    by (intro stored_is_restored [OF store_ok_evict [OF s2' ev] _ _ _ assms(4,12)]) (simp_all add: final_meta_def)
  then show ?thesis using created(1) committed(1) fin by blast
qed

section \<open>Sizes and names the store takes on trust\<close>

text \<open>
  A job may declare any size when it finalizes: two entries that declare \<open>2\<^sup>6\<^sup>3 - 1\<close> bytes turn the total
  negative, and nothing is evicted from then on, whatever is stored.
\<close>

definition add_entry :: "string \<Rightarrow> int \<Rightarrow> ghaStore \<Rightarrow> ghaStore" where
  "add_entry key declared s =
     snd (Finalize plain_hash 8 (\<lambda>_. True) ''o/r'' key ''v'' declared
       (snd (WriteUpload ''u'' ''0123456789'' (snd (CreateUpload 7 (Some ''u'') ''o/r'' key ''v'' s)))))"

lemma declared_size_defeats_eviction:
  "(let s1 = add_entry ''a'' (2 ^ 63 - 1) (OpenStore 15 [] []);
        s2 = add_entry ''c'' 0 (s1\<lparr> gs_max := 15 \<rparr>)
    in length (gs_entries s1) = 1 \<and> length (gs_entries s2) = 2 \<and> gs_total s2 < 0)"
  by code_simp

text \<open>
  Of two uploads of one key under way, a finalization promotes the first by directory name, whoever asks:
  here the caller of \<open>u2\<close> publishes what \<open>u1\<close> has written so far, and its own bytes are left behind.
\<close>

lemma finalize_publishes_other_upload:
  "(let s1 = snd (CreateUpload 1 (Some ''u1'') ''o/r'' ''k'' ''v'' (OpenStore 100 [] []));
        s2 = snd (WriteUpload ''u1'' ''half'' s1);
        s3 = snd (CreateUpload 2 (Some ''u2'') ''o/r'' ''k'' ''v'' s2);
        s4 = snd (WriteUpload ''u2'' ''whole'' s3);
        (r, s5) = Finalize plain_hash 3 (\<lambda>_. True) ''o/r'' ''k'' ''v'' 0 s4
    in (case r of Inr m \<Rightarrow> ReadBlob (cm_id m) s5 = Inr ''half'' | Inl _ \<Rightarrow> False) \<and>
       map_option fst (find (\<lambda>_. True) (gs_uploads s5)) = Some ''u2'')"
  by code_simp

end
