(* ===== verification/NetText.thy ===== *)
theory NetText
  imports Base
begin

text \<open>
  Addresses, host names and file paths as the caches' gateways take them apart: \<open>net.SplitHostPort\<close>,
  \<open>strings.Cut\<close> and \<open>strings.Trim\<close>, and the lexical joining of \<open>filepath.Join\<close>. Texts stand for byte strings.
\<close>

section \<open>Addresses\<close>

definition SplitHostPort :: "string \<Rightarrow> (string \<times> string) option" where
  "SplitHostPort hp =
     (case last_index hp '':'' of
        None \<Rightarrow> None
      | Some i \<Rightarrow>
          if hd hp = CHR ''['' then
            (case str_index hp '']'' of
               None \<Rightarrow> None
             | Some e \<Rightarrow>
                 if e + 1 \<noteq> i then None
                 else if contains (drop 1 hp) ''['' \<or> contains (drop (e + 1) hp) '']'' then None
                 else Some (take (e - 1) (drop 1 hp), drop (i + 1) hp))
          else if contains (take i hp) '':'' \<or> contains hp ''['' \<or> contains hp '']'' then None
          else Some (take i hp, drop (i + 1) hp))"

text \<open>\<open>stripPort\<close> of both gateways.\<close>

definition stripPort :: "string \<Rightarrow> string" where
  "stripPort addr = (case SplitHostPort addr of None \<Rightarrow> addr | Some (host, _) \<Rightarrow> host)"

text \<open>A host header up to its first colon.\<close>

definition before_colon :: "string \<Rightarrow> string" where
  "before_colon h = (case str_index h '':'' of None \<Rightarrow> h | Some i \<Rightarrow> take i h)"

definition trim_set :: "char set \<Rightarrow> string \<Rightarrow> string" where
  "trim_set cs s = rev (dropWhile (\<lambda>c. c \<in> cs) (rev (dropWhile (\<lambda>c. c \<in> cs) s)))"

definition str_cut :: "string \<Rightarrow> string \<Rightarrow> string \<times> string \<times> bool" where
  "str_cut s sep =
     (case str_index s sep of
        None \<Rightarrow> (s, '''', False)
      | Some i \<Rightarrow> (take i s, drop (i + length sep) s, True))"

lemma str_index_skip:
  "c \<notin> set a \<Longrightarrow> str_index (a @ s) (c # q) = map_option ((+) (length a)) (str_index s (c # q))"
  by (induction a) (cases "str_index s (c # q)", auto simp: has_prefix_def)+

lemma str_index_start: "has_prefix s p \<Longrightarrow> str_index s p = Some 0"
  by (cases s) (auto simp: has_prefix_def)

lemma str_index_here: "str_index (p @ s) p = Some 0"
  by (simp add: str_index_start)

lemma str_index_sub: "str_index (a @ p @ b) p \<noteq> None"
  by (induction a) (auto simp: str_index_here split: if_splits)

lemma contains_sub: "contains (a @ p @ b) p"
  by (simp add: contains_def str_index_sub)

text \<open>The pieces of a split, joined.\<close>

definition join_on :: "char \<Rightarrow> string list \<Rightarrow> string" where
  "join_on c ws = (case ws of [] \<Rightarrow> [] | w # r \<Rightarrow> w @ concat (map ((#) c) r))"

lemma join_split: "join_on c (split_on c s) = s"
proof (induction s)
  case (Cons x s)
  have "split_on c s \<noteq> []" by simp
  then obtain w ws where "split_on c s = w # ws" by (meson neq_Nil_conv)
  then show ?case using Cons by (simp add: join_on_def)
qed (simp add: join_on_def)

lemma split_on_inject: "split_on c a = split_on c b \<Longrightarrow> a = b"
  by (metis join_split)

lemma split_on_sub:
  assumes "w \<in> set (split_on c s)"
  obtains a b where "s = a @ w @ b"
proof -
  obtain xs ys where ws: "split_on c s = xs @ w # ys" using assms by (auto simp: in_set_conv_decomp)
  then have s: "s = join_on c (xs @ w # ys)" by (metis join_split)
  show thesis
  proof (cases xs)
    case Nil
    then show thesis using s that [of "[]" "concat (map ((#) c) ys)"] by (simp add: join_on_def)
  next
    case (Cons x zs)
    then show thesis
      using s that [of "x @ concat (map ((#) c) zs) @ [c]" "concat (map ((#) c) ys)"] by (simp add: join_on_def)
  qed
qed

text \<open>A colon is the last one when none follows.\<close>

lemma str_index_char: "str_index s [c] = (if c \<in> set s then Some (length (takeWhile (\<lambda>d. d \<noteq> c) s)) else None)"
  by (induction s) (auto simp: has_prefix_def)

lemma contains_char: "contains s [c] \<longleftrightarrow> c \<in> set s"
  by (auto simp: contains_def str_index_char)

lemma last_index_char_None: "c \<notin> set t \<Longrightarrow> last_index t [c] = None"
  by (induction t) (auto simp: has_prefix_def)

lemma last_index_char: "c \<notin> set t \<Longrightarrow> last_index (s @ c # t) [c] = Some (length s)"
  by (induction s) (auto simp: last_index_char_None has_prefix_def)

lemma SplitHostPort_plain:
  assumes "host \<noteq> ''''" and "set host \<inter> {CHR '':'', CHR ''['', CHR '']''} = {}"
    and "set port \<inter> {CHR '':'', CHR ''['', CHR '']''} = {}"
  shows "SplitHostPort (host @ '':'' @ port) = Some (host, port)"
proof -
  have "last_index (host @ '':'' @ port) '':'' = Some (length host)"
    using assms(3) last_index_char [of "CHR '':''" port host] by auto
  moreover have "hd (host @ '':'' @ port) \<noteq> CHR ''[''" using assms(1,2) by (cases host) auto
  ultimately show ?thesis using assms(2,3) by (auto simp: SplitHostPort_def contains_char)
qed

lemma stripPort_plain:
  "host \<noteq> '''' \<Longrightarrow> set host \<inter> {CHR '':'', CHR ''['', CHR '']''} = {} \<Longrightarrow>
    set port \<inter> {CHR '':'', CHR ''['', CHR '']''} = {} \<Longrightarrow> stripPort (host @ '':'' @ port) = host"
  using SplitHostPort_plain [of host port] by (simp add: stripPort_def)

lemma stripPort_host: "CHR '':'' \<notin> set host \<Longrightarrow> stripPort host = host"
  by (simp add: stripPort_def SplitHostPort_def last_index_char_None)

section \<open>File paths\<close>

text \<open>
  An absolute path is the list of its components. \<open>path_join\<close> is \<open>filepath.Join\<close>: each part is split at the
  slashes, empty parts and \<open>.\<close> go, and \<open>..\<close> takes the component before it away, if there is one.
\<close>

type_synonym path = "string list"

definition path_push :: "path \<Rightarrow> string \<Rightarrow> path" where
  "path_push p c = (if c = '''' \<or> c = ''.'' then p else if c = ''..'' then butlast p else p @ [c])"

definition path_join :: "path \<Rightarrow> string list \<Rightarrow> path" where
  "path_join root parts = foldl path_push root (concat (map (split_on (CHR ''/'')) parts))"

definition plain_component :: "string \<Rightarrow> bool" where
  "plain_component c \<longleftrightarrow> c \<noteq> '''' \<and> c \<noteq> ''.'' \<and> c \<noteq> ''..''"

lemma foldl_push_plain: "list_all plain_component cs \<Longrightarrow> foldl path_push p cs = p @ cs"
  by (induction cs arbitrary: p) (auto simp: path_push_def plain_component_def)

lemma path_join_plain:
  "list_all (\<lambda>s. list_all plain_component (split_on (CHR ''/'') s)) parts \<Longrightarrow>
    path_join p parts = p @ concat (map (split_on (CHR ''/'')) parts)"
  unfolding path_join_def by (rule foldl_push_plain) (auto simp: list_all_iff)

text \<open>\<open>os.RemoveAll\<close>: the path and everything under it.\<close>

definition remove_all :: "path \<Rightarrow> (path \<times> 'a) list \<Rightarrow> (path \<times> 'a) list" where
  "remove_all p fs = filter (\<lambda>f. \<not> prefix p (fst f)) fs"

lemma remove_all_at: "map_of (remove_all p fs) q = (if prefix p q then None else map_of fs q)"
  unfolding remove_all_def by (simp add: map_of_filter_key [of "\<lambda>q. \<not> prefix p q"])

end
