(* ===== verification/CacheNet.thy ===== *)
theory CacheNet
  imports NetText
begin

text \<open>
  Which connections of a guest the host takes over: \<open>internal/ghacache/sni.go\<close> (hosts to terminate and hosts
  to leave alone), \<open>internal/ocicache/sni.go\<close> and \<open>mux.go\<close> (registry hosts), and the firewall rules of
  \<open>internal/ghacache/redirect.go\<close> that send a guest's HTTPS to the listener.
\<close>

section \<open>Hosts\<close>

definition BypassHosts :: "string list" where
  "BypassHosts =
     [''github.com'', ''api.github.com'', ''codeload.github.com'', ''objects.githubusercontent.com'',
      ''github-releases.githubusercontent.com'', ''registry.npmjs.org'', ''registry.yarnpkg.com'',
      ''proxy.golang.org'', ''sum.golang.org'', ''goproxy.io'', ''nodejs.org'', ''pypi.org'',
      ''files.pythonhosted.org'', ''auth.docker.io'']"

definition plain_host :: "string \<Rightarrow> string" where
  "plain_host host = before_colon (to_lower (trim_space host))"

definition ShouldBypass :: "string \<Rightarrow> bool" where
  "ShouldBypass host \<longleftrightarrow>
     (let h = plain_host host in list_ex (\<lambda>b. h = b \<or> has_suffix h (''.'' @ b)) BypassHosts)"

definition cacheBlobHost :: string where
  "cacheBlobHost = ''tempercicache.blob.core.windows.net''"

definition ShouldIntercept :: "string \<Rightarrow> bool" where
  "ShouldIntercept host \<longleftrightarrow>
     (let h = plain_host host in
      if h = '''' then False
      else if has_suffix h ''.actions.githubusercontent.com'' \<or> h = ''actions.githubusercontent.com''
        then contains h ''result''
      else h = cacheBlobHost)"

definition IsRegistryHost :: "string \<Rightarrow> bool" where
  "IsRegistryHost host \<longleftrightarrow> (let h = plain_host host in h = ''registry-1.docker.io'' \<or> h = ''ghcr.io'')"

definition ShouldTerminate :: "string \<Rightarrow> bool" where
  "ShouldTerminate host \<longleftrightarrow> IsRegistryHost host \<or> ShouldIntercept host"

text \<open>The gateway that answers a request with this host header or, when it has none, this server name.\<close>

datatype gateway_kind = ImageGateway | ActionsGateway

definition request_host :: "string \<Rightarrow> string \<Rightarrow> string" where
  "request_host host sni =
     (let h = (if host = '''' then sni else host) in
      if contains h '':'' \<and> \<not> contains h '']'' then before_colon h else h)"

definition Mux :: "string \<Rightarrow> string \<Rightarrow> gateway_kind" where
  "Mux host sni = (if IsRegistryHost (request_host host sni) then ImageGateway else ActionsGateway)"

definition hostOf :: "string \<Rightarrow> string \<Rightarrow> string" where
  "hostOf host sni = to_lower (request_host host sni)"

datatype http_method = GET | HEAD | PUT | POST | PATCH | OTHER

section \<open>Firewall rules\<close>

definition SplitListenAddr :: "string \<Rightarrow> string \<times> int" where
  "SplitListenAddr addr0 =
     (let addr = trim_space addr0 in
      if addr = '''' then ('''', 0)
      else case SplitHostPort addr of
        None \<Rightarrow>
          (case last_index addr '':'' of
             None \<Rightarrow> ('''', 0)
           | Some i \<Rightarrow>
               (case atoi (drop (i + 1) addr) of None \<Rightarrow> ('''', 0) | Some n \<Rightarrow> (take i addr, n)))
      | Some (h, p) \<Rightarrow> (case atoi p of None \<Rightarrow> (h, 0) | Some n \<Rightarrow> (h, n)))"

definition ListenPort :: "string \<Rightarrow> int" where
  "ListenPort addr = snd (SplitListenAddr addr)"

definition GuestHTTPSRedirectSpec :: "string \<Rightarrow> string \<Rightarrow> string list option \<times> bool" where
  "GuestHTTPSRedirectSpec tap listenAddr =
     (case SplitListenAddr listenAddr of
        (host, port) \<Rightarrow>
          if tap = '''' \<or> port \<le> 0 then (None, False)
          else
            let rule = [''PREROUTING'', ''-t'', ''nat'', ''-i'', tap, ''-p'', ''tcp'', ''--dport'', ''443''];
                h = to_lower (trim_set {CHR ''['', CHR '']''} host)
            in if h = '''' \<or> h = ''0.0.0.0'' \<or> h = ''::'' \<or> h = ''*''
               then (Some (rule @ [''-j'', ''REDIRECT'', ''--to-ports'', itoa port]), False)
               else if h = ''127.0.0.1'' \<or> h = ''localhost'' \<or> h = ''::1''
               then (Some (rule @ [''-j'', ''DNAT'', ''--to-destination'', ''127.0.0.1:'' @ itoa port]), True)
               else (Some (rule @ [''-j'', ''DNAT'', ''--to-destination'', host @ '':'' @ itoa port]), False))"

definition legacyRedirectSpec :: "string \<Rightarrow> string \<Rightarrow> string list option" where
  "legacyRedirectSpec tap listenAddr =
     (let port = snd (SplitListenAddr listenAddr) in
      if tap = '''' \<or> port \<le> 0 then None
      else Some [''PREROUTING'', ''-t'', ''nat'', ''-i'', tap, ''-p'', ''tcp'', ''--dport'', ''443'',
                 ''-j'', ''REDIRECT'', ''--to-ports'', itoa port])"

definition bypassIPSet :: string where "bypassIPSet = ''temperci-bypass''"

definition GuestHTTPSBypassSpec :: "string \<Rightarrow> string list option" where
  "GuestHTTPSBypassSpec tap =
     (if tap = '''' then None
      else Some [''PREROUTING'', ''-t'', ''nat'', ''-i'', tap, ''-p'', ''tcp'', ''--dport'', ''443'',
                 ''-m'', ''set'', ''--match-set'', bypassIPSet, ''dst'', ''-j'', ''RETURN''])"

definition GuestHTTPSInputSpec :: "string \<Rightarrow> string \<Rightarrow> string list option" where
  "GuestHTTPSInputSpec tap listenAddr =
     (let port = snd (SplitListenAddr listenAddr) in
      if tap = '''' \<or> port \<le> 0 then None
      else Some [''INPUT'', ''-i'', tap, ''-p'', ''tcp'', ''--dport'', itoa port, ''-j'', ''ACCEPT''])"

text \<open>
  \<open>iptables\<close> is an argument: given its command line and the firewall's state, whether it succeeded and the
  state after. These are the Linux branches; the preparation of the ip set and of the kernel's settings
  is not modelled.
\<close>

type_synonym 's iptables = "string list \<Rightarrow> 's \<Rightarrow> bool \<times> 's"

definition ensure_rule :: "'s iptables \<Rightarrow> string \<Rightarrow> string list \<Rightarrow> 's \<Rightarrow> bool \<times> 's" where
  "ensure_rule ipt flag spec s =
     (case ipt (''-C'' # spec) s of
        (True, s1) \<Rightarrow> (True, s1)
      | (False, s1) \<Rightarrow> ipt (flag # spec) s1)"

datatype redirect_error = RedirectFailed | InputFailed

definition RedirectGuestHTTPS :: "'s iptables \<Rightarrow> string \<Rightarrow> string \<Rightarrow> 's \<Rightarrow> redirect_error option \<times> 's" where
  "RedirectGuestHTTPS ipt tap listenAddr s =
     (case fst (GuestHTTPSRedirectSpec tap listenAddr) of
        None \<Rightarrow> (None, s)
      | Some spec \<Rightarrow>
          (let s1 = (case GuestHTTPSBypassSpec tap of None \<Rightarrow> s | Some b \<Rightarrow> snd (ensure_rule ipt ''-I'' b s))
           in case ensure_rule ipt ''-A'' spec s1 of
                (False, s2) \<Rightarrow> (Some RedirectFailed, s2)
              | (True, s2) \<Rightarrow>
                  (case GuestHTTPSInputSpec tap listenAddr of
                     None \<Rightarrow> (None, s2)
                   | Some input \<Rightarrow>
                       (case ensure_rule ipt ''-I'' input s2 of
                          (False, s3) \<Rightarrow> (Some InputFailed, s3)
                        | (True, s3) \<Rightarrow> (None, s3)))))"

definition delete_rule :: "'s iptables \<Rightarrow> string list option \<Rightarrow> 's \<Rightarrow> 's" where
  "delete_rule ipt spec s = (case spec of None \<Rightarrow> s | Some r \<Rightarrow> snd (ipt (''-D'' # r) s))"

definition ClearGuestHTTPSRedirect :: "'s iptables \<Rightarrow> string \<Rightarrow> string \<Rightarrow> 's \<Rightarrow> 's" where
  "ClearGuestHTTPSRedirect ipt tap listenAddr s =
     (if tap = '''' then s
      else
        let s1 = delete_rule ipt (fst (GuestHTTPSRedirectSpec tap listenAddr)) s;
            s2 = delete_rule ipt (legacyRedirectSpec tap listenAddr) s1;
            s3 = delete_rule ipt (GuestHTTPSInputSpec tap listenAddr) s2
        in delete_rule ipt (GuestHTTPSBypassSpec tap) s3)"

section \<open>Hosts left alone are not taken over\<close>

text \<open>
  No host name is both in the list that skips the interception and one the host terminates: what the
  firewall lets through directly is never a connection a gateway was meant to answer.
\<close>

theorem bypassed_hosts_not_terminated:
  assumes "ShouldBypass host"
  shows "\<not> ShouldTerminate host"
proof
  assume t: "ShouldTerminate host"
  let ?h = "plain_host host"
  let ?by = "\<lambda>h. list_ex (\<lambda>b. h = b \<or> has_suffix h (''.'' @ b)) BypassHosts"
  have by_h: "?by ?h" using assms by (simp add: ShouldBypass_def Let_def)
  have "\<not> ?by ''registry-1.docker.io''" "\<not> ?by ''ghcr.io''" "\<not> ?by cacheBlobHost"
    "\<not> ?by ''actions.githubusercontent.com''" by code_simp+
  then have suf: "suffix ''.actions.githubusercontent.com'' ?h"
    using t by_h
    by (auto simp: ShouldTerminate_def IsRegistryHost_def ShouldIntercept_def Let_def has_suffix_def split: if_splits)
  have none: "list_all (\<lambda>b. \<not> suffix ''.actions.githubusercontent.com'' b \<and>
      \<not> suffix ''.actions.githubusercontent.com'' (''.'' @ b) \<and>
      \<not> suffix (''.'' @ b) ''.actions.githubusercontent.com'') BypassHosts" by code_simp
  obtain b where b: "b \<in> set BypassHosts" "?h = b \<or> suffix (''.'' @ b) ?h"
    using by_h by (auto simp: list_ex_iff has_suffix_def)
  then show False using none suf suffix_same_cases [of "''.actions.githubusercontent.com''" ?h "''.'' @ b"]
    unfolding list_all_iff by blast
qed

lemma bypassed_hosts_not_terminated_witness: "\<not> ShouldTerminate ''Codeload.GitHub.com:443''"
  by (rule bypassed_hosts_not_terminated) code_simp

section \<open>Rules are added once and taken back\<close>

text \<open>
  What the code relies on from \<open>iptables\<close>, as its manual has it, over the number of times a rule is there:
  \<open>-C\<close> tells whether it is, \<open>-A\<close> and \<open>-I\<close> add it, \<open>-D\<close> removes one, and other rules stay.
\<close>

definition iptables_manual :: "'s iptables \<Rightarrow> ('s \<Rightarrow> string list \<Rightarrow> nat) \<Rightarrow> bool" where
  "iptables_manual ipt copies \<longleftrightarrow>
     (\<forall>r s. ipt (''-C'' # r) s = (0 < copies s r, s)) \<and>
     (\<forall>f r s. f \<in> {''-A'', ''-I''} \<longrightarrow>
        fst (ipt (f # r) s) \<and> copies (snd (ipt (f # r) s)) = (copies s)(r := copies s r + 1)) \<and>
     (\<forall>r s. copies (snd (ipt (''-D'' # r) s)) = (copies s)(r := copies s r - 1))"

lemma ensure_once:
  assumes "iptables_manual ipt copies" and "f \<in> {''-A'', ''-I''}"
  shows "fst (ensure_rule ipt f r s) \<and> copies (snd (ensure_rule ipt f r s)) = (copies s)(r := max 1 (copies s r))"
proof (cases "0 < copies s r")
  case True
  then have "(copies s)(r := max 1 (copies s r)) = copies s" by (simp add: fun_eq_iff)
  then show ?thesis using assms True by (simp add: iptables_manual_def ensure_rule_def)
next
  case False
  then show ?thesis using assms by (auto simp: iptables_manual_def ensure_rule_def)
qed

lemma delete_times:
  assumes "iptables_manual ipt copies"
  shows "copies (delete_rule ipt (Some r) s) = (copies s)(r := copies s r - 1)"
  using assms by (simp add: iptables_manual_def delete_rule_def)

text \<open>The rules of one guest interface.\<close>

definition guest_rules :: "string \<Rightarrow> string \<Rightarrow> string list list" where
  "guest_rules tap listenAddr =
     map the [GuestHTTPSBypassSpec tap, fst (GuestHTTPSRedirectSpec tap listenAddr), GuestHTTPSInputSpec tap listenAddr]"

lemma specs_of_port:
  assumes "tap \<noteq> ''''" and "0 < ListenPort addr"
  obtains b spec inp where "GuestHTTPSBypassSpec tap = Some b" "fst (GuestHTTPSRedirectSpec tap addr) = Some spec"
    "GuestHTTPSInputSpec tap addr = Some inp" "legacyRedirectSpec tap addr \<noteq> None" "distinct [b, spec, inp]"
    "the (legacyRedirectSpec tap addr) \<noteq> b" "the (legacyRedirectSpec tap addr) \<noteq> inp"
proof -
  obtain host port where hp: "SplitListenAddr addr = (host, port)" "0 < port" using assms(2) by (cases "SplitListenAddr addr") (auto simp: ListenPort_def)
  have "\<exists>spec. fst (GuestHTTPSRedirectSpec tap addr) = Some spec \<and> hd spec = ''PREROUTING'' \<and> spec ! 9 = ''-j''"
    using assms(1) hp by (simp add: GuestHTTPSRedirectSpec_def Let_def)
  then obtain spec where spec: "fst (GuestHTTPSRedirectSpec tap addr) = Some spec" "hd spec = ''PREROUTING''"
    "spec ! 9 = ''-j''" by blast
  show thesis
    by (rule that [OF _ spec(1)])
      (use assms(1) hp spec in \<open>auto simp: GuestHTTPSBypassSpec_def GuestHTTPSInputSpec_def legacyRedirectSpec_def Let_def\<close>)
qed

text \<open>
  Installing the redirect of a guest succeeds and leaves each of its three rules in the firewall exactly
  once however often it is repeated, and clearing it takes exactly these rules away again, on any firewall
  that had none of them nor the rule of older versions.
\<close>

theorem redirect_installed_once_and_cleared:
  assumes "iptables_manual ipt copies" and "tap \<noteq> ''''" and "0 < ListenPort addr"
    and "\<forall>r \<in> set (the (legacyRedirectSpec tap addr) # guest_rules tap addr). copies s r = 0"
    and "RedirectGuestHTTPS ipt tap addr s = (err, s1)" and "RedirectGuestHTTPS ipt tap addr s1 = (err2, s2)"
  shows "err = None \<and> err2 = None \<and> copies s2 = copies s1 \<and>
    (\<forall>r. copies s1 r = copies s r + (if r \<in> set (guest_rules tap addr) then 1 else 0)) \<and>
    copies (ClearGuestHTTPSRedirect ipt tap addr s2) = copies s"
proof -
  obtain b spec inp where sp: "GuestHTTPSBypassSpec tap = Some b" "fst (GuestHTTPSRedirectSpec tap addr) = Some spec"
    "GuestHTTPSInputSpec tap addr = Some inp" "legacyRedirectSpec tap addr \<noteq> None" and d: "distinct [b, spec, inp]"
    and l: "the (legacyRedirectSpec tap addr) \<noteq> b" "the (legacyRedirectSpec tap addr) \<noteq> inp"
    using specs_of_port [OF assms(2,3)] by blast
  obtain leg where leg: "legacyRedirectSpec tap addr = Some leg" using sp(4) by blast
  have zero: "copies s b = 0" "copies s spec = 0" "copies s inp = 0" "copies s leg = 0"
    using assms(4) by (simp_all add: guest_rules_def sp leg)
  have red: "fst (RedirectGuestHTTPS ipt tap addr s) = None \<and> copies (snd (RedirectGuestHTTPS ipt tap addr s)) =
      (copies s)(b := max 1 (copies s b), spec := max 1 (copies s spec), inp := max 1 (copies s inp))" for s
  proof -
    let ?s1 = "snd (ensure_rule ipt ''-I'' b s)"
    let ?s2 = "snd (ensure_rule ipt ''-A'' spec ?s1)"
    have e: "copies ?s1 = (copies s)(b := max 1 (copies s b))"
      "fst (ensure_rule ipt ''-A'' spec ?s1)" "copies ?s2 = (copies ?s1)(spec := max 1 (copies ?s1 spec))"
      "fst (ensure_rule ipt ''-I'' inp ?s2)"
      "copies (snd (ensure_rule ipt ''-I'' inp ?s2)) = (copies ?s2)(inp := max 1 (copies ?s2 inp))"
      using ensure_once [OF assms(1)] by simp_all
    then show ?thesis using d
      by (auto simp: RedirectGuestHTTPS_def sp Let_def split: prod.split bool.split)
  qed
  have s1: "err = None" "copies s1 = (copies s)(b := 1, spec := 1, inp := 1)"
    using red [of s] assms(5) zero by simp_all
  have s2: "err2 = None" "copies s2 = copies s1" using red [of s1] assms(6) d by (simp_all add: s1 fun_eq_iff)
  have "copies (ClearGuestHTTPSRedirect ipt tap addr s2) = copies s"
    using assms(2) d l leg zero by (auto simp: ClearGuestHTTPSRedirect_def Let_def sp delete_times [OF assms(1)] s2 s1 fun_eq_iff)
  moreover have "copies s1 r = copies s r + (if r \<in> set (guest_rules tap addr) then 1 else 0)" for r
    using zero by (auto simp: s1 guest_rules_def sp)
  ultimately show ?thesis using s1(1) s2 by blast
qed

definition counting_iptables :: "(string list \<Rightarrow> nat) iptables" where
  "counting_iptables args rules =
     (case args of
        [] \<Rightarrow> (False, rules)
      | f # r \<Rightarrow>
          if f = ''-C'' then (0 < rules r, rules)
          else if f = ''-D'' then (0 < rules r, rules(r := rules r - 1))
          else (True, rules(r := rules r + 1)))"

lemma redirect_installed_once_and_cleared_witness:
  "let (e, s1) = RedirectGuestHTTPS counting_iptables ''tap0'' ''127.0.0.1:8743'' (\<lambda>r. if r = [''other''] then 1 else 0);
       (e2, s2) = RedirectGuestHTTPS counting_iptables ''tap0'' ''127.0.0.1:8743'' s1
   in e = None \<and> ClearGuestHTTPSRedirect counting_iptables ''tap0'' ''127.0.0.1:8743'' s2 =
        (\<lambda>r. if r = [''other''] then 1 else 0)"
proof -
  have m: "iptables_manual counting_iptables (\<lambda>s. s)"
    by (simp add: iptables_manual_def counting_iptables_def)
  have h: "\<forall>r \<in> set (the (legacyRedirectSpec ''tap0'' ''127.0.0.1:8743'') # guest_rules ''tap0'' ''127.0.0.1:8743'').
      (if r = [''other''] then 1 else 0) = (0 :: nat)" "0 < ListenPort ''127.0.0.1:8743''"
  proof -
    have a: "SplitListenAddr ''127.0.0.1:8743'' = (''127.0.0.1'', 8743)"
      "to_lower (trim_set {CHR ''['', CHR '']''} ''127.0.0.1'') = ''127.0.0.1''" by code_simp+
    show "0 < ListenPort ''127.0.0.1:8743''" by (simp add: ListenPort_def a)
    show "\<forall>r \<in> set (the (legacyRedirectSpec ''tap0'' ''127.0.0.1:8743'') # guest_rules ''tap0'' ''127.0.0.1:8743'').
      (if r = [''other''] then 1 else 0) = (0 :: nat)"
      by (simp add: guest_rules_def legacyRedirectSpec_def GuestHTTPSBypassSpec_def GuestHTTPSInputSpec_def
          GuestHTTPSRedirectSpec_def Let_def a)
  qed
  let ?s = "\<lambda>r :: string list. if r = [''other''] then 1 else (0 :: nat)"
  obtain e s1 where r1: "RedirectGuestHTTPS counting_iptables ''tap0'' ''127.0.0.1:8743'' ?s = (e, s1)" by fastforce
  obtain e2 s2 where r2: "RedirectGuestHTTPS counting_iptables ''tap0'' ''127.0.0.1:8743'' s1 = (e2, s2)" by fastforce
  have "e = None \<and> ClearGuestHTTPSRedirect counting_iptables ''tap0'' ''127.0.0.1:8743'' s2 = ?s"
    by (rule conjI [OF conjunct1], rule redirect_installed_once_and_cleared [OF m _ h(2) h(1) r1 r2], simp)
       (use redirect_installed_once_and_cleared [OF m _ h(2) h(1) r1 r2] in blast)
  then show ?thesis by (simp only: Let_def r1 r2 prod.case)
qed

end
