(* ===== verification/ActionsGateway.thy ===== *)
theory ActionsGateway
  imports ActionsRuns CacheNet "HOL-Library.Word"
begin

unbundle bit_operations_syntax

text \<open>
  \<open>internal/ghacache/gateway.go\<close>: the Actions cache service a guest's runner talks to. A guest is known by
  the address it connects from, which the agent binds to the job's repository. Request bodies come decoded
  (\<open>None\<close> for one that does not decode); the transport, the proxy for other paths, and the partial reads and
  headers of \<open>http.ServeContent\<close> are not modelled, nor paths that \<open>net/http\<close> cleans and redirects.
\<close>

section \<open>State\<close>

record Counters =
  ct_hits :: int
  ct_misses :: int
  ct_in :: int
  ct_out :: int

record ghaGateway =
  gg_store :: ghaStore
  gg_binds :: "(string \<times> string) list"
  gg_stats :: "(string \<times> Counters) list"

definition no_counters :: Counters where
  "no_counters = \<lparr> ct_hits = 0, ct_misses = 0, ct_in = 0, ct_out = 0 \<rparr>"

definition NewGateway :: "ghaStore \<Rightarrow> ghaGateway" where
  "NewGateway s = \<lparr> gg_store = s, gg_binds = [], gg_stats = [] \<rparr>"

definition BindRemote :: "string \<Rightarrow> string \<Rightarrow> ghaGateway \<Rightarrow> ghaGateway" where
  "BindRemote remote repo g =
     g\<lparr> gg_binds := AList.update (stripPort remote) repo (gg_binds g),
        gg_stats := (if map_of (gg_stats g) repo = None then AList.update repo no_counters (gg_stats g)
                     else gg_stats g) \<rparr>"

definition UnbindRemote :: "string \<Rightarrow> ghaGateway \<Rightarrow> ghaGateway" where
  "UnbindRemote remote g = g\<lparr> gg_binds := AList.delete (stripPort remote) (gg_binds g) \<rparr>"

definition repoOf :: "string \<Rightarrow> ghaGateway \<Rightarrow> string option" where
  "repoOf remote g =
     (case map_of (gg_binds g) (stripPort remote) of
        None \<Rightarrow> None
      | Some repo \<Rightarrow> if repo = '''' then None else Some repo)"

definition ensureStats :: "string \<Rightarrow> ghaGateway \<Rightarrow> Counters" where
  "ensureStats repo g = (case map_of (gg_stats g) repo of None \<Rightarrow> no_counters | Some c \<Rightarrow> c)"

definition set_stats :: "string \<Rightarrow> Counters \<Rightarrow> ghaGateway \<Rightarrow> ghaGateway" where
  "set_stats repo c g = g\<lparr> gg_stats := AList.update repo c (gg_stats g) \<rparr>"

definition TakeStats :: "string \<Rightarrow> ghaGateway \<Rightarrow> Counters \<times> ghaGateway" where
  "TakeStats repo g =
     (case map_of (gg_stats g) repo of
        None \<Rightarrow> (no_counters, g)
      | Some c \<Rightarrow> (c, set_stats repo no_counters g))"

definition addHit :: "string \<Rightarrow> int \<Rightarrow> ghaGateway \<Rightarrow> ghaGateway" where
  "addHit repo bytes g =
     (let c = ensureStats repo g
      in set_stats repo (c\<lparr> ct_hits := wrap64 (ct_hits c + 1), ct_out := wrap64 (ct_out c + bytes) \<rparr>) g)"

definition addMiss :: "string \<Rightarrow> ghaGateway \<Rightarrow> ghaGateway" where
  "addMiss repo g =
     (let c = ensureStats repo g in set_stats repo (c\<lparr> ct_misses := wrap64 (ct_misses c + 1) \<rparr>) g)"

definition addBytesIn :: "string \<Rightarrow> int \<Rightarrow> ghaGateway \<Rightarrow> ghaGateway" where
  "addBytesIn repo bytes g =
     (let c = ensureStats repo g in set_stats repo (c\<lparr> ct_in := wrap64 (ct_in c + bytes) \<rparr>) g)"

section \<open>Requests\<close>

datatype json_size = SizeAbsent | SizeNull | SizeNumber string | SizeText string | SizeOther

definition parseSize :: "json_size \<Rightarrow> int" where
  "parseSize raw =
     (case raw of
        SizeNumber t \<Rightarrow> (case atoi t of None \<Rightarrow> 0 | Some n \<Rightarrow> n)
      | SizeText t \<Rightarrow> (case atoi t of None \<Rightarrow> 0 | Some n \<Rightarrow> n)
      | _ \<Rightarrow> 0)"

record create_request =
  cr_key :: string
  cr_version :: string

record finalize_request =
  fr_key :: string
  fr_version :: string
  fr_size :: json_size
  fr_size_camel :: json_size

record get_request =
  gr_key :: string
  gr_version :: string
  gr_restore :: "string list"
  gr_restore_camel :: "string list"

datatype gateway_reply =
    Forbidden | BadRequest | ServerError | NotFound | MethodNotAllowed
  | NotCreated | UploadAt string | FinalizedAs int | Miss | FoundAt string string
  | Stored | Content string

definition blobURL :: "string \<Rightarrow> string" where
  "blobURL path = ''https://'' @ cacheBlobHost @ ''/c/'' @ path"

text \<open>\<open>sum8\<close> stands for the first eight bytes of the hash.\<close>

definition numericEntryID :: "(string \<Rightarrow> 64 word) \<Rightarrow> string \<Rightarrow> int" where
  "numericEntryID sum8 s =
     (let v = uint (sum8 s AND 0x7FFFFFFFFFFFFFFF) in if v = 0 then 1 else v)"

definition handleCreate ::
  "gotime \<Rightarrow> string option \<Rightarrow> string \<Rightarrow> create_request option \<Rightarrow> ghaGateway \<Rightarrow> gateway_reply \<times> ghaGateway" where
  "handleCreate now rid remote body g =
     (case repoOf remote g of
        None \<Rightarrow> (Forbidden, g)
      | Some repo \<Rightarrow>
          (case body of
             None \<Rightarrow> (BadRequest, g)
           | Some req \<Rightarrow>
               (case CreateUpload now rid repo (cr_key req) (cr_version req) (gg_store g) of
                  (r, s) \<Rightarrow>
                    ((case r of
                        Inr i \<Rightarrow> UploadAt (blobURL (''u/'' @ i))
                      | Inl e \<Rightarrow> if e = ErrExists then NotCreated else ServerError),
                     g\<lparr> gg_store := s \<rparr>))))"

definition handleFinalize ::
  "(string \<Rightarrow> string) \<Rightarrow> (string \<Rightarrow> 64 word) \<Rightarrow> gotime \<Rightarrow> (string \<Rightarrow> bool) \<Rightarrow> string \<Rightarrow> finalize_request option \<Rightarrow>
   ghaGateway \<Rightarrow> gateway_reply \<times> ghaGateway" where
  "handleFinalize sha sum8 now rm_ok remote body g =
     (case repoOf remote g of
        None \<Rightarrow> (Forbidden, g)
      | Some repo \<Rightarrow>
          (case body of
             None \<Rightarrow> (BadRequest, g)
           | Some req \<Rightarrow>
               (let n = parseSize (fr_size req);
                    declared = (if n = 0 then parseSize (fr_size_camel req) else n)
                in case Finalize sha now rm_ok repo (fr_key req) (fr_version req) declared (gg_store g) of
                     (Inl e, s) \<Rightarrow> (ServerError, g\<lparr> gg_store := s \<rparr>)
                   | (Inr m, s) \<Rightarrow>
                       (FinalizedAs (numericEntryID sum8 (cm_id m)),
                        addBytesIn repo (cm_size m) (g\<lparr> gg_store := s \<rparr>)))))"

definition handleGet ::
  "gotime \<Rightarrow> string \<Rightarrow> get_request option \<Rightarrow> ghaGateway \<Rightarrow> gateway_reply \<times> ghaGateway" where
  "handleGet now remote body g =
     (case repoOf remote g of
        None \<Rightarrow> (Forbidden, g)
      | Some repo \<Rightarrow>
          (case body of
             None \<Rightarrow> (BadRequest, g)
           | Some req \<Rightarrow>
               (let restore = (if gr_restore req = [] then gr_restore_camel req else gr_restore req)
                in case GetEntry now repo (gr_key req) restore (gr_version req) (gg_store g) of
                     (None, s) \<Rightarrow> (Miss, addMiss repo (g\<lparr> gg_store := s \<rparr>))
                   | (Some e, s) \<Rightarrow>
                       (FoundAt (cm_key e) (blobURL (''e/'' @ cm_id e)),
                        addHit repo (cm_size e) (g\<lparr> gg_store := s \<rparr>)))))"

text \<open>The block ids of an Azure block list, \<open><Latest>\<close> by \<open><Latest>\<close>.\<close>

function parseBlockList :: "string \<Rightarrow> string list" where
  "parseBlockList s =
     (case str_index s ''<Latest>'' of
        None \<Rightarrow> []
      | Some i \<Rightarrow>
          (let s1 = drop (i + 8) s in
           case str_index s1 ''</Latest>'' of
             None \<Rightarrow> []
           | Some j \<Rightarrow> take j s1 # parseBlockList (drop (j + 9) s1)))"
  by pat_completeness auto
termination
  by (relation "measure length") (auto dest: str_index_bound)

declare parseBlockList.simps [simp del]

text \<open>A blob path is \<open>u/<upload>\<close> or \<open>e/<entry>\<close>. Bodies are cut at 2 GiB.\<close>

definition max_body :: nat where "max_body = 2 * 2 ^ 30"

definition query_get :: "(string \<times> string) list \<Rightarrow> string \<Rightarrow> string" where
  "query_get q k = (case map_of q k of None \<Rightarrow> '''' | Some v \<Rightarrow> v)"

definition handleBlobPut ::
  "string \<Rightarrow> (string \<times> string) list \<Rightarrow> string \<Rightarrow> ghaGateway \<Rightarrow> gateway_reply \<times> ghaGateway" where
  "handleBlobPut i q body0 g =
     (let body = take max_body body0;
          (kind, rest, _) = str_cut i ''/''
      in if kind \<noteq> ''u'' then (NotFound, g)
         else if query_get q ''comp'' = ''block'' then
           (let blockID = query_get q ''blockid'' in
            if blockID = '''' then (BadRequest, g)
            else case AppendUpload rest blockID body (gg_store g) of
              (err, s) \<Rightarrow> (if err \<noteq> None then NotFound else Stored, g\<lparr> gg_store := s \<rparr>))
         else if query_get q ''comp'' = ''blocklist'' then
           (case CommitBlocks rest (parseBlockList body) (gg_store g) of
              (err, s) \<Rightarrow> (if err \<noteq> None then BadRequest else Stored, g\<lparr> gg_store := s \<rparr>))
         else
           (case WriteUpload rest body (gg_store g) of
              (err, s) \<Rightarrow> (if err \<noteq> None then NotFound else Stored, g\<lparr> gg_store := s \<rparr>)))"

definition handleBlobGet :: "string \<Rightarrow> ghaGateway \<Rightarrow> gateway_reply" where
  "handleBlobGet i g =
     (let (kind, rest, _) = str_cut i ''/''
      in if kind \<noteq> ''e'' then NotFound
         else case ReadBlob rest (gg_store g) of Inl e \<Rightarrow> NotFound | Inr data \<Rightarrow> Content data)"

definition handleBlob ::
  "http_method \<Rightarrow> string \<Rightarrow> (string \<times> string) list \<Rightarrow> string \<Rightarrow> ghaGateway \<Rightarrow> gateway_reply \<times> ghaGateway" where
  "handleBlob method url_path q body g =
     (let i = trim_prefix url_path ''/blob/'' in
      if i = '''' then (NotFound, g)
      else case method of
          PUT \<Rightarrow> handleBlobPut i q body g
        | GET \<Rightarrow> (handleBlobGet i g, g)
        | HEAD \<Rightarrow> (handleBlobGet i g, g)
        | _ \<Rightarrow> (MethodNotAllowed, g))"

definition handleAzureBlob ::
  "http_method \<Rightarrow> string \<Rightarrow> (string \<times> string) list \<Rightarrow> string \<Rightarrow> ghaGateway \<Rightarrow> gateway_reply \<times> ghaGateway" where
  "handleAzureBlob method url_path q body g =
     handleBlob method (''/blob/'' @ trim_prefix url_path ''/c/'') q body g"

definition twirpPrefix :: string where
  "twirpPrefix = ''/twirp/github.actions.results.api.v1.CacheService/''"

definition localCachePath :: "string \<Rightarrow> bool" where
  "localCachePath p \<longleftrightarrow> has_prefix p twirpPrefix \<or> has_prefix p ''/blob/'' \<or> has_prefix p ''/c/''"

datatype route = CreateRoute | FinalizeRoute | GetRoute | BlobRoute | AzureRoute | NoRoute | WrongMethod | ProxyRoute

definition Handler :: "http_method \<Rightarrow> string \<Rightarrow> route" where
  "Handler method p =
     (if \<not> localCachePath p then ProxyRoute
      else if has_prefix p ''/blob/'' then BlobRoute
      else if has_prefix p ''/c/'' then AzureRoute
      else
        let call = trim_prefix p twirpPrefix in
        if call \<notin> set [''CreateCacheEntry'', ''FinalizeCacheEntry'', ''FinalizeCacheEntryUpload'',
             ''GetCacheEntryDownloadURL''] then NoRoute
        else if method \<noteq> POST then WrongMethod
        else if call = ''CreateCacheEntry'' then CreateRoute
        else if call = ''GetCacheEntryDownloadURL'' then GetRoute
        else FinalizeRoute)"

section \<open>Block lists\<close>

text \<open>The body a client sends.\<close>

definition latest :: "string list \<Rightarrow> string" where
  "latest ids = concat (map (\<lambda>i. ''<Latest>'' @ i @ ''</Latest>'') ids)"

definition block_list_xml :: "string list \<Rightarrow> string" where
  "block_list_xml ids = ''<?xml version=\"1.0\" encoding=\"utf-8\"?><BlockList>'' @ latest ids @ ''</BlockList>''"

lemma parse_one:
  assumes "CHR ''<'' \<notin> set a" and "CHR ''<'' \<notin> set i"
  shows "parseBlockList (a @ ''<Latest>'' @ i @ ''</Latest>'' @ r) = i # parseBlockList r"
proof -
  have a: "str_index (a @ ''<Latest>'' @ i @ ''</Latest>'' @ r) ''<Latest>'' = Some (length a)"
    using str_index_skip [OF assms(1), of "''<Latest>'' @ i @ ''</Latest>'' @ r" "''Latest>''"]
      str_index_here [of "''<Latest>''" "i @ ''</Latest>'' @ r"] by simp
  have i: "str_index (i @ ''</Latest>'' @ r) ''</Latest>'' = Some (length i)"
    using str_index_skip [OF assms(2), of "''</Latest>'' @ r" "''/Latest>''"]
      str_index_here [of "''</Latest>''" r] by simp
  have d: "drop (length a + 8) (a @ ''<Latest>'' @ i @ ''</Latest>'' @ r) = i @ ''</Latest>'' @ r" by simp
  show ?thesis
    by (subst parseBlockList.simps) (simp only: a i d Let_def option.case, simp)
qed

lemma parse_latest:
  "\<forall>i \<in> set ids. CHR ''<'' \<notin> set i \<Longrightarrow> parseBlockList (latest ids @ ''</BlockList>'') = ids"
proof (induction ids)
  case Nil
  show ?case by (simp add: latest_def parseBlockList.simps has_prefix_def)
next
  case (Cons i ids)
  have "parseBlockList (latest (i # ids) @ ''</BlockList>'') = i # parseBlockList (latest ids @ ''</BlockList>'')"
    using parse_one [of "''''" i "latest ids @ ''</BlockList>''"] Cons.prems by (simp add: latest_def)
  then show ?case using Cons by simp
qed

lemma parse_block_list: "\<forall>i \<in> set ids. CHR ''<'' \<notin> set i \<Longrightarrow> parseBlockList (block_list_xml ids) = ids"
proof (cases ids)
  case Nil
  then show ?thesis by (simp add: block_list_xml_def latest_def parseBlockList.simps has_prefix_def)
next
  case (Cons i r)
  assume ids: "\<forall>i \<in> set ids. CHR ''<'' \<notin> set i"
  let ?head = "''<?xml version=\"1.0\" encoding=\"utf-8\"?><BlockList>''"
  have s: "str_index (?head @ latest ids @ ''</BlockList>'') ''<Latest>'' = Some (length ?head)"
    by (simp add: Cons latest_def has_prefix_def)
  have s0: "str_index (latest ids @ ''</BlockList>'') ''<Latest>'' = Some 0"
    by (simp add: Cons latest_def has_prefix_def)
  have d: "drop (length ?head + 8) (?head @ x) = drop 8 x" for x :: string by simp
  have "parseBlockList (?head @ latest ids @ ''</BlockList>'') = parseBlockList (latest ids @ ''</BlockList>'')"
    by (subst (1 2) parseBlockList.simps) (simp only: s s0 d option.case Let_def add_0)
  then show ?thesis using parse_latest [OF ids] by (simp add: block_list_xml_def)
qed

section \<open>A cache saved and restored through the gateway\<close>

lemma str_cut_kind: "c \<noteq> CHR ''/'' \<Longrightarrow> str_cut (c # CHR ''/'' # i) ''/'' = ([c], i, True)"
  by (simp add: str_cut_def has_prefix_def)

lemma azure_upload:
  "handleAzureBlob PUT (''/c/u/'' @ i) q body g = handleBlobPut (''u/'' @ i) q body g"
  "handleAzureBlob GET (''/c/e/'' @ i) q body g = (handleBlobGet (''e/'' @ i) g, g)"
  by (simp_all add: handleAzureBlob_def handleBlob_def trim_prefix_def has_prefix_def)

lemma put_block:
  "b \<noteq> '''' \<Longrightarrow> length d \<le> max_body \<Longrightarrow>
    snd (handleAzureBlob PUT (''/c/u/'' @ i) [(''comp'', ''block''), (''blockid'', b)] d g) =
      g\<lparr> gg_store := snd (AppendUpload i b d (gg_store g)) \<rparr>"
  unfolding azure_upload by (simp add: handleBlobPut_def str_cut_kind query_get_def Let_def split: prod.split)

lemma put_block_list:
  "length body \<le> max_body \<Longrightarrow>
    handleAzureBlob PUT (''/c/u/'' @ i) [(''comp'', ''blocklist'')] body g =
      (case CommitBlocks i (parseBlockList body) (gg_store g) of
         (err, s) \<Rightarrow> (if err \<noteq> None then BadRequest else Stored, g\<lparr> gg_store := s \<rparr>))"
  unfolding azure_upload by (simp add: handleBlobPut_def str_cut_kind query_get_def Let_def)

definition put_blocks :: "string \<Rightarrow> (string \<times> string) list \<Rightarrow> ghaGateway \<Rightarrow> ghaGateway" where
  "put_blocks i blocks g =
     fold (\<lambda>(b, d) g. snd (handleAzureBlob PUT (''/c/u/'' @ i) [(''comp'', ''block''), (''blockid'', b)] d g)) blocks g"

lemma put_blocks_eq:
  "\<forall>(b, d) \<in> set blocks. b \<noteq> '''' \<and> length d \<le> max_body \<Longrightarrow>
    put_blocks i blocks g = g\<lparr> gg_store := append_all i blocks (gg_store g) \<rparr>"
proof (induction blocks arbitrary: g)
  case (Cons x xs)
  obtain b d where x: "x = (b, d)" by fastforce
  have "put_blocks i (x # xs) g = put_blocks i xs (g\<lparr> gg_store := snd (AppendUpload i b d (gg_store g)) \<rparr>)"
    using Cons.prems put_block [of b d i g] by (simp add: put_blocks_def x)
  then show ?case using Cons by (simp add: x append_all_def)
qed (simp add: put_blocks_def append_all_def)

lemma repoOf_store [simp]:
  "repoOf remote (g\<lparr> gg_store := s \<rparr>) = repoOf remote g"
  "repoOf remote (addBytesIn repo n g) = repoOf remote g"
  by (simp_all add: repoOf_def addBytesIn_def set_stats_def Let_def)

lemma store_of_stats [simp]:
  "gg_store (addBytesIn repo n g) = gg_store g" "gg_store (addHit repo n g) = gg_store g"
  "gg_store (addMiss repo g) = gg_store g"
  by (simp_all add: addBytesIn_def addHit_def addMiss_def set_stats_def Let_def)


definition ex_gateway :: ghaGateway where
  "ex_gateway = BindRemote ''10.231.0.2:40000'' ''o/r'' (NewGateway ex_store)"

lemma ex_gateway_props:
  "gg_store ex_gateway = ex_store" "repoOf ''10.231.0.2:50000'' ex_gateway = Some ''o/r''"
  by (simp add: ex_gateway_def BindRemote_def NewGateway_def) code_simp


section \<open>What a guest can change\<close>

lemma CreateUpload_entries: "gs_entries (snd (CreateUpload now rid repo key version s)) = gs_entries s"
  by (simp add: CreateUpload_def Let_def split: option.split)

lemma handleCreate_entries: "gs_entries (gg_store (snd (handleCreate now rid remote body g))) = gs_entries (gg_store g)"
  by (simp add: handleCreate_def split_def CreateUpload_entries split: option.split)

lemma Finalize_entries:
  assumes "Finalize sha now rm_ok repo key version declared s = (r, s')" and "fst dir \<noteq> repo"
    and "map_of (gs_entries s') dir = Some x"
  shows "map_of (gs_entries s) dir = Some x"
  using assms(1)
proof (cases rule: Finalize_cases)
  case no_upload
  then show ?thesis using assms(3) by simp
next
  case (evicted up data m ok)
  have "map_of (gs_entries (promoted m data up s)) dir = Some x" by (rule evict_entries [OF evicted(4) assms(3)])
  moreover have "dir \<noteq> (cm_repo m, cm_id m)" using assms(2) evicted(3) by (auto simp: final_meta_def)
  ultimately show ?thesis by (simp add: promoted_def Let_def remember_fields update_conv')
qed

lemma GetEntry_entries:
  "fst dir \<noteq> repo \<Longrightarrow>
    map_of (gs_entries (snd (GetEntry now repo key restore version s))) dir = map_of (gs_entries s) dir"
  by (auto simp: GetEntry_def Let_def update_conv' split: option.split)

lemma handleBlobPut_entries: "gs_entries (gg_store (snd (handleBlobPut i q body g))) = gs_entries (gg_store g)"
  by (simp add: handleBlobPut_def AppendUpload_def CommitBlocks_def WriteUpload_def Let_def
      split: prod.split option.split)

text \<open>One request of a guest at the given address.\<close>

datatype guest_request =
    CreateReq "create_request option" | FinalizeReq "finalize_request option" | GetReq "get_request option"
  | BlobReq http_method string "(string \<times> string) list" string | AzureReq http_method string "(string \<times> string) list" string

definition serve_guest ::
  "(string \<Rightarrow> string) \<Rightarrow> (string \<Rightarrow> 64 word) \<Rightarrow> gotime \<Rightarrow> string option \<Rightarrow> (string \<Rightarrow> bool) \<Rightarrow> string \<Rightarrow>
   guest_request \<Rightarrow> ghaGateway \<Rightarrow> gateway_reply \<times> ghaGateway" where
  "serve_guest sha sum8 now rid rm_ok remote req g =
     (case req of
        CreateReq body \<Rightarrow> handleCreate now rid remote body g
      | FinalizeReq body \<Rightarrow> handleFinalize sha sum8 now rm_ok remote body g
      | GetReq body \<Rightarrow> handleGet now remote body g
      | BlobReq method p q body \<Rightarrow> handleBlob method p q body g
      | AzureReq method p q body \<Rightarrow> handleAzureBlob method p q body g)"

lemma handleBlob_entries: "gs_entries (gg_store (snd (handleBlob method p q body g))) = gs_entries (gg_store g)"
  by (simp add: handleBlob_def Let_def handleBlobPut_entries split: http_method.split)


text \<open>
  The address of an entry is not secret and not bound to a guest: whoever knows the names of repository,
  key and version computes it, and every guest, bound to any repository or to none, is served the contents.
\<close>

theorem entry_served_to_any_guest:
  assumes "cache_reachable sha (gg_store g)" and "no_collision sha"
    and "map_of (gs_entries (gg_store g)) (repo, entryID sha repo key version) = Some (m, data)"
  shows "\<forall>remote now rid rm_ok q body. fst (serve_guest sha sum8 now rid rm_ok remote
    (AzureReq GET (''/c/e/'' @ entryID sha repo key version) q body) g) = Content data"
proof -
  let ?i = "entryID sha repo key version"
  have ok: "store_ok sha (gg_store g)" by (rule reachable_ok [OF assms(1,2)])
  obtain e where "map_of (gs_idx (gg_store g)) ?i = Some e" "agree e (repo, ?i) m"
    using disk_okD(3) [OF store_okD(1) [OF ok] assms(3)] by auto
  then have "ReadBlob ?i (gg_store g) = Inr data"
    using agreeD(1) assms(3) by (fastforce simp: ReadBlob_def entry_path_def)
  then show ?thesis by (simp only: serve_guest_def guest_request.case azure_upload) (simp add: handleBlobGet_def str_cut_kind)
qed

lemma entry_served_to_any_guest_witness:
  "fst (serve_guest plain_hash (\<lambda>_. 0) 9 None (\<lambda>_. True) ''10.231.0.6:1''
     (AzureReq GET (''/c/e/'' @ entryID plain_hash ''o/r'' ''deps-1'' ''v'') [] '''') ex_gateway) = Content ''data'' \<and>
   repoOf ''10.231.0.6:1'' ex_gateway = None"
proof -
  have e: "map_option snd (map_of (gs_entries (gg_store ex_gateway)) (''o/r'', entryID plain_hash ''o/r'' ''deps-1'' ''v'')) =
      Some ''data''" by code_simp
  then obtain m where m: "map_of (gs_entries (gg_store ex_gateway)) (''o/r'', entryID plain_hash ''o/r'' ''deps-1'' ''v'') =
      Some (m, ''data'')" by auto
  have r: "repoOf ''10.231.0.6:1'' ex_gateway = None" by code_simp
  have reach: "cache_reachable plain_hash (gg_store ex_gateway)"
    using ex_store_reachable by (simp only: ex_gateway_props)
  show ?thesis using entry_served_to_any_guest [OF reach plain_hash_ok m] r by blast
qed


end
