(* ===== verification/ImageCache.thy ===== *)
theory ImageCache
  imports CacheIndex NetText
begin

text \<open>
  \<open>internal/ocicache/store.go\<close>: the host's cache of container images. The state is the index in memory and
  the files under the root: for each directory that holds a \<open>meta.json\<close>, its contents and the \<open>data\<close>
  beside it. Paths are lists of components, joined as \<open>filepath.Join\<close> does. The hash (its hexadecimal text),
  the clock and a disk that refuses a removal are arguments; other disk errors are not modelled. Where the
  code's order of eviction leaves a tie open, the model takes the order of the index.
\<close>

section \<open>Data\<close>

definition ScopePublic :: string where "ScopePublic = ''public''"
definition ScopeRepo :: string where "ScopeRepo = ''repo''"

record Manifest =
  mf_host :: string
  mf_name :: string
  mf_reference :: string
  mf_media :: string
  mf_digest :: string
  mf_body :: string
  mf_scope :: string
  mf_repo :: string

record blobMeta =
  bm_digest :: string
  bm_size :: int
  bm_scope :: string
  bm_repo :: string
  bm_created :: gotime
  bm_last :: gotime

record manifestMeta =
  mm_host :: string
  mm_name :: string
  mm_reference :: string
  mm_media :: string
  mm_digest :: string
  mm_size :: int
  mm_scope :: string
  mm_repo :: string
  mm_created :: gotime
  mm_last :: gotime

record ociIndexEnt =
  oe_path :: path
  oe_size :: int
  oe_last :: gotime

text \<open>A \<open>meta.json\<close> is written for a blob or for a manifest, and read as either.\<close>

datatype meta_json = BlobJson blobMeta | ManifestJson manifestMeta

definition as_blob :: "meta_json \<Rightarrow> blobMeta" where
  "as_blob j =
     (case j of
        BlobJson b \<Rightarrow> b
      | ManifestJson m \<Rightarrow>
          \<lparr> bm_digest = mm_digest m, bm_size = mm_size m, bm_scope = mm_scope m, bm_repo = mm_repo m,
            bm_created = mm_created m, bm_last = mm_last m \<rparr>)"

definition as_manifest :: "meta_json \<Rightarrow> manifestMeta" where
  "as_manifest j =
     (case j of
        ManifestJson m \<Rightarrow> m
      | BlobJson b \<Rightarrow>
          \<lparr> mm_host = '''', mm_name = '''', mm_reference = '''', mm_media = '''', mm_digest = bm_digest b,
            mm_size = bm_size b, mm_scope = bm_scope b, mm_repo = bm_repo b, mm_created = bm_created b,
            mm_last = bm_last b \<rparr>)"

record ociStore =
  os_root :: path
  os_max :: int
  os_idx :: "(path \<times> ociIndexEnt) list"
  os_total :: int
  os_files :: "(path \<times> meta_json \<times> string) list"

record ociRepoUsage =
  ou_repo :: string
  ou_bytes :: int
  ou_entries :: int
  ou_last :: gotime

record ociUsage =
  oci_bytes :: int
  oci_max :: int
  oci_entries :: int
  oci_repos :: "ociRepoUsage list"

datatype oci_error =
    ErrRepoName | ErrScope | ErrName | ErrHostReference | ErrNotSha256 | ErrDigestForm | ErrDigestMismatch
  | ErrNoFile | ErrDiskRemove

section \<open>Names and paths\<close>

definition oci_validateRepo :: "string \<Rightarrow> bool" where
  "oci_validateRepo repo \<longleftrightarrow>
     (let parts = split_on (CHR ''/'') (trim_space repo)
      in length parts = 2 \<and> list_all (\<lambda>p. p \<noteq> '''') parts \<and>
         list_all (\<lambda>p. p \<noteq> ''.'' \<and> p \<noteq> ''..'' \<and> CHR 0x5C \<notin> set p \<and> CHR '':'' \<notin> set p) parts)"

definition validateScopeRepo :: "string \<Rightarrow> string \<Rightarrow> oci_error option" where
  "validateScopeRepo scope repo =
     (if scope = ScopePublic then None
      else if scope = ScopeRepo then (if oci_validateRepo repo then None else Some ErrRepoName)
      else Some ErrScope)"

definition validateName :: "string \<Rightarrow> bool" where
  "validateName name0 \<longleftrightarrow>
     (let name = trim_space name0 in name \<noteq> '''' \<and> \<not> contains name ''..'' \<and> \<not> has_prefix name ''/'')"

definition is_hex :: "char \<Rightarrow> bool" where
  "is_hex c \<longleftrightarrow> (let n = (of_char c :: nat) in (48 \<le> n \<and> n \<le> 57) \<or> (97 \<le> n \<and> n \<le> 102))"

definition digestHex :: "string \<Rightarrow> oci_error + string" where
  "digestHex digest =
     (let d = to_lower (trim_space digest) in
      if \<not> has_prefix d ''sha256:'' then Inl ErrNotSha256
      else let h = drop 7 d in
        if length h \<noteq> 64 then Inl ErrDigestForm
        else if \<not> list_all is_hex h then Inl ErrDigestForm
        else Inr h)"

definition hex_char :: "nat \<Rightarrow> char" where
  "hex_char n = (if n < 10 then char_of (48 + n) else char_of (87 + n))"

definition hex_encode :: "string \<Rightarrow> string" where
  "hex_encode s = concat (map (\<lambda>c. let n = (of_char c :: nat) in [hex_char (n div 16), hex_char (n mod 16)]) s)"

definition blobDir :: "path \<Rightarrow> string \<Rightarrow> string \<Rightarrow> string \<Rightarrow> path" where
  "blobDir root scope repo hexPart =
     (if scope = ScopeRepo then path_join root [''blobs'', ''repos'', repo, ''sha256'', hexPart]
      else path_join root [''blobs'', ''public'', ''sha256'', hexPart])"

definition manifestDir :: "path \<Rightarrow> string \<Rightarrow> string \<Rightarrow> string \<Rightarrow> string \<Rightarrow> string \<Rightarrow> path" where
  "manifestDir root scope repo host name ref =
     (let safeRef = hex_encode ref in
      if scope = ScopeRepo then path_join root [''manifests'', ''repos'', repo, host, name, safeRef]
      else path_join root [''manifests'', ''public'', host, name, safeRef])"

section \<open>The index\<close>

definition json_use :: "meta_json \<Rightarrow> gotime \<times> int" where
  "json_use j =
     (if bm_digest (as_blob j) \<noteq> '''' then (bm_last (as_blob j), bm_size (as_blob j))
      else (mm_last (as_manifest j), mm_size (as_manifest j)))"

fun oci_rebuild_from ::
  "(path \<times> meta_json \<times> string) list \<Rightarrow> (path \<times> ociIndexEnt) list \<times> int \<Rightarrow> (path \<times> ociIndexEnt) list \<times> int" where
  "oci_rebuild_from [] acc = acc"
| "oci_rebuild_from ((dir, j, d) # r) (idx, t) =
     (case json_use j of
        (last_use, sz) \<Rightarrow>
          oci_rebuild_from r
            (AList.update dir \<lparr> oe_path = dir, oe_size = sz, oe_last = last_use \<rparr> idx, wrap64 (t + sz)))"

definition oci_rebuildIndex :: "ociStore \<Rightarrow> ociStore" where
  "oci_rebuildIndex s =
     (case oci_rebuild_from (os_files s) ([], 0) of (idx, t) \<Rightarrow> s\<lparr> os_idx := idx, os_total := t \<rparr>)"

definition oci_Open :: "path \<Rightarrow> int \<Rightarrow> (path \<times> meta_json \<times> string) list \<Rightarrow> ociStore" where
  "oci_Open dir max_bytes files =
     oci_rebuildIndex \<lparr> os_root = dir, os_max = (if max_bytes \<le> 0 then 100 * 2 ^ 30 else max_bytes),
       os_idx = [], os_total = 0, os_files = files \<rparr>"

definition file_at :: "path \<Rightarrow> ociStore \<Rightarrow> (meta_json \<times> string) option" where
  "file_at dir s = map_of (os_files s) dir"

definition write_file :: "path \<Rightarrow> meta_json \<Rightarrow> string \<Rightarrow> ociStore \<Rightarrow> ociStore" where
  "write_file dir j data s = s\<lparr> os_files := AList.update dir (j, data) (os_files s) \<rparr>"

definition touchBlobLocked :: "gotime \<Rightarrow> path \<Rightarrow> ociStore \<Rightarrow> ociStore" where
  "touchBlobLocked now dir s =
     (case file_at dir s of
        None \<Rightarrow> s
      | Some (j, data) \<Rightarrow> write_file dir (BlobJson ((as_blob j)\<lparr> bm_last := now \<rparr>)) data s)"

section \<open>Eviction\<close>

definition oci_before :: "path \<times> ociIndexEnt \<Rightarrow> path \<times> ociIndexEnt \<Rightarrow> bool" where
  "oci_before a b \<longleftrightarrow>
     (if oe_last (snd a) = oe_last (snd b) then oe_size (snd a) \<ge> oe_size (snd b)
      else oe_last (snd a) < oe_last (snd b))"

definition oci_victims :: "ociStore \<Rightarrow> (path \<times> int) list" where
  "oci_victims s = map (\<lambda>(p, e). (p, oe_size e)) (isort_by oci_before (os_idx s))"

definition oci_remove :: "path \<Rightarrow> ociStore \<Rightarrow> ociStore" where
  "oci_remove p s =
     s\<lparr> os_files := remove_all p (os_files s), os_idx := AList.delete p (os_idx s) \<rparr>"

definition oci_evict_with :: "(path \<Rightarrow> bool) \<Rightarrow> (path \<Rightarrow> bool) \<Rightarrow> ociStore \<Rightarrow> bool \<times> ociStore" where
  "oci_evict_with keep rm_ok s =
     (if os_total s \<le> os_max s then (True, s)
      else case evict_run (os_max s) keep rm_ok (oci_victims s) (os_total s) of
        (ks, t, ok) \<Rightarrow> (ok, (fold oci_remove ks s)\<lparr> os_total := t \<rparr>))"

definition oci_evictLocked :: "(path \<Rightarrow> bool) \<Rightarrow> ociStore \<Rightarrow> bool \<times> ociStore" where
  "oci_evictLocked rm_ok s = oci_evict_with (\<lambda>_. False) rm_ok s"

section \<open>Blobs\<close>

definition store_blob ::
  "gotime \<Rightarrow> (path \<Rightarrow> bool) \<Rightarrow> string \<Rightarrow> string \<Rightarrow> string \<Rightarrow> string \<Rightarrow> string \<Rightarrow> ociStore \<Rightarrow> oci_error option \<times> ociStore" where
  "store_blob now rm_ok scope repo digest hexPart data s =
     (let dir = blobDir (os_root s) scope repo hexPart;
          n = int (length data);
          m = \<lparr> bm_digest = digest, bm_size = n, bm_scope = scope, bm_repo = repo, bm_created = now, bm_last = now \<rparr>;
          s1 = write_file dir (BlobJson m) data s;
          s2 = s1\<lparr> os_idx := AList.update dir \<lparr> oe_path = dir, oe_size = n, oe_last = now \<rparr> (os_idx s1),
                   os_total := wrap64 (os_total s1 + n) \<rparr>
      in case oci_evictLocked rm_ok s2 of
           (ok, s3) \<Rightarrow> (if ok then None else Some ErrDiskRemove, s3))"

definition PutBlob ::
  "(string \<Rightarrow> string) \<Rightarrow> gotime \<Rightarrow> (path \<Rightarrow> bool) \<Rightarrow> string \<Rightarrow> string \<Rightarrow> string \<Rightarrow> string \<Rightarrow> ociStore \<Rightarrow>
   oci_error option \<times> ociStore" where
  "PutBlob sha now rm_ok scope repo digest data s =
     (case validateScopeRepo scope repo of
        Some e \<Rightarrow> (Some e, s)
      | None \<Rightarrow>
          (case digestHex digest of
             Inl e \<Rightarrow> (Some e, s)
           | Inr hexPart \<Rightarrow>
               if sha data \<noteq> hexPart then (Some ErrDigestMismatch, s)
               else store_blob now rm_ok scope repo digest hexPart data s))"

text \<open>The streamed variant reads at most 2 GiB.\<close>

definition max_blob :: nat where "max_blob = 2 * 2 ^ 30"

definition PutBlobFromReader ::
  "(string \<Rightarrow> string) \<Rightarrow> gotime \<Rightarrow> (path \<Rightarrow> bool) \<Rightarrow> string \<Rightarrow> string \<Rightarrow> string \<Rightarrow> string \<Rightarrow> ociStore \<Rightarrow>
   oci_error option \<times> ociStore" where
  "PutBlobFromReader sha now rm_ok scope repo digest input s =
     (case validateScopeRepo scope repo of
        Some e \<Rightarrow> (Some e, s)
      | None \<Rightarrow>
          (case digestHex digest of
             Inl e \<Rightarrow> (Some e, s)
           | Inr hexPart \<Rightarrow>
               (let data = take max_blob input in
                if sha data \<noteq> hexPart then (Some ErrDigestMismatch, s)
                else store_blob now rm_ok scope repo digest hexPart data s)))"

definition GetBlob :: "gotime \<Rightarrow> string \<Rightarrow> string \<Rightarrow> string \<Rightarrow> ociStore \<Rightarrow> (oci_error + string) \<times> ociStore" where
  "GetBlob now scope repo digest s =
     (case digestHex digest of
        Inl e \<Rightarrow> (Inl e, s)
      | Inr hexPart \<Rightarrow>
          (let dir = blobDir (os_root s) scope repo hexPart in
           case file_at dir s of
             None \<Rightarrow> (Inl ErrNoFile, s)
           | Some (j, data) \<Rightarrow> (Inr data, touchBlobLocked now dir s)))"

definition FindBlob :: "gotime \<Rightarrow> string \<Rightarrow> string \<Rightarrow> ociStore \<Rightarrow> string option \<times> ociStore" where
  "FindBlob now repo digest s =
     (case digestHex digest of
        Inl e \<Rightarrow> (None, s)
      | Inr hexPart \<Rightarrow>
          (let pub = blobDir (os_root s) ScopePublic '''' hexPart;
               own = blobDir (os_root s) ScopeRepo repo hexPart
           in if file_at pub s \<noteq> None then (Some ScopePublic, touchBlobLocked now pub s)
              else if repo \<noteq> '''' \<and> file_at own s \<noteq> None then (Some ScopeRepo, touchBlobLocked now own s)
              else (None, s)))"

definition OpenBlob :: "gotime \<Rightarrow> string \<Rightarrow> string \<Rightarrow> string \<Rightarrow> ociStore \<Rightarrow> (oci_error + string) \<times> ociStore" where
  "OpenBlob now scope repo digest s =
     (case digestHex digest of
        Inl e \<Rightarrow> (Inl e, s)
      | Inr hexPart \<Rightarrow>
          (let dir = blobDir (os_root s) scope repo hexPart;
               s1 = touchBlobLocked now dir s
           in case file_at dir s1 of
                None \<Rightarrow> (Inl ErrNoFile, s1)
              | Some (j, data) \<Rightarrow> (Inr data, s1)))"

section \<open>Manifests\<close>

definition PutManifest ::
  "gotime \<Rightarrow> (path \<Rightarrow> bool) \<Rightarrow> Manifest \<Rightarrow> ociStore \<Rightarrow> oci_error option \<times> ociStore" where
  "PutManifest now rm_ok m s =
     (case validateScopeRepo (mf_scope m) (mf_repo m) of
        Some e \<Rightarrow> (Some e, s)
      | None \<Rightarrow>
          if \<not> validateName (mf_name m) then (Some ErrName, s)
          else if mf_host m = '''' \<or> mf_reference m = '''' then (Some ErrHostReference, s)
          else (case digestHex (mf_digest m) of
            Inl e \<Rightarrow> (Some e, s)
          | Inr _ \<Rightarrow>
              (let meta = (\<lambda>ref. \<lparr> mm_host = mf_host m, mm_name = mf_name m, mm_reference = ref,
                     mm_media = mf_media m, mm_digest = mf_digest m, mm_size = int (length (mf_body m)),
                     mm_scope = mf_scope m, mm_repo = mf_repo m, mm_created = now, mm_last = now \<rparr>);
                   refs = (if mf_reference m \<noteq> mf_digest m then [mf_reference m, mf_digest m] else [mf_reference m]);
                   s1 = fold (\<lambda>ref s. write_file
                          (manifestDir (os_root s) (mf_scope m) (mf_repo m) (mf_host m) (mf_name m) ref)
                          (ManifestJson (meta ref)) (mf_body m) s) refs s
               in case oci_evictLocked rm_ok s1 of
                    (ok, s2) \<Rightarrow> (if ok then None else Some ErrDiskRemove, s2))))"

definition readManifestLocked ::
  "gotime \<Rightarrow> string \<Rightarrow> string \<Rightarrow> string \<Rightarrow> string \<Rightarrow> string \<Rightarrow> ociStore \<Rightarrow> Manifest option \<times> ociStore" where
  "readManifestLocked now scope repo host name reference s =
     (let dir = manifestDir (os_root s) scope repo host name reference in
      case file_at dir s of
        None \<Rightarrow> (None, s)
      | Some (j, raw) \<Rightarrow>
          (let meta = (as_manifest j)\<lparr> mm_last := now \<rparr> in
           (Some \<lparr> mf_host = mm_host meta, mf_name = mm_name meta, mf_reference = mm_reference meta,
               mf_media = mm_media meta, mf_digest = mm_digest meta, mf_body = raw, mf_scope = mm_scope meta,
               mf_repo = mm_repo meta \<rparr>,
            write_file dir (ManifestJson meta) raw s)))"

definition FindManifest ::
  "gotime \<Rightarrow> string \<Rightarrow> string \<Rightarrow> string \<Rightarrow> string \<Rightarrow> ociStore \<Rightarrow> Manifest option \<times> ociStore" where
  "FindManifest now repo host name reference s =
     (case readManifestLocked now ScopePublic '''' host name reference s of
        (Some m, s1) \<Rightarrow> (Some m, s1)
      | (None, s1) \<Rightarrow>
          if repo \<noteq> '''' then readManifestLocked now ScopeRepo repo host name reference s1 else (None, s1))"

section \<open>Inventory and deletion\<close>

definition oci_Repos :: "ociStore \<Rightarrow> string list" where
  "oci_Repos s =
     (let under = (\<lambda>top. filter (\<lambda>f. prefix (path_join (os_root s) [top, ''repos'']) (fst f)) (os_files s))
      in isort_by (\<lambda>a b. \<not> text_less b a)
           (remdups (filter (\<lambda>r. r \<noteq> '''')
             (map (\<lambda>(p, j, d). bm_repo (as_blob j)) (under ''blobs'') @
              map (\<lambda>(p, j, d). mm_repo (as_manifest j)) (under ''manifests'')))))"

text \<open>The namespace, size and last access a file counts for.\<close>

definition usage_item :: "meta_json \<Rightarrow> (string \<times> int \<times> gotime) option" where
  "usage_item j =
     (let b = as_blob j; m = as_manifest j in
      if bm_digest b \<noteq> '''' \<and> bm_size b > 0 then
        (let r = (if bm_scope b = ScopeRepo then bm_repo b else ''public'')
         in if r = '''' then None else Some (r, bm_size b, bm_last b))
      else if mm_digest m = '''' then None
      else
        (let r = (if mm_scope m = ScopeRepo then mm_repo m else ''public'')
         in if r = '''' then None else Some (r, mm_size m, mm_last m)))"

definition oci_usageLocked :: "ociStore \<Rightarrow> ociUsage" where
  "oci_usageLocked s =
     (let items = List.map_filter (\<lambda>(p, j, d). usage_item j) (os_files s);
          repos = isort_by (\<lambda>a b. \<not> text_less b a) (remdups (map fst items))
      in \<lparr> oci_bytes = wrap64 (sum_list (map (fst \<circ> snd) items)), oci_max = os_max s,
           oci_entries = int (length items),
           oci_repos = map (\<lambda>r. let own = filter (\<lambda>x. fst x = r) items in
             \<lparr> ou_repo = r, ou_bytes = wrap64 (sum_list (map (fst \<circ> snd) own)), ou_entries = int (length own),
               ou_last = fold (\<lambda>x t. if snd (snd x) > t then snd (snd x) else t) own zero_time \<rparr>) repos \<rparr>)"

text \<open>The removal of a whole tree, which the disk may refuse; the index is not touched.\<close>

definition oci_DeleteRepo ::
  "(path \<Rightarrow> bool) \<Rightarrow> string \<Rightarrow> ociStore \<Rightarrow> (int \<times> int \<times> oci_error option) \<times> ociStore" where
  "oci_DeleteRepo rm_ok repo s =
     (if \<not> oci_validateRepo repo then ((0, 0, Some ErrRepoName), s)
      else
        let (n, b) = (case find (\<lambda>ru. ou_repo ru = repo) (oci_repos (oci_usageLocked s)) of
                        None \<Rightarrow> (0, 0) | Some ru \<Rightarrow> (ou_entries ru, ou_bytes ru));
            blobs = path_join (os_root s) [''blobs'', ''repos'', repo];
            manifests = path_join (os_root s) [''manifests'', ''repos'', repo]
        in if \<not> rm_ok blobs then ((n, b, Some ErrDiskRemove), s)
           else
             let s1 = s\<lparr> os_files := remove_all blobs (os_files s) \<rparr>
             in if \<not> rm_ok manifests then ((n, b, Some ErrDiskRemove), s1)
                else ((n, b, None), s1\<lparr> os_files := remove_all manifests (os_files s1) \<rparr>))"

fun remove_trees :: "(path \<Rightarrow> bool) \<Rightarrow> path list \<Rightarrow> ociStore \<Rightarrow> oci_error option \<times> ociStore" where
  "remove_trees rm_ok [] s = (None, s)"
| "remove_trees rm_ok (p # ps) s =
     (if \<not> rm_ok p then (Some ErrDiskRemove, s)
      else remove_trees rm_ok ps (s\<lparr> os_files := remove_all p (os_files s) \<rparr>))"

definition oci_DeleteAll :: "(path \<Rightarrow> bool) \<Rightarrow> ociStore \<Rightarrow> (int \<times> int \<times> oci_error option) \<times> ociStore" where
  "oci_DeleteAll rm_ok s =
     (let u = oci_usageLocked s in
      case remove_trees rm_ok (map (\<lambda>top. path_join (os_root s) [top]) [''blobs'', ''manifests'', ''uploads'']) s of
        (err, s1) \<Rightarrow> ((oci_entries u, oci_bytes u, err), s1))"

end
