(* ===== verification/ImageRuns.thy ===== *)
theory ImageRuns
  imports ImageCache
begin

text \<open>
  The image cache over time: its eviction fulfils the contract of evicting stores, its paths stay where they
  belong, and what holds of every store reached from an empty directory by any calls and restarts.
\<close>

section \<open>The eviction contract\<close>

definition oci_index_ok :: "ociStore \<Rightarrow> bool" where
  "oci_index_ok s \<longleftrightarrow> distinct (map fst (os_idx s)) \<and> (\<forall>(p, e) \<in> set (os_idx s). oe_path e = p)"

definition oci_accessed :: "ociStore \<Rightarrow> path \<Rightarrow> int" where
  "oci_accessed s p = (case map_of (os_idx s) p of None \<Rightarrow> 0 | Some e \<Rightarrow> oe_last e)"

lemma oci_before_trans: "oci_before a b \<Longrightarrow> oci_before b c \<Longrightarrow> oci_before a c"
  by (auto simp: oci_before_def split: if_splits)

lemma oci_before_total: "oci_before a b \<or> oci_before b a"
  by (auto simp: oci_before_def)

lemma set_oci_victims: "set (oci_victims s) = (\<lambda>(p, e). (p, oe_size e)) ` set (os_idx s)"
  by (simp add: oci_victims_def)

lemma distinct_oci_victims: "distinct (map fst (os_idx s)) \<Longrightarrow> distinct (map fst (oci_victims s))"
  by (simp add: oci_victims_def split_def o_def)

lemma oci_remove_fields:
  "os_max (oci_remove p s) = os_max s" "os_root (oci_remove p s) = os_root s"
  "os_idx (oci_remove p s) = filter (\<lambda>x. fst x \<noteq> p) (os_idx s)"
  "file_at q (oci_remove p s) = (if prefix p q then None else file_at q s)"
  by (simp_all add: oci_remove_def AList.delete_eq split_def eq_commute file_at_def remove_all_at)

lemma fold_oci_remove:
  "os_max (fold oci_remove ks s) = os_max s" "os_root (fold oci_remove ks s) = os_root s"
  "os_idx (fold oci_remove ks s) = filter (\<lambda>x. fst x \<notin> set ks) (os_idx s)"
  "file_at q (fold oci_remove ks s) = (if \<exists>p \<in> set ks. prefix p q then None else file_at q s)"
proof (induction ks arbitrary: s)
  case (Cons k ks)
  case 1 show ?case by (simp add: Cons oci_remove_fields)
  case 2 show ?case by (simp add: Cons oci_remove_fields)
  case 3 show ?case by (simp add: Cons oci_remove_fields conj_commute)
  case 4 show ?case by (simp add: Cons oci_remove_fields)
qed simp_all


interpretation images: evicting_store oci_victims os_total os_max oci_evict_with oci_index_ok
proof
  fix s :: ociStore
  assume "oci_index_ok s"
  then show "distinct (map fst (oci_victims s))" by (simp add: oci_index_ok_def distinct_oci_victims)
next
  fix s s' :: ociStore and keep rm_ok ks t ok res
  assume g: "oci_index_ok s" and run: "evict_run (os_max s) keep rm_ok (oci_victims s) (os_total s) = (ks, t, ok)"
    and ev: "oci_evict_with keep rm_ok s = (res, s')"
  have idle: "os_total s \<le> os_max s \<Longrightarrow> ks = [] \<and> t = os_total s \<and> ok"
    using run by (cases "oci_victims s" rule: list.exhaust) auto
  have s': "s' = (fold oci_remove ks s)\<lparr> os_total := t \<rparr>" "res = ok"
    using ev run idle by (auto simp: oci_evict_with_def split: if_splits)
  have "set (oci_victims s') = set (without ks (oci_victims s))"
    by (force simp: s' set_oci_victims fold_oci_remove in_without image_iff)
  moreover have "oci_index_ok s'"
    using g by (simp add: oci_index_ok_def s' fold_oci_remove distinct_map_filter)
  ultimately show "res = ok \<and> oci_index_ok s' \<and> os_total s' = t \<and> os_max s' = os_max s \<and>
      set (oci_victims s') = set (without ks (oci_victims s))"
    by (simp add: s' fold_oci_remove)
qed

interpretation images_lru: lru_store oci_victims os_total os_max oci_evict_with oci_index_ok oci_accessed
proof
  fix s :: ociStore
  assume g: "oci_index_ok s"
  let ?xs = "isort_by oci_before (os_idx s)"
  have "sorted_wrt oci_before ?xs" by (rule sorted_isort_by [OF oci_before_trans oci_before_total])
  then have "sorted_wrt (\<lambda>a b. oci_accessed s (fst a) \<le> oci_accessed s (fst b)) ?xs"
  proof (rule sorted_wrt_mono_rel [rotated])
    fix a b
    assume ab: "a \<in> set ?xs" "b \<in> set ?xs" "oci_before a b"
    then have "map_of (os_idx s) (fst a) = Some (snd a)" "map_of (os_idx s) (fst b) = Some (snd b)"
      using g by (auto simp: oci_index_ok_def intro: map_of_is_SomeI)
    then show "oci_accessed s (fst a) \<le> oci_accessed s (fst b)"
      using ab(3) by (auto simp: oci_accessed_def oci_before_def split: if_splits)
  qed
  then show "sorted_wrt (\<lambda>x y. oci_accessed s (fst x) \<le> oci_accessed s (fst y)) (oci_victims s)"
    by (simp add: oci_victims_def sorted_wrt_map split_def)
qed

section \<open>Where blobs and manifests are\<close>

definition plain_oci_repo :: "string \<Rightarrow> bool" where
  "plain_oci_repo r \<longleftrightarrow> oci_validateRepo r \<and> trim_space r = r"

definition hex64 :: "string \<Rightarrow> bool" where
  "hex64 h \<longleftrightarrow> length h = 64 \<and> list_all is_hex h"

text \<open>A namespace as the gateway names it.\<close>

definition plain_scope :: "string \<Rightarrow> string \<Rightarrow> bool" where
  "plain_scope scope repo \<longleftrightarrow> scope = ScopePublic \<or> (scope = ScopeRepo \<and> plain_oci_repo repo)"

lemma digestHex_hex64: "digestHex d = Inr h \<Longrightarrow> hex64 h"
  by (auto simp: digestHex_def hex64_def Let_def split: if_splits)

lemma hex_no_slash: "list_all is_hex h \<Longrightarrow> CHR ''/'' \<notin> set h"
  by (auto simp: list_all_iff is_hex_def Let_def)

lemma split_hex: "hex64 h \<Longrightarrow> split_on (CHR ''/'') h = [h]" "hex64 h \<Longrightarrow> plain_component h"
  by (auto simp: hex64_def split_on_single hex_no_slash plain_component_def)

lemma split_repo:
  assumes "plain_oci_repo r"
  obtains a b where "split_on (CHR ''/'') r = [a, b]" "plain_component a" "plain_component b"
  using assms
  by (auto simp: plain_oci_repo_def oci_validateRepo_def Let_def plain_component_def length_Suc_conv
      numeral_2_eq_2)

lemma plain_tops: "plain_component ''blobs''" "plain_component ''manifests''" "plain_component ''repos''"
  "plain_component ''public''" "plain_component ''sha256''"
  by (simp_all add: plain_component_def)

lemma push_plain: "plain_component c \<Longrightarrow> path_push p c = p @ [c]"
  by (simp add: path_push_def plain_component_def)

lemmas join_simps = path_join_def split_hex plain_tops push_plain

lemma blobDir_public: "hex64 h \<Longrightarrow> blobDir root ScopePublic repo h = root @ [''blobs'', ''public'', ''sha256'', h]"
  by (simp add: blobDir_def ScopePublic_def ScopeRepo_def join_simps)

lemma blobDir_repo:
  assumes "hex64 h" and "plain_oci_repo repo"
  shows "blobDir root ScopeRepo repo h = root @ [''blobs'', ''repos''] @ split_on (CHR ''/'') repo @ [''sha256'', h]"
  by (rule split_repo [OF assms(2)])
     (use assms(1) in \<open>simp add: blobDir_def join_simps\<close>)

lemma blobDir_inject:
  assumes h: "hex64 h" "hex64 h'" and sc: "plain_scope scope repo" "plain_scope scope' repo'"
    and eq: "blobDir root scope repo h = blobDir root scope' repo' h'"
  shows "h = h' \<and> scope = scope' \<and> (scope = ScopeRepo \<longrightarrow> repo = repo')"
proof -
  have ne: "ScopePublic \<noteq> ScopeRepo" by (simp add: ScopePublic_def ScopeRepo_def)
  have two: "plain_oci_repo r \<Longrightarrow> \<exists>a b. split_on (CHR ''/'') r = [a, b]" for r
    by (rule split_repo) blast+
  consider "scope = ScopePublic" "scope' = ScopePublic"
    | "scope = ScopePublic" "scope' = ScopeRepo" "plain_oci_repo repo'"
    | "scope = ScopeRepo" "scope' = ScopePublic" "plain_oci_repo repo"
    | "scope = ScopeRepo" "scope' = ScopeRepo" "plain_oci_repo repo" "plain_oci_repo repo'"
    using sc by (auto simp: plain_scope_def)
  then show ?thesis
  proof cases
    case 1
    then show ?thesis using eq h ne by (simp add: blobDir_public)
  next
    case 2
    then show ?thesis using eq h two [OF 2(3)] by (auto simp: blobDir_public blobDir_repo)
  next
    case 3
    then show ?thesis using eq h two [OF 3(3)] by (auto simp: blobDir_public blobDir_repo)
  next
    case 4
    then have "split_on (CHR ''/'') repo @ [''sha256'', h] = split_on (CHR ''/'') repo' @ [''sha256'', h']"
      using eq h by (simp add: blobDir_repo)
    then have "split_on (CHR ''/'') repo = split_on (CHR ''/'') repo'" "h = h'"
      using two [OF 4(3)] two [OF 4(4)] by auto
    then show ?thesis using 4 by (auto dest: split_on_inject)
  qed
qed

lemma foldl_push_prefix: "''..'' \<notin> set cs \<Longrightarrow> prefix p (foldl path_push p cs)"
proof (induction cs arbitrary: p)
  case (Cons c cs)
  have "prefix p (path_push p c)" using Cons.prems by (auto simp: path_push_def)
  also have "prefix (path_push p c) (foldl path_push (path_push p c) cs)" using Cons by simp
  finally show ?case by simp
qed simp

text \<open>A name that holds no two dots in a row has no component that climbs, trimmed or not.\<close>

lemma space_no_dot: "\<forall>r \<in> set space_runes. CHR ''.'' \<notin> set r"
  by (simp add: space_runes_def)

lemma strip_runes_split:
  assumes "\<forall>r \<in> set rs. c \<notin> set r"
  obtains a where "s = a @ strip_runes rs s" "c \<notin> set a"
proof -
  have "\<exists>a. s = a @ strip_runes rs s \<and> c \<notin> set a"
    using assms
  proof (induction rs s rule: strip_runes.induct)
    case (1 rs s)
    show ?case
    proof (cases "find (\<lambda>r. r \<noteq> [] \<and> prefix r s) rs")
      case None
      then show ?thesis by (simp add: strip_runes.simps [of rs s])
    next
      case (Some r)
      then obtain a where a: "drop (length r) s = a @ strip_runes rs (drop (length r) s)" "c \<notin> set a"
        using "1.IH" "1.prems" by blast
      have r: "r \<in> set rs" "prefix r s" using find_SomeD [OF Some] by simp_all
      then have "s = r @ drop (length r) s" by (auto simp: prefix_def)
      then have "s = (r @ a) @ strip_runes rs s"
        using a(1) Some by (simp add: strip_runes.simps [of rs s])
      moreover have "c \<notin> set (r @ a)" using a(2) r(1) "1.prems" by auto
      ultimately show ?thesis by blast
    qed
  qed
  then show thesis using that by blast
qed

lemma trim_space_split:
  obtains a b where "s = a @ trim_space s @ b" "CHR ''.'' \<notin> set a" "CHR ''.'' \<notin> set b"
proof -
  obtain a where a: "s = a @ trim_left s" "CHR ''.'' \<notin> set a"
    by (rule strip_runes_split [OF space_no_dot, of s]) (simp add: trim_left_def)
  have "\<forall>r \<in> set (map rev space_runes). CHR ''.'' \<notin> set r" using space_no_dot by simp
  then obtain b where b: "rev (trim_left s) = b @ strip_runes (map rev space_runes) (rev (trim_left s))" "CHR ''.'' \<notin> set b"
    by (rule strip_runes_split)
  have "trim_left s = rev (rev (trim_left s))" by simp
  also have "\<dots> = trim_space s @ rev b"
    by (subst b(1)) (simp add: trim_space_def trim_right_def)
  finally show thesis using that [of a "rev b"] a b(2) by simp
qed

lemma dots_inside:
  assumes "a @ t @ b = x @ ''..'' @ y" and "CHR ''.'' \<notin> set a" "CHR ''.'' \<notin> set b"
  obtains u v where "t = u @ ''..'' @ v"
proof -
  have "length a \<le> length x"
  proof (rule ccontr)
    assume "\<not> length a \<le> length x"
    then have "(a @ t @ b) ! length x \<in> set a" by (simp add: nth_append)
    then show False using assms(1,2) by (simp add: nth_append)
  qed
  then have x: "x = a @ drop (length a) x"
    using arg_cong [OF assms(1), of "take (length a)"] by (metis append_eq_conv_conj append_take_drop_id take_append diff_is_0_eq take_0 append_Nil2)
  then obtain u where u: "x = a @ u" by blast
  then have u: "x = a @ u" "t @ b = u @ ''..'' @ y" using assms(1) by simp_all
  obtain v where "t = (u @ ''..'') @ v"
  proof (cases "length u + 2 \<le> length t")
    case True
    then have "take (length u + 2) (t @ b) = take (length u + 2) t" by simp
    then have "take (length u + 2) t = u @ ''..''" by (simp add: u(2))
    then have "t = (u @ ''..'') @ drop (length u + 2) t" by (metis append_take_drop_id)
    then show thesis using that by blast
  next
    case False
    then have "(t @ b) ! (length u + 1) = b ! (length u + 1 - length t)" by (simp add: nth_append)
    moreover have "(t @ b) ! (length u + 1) = CHR ''.''" by (simp add: u(2) nth_append)
    moreover have "length u + 1 < length (t @ b)" by (simp only: u(2)) simp
    then have "length u + 1 - length t < length b" using False by simp
    ultimately have "CHR ''.'' \<in> set b" by (metis nth_mem)
    then show thesis using assms(3) by blast
  qed
  then show thesis using that [of u v] by simp
qed

lemma validName_plain:
  assumes "validateName name"
  shows "''..'' \<notin> set (split_on (CHR ''/'') name)"
proof
  assume "''..'' \<in> set (split_on (CHR ''/'') name)"
  then obtain x y where "name = x @ ''..'' @ y" using split_on_sub by blast
  moreover obtain a b where ab: "name = a @ trim_space name @ b" "CHR ''.'' \<notin> set a" "CHR ''.'' \<notin> set b"
    by (rule trim_space_split)
  ultimately obtain u v where "trim_space name = u @ ''..'' @ v"
    using dots_inside [of a "trim_space name" b x y] by metis
  then show False using assms contains_sub [of u "''..''" v] by (simp add: validateName_def Let_def)
qed

text \<open>A manifest that passes the checks goes under the manifests.\<close>

lemma hex_encode_chars: "list_all is_hex (hex_encode s)"
proof -
  have "is_hex (hex_char n)" if "n < 16" for n
    using that by (simp add: is_hex_def hex_char_def Let_def of_char_of take_bit_eq_mod)
  moreover have "(of_char c :: nat) div 16 < 16" "(of_char c :: nat) mod 16 < 16" for c
    using nat_of_char_less_256 [of c] by (simp_all add: less_mult_imp_div_less)
  ultimately have "list_all is_hex (let n = (of_char c :: nat) in [hex_char (n div 16), hex_char (n mod 16)])" for c
    by (simp add: Let_def)
  then show ?thesis by (induction s) (simp_all add: hex_encode_def)
qed

lemma hex_encode_component:
  "split_on (CHR ''/'') (hex_encode s) = [hex_encode s]" "hex_encode s \<noteq> ''..''"
proof -
  show "split_on (CHR ''/'') (hex_encode s) = [hex_encode s]"
    by (rule split_on_single [OF hex_no_slash [OF hex_encode_chars]])
  have "\<not> list_all is_hex ''..''" by (simp add: is_hex_def Let_def)
  then show "hex_encode s \<noteq> ''..''" using hex_encode_chars [of s] by metis
qed

lemma manifestDir_under:
  assumes "plain_scope scope repo" and "validateName name" and "CHR ''/'' \<notin> set host" "host \<noteq> ''..''"
  shows "prefix (root @ [''manifests'']) (manifestDir root scope repo host name ref)"
proof -
  note ref = hex_encode_component(1) [of ref] and ref' = hex_encode_component(2) [of ref]
  have host: "split_on (CHR ''/'') host = [host]" using assms(3) by (rule split_on_single)
  have name: "''..'' \<notin> set (split_on (CHR ''/'') name)" by (rule validName_plain [OF assms(2)])
  have repo: "''..'' \<notin> set (split_on (CHR ''/'') repo)" if "plain_oci_repo repo"
    by (rule split_repo [OF that]) (auto simp: plain_component_def)
  show ?thesis
  proof (cases "scope = ScopeRepo")
    case True
    then have "plain_oci_repo repo" using assms(1) by (auto simp: plain_scope_def ScopePublic_def ScopeRepo_def)
    then have "''..'' \<notin> set (''repos'' # split_on (CHR ''/'') repo @ [host] @ split_on (CHR ''/'') name @ [hex_encode ref])"
      using repo name ref' assms(4) by auto
    from foldl_push_prefix [OF this, of "root @ [''manifests'']"]
    show ?thesis by (simp add: manifestDir_def True join_simps host ref Let_def)
  next
    case False
    have "''..'' \<notin> set (''public'' # [host] @ split_on (CHR ''/'') name @ [hex_encode ref])"
      using name ref' assms(4) by auto
    from foldl_push_prefix [OF this, of "root @ [''manifests'']"]
    show ?thesis by (simp add: manifestDir_def False join_simps host ref Let_def)
  qed
qed

lemma blobDir_not_manifest:
  assumes "hex64 h" and "plain_scope scope repo"
  shows "\<not> prefix (root @ [''manifests'']) (blobDir root scope repo h)"
  using assms by (auto simp: plain_scope_def blobDir_public blobDir_repo prefix_def)

section \<open>Every run of the store\<close>

definition blobs_ok :: "(string \<Rightarrow> string) \<Rightarrow> ociStore \<Rightarrow> bool" where
  "blobs_ok sha s \<longleftrightarrow>
     (\<forall>scope repo h j d. hex64 h \<longrightarrow> plain_scope scope repo \<longrightarrow>
        file_at (blobDir (os_root s) scope repo h) s = Some (j, d) \<longrightarrow> sha d = h)"

text \<open>The files of the second store have the data they had in the first.\<close>

definition sub_data :: "ociStore \<Rightarrow> ociStore \<Rightarrow> bool" where
  "sub_data s s' \<longleftrightarrow> os_root s' = os_root s \<and>
     (\<forall>p j d. file_at p s' = Some (j, d) \<longrightarrow> (\<exists>j0. file_at p s = Some (j0, d)))"

lemma sub_data_refl [simp]: "sub_data s s"
  by (simp add: sub_data_def)

lemma sub_data_trans: "sub_data a b \<Longrightarrow> sub_data b c \<Longrightarrow> sub_data a c"
  unfolding sub_data_def by metis

lemma blobs_ok_sub: "blobs_ok sha s \<Longrightarrow> sub_data s s' \<Longrightarrow> blobs_ok sha s'"
  unfolding blobs_ok_def sub_data_def by metis

lemma file_at_simps [simp]:
  "file_at p (s\<lparr> os_total := t \<rparr>) = file_at p s" "file_at p (s\<lparr> os_idx := i \<rparr>) = file_at p s"
  "file_at p (write_file q j d s) = (if p = q then Some (j, d) else file_at p s)"
  by (simp_all add: file_at_def write_file_def update_conv')

lemma write_file_fields [simp]:
  "os_root (write_file q j d s) = os_root s" "os_idx (write_file q j d s) = os_idx s"
  "os_total (write_file q j d s) = os_total s" "os_max (write_file q j d s) = os_max s"
  by (simp_all add: write_file_def)

lemma sub_data_touch: "sub_data s (touchBlobLocked now p s)"
  by (auto simp: touchBlobLocked_def sub_data_def split: option.split)

lemma sub_data_read: "sub_data s (snd (readManifestLocked now scope repo host name ref s))"
  by (auto simp: readManifestLocked_def sub_data_def Let_def split: option.split)

lemma sub_data_find: "sub_data s (snd (FindManifest now repo host name ref s))"
proof -
  obtain m s1 where r: "readManifestLocked now ScopePublic '''' host name ref s = (m, s1)" by fastforce
  then have "sub_data s s1" using sub_data_read [of s now ScopePublic "''''" host name ref] by simp
  then show ?thesis
    using sub_data_read [of s1 now ScopeRepo repo host name ref] sub_data_trans r
    by (auto simp: FindManifest_def split: option.split)
qed

lemma sub_data_evict: "oci_evictLocked rm_ok s = (ok, s') \<Longrightarrow> sub_data s s'"
  by (auto simp: oci_evictLocked_def oci_evict_with_def sub_data_def fold_oci_remove split: if_splits prod.splits)

lemma sub_data_remove: "sub_data s (s\<lparr> os_files := remove_all p (os_files s) \<rparr>)"
  by (auto simp: sub_data_def file_at_def remove_all_at split: if_splits)

lemma sub_data_delete: "sub_data s (snd (oci_DeleteRepo rm_ok repo s))"
  using sub_data_trans [OF sub_data_remove sub_data_remove]
  by (auto simp: oci_DeleteRepo_def Let_def sub_data_remove split: prod.split)

lemma sub_data_trees: "sub_data s (snd (remove_trees rm_ok ps s))"
proof (induction rm_ok ps s rule: remove_trees.induct)
  case (2 rm_ok p ps s)
  then show ?case using sub_data_trans [OF sub_data_remove] by auto
qed simp

text \<open>The index is only touched where a blob is stored, by eviction and by a restart.\<close>

lemma index_put: "oci_index_ok s \<Longrightarrow> oe_path e = p \<Longrightarrow> oci_index_ok (s\<lparr> os_idx := AList.update p e (os_idx s), os_total := t \<rparr>)"
  by (auto simp: oci_index_ok_def distinct_update dest!: in_set_update)

lemma index_files: "oci_index_ok (s\<lparr> os_files := f \<rparr>) = oci_index_ok s" "oci_index_ok (write_file p j d s) = oci_index_ok s"
  by (simp_all add: oci_index_ok_def write_file_def)

lemma index_evict: "oci_index_ok s \<Longrightarrow> oci_evictLocked rm_ok s = (ok, s') \<Longrightarrow> oci_index_ok s'"
  unfolding oci_evictLocked_def by (rule images.evict_cases)

lemma index_rebuild:
  "distinct (map fst idx) \<Longrightarrow> \<forall>(p, e) \<in> set idx. oe_path e = p \<Longrightarrow> oci_rebuild_from es (idx, t) = (idx', t') \<Longrightarrow>
    distinct (map fst idx') \<and> (\<forall>(p, e) \<in> set idx'. oe_path e = p)"
proof (induction es arbitrary: idx t)
  case (Cons x es)
  obtain dir j d where x: "x = (dir, j, d)" by (metis prod_cases3)
  obtain u n where j: "json_use j = (u, n)" by fastforce
  let ?idx = "AList.update dir \<lparr> oe_path = dir, oe_size = n, oe_last = u \<rparr> idx"
  have "distinct (map fst ?idx)" using Cons.prems(1) by (rule distinct_update)
  moreover have "\<forall>(p, e) \<in> set ?idx. oe_path e = p" using Cons.prems(2) by (auto dest!: in_set_update)
  ultimately show ?case using Cons.IH [of ?idx "wrap64 (t + n)"] Cons.prems(3) by (simp add: x j)
qed simp

lemma index_open: "oci_index_ok (oci_Open root mx files)"
proof -
  obtain idx t where "oci_rebuild_from files ([], 0) = (idx, t)" by fastforce
  then show ?thesis using index_rebuild [of "[]" files 0 idx t] by (simp add: oci_Open_def oci_rebuildIndex_def oci_index_ok_def)
qed

text \<open>What storing a blob does before it evicts.\<close>

lemma store_blob_cases:
  assumes "store_blob now rm_ok scope repo digest h data s = (r, s')"
  obtains s2 j ok where "oci_evictLocked rm_ok s2 = (ok, s')" "r = (if ok then None else Some ErrDiskRemove)"
    "os_root s2 = os_root s" "os_max s2 = os_max s" "oci_index_ok s \<Longrightarrow> oci_index_ok s2"
    "\<And>p. p \<noteq> blobDir (os_root s) scope repo h \<Longrightarrow> map_of (os_idx s2) p = map_of (os_idx s) p"
    "\<And>p. file_at p s2 = (if p = blobDir (os_root s) scope repo h then Some (j, data) else file_at p s)"
proof -
  let ?dir = "blobDir (os_root s) scope repo h"
  let ?m = "\<lparr> bm_digest = digest, bm_size = int (length data), bm_scope = scope, bm_repo = repo, bm_created = now, bm_last = now \<rparr>"
  let ?s1 = "write_file ?dir (BlobJson ?m) data s"
  let ?s2 = "?s1\<lparr> os_idx := AList.update ?dir \<lparr> oe_path = ?dir, oe_size = int (length data), oe_last = now \<rparr> (os_idx ?s1),
    os_total := wrap64 (os_total ?s1 + int (length data)) \<rparr>"
  obtain ok s3 where e: "oci_evictLocked rm_ok ?s2 = (ok, s3)" by fastforce
  have r: "s' = s3" "r = (if ok then None else Some ErrDiskRemove)" using assms e by (auto simp: store_blob_def Let_def)
  have "oci_index_ok ?s2" if "oci_index_ok s" using that by (intro index_put) (simp_all add: index_files)
  then show thesis using that [OF e [folded r(1)] r(2)] by (simp add: update_conv')
qed

lemma store_blob_ok:
  assumes "oci_index_ok s" "blobs_ok sha s" and "hex64 h" "plain_scope scope repo" "sha data = h"
    and "store_blob now rm_ok scope repo digest h data s = (r, s')"
  shows "oci_index_ok s' \<and> blobs_ok sha s'"
  using assms(6)
proof (rule store_blob_cases)
  let ?dir = "blobDir (os_root s) scope repo h"
  fix s2 j ok
  assume e: "oci_evictLocked rm_ok s2 = (ok, s')" and root: "os_root s2 = os_root s"
    and idx: "oci_index_ok s \<Longrightarrow> oci_index_ok s2"
    and at: "\<And>p. file_at p s2 = (if p = ?dir then Some (j, data) else file_at p s)"
  have "blobs_ok sha s2"
    unfolding blobs_ok_def
  proof (intro allI impI)
    fix scope' repo' h' j d
    assume p: "hex64 h'" "plain_scope scope' repo'" and f: "file_at (blobDir (os_root s2) scope' repo' h') s2 = Some (j, d)"
    show "sha d = h'"
    proof (cases "blobDir (os_root s) scope' repo' h' = ?dir")
      case True
      then have "h' = h" using blobDir_inject [OF p(1) assms(3) p(2) assms(4)] by blast
      then show ?thesis using f assms(5) True root at by simp
    next
      case False
      then show ?thesis using f p assms(2) root at by (simp add: blobs_ok_def)
    qed
  qed
  then show ?thesis
    using blobs_ok_sub sub_data_evict [OF e] index_evict [OF idx [OF assms(1)] e] by blast
qed


lemma PutBlob_ok:
  assumes "oci_index_ok s" "blobs_ok sha s" and "plain_scope scope repo"
  shows "PutBlob sha now rm_ok scope repo digest data s = (r, s') \<Longrightarrow> oci_index_ok s' \<and> blobs_ok sha s'"
    and "PutBlobFromReader sha now rm_ok scope repo digest data s = (r, s') \<Longrightarrow> oci_index_ok s' \<and> blobs_ok sha s'"
  using assms store_blob_ok [OF assms(1,2) digestHex_hex64 assms(3)]
  by (auto simp: PutBlob_def PutBlobFromReader_def Let_def split: option.splits sum.splits if_splits)

lemma write_manifest_ok:
  assumes "blobs_ok sha s" and "prefix (os_root s @ [''manifests'']) p"
  shows "blobs_ok sha (write_file p j d s)"
  unfolding blobs_ok_def
proof (intro allI impI)
  fix scope repo h j' d'
  assume h: "hex64 h" "plain_scope scope repo"
    and f: "file_at (blobDir (os_root (write_file p j d s)) scope repo h) (write_file p j d s) = Some (j', d')"
  have "blobDir (os_root s) scope repo h \<noteq> p" using blobDir_not_manifest [OF h] assms(2) by metis
  then show "sha d' = h" using f h assms(1) by (simp add: blobs_ok_def)
qed

lemma fold_write_ok:
  assumes "\<And>ref. prefix (os_root s @ [''manifests'']) (dir ref)"
  shows "oci_index_ok s \<Longrightarrow> blobs_ok sha s \<Longrightarrow>
    oci_index_ok (fold (\<lambda>ref s. write_file (dir ref) (j ref) d s) refs s) \<and>
    blobs_ok sha (fold (\<lambda>ref s. write_file (dir ref) (j ref) d s) refs s)"
  using assms
proof (induction refs arbitrary: s)
  case (Cons ref refs)
  show ?case
    using Cons.IH [of "write_file (dir ref) (j ref) d s"] Cons.prems write_manifest_ok [OF Cons.prems(2)]
    by (simp add: index_files)
qed simp

lemma fold_write_root:
  "fold (\<lambda>ref s. write_file (dir (os_root s) ref) (j ref) d s) refs s = fold (\<lambda>ref s. write_file (dir r ref) (j ref) d s) refs s"
  if "os_root s = r"
  using that by (induction refs arbitrary: s) simp_all

lemma PutManifest_ok:
  assumes "oci_index_ok s" "blobs_ok sha s" and "plain_scope (mf_scope m) (mf_repo m)"
    and "CHR ''/'' \<notin> set (mf_host m)" "mf_host m \<noteq> ''..''" and p: "PutManifest now rm_ok m s = (r, s')"
  shows "oci_index_ok s' \<and> blobs_ok sha s'"
proof (cases "validateName (mf_name m) \<and> s' \<noteq> s")
  case False
  then show ?thesis using p assms(1,2) by (auto simp: PutManifest_def split: option.splits if_splits)
next
  case True
  let ?dir = "\<lambda>root ref. manifestDir root (mf_scope m) (mf_repo m) (mf_host m) (mf_name m) ref"
  let ?j = "\<lambda>ref. ManifestJson \<lparr> mm_host = mf_host m, mm_name = mf_name m, mm_reference = ref,
    mm_media = mf_media m, mm_digest = mf_digest m, mm_size = int (length (mf_body m)),
    mm_scope = mf_scope m, mm_repo = mf_repo m, mm_created = now, mm_last = now \<rparr>"
  let ?refs = "if mf_reference m \<noteq> mf_digest m then [mf_reference m, mf_digest m] else [mf_reference m]"
  let ?s1 = "fold (\<lambda>ref s. write_file (?dir (os_root s) ref) (?j ref) (mf_body m) s) ?refs s"
  obtain ok s2 where e: "oci_evictLocked rm_ok ?s1 = (ok, s2)" by fastforce
  have s': "s' = s2" using True p e
    by (auto simp: PutManifest_def Let_def split: option.splits sum.splits if_splits)
  have "prefix (os_root s @ [''manifests'']) (?dir (os_root s) ref)" for ref
    using True by (intro manifestDir_under assms(3-5)) simp_all
  then have "oci_index_ok ?s1 \<and> blobs_ok sha ?s1"
    unfolding fold_write_root [OF refl, of ?dir] by (rule fold_write_ok [OF _ assms(1,2)])
  then show ?thesis
    using index_evict e blobs_ok_sub [OF _ sub_data_evict [OF e]] unfolding s' by blast
qed

lemma touch_index: "oci_index_ok (touchBlobLocked now p s) = oci_index_ok s"
  by (simp add: touchBlobLocked_def index_files split: option.split)

lemma read_index: "oci_index_ok (snd (readManifestLocked now scope repo host name ref s)) = oci_index_ok s"
  by (simp add: readManifestLocked_def Let_def index_files split: option.split)

lemma find_index: "oci_index_ok (snd (FindManifest now repo host name ref s)) = oci_index_ok s"
proof -
  obtain m s1 where r: "readManifestLocked now ScopePublic '''' host name ref s = (m, s1)" by fastforce
  then have "oci_index_ok s1 = oci_index_ok s" using read_index [of now ScopePublic "''''" host name ref s] by simp
  then show ?thesis using read_index [of now ScopeRepo repo host name ref s1] r
    by (simp add: FindManifest_def split: option.split)
qed

lemma delete_index: "oci_index_ok (snd (oci_DeleteRepo rm_ok repo s)) = oci_index_ok s"
  by (simp add: oci_DeleteRepo_def Let_def index_files split: prod.split)

lemma trees_index: "oci_index_ok (snd (remove_trees rm_ok ps s)) = oci_index_ok s"
  by (induction rm_ok ps s rule: remove_trees.induct) (auto simp: index_files)

lemma sub_data_reads:
  "sub_data s (snd (GetBlob now scope repo digest s))" "sub_data s (snd (FindBlob now repo digest s))"
  "sub_data s (snd (OpenBlob now scope repo digest s))"
  by (simp_all add: GetBlob_def FindBlob_def OpenBlob_def Let_def sub_data_touch split: sum.split option.split)

lemma index_reads:
  "oci_index_ok (snd (GetBlob now scope repo digest s)) = oci_index_ok s"
  "oci_index_ok (snd (FindBlob now repo digest s)) = oci_index_ok s"
  "oci_index_ok (snd (OpenBlob now scope repo digest s)) = oci_index_ok s"
  by (simp_all add: GetBlob_def FindBlob_def OpenBlob_def Let_def touch_index split: sum.split option.split)

lemma delete_all_trees:
  "snd (oci_DeleteAll rm_ok s) =
     snd (remove_trees rm_ok (map (\<lambda>top. path_join (os_root s) [top]) [''blobs'', ''manifests'', ''uploads'']) s)"
  by (simp add: oci_DeleteAll_def Let_def split_def)

text \<open>
  One call, or a restart with the directory as it is. Namespaces and hosts are as the gateway names them;
  the name and reference of a manifest that is looked up are whatever a guest sends.
\<close>

inductive oci_step :: "(string \<Rightarrow> string) \<Rightarrow> ociStore \<Rightarrow> ociStore \<Rightarrow> bool" for sha where
  o_put: "plain_scope scope repo \<Longrightarrow> PutBlob sha now rm_ok scope repo digest data s = (r, s') \<Longrightarrow> oci_step sha s s'"
| o_stream: "plain_scope scope repo \<Longrightarrow> PutBlobFromReader sha now rm_ok scope repo digest data s = (r, s') \<Longrightarrow>
    oci_step sha s s'"
| o_get: "oci_step sha s (snd (GetBlob now scope repo digest s))"
| o_find: "oci_step sha s (snd (FindBlob now repo digest s))"
| o_open: "oci_step sha s (snd (OpenBlob now scope repo digest s))"
| o_put_manifest: "plain_scope (mf_scope m) (mf_repo m) \<Longrightarrow> CHR ''/'' \<notin> set (mf_host m) \<Longrightarrow> mf_host m \<noteq> ''..'' \<Longrightarrow>
    PutManifest now rm_ok m s = (r, s') \<Longrightarrow> oci_step sha s s'"
| o_find_manifest: "oci_step sha s (snd (FindManifest now repo host name reference s))"
| o_delete: "oci_step sha s (snd (oci_DeleteRepo rm_ok repo s))"
| o_delete_all: "oci_step sha s (snd (oci_DeleteAll rm_ok s))"
| o_restart: "oci_step sha s (oci_Open (os_root s) mx (os_files s))"

lemma oci_step_ok:
  assumes "oci_step sha s s'" and "oci_index_ok s" "blobs_ok sha s"
  shows "oci_index_ok s' \<and> blobs_ok sha s'"
proof -
  have keep: "oci_index_ok s'' \<and> blobs_ok sha s''" if "sub_data s s''" "oci_index_ok s'' = oci_index_ok s" for s''
    using that assms(2) blobs_ok_sub [OF assms(3)] by simp
  show ?thesis
  using assms(1)
proof (cases rule: oci_step.cases)
  case (o_put scope repo now rm_ok digest data r)
  then show ?thesis using PutBlob_ok(1) [OF assms(2,3)] by blast
next
  case (o_stream scope repo now rm_ok digest data r)
  then show ?thesis using PutBlob_ok(2) [OF assms(2,3)] by blast
next
  case (o_get now scope repo digest)
  show ?thesis unfolding o_get by (rule keep [OF sub_data_reads(1) index_reads(1)])
next
  case (o_find now repo digest)
  show ?thesis unfolding o_find by (rule keep [OF sub_data_reads(2) index_reads(2)])
next
  case (o_open now scope repo digest)
  show ?thesis unfolding o_open by (rule keep [OF sub_data_reads(3) index_reads(3)])
next
  case (o_find_manifest now repo host name reference)
  show ?thesis unfolding o_find_manifest by (rule keep [OF sub_data_find find_index])
next
  case (o_delete rm_ok repo)
  show ?thesis unfolding o_delete by (rule keep [OF sub_data_delete delete_index])
next
  case (o_put_manifest m now rm_ok r)
  then show ?thesis using PutManifest_ok [OF assms(2,3)] by blast
next
  case o_delete_all
  then show ?thesis using keep [OF sub_data_trees trees_index] by (simp only: delete_all_trees)
next
  case (o_restart mx)
  have "sub_data s (oci_Open (os_root s) mx (os_files s))"
    by (auto simp: oci_Open_def oci_rebuildIndex_def sub_data_def file_at_def split: prod.split)
  then show ?thesis using o_restart index_open blobs_ok_sub [OF assms(3)] by simp
qed
qed

definition oci_reachable :: "(string \<Rightarrow> string) \<Rightarrow> ociStore \<Rightarrow> bool" where
  "oci_reachable sha s \<longleftrightarrow> (\<exists>root mx. (oci_step sha)\<^sup>*\<^sup>* (oci_Open root mx []) s)"

lemma oci_reachable_ok:
  assumes "oci_reachable sha s"
  shows "oci_index_ok s \<and> blobs_ok sha s"
proof -
  obtain root mx where "(oci_step sha)\<^sup>*\<^sup>* (oci_Open root mx []) s" using assms by (auto simp: oci_reachable_def)
  then show ?thesis
  proof (induction rule: rtranclp_induct)
    case base
    show ?case by (simp add: index_open) (simp add: blobs_ok_def file_at_def oci_Open_def oci_rebuildIndex_def)
  next
    case (step s s')
    then show ?case using oci_step_ok by blast
  qed
qed

lemma oci_reachable_step: "oci_reachable sha s \<Longrightarrow> oci_step sha s s' \<Longrightarrow> oci_reachable sha s'"
  unfolding oci_reachable_def by (meson rtranclp.rtrancl_into_rtrancl)

lemma oci_reachable_empty: "oci_reachable sha (oci_Open root mx [])"
  unfolding oci_reachable_def by blast

text \<open>
  C31. A blob the cache finds for a guest and opens in the namespace it was found in has, after any calls and
  restarts, contents whose hash is the digest that was asked for.
\<close>

theorem found_blob_matches_digest:
  assumes "oci_reachable sha s" and "repo = '''' \<or> plain_oci_repo repo"
    and "FindBlob t1 repo digest s = (Some scope, s1)"
    and "OpenBlob t2 scope (if scope = ScopePublic then '''' else repo) digest s1 = (Inr data, s2)"
  shows "digestHex digest = Inr (sha data)"
proof -
  have ok: "oci_index_ok s \<and> blobs_ok sha s" by (rule oci_reachable_ok [OF assms(1)])
  obtain h where h: "digestHex digest = Inr h" using assms(3) by (auto simp: FindBlob_def split: sum.splits)
  have s1: "blobs_ok sha s1" using blobs_ok_sub [of sha s s1] ok sub_data_reads(2) [of s t1 repo digest] assms(3) by simp
  have scope: "scope = ScopePublic \<or> scope = ScopeRepo \<and> repo \<noteq> ''''"
    using assms(3) by (auto simp: FindBlob_def h Let_def split: if_splits)
  let ?repo = "if scope = ScopePublic then '''' else repo"
  let ?dir = "blobDir (os_root s1) scope ?repo h"
  have p: "plain_scope scope ?repo" using scope assms(2) by (auto simp: plain_scope_def)
  obtain j where "file_at ?dir (touchBlobLocked t2 ?dir s1) = Some (j, data)"
    using assms(4) by (auto simp: OpenBlob_def h Let_def split: option.splits)
  then obtain j0 where "file_at ?dir s1 = Some (j0, data)"
    using sub_data_touch [of s1 t2 ?dir] unfolding sub_data_def by blast
  then show ?thesis using s1 p digestHex_hex64 [OF h] h by (simp add: blobs_ok_def)
qed

definition ex_sha :: "string \<Rightarrow> string" where
  "ex_sha data = (if length data = 6 then replicate 64 (CHR ''a'') else replicate 64 (CHR ''b''))"

definition digest_a :: string where "digest_a = ''sha256:'' @ replicate 64 (CHR ''a'')"

definition ex_images :: ociStore where
  "ex_images = snd (PutBlob ex_sha 5 (\<lambda>_. True) ScopeRepo ''o/r'' digest_a ''layer1'' (oci_Open [''var'', ''oci''] 10 []))"

lemma ex_images_reachable: "oci_reachable ex_sha ex_images"
proof -
  have "plain_scope ScopeRepo ''o/r''" by code_simp
  then show ?thesis
    unfolding ex_images_def by (rule oci_reachable_step [OF oci_reachable_empty o_put [OF _ prod.collapse [symmetric]]])
qed

lemma found_blob_matches_digest_witness:
  "digestHex digest_a = Inr (ex_sha ''layer1'') \<and> fst (FindBlob 7 ''o/r'' digest_a ex_images) = Some ScopeRepo"
proof -
  let ?f = "FindBlob 7 ''o/r'' digest_a ex_images"
  let ?o = "OpenBlob 8 ScopeRepo (if ScopeRepo = ScopePublic then '''' else ''o/r'') digest_a (snd ?f)"
  have p: "plain_oci_repo ''o/r''" by code_simp
  have f: "fst ?f = Some ScopeRepo" by code_simp
  have o1: "fst ?o = Inr ''layer1''" by code_simp
  have "?f = (Some ScopeRepo, snd ?f)" "?o = (Inr ''layer1'', snd ?o)" using f o1 by (metis prod.collapse)+
  from found_blob_matches_digest [OF ex_images_reachable disjI2 [OF p] this] show ?thesis using f by blast
qed

section \<open>Eviction and accounting\<close>



text \<open>
  Storing a blob that is already there counts its bytes again: with a limit of ten bytes, a blob of six that is
  stored a second time drives the total to twelve, and the blob that was just stored is evicted.
\<close>

lemma stored_again_evicts_itself:
  "(let (e, s) = PutBlob ex_sha 6 (\<lambda>_. True) ScopeRepo ''o/r'' digest_a ''layer1'' ex_images
    in e = None \<and> fst (FindBlob 7 ''o/r'' digest_a s) = None \<and> fst (FindBlob 7 ''o/r'' digest_a ex_images) = Some ScopeRepo)"
  by code_simp

text \<open>Reading does not refresh the index, so that eviction goes by the time a blob was stored.\<close>

lemma reads_leave_index:
  "os_idx (snd (FindBlob now repo digest s)) = os_idx s" "os_idx (snd (OpenBlob now scope repo digest s)) = os_idx s"
  by (simp_all add: FindBlob_def OpenBlob_def touchBlobLocked_def Let_def split: sum.split option.split)

text \<open>A manifest takes disk that the total does not have: neither the index nor the total changes.\<close>

lemma fold_write_fields:
  "os_idx (fold (\<lambda>ref s. write_file (d s ref) (j ref) b s) refs s) = os_idx s"
  "os_total (fold (\<lambda>ref s. write_file (d s ref) (j ref) b s) refs s) = os_total s"
  "os_max (fold (\<lambda>ref s. write_file (d s ref) (j ref) b s) refs s) = os_max s"
  by (induction refs arbitrary: s) simp_all

lemma manifests_are_not_counted:
  "os_total s \<le> os_max s \<Longrightarrow> PutManifest now rm_ok m s = (r, s') \<Longrightarrow> os_total s' = os_total s \<and> os_idx s' = os_idx s"
  by (auto simp: PutManifest_def Let_def oci_evictLocked_def oci_evict_with_def fold_write_fields
      split: option.splits sum.splits if_splits prod.splits)

section \<open>Private contents\<close>

text \<open>
  Storing a blob in one repository's namespace never makes a blob visible to another repository: what the
  other finds afterwards it found before.
\<close>

theorem private_blob_stays_private:
  assumes "plain_oci_repo owner" and "plain_oci_repo other" and "owner \<noteq> other"
    and "PutBlobFromReader sha now rm_ok ScopeRepo owner digest data s = (r, s')"
    and "fst (FindBlob t other wanted s') \<noteq> None"
  shows "fst (FindBlob t other wanted s) \<noteq> None"
proof (cases "s' = s")
  case False
  obtain h where h: "digestHex digest = Inr h" "store_blob now rm_ok ScopeRepo owner digest h (take max_blob data) s = (r, s')"
    using assms(4) False by (auto simp: PutBlobFromReader_def Let_def split: option.splits sum.splits if_splits)
  obtain w where w: "digestHex wanted = Inr w" using assms(5) by (auto simp: FindBlob_def split: sum.splits)
  let ?dir = "blobDir (os_root s) ScopeRepo owner h"
  have sc: "plain_scope ScopePublic ''''" "plain_scope ScopeRepo other" "plain_scope ScopeRepo owner"
    "ScopePublic \<noteq> ScopeRepo"
    using assms(1,2) by (simp_all add: plain_scope_def ScopePublic_def ScopeRepo_def)
  note inj = blobDir_inject [OF digestHex_hex64 [OF w] digestHex_hex64 [OF h(1)] _ sc(3), of _ _ "os_root s"]
  have ne: "blobDir (os_root s) ScopePublic '''' w \<noteq> ?dir" "blobDir (os_root s) ScopeRepo other w \<noteq> ?dir"
    using inj [OF sc(1)] inj [OF sc(2)] sc(4) assms(3) by blast+
  have "os_root s' = os_root s \<and> (\<forall>p. p \<noteq> ?dir \<longrightarrow> file_at p s' \<noteq> None \<longrightarrow> file_at p s \<noteq> None)"
    using h(2)
  proof (rule store_blob_cases)
    fix s2 j ok
    assume e: "oci_evictLocked rm_ok s2 = (ok, s')" and root: "os_root s2 = os_root s"
      and at: "\<And>p. file_at p s2 = (if p = ?dir then Some (j, take max_blob data) else file_at p s)"
    have sub: "sub_data s2 s'" by (rule sub_data_evict [OF e])
    have "file_at p s \<noteq> None" if p: "p \<noteq> ?dir" "file_at p s' \<noteq> None" for p
    proof -
      obtain j' d where "file_at p s' = Some (j', d)" using p(2) by auto
      then obtain j0 where "file_at p s2 = Some (j0, d)" using sub unfolding sub_data_def by blast
      then show ?thesis using at p(1) by simp
    qed
    then show ?thesis using sub root by (simp add: sub_data_def)
  qed
  then show ?thesis using assms(5) ne by (auto simp: FindBlob_def w Let_def split: if_splits)
qed (use assms(5) in simp)

lemma private_blob_stays_private_witness:
  "fst (FindBlob 9 ''o/fork'' digest_a ex_images) = None"
proof (rule ccontr)
  let ?s = "oci_Open [''var'', ''oci''] 10 []"
  have p: "plain_oci_repo ''o/r''" "plain_oci_repo ''o/fork''" by code_simp+
  have e: "PutBlobFromReader ex_sha 5 (\<lambda>_. True) ScopeRepo ''o/r'' digest_a ''layer1'' ?s =
      PutBlob ex_sha 5 (\<lambda>_. True) ScopeRepo ''o/r'' digest_a ''layer1'' ?s"
  proof -
    have "take max_blob ''layer1'' = ''layer1''" by (simp add: max_blob_def)
    then show ?thesis by (simp only: PutBlobFromReader_def PutBlob_def Let_def)
  qed
  have n: "fst (FindBlob 9 ''o/fork'' digest_a ?s) = None" by code_simp
  assume "\<not> ?thesis"
  then show False
    using private_blob_stays_private [OF p _ trans [OF e prod.collapse [symmetric]], of 9 digest_a] n
    by (simp add: ex_images_def)
qed

text \<open>
  A manifest in a repository's private namespace is read by any guest that asks for it under a name that
  climbs out of the public one: the lookup checks neither the name nor where the joined path ends.
\<close>

lemma manifest_read_by_climbing:
  assumes "plain_component host" and "CHR ''/'' \<notin> set host"
    and "file_at (manifestDir (os_root s) ScopeRepo victim host name ref) s = Some (j, raw)"
  shows "\<exists>m. fst (FindManifest now repo host (''../../repos/'' @ victim @ ''/'' @ host @ ''/'' @ name) ref s) = Some m \<and>
    mf_body m = raw"
proof -
  let ?name = "''../../repos/'' @ victim @ ''/'' @ host @ ''/'' @ name"
  have split3: "split_on (CHR ''/'') (a @ CHR ''/'' # b) = split_on (CHR ''/'') a @ split_on (CHR ''/'') b" for a b
    by (induction a) (auto split: list.split)
  have host: "split_on (CHR ''/'') host = [host]" using assms(2) by (rule split_on_single)
  have name: "split_on (CHR ''/'') ?name =
      [''..'', ''..'', ''repos''] @ split_on (CHR ''/'') victim @ [host] @ split_on (CHR ''/'') name"
    by (simp add: split3 host)
  have up: "path_push p ''..'' = butlast p" for p by (simp add: path_push_def)
  have pub: "ScopePublic \<noteq> ScopeRepo" by (simp add: ScopePublic_def ScopeRepo_def)
  have "manifestDir (os_root s) ScopePublic '''' host ?name ref = manifestDir (os_root s) ScopeRepo victim host name ref"
    by (simp only: manifestDir_def Let_def pub if_False if_True simp_thms path_join_def list.map concat.simps host name)
       (simp add: plain_tops push_plain [OF assms(1)] push_plain up butlast_append)
  then show ?thesis
    using assms(3) by (simp add: FindManifest_def readManifestLocked_def Let_def)
qed

definition ex_manifest :: Manifest where
  "ex_manifest = \<lparr> mf_host = ''ghcr.io'', mf_name = ''app'', mf_reference = ''latest'', mf_media = '''',
     mf_digest = digest_a, mf_body = ''{}'', mf_scope = ScopeRepo, mf_repo = ''o/r'' \<rparr>"

definition ex_private :: ociStore where
  "ex_private = snd (PutManifest 5 (\<lambda>_. True) ex_manifest (oci_Open [''var'', ''oci''] 10 []))"

lemma ex_private_file:
  obtains j where "file_at (manifestDir (os_root ex_private) ScopeRepo ''o/r'' ''ghcr.io'' ''app'' ''latest'') ex_private =
      Some (j, ''{}'')"
    "file_at (manifestDir (os_root ex_private) ScopePublic '''' ''ghcr.io'' ''app'' ''latest'') ex_private = None"
    "os_root ex_private = [''var'', ''oci'']"
proof -
  have v: "validateScopeRepo ScopeRepo ''o/r'' = None" "validateName ''app''" by code_simp+
  have d: "digestHex digest_a = Inr (replicate 64 (CHR ''a''))" by code_simp
  have ne: "ScopePublic \<noteq> ScopeRepo" by (simp add: ScopePublic_def ScopeRepo_def)
  have dirs: "manifestDir root ScopePublic '''' ''ghcr.io'' ''app'' ref \<noteq> manifestDir root ScopeRepo ''o/r'' ''ghcr.io'' ''app'' ref'"
    for root ref ref'
  proof
    have dots: "''..'' \<notin> set [''ghcr.io'', ''app'', hex_encode x]" for x
      using hex_encode_component(2) [of x] by auto
    have plain: "plain_component ''o''" "plain_component ''r''" by (simp_all add: plain_component_def)
    have pub: "prefix (root @ [''manifests'', ''public'']) (manifestDir root ScopePublic '''' ''ghcr.io'' ''app'' ref)"
      using foldl_push_prefix [OF dots [of ref], of "root @ [''manifests'', ''public'']"]
      by (simp add: manifestDir_def ne path_join_def hex_encode_component(1) plain_tops push_plain)
    have own: "prefix (root @ [''manifests'', ''repos'']) (manifestDir root ScopeRepo ''o/r'' ''ghcr.io'' ''app'' ref')"
      using foldl_push_prefix [OF dots [of ref'], of "root @ [''manifests'', ''repos'', ''o'', ''r'']"]
      by (simp add: manifestDir_def path_join_def hex_encode_component(1) plain_tops push_plain plain prefix_def) auto
    assume "manifestDir root ScopePublic '''' ''ghcr.io'' ''app'' ref = manifestDir root ScopeRepo ''o/r'' ''ghcr.io'' ''app'' ref'"
    then show False using prefix_same_cases [OF pub, of "root @ [''manifests'', ''repos'']"] own by auto
  qed
  have w: "os_root ex_private = [''var'', ''oci''] \<and>
      (\<exists>j. file_at (manifestDir [''var'', ''oci''] ScopeRepo ''o/r'' ''ghcr.io'' ''app'' ''latest'') ex_private = Some (j, ''{}'')) \<and>
      file_at (manifestDir [''var'', ''oci''] ScopePublic '''' ''ghcr.io'' ''app'' ''latest'') ex_private = None"
    by (simp add: ex_private_def PutManifest_def ex_manifest_def v d Let_def oci_evictLocked_def oci_evict_with_def
        fold_write_fields oci_Open_def oci_rebuildIndex_def dirs split: prod.split) (simp add: file_at_def)
  then show thesis using that by auto
qed

end
