(* ===== verification/ImageGateway.thy ===== *)
theory ImageGateway
  imports ImageRuns CacheNet
begin

text \<open>
  \<open>internal/ocicache/gateway.go\<close>: the registry endpoint a guest's Docker and BuildKit talk to, a pull-through
  cache in front of the real registry and a local store for build caches. The registry and its token service
  are arguments; requests and replies carry what the code reads of them. Temporary files and their errors
  are not modelled, an upload's file is part of its session.
\<close>

section \<open>Requests, replies, state\<close>

record oci_request =
  rq_method :: http_method
  rq_host :: string
  rq_sni :: string
  rq_path :: string
  rq_query :: string
  rq_digest :: string
  rq_accept :: string
  rq_auth :: string
  rq_type :: string
  rq_remote :: string
  rq_body :: string

record http_reply =
  hr_status :: int
  hr_headers :: "(string \<times> string) list"
  hr_body :: string

text \<open>A read of the registry: host, path, query, accepted types and authorization; or a request passed on.\<close>

datatype origin_call = OriginGet string string string string string | OriginForward oci_request

type_synonym origin = "origin_call \<Rightarrow> http_reply option"

record uploadSession =
  up_name :: string
  up_repo :: string
  up_data :: string

record ociGateway =
  og_store :: ociStore
  og_binds :: "(string \<times> string) list"
  og_uploads :: "(string \<times> uploadSession) list"

definition oci_NewGateway :: "ociStore \<Rightarrow> ociGateway" where
  "oci_NewGateway s = \<lparr> og_store = s, og_binds = [], og_uploads = [] \<rparr>"

definition oci_BindRemote :: "string \<Rightarrow> string \<Rightarrow> ociGateway \<Rightarrow> ociGateway" where
  "oci_BindRemote remote repo g = g\<lparr> og_binds := AList.update (stripPort remote) repo (og_binds g) \<rparr>"

definition oci_UnbindRemote :: "string \<Rightarrow> ociGateway \<Rightarrow> ociGateway" where
  "oci_UnbindRemote remote g = g\<lparr> og_binds := AList.delete (stripPort remote) (og_binds g) \<rparr>"

text \<open>The repository and whether there is one.\<close>

definition oci_repoOf :: "oci_request \<Rightarrow> ociGateway \<Rightarrow> string \<times> bool" where
  "oci_repoOf r g =
     (case map_of (og_binds g) (stripPort (rq_remote r)) of None \<Rightarrow> ('''', False) | Some repo \<Rightarrow> (repo, repo \<noteq> ''''))"

definition plain_reply :: "int \<Rightarrow> http_reply" where
  "plain_reply code = \<lparr> hr_status = code, hr_headers = [], hr_body = '''' \<rparr>"

definition header_get :: "(string \<times> string) list \<Rightarrow> string \<Rightarrow> string" where
  "header_get hs k = (case map_of hs k of None \<Rightarrow> '''' | Some v \<Rightarrow> v)"

definition copyHeader :: "(string \<times> string) list \<Rightarrow> (string \<times> string) list" where
  "copyHeader hs = filter (\<lambda>(k, v). \<not> equal_fold k ''Transfer-Encoding'' \<and> \<not> equal_fold k ''Connection'') hs"

section \<open>Paths\<close>

definition buildCachePrefix :: string where "buildCachePrefix = ''__temperci_cache/''"

definition IsBuildCacheName :: "string \<Rightarrow> bool" where
  "IsBuildCacheName name \<longleftrightarrow> has_prefix name buildCachePrefix"

datatype registry_path =
    RegistryBase | ManifestPath string string | BlobPath string string | UploadPath string string | TagsPath string

definition parseRegistryPath :: "string \<Rightarrow> registry_path option" where
  "parseRegistryPath url_path =
     (let p = trim_prefix url_path ''/'' in
      if p \<noteq> ''v2'' \<and> \<not> has_prefix p ''v2/'' then None
      else if p = ''v2'' \<or> p = ''v2/'' then Some RegistryBase
      else
        let rest = trim_prefix p ''v2/'' in
        if has_suffix rest ''/tags/list'' then Some (TagsPath (trim_suffix rest ''/tags/list''))
        else case str_index rest ''/manifests/'' of
            Some i \<Rightarrow> Some (ManifestPath (take i rest) (drop (i + length ''/manifests/'') rest))
          | None \<Rightarrow>
        (case str_index rest ''/blobs/uploads'' of
            Some i \<Rightarrow> Some (UploadPath (take i rest) (trim_prefix (drop (i + length ''/blobs/uploads'') rest) ''/''))
          | None \<Rightarrow>
        (case str_index rest ''/blobs/'' of
            Some i \<Rightarrow> Some (BlobPath (take i rest) (drop (i + length ''/blobs/'') rest))
          | None \<Rightarrow> None)))"

section \<open>The registry behind\<close>

definition anonymousToken :: "(string \<Rightarrow> string \<Rightarrow> string option) \<Rightarrow> string \<Rightarrow> string \<Rightarrow> string" where
  "anonymousToken source host name = (case source host name of None \<Rightarrow> '''' | Some tok \<Rightarrow> tok)"

definition doOrigin ::
  "origin \<Rightarrow> (string \<Rightarrow> string \<Rightarrow> string option) \<Rightarrow> oci_request \<Rightarrow> string \<Rightarrow> string \<Rightarrow> string \<Rightarrow> http_reply option" where
  "doOrigin origin source r name host authorization =
     (let auth = (if authorization \<noteq> '''' then authorization
                  else let tok = anonymousToken source host name in if tok \<noteq> '''' then ''Bearer '' @ tok else '''')
      in origin (OriginGet host (rq_path r) (rq_query r) (rq_accept r) auth))"

definition fetchOriginStream ::
  "origin \<Rightarrow> (string \<Rightarrow> string \<Rightarrow> string option) \<Rightarrow> oci_request \<Rightarrow> string \<Rightarrow> ociGateway \<Rightarrow> (http_reply \<times> string) option" where
  "fetchOriginStream origin source r name g =
     (let host = hostOf (rq_host r) (rq_sni r) in
      case doOrigin origin source r name host '''' of
        None \<Rightarrow> None
      | Some anon \<Rightarrow>
          if hr_status anon = 200 then Some (anon, ScopePublic)
          else
            (case oci_repoOf r g of
               (repo, bound) \<Rightarrow>
                 if (hr_status anon = 401 \<or> hr_status anon = 403) \<and> rq_auth r \<noteq> '''' \<and> bound \<and> repo \<noteq> '''' then
                   (case doOrigin origin source r name host (rq_auth r) of
                      None \<Rightarrow> None
                    | Some priv \<Rightarrow> Some (priv, ScopeRepo))
                 else Some (anon, ScopePublic)))"

text \<open>The body in memory, at most 2 GiB of it.\<close>

definition fetchOrigin ::
  "origin \<Rightarrow> (string \<Rightarrow> string \<Rightarrow> string option) \<Rightarrow> oci_request \<Rightarrow> string \<Rightarrow> ociGateway \<Rightarrow> (http_reply \<times> string) option" where
  "fetchOrigin origin source r name g =
     map_option (\<lambda>(a, scope). (a\<lparr> hr_body := take max_blob (hr_body a) \<rparr>, scope))
       (fetchOriginStream origin source r name g)"

definition proxy :: "origin \<Rightarrow> oci_request \<Rightarrow> http_reply" where
  "proxy origin r =
     (case origin (OriginForward r) of
        None \<Rightarrow> plain_reply 502
      | Some a \<Rightarrow> a\<lparr> hr_headers := copyHeader (hr_headers a) \<rparr>)"

section \<open>Manifests\<close>

definition body_unless_head :: "oci_request \<Rightarrow> string \<Rightarrow> string" where
  "body_unless_head r body = (if rq_method r = HEAD then '''' else body)"

definition writeManifest :: "oci_request \<Rightarrow> Manifest \<Rightarrow> http_reply" where
  "writeManifest r m =
     \<lparr> hr_status = 200,
       hr_headers = (if mf_media m \<noteq> '''' then [(''Content-Type'', mf_media m)] else []) @
         [(''Docker-Content-Digest'', mf_digest m), (''Content-Length'', itoa (int (length (mf_body m))))],
       hr_body = body_unless_head r (mf_body m) \<rparr>"

text \<open>The registry's answer, cached when it is a manifest.\<close>

definition relayManifest ::
  "(string \<Rightarrow> string) \<Rightarrow> gotime \<Rightarrow> (path \<Rightarrow> bool) \<Rightarrow> oci_request \<Rightarrow> string \<Rightarrow> string \<Rightarrow> http_reply \<Rightarrow> string \<Rightarrow>
   ociGateway \<Rightarrow> http_reply \<times> ociGateway" where
  "relayManifest sha now rm_ok r name ref a scope g =
     (let repo = fst (oci_repoOf r g) in
      if hr_status a \<noteq> 200 then
        (\<lparr> hr_status = hr_status a, hr_headers = copyHeader (hr_headers a),
           hr_body = body_unless_head r (hr_body a) \<rparr>, g)
      else if hr_body a = '''' then (plain_reply 502, g)
      else if scope = ScopeRepo \<and> repo = '''' then (plain_reply 401, g)
      else
        (let given = header_get (hr_headers a) ''Docker-Content-Digest'';
             digest = (if given = '''' then ''sha256:'' @ sha (hr_body a) else given);
             m = \<lparr> mf_host = hostOf (rq_host r) (rq_sni r), mf_name = name, mf_reference = ref,
                   mf_media = header_get (hr_headers a) ''Content-Type'', mf_digest = digest,
                   mf_body = hr_body a, mf_scope = scope, mf_repo = repo \<rparr>
         in (writeManifest r m, g\<lparr> og_store := snd (PutManifest now rm_ok m (og_store g)) \<rparr>)))"

text \<open>The registry gave no answer, or said that it failed.\<close>

definition origin_failed :: "(http_reply \<times> string) option \<Rightarrow> bool" where
  "origin_failed got = (case got of None \<Rightarrow> True | Some (a, _) \<Rightarrow> hr_status a \<ge> 500 \<or> hr_status a = 0)"

definition getManifest ::
  "(string \<Rightarrow> string) \<Rightarrow> origin \<Rightarrow> (string \<Rightarrow> string \<Rightarrow> string option) \<Rightarrow> gotime \<Rightarrow> (path \<Rightarrow> bool) \<Rightarrow> oci_request \<Rightarrow>
   string \<Rightarrow> string \<Rightarrow> ociGateway \<Rightarrow> http_reply \<times> ociGateway" where
  "getManifest sha origin source now rm_ok r name ref g =
     (let look = FindManifest now (fst (oci_repoOf r g)) (hostOf (rq_host r) (rq_sni r)) name ref in
      case look (og_store g) of
        (Some m, s1) \<Rightarrow> (writeManifest r m, g\<lparr> og_store := s1 \<rparr>)
      | (None, s1) \<Rightarrow>
          (let got = fetchOrigin origin source r name (g\<lparr> og_store := s1 \<rparr>) in
           case (if origin_failed got then look s1 else (None, s1)) of
             (Some m, s2) \<Rightarrow> (writeManifest r m, g\<lparr> og_store := s2 \<rparr>)
           | (None, s2) \<Rightarrow>
               (case got of
                  None \<Rightarrow> (plain_reply 502, g\<lparr> og_store := s2 \<rparr>)
                | Some (a, scope) \<Rightarrow> relayManifest sha now rm_ok r name ref a scope (g\<lparr> og_store := s2 \<rparr>))))"

definition putBuildManifest ::
  "(string \<Rightarrow> string) \<Rightarrow> gotime \<Rightarrow> (path \<Rightarrow> bool) \<Rightarrow> oci_request \<Rightarrow> string \<Rightarrow> string \<Rightarrow> ociGateway \<Rightarrow>
   http_reply \<times> ociGateway" where
  "putBuildManifest sha now rm_ok r name ref g =
     (case oci_repoOf r g of
        (repo, bound) \<Rightarrow>
          if \<not> bound then (plain_reply 403, g)
          else
            (let body = take (32 * 2 ^ 20) (rq_body r);
                 digest = ''sha256:'' @ sha body;
                 media = (if rq_type r = '''' then ''application/vnd.oci.image.manifest.v1+json'' else rq_type r);
                 m = \<lparr> mf_host = hostOf (rq_host r) (rq_sni r), mf_name = name, mf_reference = ref, mf_media = media,
                       mf_digest = digest, mf_body = body, mf_scope = ScopeRepo, mf_repo = repo \<rparr>
             in case PutManifest now rm_ok m (og_store g) of
                  (Some e, s) \<Rightarrow> (plain_reply 400, g\<lparr> og_store := s \<rparr>)
                | (None, s) \<Rightarrow>
                    (\<lparr> hr_status = 201,
                       hr_headers = [(''Docker-Content-Digest'', digest),
                         (''Location'', ''/v2/'' @ name @ ''/manifests/'' @ ref)],
                       hr_body = '''' \<rparr>, g\<lparr> og_store := s \<rparr>)))"

definition serveManifest ::
  "(string \<Rightarrow> string) \<Rightarrow> origin \<Rightarrow> (string \<Rightarrow> string \<Rightarrow> string option) \<Rightarrow> gotime \<Rightarrow> (path \<Rightarrow> bool) \<Rightarrow> oci_request \<Rightarrow>
   string \<Rightarrow> string \<Rightarrow> ociGateway \<Rightarrow> http_reply \<times> ociGateway" where
  "serveManifest sha origin source now rm_ok r name ref g =
     (if rq_method r = GET \<or> rq_method r = HEAD then getManifest sha origin source now rm_ok r name ref g
      else if rq_method r = PUT then
        (if \<not> IsBuildCacheName name then (proxy origin r, g) else putBuildManifest sha now rm_ok r name ref g)
      else (plain_reply 405, g))"

section \<open>Blobs\<close>

definition writeBlob ::
  "gotime \<Rightarrow> oci_request \<Rightarrow> string \<Rightarrow> string \<Rightarrow> string \<Rightarrow> ociGateway \<Rightarrow> http_reply \<times> ociGateway" where
  "writeBlob now r scope repo digest g =
     (case OpenBlob now scope (if scope = ScopePublic then '''' else repo) digest (og_store g) of
        (Inl e, s) \<Rightarrow> (plain_reply 404, g\<lparr> og_store := s \<rparr>)
      | (Inr data, s) \<Rightarrow>
          (\<lparr> hr_status = 200,
             hr_headers = [(''Content-Type'', ''application/octet-stream''), (''Docker-Content-Digest'', digest),
               (''Content-Length'', itoa (int (length data)))],
             hr_body = body_unless_head r data \<rparr>, g\<lparr> og_store := s \<rparr>))"

definition relayBlob ::
  "(string \<Rightarrow> string) \<Rightarrow> gotime \<Rightarrow> (path \<Rightarrow> bool) \<Rightarrow> oci_request \<Rightarrow> string \<Rightarrow> http_reply \<Rightarrow> string \<Rightarrow>
   ociGateway \<Rightarrow> http_reply \<times> ociGateway" where
  "relayBlob sha now rm_ok r digest a scope g =
     (let repo = fst (oci_repoOf r g) in
      if hr_status a \<noteq> 200 then
        (\<lparr> hr_status = hr_status a, hr_headers = copyHeader (hr_headers a),
           hr_body = body_unless_head r (hr_body a) \<rparr>, g)
      else if scope = ScopeRepo \<and> repo = '''' then (plain_reply 401, g)
      else
        (let len = header_get (hr_headers a) ''Content-Length'';
             data = take max_blob (hr_body a);
             reply = \<lparr> hr_status = 200,
               hr_headers = [(''Content-Type'', ''application/octet-stream''), (''Docker-Content-Digest'', digest)] @
                 (if len \<noteq> '''' then [(''Content-Length'', len)] else []),
               hr_body = body_unless_head r data \<rparr>
         in if rq_method r = HEAD then (reply, g)
            else (reply, g\<lparr> og_store :=
                   snd (PutBlobFromReader sha now rm_ok scope repo digest data (og_store g)) \<rparr>)))"

definition serveBlob ::
  "(string \<Rightarrow> string) \<Rightarrow> origin \<Rightarrow> (string \<Rightarrow> string \<Rightarrow> string option) \<Rightarrow> gotime \<Rightarrow> (path \<Rightarrow> bool) \<Rightarrow> oci_request \<Rightarrow>
   string \<Rightarrow> string \<Rightarrow> ociGateway \<Rightarrow> http_reply \<times> ociGateway" where
  "serveBlob sha origin source now rm_ok r name digest g =
     (if rq_method r \<noteq> GET \<and> rq_method r \<noteq> HEAD then (plain_reply 405, g)
      else
        let repo = fst (oci_repoOf r g) in
        case FindBlob now repo digest (og_store g) of
          (Some scope, s1) \<Rightarrow> writeBlob now r scope repo digest (g\<lparr> og_store := s1 \<rparr>)
        | (None, s1) \<Rightarrow>
            (let got = fetchOriginStream origin source r name (g\<lparr> og_store := s1 \<rparr>) in
             case (if origin_failed got then FindBlob now repo digest s1 else (None, s1)) of
               (Some scope, s2) \<Rightarrow> writeBlob now r scope repo digest (g\<lparr> og_store := s2 \<rparr>)
             | (None, s2) \<Rightarrow>
                 (case got of
                    None \<Rightarrow> (plain_reply 502, g\<lparr> og_store := s2 \<rparr>)
                  | Some (a, scope) \<Rightarrow> relayBlob sha now rm_ok r digest a scope (g\<lparr> og_store := s2 \<rparr>))))"

section \<open>Uploads of build caches\<close>

definition serveUpload ::
  "(string \<Rightarrow> string) \<Rightarrow> origin \<Rightarrow> gotime \<Rightarrow> string option \<Rightarrow> (path \<Rightarrow> bool) \<Rightarrow> oci_request \<Rightarrow> string \<Rightarrow> string \<Rightarrow>
   ociGateway \<Rightarrow> http_reply \<times> ociGateway" where
  "serveUpload sha origin now rid rm_ok r name uuid g =
     (if \<not> IsBuildCacheName name then (proxy origin r, g)
      else case oci_repoOf r g of
        (repo, bound) \<Rightarrow>
          if \<not> bound then (plain_reply 403, g)
          else case rq_method r of
            POST \<Rightarrow>
              (case rid of
                 None \<Rightarrow> (plain_reply 500, g)
               | Some i \<Rightarrow>
                   (\<lparr> hr_status = 202,
                      hr_headers = [(''Location'', ''/v2/'' @ name @ ''/blobs/uploads/'' @ i),
                        (''Docker-Upload-Uuid'', i), (''Range'', ''0-0'')],
                      hr_body = '''' \<rparr>,
                    g\<lparr> og_uploads := AList.update i \<lparr> up_name = name, up_repo = repo, up_data = '''' \<rparr> (og_uploads g) \<rparr>))
          | PATCH \<Rightarrow>
              (case map_of (og_uploads g) uuid of
                 None \<Rightarrow> (plain_reply 404, g)
               | Some up \<Rightarrow>
                   (let data = up_data up @ take max_blob (rq_body r) in
                    (\<lparr> hr_status = 202,
                       hr_headers = [(''Location'', ''/v2/'' @ name @ ''/blobs/uploads/'' @ uuid),
                         (''Docker-Upload-Uuid'', uuid), (''Range'', ''0-'' @ itoa (int (length data) - 1))],
                       hr_body = '''' \<rparr>,
                     g\<lparr> og_uploads := AList.update uuid (up\<lparr> up_data := data \<rparr>) (og_uploads g) \<rparr>)))
          | PUT \<Rightarrow>
              (case map_of (og_uploads g) uuid of
                 None \<Rightarrow> (plain_reply 404, g)
               | Some up \<Rightarrow>
                   (let g1 = g\<lparr> og_uploads := AList.delete uuid (og_uploads g) \<rparr>;
                        data = up_data up @ take max_blob (rq_body r); digest = rq_digest r
                    in if digest = '''' then (plain_reply 400, g1)
                       else case PutBlobFromReader sha now rm_ok ScopeRepo repo digest data (og_store g1) of
                         (Some e, s) \<Rightarrow> (plain_reply 400, g1\<lparr> og_store := s \<rparr>)
                       | (None, s) \<Rightarrow>
                           (\<lparr> hr_status = 201,
                              hr_headers = [(''Docker-Content-Digest'', digest),
                                (''Location'', ''/v2/'' @ name @ ''/blobs/'' @ digest)],
                              hr_body = '''' \<rparr>, g1\<lparr> og_store := s \<rparr>)))
          | _ \<Rightarrow> (plain_reply 405, g))"

definition serve ::
  "(string \<Rightarrow> string) \<Rightarrow> origin \<Rightarrow> (string \<Rightarrow> string \<Rightarrow> string option) \<Rightarrow> gotime \<Rightarrow> string option \<Rightarrow> (path \<Rightarrow> bool) \<Rightarrow>
   oci_request \<Rightarrow> ociGateway \<Rightarrow> http_reply \<times> ociGateway" where
  "serve sha origin source now rid rm_ok r g =
     (let (reply, g') =
        (case parseRegistryPath (rq_path r) of
           None \<Rightarrow> (plain_reply 404, g)
         | Some RegistryBase \<Rightarrow> (plain_reply 200, g)
         | Some (ManifestPath name ref) \<Rightarrow> serveManifest sha origin source now rm_ok r name ref g
         | Some (BlobPath name digest) \<Rightarrow> serveBlob sha origin source now rm_ok r name digest g
         | Some (UploadPath name uuid) \<Rightarrow> serveUpload sha origin now rid rm_ok r name uuid g
         | Some (TagsPath name) \<Rightarrow> (proxy origin r, g))
      in (reply\<lparr> hr_headers := (''Docker-Distribution-Api-Version'', ''registry/2.0'') # hr_headers reply \<rparr>, g'))"

section \<open>Tags are not refreshed\<close>

lemma getManifest_cached:
  assumes "FindManifest now (fst (oci_repoOf r g)) (hostOf (rq_host r) (rq_sni r)) name ref (og_store g) = (Some m, s1)"
  shows "getManifest sha origin source now rm_ok r name ref g = (writeManifest r m, g\<lparr> og_store := s1 \<rparr>)"
  unfolding getManifest_def Let_def assms by simp

text \<open>
  Once a manifest is cached for a tag, every later pull of that tag is answered from the cache and leaves
  the registry unasked, whatever the registry would answer by then: a moved tag is never seen until the
  entry is evicted or deleted.
\<close>

theorem cached_tag_never_refreshed:
  assumes "fst (FindManifest now (fst (oci_repoOf r g)) (hostOf (rq_host r) (rq_sni r)) name ref (og_store g)) = Some m"
    and "rq_method r = GET \<or> rq_method r = HEAD"
  shows "fst (serveManifest sha origin source now rm_ok r name ref g) = writeManifest r m \<and>
    snd (serveManifest sha origin source now rm_ok r name ref g) = snd (serveManifest sha (\<lambda>_. None) source now rm_ok r name ref g)"
proof -
  let ?f = "FindManifest now (fst (oci_repoOf r g)) (hostOf (rq_host r) (rq_sni r)) name ref (og_store g)"
  have "?f = (Some m, snd ?f)" using assms(1) by (metis prod.collapse)
  note getManifest_cached [OF this]
  then show ?thesis using assms(2) by (simp add: serveManifest_def)
qed

definition ex_request :: "http_method \<Rightarrow> string \<Rightarrow> string \<Rightarrow> oci_request" where
  "ex_request method url body = \<lparr> rq_method = method, rq_host = ''ghcr.io'', rq_sni = '''', rq_path = url, rq_query = '''',
     rq_digest = digest_a, rq_accept = '''', rq_auth = '''', rq_type = '''', rq_remote = ''10.231.0.2:40000'',
     rq_body = body \<rparr>"

definition ex_gateway_private :: ociGateway where
  "ex_gateway_private = oci_BindRemote ''10.231.0.2:1'' ''o/r'' (oci_NewGateway ex_private)"

lemma cached_tag_never_refreshed_witness:
  "hr_body (fst (serveManifest ex_sha (\<lambda>_. Some (plain_reply 200)) (\<lambda>_ _. None) 9 (\<lambda>_. True)
     (ex_request GET '''' '''') ''app'' ''latest'' ex_gateway_private)) = ''{}''"
proof -
  have s: "og_store ex_gateway_private = ex_private"
    by (simp add: ex_gateway_private_def oci_BindRemote_def oci_NewGateway_def)
  have h: "hostOf (rq_host (ex_request GET '''' '''')) (rq_sni (ex_request GET '''' '''')) = ''ghcr.io''" by code_simp
  have "stripPort ''10.231.0.2:1'' = ''10.231.0.2''" "stripPort ''10.231.0.2:40000'' = ''10.231.0.2''" by code_simp+
  then have r: "oci_repoOf (ex_request GET '''' '''') ex_gateway_private = (''o/r'', True)"
    by (simp add: oci_repoOf_def ex_request_def ex_gateway_private_def oci_BindRemote_def oci_NewGateway_def)
  obtain j where j: "file_at (manifestDir (os_root ex_private) ScopeRepo ''o/r'' ''ghcr.io'' ''app'' ''latest'') ex_private =
      Some (j, ''{}'')"
    "file_at (manifestDir (os_root ex_private) ScopePublic '''' ''ghcr.io'' ''app'' ''latest'') ex_private = None"
    using ex_private_file by metis
  have f: "map_option mf_body (fst (FindManifest 9 (fst (oci_repoOf (ex_request GET '''' '''') ex_gateway_private))
      (hostOf (rq_host (ex_request GET '''' '''')) (rq_sni (ex_request GET '''' ''''))) ''app'' ''latest''
      (og_store ex_gateway_private))) = Some ''{}''"
    using j by (simp add: s h r FindManifest_def readManifestLocked_def Let_def)
  then obtain m where m: "fst (FindManifest 9 (fst (oci_repoOf (ex_request GET '''' '''') ex_gateway_private))
      (hostOf (rq_host (ex_request GET '''' '''')) (rq_sni (ex_request GET '''' ''''))) ''app'' ''latest''
      (og_store ex_gateway_private)) = Some m" "mf_body m = ''{}''" by auto
  have "rq_method (ex_request GET '''' '''') = GET" by (simp add: ex_request_def)
  with cached_tag_never_refreshed [OF m(1)] m(2) show ?thesis
    by (simp add: writeManifest_def body_unless_head_def)
qed

section \<open>Names that climb\<close>

lemma parse_manifest_path:
  assumes "\<not> has_suffix (name @ ''/manifests/'' @ ref) ''/tags/list''"
    and "str_index (name @ ''/manifests/'' @ ref) ''/manifests/'' = Some (length name)"
  shows "parseRegistryPath (''/v2/'' @ name @ ''/manifests/'' @ ref) = Some (ManifestPath name ref)"
proof -
  have t: "trim_prefix (''/v2/'' @ x) ''/'' = ''v2/'' @ x" "trim_prefix (''v2/'' @ x) ''v2/'' = x" for x
    by (simp_all add: trim_prefix_def has_prefix_def)
  show ?thesis
    by (simp only: parseRegistryPath_def Let_def t assms option.case if_False simp_thms)
       (simp add: has_prefix_def)
qed

text \<open>
  A guest of another repository, or one that is bound to none, is served a manifest of a private namespace
  by asking for a name that climbs out of the public one.
\<close>

theorem private_manifest_served_by_climbing:
  fixes victim host name ref
  defines "climb \<equiv> ''../../repos/'' @ victim @ ''/'' @ host @ ''/'' @ name"
  assumes "plain_component host" and "CHR ''/'' \<notin> set host" and "hostOf (rq_host r) (rq_sni r) = host"
    and "file_at (manifestDir (os_root (og_store g)) ScopeRepo victim host name ref) (og_store g) = Some (j, raw)"
    and "rq_method r = GET" and "rq_path r = ''/v2/'' @ climb @ ''/manifests/'' @ ref"
    and "\<not> has_suffix (climb @ ''/manifests/'' @ ref) ''/tags/list''"
    and "str_index (climb @ ''/manifests/'' @ ref) ''/manifests/'' = Some (length climb)"
  shows "hr_status (fst (serve sha origin source now rid rm_ok r g)) = 200 \<and>
    hr_body (fst (serve sha origin source now rid rm_ok r g)) = raw"
proof -
  obtain m where m: "fst (FindManifest now (fst (oci_repoOf r g)) host climb ref (og_store g)) = Some m" "mf_body m = raw"
    using manifest_read_by_climbing [OF assms(2,3,5), of now "fst (oci_repoOf r g)"] unfolding climb_def by blast
  let ?f = "FindManifest now (fst (oci_repoOf r g)) host climb ref (og_store g)"
  have f: "?f = (Some m, snd ?f)" using m(1) by (metis prod.collapse)
  have "fst (serveManifest sha origin source now rm_ok r climb ref g) = writeManifest r m"
    using assms(4,6) getManifest_cached [of now r g climb ref m "snd ?f"] f by (simp add: serveManifest_def)
  then show ?thesis
    using parse_manifest_path [OF assms(8,9)] assms(6,7) m(2)
    by (simp add: serve_def split_def Let_def writeManifest_def body_unless_head_def)
qed

lemma private_manifest_served_by_climbing_witness:
  "hr_body (fst (serve ex_sha (\<lambda>_. None) (\<lambda>_ _. None) 9 None (\<lambda>_. True)
     (ex_request GET ''/v2/../../repos/o/r/ghcr.io/app/manifests/latest'' '''') (oci_NewGateway ex_private))) = ''{}''"
proof -
  let ?g = "oci_NewGateway ex_private"
  let ?r = "ex_request GET ''/v2/../../repos/o/r/ghcr.io/app/manifests/latest'' ''''"
  obtain j where j: "file_at (manifestDir (os_root (og_store ?g)) ScopeRepo ''o/r'' ''ghcr.io'' ''app'' ''latest'') (og_store ?g) =
      Some (j, ''{}'')"
    using ex_private_file by (metis oci_NewGateway_def ociGateway.select_convs(1))
  have h: "plain_component ''ghcr.io''" "CHR ''/'' \<notin> set ''ghcr.io''" "hostOf (rq_host ?r) (rq_sni ?r) = ''ghcr.io''"
    "rq_method ?r = GET" by code_simp+
  have p: "rq_path ?r = ''/v2/'' @ (''../../repos/'' @ ''o/r'' @ ''/'' @ ''ghcr.io'' @ ''/'' @ ''app'') @ ''/manifests/'' @ ''latest''"
    "\<not> has_suffix ((''../../repos/'' @ ''o/r'' @ ''/'' @ ''ghcr.io'' @ ''/'' @ ''app'') @ ''/manifests/'' @ ''latest'') ''/tags/list''"
    "str_index ((''../../repos/'' @ ''o/r'' @ ''/'' @ ''ghcr.io'' @ ''/'' @ ''app'') @ ''/manifests/'' @ ''latest'') ''/manifests/'' =
      Some (length (''../../repos/'' @ ''o/r'' @ ''/'' @ ''ghcr.io'' @ ''/'' @ ''app''))" by code_simp+
  show ?thesis using private_manifest_served_by_climbing [OF h(1,2,3) j h(4) p] by blast
qed

section \<open>Private contents stay in the guest's namespace\<close>

text \<open>Directories of one repository's private objects.\<close>

definition repo_dirs :: "path \<Rightarrow> string \<Rightarrow> path \<Rightarrow> bool" where
  "repo_dirs root repo p \<longleftrightarrow>
     prefix (root @ [''blobs'', ''repos''] @ split_on (CHR ''/'') repo) p \<or>
     prefix (root @ [''manifests'', ''repos''] @ split_on (CHR ''/'') repo) p"

text \<open>Every directory the second store has and the first has not is one of them.\<close>

definition new_in_repo :: "string \<Rightarrow> ociStore \<Rightarrow> ociStore \<Rightarrow> bool" where
  "new_in_repo repo s s' \<longleftrightarrow> os_root s' = os_root s \<and>
     (\<forall>p. file_at p s' = None \<or> file_at p s \<noteq> None \<or> repo_dirs (os_root s) repo p)"

lemma new_in_repo_refl [simp]: "new_in_repo repo s s"
  unfolding new_in_repo_def by blast

lemma new_in_repo_sub:
  assumes "sub_data s s'"
  shows "new_in_repo repo s s'"
proof -
  have "file_at p s \<noteq> None" if at: "file_at p s' \<noteq> None" for p
  proof -
    obtain x where "file_at p s' = Some x" using at by blast
    then have "file_at p s' = Some (fst x, snd x)" by simp
    then show ?thesis using assms unfolding sub_data_def by blast
  qed
  then show ?thesis using assms unfolding new_in_repo_def sub_data_def by blast
qed

lemma new_in_repo_trans: "new_in_repo repo a b \<Longrightarrow> new_in_repo repo b c \<Longrightarrow> new_in_repo repo a c"
  unfolding new_in_repo_def by metis

lemma new_in_repo_evict: "new_in_repo repo a b \<Longrightarrow> oci_evictLocked rm_ok b = (ok, c) \<Longrightarrow> new_in_repo repo a c"
  by (rule new_in_repo_trans [OF _ new_in_repo_sub [OF sub_data_evict]])

lemma new_in_repo_write: "repo_dirs (os_root s) repo p \<Longrightarrow> new_in_repo repo s (write_file p j d s)"
  unfolding new_in_repo_def by (metis file_at_simps(3) write_file_fields(1))

lemma new_in_repo_stream:
  assumes "plain_oci_repo repo"
  shows "new_in_repo repo s (snd (PutBlobFromReader sha now rm_ok ScopeRepo repo digest data s))"
proof (cases "snd (PutBlobFromReader sha now rm_ok ScopeRepo repo digest data s) = s")
  case False
  obtain r s' where p: "PutBlobFromReader sha now rm_ok ScopeRepo repo digest data s = (r, s')" by fastforce
  then obtain h where h: "digestHex digest = Inr h" "store_blob now rm_ok ScopeRepo repo digest h (take max_blob data) s = (r, s')"
    using False by (auto simp: PutBlobFromReader_def Let_def split: option.splits sum.splits if_splits)
  have dir: "repo_dirs (os_root s) repo (blobDir (os_root s) ScopeRepo repo h)"
    by (simp add: repo_dirs_def blobDir_repo [OF digestHex_hex64 [OF h(1)] assms])
  show ?thesis
    using h(2)
  proof (rule store_blob_cases)
    fix s2 j ok
    assume e: "oci_evictLocked rm_ok s2 = (ok, s')" and root: "os_root s2 = os_root s"
      and at: "\<And>p. file_at p s2 = (if p = blobDir (os_root s) ScopeRepo repo h then Some (j, take max_blob data) else file_at p s)"
    have "new_in_repo repo s s2" using dir root unfolding new_in_repo_def by (metis at)
    from new_in_repo_evict [OF this e] show ?thesis by (simp add: p)
  qed
qed simp

lemma new_in_repo_fold:
  assumes "\<And>ref. repo_dirs (os_root s) repo (dir ref)"
  shows "new_in_repo repo s (fold (\<lambda>ref s. write_file (dir ref) (j ref) d s) refs s)"
  using assms
proof (induction refs arbitrary: s)
  case (Cons ref refs)
  have "new_in_repo repo s (write_file (dir ref) (j ref) d s)" by (rule new_in_repo_write [OF Cons.prems])
  moreover have "new_in_repo repo (write_file (dir ref) (j ref) d s)
      (fold (\<lambda>ref s. write_file (dir ref) (j ref) d s) refs (write_file (dir ref) (j ref) d s))"
    using Cons.prems by (intro Cons.IH) simp
  ultimately show ?case using new_in_repo_trans by simp
qed simp

lemma manifestDir_in_repo:
  assumes "plain_oci_repo repo" and "validateName name" and "CHR ''/'' \<notin> set host" "host \<noteq> ''..''"
  shows "repo_dirs root repo (manifestDir root ScopeRepo repo host name ref)"
proof -
  note ref = hex_encode_component(1) [of ref] and ref' = hex_encode_component(2) [of ref]
  have host: "split_on (CHR ''/'') host = [host]" using assms(3) by (rule split_on_single)
  have "''..'' \<notin> set ([host] @ split_on (CHR ''/'') name @ [hex_encode ref])"
    using validName_plain [OF assms(2)] ref' assms(4) by auto
  from foldl_push_prefix [OF this, of "root @ [''manifests'', ''repos''] @ split_on (CHR ''/'') repo"]
  show ?thesis
    by (rule_tac split_repo [OF assms(1)]) (simp add: repo_dirs_def manifestDir_def join_simps host ref Let_def)
qed

lemma new_in_repo_manifest:
  assumes "plain_oci_repo (mf_repo m)" and "mf_scope m = ScopeRepo" and "CHR ''/'' \<notin> set (mf_host m)" "mf_host m \<noteq> ''..''"
  shows "new_in_repo (mf_repo m) s (snd (PutManifest now rm_ok m s))"
proof (cases "validateName (mf_name m) \<and> snd (PutManifest now rm_ok m s) \<noteq> s")
  case False
  moreover have "snd (PutManifest now rm_ok m s) = s" if "\<not> validateName (mf_name m)"
    using that by (simp add: PutManifest_def split: option.split)
  ultimately have "snd (PutManifest now rm_ok m s) = s" by blast
  then show ?thesis by simp
next
  case True
  let ?dir = "\<lambda>root ref. manifestDir root (mf_scope m) (mf_repo m) (mf_host m) (mf_name m) ref"
  let ?j = "\<lambda>ref. ManifestJson \<lparr> mm_host = mf_host m, mm_name = mf_name m, mm_reference = ref,
    mm_media = mf_media m, mm_digest = mf_digest m, mm_size = int (length (mf_body m)),
    mm_scope = mf_scope m, mm_repo = mf_repo m, mm_created = now, mm_last = now \<rparr>"
  let ?refs = "if mf_reference m \<noteq> mf_digest m then [mf_reference m, mf_digest m] else [mf_reference m]"
  let ?s1 = "fold (\<lambda>ref s. write_file (?dir (os_root s) ref) (?j ref) (mf_body m) s) ?refs s"
  obtain ok s2 where e: "oci_evictLocked rm_ok ?s1 = (ok, s2)" by fastforce
  have s': "snd (PutManifest now rm_ok m s) = s2" using True e
    by (auto simp: PutManifest_def Let_def split: option.splits sum.splits if_splits)
  have "repo_dirs (os_root s) (mf_repo m) (?dir (os_root s) ref)" for ref
    using True assms(2) manifestDir_in_repo [OF assms(1) _ assms(3,4)] by simp
  then have "new_in_repo (mf_repo m) s ?s1"
    unfolding fold_write_root [OF refl, of ?dir] by (rule new_in_repo_fold)
  from new_in_repo_evict [OF this e] show ?thesis by (simp only: s')
qed

lemma new_in_repo_step: "sub_data s s1 \<Longrightarrow> new_in_repo repo s1 s2 \<Longrightarrow> new_in_repo repo s s2"
  by (rule new_in_repo_trans [OF new_in_repo_sub])

lemma new_in_repo_then: "new_in_repo repo s s1 \<Longrightarrow> sub_data s1 s2 \<Longrightarrow> new_in_repo repo s s2"
  by (rule new_in_repo_trans [OF _ new_in_repo_sub])

text \<open>What the registry gives without the guest's credentials is not the object.\<close>

definition needs_credentials :: "origin \<Rightarrow> (string \<Rightarrow> string \<Rightarrow> string option) \<Rightarrow> oci_request \<Rightarrow> bool" where
  "needs_credentials origin source r \<longleftrightarrow>
     (\<forall>name a. doOrigin origin source r name (hostOf (rq_host r) (rq_sni r)) '''' = Some a \<longrightarrow> hr_status a \<noteq> 200)"

lemma fetch_scope:
  assumes "needs_credentials origin source r" and "fetchOriginStream origin source r name g = Some (a, scope)"
    and "hr_status a = 200"
  shows "scope = ScopeRepo \<and> fst (oci_repoOf r g) \<noteq> ''''"
  using assms by (auto simp: fetchOriginStream_def needs_credentials_def Let_def split: option.splits if_splits prod.splits)

lemma repoOf_of_store [simp]: "oci_repoOf r (g\<lparr> og_store := s \<rparr>) = oci_repoOf r g"
  by (simp add: oci_repoOf_def)

lemma relayManifest_new:
  assumes "hr_status a = 200 \<longrightarrow> scope = ScopeRepo" and "plain_oci_repo (fst (oci_repoOf r g))"
    and "CHR ''/'' \<notin> set (hostOf (rq_host r) (rq_sni r))" "hostOf (rq_host r) (rq_sni r) \<noteq> ''..''"
  shows "new_in_repo (fst (oci_repoOf r g)) (og_store g) (og_store (snd (relayManifest sha now rm_ok r name ref a scope g)))"
proof (cases "hr_status a = 200")
  case True
  let ?m = "\<lparr> mf_host = hostOf (rq_host r) (rq_sni r), mf_name = name, mf_reference = ref,
    mf_media = header_get (hr_headers a) ''Content-Type'',
    mf_digest = (if header_get (hr_headers a) ''Docker-Content-Digest'' = '''' then ''sha256:'' @ sha (hr_body a)
      else header_get (hr_headers a) ''Docker-Content-Digest''),
    mf_body = hr_body a, mf_scope = scope, mf_repo = fst (oci_repoOf r g) \<rparr>"
  have "new_in_repo (fst (oci_repoOf r g)) (og_store g) (snd (PutManifest now rm_ok ?m (og_store g)))"
    using new_in_repo_manifest [of ?m "og_store g" now rm_ok] assms True by simp
  then show ?thesis by (simp add: relayManifest_def Let_def)
qed (simp add: relayManifest_def Let_def)

lemma relayBlob_new:
  assumes "hr_status a = 200 \<longrightarrow> scope = ScopeRepo" and "plain_oci_repo (fst (oci_repoOf r g))"
  shows "new_in_repo (fst (oci_repoOf r g)) (og_store g) (og_store (snd (relayBlob sha now rm_ok r digest a scope g)))"
  using assms new_in_repo_stream [OF assms(2)] by (auto simp: relayBlob_def Let_def)

lemma fetched_scope:
  assumes "needs_credentials origin source r"
  shows "fetchOriginStream origin source r name g = Some (a, scope) \<Longrightarrow> hr_status a = 200 \<longrightarrow> scope = ScopeRepo"
    and "fetchOrigin origin source r name g = Some (a, scope) \<Longrightarrow> hr_status a = 200 \<longrightarrow> scope = ScopeRepo"
  using fetch_scope [OF assms] by (auto simp: fetchOrigin_def)

lemma getManifest_new:
  assumes "needs_credentials origin source r" and "plain_oci_repo (fst (oci_repoOf r g))"
    and "CHR ''/'' \<notin> set (hostOf (rq_host r) (rq_sni r))" "hostOf (rq_host r) (rq_sni r) \<noteq> ''..''"
  shows "new_in_repo (fst (oci_repoOf r g)) (og_store g) (og_store (snd (getManifest sha origin source now rm_ok r name ref g)))"
proof -
  let ?repo = "fst (oci_repoOf r g)"
  let ?look = "FindManifest now ?repo (hostOf (rq_host r) (rq_sni r)) name ref"
  obtain found s1 where f: "?look (og_store g) = (found, s1)" by fastforce
  have s1: "sub_data (og_store g) s1"
    using sub_data_find [of "og_store g" now ?repo "hostOf (rq_host r) (rq_sni r)" name ref] f by simp
  define got where "got = fetchOrigin origin source r name (g\<lparr> og_store := s1 \<rparr>)"
  obtain again s2 where a: "(if origin_failed got then ?look s1 else (None, s1)) = (again, s2)" by fastforce
  have s2: "sub_data (og_store g) s2"
    using sub_data_trans [OF s1 sub_data_find] s1 a by (metis prod.inject snd_conv)
  have eq: "getManifest sha origin source now rm_ok r name ref g =
    (case (found, s1) of
       (Some m, s1) \<Rightarrow> (writeManifest r m, g\<lparr> og_store := s1 \<rparr>)
     | (None, s1) \<Rightarrow>
         (case (again, s2) of
            (Some m, s2) \<Rightarrow> (writeManifest r m, g\<lparr> og_store := s2 \<rparr>)
          | (None, s2) \<Rightarrow>
              (case got of
                 None \<Rightarrow> (plain_reply 502, g\<lparr> og_store := s2 \<rparr>)
               | Some (a, scope) \<Rightarrow> relayManifest sha now rm_ok r name ref a scope (g\<lparr> og_store := s2 \<rparr>))))"
    using a by (auto simp: getManifest_def Let_def f got_def split: option.split)
  show ?thesis
  proof (cases found)
    case None
    show ?thesis
    proof (cases "again = None \<and> got \<noteq> None")
      case True
      then obtain x scope where x: "got = Some (x, scope)" by auto
      have "hr_status x = 200 \<longrightarrow> scope = ScopeRepo" using fetched_scope(2) [OF assms(1)] x by (simp add: got_def)
      then have "new_in_repo ?repo s2 (og_store (snd (relayManifest sha now rm_ok r name ref x scope (g\<lparr> og_store := s2 \<rparr>))))"
        using relayManifest_new [of x scope r "g\<lparr> og_store := s2 \<rparr>"] assms(2-4) by simp
      from new_in_repo_step [OF s2 this] show ?thesis using None True x by (simp add: eq)
    next
      case False
      then show ?thesis using None new_in_repo_sub [OF s2] by (auto simp: eq split: option.split)
    qed
  qed (use new_in_repo_sub [OF s1] in \<open>simp add: eq\<close>)
qed

lemma writeBlob_new: "sub_data (og_store g) (og_store (snd (writeBlob now r scope repo digest g)))"
proof -
  let ?o = "OpenBlob now scope (if scope = ScopePublic then '''' else repo) digest (og_store g)"
  have "og_store (snd (writeBlob now r scope repo digest g)) = snd ?o"
    by (simp add: writeBlob_def split: prod.split sum.split)
  then show ?thesis using sub_data_reads(3) by simp
qed

lemma serveBlob_new:
  assumes "needs_credentials origin source r" and "plain_oci_repo (fst (oci_repoOf r g))"
  shows "new_in_repo (fst (oci_repoOf r g)) (og_store g) (og_store (snd (serveBlob sha origin source now rm_ok r name digest g)))"
proof (cases "rq_method r = GET \<or> rq_method r = HEAD")
  case False
  then show ?thesis by (simp add: serveBlob_def)
next
  case readonly: True
  let ?repo = "fst (oci_repoOf r g)"
  obtain found s1 where f: "FindBlob now ?repo digest (og_store g) = (found, s1)" by fastforce
  have s1: "sub_data (og_store g) s1" using sub_data_reads(2) [of "og_store g" now ?repo digest] f by simp
  define got where "got = fetchOriginStream origin source r name (g\<lparr> og_store := s1 \<rparr>)"
  obtain again s2 where a: "(if origin_failed got then FindBlob now ?repo digest s1 else (None, s1)) = (again, s2)" by fastforce
  have s2: "sub_data (og_store g) s2"
    using sub_data_trans [OF s1 sub_data_reads(2)] s1 a by (metis prod.inject snd_conv)
  have eq: "serveBlob sha origin source now rm_ok r name digest g =
    (case (found, s1) of
       (Some scope, s1) \<Rightarrow> writeBlob now r scope ?repo digest (g\<lparr> og_store := s1 \<rparr>)
     | (None, s1) \<Rightarrow>
         (case (again, s2) of
            (Some scope, s2) \<Rightarrow> writeBlob now r scope ?repo digest (g\<lparr> og_store := s2 \<rparr>)
          | (None, s2) \<Rightarrow>
              (case got of
                 None \<Rightarrow> (plain_reply 502, g\<lparr> og_store := s2 \<rparr>)
               | Some (a, scope) \<Rightarrow> relayBlob sha now rm_ok r digest a scope (g\<lparr> og_store := s2 \<rparr>))))"
    using readonly a by (auto simp: serveBlob_def Let_def f got_def split: option.split)
  have wr: "new_in_repo ?repo (og_store g) (og_store (snd (writeBlob now r scope ?repo digest (g\<lparr> og_store := s \<rparr>))))"
    if "sub_data (og_store g) s" for scope s
    using sub_data_trans [OF that] writeBlob_new [of "g\<lparr> og_store := s \<rparr>"] by (intro new_in_repo_sub) simp
  show ?thesis
  proof (cases found)
    case (Some scope)
    then show ?thesis using wr [OF s1] by (simp add: eq)
  next
    case none: None
    show ?thesis
    proof (cases again)
      case (Some scope)
      then show ?thesis using wr [OF s2] none by (simp add: eq)
    next
      case None
      show ?thesis
      proof (cases got)
        case (Some x)
        obtain b scope where x: "got = Some (b, scope)" using Some by (cases x) simp
        have "hr_status b = 200 \<longrightarrow> scope = ScopeRepo" using fetched_scope(1) [OF assms(1)] x by (simp add: got_def)
        then have "new_in_repo ?repo s2 (og_store (snd (relayBlob sha now rm_ok r digest b scope (g\<lparr> og_store := s2 \<rparr>))))"
          using relayBlob_new [of b scope r "g\<lparr> og_store := s2 \<rparr>"] assms(2) by simp
        from new_in_repo_step [OF s2 this] show ?thesis by (simp add: eq none None x)
      qed (use none None new_in_repo_sub [OF s2] in \<open>simp add: eq\<close>)
    qed
  qed
qed

lemma serveUpload_new:
  assumes "plain_oci_repo (fst (oci_repoOf r g))"
  shows "new_in_repo (fst (oci_repoOf r g)) (og_store g) (og_store (snd (serveUpload sha origin now rid rm_ok r name uuid g)))"
proof -
  have "og_store (snd (serveUpload sha origin now rid rm_ok r name uuid g)) = og_store g \<or>
    (\<exists>data. og_store (snd (serveUpload sha origin now rid rm_ok r name uuid g)) =
      snd (PutBlobFromReader sha now rm_ok ScopeRepo (fst (oci_repoOf r g)) (rq_digest r) data (og_store g)))"
    by (simp add: serveUpload_def Let_def split_def split: http_method.split option.split)
       (metis (no_types) snd_conv ociGateway.simps)
  then show ?thesis using new_in_repo_stream [OF assms] by auto
qed

lemma putBuildManifest_new:
  assumes "plain_oci_repo (fst (oci_repoOf r g))"
    and "CHR ''/'' \<notin> set (hostOf (rq_host r) (rq_sni r))" "hostOf (rq_host r) (rq_sni r) \<noteq> ''..''"
  shows "new_in_repo (fst (oci_repoOf r g)) (og_store g) (og_store (snd (putBuildManifest sha now rm_ok r name ref g)))"
proof -
  obtain repo b where rb: "oci_repoOf r g = (repo, b)" by fastforce
  let ?m = "\<lparr> mf_host = hostOf (rq_host r) (rq_sni r), mf_name = name, mf_reference = ref,
    mf_media = (if rq_type r = '''' then ''application/vnd.oci.image.manifest.v1+json'' else rq_type r),
    mf_digest = ''sha256:'' @ sha (take (32 * 2 ^ 20) (rq_body r)), mf_body = take (32 * 2 ^ 20) (rq_body r),
    mf_scope = ScopeRepo, mf_repo = repo \<rparr>"
  have "og_store (snd (putBuildManifest sha now rm_ok r name ref g)) = og_store g \<or>
    og_store (snd (putBuildManifest sha now rm_ok r name ref g)) = snd (PutManifest now rm_ok ?m (og_store g))"
    by (cases "PutManifest now rm_ok ?m (og_store g)")
       (auto simp: putBuildManifest_def rb Let_def split: option.split)
  moreover have "new_in_repo repo (og_store g) (snd (PutManifest now rm_ok ?m (og_store g)))"
    using new_in_repo_manifest [of ?m "og_store g" now rm_ok] assms rb by simp
  ultimately show ?thesis using rb by auto
qed

text \<open>
  C32. When the registry does not give an object without credentials, nothing a bound guest's request makes the
  cache store lies outside the directories of its own repository: what only an authorized pull sees never
  enters the pool that every guest is served from.
\<close>

theorem private_pull_stays_in_repo:
  assumes "needs_credentials origin source r" and "fst (oci_repoOf r g) = repo" and "plain_oci_repo repo"
    and "CHR ''/'' \<notin> set (hostOf (rq_host r) (rq_sni r))" and "hostOf (rq_host r) (rq_sni r) \<noteq> ''..''"
    and "serve sha origin source now rid rm_ok r g = (reply, g')"
    and "file_at p (og_store g') \<noteq> None" and "file_at p (og_store g) = None"
  shows "repo_dirs (os_root (og_store g)) repo p"
proof -
  note plain = assms(3) [folded assms(2)]
  have g': "new_in_repo repo (og_store g) (og_store g')"
  proof (cases "parseRegistryPath (rq_path r)")
    case None
    then show ?thesis using assms(6) by (simp add: serve_def)
  next
    case (Some k)
    show ?thesis
    proof (cases k)
      case (ManifestPath name ref)
      then have "g' = snd (serveManifest sha origin source now rm_ok r name ref g)"
        using assms(6) Some by (auto simp: serve_def split_def Let_def)
      then show ?thesis
        using getManifest_new [OF assms(1) plain assms(4,5)] putBuildManifest_new [OF plain assms(4,5)] assms(2)
        by (simp add: serveManifest_def)
    next
      case (BlobPath name digest)
      then have "g' = snd (serveBlob sha origin source now rm_ok r name digest g)"
        using assms(6) Some by (auto simp: serve_def split_def Let_def)
      then show ?thesis using serveBlob_new [OF assms(1) plain] assms(2) by simp
    next
      case (UploadPath name uuid)
      then have "g' = snd (serveUpload sha origin now rid rm_ok r name uuid g)"
        using assms(6) Some by (auto simp: serve_def split_def Let_def)
      then show ?thesis using serveUpload_new [OF plain] assms(2) by simp
    qed (use assms(6) Some in \<open>auto simp: serve_def Let_def\<close>)
  qed
  then have "file_at p (og_store g') = None \<or> file_at p (og_store g) \<noteq> None \<or> repo_dirs (os_root (og_store g)) repo p"
    unfolding new_in_repo_def by (elim conjE allE)
  then show ?thesis using assms(7,8) by simp
qed

definition private_origin :: origin where
  "private_origin c =
     (case c of
        OriginGet host p q accept auth \<Rightarrow>
          if auth = ''Basic x'' then
            Some \<lparr> hr_status = 200, hr_headers = [(''Docker-Content-Digest'', digest_a)], hr_body = ''{}'' \<rparr>
          else Some (plain_reply 401)
      | OriginForward r \<Rightarrow> None)"

lemma private_pull_stays_in_repo_witness:
  "let r = (ex_request GET ''/v2/app/manifests/latest'' '''')\<lparr> rq_auth := ''Basic x'' \<rparr>;
       g = oci_BindRemote ''10.231.0.2:1'' ''o/r'' (oci_NewGateway (oci_Open [''var'', ''oci''] 10 []));
       g' = snd (serve ex_sha private_origin (\<lambda>_ _. None) 5 None (\<lambda>_. True) r g);
       p = manifestDir [''var'', ''oci''] ScopeRepo ''o/r'' ''ghcr.io'' ''app'' ''latest''
   in file_at p (og_store g') \<noteq> None \<and> repo_dirs [''var'', ''oci''] ''o/r'' p"
proof -
  define r where "r = (ex_request GET ''/v2/app/manifests/latest'' '''')\<lparr> rq_auth := ''Basic x'' \<rparr>"
  define g where "g = oci_BindRemote ''10.231.0.2:1'' ''o/r'' (oci_NewGateway (oci_Open [''var'', ''oci''] 10 []))"
  have r: "rq_method r = GET" "rq_auth r = ''Basic x''" "rq_path r = ''/v2/app/manifests/latest''"
    "rq_remote r = ''10.231.0.2:40000''" "rq_type r = ''''"
    by (simp_all add: r_def ex_request_def)
  have h: "hostOf (rq_host r) (rq_sni r) = ''ghcr.io''" unfolding r_def by code_simp
  have "stripPort ''10.231.0.2:1'' = ''10.231.0.2''" "stripPort ''10.231.0.2:40000'' = ''10.231.0.2''" by code_simp+
  then have bound: "oci_repoOf r g = (''o/r'', True)"
    by (simp add: oci_repoOf_def r g_def oci_BindRemote_def oci_NewGateway_def)
  have store: "og_store g = oci_Open [''var'', ''oci''] 10 []"
    by (simp add: g_def oci_BindRemote_def oci_NewGateway_def)
  have empty: "file_at p (og_store g) = None" "os_root (og_store g) = [''var'', ''oci'']" for p
    by (simp_all add: store file_at_def oci_Open_def oci_rebuildIndex_def)
  have parse: "parseRegistryPath (rq_path r) = Some (ManifestPath ''app'' ''latest'')" unfolding r(3) by code_simp
  have none: "FindManifest 5 ''o/r'' ''ghcr.io'' ''app'' ''latest'' (og_store g) = (None, og_store g)"
    by (simp add: FindManifest_def readManifestLocked_def Let_def empty)
  have cred: "needs_credentials private_origin (\<lambda>_ _. None) r"
    by (simp add: needs_credentials_def doOrigin_def private_origin_def anonymousToken_def plain_reply_def)
  have fetch: "fetchOrigin private_origin (\<lambda>_ _. None) r ''app'' g =
      Some (\<lparr> hr_status = 200, hr_headers = [(''Docker-Content-Digest'', digest_a)], hr_body = ''{}'' \<rparr>, ScopeRepo)"
    by (simp add: fetchOrigin_def fetchOriginStream_def Let_def h doOrigin_def private_origin_def anonymousToken_def
        plain_reply_def bound r max_blob_def)
  have upd: "g\<lparr> og_store := og_store g \<rparr> = g" by simp
  have m: "\<lparr> mf_host = ''ghcr.io'', mf_name = ''app'', mf_reference = ''latest'', mf_media = '''', mf_digest = digest_a,
      mf_body = ''{}'', mf_scope = ScopeRepo, mf_repo = ''o/r'' \<rparr> = ex_manifest" by (simp add: ex_manifest_def)
  have d: "digest_a \<noteq> ''''" by (simp add: digest_a_def)
  have "og_store (snd (getManifest ex_sha private_origin (\<lambda>_ _. None) 5 (\<lambda>_. True) r ''app'' ''latest'' g)) = ex_private"
    by (simp add: getManifest_def Let_def bound h none [unfolded store] fetch origin_failed_def relayManifest_def
        header_get_def d m ex_private_def store upd [unfolded store])
  then have after: "og_store (snd (serve ex_sha private_origin (\<lambda>_ _. None) 5 None (\<lambda>_. True) r g)) = ex_private"
    using r(1) by (simp add: serve_def parse split_def Let_def serveManifest_def)
  let ?p = "manifestDir [''var'', ''oci''] ScopeRepo ''o/r'' ''ghcr.io'' ''app'' ''latest''"
  have new: "file_at ?p (og_store (snd (serve ex_sha private_origin (\<lambda>_ _. None) 5 None (\<lambda>_. True) r g))) \<noteq> None"
    unfolding after using ex_private_file by (metis option.distinct(1))
  have plain: "plain_oci_repo ''o/r''" by code_simp
  have "repo_dirs (os_root (og_store g)) ''o/r'' ?p"
    by (rule private_pull_stays_in_repo [OF cred _ plain _ _ prod.collapse [symmetric] new empty(1)])
       (simp_all add: bound h)
  then show ?thesis using new unfolding Let_def r_def [symmetric] g_def [symmetric] empty(2) by blast
qed

section \<open>Build caches\<close>

definition patch_all ::
  "(string \<Rightarrow> string) \<Rightarrow> origin \<Rightarrow> gotime \<Rightarrow> (path \<Rightarrow> bool) \<Rightarrow> oci_request \<Rightarrow> string \<Rightarrow> string \<Rightarrow> string list \<Rightarrow>
   ociGateway \<Rightarrow> ociGateway" where
  "patch_all sha origin now rm_ok r name i chunks g =
     fold (\<lambda>c g. snd (serveUpload sha origin now None rm_ok (r\<lparr> rq_method := PATCH, rq_body := c \<rparr>) name i g)) chunks g"

lemma patch_all_eq:
  assumes "IsBuildCacheName name" and "\<forall>c \<in> set chunks. length c \<le> max_blob"
  shows "oci_repoOf r g = (repo, True) \<Longrightarrow> map_of (og_uploads g) i = Some up \<Longrightarrow>
    (let g' = patch_all sha origin now rm_ok r name i chunks g
     in og_store g' = og_store g \<and> og_binds g' = og_binds g \<and>
        map_of (og_uploads g') i = Some (up\<lparr> up_data := up_data up @ concat chunks \<rparr>))"
  using assms(2)
proof (induction chunks arbitrary: g up)
  case (Cons c chunks)
  let ?up = "up\<lparr> up_data := up_data up @ c \<rparr>"
  let ?g = "g\<lparr> og_uploads := AList.update i ?up (og_uploads g) \<rparr>"
  have bound: "oci_repoOf (r\<lparr> rq_method := PATCH, rq_body := c \<rparr>) g = (repo, True)"
    using Cons.prems(1) by (simp add: oci_repoOf_def)
  have "snd (serveUpload sha origin now None rm_ok (r\<lparr> rq_method := PATCH, rq_body := c \<rparr>) name i g) = ?g"
    using assms(1) Cons.prems(2,3) by (simp add: serveUpload_def bound Let_def)
  then have step: "patch_all sha origin now rm_ok r name i (c # chunks) g = patch_all sha origin now rm_ok r name i chunks ?g"
    by (simp add: patch_all_def)
  have "oci_repoOf r ?g = (repo, True)" using Cons.prems(1) by (simp add: oci_repoOf_def)
  from Cons.IH [OF this, of ?up] Cons.prems(3) show ?case
    by (simp add: step Let_def update_conv')
qed (simp add: patch_all_def)

lemma oci_evict_idle: "os_total s \<le> os_max s \<Longrightarrow> oci_evictLocked rm_ok s = (True, s)"
  by (simp add: oci_evictLocked_def oci_evict_with_def)

text \<open>
  A layer of a build cache that a bound guest uploads in pieces under a digest that is its hash is served
  to the next job of the repository as the pieces joined, when it fits within the cache's limit.
\<close>

theorem build_cache_roundtrip:
  assumes "IsBuildCacheName name" and "oci_repoOf r g = (repo, True)" and "plain_oci_repo repo"
    and "\<forall>c \<in> set chunks. length c \<le> max_blob" and "length rest \<le> max_blob" and "length (concat chunks @ rest) \<le> max_blob"
    and "digestHex digest = Inr (sha (concat chunks @ rest))"
    and "fst (FindBlob t0 repo digest (og_store g)) = None"
    and "0 \<le> os_total (og_store g)" and "os_total (og_store g) + int (length (concat chunks @ rest)) \<le> os_max (og_store g)"
    and "os_max (og_store g) < 2 ^ 63"
    and "serveUpload sha origin t1 (Some i) rm_ok (r\<lparr> rq_method := POST \<rparr>) name '''' g = (started, g1)"
    and "serveUpload sha origin t2 None rm_ok (r\<lparr> rq_method := PUT, rq_digest := digest, rq_body := rest \<rparr>) name i
      (patch_all sha origin t1 rm_ok r name i chunks g1) = (stored, g2)"
    and "serveBlob sha origin source t3 rm_ok (r\<lparr> rq_method := GET \<rparr>) name' digest g2 = (pulled, g3)"
  shows "hr_status started = 202 \<and> hr_status stored = 201 \<and> hr_status pulled = 200 \<and>
    hr_body pulled = concat chunks @ rest"
proof -
  let ?data = "concat chunks @ rest"
  let ?h = "sha ?data"
  let ?up = "\<lparr> up_name = name, up_repo = repo, up_data = '''' \<rparr>"
  have bound: "oci_repoOf (r\<lparr> rq_method := m \<rparr>) g = (repo, True)" for m
    using assms(2) by (simp add: oci_repoOf_def)
  have bound': "oci_repoOf (r\<lparr> rq_method := m, rq_digest := d, rq_body := b \<rparr>) g' = (repo, True)"
    "oci_repoOf (r\<lparr> rq_method := m \<rparr>) g' = (repo, True)" "oci_repoOf r g' = (repo, True)"
    if "og_binds g' = og_binds g" for m d b g'
    using assms(2) that by (simp_all add: oci_repoOf_def)
  have g1: "hr_status started = 202" "g1 = g\<lparr> og_uploads := AList.update i ?up (og_uploads g) \<rparr>"
    using assms(1,12) bound by (auto simp: serveUpload_def)
  have up1: "map_of (og_uploads g1) i = Some ?up" "og_binds g1 = og_binds g" "og_store g1 = og_store g"
    by (simp_all add: g1 update_conv')
  define gp where "gp = patch_all sha origin t1 rm_ok r name i chunks g1"
  have gp: "og_store gp = og_store g" "og_binds gp = og_binds g"
    "map_of (og_uploads gp) i = Some (?up\<lparr> up_data := concat chunks \<rparr>)"
    using patch_all_eq [OF assms(1,4) bound'(3) [OF up1(2)] up1(1)] up1 by (simp_all add: gp_def Let_def)
  let ?s = "og_store g"
  let ?dir = "blobDir (os_root ?s) ScopeRepo repo ?h"
  have valid: "validateScopeRepo ScopeRepo repo = None"
    using assms(3) by (simp add: validateScopeRepo_def plain_oci_repo_def ScopePublic_def ScopeRepo_def)
  have fit: "wrap64 (os_total ?s + int (length ?data)) \<le> os_max ?s"
    using assms(9-11) by (subst wrap64_id) simp_all
  obtain s' where put: "PutBlobFromReader sha t2 rm_ok ScopeRepo repo digest ?data ?s = (None, s')"
    and root: "os_root s' = os_root ?s" and at: "\<And>p. p \<noteq> ?dir \<Longrightarrow> file_at p s' = file_at p ?s"
    and own: "\<exists>j. file_at ?dir s' = Some (j, ?data)"
    using fit assms(6,7) by (auto simp: PutBlobFromReader_def valid Let_def store_blob_def oci_evict_idle)
  have "digestHex '''' \<noteq> Inr h" for h by (simp add: digestHex_def has_prefix_def)
  then have named: "digest \<noteq> ''''" using assms(7) by blast
  have g2: "hr_status stored = 201" "og_store g2 = s'" "og_binds g2 = og_binds g"
    using assms(1,5,13) gp put bound'(1) [OF gp(2)] named
    by (auto simp: gp_def [symmetric] serveUpload_def Let_def split: prod.splits)
  have pub: "blobDir (os_root ?s) ScopePublic '''' ?h \<noteq> ?dir"
  proof
    assume "blobDir (os_root ?s) ScopePublic '''' ?h = ?dir"
    then show False
      using blobDir_inject [OF digestHex_hex64 [OF assms(7)] digestHex_hex64 [OF assms(7)], of ScopePublic "''''" ScopeRepo repo]
        assms(3) by (simp add: plain_scope_def ScopePublic_def ScopeRepo_def)
  qed
  have "file_at (blobDir (os_root ?s) ScopePublic '''' ?h) ?s = None"
    using assms(7,8) by (cases "file_at (blobDir (os_root ?s) ScopePublic '''' ?h) ?s") (auto simp: FindBlob_def Let_def)
  then have pub': "file_at (blobDir (os_root s') ScopePublic '''' ?h) s' = None" using at pub root by simp
  have repo: "repo \<noteq> ''''" using assms(3) by (auto simp: plain_oci_repo_def oci_validateRepo_def)
  obtain j where j: "file_at ?dir s' = Some (j, ?data)" using own by blast
  have ne: "ScopeRepo \<noteq> ScopePublic" by (simp add: ScopePublic_def ScopeRepo_def)
  have find: "FindBlob t3 repo digest s' = (Some ScopeRepo, touchBlobLocked t3 ?dir s')"
    using assms(7) pub' repo j root by (simp add: FindBlob_def Let_def)
  have touch: "\<exists>j. file_at ?dir (touchBlobLocked t3 ?dir s) = Some (j, ?data)" "os_root (touchBlobLocked t3 ?dir s) = os_root s"
    if "file_at ?dir s = Some (j, ?data)" for s j
    using that by (simp_all add: touchBlobLocked_def)
  obtain j' where j': "file_at ?dir (touchBlobLocked t3 ?dir s') = Some (j', ?data)" using touch(1) [OF j] by blast
  have "fst (OpenBlob t3 ScopeRepo repo digest (touchBlobLocked t3 ?dir s')) = Inr ?data"
    using touch(1) [OF j'] assms(7) touch(2) [OF j] root by (auto simp: OpenBlob_def Let_def split: option.split)
  then have "hr_status pulled = 200 \<and> hr_body pulled = ?data"
    using assms(14) find g2(2,3) bound'(2) [OF g2(3)] ne
    by (auto simp: serveBlob_def writeBlob_def body_unless_head_def Let_def split: prod.splits sum.splits)
  then show ?thesis using g1(1) g2(1) by blast
qed

lemma build_cache_roundtrip_witness:
  "let r = ex_request GET '''' '''';
       name = ''__temperci_cache/app'';
       g = oci_BindRemote ''10.231.0.2:1'' ''o/r'' (oci_NewGateway (oci_Open [''var'', ''oci''] 10 []));
       (a, g1) = serveUpload ex_sha (\<lambda>_. None) 5 (Some ''u'') (\<lambda>_. True) (r\<lparr> rq_method := POST \<rparr>) name '''' g;
       (b, g2) = serveUpload ex_sha (\<lambda>_. None) 6 None (\<lambda>_. True)
         (r\<lparr> rq_method := PUT, rq_digest := digest_a, rq_body := ''r1'' \<rparr>) name ''u''
         (patch_all ex_sha (\<lambda>_. None) 5 (\<lambda>_. True) r name ''u'' [''la'', ''ye''] g1);
       c = fst (serveBlob ex_sha (\<lambda>_. None) (\<lambda>_ _. None) 7 (\<lambda>_. True) (r\<lparr> rq_method := GET \<rparr>) name digest_a g2)
   in hr_status a = 202 \<and> hr_status b = 201 \<and> hr_status c = 200 \<and> hr_body c = ''layer1''"
proof -
  let ?r = "ex_request GET '''' ''''"
  let ?n = "''__temperci_cache/app''"
  define g where "g = oci_BindRemote ''10.231.0.2:1'' ''o/r'' (oci_NewGateway (oci_Open [''var'', ''oci''] 10 []))"
  have n: "IsBuildCacheName ?n" by code_simp
  have "stripPort ''10.231.0.2:1'' = ''10.231.0.2''" "stripPort ''10.231.0.2:40000'' = ''10.231.0.2''" by code_simp+
  then have bound: "oci_repoOf ?r g = (''o/r'', True)"
    by (simp add: oci_repoOf_def ex_request_def g_def oci_BindRemote_def oci_NewGateway_def)
  have plain: "plain_oci_repo ''o/r''" by code_simp
  have d: "digestHex digest_a = Inr (ex_sha (concat [''la'', ''ye''] @ ''r1''))" by code_simp
  have store: "og_store g = oci_Open [''var'', ''oci''] 10 []"
    by (simp add: g_def oci_BindRemote_def oci_NewGateway_def)
  have empty: "os_total (og_store g) = 0" "os_max (og_store g) = 10" "file_at p (og_store g) = None" for p
    by (simp_all add: store file_at_def oci_Open_def oci_rebuildIndex_def)
  have none: "fst (FindBlob 5 ''o/r'' digest_a (og_store g)) = None"
    by (simp add: FindBlob_def Let_def d empty)
  obtain a g1 where a: "serveUpload ex_sha (\<lambda>_. None) 5 (Some ''u'') (\<lambda>_. True) (?r\<lparr> rq_method := POST \<rparr>) ?n '''' g = (a, g1)"
    by fastforce
  obtain b g2 where b: "serveUpload ex_sha (\<lambda>_. None) 6 None (\<lambda>_. True)
      (?r\<lparr> rq_method := PUT, rq_digest := digest_a, rq_body := ''r1'' \<rparr>) ?n ''u''
      (patch_all ex_sha (\<lambda>_. None) 5 (\<lambda>_. True) ?r ?n ''u'' [''la'', ''ye''] g1) = (b, g2)"
    by fastforce
  obtain c g3 where c: "serveBlob ex_sha (\<lambda>_. None) (\<lambda>_ _. None) 7 (\<lambda>_. True) (?r\<lparr> rq_method := GET \<rparr>) ?n digest_a g2 = (c, g3)"
    by fastforce
  have "hr_status a = 202 \<and> hr_status b = 201 \<and> hr_status c = 200 \<and> hr_body c = concat [''la'', ''ye''] @ ''r1''"
    by (rule build_cache_roundtrip [OF n bound plain _ _ _ d none _ _ _ a b c]) (simp_all add: max_blob_def empty)
  then show ?thesis unfolding Let_def g_def [symmetric] by (simp add: a b c)
qed

end
