(* ===== verification/AgentCaches.thy ===== *)
theory AgentCaches
  imports ControlServer ActionsRuns ImageRuns
begin

text \<open>
  The operator's view of the caches: \<open>internal/agent/cacheapply.go\<close>, which reports both stores of an agent as
  one inventory and carries out purge commands on them, and the dashboard route that queues the commands
  (\<open>handleCacheClear\<close> of \<open>internal/control/dashboard.go\<close>). A nil store is \<open>None\<close>; which files the disk refuses to
  remove is an argument.
\<close>

section \<open>Purge commands on the agent\<close>

datatype cacheop_error = PurgeActions string cache_error | PurgeImages string oci_error | UnknownCacheOp string

text \<open>One command: the error, or the stores after it.\<close>

definition apply_cache_op ::
  "(string \<Rightarrow> bool) \<Rightarrow> (path \<Rightarrow> bool) \<Rightarrow> CacheOp \<Rightarrow> ghaStore option \<times> ociStore option \<Rightarrow>
   cacheop_error option \<times> ghaStore option \<times> ociStore option" where
  "apply_cache_op rm_ok rm_tree op stores =
     (case stores of (st, oci) \<Rightarrow>
        if op_action op = CacheOpPurgeAll then
          (let st1 = map_option (snd \<circ> DeleteAll) st in
           case oci of
             None \<Rightarrow> (None, st1, None)
           | Some o1 \<Rightarrow>
               (case oci_DeleteAll rm_tree o1 of
                  ((n, b, err), o2) \<Rightarrow> (map_option (PurgeImages '''') err, st1, Some o2)))
        else if op_action op = CacheOpPurgeRepo then
          (case (case st of
                   None \<Rightarrow> (None, None)
                 | Some s1 \<Rightarrow> (case DeleteRepo rm_ok (op_repo op) s1 of ((n, b, err), s2) \<Rightarrow> (err, Some s2))) of
             (Some e, st1) \<Rightarrow> (Some (PurgeActions (op_repo op) e), st1, oci)
           | (None, st1) \<Rightarrow>
               (case oci of
                  None \<Rightarrow> (None, st1, None)
                | Some o1 \<Rightarrow>
                    (case oci_DeleteRepo rm_tree (op_repo op) o1 of
                       ((n, b, err), o2) \<Rightarrow> (map_option (PurgeImages (op_repo op)) err, st1, Some o2))))
        else (Some (UnknownCacheOp (op_action op)), st, oci))"

text \<open>The commands in order, up to the first that fails: how many were carried out.\<close>

fun apply_ops ::
  "(string \<Rightarrow> bool) \<Rightarrow> (path \<Rightarrow> bool) \<Rightarrow> CacheOp list \<Rightarrow> int \<Rightarrow> ghaStore option \<times> ociStore option \<Rightarrow>
   int \<times> cacheop_error option \<times> ghaStore option \<times> ociStore option" where
  "apply_ops rm_ok rm_tree [] n stores = (n, None, stores)"
| "apply_ops rm_ok rm_tree (op # ops) n stores =
     (case apply_cache_op rm_ok rm_tree op stores of
        (Some e, stores') \<Rightarrow> (n, Some e, stores')
      | (None, stores') \<Rightarrow> apply_ops rm_ok rm_tree ops (n + 1) stores')"

definition ApplyCacheOps ::
  "(string \<Rightarrow> bool) \<Rightarrow> (path \<Rightarrow> bool) \<Rightarrow> CacheOp list \<Rightarrow> ghaStore option \<times> ociStore option \<Rightarrow>
   int \<times> cacheop_error option \<times> ghaStore option \<times> ociStore option" where
  "ApplyCacheOps rm_ok rm_tree ops stores =
     (if fst stores = None \<and> snd stores = None then (0, None, stores)
      else apply_ops rm_ok rm_tree ops 0 stores)"

section \<open>The inventory of both stores\<close>

definition cacheEntryUsage :: "EntryUsage list \<Rightarrow> CacheEntryUsage list" where
  "cacheEntryUsage es =
     map (\<lambda>e. \<lparr> ce_key = eu_key e, ce_version = eu_version e, ce_bytes = eu_bytes e,
               ce_created = eu_created e, ce_last_access = eu_last e \<rparr>) es"

definition actions_row :: "RepoUsage \<Rightarrow> CacheRepoUsage" where
  "actions_row r = \<lparr> cr_repo = ru_repo r, cr_bytes = ru_bytes r, cr_entries = ru_entries r,
     cr_last_access = ru_last r, cr_keys = cacheEntryUsage (ru_keys r) \<rparr>"

definition image_row :: "ociRepoUsage \<Rightarrow> CacheRepoUsage" where
  "image_row r = \<lparr> cr_repo = ''oci:'' @ ou_repo r, cr_bytes = ou_bytes r, cr_entries = ou_entries r,
     cr_last_access = ou_last r, cr_keys = [] \<rparr>"

definition CacheUsageFromStores :: "ghaStore option \<Rightarrow> ociStore option \<Rightarrow> CacheUsage option" where
  "CacheUsageFromStores st oci =
     (if st = None \<and> oci = None then None
      else
        (let out0 = \<lparr> cu_bytes = 0, cu_max_bytes = 0, cu_entries = 0, cu_repos = [] \<rparr>;
             out1 = (case st of
                None \<Rightarrow> out0
              | Some s \<Rightarrow>
                  (let u = usageLocked s in
                   \<lparr> cu_bytes = us_bytes u, cu_max_bytes = us_max u, cu_entries = us_entries u,
                      cu_repos = map actions_row (us_repos u) \<rparr>));
             out2 = (case oci of
                None \<Rightarrow> out1
              | Some s \<Rightarrow>
                  (let u = oci_usageLocked s in
                   out1\<lparr> cu_bytes := wrap64 (cu_bytes out1 + oci_bytes u),
                         cu_max_bytes := wrap64 (cu_max_bytes out1 + oci_max u),
                         cu_entries := wrap64 (cu_entries out1 + oci_entries u),
                         cu_repos := cu_repos out1 @ map image_row (oci_repos u) \<rparr>))
         in Some out2))"

definition CacheUsageFromStore :: "ghaStore option \<Rightarrow> CacheUsage option" where
  "CacheUsageFromStore st = CacheUsageFromStores st None"

definition uniqueSorted :: "string list \<Rightarrow> string list" where
  "uniqueSorted xs = sort_texts (filter (\<lambda>s. s \<noteq> '''') xs)"

section \<open>The route that queues a purge\<close>

record cache_clear =
  cc_agent :: string
  cc_repo :: string

text \<open>The status and, with 200, how many agents the command was queued for.\<close>

definition handleCacheClear :: "cache_clear \<Rightarrow> server \<Rightarrow> (nat + int) \<times> server" where
  "handleCacheClear r sv =
     (if \<not> validateCacheRepo (cc_repo r) then (Inl 400, sv)
      else
        let action = cacheAction (cc_repo r);
            queue = (\<lambda>ids. if ids = [] then (Inl 400, sv)
                     else case cache_enqueue ids action (trim_space (cc_repo r)) (sv_cacheq sv) of
                            (n, q) \<Rightarrow> (Inr n, sv\<lparr> sv_cacheq := q \<rparr>))
        in if trim_space (cc_agent r) \<noteq> '''' then
             (if GetAgent (cc_agent r) (sv_agents sv) = None then (Inl 404, sv) else queue [cc_agent r])
           else queue (map ai_agent_id (ListAgents (sv_agents sv))))"

section \<open>Purges that cannot work\<close>

lemma split_colon_repo:
  assumes "oci_validateRepo r" and "trim_space (''oci:'' @ r) = ''oci:'' @ r" and "trim_space r = r"
  shows "validateCacheRepo (''oci:'' @ r)" "\<not> validateRepo (''oci:'' @ r)" "\<not> oci_validateRepo (''oci:'' @ r)"
proof -
  obtain a b where ab: "split_on (CHR ''/'') r = [a, b]" "a \<noteq> ''''" "b \<noteq> ''''"
    using assms(1,3) by (auto simp: oci_validateRepo_def Let_def length_Suc_conv numeral_2_eq_2)
  have "split_on (CHR ''/'') (''oci:'' @ r) = [''oci:'' @ a, b]" using ab(1) by simp
  then show "validateCacheRepo (''oci:'' @ r)" "\<not> validateRepo (''oci:'' @ r)" "\<not> oci_validateRepo (''oci:'' @ r)"
    using ab assms(2) by (simp_all add: validateCacheRepo_def validateRepo_def oci_validateRepo_def Let_def)
qed

lemma failed_op_drops_rest:
  assumes "apply_cache_op rm_ok rm_tree op stores = (Some e, stores)" and "fst stores \<noteq> None \<or> snd stores \<noteq> None"
  shows "ApplyCacheOps rm_ok rm_tree (op # rest) stores = (0, Some e, stores)"
  using assms by (auto simp: ApplyCacheOps_def)

lemma apply_ops_append:
  "apply_ops rm_ok rm_tree (xs @ ys) n stores =
     (case apply_ops rm_ok rm_tree xs n stores of
        (m, Some e, stores') \<Rightarrow> (m, Some e, stores')
      | (m, None, stores') \<Rightarrow> apply_ops rm_ok rm_tree ys m stores')"
  by (induction rm_ok rm_tree xs n stores rule: apply_ops.induct) (auto split: prod.splits option.splits)

text \<open>
  A row of the inventory that comes from the image cache cannot be cleared by the name it is listed under:
  the control plane accepts the request and queues the command, but the agent refuses it, leaves both stores
  as they are, and drops every command that came with it in the same heartbeat.
\<close>

theorem image_rows_cannot_be_cleared:
  assumes "plain_oci_repo (ou_repo u)" and "trim_space (cr_repo (image_row u)) = cr_repo (image_row u)"
    and "GetAgent agent (sv_agents sv) = Some info" and "trim_space agent = agent" and "agent \<noteq> ''''"
    and "handleCacheClear \<lparr> cc_agent = agent, cc_repo = cr_repo (image_row u) \<rparr> sv = (answer, sv')"
    and "st \<noteq> None \<or> oci \<noteq> None"
  shows "answer = Inr 1 \<and>
    (\<exists>op. waiting (sv_cacheq sv') agent = waiting (sv_cacheq sv) agent @ [op] \<and>
       (\<exists>e. ApplyCacheOps rm_ok rm_tree (op # rest) (st, oci) = (0, Some e, st, oci)))"
proof -
  let ?name = "''oci:'' @ ou_repo u"
  have name: "cr_repo (image_row u) = ?name" by (simp add: image_row_def)
  have ok: "validateCacheRepo ?name" "\<not> validateRepo ?name" "\<not> oci_validateRepo ?name" "trim_space ?name = ?name"
    using split_colon_repo [of "ou_repo u"] assms(1,2) unfolding name plain_oci_repo_def by blast+
  have action: "cacheAction ?name = CacheOpPurgeRepo" using ok(4) by (simp add: cacheAction_def)
  let ?op = "\<lparr> op_id = itoa (wrap64 (q_seq (sv_cacheq sv) + 1)), op_action = CacheOpPurgeRepo, op_repo = ?name \<rparr>"
  have queued: "answer = Inr 1" "waiting (sv_cacheq sv') agent = waiting (sv_cacheq sv) agent @ [?op]"
    using assms(3-6) ok action
    by (auto simp: handleCacheClear_def name Let_def enqueue_one_def waiting_push)
  have "CacheOpPurgeRepo \<noteq> CacheOpPurgeAll" by (simp add: CacheOpPurgeRepo_def CacheOpPurgeAll_def)
  then have "\<exists>e. apply_cache_op rm_ok rm_tree ?op (st, oci) = (Some e, st, oci)"
    using assms(7) ok by (cases st; cases oci) (simp_all add: apply_cache_op_def DeleteRepo_def oci_DeleteRepo_def)
  then obtain e where "ApplyCacheOps rm_ok rm_tree (?op # rest) (st, oci) = (0, Some e, st, oci)"
    using failed_op_drops_rest [of rm_ok rm_tree ?op "(st, oci)"] assms(7) by auto
  then show ?thesis using queued by blast
qed

definition ex_registered :: server where
  "ex_registered = demo_server\<lparr> sv_agents := [(''a'', new_agent ''a'' 3)] \<rparr>"

lemma image_rows_cannot_be_cleared_witness:
  "\<exists>op e. waiting (sv_cacheq (snd (handleCacheClear \<lparr> cc_agent = ''a'', cc_repo = ''oci:o/r'' \<rparr> ex_registered))) ''a'' = [op] \<and>
     ApplyCacheOps (\<lambda>_. True) (\<lambda>_. True) [op] (Some ex_store, Some ex_images) = (0, Some e, Some ex_store, Some ex_images)"
proof -
  let ?u = "\<lparr> ou_repo = ''o/r'', ou_bytes = 6, ou_entries = 1, ou_last = 5 \<rparr>"
  let ?r = "\<lparr> cc_agent = ''a'', cc_repo = cr_repo (image_row ?u) \<rparr>"
  have n: "cr_repo (image_row ?u) = ''oci:o/r''" by (simp add: image_row_def)
  have p: "plain_oci_repo (ou_repo ?u)" "trim_space (cr_repo (image_row ?u)) = cr_repo (image_row ?u)" "trim_space ''a'' = ''a''"
    by code_simp+
  have g: "GetAgent ''a'' (sv_agents ex_registered) = Some (new_agent ''a'' 3)"
    "waiting (sv_cacheq ex_registered) ''a'' = []"
    by (simp_all add: GetAgent_def ex_registered_def waiting_def demo_server_def newQueue_def)
  obtain answer sv' where h: "handleCacheClear ?r ex_registered = (answer, sv')" by fastforce
  have "Some ex_store \<noteq> None \<or> Some ex_images \<noteq> None" by simp
  from image_rows_cannot_be_cleared [OF p(1,2) g(1) p(3) _ h this, of "\<lambda>_. True" "\<lambda>_. True" "[]"] show ?thesis
    using h g(2) unfolding n by auto
qed

end
