(* ===== verification/Worker.thy ===== *)
theory Worker
  imports AgentCaches PoolSystem ActionsGateway ImageGateway Outcome
begin

text \<open>
  \<open>internal/agent/worker.go\<close>, \<open>client.go\<close> and \<open>cmds.go\<close>: what the agent does with the control plane. An agent is
  its pool, its two cache gateways and the number of jobs under way. A request to the control plane is the
  wire record the client builds; answers, the clock, the host's inventory, the files of a guest and what the
  rest of the agent does while a call waits are arguments. Small counters are unbounded integers.
\<close>

section \<open>State\<close>

record JobAssignment =
  ja_job_id :: int
  ja_run_id :: int
  ja_org :: string
  ja_repo :: string
  ja_name :: string
  ja_labels :: "string list"
  ja_runner_name :: string
  ja_runner_id :: int
  ja_jit :: string
  ja_status :: status
  ja_agent :: string

record JobLogs =
  jl_runner :: string
  jl_agent :: string
  jl_console :: string
  jl_workflow :: string
  jl_offset :: int
  jl_append :: string
  jl_hits :: int
  jl_misses :: int
  jl_bytes_in :: int
  jl_bytes_out :: int

definition no_logs :: JobLogs where
  "no_logs = \<lparr> jl_runner = '''', jl_agent = '''', jl_console = '''', jl_workflow = '''', jl_offset = 0,
     jl_append = '''', jl_hits = 0, jl_misses = 0, jl_bytes_in = 0, jl_bytes_out = 0 \<rparr>"

text \<open>The settings of a worker, and the agent around it.\<close>

record Worker =
  wk_id :: string
  wk_simulate :: duration
  wk_deadline :: duration
  wk_capacity :: int
  wk_wait_real :: bool

record inventory_copy =
  ic_at :: gotime
  ic_repos :: "string list"
  ic_cache :: "CacheUsage option"

record agent =
  ag_pool :: pool
  ag_cache :: "ghaGateway option"
  ag_oci :: "ociGateway option"
  ag_inflight :: int
  ag_inv :: inventory_copy

record CapacitySnapshot =
  cs_max :: int
  cs_free :: int
  cs_warm :: int
  cs_busy :: int
  cs_vms :: "VMUsage list"
  cs_repos :: "string list"
  cs_cache :: "CacheUsage option"
  cs_resources :: "HostResources option"

section \<open>Capacity\<close>

definition addInFlight :: "int \<Rightarrow> agent \<Rightarrow> agent" where
  "addInFlight delta ag =
     (let n = ag_inflight ag + delta in ag\<lparr> ag_inflight := (if n < 0 then 0 else n) \<rparr>)"

definition RemainingCreates :: "sample \<Rightarrow> pool \<Rightarrow> int \<times> pool" where
  "RemainingCreates smp p = remainingCreatesLocked smp p"

definition HostResources_of :: "sample \<Rightarrow> pool \<Rightarrow> HostResources option" where
  "HostResources_of smp p =
     (case smp of
        None \<Rightarrow> None
      | Some None \<Rightarrow>
          Some \<lparr> hr_ram_total = 0, hr_ram_avail = 0, hr_allocated = 0, hr_reserve = 0, hr_disk_total = 0,
             hr_disk_free = 0, hr_num_cpu = 0, hr_configured_max_ready = ConfiguredMaxReady p,
             hr_effective_max_ready = EffectiveMaxReady p, hr_clamp_reason = pl_clamp_reason p,
             hr_last_admit_reason = ''inventory_error'', hr_exclusive_busy = False \<rparr>
      | Some (Some h) \<Rightarrow>
          Some \<lparr> hr_ram_total = inv_ram_total h, hr_ram_avail = inv_ram_avail h,
             hr_allocated = allocatedRAMLocked p, hr_reserve = pc_reserve_ram (pl_cfg p),
             hr_disk_total = inv_disk_total h, hr_disk_free = inv_disk_free h, hr_num_cpu = inv_num_cpu h,
             hr_configured_max_ready = ConfiguredMaxReady p, hr_effective_max_ready = EffectiveMaxReady p,
             hr_clamp_reason = pl_clamp_reason p, hr_last_admit_reason = pl_last_admit p,
             hr_exclusive_busy = False \<rparr>)"

text \<open>The slots offered, from the counts of the pool, the jobs under way and the creates that still fit.\<close>

definition free_slots :: "int \<Rightarrow> Counts \<Rightarrow> int \<Rightarrow> int \<Rightarrow> int" where
  "free_slots capacity c inflight remaining =
     (let used = (if inflight > ct_busy c then inflight else ct_busy c);
          free0 = capacity - used;
          free1 = (if free0 < 0 then 0 else free0);
          p0 = inflight - ct_busy c;
          pending = (if p0 < 0 then 0 else p0);
          budget = ct_warm c + remaining - pending;
          free2 = (if budget < free1 then budget else free1)
      in if free2 < 0 then 0 else free2)"

definition cachedInventory :: "gotime \<Rightarrow> agent \<Rightarrow> (string list \<times> CacheUsage option) \<times> agent" where
  "cachedInventory now ag =
     (let i = ag_inv ag in
      if time_sub now (ic_at i) < 10 * second \<and> ic_cache i \<noteq> None then ((ic_repos i, ic_cache i), ag)
      else
        (let st = map_option gg_store (ag_cache ag); oci = map_option og_store (ag_oci ag);
             repos = uniqueSorted
               ((case st of None \<Rightarrow> [] | Some s \<Rightarrow> Repos s) @ (case oci of None \<Rightarrow> [] | Some s \<Rightarrow> oci_Repos s));
             cache = CacheUsageFromStores st oci
         in ((repos, cache), ag\<lparr> ag_inv := \<lparr> ic_at = now, ic_repos = repos, ic_cache = cache \<rparr> \<rparr>)))"

text \<open>
  \<open>snapshot\<close> with nothing running beside it. \<open>vms\<close> is what the pool's usage report says, and each of the
  two samples is one reading of the host.
\<close>

definition snapshot ::
  "Worker \<Rightarrow> gotime \<Rightarrow> sample \<Rightarrow> sample \<Rightarrow> VMUsage list \<Rightarrow> agent \<Rightarrow> CapacitySnapshot \<times> agent" where
  "snapshot wk now smp1 smp2 vms ag =
     (let c = countsLocked (ag_pool ag);
          (remaining, p1) = RemainingCreates smp1 (ag_pool ag);
          ag1 = ag\<lparr> ag_pool := p1 \<rparr>;
          free = free_slots (wk_capacity wk) c (ag_inflight ag1) remaining;
          ((repos, cache), ag2) = cachedInventory now ag1
      in (\<lparr> cs_max = wk_capacity wk, cs_free = free, cs_warm = ct_warm c, cs_busy = ct_busy c, cs_vms = vms,
            cs_repos = repos, cs_cache = cache, cs_resources = HostResources_of smp2 (ag_pool ag2) \<rparr>, ag2))"

section \<open>Requests\<close>

definition register_request :: "Worker \<Rightarrow> CapacitySnapshot \<Rightarrow> RegisterRequest" where
  "register_request wk cap =
     \<lparr> rq_agent_id = wk_id wk, rq_max_capacity = cs_max cap, rq_capacity = cs_free cap, rq_warm = cs_warm cap,
        rq_busy = cs_busy cap, rq_labels = [], rq_vms = cs_vms cap, rq_cached_repos = Some (cs_repos cap),
        rq_cache = cs_cache cap, rq_resources = cs_resources cap \<rparr>"

definition claim_request :: "Worker \<Rightarrow> CapacitySnapshot \<Rightarrow> ClaimRequest" where
  "claim_request wk cap =
     \<lparr> cq_agent_id = wk_id wk, cq_free_slots = cs_free cap, cq_warm = cs_warm cap, cq_busy = cs_busy cap,
        cq_cached_repos = cs_repos cap, cq_wait_ms = 25000 \<rparr>"

definition started_request :: "Worker \<Rightarrow> int \<Rightarrow> string \<Rightarrow> bool \<Rightarrow> JobStartedRequest" where
  "started_request wk j vm warm =
     \<lparr> sq_agent_id = wk_id wk, sq_job_id = j, sq_vm_id = vm, sq_warm_bind = warm \<rparr>"

definition finished_request ::
  "Worker \<Rightarrow> int \<Rightarrow> string \<Rightarrow> string \<Rightarrow> bool \<Rightarrow> string \<Rightarrow> JobLogs \<Rightarrow> JobFinishedRequest" where
  "finished_request wk j outcome vm warm msg logs =
     \<lparr> fq_agent_id = wk_id wk, fq_job_id = j, fq_outcome = outcome, fq_warm_bind = warm, fq_vm_id = vm,
        fq_error = msg, fq_runner_log = jl_runner logs, fq_agent_log = jl_agent logs,
        fq_console_log = jl_console logs, fq_workflow_log = jl_workflow logs, fq_cache_hits = jl_hits logs,
        fq_cache_misses = jl_misses logs, fq_cache_bytes_in = jl_bytes_in logs,
        fq_cache_bytes_out = jl_bytes_out logs \<rparr>"

definition logs_request :: "Worker \<Rightarrow> int \<Rightarrow> JobLogs \<Rightarrow> JobLogsRequest" where
  "logs_request wk j logs =
     \<lparr> lq_agent_id = wk_id wk, lq_job_id = j, lq_runner_log = jl_runner logs, lq_agent_log = jl_agent logs,
        lq_console_log = jl_console logs, lq_workflow_log = jl_workflow logs,
        lq_workflow_offset = jl_offset logs, lq_workflow_append = jl_append logs \<rparr>"

section \<open>The heartbeat\<close>

text \<open>\<open>errs\<close> is what the cleaner answers for each guest.\<close>

fun ApplyAgentCmds :: "gotime \<Rightarrow> (vmID \<Rightarrow> string option) \<Rightarrow> AgentCmd list \<Rightarrow> pool \<Rightarrow> int \<times> pool" where
  "ApplyAgentCmds now errs [] p = (0, p)"
| "ApplyAgentCmds now errs (c # cs) p =
     (if cmd_action c \<noteq> AgentCmdKillVM \<or> cmd_vm_id c = '''' then ApplyAgentCmds now errs cs p
      else case KillVM now (errs (cmd_vm_id c)) (cmd_vm_id c) p of
        (Some e, p1) \<Rightarrow> ApplyAgentCmds now errs cs p1
      | (None, p1) \<Rightarrow> (case ApplyAgentCmds now errs cs p1 of (n, p2) \<Rightarrow> (n + 1, p2)))"

datatype register_error = RegisterFailed string | RegisterNotOK | RegisterCacheOps cacheop_error

definition put_stores :: "ghaStore option \<times> ociStore option \<Rightarrow> agent \<Rightarrow> agent" where
  "put_stores stores ag =
     ag\<lparr> ag_cache := (case (fst stores, ag_cache ag) of
            (Some s, Some g) \<Rightarrow> Some (g\<lparr> gg_store := s \<rparr>) | (_, g) \<Rightarrow> g),
         ag_oci := (case (snd stores, ag_oci ag) of
            (Some s, Some g) \<Rightarrow> Some (g\<lparr> og_store := s \<rparr>) | (_, g) \<Rightarrow> g) \<rparr>"

text \<open>\<open>register\<close> once the control plane has answered the request built from the snapshot.\<close>

definition register ::
  "gotime \<Rightarrow> (vmID \<Rightarrow> string option) \<Rightarrow> (string \<Rightarrow> bool) \<Rightarrow> (path \<Rightarrow> bool) \<Rightarrow> string + RegisterResponse \<Rightarrow>
   agent \<Rightarrow> register_error option \<times> agent" where
  "register now errs rm_ok rm_tree answer ag =
     (case answer of
        Inl e \<Rightarrow> (Some (RegisterFailed e), ag)
      | Inr resp \<Rightarrow>
          if \<not> rr_ok resp then (Some RegisterNotOK, ag)
          else
            (let ag1 = ag\<lparr> ag_pool := snd (ApplyAgentCmds now errs (rr_commands resp) (ag_pool ag)) \<rparr>;
                 stores = (map_option gg_store (ag_cache ag1), map_option og_store (ag_oci ag1))
             in if rr_cache_ops resp = [] \<or> (fst stores = None \<and> snd stores = None) then (None, ag1)
                else case ApplyCacheOps rm_ok rm_tree (rr_cache_ops resp) stores of
                  (n, err, stores') \<Rightarrow> (map_option RegisterCacheOps err, put_stores stores' ag1)))"

section \<open>Waiting for the runner\<close>

datatype wait_error = DeadlineExceeded | ContextCanceled | RunnerStopped | WaitFailed string

primrec wait_text :: "wait_error \<Rightarrow> string" where
  "wait_text DeadlineExceeded = ''context deadline exceeded''"
| "wait_text ContextCanceled = ''context canceled''"
| "wait_text RunnerStopped = ''agent: runner stopped''"
| "wait_text (WaitFailed e) = e"

text \<open>
  What \<open>WaitRunner\<close> answers: the runner's exit code, or an error; with the error, whether the deadline had
  passed by then.
\<close>

datatype runner_answer = RunnerExit int | RunnerFailed wait_error bool

text \<open>
  \<open>waitForJob\<close>. \<open>cancelled\<close> is how long after its start the context is cancelled, if it is; of channels that
  become ready at the same instant the first in the order of the source is taken.
\<close>

definition waitForJob ::
  "Worker \<Rightarrow> bool \<Rightarrow> duration option \<Rightarrow> runner_answer \<Rightarrow> string \<times> wait_error option" where
  "waitForJob wk has_runner cancelled answer =
     (let sim = (if wk_simulate wk < 0 then 0 else wk_simulate wk); deadline = wk_deadline wk in
      if sim > 0 then
        (let first = (if deadline > 0 \<and> deadline \<le> sim then deadline else sim) in
         case cancelled of
           Some c \<Rightarrow>
             if c \<le> first then (''cancelled'', Some ContextCanceled)
             else if deadline > 0 \<and> deadline \<le> sim then (''timeout'', Some DeadlineExceeded) else (''success'', None)
         | None \<Rightarrow>
             if deadline > 0 \<and> deadline \<le> sim then (''timeout'', Some DeadlineExceeded) else (''success'', None))
      else if wk_wait_real wk \<and> has_runner then
        (case answer of
           RunnerFailed e late \<Rightarrow>
             if e = DeadlineExceeded \<or> late then (''timeout'', Some DeadlineExceeded) else (''cancelled'', Some e)
         | RunnerExit code \<Rightarrow> if code \<noteq> 0 then (''failure'', None) else (''success'', None))
      else (''success'', None))"

text \<open>How long the real wait lasts at most.\<close>

definition wait_deadline :: "Worker \<Rightarrow> duration" where
  "wait_deadline wk = (if wk_deadline wk \<le> 0 then 6 * 3600 * second else wk_deadline wk)"

section \<open>The life of a job\<close>

datatype worker_error = PoolError pool_error | WaitError wait_error | ReportError string

datatype agent_call = CallStarted JobStartedRequest | CallFinished JobFinishedRequest

definition payload_of :: "JobAssignment \<Rightarrow> JobPayload" where
  "payload_of job = \<lparr> jp_job_id = itoa (ja_job_id job), jp_runner_name = ja_runner_name job,
     jp_labels = ja_labels job, jp_jit = ja_jit job \<rparr>"

definition caches_on :: "agent \<Rightarrow> bool" where
  "caches_on ag \<longleftrightarrow> ag_cache ag \<noteq> None \<or> ag_oci ag \<noteq> None"

definition bind_caches :: "string \<Rightarrow> string \<Rightarrow> agent \<Rightarrow> agent" where
  "bind_caches ip repo ag =
     ag\<lparr> ag_cache := map_option (BindRemote ip repo) (ag_cache ag),
         ag_oci := map_option (oci_BindRemote ip repo) (ag_oci ag) \<rparr>"

definition unbind_caches :: "string \<Rightarrow> agent \<Rightarrow> agent" where
  "unbind_caches ip ag =
     ag\<lparr> ag_cache := map_option (UnbindRemote ip) (ag_cache ag),
         ag_oci := map_option (oci_UnbindRemote ip) (ag_oci ag) \<rparr>"

text \<open>The finish report, with the repository's cache counters, which it takes; and its answer.\<close>

definition finish_job ::
  "Worker \<Rightarrow> int \<Rightarrow> string \<Rightarrow> string \<Rightarrow> string \<Rightarrow> bool \<Rightarrow> string \<Rightarrow> JobLogs \<Rightarrow> agent \<Rightarrow> agent_call \<times> agent" where
  "finish_job wk j repo outcome vm warm msg logs ag =
     (case ag_cache ag of
        Some g \<Rightarrow>
          if repo \<noteq> '''' then
            (case TakeStats repo g of
               (c, g1) \<Rightarrow>
                 (CallFinished (finished_request wk j outcome vm warm msg
                    (logs\<lparr> jl_hits := ct_hits c, jl_misses := ct_misses c, jl_bytes_in := ct_in c,
                           jl_bytes_out := ct_out c \<rparr>)), ag\<lparr> ag_cache := Some g1 \<rparr>))
          else (CallFinished (finished_request wk j outcome vm warm msg logs), ag)
      | None \<Rightarrow> (CallFinished (finished_request wk j outcome vm warm msg logs), ag))"

text \<open>\<open>JobFinished\<close> of the pool, at the time and with the cleaner's answer given.\<close>

definition end_guest :: "gotime \<Rightarrow> string option \<Rightarrow> vmID \<Rightarrow> agent \<Rightarrow> pool_error option \<times> agent" where
  "end_guest now err vm ag =
     (case JobFinished now err vm (ag_pool ag) of (e, p) \<Rightarrow> (e, ag\<lparr> ag_pool := p \<rparr>))"

text \<open>
  What a job meets on its way: the rounds of the bind, the guest's address (empty when there is none), what
  the rest of the agent does while the job runs, the answer of the runner and its logs, what the pool is
  told at the end, and the answers to the finish report. \<open>je_text\<close> renders errors of the pool.
\<close>

record job_env =
  je_started :: gotime
  je_rounds :: "bind_env list"
  je_guest_ip :: string
  je_others :: "agent \<Rightarrow> agent"
  je_has_runner :: bool
  je_answer :: runner_answer
  je_logs :: JobLogs
  je_now :: gotime
  je_destroy :: "string option"
  je_report :: "string option"
  je_text :: "pool_error \<Rightarrow> string"

text \<open>The error text of a job whose runner was content but whose log tells otherwise.\<close>

definition refined_reason :: "string \<Rightarrow> string \<Rightarrow> string \<Rightarrow> string" where
  "refined_reason reported outcome text' =
     (if reported = ''success'' \<and> outcome = ''error'' then
        ''runner accepted different GitHub job'' @
          (let started = RunningJobName text' in if started \<noteq> '''' then '': '' @ started else '''')
      else if reported = ''success'' \<and> outcome = ''failure'' then
        (if runnerLogIndicatesAbort text' then ''runner aborted (OOM/134)''
         else ''runner exited without completing job'')
      else '''')"

text \<open>From the runner's end to the finish report.\<close>

definition conclude ::
  "Worker \<Rightarrow> job_env \<Rightarrow> JobAssignment \<Rightarrow> BindResult \<Rightarrow> agent \<Rightarrow> worker_error option \<times> agent_call \<times> agent" where
  "conclude wk env job b ag =
     (let vm = br_vm b; logs = je_logs env;
          (reported, werr) = waitForJob wk (je_has_runner env) None (je_answer env);
          outcome = RefineOutcomeForJob reported (jl_runner logs) (ja_name job);
          (jerr, ag1) = end_guest (je_now env) (je_destroy env) vm ag;
          finish = (\<lambda>outcome msg. finish_job wk (ja_job_id job) (ja_repo job) outcome vm (br_warm b) msg logs ag1);
          answered = map_option ReportError (je_report env)
      in if werr \<noteq> None \<and> werr \<noteq> Some DeadlineExceeded then
           (case werr of Some e \<Rightarrow> (Some (WaitError e), finish ''cancelled'' (wait_text e)))
         else if outcome = ''timeout'' then
           (case jerr of
              Some e \<Rightarrow> (Some (PoolError e), finish ''timeout'' (je_text env e))
            | None \<Rightarrow> (answered, finish ''timeout'' ''job deadline exceeded''))
         else
           (case jerr of
              Some e \<Rightarrow>
                if e \<noteq> ErrNotBusy then (Some (PoolError e), finish ''error'' (je_text env e))
                else (answered, finish outcome (refined_reason reported outcome (jl_runner logs)))
            | None \<Rightarrow> (answered, finish outcome (refined_reason reported outcome (jl_runner logs)))))"

text \<open>
  \<open>handleJob\<close>: the requests it sends, its error, and the agent when it returns; \<open>None\<close> when the bind
  has not ended within its rounds.
\<close>

definition handleJob ::
  "Worker \<Rightarrow> job_env \<Rightarrow> JobAssignment \<Rightarrow> agent \<Rightarrow> (agent_call list \<times> worker_error option \<times> agent) option" where
  "handleJob wk env job ag =
     (case Bind (je_started env) (payload_of job) (je_rounds env) (ag_pool ag) of
        None \<Rightarrow> None
      | Some (Inl e, p) \<Rightarrow>
          (case finish_job wk (ja_job_id job) (ja_repo job) ''error'' '''' False (je_text env e) no_logs
                  (ag\<lparr> ag_pool := p \<rparr>) of
             (call, ag1) \<Rightarrow> Some ([call], Some (PoolError e), ag1))
      | Some (Inr b, p) \<Rightarrow>
          (let ag1 = ag\<lparr> ag_pool := p \<rparr>;
               ip = (if je_guest_ip env = '''' then ''127.0.0.1'' else je_guest_ip env);
               named = ja_repo job \<noteq> '''' \<and> caches_on ag1;
               ag2 = (if named then bind_caches ip (ja_repo job) ag1 else ag1);
               started = CallStarted (started_request wk (ja_job_id job) (br_vm b) (br_warm b))
           in case conclude wk env job b (je_others env ag2) of
                (err, call, ag3) \<Rightarrow>
                  Some ([started, call], err, if named then unbind_caches ip ag3 else ag3)))"

section \<open>Uploading logs while a job runs\<close>

record log_stream =
  ls_workflow :: string
  ls_slow :: string
  ls_size :: int
  ls_mod :: gotime

definition new_stream :: log_stream where
  "new_stream = \<lparr> ls_workflow = '''', ls_slow = '''', ls_size = - 1, ls_mod = zero_time \<rparr>"

text \<open>A fast tick: the workflow log's size and time, if it can be examined, and its text.\<close>

definition stream_fast :: "(int \<times> gotime) option \<Rightarrow> string \<Rightarrow> log_stream \<Rightarrow> JobLogs option \<times> log_stream" where
  "stream_fast stat text' s =
     (case stat of
        None \<Rightarrow> (None, s)
      | Some (sz, t) \<Rightarrow>
          if sz = ls_size s \<and> t = ls_mod s then (None, s)
          else
            (let s1 = s\<lparr> ls_size := sz, ls_mod := t \<rparr> in
             case nextWorkflowUpload (ls_workflow s1) text' of
               (full, app, off, ok) \<Rightarrow>
                 if \<not> ok then (None, s1)
                 else (Some (no_logs\<lparr> jl_workflow := full, jl_offset := off, jl_append := app \<rparr>),
                       s1\<lparr> ls_workflow := text' \<rparr>)))"

text \<open>A slow tick: all logs of the guest.\<close>

definition stream_slow :: "JobLogs \<Rightarrow> log_stream \<Rightarrow> JobLogs option \<times> log_stream" where
  "stream_slow logs s =
     (if jl_runner logs = '''' \<and> jl_agent logs = '''' \<and> jl_console logs = '''' \<and> jl_workflow logs = '''' then (None, s)
      else
        let sig = jl_runner logs @ nul @ jl_agent logs @ nul @ jl_console logs @ nul @ jl_workflow logs in
        if sig = ls_slow s then (None, s)
        else
          let s1 = s\<lparr> ls_slow := sig \<rparr> in
          if ls_workflow s1 \<noteq> '''' \<and> length (jl_workflow logs) < length (ls_workflow s1)
          then (Some (logs\<lparr> jl_workflow := '''' \<rparr>), s1)
          else (Some logs, if jl_workflow logs \<noteq> '''' then s1\<lparr> ls_workflow := jl_workflow logs \<rparr> else s1))"

section \<open>Lemmas\<close>

named_theorems worker_simps \<open>rewrite rules for the agent's fields\<close>

lemma finish_job_call:
  "\<exists>logs'. fst (finish_job wk j repo outcome vm warm msg logs ag) =
     CallFinished (finished_request wk j outcome vm warm msg logs') \<and> jl_runner logs' = jl_runner logs"
  by (auto simp: finish_job_def split: option.split prod.split)

lemma finish_job_pool [worker_simps]: "ag_pool (snd (finish_job wk j repo outcome vm warm msg logs ag)) = ag_pool ag"
  by (simp add: finish_job_def split: option.split prod.split)

lemma bind_caches_pool [worker_simps]:
  "ag_pool (bind_caches ip repo ag) = ag_pool ag" "ag_pool (unbind_caches ip ag) = ag_pool ag"
  "ag_inflight (bind_caches ip repo ag) = ag_inflight ag" "ag_inflight (unbind_caches ip ag) = ag_inflight ag"
  by (simp_all add: bind_caches_def unbind_caches_def)

lemma finished_request_fields [simp]:
  "fq_agent_id (finished_request wk j outcome vm warm msg logs) = wk_id wk"
  "fq_job_id (finished_request wk j outcome vm warm msg logs) = j"
  "fq_outcome (finished_request wk j outcome vm warm msg logs) = outcome"
  "fq_vm_id (finished_request wk j outcome vm warm msg logs) = vm"
  "fq_warm_bind (finished_request wk j outcome vm warm msg logs) = warm"
  "fq_error (finished_request wk j outcome vm warm msg logs) = msg"
  "fq_runner_log (finished_request wk j outcome vm warm msg logs) = jl_runner logs"
  by (simp_all add: finished_request_def)

lemma job_finished_not_busy:
  "JobFinished now err i p = (e, p') \<Longrightarrow> get_vm i p' = Some vm \<Longrightarrow> pv_state vm \<noteq> Busy"
  by (auto simp: JobFinished_def job_finished_section_def destroyNow_def destroy_result_def pool_simps Let_def
      split: option.splits if_splits)

lemma wait_success: "fst (waitForJob wk b c a) = ''success'' \<Longrightarrow> snd (waitForJob wk b c a) = None"
  by (auto simp: waitForJob_def Let_def split: if_splits option.splits runner_answer.splits)

lemma refine_success: "RefineOutcomeForJob reported text' name = ''success'' \<Longrightarrow> reported = ''success''"
  by (auto simp: RefineOutcomeForJob_def Let_def split: if_splits)

lemma end_guest_agent: "end_guest now err vm ag = (e, ag1) \<Longrightarrow> ag_pool ag1 = snd (JobFinished now err vm (ag_pool ag))"
  by (auto simp: end_guest_def split: prod.splits)

text \<open>Every end of a job is one finish report about it, with the logs that were collected.\<close>

lemma conclude_shape:
  assumes "conclude wk env job b ag = (err, call, ag')"
  obtains outcome msg logs where
    "call = CallFinished (finished_request wk (ja_job_id job) outcome (br_vm b) (br_warm b) msg logs)"
    and "jl_runner logs = jl_runner (je_logs env)"
    and "outcome = ''success'' \<longrightarrow>
      RefineOutcomeForJob (fst (waitForJob wk (je_has_runner env) None (je_answer env)))
        (jl_runner (je_logs env)) (ja_name job) = ''success''"
    and "ag_pool ag' = snd (JobFinished (je_now env) (je_destroy env) (br_vm b) (ag_pool ag))"
proof -
  obtain reported werr where w: "waitForJob wk (je_has_runner env) None (je_answer env) = (reported, werr)" by fastforce
  let ?outcome = "RefineOutcomeForJob reported (jl_runner (je_logs env)) (ja_name job)"
  obtain jerr ag1 where e: "end_guest (je_now env) (je_destroy env) (br_vm b) ag = (jerr, ag1)" by fastforce
  let ?fin = "\<lambda>outcome msg. finish_job wk (ja_job_id job) (ja_repo job) outcome (br_vm b) (br_warm b) msg (je_logs env) ag1"
  have "(\<exists>m. ?fin ''cancelled'' m = (call, ag')) \<or> (\<exists>m. ?fin ''timeout'' m = (call, ag')) \<or>
      (\<exists>m. ?fin ''error'' m = (call, ag')) \<or> (\<exists>m. ?fin ?outcome m = (call, ag'))"
    using assms unfolding conclude_def w e Let_def prod.case
    by (cases werr; cases jerr) (auto split: if_splits)
  then have "\<exists>outcome msg. ?fin outcome msg = (call, ag') \<and> (outcome = ''success'' \<longrightarrow> ?outcome = ''success'')"
    by fastforce
  then obtain outcome msg where f: "finish_job wk (ja_job_id job) (ja_repo job) outcome (br_vm b) (br_warm b) msg
      (je_logs env) ag1 = (call, ag')" "outcome = ''success'' \<longrightarrow> ?outcome = ''success''"
    by blast
  obtain logs where "call = CallFinished (finished_request wk (ja_job_id job) outcome (br_vm b) (br_warm b) msg logs)"
    "jl_runner logs = jl_runner (je_logs env)"
    using finish_job_call [of wk "ja_job_id job" "ja_repo job" outcome "br_vm b" "br_warm b" msg "je_logs env" ag1] f(1)
    by auto
  moreover have "ag_pool ag' = snd (JobFinished (je_now env) (je_destroy env) (br_vm b) (ag_pool ag))"
    using finish_job_pool [of wk "ja_job_id job" "ja_repo job" outcome "br_vm b" "br_warm b" msg "je_logs env" ag1]
      f(1) end_guest_agent [OF e] by simp
  ultimately show thesis using that f(2) w by simp
qed

lemma handleJob_cases:
  assumes "handleJob wk env job ag = Some (calls, err, ag')"
  obtains
    (failed) e p logs where "Bind (je_started env) (payload_of job) (je_rounds env) (ag_pool ag) = Some (Inl e, p)"
      "calls = [CallFinished (finished_request wk (ja_job_id job) ''error'' '''' False (je_text env e) logs)]"
      "err = Some (PoolError e)" "ag_pool ag' = p" "jl_runner logs = ''''"
  | (ran) b p ip call ag2 ag3 where "Bind (je_started env) (payload_of job) (je_rounds env) (ag_pool ag) = Some (Inr b, p)"
      "calls = [CallStarted (started_request wk (ja_job_id job) (br_vm b) (br_warm b)), call]"
      "conclude wk env job b (je_others env ag2) = (err, call, ag3)"
      "ip = (if je_guest_ip env = '''' then ''127.0.0.1'' else je_guest_ip env)"
      "ag' = (if ja_repo job \<noteq> '''' \<and> caches_on ag then unbind_caches ip ag3 else ag3)"
      "ag2 = (if ja_repo job \<noteq> '''' \<and> caches_on ag then bind_caches ip (ja_repo job) (ag\<lparr> ag_pool := p \<rparr>) else ag\<lparr> ag_pool := p \<rparr>)"
proof (cases "Bind (je_started env) (payload_of job) (je_rounds env) (ag_pool ag)")
  case None
  then show ?thesis using assms by (simp add: handleJob_def)
next
  case (Some x)
  obtain r p where x: "x = (r, p)" by fastforce
  show ?thesis
  proof (cases r)
    case (Inl e)
    let ?f = "finish_job wk (ja_job_id job) (ja_repo job) ''error'' '''' False (je_text env e) no_logs (ag\<lparr> ag_pool := p \<rparr>)"
    have c: "calls = [fst ?f]" "err = Some (PoolError e)" "ag' = snd ?f"
      using assms Some x Inl by (auto simp: handleJob_def split: prod.splits)
    obtain logs where "fst ?f = CallFinished (finished_request wk (ja_job_id job) ''error'' '''' False (je_text env e) logs)"
      "jl_runner logs = ''''"
      using finish_job_call [of wk "ja_job_id job" "ja_repo job" "''error''" "''''" False "je_text env e" no_logs
          "ag\<lparr> ag_pool := p \<rparr>"] by (auto simp: no_logs_def)
    then show ?thesis using failed [of e p logs] Some x Inl c by (simp add: finish_job_pool)
  next
    case (Inr b)
    have on: "caches_on (ag\<lparr> ag_pool := p \<rparr>) = caches_on ag" by (simp add: caches_on_def)
    let ?ip = "if je_guest_ip env = '''' then ''127.0.0.1'' else je_guest_ip env"
    let ?ag2 = "if ja_repo job \<noteq> '''' \<and> caches_on ag then bind_caches ?ip (ja_repo job) (ag\<lparr> ag_pool := p \<rparr>) else ag\<lparr> ag_pool := p \<rparr>"
    obtain e2 call ag3 where co: "conclude wk env job b (je_others env ?ag2) = (e2, call, ag3)" by (metis prod_cases3)
    have "calls = [CallStarted (started_request wk (ja_job_id job) (br_vm b) (br_warm b)), call]" "err = e2"
      "ag' = (if ja_repo job \<noteq> '''' \<and> caches_on ag then unbind_caches ?ip ag3 else ag3)"
      using assms Some x Inr co by (simp_all add: handleJob_def Let_def on)
    then show ?thesis using ran [of b p call ?ag2 ag3 ?ip] Some x Inr co by simp
  qed
qed

lemma unbound_after: 
  "ag_cache (unbind_caches ip ag) = Some g \<Longrightarrow> map_of (gg_binds g) (stripPort ip) = None"
  "ag_oci (unbind_caches ip ag) = Some o1 \<Longrightarrow> map_of (og_binds o1) (stripPort ip) = None"
  by (auto simp: unbind_caches_def UnbindRemote_def oci_UnbindRemote_def delete_conv')

text \<open>No answer yet: \<open>Bind\<close> still waits, for a guest that is in use or on its way in or out.\<close>

definition still_binding :: "job_env \<Rightarrow> JobAssignment \<Rightarrow> agent \<Rightarrow> bool" where
  "still_binding env job ag \<longleftrightarrow>
     waiting_rounds (je_started env) (jp_job_id (payload_of job)) (job_shape (payload_of job) (ag_pool ag)) (je_rounds env) (ag_pool ag)"

lemma handleJob_waits: "handleJob wk env job ag = None \<Longrightarrow> still_binding env job ag"
  by (auto simp: handleJob_def Bind_def still_binding_def Let_def
      split: option.splits sum.splits prod.splits if_splits intro: bind_loop_waits)

lemma job_reported:
  assumes "handleJob wk env job ag = Some (calls, err, ag')"
  shows "\<exists>before r. calls = before @ [CallFinished r] \<and> fq_job_id r = ja_job_id job \<and> fq_agent_id r = wk_id wk \<and>
    (before = [] \<and> fq_outcome r = ''error'' \<and> err \<noteq> None \<or>
     (\<exists>st. before = [CallStarted st] \<and> sq_job_id st = ja_job_id job \<and> sq_vm_id st = fq_vm_id r \<and>
        (\<forall>vm. get_vm (fq_vm_id r) (ag_pool ag') = Some vm \<longrightarrow> pv_state vm \<noteq> Busy) \<and>
        (ja_repo job \<noteq> '''' \<and> je_guest_ip env \<noteq> '''' \<longrightarrow>
          (ag_cache ag \<noteq> None \<longrightarrow> (\<forall>g. ag_cache ag' = Some g \<longrightarrow>
             map_of (gg_binds g) (stripPort (je_guest_ip env)) = None)) \<and>
          (ag_oci ag \<noteq> None \<longrightarrow> (\<forall>g. ag_oci ag' = Some g \<longrightarrow>
             map_of (og_binds g) (stripPort (je_guest_ip env)) = None)))))"
  using assms
proof (cases rule: handleJob_cases)
  case (failed e p logs)
  then show ?thesis by auto
next
  case (ran b p ip call ag2 ag3)
  obtain outcome msg logs where c: "call = CallFinished (finished_request wk (ja_job_id job) outcome (br_vm b) (br_warm b) msg logs)"
    and pool: "ag_pool ag3 = snd (JobFinished (je_now env) (je_destroy env) (br_vm b) (ag_pool (je_others env ag2)))"
    by (rule conclude_shape [OF ran(3)])
  have "ag_pool ag' = ag_pool ag3" unfolding ran(5) by (simp add: worker_simps)
  then have "\<forall>vm. get_vm (br_vm b) (ag_pool ag') = Some vm \<longrightarrow> pv_state vm \<noteq> Busy"
    using job_finished_not_busy pool by (metis prod.collapse)
  moreover have "ja_repo job \<noteq> '''' \<and> je_guest_ip env \<noteq> '''' \<longrightarrow>
      (ag_cache ag \<noteq> None \<longrightarrow> (\<forall>g. ag_cache ag' = Some g \<longrightarrow> map_of (gg_binds g) (stripPort (je_guest_ip env)) = None)) \<and>
      (ag_oci ag \<noteq> None \<longrightarrow> (\<forall>g. ag_oci ag' = Some g \<longrightarrow> map_of (og_binds g) (stripPort (je_guest_ip env)) = None))"
    using unbound_after [of ip ag3] ran(4) unfolding ran(5) by (auto simp: caches_on_def)
  ultimately show ?thesis using ran(2) c
    by (intro exI [of _ "[CallStarted (started_request wk (ja_job_id job) (br_vm b) (br_warm b))]"]
        exI [of _ "finished_request wk (ja_job_id job) outcome (br_vm b) (br_warm b) msg logs"])
      (auto simp: started_request_def)
qed

text \<open>
  C5. Whatever happens to a job (no guest for it, a runner that fails, is killed or never ends, a guest that cannot be
  destroyed), when the agent's handling of it ends, it ends with exactly one finish report about it, sent last and in
  its own name; before it there is at most the report that the job started, and then the guest is no longer busy and its
  address no longer gives access to the repository's caches. A handling that has not ended, after however many rounds, is
  still looking for a guest: no round was cancelled, and once the two deadlines of the bind are over every round found
  a guest that is busy, booting or being destroyed, or a create under way (such a wait has no bound of its own:
  \<open>undestroyed_guest_blocks_bind\<close>).
\<close>

theorem every_job_reported_once:
  "case handleJob wk env job ag of
     None \<Rightarrow> still_binding env job ag
   | Some (calls, err, ag') \<Rightarrow>
       (\<exists>before r. calls = before @ [CallFinished r] \<and> fq_job_id r = ja_job_id job \<and> fq_agent_id r = wk_id wk \<and>
        (before = [] \<and> fq_outcome r = ''error'' \<and> err \<noteq> None \<or>
         (\<exists>st. before = [CallStarted st] \<and> sq_job_id st = ja_job_id job \<and> sq_vm_id st = fq_vm_id r \<and>
            (\<forall>vm. get_vm (fq_vm_id r) (ag_pool ag') = Some vm \<longrightarrow> pv_state vm \<noteq> Busy) \<and>
            (ja_repo job \<noteq> '''' \<and> je_guest_ip env \<noteq> '''' \<longrightarrow>
              (ag_cache ag \<noteq> None \<longrightarrow> (\<forall>g. ag_cache ag' = Some g \<longrightarrow>
                 map_of (gg_binds g) (stripPort (je_guest_ip env)) = None)) \<and>
              (ag_oci ag \<noteq> None \<longrightarrow> (\<forall>g. ag_oci ag' = Some g \<longrightarrow>
                 map_of (og_binds g) (stripPort (je_guest_ip env)) = None))))))"
  using handleJob_waits [of wk env job ag] job_reported [of wk env job ag] by (auto split: option.split)


section \<open>An agent that runs one job\<close>

definition demo_worker :: Worker where
  "demo_worker = \<lparr> wk_id = ''a'', wk_simulate = 0, wk_deadline = 0, wk_capacity = 2, wk_wait_real = True \<rparr>"

definition demo_agent :: agent where
  "demo_agent = \<lparr> ag_pool = demo_pool [(''vm-1'', demo_warm ''vm-1'' 20)], ag_cache = Some (NewGateway (OpenStore 7 [] [])),
     ag_oci = None, ag_inflight = 0, ag_inv = \<lparr> ic_at = zero_time, ic_repos = [], ic_cache = None \<rparr> \<rparr>"

definition demo_assignment :: JobAssignment where
  "demo_assignment = \<lparr> ja_job_id = 7, ja_run_id = 1, ja_org = ''o'', ja_repo = ''o/r'', ja_name = ''build'',
     ja_labels = [], ja_runner_name = ''temperci-7'', ja_runner_id = 11, ja_jit = ''jit'',
     ja_status = AssignmentAssigned, ja_agent = ''a'' \<rparr>"

definition demo_round :: bind_env where
  "demo_round = \<lparr> be_now = 50, be_sample = None, be_cancelled = False, be_others = (\<lambda>p. p), be_create = Inl ErrNewID,
     be_runner_err = None, be_destroy_err = None \<rparr>"

definition demo_job_env :: "runner_answer \<Rightarrow> job_env" where
  "demo_job_env answer = \<lparr> je_started = 50, je_rounds = [demo_round], je_guest_ip = ''10.231.0.2'', je_others = (\<lambda>ag. ag),
     je_has_runner = True, je_answer = answer, je_logs = no_logs\<lparr> jl_runner := ''Running job: build'' \<rparr>, je_now = 60,
     je_destroy = None, je_report = None, je_text = (\<lambda>_. ''pool'') \<rparr>"

definition demo_call :: "string \<Rightarrow> JobFinishedRequest" where
  "demo_call outcome = finished_request demo_worker 7 outcome ''vm-1'' True '''' (no_logs\<lparr> jl_runner := ''Running job: build'' \<rparr>)"

lemma demo_run:
  "map_option (\<lambda>(calls, err, ag). (calls, err, map_option gg_binds (ag_cache ag)))
     (handleJob demo_worker (demo_job_env (RunnerExit 0)) demo_assignment demo_agent) =
   Some ([CallStarted (started_request demo_worker 7 ''vm-1'' True), CallFinished (demo_call ''success'')], None, Some [])"
  by code_simp

lemma demo_run_eq:
  obtains ag' where "handleJob demo_worker (demo_job_env (RunnerExit 0)) demo_assignment demo_agent =
    Some ([CallStarted (started_request demo_worker 7 ''vm-1'' True), CallFinished (demo_call ''success'')], None, ag')"
  using demo_run by auto

lemma every_job_reported_once_witness:
  "\<exists>calls err ag'. handleJob demo_worker (demo_job_env (RunnerExit 0)) demo_assignment demo_agent = Some (calls, err, ag') \<and>
     (\<forall>vm. get_vm ''vm-1'' (ag_pool ag') = Some vm \<longrightarrow> pv_state vm \<noteq> Busy)"
proof -
  obtain ag' where h: "handleJob demo_worker (demo_job_env (RunnerExit 0)) demo_assignment demo_agent =
      Some ([CallStarted (started_request demo_worker 7 ''vm-1'' True), CallFinished (demo_call ''success'')], None, ag')"
    by (rule demo_run_eq)
  have "fq_vm_id (demo_call ''success'') = ''vm-1''" by (simp add: demo_call_def)
  then show ?thesis using every_job_reported_once [where wk = demo_worker and env = "demo_job_env (RunnerExit 0)" and job = demo_assignment and ag = demo_agent] h by auto
qed



end
