(* ===== verification/AgentRun.thy ===== *)
theory AgentRun
  imports Worker
begin

text \<open>
  The agent's loop (\<open>Worker.Run\<close> in \<open>internal/agent/worker.go\<close>) as a step relation, and the composition of
  its handling of a job with the control plane's: the requests \<open>handleJob\<close> sends are delivered to the
  handlers of \<open>ControlServer\<close>, with the operations of other agents between them.
\<close>

section \<open>Between the agent and the control plane\<close>

text \<open>The assignment in the answer to a claim.\<close>

definition job_assignment_of :: "assignment \<Rightarrow> JobAssignment" where
  "job_assignment_of a =
     \<lparr> ja_job_id = a_job_id a, ja_run_id = a_run_id a, ja_org = a_org a, ja_repo = a_repo a,
        ja_name = a_name a, ja_labels = a_labels a, ja_runner_name = a_runner_name a, ja_runner_id = a_runner_id a,
        ja_jit = a_jit a, ja_status = a_status a, ja_agent = a_agent_id a \<rparr>"

fun deliver :: "HandlerConfig option \<Rightarrow> minter \<Rightarrow> gotime \<Rightarrow> agent_call \<Rightarrow> server \<Rightarrow> nat \<times> server" where
  "deliver handler mint now (CallStarted r) sv = handleJobStarted now r sv"
| "deliver handler mint now (CallFinished r) sv = handleJobFinished handler mint now r sv"

type_synonym slot = "(gotime \<times> store_op) list \<times> gotime"

text \<open>Before each call the others act on the store; then the call arrives, at its time.\<close>

fun exchange ::
  "HandlerConfig option \<Rightarrow> minter \<Rightarrow> (slot \<times> agent_call) list \<Rightarrow> server \<Rightarrow> nat list \<times> server" where
  "exchange handler mint [] sv = ([], sv)"
| "exchange handler mint (((others, now), call) # calls) sv =
     (case deliver handler mint now call (fold (\<lambda>(t, op) v. snd (do_op t op v)) others sv) of
        (code, sv1) \<Rightarrow> (case exchange handler mint calls sv1 of (codes, sv2) \<Rightarrow> (code # codes, sv2)))"

definition quiet :: "string \<Rightarrow> slot \<Rightarrow> bool" where
  "quiet me sl \<longleftrightarrow> list_all (\<lambda>(t, op). by_other me op) (fst sl)"

text \<open>The runner's log is that of another job than the one of this name.\<close>

definition another_job :: "string \<Rightarrow> string \<Rightarrow> bool" where
  "another_job name text' \<longleftrightarrow>
     name \<noteq> '''' \<and> RunningJobName text' \<noteq> '''' \<and> \<not> equal_fold (RunningJobName text') name"

lemma another_job_iff: "RefineOutcomeForJob ''success'' text' name = ''error'' \<longleftrightarrow> another_job name text'"
  by (simp add: RefineOutcomeForJob_def another_job_def Let_def)

lemma others_store: "sv_store (fold (\<lambda>(t, op) v. snd (do_op t op v)) ops sv) = run_ops ops (sv_store sv)"
  unfolding run_ops_def by (induction ops arbitrary: sv) auto

lemma others_keep:
  assumes "owned_by me a" and "lookup_job (sv_store sv) j = Some a" and "quiet me sl"
  shows "lookup_job (sv_store (fold (\<lambda>(t, op) v. snd (do_op t op v)) (fst sl) sv)) j = Some a"
  using assms by (simp add: others_store by_others_run quiet_def)

lemma start_record_more [simp]: "a_name (start_record now agent vm warm a) = a_name a"
  "a_org (start_record now agent vm warm a) = a_org a" "a_labels (start_record now agent vm warm a) = a_labels a"
  by (simp_all add: start_record_def Let_def)

lemma op_started_lookup:
  assumes "lookup_job s j = Some a" "a_agent_id a = me" "a_status a \<in> {AssignmentAssigned, AssignmentStarted}"
  shows "run_op now (Op_started j me vm warm) s =
    (None, Some (start_record now me vm warm a), set_job j (start_record now me vm warm a) s)"
  using assms by (auto simp: of_locked_def MarkStarted_def Let_def)

lemma op_finished_lookup:
  assumes "lookup_job s j = Some a" "a_agent_id a = me" "a_status a \<in> {AssignmentAssigned, AssignmentStarted}"
  shows "run_op now (Op_finished j me outcome vm warm msg) s =
    (None, Some (finish_record now me outcome vm warm msg a), set_job j (finish_record now me outcome vm warm msg a) s)"
  using assms by (auto simp: of_locked_def MarkFinished_def Let_def)

lemma started_delivered:
  assumes "lookup_job (sv_store sv) j = Some a" "a_agent_id a = wk_id wk" "wk_id wk \<noteq> ''''" "j \<noteq> 0"
    "a_status a = AssignmentAssigned"
  shows "\<exists>sv'. handleJobStarted now (started_request wk j vm warm) sv = (200, sv') \<and>
    lookup_job (sv_store sv') j = Some (start_record now (wk_id wk) vm warm a)"
  using assms
  by (simp add: handleJobStarted_def started_request_def do_op_def op_started_lookup Let_def del: run_op.simps)

lemma finish_report_delivered:
  assumes "lookup_job (sv_store sv) (fq_job_id r) = Some a" "a_agent_id a = fq_agent_id r"
    "a_status a \<in> {AssignmentAssigned, AssignmentStarted}"
  shows "\<exists>sv' b. finish_report now r outcome msg sv = (200, sv') \<and> lookup_job (sv_store sv') (fq_job_id r) = Some b \<and>
    a_status b = AssignmentFinished \<and> a_agent_id b = fq_agent_id r \<and> a_outcome b = outcome \<and> a_jit b = ''''"
proof -
  let ?b = "finish_record now (fq_agent_id r) outcome (fq_vm_id r) (fq_warm_bind r) msg a"
  have "\<exists>b. lookup_job (op_store now (Op_cache_stats (fq_job_id r) h m i out) (set_job (fq_job_id r) ?b (sv_store sv)))
      (fq_job_id r) = Some b \<and> a_status b = AssignmentFinished \<and> a_agent_id b = fq_agent_id r \<and>
      a_outcome b = a_outcome ?b \<and> a_jit b = ''''" for h m i out
    by (simp add: op_store_def of_locked_def SetCacheStats_def Let_def)
  moreover have "a_outcome ?b = outcome" using assms(3) by auto
  ultimately show ?thesis
    using assms
    by (simp add: finish_report_def do_op_def [of _ "Op_finished _ _ _ _ _ _"] op_finished_lookup Let_def
        del: run_op.simps)
qed

text \<open>How the control plane closes a job on the report of the agent it belongs to.\<close>

definition closed_as_reported :: "JobFinishedRequest \<Rightarrow> string \<Rightarrow> server \<Rightarrow> bool" where
  "closed_as_reported r outcome sv \<longleftrightarrow>
     (case lookup_job (sv_store sv) (fq_job_id r) of
        None \<Rightarrow> False
      | Some b \<Rightarrow> a_status b = AssignmentFinished \<and> a_agent_id b = fq_agent_id r \<and> a_outcome b = outcome \<and>
          a_jit b = '''')"

definition minted_anew :: "int \<Rightarrow> server \<Rightarrow> bool" where
  "minted_anew j sv \<longleftrightarrow>
     j \<in> set (claimable (sv_store sv)) \<and> map_option a_agent_id (lookup_job (sv_store sv) j) = Some ''''"

lemma Remint_failed:
  "Remint c mint now j reason sv = (Inl e, sv') \<Longrightarrow> sv' = sv"
  by (auto simp: Remint_def Let_def split: option.splits if_splits sum.splits)

lemma Remint_done:
  assumes "store_inv (sv_store sv)" and "Remint c mint now j reason sv = (Inr got, sv')"
  shows "minted_anew j sv'"
proof -
  obtain a jit where a: "lookup_job (sv_store sv) j = Some a" "a_org a \<noteq> ''''" "a_labels a \<noteq> []"
    "mint \<lparr> jr_org = a_org a, jr_name = runner_name (a_job_id a), jr_group = hc_runner_group c, jr_labels = a_labels a,
       jr_installation = a_installation_id a \<rparr> = Inr jit"
    using assms(2) by (auto simp: Remint_def Get_def Let_def split: option.splits if_splits sum.splits)
  have same: "Remint c (\<lambda>_. Inr jit) now j reason sv = Remint c mint now j reason sv"
    using a by (simp add: Remint_def Get_def Let_def)
  obtain sv1 b where "Remint c (\<lambda>_. Inr jit) now j reason sv = (Inr (Some b), sv1)"
    "lookup_job (sv_store sv1) = (lookup_job (sv_store sv))(j \<mapsto> b)" "a_agent_id b = ''''"
    "j \<in> set (claimable (sv_store sv1))"
    using Remint_spec [OF assms(1) a(1-3), of "\<lambda>_. Inr jit" jit c now reason] by metis
  then show ?thesis using assms(2) same by (auto simp: minted_anew_def)
qed

lemma finished_delivered:
  assumes l: "lookup_job (sv_store sv) (fq_job_id r) = Some a" "a_agent_id a = fq_agent_id r"
    and st: "a_status a \<in> {AssignmentAssigned, AssignmentStarted}" and ids: "fq_agent_id r \<noteq> ''''" "fq_job_id r \<noteq> 0"
    and out: "fq_outcome r \<noteq> ''''" and inv: "store_inv (sv_store sv)"
    and h: "handleJobFinished handler mint now r sv = (code, sv')"
  shows "code = 200 \<and>
    (if another_job (a_name a) (fq_runner_log r) then closed_as_reported r ''error'' sv' \<or> minted_anew (fq_job_id r) sv'
     else closed_as_reported r (fq_outcome r) sv')"
proof -
  have other: "ran_other_job r sv = another_job (a_name a) (fq_runner_log r)"
    using l st by (auto simp: ran_other_job_def Get_def another_job_iff another_job_def)
  have close: "c = 200 \<and> closed_as_reported r outcome v" if "finish_report now r outcome msg sv = (c, v)" for outcome msg c v
    using finish_report_delivered [OF l st, of now outcome msg] that by (auto simp: closed_as_reported_def)
  show ?thesis
  proof (cases "another_job (a_name a) (fq_runner_log r)")
    case False
    then show ?thesis using h close ids out by (auto simp: handleJobFinished_def Let_def other)
  next
    case True
    show ?thesis
    proof (cases handler)
      case None
      then show ?thesis using h close ids True by (auto simp: handleJobFinished_def Let_def other split: if_splits)
    next
      case (Some c)
      obtain res sv1 where re: "Remint c mint now (fq_job_id r) (other_job_reason r) sv = (res, sv1)" by fastforce
      show ?thesis
      proof (cases res)
        case (Inl e)
        then have "sv1 = sv" using re Remint_failed by blast
        then show ?thesis using h close ids True Inl re Some
          by (auto simp: handleJobFinished_def Let_def other split: if_splits)
      next
        case (Inr got)
        have "minted_anew (fq_job_id r) sv1" using Remint_done [OF inv] re Inr by blast
        then show ?thesis using h ids True Inr re Some
          by (auto simp: handleJobFinished_def Let_def other minted_anew_def split: if_splits)
      qed
    qed
  qed
qed

section \<open>From the claim to the end of the job\<close>

lemma others_inv:
  "store_inv (sv_store sv) \<Longrightarrow> store_inv (sv_store (fold (\<lambda>(t, op) v. snd (do_op t op v)) ops sv))"
  by (induction ops arbitrary: sv) (auto simp: op_store_inv)

definition given_to :: "string \<Rightarrow> assignment \<Rightarrow> server \<Rightarrow> bool" where
  "given_to me a sv \<longleftrightarrow> store_inv (sv_store sv) \<and> lookup_job (sv_store sv) (a_job_id a) = Some a \<and>
     a_status a = AssignmentAssigned \<and> a_agent_id a = me \<and> me \<noteq> ''''"

lemma claim_loop_gives:
  "store_inv (sv_store sv) \<Longrightarrow> claim_loop me cached polls sv = (Some a, sv') \<Longrightarrow> given_to me a sv'"
proof (induction me cached polls sv rule: claim_loop.induct)
  case (2 me cached now others polls sv)
  have inv: "store_inv (snd (ClaimNext now me cached (sv_store sv)))" by (rule ClaimNext_inv [OF 2(2)])
  show ?case
  proof (cases rule: ClaimNext_cases [of now me cached "sv_store sv"])
    case none
    then show ?thesis using 2 others_inv by simp
  next
    case (some i b)
    have "a_job_id b = pending (sv_store sv) ! i" using store_invD(4) [OF 2(2) some(4)] .
    then show ?thesis using 2(3) some inv by (auto simp: given_to_def assign_to_def Let_def)
  qed
qed simp

lemma claim_gives:
  assumes "store_inv (sv_store sv0)" and "handleJobClaim now (claim_request wk cap) polls sv0 = (Inr (Some a), sv)"
  shows "given_to (wk_id wk) a sv"
proof -
  obtain v sv2 where c: "claim_loop (wk_id wk) (cs_repos cap) polls v = (Some a, sv2)"
    and v: "sv_store v = sv_store sv0" "sv_store sv = sv_store sv2"
    using assms(2) that [of "sv0\<lparr> sv_agents := Touch now (wk_id wk) (UpdateCapacity now (wk_id wk) (cs_free cap)
      (cs_warm cap) (cs_busy cap) (sv_agents sv0)) \<rparr>"]
    by (auto simp: handleJobClaim_def claim_request_def Let_def split: if_splits prod.splits option.splits)
  show ?thesis using claim_loop_gives [OF _ c] assms(1) v by (simp add: given_to_def)
qed

lemma exchange_two:
  "exchange handler mint [(sl1, c1), (sl2, c2)] sv =
     (let (code1, sv1) = deliver handler mint (snd sl1) c1 (fold (\<lambda>(t, op) v. snd (do_op t op v)) (fst sl1) sv);
          (code2, sv2) = deliver handler mint (snd sl2) c2 (fold (\<lambda>(t, op) v. snd (do_op t op v)) (fst sl2) sv1)
      in ([code1, code2], sv2))"
  by (cases sl1; cases sl2) (simp split: prod.splits)

lemma handleJobStarted_inv: "store_inv (sv_store sv) \<Longrightarrow> store_inv (sv_store (snd (handleJobStarted now r sv)))"
  by (auto simp: handleJobStarted_def Let_def split: prod.splits option.splits dest!: do_op_storeD intro: op_store_inv)

definition closing :: "string \<Rightarrow> JobFinishedRequest \<Rightarrow> server \<Rightarrow> bool" where
  "closing name r sv \<longleftrightarrow>
     (if another_job name (fq_runner_log r) then closed_as_reported r ''error'' sv \<or> minted_anew (fq_job_id r) sv
      else closed_as_reported r (fq_outcome r) sv)"

lemma finish_after_others:
  assumes "lookup_job (sv_store sv) (fq_job_id r) = Some a" "owned_by (fq_agent_id r) a" "quiet (fq_agent_id r) sl"
    and "a_status a \<in> {AssignmentAssigned, AssignmentStarted}" "fq_job_id r \<noteq> 0" "fq_outcome r \<noteq> ''''"
    and "store_inv (sv_store sv)"
    and "deliver handler mint (snd sl) (CallFinished r) (fold (\<lambda>(t, op) v. snd (do_op t op v)) (fst sl) sv) = (code, sv')"
  shows "code = 200 \<and> closing (a_name a) r sv'"
  unfolding closing_def
  using assms(2,4-6,8) finished_delivered [OF others_keep [OF assms(2,1,3)], of handler mint "snd sl" code sv']
    others_inv [OF assms(7), of "fst sl"]
  by (simp add: owned_by_def)

lemma wait_names_outcome: "fst (waitForJob wk b c answer) \<noteq> ''''"
  by (auto simp: waitForJob_def Let_def split: option.splits runner_answer.splits)

lemma refine_names_outcome: "reported \<noteq> '''' \<Longrightarrow> RefineOutcomeForJob reported text' name \<noteq> ''''"
  by (simp add: RefineOutcomeForJob_def Let_def)

lemma finish_job_outcome:
  "finish_job wk j repo outcome vm warm msg logs ag = (CallFinished r, ag') \<Longrightarrow> fq_outcome r = outcome"
  by (auto simp: finish_job_def finished_request_def split: option.splits if_splits prod.splits)

lemma conclude_names_outcome:
  assumes "conclude wk env job b ag = (err, CallFinished r, ag')"
  shows "fq_outcome r \<noteq> ''''"
proof -
  obtain reported werr where w: "waitForJob wk (je_has_runner env) None (je_answer env) = (reported, werr)" by fastforce
  let ?out = "RefineOutcomeForJob reported (jl_runner (je_logs env)) (ja_name job)"
  have n: "?out \<noteq> ''''" using w wait_names_outcome [of wk "je_has_runner env" None "je_answer env"]
    by (simp add: refine_names_outcome)
  obtain jerr ag1 where e: "end_guest (je_now env) (je_destroy env) (br_vm b) ag = (jerr, ag1)" by fastforce
  have "\<exists>out msg. out \<noteq> '''' \<and> finish_job wk (ja_job_id job) (ja_repo job) out (br_vm b) (br_warm b) msg (je_logs env) ag1 =
      (CallFinished r, ag')"
    using assms n unfolding conclude_def w e Let_def prod.case
    by (cases werr; cases jerr) (auto split: if_splits)
  then show ?thesis using finish_job_outcome by blast
qed

text \<open>The job as the agent leaves it when only other agents acted on the store.\<close>

lemma job_closed:
  assumes "given_to (wk_id wk) a sv" and "a_job_id a \<noteq> 0"
    and run: "handleJob wk env (job_assignment_of a) ag = Some (calls, err, ag')"
    and "length slots = length calls" and "list_all (quiet (wk_id wk)) slots"
  shows "\<exists>r. last calls = CallFinished r \<and> fq_job_id r = a_job_id a \<and>
    (case exchange handler mint (zip slots calls) sv of (codes, sv') \<Rightarrow>
       set codes = {200} \<and>
       (if another_job (a_name a) (fq_runner_log r)
        then closed_as_reported r ''error'' sv' \<or> minted_anew (a_job_id a) sv'
        else closed_as_reported r (fq_outcome r) sv'))"
proof -
  have a: "lookup_job (sv_store sv) (a_job_id a) = Some a" "owned_by (wk_id wk) a" "store_inv (sv_store sv)"
      "a_status a = AssignmentAssigned" "a_agent_id a = wk_id wk" "wk_id wk \<noteq> ''''"
    using assms(1) by (auto simp: given_to_def owned_by_def)
  have id: "ja_job_id (job_assignment_of a) = a_job_id a" by (simp add: job_assignment_of_def)
  show ?thesis using run
  proof (cases rule: handleJob_cases)
    case (failed e p logs)
    obtain sl where sl: "slots = [sl]" "quiet (wk_id wk) sl" using assms(4,5) failed(2) by (auto simp: length_Suc_conv)
    define r where "r = finished_request wk (a_job_id a) ''error'' '''' False (je_text env e) logs"
    obtain others t where p: "sl = (others, t)" by (cases sl)
    obtain code sv' where d: "deliver handler mint t (CallFinished r) (fold (\<lambda>(t, op) v. snd (do_op t op v)) others sv) = (code, sv')"
      by fastforce
    have "code = 200 \<and> closing (a_name a) r sv'"
      by (rule finish_after_others [where sl = sl and sv = sv]) (use a sl(2) assms(2) d in \<open>simp_all add: r_def p\<close>)
    then have "set [code] = {200} \<and> closing (a_name a) r sv'" by simp
    moreover have "fq_job_id r = a_job_id a" by (simp add: r_def)
    ultimately show ?thesis using d
      by (intro exI [of _ r]) (simp add: closing_def cong: if_cong add: failed(2) sl(1) p r_def [symmetric] id)
  next
    case (ran b p ip call ag2 ag3)
    obtain outcome msg logs where c: "call = CallFinished (finished_request wk (a_job_id a) outcome (br_vm b) (br_warm b) msg logs)"
      by (rule conclude_shape [OF ran(3)]) (simp add: id)
    define r where "r = finished_request wk (a_job_id a) outcome (br_vm b) (br_warm b) msg logs"
    have out: "fq_outcome r \<noteq> ''''"
      by (rule conclude_names_outcome) (use ran(3) c in \<open>simp add: r_def\<close>)
    obtain sl1 sl2 where sl: "slots = [sl1, sl2]" "quiet (wk_id wk) sl1" "quiet (wk_id wk) sl2"
      using assms(4,5) ran(2) by (auto simp: length_Suc_conv)
    let ?others = "\<lambda>sl v. fold (\<lambda>(t, op) v. snd (do_op t op v)) (fst sl) v"
    let ?st = "started_request wk (a_job_id a) (br_vm b) (br_warm b)"
    obtain sv1 where s1: "handleJobStarted (snd sl1) ?st (?others sl1 sv) = (200, sv1)"
      "lookup_job (sv_store sv1) (a_job_id a) = Some (start_record (snd sl1) (wk_id wk) (br_vm b) (br_warm b) a)"
      using started_delivered [OF others_keep [OF a(2,1) sl(2)] a(5,6) assms(2) a(4)] by blast
    have inv1: "store_inv (sv_store sv1)" using handleJobStarted_inv [OF others_inv [OF a(3)]] s1(1) by (metis snd_conv)
    obtain code sv' where d: "deliver handler mint (snd sl2) (CallFinished r) (?others sl2 sv1) = (code, sv')" by fastforce
    have "code = 200 \<and> closing (a_name (start_record (snd sl1) (wk_id wk) (br_vm b) (br_warm b) a)) r sv'"
      by (rule finish_after_others [where sl = sl2 and sv = sv1])
        (use s1(2) a(6) sl(3) assms(2) d inv1 out in \<open>simp_all add: r_def owned_by_def\<close>)
    then have "set [200, code] = {200} \<and> closing (a_name a) r sv'" by simp
    moreover have "fq_job_id r = a_job_id a" by (simp add: r_def)
    ultimately show ?thesis using d s1(1)
      by (intro exI [of _ r]) (simp add: closing_def cong: if_cong add: ran(2) sl(1) exchange_two r_def [symmetric] c id)
  qed
qed

text \<open>
  The last report takes the job from the agent, whatever has happened to it meanwhile: it is closed, minted anew, or
  was no longer the agent's to close.
\<close>

definition held_by :: "string \<Rightarrow> int \<Rightarrow> server \<Rightarrow> bool" where
  "held_by me j sv \<longleftrightarrow>
     (case lookup_job (sv_store sv) j of
        None \<Rightarrow> False
      | Some b \<Rightarrow> a_agent_id b = me \<and> a_status b \<in> {AssignmentAssigned, AssignmentStarted})"

lemma op_finished_releases:
  "lookup_job (op_store now (Op_finished j me outcome vm warm msg) s) j = Some b \<Longrightarrow>
     \<not> (a_agent_id b = me \<and> a_status b \<in> {AssignmentAssigned, AssignmentStarted})"
  by (auto simp: op_store_def of_locked_def MarkFinished_def finish_record_def Let_def
      split: option.splits sum.splits if_splits)

lemma op_stats_same:
  "lookup_job (op_store now (Op_cache_stats j h m i out) s) j = Some b \<Longrightarrow>
     \<exists>a. lookup_job s j = Some a \<and> a_agent_id b = a_agent_id a \<and> a_status b = a_status a"
  by (auto simp: op_store_def of_locked_def SetCacheStats_def Let_def split: option.splits)

lemma finish_report_releases:
  assumes "finish_report now r outcome msg sv = (code, sv')"
  shows "\<not> held_by (fq_agent_id r) (fq_job_id r) sv'"
proof -
  let ?fin = "Op_finished (fq_job_id r) (fq_agent_id r) outcome (fq_vm_id r) (fq_warm_bind r) msg"
  let ?stats = "Op_cache_stats (fq_job_id r) (fq_cache_hits r) (fq_cache_misses r) (fq_cache_bytes_in r) (fq_cache_bytes_out r)"
  obtain e sv1 where d: "do_op now ?fin sv = (e, sv1)" by fastforce
  then have s: "sv_store sv1 = op_store now ?fin (sv_store sv)" using do_op_store [of now ?fin sv] by simp
  have "sv_store (snd (finish_report now r outcome msg sv)) \<in> {sv_store sv1, op_store now ?stats (sv_store sv1)}"
    by (cases e) (simp_all add: finish_report_def d Let_def)
  then have "sv_store sv' \<in> {sv_store sv1, op_store now ?stats (sv_store sv1)}" using assms by simp
  then have same: "\<exists>a. lookup_job (sv_store sv1) (fq_job_id r) = Some a \<and> a_agent_id b = a_agent_id a \<and> a_status b = a_status a"
    if "lookup_job (sv_store sv') (fq_job_id r) = Some b" for b
    using op_stats_same [of now "fq_job_id r"] that by (metis empty_iff insert_iff)
  show ?thesis
  proof
    assume "held_by (fq_agent_id r) (fq_job_id r) sv'"
    then obtain b where b: "lookup_job (sv_store sv') (fq_job_id r) = Some b" "a_agent_id b = fq_agent_id r"
      "a_status b \<in> {AssignmentAssigned, AssignmentStarted}"
      by (auto simp: held_by_def split: option.splits)
    obtain a where "lookup_job (sv_store sv1) (fq_job_id r) = Some a" "a_agent_id b = a_agent_id a" "a_status b = a_status a"
      using same [OF b(1)] by blast
    then show False using op_finished_releases [of now "fq_job_id r" "fq_agent_id r"] b(2,3) unfolding s by metis
  qed
qed

lemma finished_releases:
  assumes "store_inv (sv_store sv)" and "fq_agent_id r \<noteq> ''''" "fq_job_id r \<noteq> 0"
    and "handleJobFinished handler mint now r sv = (code, sv')"
  shows "\<not> held_by (fq_agent_id r) (fq_job_id r) sv'"
proof (cases "\<exists>c got sv1. handler = Some c \<and> Remint c mint now (fq_job_id r) (other_job_reason r) sv = (Inr got, sv1) \<and>
    sv_store sv' = sv_store sv1")
  case True
  then have "minted_anew (fq_job_id r) sv'" using Remint_done [OF assms(1)] by (fastforce simp: minted_anew_def)
  then show ?thesis using assms(2) by (auto simp: minted_anew_def held_by_def split: option.splits)
next
  case False
  then have "\<exists>outcome msg v. finish_report now r outcome msg v = (code, sv')"
    using assms(2-4) by (auto simp: handleJobFinished_def Let_def split: if_splits option.splits prod.splits sum.splits)
  then show ?thesis using finish_report_releases by blast
qed

lemma deliver_inv: "store_inv (sv_store sv) \<Longrightarrow> store_inv (sv_store (snd (deliver handler mint now call sv)))"
  using acts_store_inv [OF started_acts [unfolded sv_acts_def]] acts_store_inv [OF finished_acts [unfolded sv_acts_def]]
  by (cases call) simp_all

lemma exchange_releases:
  assumes "store_inv (sv_store sv)" and "fq_agent_id r \<noteq> ''''" "fq_job_id r \<noteq> 0"
    and "exchange handler mint (before @ [(sl, CallFinished r)]) sv = (codes, sv')"
  shows "\<not> held_by (fq_agent_id r) (fq_job_id r) sv'"
  using assms(1,4)
proof (induction before arbitrary: sv codes)
  case Nil
  then show ?case using finished_releases [OF others_inv assms(2,3)] by (cases sl) (auto split: prod.splits)
next
  case (Cons x before)
  obtain others now call where x: "x = ((others, now), call)" by (metis prod.collapse)
  show ?case using Cons.prems(2) Cons.IH deliver_inv [OF others_inv [OF Cons.prems(1)]] unfolding x
    by (auto split: prod.splits) (metis snd_conv)
qed


section \<open>A job from its webhook to its end\<close>

definition demo_snapshot :: CapacitySnapshot where
  "demo_snapshot = fst (snapshot demo_worker 50 (Some None) (Some None) [] demo_agent)"

definition demo_taken_job :: assignment where
  "demo_taken_job = (case lookup_job (sv_store demo_assigned) 7 of Some a \<Rightarrow> a | None \<Rightarrow> zero_assignment)"

definition demo_run_env :: job_env where
  "demo_run_env = (demo_job_env (RunnerExit 0))\<lparr> je_logs := no_logs\<lparr> jl_runner := ''Running job: e2e'' \<rparr> \<rparr>"

definition demo_finish :: JobFinishedRequest where
  "demo_finish = finished_request demo_worker 7 ''success'' ''vm-1'' True ''''
     (no_logs\<lparr> jl_runner := ''Running job: e2e'' \<rparr>)"

definition demo_slots :: "slot list" where
  "demo_slots = [([(6, Op_claim ''b'' [])], 7), ([(8, Op_finished 7 ''b'' ''failure'' '''' False '''')], 9)]"

lemma demo_claim:
  "handleJobClaim 6 (claim_request demo_worker demo_snapshot) [(6, [])] demo_minted =
     (Inr (Some demo_taken_job), snd (handleJobClaim 6 (claim_request demo_worker demo_snapshot) [(6, [])] demo_minted))"
proof -
  have "fst (handleJobClaim 6 (claim_request demo_worker demo_snapshot) [(6, [])] demo_minted) = Inr (Some demo_taken_job)"
    by code_simp
  then show ?thesis by (metis prod.collapse)
qed

lemma demo_handled:
  obtains ag' where "handleJob demo_worker demo_run_env (job_assignment_of demo_taken_job) demo_agent =
    Some ([CallStarted (started_request demo_worker 7 ''vm-1'' True), CallFinished demo_finish], None, ag')"
proof -
  have "map_option (\<lambda>(calls, err, ag). (calls, err))
      (handleJob demo_worker demo_run_env (job_assignment_of demo_taken_job) demo_agent) =
    Some ([CallStarted (started_request demo_worker 7 ''vm-1'' True), CallFinished demo_finish], None)"
    by code_simp
  then show ?thesis using that by auto
qed


section \<open>The loop\<close>

datatype phase = Polling | Claiming CapacitySnapshot | Stopped

record run_state =
  rn_phase :: phase
  rn_agent :: agent
  rn_jobs :: "JobAssignment list"

text \<open>
  \<open>Run\<close>, once registered: it looks at the capacity, claims when slots are free and starts a handler for the job
  it is given; handlers (in \<open>rn_jobs\<close>) and heartbeats go on beside it, also after it has stopped, since it
  waits for them. A \<open>work\<close> step is whatever handlers and the pool's own loop do to the agent's state.
\<close>

definition run_start :: "agent \<Rightarrow> run_state" where
  "run_start ag = \<lparr> rn_phase = Polling, rn_agent = ag, rn_jobs = [] \<rparr>"

text \<open>\<open>Run\<close> sets a negative capacity to zero before anything else.\<close>

definition run_worker :: "Worker \<Rightarrow> Worker" where
  "run_worker wk = wk\<lparr> wk_capacity := (if wk_capacity wk < 0 then 0 else wk_capacity wk) \<rparr>"

inductive run_step :: "Worker \<Rightarrow> run_state \<Rightarrow> run_state \<Rightarrow> bool" for wk where
  look: "snapshot wk now smp1 smp2 vms ag = (cap, ag') \<Longrightarrow>
     run_step wk \<lparr> rn_phase = Polling, rn_agent = ag, rn_jobs = js \<rparr>
       \<lparr> rn_phase = (if cs_free cap \<le> 0 then Polling else Claiming cap), rn_agent = ag', rn_jobs = js \<rparr>"
| no_job: "run_step wk \<lparr> rn_phase = Claiming cap, rn_agent = ag, rn_jobs = js \<rparr>
     \<lparr> rn_phase = Polling, rn_agent = ag, rn_jobs = js \<rparr>"
| claimed: "run_step wk \<lparr> rn_phase = Claiming cap, rn_agent = ag, rn_jobs = js \<rparr>
     \<lparr> rn_phase = Polling, rn_agent = addInFlight 1 ag, rn_jobs = job # js \<rparr>"
| ended: "job \<in> set js \<Longrightarrow> run_step wk \<lparr> rn_phase = ph, rn_agent = ag, rn_jobs = js \<rparr>
     \<lparr> rn_phase = ph, rn_agent = addInFlight (- 1) ag, rn_jobs = remove1 job js \<rparr>"
| heartbeat: "register now errs rm_ok rm_tree answer ag = (e, ag') \<Longrightarrow>
     run_step wk \<lparr> rn_phase = ph, rn_agent = ag, rn_jobs = js \<rparr> \<lparr> rn_phase = ph, rn_agent = ag', rn_jobs = js \<rparr>"
| work: "ag_inflight ag' = ag_inflight ag \<Longrightarrow>
     run_step wk \<lparr> rn_phase = ph, rn_agent = ag, rn_jobs = js \<rparr> \<lparr> rn_phase = ph, rn_agent = ag', rn_jobs = js \<rparr>"
| stop: "run_step wk \<lparr> rn_phase = ph, rn_agent = ag, rn_jobs = js \<rparr> \<lparr> rn_phase = Stopped, rn_agent = ag, rn_jobs = js \<rparr>"

inductive_cases run_stepE: "run_step wk st st'"

inductive run_reach :: "Worker \<Rightarrow> agent \<Rightarrow> run_state \<Rightarrow> bool" for wk ag where
  started: "run_reach wk ag (run_start ag)"
| stepped: "run_reach wk ag st \<Longrightarrow> run_step wk st st' \<Longrightarrow> run_reach wk ag st'"

lemma free_slots_closed:
  "free_slots capacity c inflight remaining =
     max 0 (min (capacity - max (ct_busy c) inflight) (ct_warm c + remaining - max 0 (inflight - ct_busy c)))"
  unfolding free_slots_def Let_def by (simp add: max_def min_def)

lemma snapshot_inflight:
  assumes "snapshot wk now smp1 smp2 vms ag = (cap, ag')"
  shows "ag_inflight ag' = ag_inflight ag \<and>
    (0 < cs_free cap \<longrightarrow> ag_inflight ag < wk_capacity wk \<and> cs_busy cap < wk_capacity wk \<and>
       max 0 (ag_inflight ag - cs_busy cap) < cs_warm cap + fst (RemainingCreates smp1 (ag_pool ag)))"
proof -
  have inv: "ag_inflight (snd (cachedInventory now x)) = ag_inflight x" for x
    by (simp add: cachedInventory_def Let_def)
  show ?thesis
    using assms inv [of "ag\<lparr> ag_pool := snd (RemainingCreates smp1 (ag_pool ag)) \<rparr>"]
    by (auto simp: snapshot_def free_slots_closed Let_def case_prod_unfold)
qed

lemma register_inflight: "register now errs rm_ok rm_tree answer ag = (e, ag') \<Longrightarrow> ag_inflight ag' = ag_inflight ag"
  by (auto simp: register_def put_stores_def Let_def split: sum.splits if_splits prod.splits)

text \<open>What handlers do is such a \<open>work\<close> step.\<close>

lemma handleJob_inflight:
  assumes "handleJob wk env job ag = Some (calls, err, ag')" and "\<And>x. ag_inflight (je_others env x) = ag_inflight x"
  shows "ag_inflight ag' = ag_inflight ag"
proof -
  have fin: "ag_inflight (snd (finish_job wk j repo outcome vm warm msg logs x)) = ag_inflight x"
    for j repo outcome vm warm msg logs x
    by (simp add: finish_job_def split: option.splits prod.splits)
  have fin': "finish_job wk j repo outcome vm warm msg logs x = (c, y) \<Longrightarrow> ag_inflight y = ag_inflight x"
    for j repo outcome vm warm msg logs x c y
    using fin [of j repo outcome vm warm msg logs x] by simp
  have con: "conclude wk env job b x = (e, c, y) \<Longrightarrow> ag_inflight y = ag_inflight x" for b x e c y
    by (auto simp: conclude_def end_guest_def Let_def split: prod.splits option.splits if_splits dest!: fin')
  show ?thesis using assms
    by (auto simp: handleJob_def bind_caches_def unbind_caches_def Let_def dest!: fin' con
        split: option.splits prod.splits sum.splits if_splits)
qed

definition run_inv :: "Worker \<Rightarrow> run_state \<Rightarrow> bool" where
  "run_inv wk st \<longleftrightarrow> ag_inflight (rn_agent st) = int (length (rn_jobs st)) \<and>
     int (length (rn_jobs st)) \<le> wk_capacity wk \<and>
     (\<forall>cap. rn_phase st = Claiming cap \<longrightarrow> int (length (rn_jobs st)) < wk_capacity wk)"

lemma run_step_inv: "run_step wk st st' \<Longrightarrow> run_inv wk st \<Longrightarrow> run_inv wk st'"
proof (induction rule: run_step.induct)
  case (look now smp1 smp2 vms ag cap ag' js)
  then show ?case using snapshot_inflight [OF look(1)] by (auto simp: run_inv_def)
next
  case (ended job js ph ag)
  obtain n where "length js = Suc n" using ended by (cases js) auto
  then show ?case using ended by (auto simp: run_inv_def addInFlight_def Let_def length_remove1)
next
  case (heartbeat now errs rm_ok rm_tree answer ag e ag' ph js)
  then show ?case using register_inflight by (simp add: run_inv_def)
qed (auto simp: run_inv_def addInFlight_def Let_def)

lemma run_reach_inv: "run_reach wk ag st \<Longrightarrow> ag_inflight ag = 0 \<Longrightarrow> 0 \<le> wk_capacity wk \<Longrightarrow> run_inv wk st"
  by (induction rule: run_reach.induct) (auto simp: run_start_def run_step_inv, simp add: run_inv_def)

text \<open>
  C11. The agent never works on more jobs than its capacity, in any interleaving of its claims, the ends of its
  jobs, heartbeats and shutdown: the count it offers from is the number of handlers, it only asks for a job
  while a further one fits, and it asks only when a warm guest or a create that fits is left beyond the jobs
  that still wait for theirs.
\<close>

theorem jobs_never_exceed_capacity:
  assumes "run_reach (run_worker wk) ag st" and "ag_inflight ag = 0"
  shows "ag_inflight (rn_agent st) = int (length (rn_jobs st)) \<and>
    int (length (rn_jobs st)) \<le> max 0 (wk_capacity wk) \<and>
    (\<forall>cap. rn_phase st = Claiming cap \<longrightarrow> int (length (rn_jobs st)) < wk_capacity wk) \<and>
    (\<forall>now smp1 smp2 vms. 0 < cs_free (fst (snapshot (run_worker wk) now smp1 smp2 vms (rn_agent st))) \<longrightarrow>
       max 0 (int (length (rn_jobs st)) - ct_busy (countsLocked (ag_pool (rn_agent st)))) <
       ct_warm (countsLocked (ag_pool (rn_agent st))) + fst (RemainingCreates smp1 (ag_pool (rn_agent st))))"
proof -
  have i: "run_inv (run_worker wk) st" by (rule run_reach_inv [OF assms]) (simp add: run_worker_def)
  moreover have "max 0 (ag_inflight (rn_agent st) - ct_busy (countsLocked (ag_pool (rn_agent st)))) <
      ct_warm (countsLocked (ag_pool (rn_agent st))) + fst (RemainingCreates smp1 (ag_pool (rn_agent st)))"
    if "0 < cs_free (fst (snapshot (run_worker wk) now smp1 smp2 vms (rn_agent st)))" for now smp1 smp2 vms
    using that by (auto simp: snapshot_def free_slots_closed Let_def case_prod_unfold)
  ultimately show ?thesis by (auto simp: run_inv_def run_worker_def split: if_splits)
qed

lemma jobs_never_exceed_capacity_witness:
  "run_reach (run_worker demo_worker) demo_agent
     \<lparr> rn_phase = Polling, rn_agent = addInFlight 1 (snd (snapshot (run_worker demo_worker) 50 (Some None) (Some None) [] demo_agent)),
        rn_jobs = [demo_assignment] \<rparr> \<and>
   ag_inflight (addInFlight 1 (snd (snapshot (run_worker demo_worker) 50 (Some None) (Some None) [] demo_agent))) = 1"
proof -
  let ?s = "snapshot (run_worker demo_worker) 50 (Some None) (Some None) [] demo_agent"
  have free: "\<not> cs_free (fst ?s) \<le> 0" by code_simp
  have "run_step (run_worker demo_worker) (run_start demo_agent)
      \<lparr> rn_phase = Claiming (fst ?s), rn_agent = snd ?s, rn_jobs = [] \<rparr>"
    using look [of "run_worker demo_worker" 50 "Some None" "Some None" "[]" demo_agent "fst ?s" "snd ?s" "[]"] free
    by (simp add: run_start_def)
  then have r: "run_reach (run_worker demo_worker) demo_agent
      \<lparr> rn_phase = Polling, rn_agent = addInFlight 1 (snd ?s), rn_jobs = [demo_assignment] \<rparr>"
    using started stepped claimed by metis
  have "ag_inflight demo_agent = 0" by (simp add: demo_agent_def)
  from jobs_never_exceed_capacity [OF r this] r show ?thesis by simp
qed

end
