(* ===== verification/GuestNet.thy ===== *)
theory GuestNet
  imports CacheNet StoredTime "HOL-Library.Word"
begin

unbundle bit_operations_syntax

text \<open>
  \<open>internal/vmm/firecracker/network.go\<close> and the network part of \<open>firecracker.go\<close>: the names and addresses of a
  guest's network, and how it is set up and torn down on the host. The commands \<open>ip\<close> and \<open>iptables\<close> are
  arguments over the host's network state \<open>'s\<close>; the files of a guest's directory are names with contents.
\<close>

section \<open>Names and addresses\<close>

text \<open>\<open>hash/fnv.New32a\<close> over the bytes of a text.\<close>

definition fnv_step :: "32 word \<Rightarrow> char \<Rightarrow> 32 word" where
  "fnv_step h c = (h XOR of_char c) * 16777619"

definition fnv32a :: "string \<Rightarrow> 32 word" where
  "fnv32a s = foldl fnv_step 2166136261 s"

definition hex_digit :: "nat \<Rightarrow> char" where
  "hex_digit d = (if d < 10 then char_of (48 + d) else char_of (87 + d))"

text \<open>\<open>%08x\<close>.\<close>

definition hex8 :: "32 word \<Rightarrow> string" where
  "hex8 w = map (\<lambda>i. hex_digit (unat ((drop_bit (4 * i) w) AND 15))) [7, 6, 5, 4, 3, 2, 1, 0]"

definition tapName :: "string \<Rightarrow> string" where
  "tapName vm = ''tc'' @ hex8 (fnv32a vm)"

definition netNSName :: "string \<Rightarrow> string" where
  "netNSName vm = ''tn'' @ hex8 (fnv32a vm)"

text \<open>The part of \<open>net.ParseIP\<close> a text without colons meets.\<close>

definition octet_ok :: "string \<Rightarrow> bool" where
  "octet_ok s \<longleftrightarrow> s \<noteq> '''' \<and> list_all is_digit s \<and> (length s = 1 \<or> hd s \<noteq> CHR ''0'') \<and> length s \<le> 3 \<and>
     (case digits_val 0 s of None \<Rightarrow> False | Some v \<Rightarrow> v \<le> 255)"

definition ParseIPv4 :: "string \<Rightarrow> bool" where
  "ParseIPv4 s \<longleftrightarrow> length (split_on (CHR ''.'') s) = 4 \<and> list_all octet_ok (split_on (CHR ''.'') s)"

record guest_net =
  gn_host :: string
  gn_guest :: string
  gn_gateway :: string
  gn_prefix :: string

definition net_index :: "string \<Rightarrow> nat" where
  "net_index vm = unat (fnv32a vm mod 16000) + 1"

definition guestNet :: "string \<Rightarrow> guest_net option" where
  "guestNet vm =
     (let base = net_index vm * 4;
          b1 = drop_bit 8 base AND 255;
          b2 = base AND 255;
          host = ''10.231.'' @ itoa (int b1) @ ''.'' @ itoa (int (b2 + 1));
          guest = ''10.231.'' @ itoa (int b1) @ ''.'' @ itoa (int (b2 + 2))
      in if \<not> ParseIPv4 host \<or> \<not> ParseIPv4 guest then None
         else Some \<lparr> gn_host = host, gn_guest = guest, gn_gateway = host, gn_prefix = ''30'' \<rparr>)"

definition mailboxInputSpecs :: "string \<Rightarrow> string list list" where
  "mailboxInputSpecs tap =
     (if tap = '''' then []
      else [[''INPUT'', ''-i'', tap, ''-p'', ''udp'', ''--dport'', ''9876'', ''-j'', ''ACCEPT''],
            [''INPUT'', ''-i'', tap, ''-p'', ''tcp'', ''--dport'', ''9877'', ''-j'', ''ACCEPT'']])"

section \<open>Setting a guest's network up\<close>

record NetworkState =
  ns_tap :: string
  ns_netns :: string
  ns_proxy :: string

definition no_network :: NetworkState where
  "no_network = \<lparr> ns_tap = '''', ns_netns = '''', ns_proxy = '''' \<rparr>"

record 's tools =
  t_ip :: "'s iptables"
  t_ipt :: "'s iptables"

type_synonym files = "(string \<times> string) list"

definition write_file :: "string \<Rightarrow> string \<Rightarrow> files \<Rightarrow> files" where
  "write_file p t fs = AList.update p t fs"

definition readTrim :: "string \<Rightarrow> files \<Rightarrow> string" where
  "readTrim p fs = (case map_of fs p of None \<Rightarrow> '''' | Some t \<Rightarrow> trim_space t)"

text \<open>Files written one after the other, up to the first that fails; \<open>io\<close> gives the error of a path.\<close>

fun write_all :: "(string \<Rightarrow> string option) \<Rightarrow> (string \<times> string) list \<Rightarrow> files \<Rightarrow> string option \<times> files" where
  "write_all io [] fs = (None, fs)"
| "write_all io ((p, t) # ws) fs =
     (case io p of Some e \<Rightarrow> (Some e, fs) | None \<Rightarrow> write_all io ws (write_file p t fs))"

text \<open>Writes whose errors are ignored.\<close>

definition write_each :: "(string \<Rightarrow> string option) \<Rightarrow> (string \<times> string) list \<Rightarrow> files \<Rightarrow> files" where
  "write_each io ws fs = fold (\<lambda>(p, t) f. if io p = None then write_file p t f else f) ws fs"

definition defaultSetupNetwork ::
  "(string \<Rightarrow> string option) \<Rightarrow> string \<Rightarrow> string \<Rightarrow> files \<Rightarrow> (string + NetworkState) \<times> files" where
  "defaultSetupNetwork io dir vm fs =
     (case write_all io [(''net/proxy.marker'', vm @ [CHR 0x0A]), (''net/tap'', tapName vm @ [CHR 0x0A]),
              (''net/netns'', netNSName vm @ [CHR 0x0A])] fs of
        (Some e, fs1) \<Rightarrow> (Inl e, fs1)
      | (None, fs1) \<Rightarrow>
          (Inr \<lparr> ns_tap = tapName vm, ns_netns = netNSName vm, ns_proxy = dir @ ''/proxy.marker'' \<rparr>, fs1))"

definition run :: "'s iptables \<Rightarrow> string list \<Rightarrow> 's \<Rightarrow> 's" where
  "run cmd args s = snd (cmd args s)"

definition cidr :: "guest_net \<Rightarrow> string" where
  "cidr g = gn_host g @ ''/'' @ gn_prefix g"

definition tap_specs :: "string \<Rightarrow> string list list" where
  "tap_specs tap = [[''FORWARD'', ''-i'', tap, ''-j'', ''ACCEPT''], [''FORWARD'', ''-o'', tap, ''-j'', ''ACCEPT'']]"

text \<open>The rules that let a guest's traffic through, each added unless it is there.\<close>

definition masquerade :: "string \<Rightarrow> string list" where
  "masquerade f = [''-t'', ''nat'', f, ''POSTROUTING'', ''-s'', ''10.231.0.0/16'', ''-j'', ''MASQUERADE'']"

definition allow_guest :: "'s iptables \<Rightarrow> string \<Rightarrow> 's \<Rightarrow> 's" where
  "allow_guest ipt tap s =
     (let s1 = (case ipt (masquerade ''-C'') s of
                  (True, s') \<Rightarrow> s' | (False, s') \<Rightarrow> run ipt (masquerade ''-A'') s');
          s2 = fold (\<lambda>r v. snd (ensure_rule ipt ''-A'' r v)) (tap_specs tap) s1
      in fold (\<lambda>r v. snd (ensure_rule ipt ''-I'' r v)) (mailboxInputSpecs tap) s2)"

text \<open>
  \<open>realSetupNetwork\<close> on Linux; \<open>text'\<close> is what is noted of a tap device that could not be made. The switch for
  IP forwarding it writes under \<open>/proc\<close> is not modelled.
\<close>

definition realSetupNetwork ::
  "'s tools \<Rightarrow> (string \<Rightarrow> string option) \<Rightarrow> string \<Rightarrow> string \<Rightarrow> string \<Rightarrow> files \<Rightarrow> 's \<Rightarrow>
   (string + NetworkState) \<times> files \<times> 's" where
  "realSetupNetwork tls io text' dir vm fs s =
     (let tap = tapName vm; ip = t_ip tls; ipt = t_ipt tls in
      case guestNet vm of
        None \<Rightarrow> (Inl ''bad ip derivation'', fs, s)
      | Some g \<Rightarrow>
          (let s1 = run ip [''link'', ''del'', tap] s in
           case ip [''tuntap'', ''add'', ''dev'', tap, ''mode'', ''tap''] s1 of
             (False, s2) \<Rightarrow>
               (case defaultSetupNetwork io dir vm fs of
                  (st, fs1) \<Rightarrow> (st, write_each io [(''net/network.error'', text')] fs1, s2))
           | (True, s2) \<Rightarrow>
               (case ip [''addr'', ''add'', cidr g, ''dev'', tap] s2 of
                  (False, s3) \<Rightarrow> (Inl ''ip addr'', fs, run ip [''link'', ''del'', tap] s3)
                | (True, s3) \<Rightarrow>
                    (case ip [''link'', ''set'', ''dev'', tap, ''up''] s3 of
                       (False, s4) \<Rightarrow> (Inl ''ip link up'', fs, run ip [''link'', ''del'', tap] s4)
                     | (True, s4) \<Rightarrow>
                         (let s5 = allow_guest ipt tap s4;
                              fs1 = write_each io [(''net/proxy.marker'', vm @ [CHR 0x0A]), (''net/tap'', tap @ [CHR 0x0A]),
                                (''net/host_ip'', gn_host g @ [CHR 0x0A]), (''net/guest_ip'', gn_guest g @ [CHR 0x0A]),
                                (''net/gateway'', gn_gateway g @ [CHR 0x0A]), (''net/prefix'', gn_prefix g @ [CHR 0x0A])] fs
                          in (Inr \<lparr> ns_tap = tap, ns_netns = '''', ns_proxy = dir @ ''/proxy.marker'' \<rparr>, fs1, s5))))))"

text \<open>Tearing down; that the proxy's marker goes from the directory is left to the removal of the directory.\<close>

definition realTeardownNetwork :: "'s tools \<Rightarrow> NetworkState \<Rightarrow> 's \<Rightarrow> 's" where
  "realTeardownNetwork tls net s =
     (if ns_tap net = '''' then s
      else
        (let s1 = fold (\<lambda>r v. delete_rule (t_ipt tls) (Some r) v) (tap_specs (ns_tap net)) s;
             s2 = fold (\<lambda>r v. delete_rule (t_ipt tls) (Some r) v) (mailboxInputSpecs (ns_tap net)) s1
         in run (t_ip tls) [''link'', ''del'', ns_tap net] s2))"

text \<open>\<open>New\<close> wraps both when the caches' gateway listens.\<close>

definition SetupNetwork ::
  "'s tools \<Rightarrow> string \<Rightarrow> (string \<Rightarrow> string option) \<Rightarrow> string \<Rightarrow> string \<Rightarrow> string \<Rightarrow> files \<Rightarrow> 's \<Rightarrow>
   (string + NetworkState) \<times> files \<times> 's" where
  "SetupNetwork tls listen io text' dir vm fs s =
     (let addr = trim_space listen; inner = realSetupNetwork tls io text' dir vm fs s in
      if addr = '''' \<or> ListenPort addr \<le> 0 then inner
      else case inner of
        (Inl e, fs1, s1) \<Rightarrow> (Inl e, fs1, s1)
      | (Inr st, fs1, s1) \<Rightarrow>
          if ns_tap st = '''' then (Inr st, fs1, s1)
          else
            (case RedirectGuestHTTPS (t_ipt tls) (ns_tap st) addr s1 of
               (None, s2) \<Rightarrow> (Inr st, fs1, s2)
             | (Some e, s2) \<Rightarrow> (Inr st, write_each io [(''net/cache.redirect.err'', text')] fs1, s2)))"

definition TeardownNetwork :: "'s tools \<Rightarrow> string \<Rightarrow> NetworkState \<Rightarrow> 's \<Rightarrow> 's" where
  "TeardownNetwork tls listen net s =
     (let addr = trim_space listen in
      if addr = '''' \<or> ListenPort addr \<le> 0 then realTeardownNetwork tls net s
      else realTeardownNetwork tls net
        (if ns_tap net = '''' then s else ClearGuestHTTPSRedirect (t_ipt tls) (ns_tap net) addr s))"

text \<open>The kernel's command line, from the files the setup left.\<close>

definition bootArgs :: "files \<Rightarrow> string" where
  "bootArgs fs =
     (let base = ''console=ttyS0 reboot=k panic=1 pci=off root=/dev/vda rw systemd.unified_cgroup_hierarchy=1 selinux=0'';
          guest = readTrim ''net/guest_ip'' fs;
          gw = readTrim ''net/gateway'' fs;
          bits = readTrim ''net/prefix'' fs
      in if guest = '''' \<or> gw = '''' then base
         else
           (let mask = (if bits = ''24'' then ''255.255.255.0'' else ''255.255.255.252'')
            in base @ '' ip='' @ guest @ ''::'' @ gw @ '':'' @ mask @ '':temperci:eth0:off''))"

section \<open>Addresses are valid and apart\<close>

lemma nat_and_255: "(n :: nat) AND 255 = n mod 256"
proof -
  have "(255 :: nat) = mask 8" by (simp add: mask_eq_exp_minus_1)
  then show ?thesis by (simp only: take_bit_eq_mask [symmetric] take_bit_eq_mod) simp
qed

lemma octets_ok: "b < 256 \<Longrightarrow> octet_ok (itoa (int b))"
proof -
  have first: "0 < n \<Longrightarrow> hd (nat_digits n) \<noteq> CHR ''0''" for n
  proof (induction n rule: nat_digits.induct)
    case (1 n)
    have "digit_char d \<noteq> CHR ''0''" if "0 < d" "d < 10" for d
    proof -
      have "digit_of (CHR ''0'') = Some 0" by code_simp
      then show ?thesis using digit_of_digit_char [OF that(2)] that(1) by auto
    qed
    then show ?case using 1 by (subst nat_digits.simps) (simp add: not_less)
  qed
  assume b: "b < 256"
  have "length (nat_digits b) = 1 \<or> hd (nat_digits b) \<noteq> CHR ''0''"
    using first [of b] by (cases "b = 0") (simp_all add: nat_digits.simps [of 0])
  moreover have "length (nat_digits b) \<le> 3" by (rule length_nat_digits) (use b in auto)
  moreover have "list_all is_digit (nat_digits b)" by (auto simp: list_all_iff dest: nat_digits_digits)
  ultimately show ?thesis using b by (simp add: octet_ok_def itoa_def digits_val_nat_digits)
qed

lemma no_dot: "CHR ''.'' \<notin> set (itoa (int n))"
proof -
  have "\<not> is_digit (CHR ''.'')" by code_simp
  then show ?thesis by (auto simp: itoa_def dest: nat_digits_digits)
qed

lemma split_address:
  "split_on (CHR ''.'') (''10.231.'' @ itoa (int a) @ ''.'' @ itoa (int b)) = [''10'', ''231'', itoa (int a), itoa (int b)]"
  using split_on_append [OF no_dot [of a], of "itoa (int b)"] by (simp add: split_on_single no_dot)

lemma address_valid:
  assumes "a < 256" and "b < 256"
  shows "ParseIPv4 (''10.231.'' @ itoa (int a) @ ''.'' @ itoa (int b))"
proof -
  have "octet_ok ''10'' \<and> octet_ok ''231''" by code_simp
  then show ?thesis using octets_ok assms unfolding ParseIPv4_def split_address by simp
qed

lemma address_inject:
  "''10.231.'' @ itoa (int a) @ ''.'' @ itoa (int b) = ''10.231.'' @ itoa (int c) @ ''.'' @ itoa (int d) \<longleftrightarrow>
     a = c \<and> b = d"
  using split_address [of a b] split_address [of c d] by (metis itoa_inject list.inject of_nat_eq_iff)

text \<open>The \<open>n\<close>-th address of 10.231.0.0/16.\<close>

definition net_address :: "nat \<Rightarrow> string" where
  "net_address n = ''10.231.'' @ itoa (int (n div 256)) @ ''.'' @ itoa (int (n mod 256))"

lemma net_address_inject: "net_address m = net_address n \<longleftrightarrow> m = n"
  unfolding net_address_def address_inject by (metis div_mult_mod_eq)

lemma index_bounds: "1 \<le> net_index vm \<and> net_index vm \<le> 16000"
proof -
  have "unat (fnv32a vm mod 16000) < 16000" by (simp add: unat_mod)
  then show ?thesis by (simp add: net_index_def)
qed

lemma place_256: "b < 256 \<Longrightarrow> (256 * a + b) div 256 = a \<and> (256 * a + b) mod 256 = (b :: nat)"
  by simp

lemma guestNet_eq:
  "guestNet vm = Some \<lparr> gn_host = net_address (4 * net_index vm + 1), gn_guest = net_address (4 * net_index vm + 2),
     gn_gateway = net_address (4 * net_index vm + 1), gn_prefix = ''30'' \<rparr>"
proof -
  let ?n = "net_index vm * 4"
  have n: "?n < 65536" using index_bounds [of vm] by simp
  have "?n div 256 < 256" using n by (simp add: less_mult_imp_div_less)
  then have b1: "drop_bit 8 ?n mod 256 = ?n div 256" by (simp only: drop_bit_eq_div) simp
  have m: "?n mod 256 + 2 < 256"
  proof -
    have "?n mod 256 = 4 * (net_index vm mod 64)" using mod_mult_mult1 [of 4 "net_index vm" 64] by (simp add: mult.commute)
    then show ?thesis by (simp add: Suc_leI)
  qed
  have a: "net_address (4 * net_index vm + k) =
      ''10.231.'' @ itoa (int (?n div 256)) @ ''.'' @ itoa (int (?n mod 256 + k))" if "k \<le> 2" for k
  proof -
    have "?n + k = 256 * (?n div 256) + (?n mod 256 + k)" using mult_div_mod_eq [of 256 ?n] by linarith
    moreover have "?n mod 256 + k < 256" using m that by linarith
    ultimately have "(?n + k) div 256 = ?n div 256" "(?n + k) mod 256 = ?n mod 256 + k"
      using place_256 by metis+
    then show ?thesis by (simp add: net_address_def mult.commute)
  qed
  have v: "ParseIPv4 (''10.231.'' @ itoa (int (?n div 256)) @ ''.'' @ itoa (int (?n mod 256 + k)))" if "k \<le> 2" for k
    by (rule address_valid) (use n m that in auto)
  show ?thesis
    unfolding guestNet_def Let_def nat_and_255 b1 a [of 1, simplified, symmetric] using v [of 1] v [of 2] a [of 1] a [of 2]
    by (simp only: one_le_numeral order_refl if_False simp_thms)
qed

definition net_addresses :: "string \<Rightarrow> string set" where
  "net_addresses vm = net_address ` {4 * net_index vm, 4 * net_index vm + 1, 4 * net_index vm + 2, 4 * net_index vm + 3}"

text \<open>
  Every guest gets a valid pair of addresses in 10.231.0.0/16, on a network of four addresses of its own:
  guests whose indices differ share none of these, and no two of a guest's are equal. The name of
  its tap device fits the kernel's limit of 15 characters.
\<close>

theorem guest_addresses_apart:
  "\<exists>g. guestNet vm = Some g \<and> ParseIPv4 (gn_host g) \<and> ParseIPv4 (gn_guest g) \<and> gn_host g \<noteq> gn_guest g \<and>
     gn_gateway g = gn_host g \<and> {gn_host g, gn_guest g} \<subseteq> net_addresses vm \<and>
     (\<forall>vm'. net_index vm' \<noteq> net_index vm \<longrightarrow> net_addresses vm' \<inter> net_addresses vm = {}) \<and>
     length (tapName vm) \<le> 15 \<and> length (netNSName vm) \<le> 15"
proof -
  let ?g = "\<lparr> gn_host = net_address (4 * net_index vm + 1), gn_guest = net_address (4 * net_index vm + 2),
     gn_gateway = net_address (4 * net_index vm + 1), gn_prefix = ''30'' \<rparr>"
  have "ParseIPv4 (gn_host ?g) \<and> ParseIPv4 (gn_guest ?g)"
    using guestNet_eq [of vm] by (auto simp: guestNet_def Let_def split: if_splits)
  moreover have "gn_host ?g \<noteq> gn_guest ?g" by (simp add: net_address_inject)
  moreover have "{gn_host ?g, gn_guest ?g} \<subseteq> net_addresses vm" by (simp add: net_addresses_def)
  moreover have "net_addresses vm' \<inter> net_addresses vm = {}" if "net_index vm' \<noteq> net_index vm" for vm'
    using that unfolding net_addresses_def by (auto simp: net_address_inject)
  moreover have "length (tapName vm) \<le> 15 \<and> length (netNSName vm) \<le> 15"
    by (simp add: tapName_def netNSName_def hex8_def)
  ultimately show ?thesis using guestNet_eq by auto
qed

lemma guest_addresses_apart_witness:
  "net_index ''vm-a'' \<noteq> net_index ''vm-b'' \<and> net_addresses ''vm-a'' \<inter> net_addresses ''vm-b'' = {}"
proof -
  have "net_index ''vm-a'' \<noteq> net_index ''vm-b''" by code_simp
  with guest_addresses_apart [of "''vm-b''"] show ?thesis by blast
qed


text \<open>
  The indices are hashes of the names into 16000 places, and nothing looks for a free one: here are two
  names of the pool's own form whose guests get the same addresses, each with a tap device of its own, so that
  the host's route to that address leads to one of them only.
\<close>

theorem guest_addresses_can_collide:
  "guestNet ''vm-d037cdff7c240d49'' = guestNet ''vm-be6521cc3e2434e3'' \<and>
   tapName ''vm-d037cdff7c240d49'' \<noteq> tapName ''vm-be6521cc3e2434e3''"
proof -
  have "net_index ''vm-d037cdff7c240d49'' = net_index ''vm-be6521cc3e2434e3''" by code_simp
  moreover have "tapName ''vm-d037cdff7c240d49'' \<noteq> tapName ''vm-be6521cc3e2434e3''" by code_simp
  ultimately show ?thesis by (simp add: guestNet_eq)
qed

section \<open>Nothing of a guest's network is left behind\<close>

text \<open>
  What the code relies on from \<open>iptables\<close> and \<open>ip\<close>, over the number of times a rule is there and the tap devices:
  \<open>-C\<close> tells whether a rule is there; any other command that exits with zero has done what its manual says, and
  one that does not has changed nothing. Each may fail at any time. Of a deletion that fails, either its rule or
  device was not there, or the host refused it: \<open>refused\<close> are the commands of that kind (for the host's
  lock, its rights, its kernel), any set of them. Rules and devices do not affect each other, and a command on the
  table of address translations changes no rule of another chain.
\<close>

definition host_manual ::
  "'s tools \<Rightarrow> ('s \<Rightarrow> string list \<Rightarrow> nat) \<Rightarrow> ('s \<Rightarrow> string set) \<Rightarrow> string list set \<Rightarrow> bool" where
  "host_manual tls copies taps refused \<longleftrightarrow>
     (\<forall>r s. t_ipt tls (''-C'' # r) s = (0 < copies s r, s)) \<and>
     (\<forall>f r s. f \<in> {''-A'', ''-I''} \<longrightarrow> copies (run (t_ipt tls) (f # r) s) =
        (if fst (t_ipt tls (f # r) s) then (copies s)(r := copies s r + 1) else copies s)) \<and>
     (\<forall>r s. copies (run (t_ipt tls) (''-D'' # r) s) =
        (if fst (t_ipt tls (''-D'' # r) s) then (copies s)(r := copies s r - 1) else copies s) \<and>
        (\<not> fst (t_ipt tls (''-D'' # r) s) \<longrightarrow> copies s r = 0 \<or> ''-D'' # r \<in> refused)) \<and>
     (\<forall>args s. taps (run (t_ipt tls) args s) = taps s) \<and>
     (\<forall>f args s r. hd r \<noteq> ''POSTROUTING'' \<longrightarrow>
        copies (run (t_ipt tls) (''-t'' # ''nat'' # f # ''POSTROUTING'' # args) s) r = copies s r) \<and>
     (\<forall>args s. copies (run (t_ip tls) args s) = copies s) \<and>
     (\<forall>t s. taps (run (t_ip tls) [''link'', ''del'', t] s) =
        (if fst (t_ip tls [''link'', ''del'', t] s) then taps s - {t} else taps s) \<and>
        (\<not> fst (t_ip tls [''link'', ''del'', t] s) \<longrightarrow> t \<notin> taps s \<or> [''link'', ''del'', t] \<in> refused)) \<and>
     (\<forall>t s. taps (run (t_ip tls) [''tuntap'', ''add'', ''dev'', t, ''mode'', ''tap''] s) =
        (if fst (t_ip tls [''tuntap'', ''add'', ''dev'', t, ''mode'', ''tap''] s) then insert t (taps s) else taps s)) \<and>
     (\<forall>a t s. taps (run (t_ip tls) [''addr'', ''add'', a, ''dev'', t] s) = taps s) \<and>
     (\<forall>t s. taps (run (t_ip tls) [''link'', ''set'', ''dev'', t, ''up''] s) = taps s)"

lemma manual_ip:
  assumes "host_manual tls copies taps refused"
  shows "taps (snd (t_ipt tls args s)) = taps s"
    "hd r \<noteq> ''POSTROUTING'' \<Longrightarrow> copies (snd (t_ipt tls (''-t'' # ''nat'' # f # ''POSTROUTING'' # args) s)) r = copies s r"
    "copies (snd (t_ip tls args s)) = copies s"
    "taps (snd (t_ip tls [''link'', ''del'', t] s)) = taps s - {t} \<or>
     taps (snd (t_ip tls [''link'', ''del'', t] s)) = taps s \<and> [''link'', ''del'', t] \<in> refused"
    "taps (snd (t_ip tls [''tuntap'', ''add'', ''dev'', t, ''mode'', ''tap''] s)) =
      (if fst (t_ip tls [''tuntap'', ''add'', ''dev'', t, ''mode'', ''tap''] s) then insert t (taps s) else taps s)"
    "taps (snd (t_ip tls [''addr'', ''add'', a, ''dev'', t] s)) = taps s"
    "taps (snd (t_ip tls [''link'', ''set'', ''dev'', t, ''up''] s)) = taps s"
  using assms by (auto simp: host_manual_def run_def)

lemma manual_ipt:
  assumes "host_manual tls copies taps refused"
  shows "t_ipt tls (''-C'' # r) s = (0 < copies s r, s)"
    "f \<in> {''-A'', ''-I''} \<Longrightarrow> copies (snd (t_ipt tls (f # r) s)) = copies s \<or>
      copies (snd (t_ipt tls (f # r) s)) = (copies s)(r := copies s r + 1)"
    "copies (snd (t_ipt tls (''-D'' # r) s)) = (copies s)(r := copies s r - 1) \<or>
     copies (snd (t_ipt tls (''-D'' # r) s)) = copies s \<and> ''-D'' # r \<in> refused"
proof -
  show "t_ipt tls (''-C'' # r) s = (0 < copies s r, s)"
    "f \<in> {''-A'', ''-I''} \<Longrightarrow> copies (snd (t_ipt tls (f # r) s)) = copies s \<or>
      copies (snd (t_ipt tls (f # r) s)) = (copies s)(r := copies s r + 1)"
    using assms unfolding host_manual_def run_def by metis+
  have d: "copies (snd (t_ipt tls (''-D'' # r) s)) =
      (if fst (t_ipt tls (''-D'' # r) s) then (copies s)(r := copies s r - 1) else copies s)"
    "\<not> fst (t_ipt tls (''-D'' # r) s) \<longrightarrow> copies s r = 0 \<or> ''-D'' # r \<in> refused"
    using assms unfolding host_manual_def run_def by metis+
  then show "copies (snd (t_ipt tls (''-D'' # r) s)) = (copies s)(r := copies s r - 1) \<or>
      copies (snd (t_ipt tls (''-D'' # r) s)) = copies s \<and> ''-D'' # r \<in> refused"
    by (cases "fst (t_ipt tls (''-D'' # r) s)") (auto simp: fun_eq_iff)
qed


text \<open>All rules that name a guest's device.\<close>

definition device_rules :: "string \<Rightarrow> string \<Rightarrow> string list list" where
  "device_rules tap listen =
     tap_specs tap @ mailboxInputSpecs tap @
     (let addr = trim_space listen in
      if addr = '''' \<or> ListenPort addr \<le> 0 then []
      else the (legacyRedirectSpec tap addr) # guest_rules tap addr)"

text \<open>Between two states, only rules of \<open>R\<close> and of \<open>POSTROUTING\<close> differ, and those of \<open>R\<close> are there at most once.\<close>

definition touched :: "('s \<Rightarrow> string list \<Rightarrow> nat) \<Rightarrow> string list set \<Rightarrow> 's \<Rightarrow> 's \<Rightarrow> bool" where
  "touched copies R s s' \<longleftrightarrow>
     (\<forall>r. r \<notin> R \<longrightarrow> hd r \<noteq> ''POSTROUTING'' \<longrightarrow> copies s' r = copies s r) \<and> (\<forall>r \<in> R. copies s' r \<le> 1)"

lemma touched_same: "touched copies R s s1 \<Longrightarrow> (\<And>r. hd r \<noteq> ''POSTROUTING'' \<or> r \<in> R \<Longrightarrow> copies s2 r = copies s1 r) \<Longrightarrow>
    touched copies R s s2"
  by (simp add: touched_def)

lemma touched_ensure:
  assumes m: "host_manual tls copies taps refused" and "f \<in> {''-A'', ''-I''}" and "r \<in> R" and "touched copies R s s1"
  shows "touched copies R s (snd (ensure_rule (t_ipt tls) f r s1))"
  using manual_ipt(2) [OF m assms(2), of r s1] assms(3,4)
  by (auto simp: touched_def ensure_rule_def manual_ipt(1) [OF m] split: prod.splits bool.splits)

lemma touched_delete:
  assumes "host_manual tls copies taps refused" and "r \<in> R" and "touched copies R s s1"
  shows "touched copies R s (delete_rule (t_ipt tls) (Some r) s1)"
    "copies (delete_rule (t_ipt tls) (Some r) s1) r = 0 \<or> ''-D'' # r \<in> refused"
    "copies (delete_rule (t_ipt tls) (Some r) s1) q \<le> copies s1 q"
  using manual_ipt(3) [OF assms(1), of r s1] assms(2,3) by (auto simp: touched_def delete_rule_def)

lemma touched_ensures:
  assumes "host_manual tls copies taps refused" and "f \<in> {''-A'', ''-I''}"
  shows "set rs \<subseteq> R \<Longrightarrow> touched copies R s s1 \<Longrightarrow>
    touched copies R s (fold (\<lambda>r v. snd (ensure_rule (t_ipt tls) f r v)) rs s1)"
  by (induction rs arbitrary: s1) (simp_all add: touched_ensure [OF assms])

text \<open>Deleting rules of \<open>R\<close> one by one: they are gone unless that was refused, and those gone before stay so.\<close>

lemma touched_deletes:
  assumes m: "host_manual tls copies taps refused"
  shows "set rs \<subseteq> R \<Longrightarrow> touched copies R s s1 \<Longrightarrow> s2 = fold (\<lambda>r v. delete_rule (t_ipt tls) (Some r) v) rs s1 \<Longrightarrow>
    touched copies R s s2 \<and> (\<forall>r. r \<in> set rs \<or> copies s1 r = 0 \<longrightarrow> copies s2 r = 0 \<or> ''-D'' # r \<in> refused)"
proof (induction rs arbitrary: s1)
  case (Cons r rs)
  note d = touched_delete [OF m, of r R s s1]
  have "copies s1 q = 0 \<Longrightarrow> copies (delete_rule (t_ipt tls) (Some r) s1) q = 0" for q
    using d(3) [of q] Cons.prems by simp
  then show ?case using Cons.IH [OF _ d(1)] Cons.prems d(2) by auto
qed auto


lemma defaultSetup_tap: "defaultSetupNetwork io dir vm fs = (Inr st, fs1) \<Longrightarrow> ns_tap st = tapName vm"
  by (auto simp: defaultSetupNetwork_def split: prod.splits option.splits)

lemma ensure_taps:
  assumes "host_manual tls copies taps refused"
  shows "taps (snd (ensure_rule (t_ipt tls) f r s)) = taps s"
proof -
  obtain ok s1 where c: "t_ipt tls (''-C'' # r) s = (ok, s1)" by fastforce
  have "taps s1 = taps s" using manual_ip(1) [OF assms, of "''-C'' # r" s] c by simp
  then show ?thesis using manual_ip(1) [OF assms] by (cases ok) (simp_all add: ensure_rule_def c)
qed

lemma ensures_taps:
  assumes "host_manual tls copies taps refused"
  shows "taps (fold (\<lambda>r v. snd (ensure_rule (t_ipt tls) f r v)) rs s) = taps s"
  by (induction rs arbitrary: s) (simp_all add: ensure_taps [OF assms])

lemma delete_taps:
  assumes "host_manual tls copies taps refused"
  shows "taps (delete_rule (t_ipt tls) r s) = taps s"
  using manual_ip(1) [OF assms] by (cases r) (simp_all add: delete_rule_def)

lemma deletes_taps:
  assumes "host_manual tls copies taps refused"
  shows "taps (fold (\<lambda>r v. delete_rule (t_ipt tls) (Some r) v) rs s) = taps s"
  by (induction rs arbitrary: s) (simp_all add: delete_taps [OF assms])

lemma allow_guest_touched:
  assumes m: "host_manual tls copies taps refused" and R: "set (tap_specs tap @ mailboxInputSpecs tap) \<subseteq> R"
    and no: "\<forall>r \<in> R. hd r \<noteq> ''POSTROUTING''" and z: "touched copies R s s1"
  shows "touched copies R s (allow_guest (t_ipt tls) tap s1) \<and> taps (allow_guest (t_ipt tls) tap s1) = taps s1"
proof -
  let ?ipt = "t_ipt tls"
  have step: "touched copies R s (snd (?ipt (masquerade f) v))" if "touched copies R s v" for f v
    by (rule touched_same [OF that]) (use manual_ip(2) [OF m] no in \<open>auto simp: masquerade_def\<close>)
  obtain ok s2 where c: "?ipt (masquerade ''-C'') s1 = (ok, s2)" by fastforce
  define s3 where "s3 = (case ?ipt (masquerade ''-C'') s1 of (True, s') \<Rightarrow> s' | (False, s') \<Rightarrow> run ?ipt (masquerade ''-A'') s')"
  have s2: "touched copies R s s2" "taps s2 = taps s1"
    using step [OF z, of "''-C''"] manual_ip(1) [OF m, of "masquerade ''-C''" s1] c by simp_all
  then have s3: "touched copies R s s3" "taps s3 = taps s1"
    using step [OF s2(1), of "''-A''"] manual_ip(1) [OF m, of "masquerade ''-A''" s2] c
    by (cases ok; simp add: s3_def run_def)+
  have rs: "set (tap_specs tap) \<subseteq> R" "set (mailboxInputSpecs tap) \<subseteq> R" using R by simp_all
  show ?thesis
    unfolding allow_guest_def s3_def [symmetric] Let_def
    using touched_ensures [OF m _ rs(2) touched_ensures [OF m _ rs(1) s3(1)]] s3(2)
    by (simp add: ensures_taps [OF m])
qed

lemma real_setup:
  assumes m: "host_manual tls copies taps refused" and R: "set (tap_specs (tapName vm) @ mailboxInputSpecs (tapName vm)) \<subseteq> R"
    and no: "\<forall>r \<in> R. hd r \<noteq> ''POSTROUTING''" and z: "touched copies R s s"
    and set': "realSetupNetwork tls io text' dir vm fs s = (res, fs1, s1)"
  shows "touched copies R s s1 \<and> taps s1 - {tapName vm} = taps s - {tapName vm} \<and>
    (case res of Inl e \<Rightarrow> (tapName vm \<notin> taps s1 \<or> [''link'', ''del'', tapName vm] \<in> refused) \<and> copies s1 = copies s | Inr st \<Rightarrow> ns_tap st = tapName vm)"
proof -
  note mi = manual_ip [OF m]
  let ?tap = "tapName vm" let ?ip = "t_ip tls" let ?ipt = "t_ipt tls"
  obtain g where g: "guestNet vm = Some g" using guestNet_eq by blast
  obtain okd s0 where t1: "?ip [''link'', ''del'', ?tap] s = (okd, s0)" by fastforce
  obtain ok2 s2 where t2: "?ip [''tuntap'', ''add'', ''dev'', ?tap, ''mode'', ''tap''] s0 = (ok2, s2)" by fastforce
  obtain ok3 s3 where t3: "?ip [''addr'', ''add'', cidr g, ''dev'', ?tap] s2 = (ok3, s3)" by fastforce
  obtain ok4 s4 where t4: "?ip [''link'', ''set'', ''dev'', ?tap, ''up''] s3 = (ok4, s4)" by fastforce
  have c: "copies s4 = copies s" "copies s3 = copies s" "copies s2 = copies s"
    using mi(3) t1 t2 t3 t4 by (metis snd_conv)+
  have d: "taps s2 = (if ok2 then insert ?tap (taps s0) else taps s0)" "taps s3 = taps s2" "taps s4 = taps s2"
    "taps s0 = taps s - {?tap} \<or> taps s0 = taps s \<and> [''link'', ''del'', ?tap] \<in> refused"
    using mi(4) [where t = ?tap and s = s] mi(5) [of ?tap s0] mi(6) [of "cidr g" ?tap s2] mi(7) [of ?tap s3]
    by (auto simp: t1 t2 t3 t4)
  have same: "touched copies R s v" if "copies v = copies s" for v
    by (rule touched_same [OF z]) (simp add: that)
  consider (no_tap) "\<not> ok2" | (failed) "ok2" "\<not> (ok3 \<and> ok4)" | (up) "ok2" "ok3" "ok4" by blast
  then show ?thesis
  proof cases
    case no_tap
    obtain st fs2 where df: "defaultSetupNetwork io dir vm fs = (st, fs2)" by fastforce
    have "s1 = s2 \<and> res = st" using set' no_tap by (simp add: realSetupNetwork_def Let_def run_def g t1 t2 df)
    then show ?thesis using no_tap c d same defaultSetup_tap [of io dir vm fs] df by (cases st) auto
  next
    case failed
    then obtain e s' where s': "res = Inl e" "s1 = snd (?ip [''link'', ''del'', ?tap] s')" "copies s' = copies s" "taps s' = taps s2"
      using set' c d by (cases ok3) (auto simp: realSetupNetwork_def Let_def run_def g t1 t2 t3 t4)
    then have "copies s1 = copies s" using mi(3) by simp
    moreover have "taps s1 = taps s' - {?tap} \<or> taps s1 = taps s' \<and> [''link'', ''del'', ?tap] \<in> refused"
      using mi(4) [where t = ?tap and s = s'] s'(2) by simp
    ultimately show ?thesis using s'(1,4) same d failed by auto
  next
    case up
    have "s1 = allow_guest ?ipt ?tap s4" "\<exists>st. res = Inr st \<and> ns_tap st = ?tap"
      using set' up by (auto simp: realSetupNetwork_def Let_def run_def g t1 t2 t3 t4)
    then show ?thesis using allow_guest_touched [OF m R no same [OF c(1)]] d up by auto
  qed
qed

definition gateway_on :: "string \<Rightarrow> bool" where
  "gateway_on listen \<longleftrightarrow> trim_space listen \<noteq> '''' \<and> 0 < ListenPort (trim_space listen)"

lemma tapName_nonempty [simp]: "tapName vm \<noteq> ''''"
  by (simp add: tapName_def)

lemma redirect_touched:
  assumes m: "host_manual tls copies taps refused" and tap: "tap \<noteq> ''''" "0 < ListenPort addr"
    and R: "set (guest_rules tap addr) \<subseteq> R" and z: "touched copies R s s1"
    and r: "RedirectGuestHTTPS (t_ipt tls) tap addr s1 = (e, s2)"
  shows "touched copies R s s2 \<and> taps s2 = taps s1"
proof -
  obtain b spec inp where sp: "GuestHTTPSBypassSpec tap = Some b" "fst (GuestHTTPSRedirectSpec tap addr) = Some spec"
    "GuestHTTPSInputSpec tap addr = Some inp"
    using specs_of_port [OF tap] by metis
  have in_R: "b \<in> R" "spec \<in> R" "inp \<in> R" using R by (auto simp: guest_rules_def sp)
  let ?ens = "\<lambda>f q v. snd (ensure_rule (t_ipt tls) f q v)"
  note te = touched_ensure [OF m, where R = R and s = s]
  have t: "touched copies R s (?ens ''-I'' b s1)" "touched copies R s (?ens ''-A'' spec (?ens ''-I'' b s1))"
    "touched copies R s (?ens ''-I'' inp (?ens ''-A'' spec (?ens ''-I'' b s1)))"
    using te z in_R by simp_all
  have "s2 = ?ens ''-A'' spec (?ens ''-I'' b s1) \<or> s2 = ?ens ''-I'' inp (?ens ''-A'' spec (?ens ''-I'' b s1))"
    using r by (auto simp: RedirectGuestHTTPS_def sp Let_def split: prod.splits bool.splits)
  then show ?thesis using t by (auto simp: ensure_taps [OF m])
qed

lemma clear_as_deletes:
  assumes "tap \<noteq> ''''" and "0 < ListenPort addr"
  obtains rs where "ClearGuestHTTPSRedirect ipt tap addr s = fold (\<lambda>r v. delete_rule ipt (Some r) v) rs s"
    and "set rs = set (the (legacyRedirectSpec tap addr) # guest_rules tap addr)"
proof -
  obtain b spec inp where sp: "GuestHTTPSBypassSpec tap = Some b" "fst (GuestHTTPSRedirectSpec tap addr) = Some spec"
    "GuestHTTPSInputSpec tap addr = Some inp" "legacyRedirectSpec tap addr \<noteq> None"
    using specs_of_port [OF assms] by metis
  obtain leg where leg: "legacyRedirectSpec tap addr = Some leg" using sp(4) by blast
  show thesis
    by (rule that [of "[spec, leg, inp, b]"])
      (use assms(1) in \<open>auto simp: ClearGuestHTTPSRedirect_def Let_def sp leg guest_rules_def\<close>)
qed

lemma device_rules_chain:
  assumes "r \<in> set (device_rules (tapName vm) listen)"
  shows "hd r \<noteq> ''POSTROUTING''"
proof (cases "gateway_on listen")
  case True
  obtain b spec inp where "GuestHTTPSBypassSpec (tapName vm) = Some b"
    "fst (GuestHTTPSRedirectSpec (tapName vm) (trim_space listen)) = Some spec"
    "GuestHTTPSInputSpec (tapName vm) (trim_space listen) = Some inp"
    "legacyRedirectSpec (tapName vm) (trim_space listen) \<noteq> None"
    using specs_of_port [of "tapName vm" "trim_space listen"] True by (metis gateway_on_def tapName_nonempty)
  then show ?thesis using assms
    by (auto simp: device_rules_def tap_specs_def mailboxInputSpecs_def guest_rules_def legacyRedirectSpec_def
        GuestHTTPSBypassSpec_def GuestHTTPSRedirectSpec_def GuestHTTPSInputSpec_def Let_def split: if_splits prod.splits)
next
  case False
  then show ?thesis using assms
    by (auto simp: device_rules_def gateway_on_def tap_specs_def mailboxInputSpecs_def Let_def not_less split: if_splits)
qed

lemma real_teardown:
  assumes m: "host_manual tls copies taps refused" and tap: "ns_tap net \<noteq> ''''"
    and R: "set (tap_specs (ns_tap net) @ mailboxInputSpecs (ns_tap net)) \<subseteq> R" and z: "touched copies R s s1"
  shows "touched copies R s (realTeardownNetwork tls net s1) \<and>
    taps (realTeardownNetwork tls net s1) - {ns_tap net} = taps s1 - {ns_tap net} \<and>
    (ns_tap net \<in> taps (realTeardownNetwork tls net s1) \<longrightarrow> [''link'', ''del'', ns_tap net] \<in> refused) \<and>
    (\<forall>r. r \<in> set (tap_specs (ns_tap net) @ mailboxInputSpecs (ns_tap net)) \<or> copies s1 r = 0 \<longrightarrow>
       copies (realTeardownNetwork tls net s1) r = 0 \<or> ''-D'' # r \<in> refused)"
proof -
  let ?a = "tap_specs (ns_tap net)" let ?b = "mailboxInputSpecs (ns_tap net)"
  let ?del = "\<lambda>rs v. fold (\<lambda>r v. delete_rule (t_ipt tls) (Some r) v) rs v"
  have e: "realTeardownNetwork tls net s1 = snd (t_ip tls [''link'', ''del'', ns_tap net] (?del (?a @ ?b) s1))"
    using tap by (simp add: realTeardownNetwork_def Let_def run_def)
  have d: "touched copies R s (?del (?a @ ?b) s1)"
    "\<And>r. r \<in> set (?a @ ?b) \<or> copies s1 r = 0 \<Longrightarrow> copies (?del (?a @ ?b) s1) r = 0 \<or> ''-D'' # r \<in> refused"
    using touched_deletes [OF m R z refl] by blast+
  have k: "taps (?del (?a @ ?b) s1) = taps s1" by (rule deletes_taps [OF m])
  have c: "copies (realTeardownNetwork tls net s1) = copies (?del (?a @ ?b) s1)"
    unfolding e by (rule manual_ip(3) [OF m])
  moreover have "touched copies R s (realTeardownNetwork tls net s1)" using d(1) c by (simp add: touched_def)
  moreover have "taps (realTeardownNetwork tls net s1) - {ns_tap net} = taps s1 - {ns_tap net} \<and>
      (ns_tap net \<in> taps (realTeardownNetwork tls net s1) \<longrightarrow> [''link'', ''del'', ns_tap net] \<in> refused)"
    using manual_ip(4) [OF m, where t = "ns_tap net" and s = "?del (?a @ ?b) s1"] k unfolding e by auto
  ultimately show ?thesis using d(2) by (simp del: fold_append set_append)
qed

text \<open>What may differ after a guest's network is gone: only what the host refused to delete of it.\<close>

definition torn_down ::
  "('s \<Rightarrow> string list \<Rightarrow> nat) \<Rightarrow> ('s \<Rightarrow> string set) \<Rightarrow> string list set \<Rightarrow> string \<Rightarrow> string \<Rightarrow> 's \<Rightarrow> 's \<Rightarrow> bool" where
  "torn_down copies taps refused tap listen s s' \<longleftrightarrow>
     (\<forall>r. hd r \<noteq> ''POSTROUTING'' \<longrightarrow> copies s' r = copies s r \<or>
        r \<in> set (device_rules tap listen) \<and> ''-D'' # r \<in> refused \<and> copies s' r = 1) \<and>
     taps s' - {tap} = taps s - {tap} \<and> (tap \<in> taps s' \<longrightarrow> [''link'', ''del'', tap] \<in> refused)"

definition device_tap :: "string \<Rightarrow> ('s \<Rightarrow> string set) \<Rightarrow> 's \<Rightarrow> 's \<Rightarrow> bool" where
  "device_tap vm taps s s' \<longleftrightarrow> taps s' - {tapName vm} = taps s - {tapName vm}"

lemma setup_touched:
  assumes m: "host_manual tls copies taps refused"
    and z: "touched copies (set (device_rules (tapName vm) listen)) s s"
    and set': "SetupNetwork tls listen io text' dir vm fs s = (res, fs1, s1)"
  shows "touched copies (set (device_rules (tapName vm) listen)) s s1 \<and> device_tap vm taps s s1 \<and>
    (case res of Inl e \<Rightarrow> (tapName vm \<notin> taps s1 \<or> [''link'', ''del'', tapName vm] \<in> refused) \<and> copies s1 = copies s | Inr st \<Rightarrow> ns_tap st = tapName vm)"
proof -
  let ?tap = "tapName vm" let ?R = "set (device_rules (tapName vm) listen)" let ?addr = "trim_space listen"
  have own: "set (tap_specs ?tap @ mailboxInputSpecs ?tap) \<subseteq> ?R" by (auto simp: device_rules_def)
  have no: "\<forall>r \<in> ?R. hd r \<noteq> ''POSTROUTING''" using device_rules_chain by blast
  obtain res0 fs0 s0 where inner: "realSetupNetwork tls io text' dir vm fs s = (res0, fs0, s0)" by (metis prod_cases3)
  note rs = real_setup [OF m own no z inner]
  show ?thesis
  proof (cases "gateway_on listen \<and> (\<exists>st. res0 = Inr st)")
    case False
    then have "res = res0 \<and> s1 = s0"
      using set' inner by (cases res0) (auto simp: SetupNetwork_def Let_def gateway_on_def not_less split: if_splits)
    then show ?thesis using rs by (cases res0) (simp_all add: device_tap_def)
  next
    case True
    then obtain st where st: "res0 = Inr st" and on: "?addr \<noteq> ''''" "0 < ListenPort ?addr" by (auto simp: gateway_on_def)
    have tap: "ns_tap st = ?tap" using rs st by simp
    obtain e s' where red: "RedirectGuestHTTPS (t_ipt tls) ?tap ?addr s0 = (e, s')" by fastforce
    have off: "\<not> (?addr = '''' \<or> ListenPort ?addr \<le> 0)" using on by simp
    have "s' = s1 \<and> res = Inr st"
      using set' inner unfolding SetupNetwork_def Let_def if_not_P [OF off] inner st by (cases e) (simp_all add: tap red)
    moreover have "set (guest_rules ?tap ?addr) \<subseteq> ?R" using on by (auto simp: device_rules_def Let_def)
    then have "touched copies ?R s s' \<and> taps s' = taps s0"
      by (rule redirect_touched [OF m tapName_nonempty on(2) _ conjunct1 [OF rs] red])
    ultimately show ?thesis using rs tap by (simp add: device_tap_def)
  qed
qed

lemma teardown_clean:
  assumes m: "host_manual tls copies taps refused"
    and none: "\<forall>r \<in> set (device_rules (tapName vm) listen). copies s r = 0"
    and t: "touched copies (set (device_rules (tapName vm) listen)) s s1" and d: "device_tap vm taps s s1"
    and tap: "ns_tap st = tapName vm"
  shows "torn_down copies taps refused (tapName vm) listen s (TeardownNetwork tls listen st s1)"
proof -
  let ?tap = "tapName vm" let ?R = "set (device_rules (tapName vm) listen)" let ?addr = "trim_space listen"
  let ?own = "tap_specs ?tap @ mailboxInputSpecs ?tap"
  have own: "set ?own \<subseteq> ?R" by (auto simp: device_rules_def)
  have final: ?thesis if
    f: "s2 = TeardownNetwork tls listen st s1" "touched copies ?R s s2" "taps s2 - {?tap} = taps s - {?tap}"
      "?tap \<in> taps s2 \<longrightarrow> [''link'', ''del'', ?tap] \<in> refused" "\<forall>r \<in> ?R. copies s2 r = 0 \<or> ''-D'' # r \<in> refused" for s2
  proof -
    have "copies s2 r = copies s r \<or> r \<in> ?R \<and> ''-D'' # r \<in> refused \<and> copies s2 r = 1" if "hd r \<noteq> ''POSTROUTING''" for r
    proof (cases "r \<in> ?R")
      case True
      then have "copies s2 r \<le> 1" "copies s r = 0" using f(2) none by (auto simp: touched_def)
      then show ?thesis using True f(5) by (cases "copies s2 r = 0") auto
    qed (use f(2) that in \<open>simp add: touched_def\<close>)
    then show ?thesis using f(1,3,4) by (simp add: torn_down_def)
  qed
  show ?thesis
  proof (cases "gateway_on listen")
    case False
    then have "TeardownNetwork tls listen st s1 = realTeardownNetwork tls st s1" "?R = set ?own"
      by (auto simp: TeardownNetwork_def gateway_on_def device_rules_def Let_def not_less)
    then show ?thesis
      using real_teardown [OF m _ _ t, of st] tap own d
      by (intro final [of "realTeardownNetwork tls st s1"]) (auto simp: device_tap_def)
  next
    case True
    then have on: "?addr \<noteq> ''''" "0 < ListenPort ?addr" by (simp_all add: gateway_on_def)
    have R: "?R = set ?own \<union> set (the (legacyRedirectSpec ?tap ?addr) # guest_rules ?tap ?addr)"
      using on by (simp add: device_rules_def Let_def not_le Un_assoc)
    obtain rs' where cl: "ClearGuestHTTPSRedirect (t_ipt tls) ?tap ?addr s1 = fold (\<lambda>r v. delete_rule (t_ipt tls) (Some r) v) rs' s1"
      and rs': "set rs' = set (the (legacyRedirectSpec ?tap ?addr) # guest_rules ?tap ?addr)"
      by (rule clear_as_deletes [OF tapName_nonempty on(2)])
    let ?c = "ClearGuestHTTPSRedirect (t_ipt tls) ?tap ?addr s1"
    have c: "touched copies ?R s ?c" "\<And>r. r \<in> set rs' \<Longrightarrow> copies ?c r = 0 \<or> ''-D'' # r \<in> refused" "taps ?c = taps s1"
      using touched_deletes [OF m _ t cl] rs' R deletes_taps [OF m] cl by auto
    have "TeardownNetwork tls listen st s1 = realTeardownNetwork tls st ?c"
      using on tap by (simp add: TeardownNetwork_def Let_def not_le)
    moreover have rt: "touched copies ?R s (realTeardownNetwork tls st ?c)"
      "taps (realTeardownNetwork tls st ?c) - {?tap} = taps ?c - {?tap}"
      "?tap \<in> taps (realTeardownNetwork tls st ?c) \<longrightarrow> [''link'', ''del'', ?tap] \<in> refused"
      "\<forall>r. r \<in> set ?own \<or> copies ?c r = 0 \<longrightarrow> copies (realTeardownNetwork tls st ?c) r = 0 \<or> ''-D'' # r \<in> refused"
      using real_teardown [OF m _ _ c(1), of st] tap own by auto
    moreover have "\<forall>r \<in> ?R. copies (realTeardownNetwork tls st ?c) r = 0 \<or> ''-D'' # r \<in> refused"
      using rt(4) c(2) unfolding R rs' [symmetric] by blast
    ultimately show ?thesis using c(3) d by (intro final [of "realTeardownNetwork tls st ?c"]) (simp_all add: device_tap_def)
  qed
qed

lemma touched_start: "\<forall>r \<in> R. copies s r = 0 \<Longrightarrow> touched copies R s s"
  by (simp add: touched_def)


text \<open>A host over counted rules and a set of devices; what \<open>no\<close> holds fails, unless it is a query.\<close>

definition demo_tools :: "(string list \<Rightarrow> bool) \<Rightarrow> ((string list \<Rightarrow> nat) \<times> string set) tools" where
  "demo_tools no =
     \<lparr> t_ip = (\<lambda>args s.
         if no args then (False, s)
         else if take 2 args = [''link'', ''del''] then (args ! 2 \<in> snd s, (fst s, snd s - {args ! 2}))
         else if take 2 args = [''tuntap'', ''add''] then (True, (fst s, insert (args ! 3) (snd s)))
         else (True, s)),
       t_ipt = (\<lambda>args s.
         if args \<noteq> [] \<and> hd args = ''-t'' then (True, s)
         else if no args \<and> take 1 args \<noteq> [''-C''] then (False, s)
         else (fst (counting_iptables args (fst s)), (snd (counting_iptables args (fst s)), snd s))) \<rparr>"

lemma demo_tools_manual: "host_manual (demo_tools no) fst snd {c. no c}"
  unfolding host_manual_def
  by (auto simp: demo_tools_def run_def counting_iptables_def fun_eq_iff)

definition refuses_link_del :: "string list \<Rightarrow> bool" where
  "refuses_link_del args \<longleftrightarrow> take 2 args = [''link'', ''del'']"


text \<open>
  The deletions' failures go nowhere: where the host refuses to delete a device, tearing a guest's network down,
  which has no error to give back, leaves the devices as they are.
\<close>

lemma refused_device_stays: "snd (realTeardownNetwork (demo_tools refuses_link_del) net s) = snd s"
proof (cases "ns_tap net = ''''")
  case False
  let ?ipt = "t_ipt (demo_tools refuses_link_del)"
  let ?del = "\<lambda>rs v. fold (\<lambda>r v. delete_rule ?ipt (Some r) v) rs v"
  have "snd (?del rs v) = snd v" for rs v by (rule deletes_taps [OF demo_tools_manual])
  moreover have "t_ip (demo_tools refuses_link_del) [''link'', ''del'', t] v = (False, v)" for t v
    by (simp add: demo_tools_def refuses_link_del_def)
  ultimately show ?thesis using False by (simp add: realTeardownNetwork_def Let_def run_def)
qed (simp add: realTeardownNetwork_def)

end
