(* ===== verification/MicroVM.thy ===== *)
theory MicroVM
  imports GuestNet
begin

text \<open>
  \<open>internal/vmm\<close>: the types of the microVM lifecycle, the directory of instances on the host, and the interface
  of a manager of microVMs, as a locale: what \<open>internal/cleanup\<close> relies on, and both backends provide. A
  request whose context is already done is left out: it returns that error and does nothing.
\<close>

section \<open>Types\<close>

definition id_char :: "char \<Rightarrow> bool" where
  "id_char c \<longleftrightarrow>
     (let n = (of_char c :: nat) in
      (97 \<le> n \<and> n \<le> 122) \<or> (65 \<le> n \<and> n \<le> 90) \<or> (48 \<le> n \<and> n \<le> 57) \<or> c = CHR ''-'' \<or> c = CHR ''_'')"

definition valid_id :: "string \<Rightarrow> bool" where
  "valid_id vm \<longleftrightarrow> vm \<noteq> '''' \<and> list_all id_char vm"

record vm_config =
  vc_id :: string
  vc_vcpus :: int
  vc_memory :: int
  vc_kernel :: string
  vc_rootfs :: string
  vc_metadata :: "(string \<times> string) list"

datatype vmm_error =
    VmNotFound string | VmExists string | VmAlreadyRunning string
  | VmBadID | VmBadVCPUs | VmBadMemory | VmNoRootfs | VmNoKernel
  | VmBadMeta | VmBadState string | VmHostError string | VmNil

definition Validate_config :: "vm_config \<Rightarrow> vmm_error option" where
  "Validate_config c =
     (if \<not> valid_id (vc_id c) then Some VmBadID
      else if vc_vcpus c \<le> 0 then Some VmBadVCPUs
      else if vc_memory c \<le> 0 then Some VmBadMemory
      else None)"

definition StateCreated :: string where "StateCreated = ''created''"
definition StateRunning :: string where "StateRunning = ''running''"
definition StateStopped :: string where "StateStopped = ''stopped''"

record vm_info =
  vi_id :: string
  vi_state :: string
  vi_vcpus :: int
  vi_memory :: int
  vi_rootfs :: string
  vi_kernel :: string
  vi_created :: gotime
  vi_metadata :: "(string \<times> string) list"

record InstanceMeta =
  im_id :: string
  im_state :: string
  im_vcpus :: int
  im_memory :: int
  im_rootfs :: string
  im_kernel :: string
  im_created :: gotime
  im_metadata :: "(string \<times> string) list"
  im_backend :: string
  im_pid :: int
  im_net :: NetworkState

definition ToInfo :: "InstanceMeta \<Rightarrow> vm_info" where
  "ToInfo m = \<lparr> vi_id = im_id m, vi_state = im_state m, vi_vcpus = im_vcpus m, vi_memory = im_memory m,
     vi_rootfs = im_rootfs m, vi_kernel = im_kernel m, vi_created = im_created m, vi_metadata = im_metadata m \<rparr>"

definition bare_info :: "string \<Rightarrow> vm_info" where
  "bare_info vm = \<lparr> vi_id = vm, vi_state = StateCreated, vi_vcpus = 0, vi_memory = 0, vi_rootfs = '''',
     vi_kernel = '''', vi_created = zero_time, vi_metadata = [] \<rparr>"

section \<open>The host\<close>

text \<open>
  \<open>meta.json\<close> is absent, not the JSON of metadata, or it; \<open>WriteMeta\<close> replaces it as a whole. The other files of an
  instance are paths with contents. An entry of \<open>instances/\<close> that is no directory is \<open>None\<close>. The host
  also has its network, its running VMM processes, and the waits a manager keeps for them.
\<close>

datatype meta_file = NoMeta | BadMeta | Meta InstanceMeta

record instance_dir =
  in_meta :: meta_file
  in_files :: files

record 's host =
  hs_dirs :: "(string \<times> instance_dir option) list"
  hs_net :: 's
  hs_procs :: "int list"
  hs_waits :: "(string \<times> int) list"

text \<open>
  The operating system's answers: the error of creating or writing a path of an instance, of asking for an
  instance's directory, of removing it (which then stays) and of listing \<open>instances/\<close>; whether a process ends
  of the signals it is sent; and where the data root is.
\<close>

record os =
  os_root :: string
  os_io :: "string \<Rightarrow> string \<Rightarrow> string option"
  os_stat :: "string \<Rightarrow> string option"
  os_rm :: "string \<Rightarrow> string option"
  os_list :: "string option"
  os_kill :: "int \<Rightarrow> bool"

definition InstanceDir :: "os \<Rightarrow> string \<Rightarrow> string" where
  "InstanceDir os vm = os_root os @ ''/instances/'' @ vm"

definition entry :: "string \<Rightarrow> 's host \<Rightarrow> instance_dir option option" where
  "entry vm h = map_of (hs_dirs h) vm"

definition put_entry :: "string \<Rightarrow> instance_dir option \<Rightarrow> 's host \<Rightarrow> 's host" where
  "put_entry vm e h = h\<lparr> hs_dirs := AList.update vm e (hs_dirs h) \<rparr>"

definition del_entry :: "string \<Rightarrow> 's host \<Rightarrow> 's host" where
  "del_entry vm h = h\<lparr> hs_dirs := AList.delete vm (hs_dirs h) \<rparr>"

text \<open>\<open>os.RemoveAll\<close> of an instance's directory.\<close>

definition RemoveAll :: "os \<Rightarrow> string \<Rightarrow> 's host \<Rightarrow> string option \<times> 's host" where
  "RemoveAll os vm h =
     (if entry vm h = None then (None, h)
      else case os_rm os vm of Some e \<Rightarrow> (Some e, h) | None \<Rightarrow> (None, del_entry vm h))"

definition ReadMeta :: "string \<Rightarrow> 's host \<Rightarrow> vmm_error + InstanceMeta" where
  "ReadMeta vm h =
     (case entry vm h of
        Some (Some i) \<Rightarrow> (case in_meta i of NoMeta \<Rightarrow> Inl (VmNotFound vm) | BadMeta \<Rightarrow> Inl VmBadMeta | Meta m \<Rightarrow> Inr m)
      | Some None \<Rightarrow> Inl (VmHostError ''not a directory'')
      | None \<Rightarrow> Inl (VmNotFound vm))"

definition WriteMeta :: "os \<Rightarrow> string \<Rightarrow> InstanceMeta \<Rightarrow> instance_dir \<Rightarrow> string option \<times> instance_dir" where
  "WriteMeta os vm m i =
     (case os_io os vm ''meta.json'' of Some e \<Rightarrow> (Some e, i) | None \<Rightarrow> (None, i\<lparr> in_meta := Meta m \<rparr>))"

definition dir_names :: "'s host \<Rightarrow> string list" where
  "dir_names h = isort_by (\<lambda>a b. \<not> text_less b a) (map fst (filter (\<lambda>(n, e). e \<noteq> None) (hs_dirs h)))"

text \<open>
  \<open>ReadPIDFile\<close>, whose errors its caller reads as 0, and \<open>StopProcess\<close>, which returns no error on any path: a
  process that may not be signalled, or outlives the signals, is still there when it returns.
\<close>

definition ReadPIDFile :: "files \<Rightarrow> int" where
  "ReadPIDFile fs =
     (case map_of fs ''firecracker.pid'' of
        None \<Rightarrow> 0
      | Some t \<Rightarrow>
          (let s = trim_space t in
           if s = '''' then 0 else case atoi s of None \<Rightarrow> 0 | Some n \<Rightarrow> if n < 0 then 0 else n))"

definition end_process :: "int \<Rightarrow> 's host \<Rightarrow> 's host" where
  "end_process pid h = h\<lparr> hs_procs := filter (\<lambda>p. p \<noteq> pid) (hs_procs h) \<rparr>"

definition StopProcess :: "os \<Rightarrow> int \<Rightarrow> 's host \<Rightarrow> 's host" where
  "StopProcess os pid h = (if pid \<le> 0 \<or> \<not> os_kill os pid then h else end_process pid h)"

section \<open>Texts written with a line end\<close>

lemma trim_line:
  assumes "s \<noteq> []" and "hd s \<notin> hd ` set space_runes" and "last s \<notin> last ` set space_runes"
  shows "trim_space (s @ [CHR 0x0A]) = s"
proof -
  have l: "trim_left (s @ [CHR 0x0A]) = s @ [CHR 0x0A]"
    unfolding trim_left_def using assms(1,2) by (intro strip_runes_hd) (auto, metis imageI)
  have "find (\<lambda>r. r \<noteq> [] \<and> prefix r (CHR 0x0A # rev s)) (map rev space_runes) = Some [CHR 0x0A]"
    by (simp add: space_runes_def)
  then have "strip_runes (map rev space_runes) (CHR 0x0A # rev s) = strip_runes (map rev space_runes) (rev s)"
    by (subst strip_runes.simps) simp
  moreover have "strip_runes (map rev space_runes) (rev s) = rev s"
    using assms(1,3) by (intro strip_runes_hd) (auto simp: hd_rev, metis imageI)
  ultimately show ?thesis by (simp add: trim_space_def trim_right_def l)
qed

lemma digit_not_space: "is_digit c \<Longrightarrow> c \<notin> hd ` set space_runes \<and> c \<notin> last ` set space_runes"
  by (auto simp: space_runes_def is_digit_def digit_of_def)

lemma trim_number: "0 \<le> n \<Longrightarrow> trim_space (itoa n @ [CHR 0x0A]) = itoa n"
proof (rule trim_line)
  assume n: "0 \<le> n"
  have d: "is_digit c" if "c \<in> set (itoa n)" for c using that n by (auto simp: itoa_def dest: nat_digits_digits)
  show "hd (itoa n) \<notin> hd ` set space_runes" "last (itoa n) \<notin> last ` set space_runes"
    using digit_not_space [OF d] by simp_all
qed simp

section \<open>The host's instances\<close>

lemma entry_put [simp]: "entry n (put_entry vm e h) = (if n = vm then Some e else entry n h)"
  by (simp add: entry_def put_entry_def update_conv')

lemma entry_del [simp]: "entry n (del_entry vm h) = (if n = vm then None else entry n h)"
  by (simp add: entry_def del_entry_def delete_conv')

lemma host_frame [simp]:
  "hs_net (put_entry vm e h) = hs_net h" "hs_procs (put_entry vm e h) = hs_procs h" "hs_waits (put_entry vm e h) = hs_waits h"
  "hs_net (del_entry vm h) = hs_net h" "hs_procs (del_entry vm h) = hs_procs h" "hs_waits (del_entry vm h) = hs_waits h"
  by (simp_all add: put_entry_def del_entry_def)

lemma entry_frame [simp]:
  "entry n (h\<lparr> hs_net := s \<rparr>) = entry n h" "entry n (h\<lparr> hs_procs := ps \<rparr>) = entry n h"
  "entry n (h\<lparr> hs_waits := ws \<rparr>) = entry n h" "entry n (StopProcess os pid h) = entry n h"
  by (simp_all add: entry_def StopProcess_def end_process_def)

lemma end_process_frame [simp]:
  "hs_net (end_process pid h) = hs_net h" "hs_waits (end_process pid h) = hs_waits h"
  "hs_dirs (end_process pid h) = hs_dirs h" "entry n (end_process pid h) = entry n h"
  "set (hs_procs (end_process pid h)) = set (hs_procs h) - {pid}"
  by (auto simp: end_process_def entry_def)

lemma StopProcess_frame [simp]:
  "hs_net (StopProcess os pid h) = hs_net h" "hs_waits (StopProcess os pid h) = hs_waits h"
  "hs_dirs (StopProcess os pid h) = hs_dirs h"
  "set (hs_procs (StopProcess os pid h)) = set (hs_procs h) - (if pid \<le> 0 \<or> \<not> os_kill os pid then {} else {pid})"
  by (auto simp: StopProcess_def)

text \<open>A host as the code keeps it: one entry per name, and the metadata of a directory is that of its instance.\<close>

definition host_ok :: "'s host \<Rightarrow> bool" where
  "host_ok h \<longleftrightarrow> distinct (map fst (hs_dirs h)) \<and>
     list_all (\<lambda>(n, e). case e of Some i \<Rightarrow> (case in_meta i of Meta m \<Rightarrow> im_id m = n | _ \<Rightarrow> True) | None \<Rightarrow> True) (hs_dirs h)"

definition own_meta :: "string \<Rightarrow> instance_dir option \<Rightarrow> bool" where
  "own_meta n e \<longleftrightarrow> (case e of Some i \<Rightarrow> (case in_meta i of Meta m \<Rightarrow> im_id m = n | _ \<Rightarrow> True) | None \<Rightarrow> True)"

lemma host_ok_alt: "host_ok h \<longleftrightarrow> distinct (map fst (hs_dirs h)) \<and> (\<forall>n e. entry n h = Some e \<longrightarrow> own_meta n e)"
  by (auto simp: host_ok_def own_meta_def entry_def list_all_iff map_of_eq_Some_iff)

lemma host_ok_put: "host_ok h \<Longrightarrow> own_meta vm e \<Longrightarrow> host_ok (put_entry vm e h)"
  by (auto simp: host_ok_alt) (simp add: put_entry_def distinct_update)

lemma host_ok_del: "host_ok h \<Longrightarrow> host_ok (del_entry vm h)"
  by (auto simp: host_ok_alt split: if_splits) (simp add: del_entry_def distinct_delete)

lemma host_ok_frame [simp]:
  "host_ok (h\<lparr> hs_net := s \<rparr>) = host_ok h" "host_ok (h\<lparr> hs_procs := ps \<rparr>) = host_ok h"
  "host_ok (h\<lparr> hs_waits := ws \<rparr>) = host_ok h" "host_ok (StopProcess os pid h) = host_ok h"
  "host_ok (end_process pid h) = host_ok h"
  by (simp_all add: host_ok_def StopProcess_def end_process_def)

lemma set_dir_names: "distinct (map fst (hs_dirs h)) \<Longrightarrow> set (dir_names h) = {n. \<exists>i. entry n h = Some (Some i)}"
  by (force simp: dir_names_def entry_def map_of_eq_Some_iff)

lemma RemoveAll_entry:
  assumes "RemoveAll os vm h = (e, h')"
  shows "(e = None \<longrightarrow> entry vm h' = None) \<and> (\<forall>n. n \<noteq> vm \<longrightarrow> entry n h' = entry n h) \<and> (host_ok h \<longrightarrow> host_ok h')"
  using assms by (cases "os_rm os vm") (auto simp: RemoveAll_def host_ok_del split: if_splits)

section \<open>The interface of a manager\<close>

text \<open>
  What the users of a \<open>vmm.Manager\<close> rely on: destroying an instance leaves the others alone, it is gone when
  that succeeds, and a listing that succeeds names the directories whose names are valid, all of them.
\<close>

locale vm_manager =
  fixes destroy :: "string \<Rightarrow> 's host \<Rightarrow> vmm_error option \<times> 's host"
    and listing :: "'s host \<Rightarrow> vmm_error + vm_info list"
  assumes destroy_ok: "host_ok h \<Longrightarrow> host_ok (snd (destroy vm h))"
    and destroy_others: "n \<noteq> vm \<Longrightarrow> entry n (snd (destroy vm h)) = entry n h"
    and destroy_gone: "fst (destroy vm h) = None \<Longrightarrow> entry vm (snd (destroy vm h)) = None"
    and destroy_known: "entry vm h = None \<Longrightarrow> entry vm (snd (destroy vm h)) = None"
    and listing_all: "host_ok h \<Longrightarrow> listing h = Inr infos \<Longrightarrow>
      set (map vi_id infos) = {n. valid_id n \<and> (\<exists>i. entry n h = Some (Some i))}"

end
