(* ===== verification/Cleanup.thy ===== *)
theory Cleanup
  imports MicroVM
begin

text \<open>
  \<open>internal/cleanup/cleanup.go\<close>: the removal of instances and the sweep that destroys what is on disk but no longer
  wanted, for any manager of microVMs that keeps to the interface of \<open>MicroVM\<close>.
\<close>

record 's manager =
  mg_destroy :: "string \<Rightarrow> 's host \<Rightarrow> vmm_error option \<times> 's host"
  mg_list :: "'s host \<Rightarrow> vmm_error + vm_info list"

definition Cleaner_Destroy :: "os \<Rightarrow> 's manager option \<Rightarrow> string \<Rightarrow> 's host \<Rightarrow> vmm_error option \<times> 's host" where
  "Cleaner_Destroy os mg vm h =
     (if \<not> valid_id vm then (Some VmBadID, h)
      else case mg of
        None \<Rightarrow> (Some VmNil, h)
      | Some m \<Rightarrow>
          (case mg_destroy m vm h of
             (Some e, h1) \<Rightarrow> (Some e, h1)
           | (None, h1) \<Rightarrow>
               if os_root os = '''' then (None, h1)
               else (case RemoveAll os vm h1 of
                       (Some e, h2) \<Rightarrow> (Some (VmHostError e), h2) | (None, h2) \<Rightarrow> (None, h2))))"

definition listInstanceDirs :: "os \<Rightarrow> 's host \<Rightarrow> vmm_error + string list" where
  "listInstanceDirs os h =
     (if os_root os = '''' then Inr []
      else case os_list os of
        Some e \<Rightarrow> Inl (VmHostError e)
      | None \<Rightarrow> Inr (filter (\<lambda>n. n \<noteq> '''' \<and> hd n \<noteq> CHR ''.'' \<and> valid_id n) (dir_names h)))"

text \<open>What the sweep destroys: first what the manager lists, then what only the directory shows.\<close>

definition orphans_of :: "string list \<Rightarrow> vm_info list \<Rightarrow> string list \<Rightarrow> string list" where
  "orphans_of desired infos on_disk =
     filter (\<lambda>n. n \<notin> set desired) (map vi_id infos) @
     filter (\<lambda>n. n \<notin> set (map vi_id infos) \<and> n \<notin> set desired) on_disk"

text \<open>\<open>ctx\<close> tells, for each orphan, whether the context is done when the sweep gets to it.\<close>

fun sweep_each ::
  "os \<Rightarrow> 's manager option \<Rightarrow> (string \<Rightarrow> string option) \<Rightarrow> string list \<Rightarrow> 's host \<Rightarrow>
   string list \<times> vmm_error option \<times> 's host" where
  "sweep_each os mg ctx [] h = ([], None, h)"
| "sweep_each os mg ctx (vm # vms) h =
     (case ctx vm of
        Some e \<Rightarrow> ([], Some (VmHostError e), h)
      | None \<Rightarrow>
          (case Cleaner_Destroy os mg vm h of
             (Some e, h1) \<Rightarrow> ([], Some e, h1)
           | (None, h1) \<Rightarrow>
               (case sweep_each os mg ctx vms h1 of (destroyed, err, h2) \<Rightarrow> (vm # destroyed, err, h2))))"

definition SweepOrphans ::
  "os \<Rightarrow> 's manager option \<Rightarrow> (string \<Rightarrow> string option) \<Rightarrow> string list \<Rightarrow> 's host \<Rightarrow>
   string list \<times> vmm_error option \<times> 's host" where
  "SweepOrphans os mg ctx desired h =
     (case mg of
        None \<Rightarrow> ([], Some VmNil, h)
      | Some m \<Rightarrow>
          (case mg_list m h of
             Inl e \<Rightarrow> ([], Some e, h)
           | Inr infos \<Rightarrow>
               (case listInstanceDirs os h of
                  Inl e \<Rightarrow> ([], Some e, h)
                | Inr on_disk \<Rightarrow> sweep_each os mg ctx (orphans_of desired infos on_disk) h)))"

definition SweepOrphansFunc ::
  "os \<Rightarrow> 's manager option \<Rightarrow> (string \<Rightarrow> string option) \<Rightarrow> (string + string list) option \<Rightarrow> 's host \<Rightarrow>
   string list \<times> vmm_error option \<times> 's host" where
  "SweepOrphansFunc os mg ctx desired h =
     (case desired of
        Some (Inl e) \<Rightarrow> ([], Some (VmHostError e), h)
      | Some (Inr ids) \<Rightarrow> SweepOrphans os mg ctx ids h
      | None \<Rightarrow> SweepOrphans os mg ctx [] h)"

section \<open>What a sweep leaves\<close>

text \<open>The instances a sweep is about: directories whose names are valid and not wanted.\<close>

definition orphaned :: "string list \<Rightarrow> 's host \<Rightarrow> string set" where
  "orphaned desired h = {n. valid_id n \<and> n \<notin> set desired \<and> (\<exists>i. entry n h = Some (Some i))}"

context vm_manager begin

abbreviation mgr :: "'s manager option" where
  "mgr \<equiv> Some \<lparr> mg_destroy = destroy, mg_list = listing \<rparr>"

lemma cleaner_destroy:
  assumes "Cleaner_Destroy os mgr vm h = (err, h')"
  shows "(host_ok h \<longrightarrow> host_ok h') \<and> (\<forall>n. n \<noteq> vm \<longrightarrow> entry n h' = entry n h) \<and>
    (err = None \<or> entry vm h = None \<longrightarrow> entry vm h' = None)"
proof (cases "valid_id vm")
  case False
  then show ?thesis using assms by (auto simp: Cleaner_Destroy_def)
next
  case True
  obtain e1 h1 where d: "destroy vm h = (e1, h1)" by fastforce
  have d1: "host_ok h \<longrightarrow> host_ok h1" "\<And>n. n \<noteq> vm \<Longrightarrow> entry n h1 = entry n h"
    "e1 = None \<or> entry vm h = None \<longrightarrow> entry vm h1 = None"
    using destroy_ok [of h vm] destroy_others [of _ vm h] destroy_gone [of vm h] destroy_known [of vm h] d by auto
  show ?thesis
  proof (cases "e1 = None \<and> os_root os \<noteq> ''''")
    case False
    then show ?thesis using assms True d d1 by (cases e1) (auto simp: Cleaner_Destroy_def)
  next
    case root: True
    obtain e2 h2 where r: "RemoveAll os vm h1 = (e2, h2)" by fastforce
    have "h' = h2" "err = map_option VmHostError e2"
      using assms True root d r by (auto simp: Cleaner_Destroy_def split: option.splits)
    then show ?thesis using RemoveAll_entry [OF r] d1 r root
      by (auto simp: RemoveAll_def split: if_splits option.splits)
  qed
qed

lemma sweep_each_spec:
  "sweep_each os mgr ctx vms h = (destroyed, err, h') \<Longrightarrow>
   (host_ok h \<longrightarrow> host_ok h') \<and> (\<forall>n. n \<notin> set vms \<longrightarrow> entry n h' = entry n h) \<and>
   (\<forall>n. entry n h = None \<longrightarrow> entry n h' = None) \<and>
   (\<forall>n \<in> set destroyed. entry n h' = None) \<and> set destroyed \<subseteq> set vms \<and> (err = None \<longrightarrow> destroyed = vms)"
proof (induction vms arbitrary: h destroyed)
  case (Cons vm vms)
  show ?case
  proof (cases "ctx vm")
    case (Some e)
    then show ?thesis using Cons.prems by auto
  next
    case None
    obtain e1 h1 where d: "Cleaner_Destroy os mgr vm h = (e1, h1)" by fastforce
    note cd = cleaner_destroy [OF d]
    have known: "entry n h = None \<Longrightarrow> entry n h1 = None" for n using cd by metis
    show ?thesis
    proof (cases e1)
      case (Some e)
      then have "h' = h1" "destroyed = []" "err \<noteq> None" using Cons.prems None d by auto
      then show ?thesis using cd known by simp
    next
      case e1: None
      obtain ds where s: "sweep_each os mgr ctx vms h1 = (ds, err, h')" "destroyed = vm # ds"
        using Cons.prems None d e1 by (auto split: prod.splits)
      show ?thesis using Cons.IH [OF s(1)] cd s(2) e1 known by auto
    qed
  qed
qed auto

lemma sweep_leaves:
  assumes "host_ok h" and "os_root os \<noteq> ''''" and "SweepOrphans os mgr ctx desired h = (destroyed, err, h')"
  shows "host_ok h' \<and> (\<forall>n. n \<notin> orphaned desired h \<longrightarrow> entry n h' = entry n h) \<and>
    set destroyed \<subseteq> orphaned desired h \<and> (\<forall>n \<in> set destroyed. entry n h' = None) \<and>
    (err = None \<longrightarrow> set destroyed = orphaned desired h \<and> orphaned desired h' = {})"
proof (cases "\<exists>infos on_disk. listing h = Inr infos \<and> listInstanceDirs os h = Inr on_disk")
  case False
  then show ?thesis using assms by (auto simp: SweepOrphans_def split: sum.splits)
next
  case True
  then obtain infos on_disk where l: "listing h = Inr infos" "listInstanceDirs os h = Inr on_disk" by blast
  let ?ids = "orphans_of desired infos on_disk"
  have s: "sweep_each os mgr ctx ?ids h = (destroyed, err, h')" using assms(3) l by (simp add: SweepOrphans_def)
  have "set on_disk \<subseteq> {n. valid_id n \<and> (\<exists>i. entry n h = Some (Some i))}"
    using l(2) assms(1,2) set_dir_names [of h]
    by (auto simp: listInstanceDirs_def host_ok_def split: option.splits)
  then have ids: "set ?ids = orphaned desired h"
    using listing_all [OF assms(1) l(1)] by (auto simp: orphans_of_def orphaned_def)
  note sp = sweep_each_spec [OF s]
  have "orphaned desired h' = {}" if "err = None"
  proof -
    have gone: "\<forall>n \<in> orphaned desired h. entry n h' = None" using sp that ids by auto
    have "n \<notin> orphaned desired h'" for n
    proof (cases "n \<in> orphaned desired h")
      case True
      then show ?thesis using gone by (auto simp: orphaned_def)
    next
      case False
      then show ?thesis using sp ids by (auto simp: orphaned_def)
    qed
    then show ?thesis by blast
  qed
  then show ?thesis using sp ids assms(1) by auto
qed

end

end
