(* ===== verification/FakeVM.thy ===== *)
theory FakeVM
  imports Cleanup
begin

text \<open>
  \<open>internal/vmm/fake/fake.go\<close>: the backend that keeps instances as directories only, for tests and for development
  without a hypervisor.
\<close>

definition fake_TapName :: "string \<Rightarrow> string" where
  "fake_TapName vm = ''tc-tap-'' @ vm"

definition fake_NetNSName :: "string \<Rightarrow> string" where
  "fake_NetNSName vm = ''tc-ns-'' @ vm"

text \<open>Directories made one after the other, up to the first that fails.\<close>

definition mkdirs :: "(string \<Rightarrow> string option) \<Rightarrow> string list \<Rightarrow> string option" where
  "mkdirs io ds = (case find (\<lambda>d. io d \<noteq> None) ds of None \<Rightarrow> None | Some d \<Rightarrow> io d)"

definition new_instance :: "files \<Rightarrow> instance_dir" where
  "new_instance fs = \<lparr> in_meta = NoMeta, in_files = fs \<rparr>"

text \<open>What a create that fails after its first directory leaves: \<open>RemoveAll\<close>, whose error is dropped.\<close>

definition give_up :: "os \<Rightarrow> string \<Rightarrow> instance_dir \<Rightarrow> 's host \<Rightarrow> 's host" where
  "give_up os vm i h = snd (RemoveAll os vm (put_entry vm (Some i) h))"

definition fake_files :: "os \<Rightarrow> vm_config \<Rightarrow> (string \<times> string) list" where
  "fake_files os c =
     [(''rootfs.overlay'', ''fake-overlay base='' @ vc_rootfs c @ [CHR 0x0A]),
      (''net/proxy.marker'', vc_id c @ [CHR 0x0A]),
      (''net/tap'', fake_TapName (vc_id c) @ [CHR 0x0A]),
      (''net/netns'', fake_NetNSName (vc_id c) @ [CHR 0x0A])]"

definition fake_meta :: "os \<Rightarrow> gotime \<Rightarrow> vm_config \<Rightarrow> InstanceMeta" where
  "fake_meta os now c =
     \<lparr> im_id = vc_id c, im_state = StateCreated, im_vcpus = vc_vcpus c, im_memory = vc_memory c,
        im_rootfs = vc_rootfs c, im_kernel = vc_kernel c, im_created = now, im_metadata = vc_metadata c,
        im_backend = ''fake'', im_pid = 0,
        im_net = \<lparr> ns_tap = fake_TapName (vc_id c), ns_netns = fake_NetNSName (vc_id c),
          ns_proxy = InstanceDir os (vc_id c) @ ''/net/proxy.marker'' \<rparr> \<rparr>"

definition fake_Create :: "os \<Rightarrow> gotime \<Rightarrow> vm_config \<Rightarrow> 's host \<Rightarrow> (vmm_error + vm_info) \<times> 's host" where
  "fake_Create os now c h =
     (case Validate_config c of
        Some e \<Rightarrow> (Inl e, h)
      | None \<Rightarrow>
          let vm = vc_id c; io = os_io os vm in
          if entry vm h \<noteq> None \<and> os_stat os vm = None then (Inl (VmExists vm), h)
          else case os_stat os vm of
            Some e \<Rightarrow> (Inl (VmHostError e), h)
          | None \<Rightarrow>
          case io '''' of
            Some e \<Rightarrow> (Inl (VmHostError e), h)
          | None \<Rightarrow>
              (case mkdirs io [''net'', ''logs''] of
                 Some e \<Rightarrow> (Inl (VmHostError e), give_up os vm (new_instance []) h)
               | None \<Rightarrow>
                   (case write_all io (fake_files os c) [] of
                      (Some e, fs) \<Rightarrow> (Inl (VmHostError e), give_up os vm (new_instance fs) h)
                    | (None, fs) \<Rightarrow>
                        (case WriteMeta os vm (fake_meta os now c) (new_instance fs) of
                           (Some e, i) \<Rightarrow> (Inl (VmHostError e), give_up os vm i h)
                         | (None, i) \<Rightarrow> (Inr (ToInfo (fake_meta os now c)), put_entry vm (Some i) h)))))"

definition fake_Boot :: "os \<Rightarrow> string \<Rightarrow> 's host \<Rightarrow> vmm_error option \<times> 's host" where
  "fake_Boot os vm h =
     (if \<not> valid_id vm then (Some VmBadID, h)
      else case ReadMeta vm h of
        Inl e \<Rightarrow> (Some e, h)
      | Inr m \<Rightarrow>
          if im_state m = StateRunning then (Some (VmAlreadyRunning vm), h)
          else if im_state m \<noteq> StateCreated \<and> im_state m \<noteq> StateStopped then (Some (VmBadState (im_state m)), h)
          else (case entry vm h of
                  Some (Some i) \<Rightarrow>
                    (case write_all (os_io os vm) [(''firecracker.pid'', ''0'' @ [CHR 0x0A])] (in_files i) of
                       (Some e, fs) \<Rightarrow> (Some (VmHostError e), h)
                     | (None, fs) \<Rightarrow>
                         let i1 = i\<lparr> in_files := fs \<rparr> in
                         (case os_io os vm ''guest'' of
                            Some e \<Rightarrow> (Some (VmHostError e), put_entry vm (Some i1) h)
                          | None \<Rightarrow>
                              (case write_all (os_io os vm) [(''guest/agent.ready'', ''ready'' @ [CHR 0x0A])] fs of
                                 (Some e, fs1) \<Rightarrow> (Some (VmHostError e), put_entry vm (Some i1) h)
                               | (None, fs1) \<Rightarrow>
                                   (case WriteMeta os vm (m\<lparr> im_state := StateRunning, im_pid := 0 \<rparr>) (i\<lparr> in_files := fs1 \<rparr>) of
                                      (err, i2) \<Rightarrow> (map_option VmHostError err, put_entry vm (Some i2) h)))))
                | _ \<Rightarrow> (Some (VmNotFound vm), h)))"

text \<open>
  The steps of \<open>destroyInstance\<close> before the directory goes: the pid file, and the proxy's marker where it is
  the instance's own.
\<close>

definition fake_strip :: "os \<Rightarrow> string \<Rightarrow> instance_dir \<Rightarrow> instance_dir" where
  "fake_strip os vm i =
     (let fs = AList.delete ''firecracker.pid'' (in_files i);
          marker = (case in_meta i of
                      Meta m \<Rightarrow> ns_proxy (im_net m)
                    | _ \<Rightarrow> InstanceDir os vm @ ''/net/proxy.marker'')
      in i\<lparr> in_files := (if marker = InstanceDir os vm @ ''/net/proxy.marker''
                         then AList.delete ''net/proxy.marker'' fs else fs) \<rparr>)"

definition fake_Destroy :: "os \<Rightarrow> string \<Rightarrow> 's host \<Rightarrow> vmm_error option \<times> 's host" where
  "fake_Destroy os vm h =
     (if \<not> valid_id vm then (Some VmBadID, h)
      else case entry vm h of
        None \<Rightarrow> (None, h)
      | Some e \<Rightarrow>
          (case RemoveAll os vm (put_entry vm (map_option (fake_strip os vm) e) h) of
             (Some err, h1) \<Rightarrow> (Some (VmHostError err), h1) | (None, h1) \<Rightarrow> (None, h1)))"

definition fake_Exists :: "os \<Rightarrow> string \<Rightarrow> 's host \<Rightarrow> vmm_error + bool" where
  "fake_Exists os vm h =
     (if \<not> valid_id vm then Inl VmBadID
      else case os_stat os vm of Some e \<Rightarrow> Inl (VmHostError e) | None \<Rightarrow> Inr (entry vm h \<noteq> None))"

definition fake_Info :: "string \<Rightarrow> 's host \<Rightarrow> vmm_error + vm_info" where
  "fake_Info vm h =
     (if \<not> valid_id vm then Inl VmBadID
      else case ReadMeta vm h of Inl e \<Rightarrow> Inl e | Inr m \<Rightarrow> Inr (ToInfo m))"

text \<open>One entry per directory with a valid name; what cannot be read still counts as an instance.\<close>

definition infos_of :: "'s host \<Rightarrow> vm_info list" where
  "infos_of h = map (\<lambda>n. case ReadMeta n h of Inl e \<Rightarrow> bare_info n | Inr m \<Rightarrow> ToInfo m) (filter valid_id (dir_names h))"

definition fake_List :: "os \<Rightarrow> 's host \<Rightarrow> vmm_error + vm_info list" where
  "fake_List os h =
     (case os_list os of
        Some e \<Rightarrow> Inl (VmHostError e)
      | None \<Rightarrow> Inr (infos_of h))"

section \<open>It keeps to the interface\<close>

lemma own_meta_strip: "own_meta n e \<Longrightarrow> own_meta n (map_option (fake_strip os vm) e)"
  by (cases e) (auto simp: own_meta_def fake_strip_def Let_def)

lemma destroy_by_removal:
  assumes "RemoveAll os vm (put_entry vm e h) = (err, h')"
  shows "(host_ok h \<and> own_meta vm e \<longrightarrow> host_ok h') \<and> (\<forall>n. n \<noteq> vm \<longrightarrow> entry n h' = entry n h) \<and>
    (err = None \<longrightarrow> entry vm h' = None)"
  using RemoveAll_entry [OF assms] by (auto simp: host_ok_put)

lemma fake_Destroy_spec:
  assumes "fake_Destroy os vm h = (err, h')"
  shows "(host_ok h \<longrightarrow> host_ok h') \<and> (\<forall>n. n \<noteq> vm \<longrightarrow> entry n h' = entry n h) \<and>
    (entry vm h = None \<longrightarrow> entry vm h' = None) \<and> (err = None \<longrightarrow> entry vm h' = None)"
proof (cases "valid_id vm \<and> entry vm h \<noteq> None")
  case False
  then show ?thesis using assms by (auto simp: fake_Destroy_def split: if_splits)
next
  case True
  then obtain e where e: "entry vm h = Some e" by blast
  obtain er h1 where r: "RemoveAll os vm (put_entry vm (map_option (fake_strip os vm) e) h) = (er, h1)" by fastforce
  have "h' = h1" "err = map_option VmHostError er"
    using assms True e r by (auto simp: fake_Destroy_def split: option.splits)
  moreover have "host_ok h \<Longrightarrow> own_meta vm (map_option (fake_strip os vm) e)"
    using e by (intro own_meta_strip) (simp add: host_ok_alt)
  ultimately show ?thesis using destroy_by_removal [OF r] e by simp
qed

text \<open>The names a listing gives, where every directory's metadata is its own.\<close>

lemma listed_id:
  assumes "host_ok h"
  shows "vi_id (case ReadMeta n h of Inl e \<Rightarrow> bare_info n | Inr m \<Rightarrow> ToInfo m) = n"
  using assms by (auto simp: host_ok_alt own_meta_def ReadMeta_def bare_info_def ToInfo_def split: option.splits meta_file.splits)

lemma listed_names:
  assumes "host_ok h"
  shows "set (map vi_id (infos_of h)) = {n. valid_id n \<and> (\<exists>i. entry n h = Some (Some i))}"
proof -
  have "map vi_id (infos_of h) = filter valid_id (dir_names h)"
    unfolding infos_of_def map_map comp_def by (simp add: listed_id [OF assms])
  then show ?thesis using set_dir_names [of h] assms by (auto simp: host_ok_def)
qed

lemma fake_Destroy_parts:
  "host_ok h \<Longrightarrow> host_ok (snd (fake_Destroy os vm h))"
  "n \<noteq> vm \<Longrightarrow> entry n (snd (fake_Destroy os vm h)) = entry n h"
  "fst (fake_Destroy os vm h) = None \<Longrightarrow> entry vm (snd (fake_Destroy os vm h)) = None"
  "entry vm h = None \<Longrightarrow> entry vm (snd (fake_Destroy os vm h)) = None"
  using fake_Destroy_spec [of os vm h, OF surjective_pairing] by blast+

interpretation fake: vm_manager "fake_Destroy os" "fake_List os" for os
proof unfold_locales
  fix h :: "'a host" and infos
  show "host_ok h \<Longrightarrow> fake_List os h = Inr infos \<Longrightarrow>
      set (map vi_id infos) = {n. valid_id n \<and> (\<exists>i. entry n h = Some (Some i))}"
    using listed_names [of h] by (simp add: fake_List_def split: option.splits)
qed (simp_all add: fake_Destroy_parts)

end
