(* ===== verification/SparseCopy.thy ===== *)
theory SparseCopy
  imports Base
begin

text \<open>
  \<open>internal/vmm/firecracker/copy.go\<close>: the copy of a root file system for a new guest, which keeps the holes of a
  sparse image. A file is its bytes; the kernel's \<open>lseek\<close> with \<open>SEEK_DATA\<close> and \<open>SEEK_HOLE\<close> is an argument, and so
  are the outcomes of the other system calls. Offsets are unbounded integers.
\<close>

section \<open>Where the data is\<close>

datatype seek_kind = SEEK_DATA | SEEK_HOLE

datatype seek_error = ENXIO | SeekFailed

type_synonym seek = "int \<Rightarrow> seek_kind \<Rightarrow> seek_error + int"

text \<open>The loop of \<open>walkDataExtents\<close>, from its variables \<open>off\<close> and \<open>extents\<close>.\<close>

function walk_loop :: "int \<Rightarrow> seek \<Rightarrow> int \<Rightarrow> (int \<times> int) list \<Rightarrow> seek_error + (int \<times> int) list" where
  "walk_loop bytes sk off extents =
     (if \<not> off < bytes then Inr extents
      else case sk off SEEK_DATA of
        Inl e \<Rightarrow> if e = ENXIO then Inr extents else Inl e
      | Inr data0 \<Rightarrow>
          if data0 \<ge> bytes then Inr extents
          else let data = (if data0 < off then off else data0) in
            (case sk data SEEK_HOLE of
               Inl e \<Rightarrow> Inl e
             | Inr hole0 \<Rightarrow>
                 let hole1 = (if hole0 \<le> data then bytes else hole0);
                     hole = (if hole1 > bytes then bytes else hole1)
                 in walk_loop bytes sk hole (extents @ [(data, hole)])))"
  by pat_completeness auto

text \<open>Every round moves past the data it found, whatever the kernel answers.\<close>

termination
  by (relation "measure (\<lambda>(bytes, sk, off, extents). nat (bytes - off))") auto

declare walk_loop.simps [simp del]

definition walkDataExtents :: "int \<Rightarrow> seek \<Rightarrow> seek_error + (int \<times> int) list" where
  "walkDataExtents bytes sk = (if bytes \<le> 0 then Inr [] else walk_loop bytes sk 0 [])"

section \<open>Copying\<close>

datatype CopyMethod = CopyClone | CopySparse | CopyDense

text \<open>Writing bytes at an offset within a file, which keeps its length when they fit.\<close>

definition write_at :: "nat \<Rightarrow> string \<Rightarrow> string \<Rightarrow> string" where
  "write_at off bs f =
     (let f1 = (if length f < off then f @ replicate (off - length f) (CHR 0x00) else f)
      in take off f1 @ bs @ drop (off + length bs) f1)"

definition copy_extent :: "string \<Rightarrow> int \<times> int \<Rightarrow> string \<Rightarrow> string" where
  "copy_extent src e dst =
     write_at (nat (fst e)) (take (nat (snd e - fst e)) (drop (nat (fst e)) src)) dst"

text \<open>\<open>copySparse\<close> once both files are open and every read and write succeeds.\<close>

definition copySparse :: "seek \<Rightarrow> string \<Rightarrow> CopyMethod \<times> string" where
  "copySparse sk src =
     (let dst0 = replicate (length src) (CHR 0x00) in
      case walkDataExtents (int (length src)) sk of
        Inl e \<Rightarrow> (CopyDense, write_at 0 src dst0)
      | Inr extents \<Rightarrow> (CopySparse, fold (copy_extent src) extents dst0))"

text \<open>
  \<open>copyFileWithMethod\<close>: the directory is made (or not), then the file system's clone is tried, then the copy;
  \<open>io_err\<close> is the error of the first of the copy's system calls that fails, if one does.
\<close>

definition copyFileWithMethod ::
  "string option \<Rightarrow> bool \<Rightarrow> string option \<Rightarrow> seek \<Rightarrow> string \<Rightarrow> string + CopyMethod \<times> string" where
  "copyFileWithMethod mkdir_err cloned io_err sk src =
     (case mkdir_err of
        Some e \<Rightarrow> Inl e
      | None \<Rightarrow>
          if cloned then Inr (CopyClone, src)
          else case io_err of Some e \<Rightarrow> Inl e | None \<Rightarrow> Inr (copySparse sk src))"

section \<open>The extents found cover the data\<close>

text \<open>
  What the code relies on from \<open>lseek(2)\<close>, over the offsets the file system keeps data for: outside them the
  file reads as zeros; \<open>SEEK_DATA\<close> gives the next offset with data, or \<open>ENXIO\<close> when there is none, and
  \<open>SEEK_HOLE\<close> the next offset without, the end of the file counting as one.
\<close>

definition lseek_manual :: "string \<Rightarrow> (nat \<Rightarrow> bool) \<Rightarrow> seek \<Rightarrow> bool" where
  "lseek_manual src data sk \<longleftrightarrow>
     (\<forall>i < length src. \<not> data i \<longrightarrow> src ! i = CHR 0x00) \<and>
     (\<forall>off < length src.
        (case sk (int off) SEEK_DATA of
           Inl e \<Rightarrow> e = ENXIO \<and> (\<forall>i. off \<le> i \<and> i < length src \<longrightarrow> \<not> data i)
         | Inr p \<Rightarrow> int off \<le> p \<and> (\<forall>i. off \<le> i \<and> int i < p \<and> i < length src \<longrightarrow> \<not> data i)) \<and>
        (case sk (int off) SEEK_HOLE of
           Inl e \<Rightarrow> False
         | Inr p \<Rightarrow> int off \<le> p \<and> p \<le> int (length src)))"

definition covered :: "(int \<times> int) list \<Rightarrow> int \<Rightarrow> bool" where
  "covered extents i \<longleftrightarrow> (\<exists>(a, b) \<in> set extents. a \<le> i \<and> i < b)"

definition extents_ok :: "int \<Rightarrow> (int \<times> int) list \<Rightarrow> bool" where
  "extents_ok bytes extents \<longleftrightarrow> list_all (\<lambda>(a, b). 0 \<le> a \<and> a < b \<and> b \<le> bytes) extents"

lemma walk_loop_shape:
  "walk_loop bytes sk off extents = Inr out \<Longrightarrow> 0 \<le> off \<Longrightarrow> off \<le> bytes \<Longrightarrow> extents_ok off extents \<Longrightarrow>
     sorted_wrt (\<lambda>x y. snd x \<le> fst y) extents \<Longrightarrow>
   extents_ok bytes out \<and> sorted_wrt (\<lambda>x y. snd x \<le> fst y) out \<and> set extents \<subseteq> set out"
proof (induction bytes sk off extents rule: walk_loop.induct)
  case (1 bytes sk off extents)
  show ?case
  proof (cases "off < bytes \<and> (\<exists>d. sk off SEEK_DATA = Inr d \<and> d < bytes)")
    case False
    then have "out = extents" using 1(2) by (subst (asm) walk_loop.simps) (auto split: sum.splits if_splits)
    then show ?thesis using 1(4,5,6) by (auto simp: extents_ok_def list_all_iff)
  next
    case True
    then obtain d0 where d0: "sk off SEEK_DATA = Inr d0" "d0 < bytes" by blast
    define d where "d = (if d0 < off then off else d0)"
    obtain h0 where h0: "sk d SEEK_HOLE = Inr h0"
      using 1(2) True d0 by (subst (asm) walk_loop.simps) (auto simp: d_def Let_def split: sum.splits)
    define h1 where "h1 = (if h0 \<le> d then bytes else h0)"
    define h where "h = (if h1 > bytes then bytes else h1)"
    have b: "off \<le> d" "d < h" "h \<le> bytes" using d0 True by (auto simp: d_def h_def h1_def)
    have rec: "walk_loop bytes sk h (extents @ [(d, h)]) = Inr out"
      using 1(2) True d0 h0 by (subst (asm) walk_loop.simps) (simp add: d_def [symmetric] h1_def [symmetric] h_def [symmetric])
    have ok: "extents_ok h (extents @ [(d, h)])" using 1(3,5) b by (auto simp: extents_ok_def list_all_iff)
    have s: "sorted_wrt (\<lambda>x y. snd x \<le> fst y) (extents @ [(d, h)])"
      using 1(5,6) b(1) by (auto simp: extents_ok_def list_all_iff sorted_wrt_append)
    have "extents_ok bytes out \<and> sorted_wrt (\<lambda>x y. snd x \<le> fst y) out \<and> set (extents @ [(d, h)]) \<subseteq> set out"
      using 1(1) [OF _ d0(1) _ d_def h0 h1_def h_def rec _ b(3) ok s] True d0(2) 1(3) b(1,2) by simp
    then show ?thesis by simp
  qed
qed

lemma lseek_data:
  "lseek_manual src data sk \<Longrightarrow> off < length src \<Longrightarrow> sk (int off) SEEK_DATA = Inr p \<Longrightarrow>
     int off \<le> p \<and> (\<forall>i. off \<le> i \<and> int i < p \<and> i < length src \<longrightarrow> \<not> data i)"
  unfolding lseek_manual_def by (drule conjunct2, drule spec, drule mp, assumption) simp

lemma lseek_no_data:
  "lseek_manual src data sk \<Longrightarrow> off < length src \<Longrightarrow> sk (int off) SEEK_DATA = Inl e \<Longrightarrow>
     e = ENXIO \<and> (\<forall>i. off \<le> i \<and> i < length src \<longrightarrow> \<not> data i)"
  unfolding lseek_manual_def by (drule conjunct2, drule spec, drule mp, assumption) simp

lemma lseek_hole:
  assumes "lseek_manual src data sk" and "off < length src"
  obtains p where "sk (int off) SEEK_HOLE = Inr p" "int off \<le> p" "p \<le> int (length src)"
  using assms unfolding lseek_manual_def
  by (elim conjE) (drule spec, drule mp, assumption, cases "sk (int off) SEEK_HOLE", auto)

lemma covered_mono: "set xs \<subseteq> set ys \<Longrightarrow> covered xs i \<Longrightarrow> covered ys i"
  by (auto simp: covered_def)

lemma walk_loop_covers:
  "lseek_manual src data sk \<Longrightarrow> 0 \<le> off \<Longrightarrow> off \<le> int (length src) \<Longrightarrow> (\<forall>i. int i < off \<longrightarrow> data i \<longrightarrow> covered extents (int i)) \<Longrightarrow>
    \<exists>out. walk_loop (int (length src)) sk off extents = Inr out \<and> (\<forall>i < length src. data i \<longrightarrow> covered out (int i))"
proof (induction "int (length src)" sk off extents rule: walk_loop.induct)
  case (1 sk off extents)
  note m = 1(2)
  show ?case
  proof (cases "off < int (length src)")
    case False
    then show ?thesis using 1(4-) by (subst walk_loop.simps) auto
  next
    case inside: True
    obtain o1 where o1: "off = int o1" "o1 < length src" using 1(3) inside by (metis nonneg_int_cases of_nat_less_iff)
    show ?thesis
    proof (cases "sk off SEEK_DATA")
      case (Inl e)
      then have "e = ENXIO" "\<forall>i. o1 \<le> i \<and> i < length src \<longrightarrow> \<not> data i"
        using lseek_no_data [OF m o1(2) Inl [unfolded o1(1)]] by auto
      moreover from this have "\<forall>i < length src. data i \<longrightarrow> covered extents (int i)"
        using 1(5) o1(1) by (metis not_le of_nat_less_iff)
      ultimately show ?thesis using Inl inside by (subst walk_loop.simps) simp
    next
      case (Inr d0)
      have d: "off \<le> d0" "\<And>i. o1 \<le> i \<Longrightarrow> int i < d0 \<Longrightarrow> i < length src \<Longrightarrow> \<not> data i"
        using lseek_data [OF m o1(2) Inr [unfolded o1(1)]] o1(1) by auto
      show ?thesis
      proof (cases "d0 < int (length src)")
        case False
        then have "\<forall>i < length src. data i \<longrightarrow> covered extents (int i)" 
          using d(2) 1(5) o1(1) False by (metis not_le not_less of_nat_less_iff less_le_trans)
        then show ?thesis using Inr inside False by (subst walk_loop.simps) simp
      next
        case True
        obtain d1 where d1: "d0 = int d1" "d1 < length src" using d(1) 1(3) True by (metis nonneg_int_cases of_nat_less_iff order_trans)
        obtain h0 where h0: "sk d0 SEEK_HOLE = Inr h0" "d0 \<le> h0" "h0 \<le> int (length src)"
          using lseek_hole [OF m d1(2)] d1(1) by metis
        define h1 where "h1 = (if h0 \<le> d0 then int (length src) else h0)"
        define h where "h = (if h1 > int (length src) then int (length src) else h1)"
        have b: "d0 < h" "h \<le> int (length src)" using True h0 by (auto simp: h_def h1_def)
        have c: "\<forall>i. int i < h \<longrightarrow> data i \<longrightarrow> covered (extents @ [(d0, h)]) (int i)"
        proof (intro allI impI)
          fix i assume i: "int i < h" "data i"
          show "covered (extents @ [(d0, h)]) (int i)"
          proof (cases "int i < off")
            case True
            then show ?thesis using 1(5) i covered_mono [of extents "extents @ [(d0, h)]"] by auto
          next
            case False
            then have "d0 \<le> int i" using d(2) [of i] o1 i b(2) by force
            then show ?thesis using i by (auto simp: covered_def)
          qed
        qed
        have nd: "\<not> d0 \<ge> int (length src)" "d0 = (if d0 < off then off else d0)" "0 \<le> h" using True d(1) b(1) 1(3) by auto
        have "\<exists>out. walk_loop (int (length src)) sk h (extents @ [(d0, h)]) = Inr out \<and>
            (\<forall>i < length src. data i \<longrightarrow> covered out (int i))"
          using 1(1) [OF _ Inr nd(1,2) h0(1) h1_def h_def m nd(3) b(2) c] inside by simp
        then show ?thesis using inside Inr True d(1) h0(1)
          by (subst walk_loop.simps) (simp add: h1_def [symmetric] h_def [symmetric] not_le)
      qed
    qed
  qed
qed

section \<open>The copy is exact\<close>

lemma copy_extent_at:
  assumes "length dst = length src" and "0 \<le> a" "a < b" "b \<le> int (length src)"
  shows "length (copy_extent src (a, b) dst) = length src \<and>
    (\<forall>i < length src. copy_extent src (a, b) dst ! i = (if a \<le> int i \<and> int i < b then src ! i else dst ! i))"
proof -
  obtain x y where xy: "a = int x" "b = int y" using assms(2,3) by (metis nonneg_int_cases order.strict_implies_order order_trans)
  have l: "x < y" "y \<le> length src" "nat (int y - int x) = y - x" using assms(3,4) xy by auto
  have e: "copy_extent src (a, b) dst = take x dst @ take (y - x) (drop x src) @ drop (x + (y - x)) dst"
    using l assms(1) by (simp add: copy_extent_def write_at_def xy Let_def min_def)
  show ?thesis unfolding e using l assms(1) xy by (auto simp: nth_append min_def)
qed

lemma copy_extents_at:
  "extents_ok (int (length src)) extents \<Longrightarrow> length dst = length src \<Longrightarrow>
   length (fold (copy_extent src) extents dst) = length src \<and>
   (\<forall>i < length src. fold (copy_extent src) extents dst ! i = (if covered extents (int i) then src ! i else dst ! i))"
proof (induction extents arbitrary: dst)
  case Nil
  then show ?case by (simp add: covered_def)
next
  case (Cons e extents)
  obtain a b where e: "e = (a, b)" by (cases e)
  have ab: "0 \<le> a" "a < b" "b \<le> int (length src)" and ok: "extents_ok (int (length src)) extents"
    using Cons.prems(1) by (auto simp: e extents_ok_def)
  note c = copy_extent_at [OF Cons.prems(2) ab]
  show ?case using Cons.IH [OF ok, of "copy_extent src e dst"] c by (auto simp: e covered_def)
qed

lemma extents_few:
  "extents_ok bytes xs \<Longrightarrow> sorted_wrt (\<lambda>x y. snd x \<le> fst y) xs \<Longrightarrow> (\<forall>x \<in> set xs. lo \<le> fst x) \<Longrightarrow> lo \<le> bytes \<Longrightarrow>
   int (length xs) \<le> bytes - lo"
proof (induction xs arbitrary: lo)
  case (Cons x xs)
  obtain a b where x: "x = (a, b)" by (cases x)
  have "int (length xs) \<le> bytes - b" by (rule Cons.IH) (use Cons.prems x in \<open>auto simp: extents_ok_def\<close>)
  then show ?case using Cons.prems x by (auto simp: extents_ok_def)
qed simp

text \<open>
  C24. The search for the data of a file always comes to its end, for any answers of the kernel, also wrong ones:
  what it finds lies within the file, in order and without overlaps, in no more pieces than the file has bytes,
  and it only fails with an error the kernel gave.
\<close>

theorem extent_walk_ends:
  "case walkDataExtents bytes sk of
     Inl e \<Rightarrow> \<exists>off. sk off SEEK_DATA = Inl e \<and> e \<noteq> ENXIO \<or> sk off SEEK_HOLE = Inl e
   | Inr extents \<Rightarrow> extents_ok bytes extents \<and> sorted_wrt (\<lambda>x y. snd x \<le> fst y) extents \<and>
       int (length extents) \<le> max 0 bytes"
proof -
  have fails: "walk_loop n s off xs = Inl e \<Longrightarrow> \<exists>off. s off SEEK_DATA = Inl e \<and> e \<noteq> ENXIO \<or> s off SEEK_HOLE = Inl e"
    for n s off xs e
  proof (induction n s off xs rule: walk_loop.induct)
    case (1 n s off xs)
    from 1(2) show ?case
      by (subst (asm) walk_loop.simps) (auto simp: Let_def split: sum.splits if_splits dest!: 1(1) [rotated -1])
  qed
  show ?thesis
  proof (cases "0 < bytes")
    case False
    then show ?thesis by (simp add: walkDataExtents_def extents_ok_def)
  next
    case True
    have few: "int (length out) \<le> bytes"
      if "extents_ok bytes out" "sorted_wrt (\<lambda>x y. snd x \<le> fst y) out" for out
      using extents_few [OF that, of 0] that(1) True by (fastforce simp: extents_ok_def list_all_iff)
    show ?thesis
      using True walk_loop_shape [of bytes sk 0 "[]"] fails [of bytes sk 0 "[]"] few
      by (auto simp: walkDataExtents_def extents_ok_def [of 0] split: sum.splits)
  qed
qed


text \<open>
  C23. The copy made for a new guest is the image byte for byte, whichever way it is made: by the file system's
  clone, from the data ranges the kernel reports, or, when these cannot be asked for, as a whole.
\<close>

theorem overlay_copy_exact:
  assumes "lseek_manual src data sk \<or> (\<exists>e. walkDataExtents (int (length src)) sk = Inl e)"
    and "copyFileWithMethod mkdir_err cloned io_err sk src = Inr (how, dst)"
  shows "dst = src"
proof (cases "cloned \<or> (\<exists>e. walkDataExtents (int (length src)) sk = Inl e)")
  case True
  then show ?thesis using assms(2)
    by (cases cloned) (auto simp: copyFileWithMethod_def copySparse_def write_at_def Let_def split: option.splits)
next
  case False
  then have m: "lseek_manual src data sk" using assms(1) by blast
  obtain out where out: "walkDataExtents (int (length src)) sk = Inr out" "extents_ok (int (length src)) out"
    "\<forall>i < length src. data i \<longrightarrow> covered out (int i)"
  proof (cases "src = []")
    case True
    then show ?thesis using that [of "[]"] by (simp add: walkDataExtents_def extents_ok_def)
  next
    case False
    then show ?thesis
      using walk_loop_covers [OF m, of 0 "[]"] walk_loop_shape [of "int (length src)" sk 0 "[]"] that
      by (force simp: walkDataExtents_def extents_ok_def)
  qed
  have dst: "dst = fold (copy_extent src) out (replicate (length src) (CHR 0x00))"
    using assms(2) False out(1) by (auto simp: copyFileWithMethod_def copySparse_def Let_def split: option.splits)
  have "length dst = length src \<and> (\<forall>i < length src. dst ! i = src ! i)"
    using copy_extents_at [OF out(2), of "replicate (length src) (CHR 0x00)"] out(3) m
    unfolding dst by (auto simp: lseek_manual_def)
  then show ?thesis by (simp add: list_eq_iff_nth_eq)
qed

section \<open>A file system that keeps every zero byte as a hole\<close>

definition byte_seek :: "string \<Rightarrow> seek" where
  "byte_seek src off kind =
     (case kind of
        SEEK_DATA \<Rightarrow>
          (case find (\<lambda>i. off \<le> int i \<and> src ! i \<noteq> CHR 0x00) [0..<length src] of None \<Rightarrow> Inl ENXIO | Some i \<Rightarrow> Inr (int i))
      | SEEK_HOLE \<Rightarrow>
          (case find (\<lambda>i. off \<le> int i \<and> src ! i = CHR 0x00) [0..<length src] of
             None \<Rightarrow> Inr (int (length src)) | Some i \<Rightarrow> Inr (int i)))"

lemma byte_seek_manual: "lseek_manual src (\<lambda>i. src ! i \<noteq> CHR 0x00) (byte_seek src)"
  unfolding lseek_manual_def byte_seek_def
  by (auto simp: find_None_iff find_Some_iff split: option.splits)

lemma overlay_copy_exact_witness:
  "walkDataExtents 6 (byte_seek [CHR ''a'', CHR 0x00, CHR 0x00, CHR ''b'', CHR ''c'', CHR 0x00]) = Inr [(0, 1), (3, 5)] \<and>
   snd (copySparse (byte_seek [CHR ''a'', CHR 0x00, CHR 0x00, CHR ''b'', CHR ''c'', CHR 0x00])
     [CHR ''a'', CHR 0x00, CHR 0x00, CHR ''b'', CHR ''c'', CHR 0x00]) =
   [CHR ''a'', CHR 0x00, CHR 0x00, CHR ''b'', CHR ''c'', CHR 0x00]"
proof -
  let ?s = "[CHR ''a'', CHR 0x00, CHR 0x00, CHR ''b'', CHR ''c'', CHR 0x00]"
  have "copyFileWithMethod None False None (byte_seek ?s) ?s = Inr (copySparse (byte_seek ?s) ?s)"
    by (simp add: copyFileWithMethod_def)
  then have "snd (copySparse (byte_seek ?s) ?s) = ?s"
    using overlay_copy_exact [OF disjI1 [OF byte_seek_manual]] by (metis prod.collapse)
  moreover have "walkDataExtents 6 (byte_seek ?s) = Inr [(0, 1), (3, 5)]" by code_simp
  ultimately show ?thesis by simp
qed

end
