(* ===== verification/FirecrackerVM.thy ===== *)
theory FirecrackerVM
  imports FakeVM SparseCopy
begin

text \<open>
  \<open>internal/vmm/firecracker/firecracker.go\<close>: the backend that runs guests. The copy of the root file system, the
  inject drive's template, the start of the process and the answers of its API are arguments; the network is that
  of \<open>GuestNet\<close>. What a guest writes to its console is not modelled.
\<close>

section \<open>Creating\<close>

record fc_config =
  fcc_listen :: string
  fcc_require_clone :: bool

text \<open>What a create meets: the time, the copy and the inject drive as they come out, and the text of a network error.\<close>

record create_env =
  ce_now :: gotime
  ce_copy :: "string + CopyMethod \<times> string"
  ce_inject :: "string + string"
  ce_text :: string

definition fc_copy_error :: "fc_config \<Rightarrow> create_env \<Rightarrow> string option" where
  "fc_copy_error fc ce =
     (case ce_copy ce of
        Inl e \<Rightarrow> Some e
      | Inr (how, bytes) \<Rightarrow>
          if how \<noteq> CopyClone \<and> fcc_require_clone fc then Some ''firecracker: reflink required'' else None)"

text \<open>The files the copy and the inject drive leave.\<close>

definition fc_drives :: "(string \<Rightarrow> string option) \<Rightarrow> create_env \<Rightarrow> files" where
  "fc_drives io ce =
     (let fs1 = (case ce_copy ce of Inl e \<Rightarrow> [] | Inr (how, bytes) \<Rightarrow> [(''rootfs.overlay'', bytes)])
      in case ce_inject ce of
           Inr bytes \<Rightarrow> write_file ''inject.ext4'' bytes fs1
         | Inl e \<Rightarrow> write_each io [(''inject.ext4'', replicate 4096 (CHR 0x00)), (''inject.warn'', e)] fs1)"

definition fc_meta :: "gotime \<Rightarrow> vm_config \<Rightarrow> NetworkState \<Rightarrow> InstanceMeta" where
  "fc_meta now c net =
     \<lparr> im_id = vc_id c, im_state = StateCreated, im_vcpus = vc_vcpus c, im_memory = vc_memory c,
        im_rootfs = vc_rootfs c, im_kernel = vc_kernel c, im_created = now, im_metadata = vc_metadata c,
        im_backend = ''firecracker'', im_pid = 0, im_net = net \<rparr>"

definition fc_Create ::
  "'s tools \<Rightarrow> fc_config \<Rightarrow> os \<Rightarrow> create_env \<Rightarrow> vm_config \<Rightarrow> 's host \<Rightarrow> (vmm_error + vm_info) \<times> 's host" where
  "fc_Create tls fc os ce c h =
     (case Validate_config c of
        Some e \<Rightarrow> (Inl e, h)
      | None \<Rightarrow>
      if vc_rootfs c = '''' then (Inl VmNoRootfs, h)
      else if vc_kernel c = '''' then (Inl VmNoKernel, h)
      else
        let vm = vc_id c; io = os_io os vm in
        if entry vm h \<noteq> None \<and> os_stat os vm = None then (Inl (VmExists vm), h)
        else case os_stat os vm of
          Some e \<Rightarrow> (Inl (VmHostError e), h)
        | None \<Rightarrow>
        case io ''net'' of
          Some e \<Rightarrow> (Inl (VmHostError e), h)
        | None \<Rightarrow>
        case io ''logs'' of
          Some e \<Rightarrow> (Inl (VmHostError e), give_up os vm (new_instance []) h)
        | None \<Rightarrow>
            (case SetupNetwork tls (fcc_listen fc) io (ce_text ce) (InstanceDir os vm @ ''/net'') vm (fc_drives io ce)
                    (hs_net h) of
               (net, fs, s) \<Rightarrow>
                 let h1 = h\<lparr> hs_net := s \<rparr>; i = new_instance fs in
                 case fc_copy_error fc ce of
                   Some e \<Rightarrow> (Inl (VmHostError e), give_up os vm i h1)
                 | None \<Rightarrow>
                 case net of
                   Inl e \<Rightarrow> (Inl (VmHostError e), give_up os vm i h1)
                 | Inr st \<Rightarrow>
                     (case WriteMeta os vm (fc_meta (ce_now ce) c st) i of
                        (Some e, i1) \<Rightarrow>
                          (Inl (VmHostError e),
                           give_up os vm i1 (h1\<lparr> hs_net := TeardownNetwork tls (fcc_listen fc) st s \<rparr>))
                      | (None, i1) \<Rightarrow> (Inr (ToInfo (fc_meta (ce_now ce) c st)), put_entry vm (Some i1) h1))))"

section \<open>Booting\<close>

definition bool_text :: "bool \<Rightarrow> string" where
  "bool_text b = (if b then ''true'' else ''false'')"

text \<open>The requests of \<open>configureAndStart\<close>, in order: the path and the fields of the body.\<close>

definition api_calls :: "os \<Rightarrow> string \<Rightarrow> InstanceMeta \<Rightarrow> files \<Rightarrow> (string \<times> (string \<times> string) list) list" where
  "api_calls os vm m fs =
     [(''/machine-config'', [(''vcpu_count'', itoa (im_vcpus m)), (''mem_size_mib'', itoa (im_memory m))]),
      (''/boot-source'', [(''kernel_image_path'', im_kernel m), (''boot_args'', bootArgs fs)]),
      (''/drives/rootfs'', [(''drive_id'', ''rootfs''), (''path_on_host'', InstanceDir os vm @ ''/rootfs.overlay''),
         (''is_root_device'', bool_text True), (''is_read_only'', bool_text False)])] @
     (if map_of fs ''inject.ext4'' \<noteq> None
      then [(''/drives/inject'', [(''drive_id'', ''inject''), (''path_on_host'', InstanceDir os vm @ ''/inject.ext4''),
         (''is_root_device'', bool_text False), (''is_read_only'', bool_text False)])] else []) @
     (if ns_tap (im_net m) \<noteq> '''' \<and> map_of fs ''net/host_ip'' \<noteq> None
      then [(''/network-interfaces/eth0'', [(''iface_id'', ''eth0''), (''host_dev_name'', ns_tap (im_net m)),
         (''guest_mac'', ''AA:FC:00:00:00:01'')])] else []) @
     [(''/actions'', [(''action_type'', ''InstanceStart'')])]"

text \<open>
  What a boot meets: the process's start with its id, whether its socket appears, and the API's answers.
\<close>

record boot_env =
  be_start :: "string + int"
  be_sock :: bool
  be_api :: "string \<times> (string \<times> string) list \<Rightarrow> string option"

definition configureAndStart :: "os \<Rightarrow> boot_env \<Rightarrow> string \<Rightarrow> InstanceMeta \<Rightarrow> files \<Rightarrow> string option" where
  "configureAndStart os be vm m fs =
     (if \<not> be_sock be then Some ''firecracker: api sock not ready''
      else case find (\<lambda>c. be_api be c \<noteq> None) (api_calls os vm m fs) of
        None \<Rightarrow> None
      | Some c \<Rightarrow> be_api be c)"

definition storeWait :: "string \<Rightarrow> int \<Rightarrow> 's host \<Rightarrow> 's host" where
  "storeWait vm pid h = (if vm = '''' then h else h\<lparr> hs_waits := AList.update vm pid (hs_waits h) \<rparr>)"

definition takeWait :: "string \<Rightarrow> 's host \<Rightarrow> int option \<times> 's host" where
  "takeWait vm h = (map_of (hs_waits h) vm, h\<lparr> hs_waits := AList.delete vm (hs_waits h) \<rparr>)"

text \<open>
  A wait for a process returns when it has ended (for one that never does, neither the wait nor the call
  returns). Only the manager that started a process has a wait for it.
\<close>

definition await_end :: "int option \<Rightarrow> 's host \<Rightarrow> 's host" where
  "await_end w h = (case w of None \<Rightarrow> h | Some p \<Rightarrow> end_process p h)"

definition fc_Boot :: "os \<Rightarrow> boot_env \<Rightarrow> string \<Rightarrow> 's host \<Rightarrow> vmm_error option \<times> 's host" where
  "fc_Boot os be vm h =
     (if \<not> valid_id vm then (Some VmBadID, h)
      else case ReadMeta vm h of
        Inl e \<Rightarrow> (Some e, h)
      | Inr m \<Rightarrow>
          if im_state m = StateRunning then (Some (VmAlreadyRunning vm), h)
          else (case entry vm h of
                  Some (Some i) \<Rightarrow>
                    let i0 = i\<lparr> in_files := AList.delete ''api.sock'' (in_files i) \<rparr>; h0 = put_entry vm (Some i0) h in
                    (case be_start be of
                       Inl e \<Rightarrow> (Some (VmHostError e), h0)
                     | Inr pid \<Rightarrow>
                         let h1 = h0\<lparr> hs_procs := pid # hs_procs h0 \<rparr> in
                         (case configureAndStart os be vm m (in_files i0) of
                            Some e \<Rightarrow> (Some (VmHostError e), await_end (Some pid) (StopProcess os pid h1))
                          | None \<Rightarrow>
                              (case write_all (os_io os vm) [(''firecracker.pid'', itoa pid @ [CHR 0x0A])] (in_files i0) of
                                 (Some e, fs) \<Rightarrow> (Some (VmHostError e), await_end (Some pid) (StopProcess os pid h1))
                               | (None, fs) \<Rightarrow>
                                   (case WriteMeta os vm (m\<lparr> im_state := StateRunning, im_pid := pid \<rparr>) (i0\<lparr> in_files := fs \<rparr>) of
                                      (err, i1) \<Rightarrow>
                                        (map_option VmHostError err, put_entry vm (Some i1) (storeWait vm pid h1))))))
                | _ \<Rightarrow> (Some (VmNotFound vm), h)))"

section \<open>Destroying, and asking\<close>

definition synthetic_net :: "string \<Rightarrow> NetworkState" where
  "synthetic_net vm = \<lparr> ns_tap = tapName vm, ns_netns = netNSName vm, ns_proxy = '''' \<rparr>"

text \<open>The id of the process to stop: from the metadata, or else from the file.\<close>

definition pid_of :: "instance_dir option \<Rightarrow> int" where
  "pid_of e =
     (case e of
        None \<Rightarrow> 0
      | Some i \<Rightarrow>
          (case in_meta i of
             Meta m \<Rightarrow> if im_pid m > 0 then im_pid m else ReadPIDFile (in_files i)
           | _ \<Rightarrow> ReadPIDFile (in_files i)))"

definition net_of :: "string \<Rightarrow> instance_dir option \<Rightarrow> NetworkState" where
  "net_of vm e =
     (case e of
        Some i \<Rightarrow> (case in_meta i of Meta m \<Rightarrow> im_net m | _ \<Rightarrow> synthetic_net vm)
      | None \<Rightarrow> synthetic_net vm)"

definition fc_strip :: "instance_dir \<Rightarrow> instance_dir" where
  "fc_strip i = i\<lparr> in_files := AList.delete ''api.sock'' (AList.delete ''firecracker.pid'' (in_files i)) \<rparr>"

definition fc_Destroy :: "'s tools \<Rightarrow> fc_config \<Rightarrow> os \<Rightarrow> string \<Rightarrow> 's host \<Rightarrow> vmm_error option \<times> 's host" where
  "fc_Destroy tls fc os vm h =
     (if \<not> valid_id vm then (Some VmBadID, h)
      else case entry vm h of
        None \<Rightarrow> (None, h\<lparr> hs_net := TeardownNetwork tls (fcc_listen fc) (synthetic_net vm) (hs_net h) \<rparr>)
      | Some e \<Rightarrow>
          (let (w, h0) = takeWait vm (StopProcess os (pid_of e) h);
               h1 = await_end w h0;
               h2 = put_entry vm (map_option fc_strip e) h1;
               h3 = h2\<lparr> hs_net := TeardownNetwork tls (fcc_listen fc) (net_of vm e) (hs_net h2) \<rparr>
           in case RemoveAll os vm h3 of
                (Some err, h4) \<Rightarrow> (Some (VmHostError err), h4) | (None, h4) \<Rightarrow> (None, h4)))"

definition fc_Exists :: "os \<Rightarrow> string \<Rightarrow> 's host \<Rightarrow> vmm_error + bool" where
  "fc_Exists os vm h =
     (if \<not> valid_id vm then Inl VmBadID
      else case os_stat os vm of Some e \<Rightarrow> Inl (VmHostError e) | None \<Rightarrow> Inr (entry vm h \<noteq> None))"

definition fc_Info :: "string \<Rightarrow> 's host \<Rightarrow> vmm_error + vm_info" where
  "fc_Info vm h =
     (if \<not> valid_id vm then Inl VmBadID
      else case ReadMeta vm h of Inl e \<Rightarrow> Inl e | Inr m \<Rightarrow> Inr (ToInfo m))"

definition fc_List :: "os \<Rightarrow> 's host \<Rightarrow> vmm_error + vm_info list" where
  "fc_List os h =
     (case os_list os of Some e \<Rightarrow> Inl (VmHostError e) | None \<Rightarrow> Inr (infos_of h))"

section \<open>It keeps to the interface\<close>

lemma takeWait_frame:
  "takeWait vm h = (w, h') \<Longrightarrow> w = map_of (hs_waits h) vm \<and> hs_dirs h' = hs_dirs h \<and> hs_net h' = hs_net h \<and>
     hs_procs h' = hs_procs h \<and> entry n h' = entry n h \<and> host_ok h' = host_ok h"
  by (auto simp: takeWait_def)

lemma await_end_frame [simp]:
  "hs_dirs (await_end w h) = hs_dirs h" "hs_net (await_end w h) = hs_net h" "hs_waits (await_end w h) = hs_waits h"
  "entry n (await_end w h) = entry n h" "host_ok (await_end w h) = host_ok h"
  "set (hs_procs (await_end w h)) = set (hs_procs h) - set_option w"
  by (auto simp: await_end_def split: option.splits)

lemma storeWait_frame [simp]:
  "hs_dirs (storeWait vm pid h) = hs_dirs h" "hs_net (storeWait vm pid h) = hs_net h" "hs_procs (storeWait vm pid h) = hs_procs h"
  "entry n (storeWait vm pid h) = entry n h" "host_ok (storeWait vm pid h) = host_ok h"
  by (simp_all add: storeWait_def)

lemma own_meta_fc_strip: "own_meta n (map_option fc_strip e) = own_meta n e"
  by (cases e) (auto simp: own_meta_def fc_strip_def)

lemma RemoveAll_frame:
  "hs_net (snd (RemoveAll os vm h)) = hs_net h" "hs_procs (snd (RemoveAll os vm h)) = hs_procs h"
  "hs_waits (snd (RemoveAll os vm h)) = hs_waits h"
  by (simp_all add: RemoveAll_def split: option.splits)

text \<open>The processes a destroy ends: the one it stops, if it ends of that, and the one it waits for.\<close>

definition ended :: "os \<Rightarrow> string \<Rightarrow> instance_dir option \<Rightarrow> 's host \<Rightarrow> int set" where
  "ended os vm e h =
     (if pid_of e \<le> 0 \<or> \<not> os_kill os (pid_of e) then {} else {pid_of e}) \<union> set_option (map_of (hs_waits h) vm)"

lemma fc_Destroy_spec:
  assumes "fc_Destroy tls fc os vm h = (err, h')"
  shows "(host_ok h \<longrightarrow> host_ok h') \<and> (\<forall>n. n \<noteq> vm \<longrightarrow> entry n h' = entry n h) \<and>
    (entry vm h = None \<longrightarrow> entry vm h' = None) \<and> (err = None \<longrightarrow> entry vm h' = None) \<and>
    (valid_id vm \<longrightarrow>
       hs_net h' = TeardownNetwork tls (fcc_listen fc) (case entry vm h of None \<Rightarrow> synthetic_net vm | Some e \<Rightarrow> net_of vm e) (hs_net h) \<and>
       set (hs_procs h') = set (hs_procs h) - (case entry vm h of None \<Rightarrow> {} | Some e \<Rightarrow> ended os vm e h))"
proof (cases "valid_id vm \<and> entry vm h \<noteq> None")
  case False
  then show ?thesis using assms by (auto simp: fc_Destroy_def split: if_splits)
next
  case True
  then obtain e where e: "entry vm h = Some e" by blast
  obtain w h0 where w: "takeWait vm (StopProcess os (pid_of e) h) = (w, h0)" by fastforce
  note tw = takeWait_frame [OF w]
  let ?h2 = "put_entry vm (map_option fc_strip e) (await_end w h0)"
  let ?h3 = "?h2\<lparr> hs_net := TeardownNetwork tls (fcc_listen fc) (net_of vm e) (hs_net ?h2) \<rparr>"
  obtain er h4 where r: "RemoveAll os vm ?h3 = (er, h4)" by fastforce
  have h: "h' = h4" "err = map_option VmHostError er"
    using assms True e r w by (auto simp: fc_Destroy_def Let_def split: option.splits)
  have "host_ok h \<Longrightarrow> own_meta vm e" using e by (simp add: host_ok_alt)
  then have ok: "host_ok h \<Longrightarrow> host_ok ?h3" using tw by (simp add: host_ok_put own_meta_fc_strip)
  have f: "hs_net h4 = hs_net ?h3" "hs_procs h4 = hs_procs ?h3"
    using RemoveAll_frame [of os vm ?h3] r by simp_all
  have p: "set (hs_procs h4) = set (hs_procs h) - ended os vm e h"
    using f(2) tw by (auto simp: ended_def)
  show ?thesis using RemoveAll_entry [OF r] ok h e True f p tw by simp
qed

lemma fc_Destroy_parts:
  "host_ok h \<Longrightarrow> host_ok (snd (fc_Destroy tls fc os vm h))"
  "n \<noteq> vm \<Longrightarrow> entry n (snd (fc_Destroy tls fc os vm h)) = entry n h"
  "fst (fc_Destroy tls fc os vm h) = None \<Longrightarrow> entry vm (snd (fc_Destroy tls fc os vm h)) = None"
  "entry vm h = None \<Longrightarrow> entry vm (snd (fc_Destroy tls fc os vm h)) = None"
  using fc_Destroy_spec [of tls fc os vm h, OF surjective_pairing] by blast+

interpretation fc: vm_manager "fc_Destroy tls fc os" "fc_List os" for tls fc os
proof unfold_locales
  fix h :: "'a host" and infos
  show "host_ok h \<Longrightarrow> fc_List os h = Inr infos \<Longrightarrow>
      set (map vi_id infos) = {n. valid_id n \<and> (\<exists>i. entry n h = Some (Some i))}"
    using listed_names [of h] by (simp add: fc_List_def split: option.splits)
qed (simp_all add: fc_Destroy_parts)

section \<open>A guest's life leaves nothing behind\<close>

text \<open>
  The instance's process, if it has one, is new on the host, the only new one, and its manager waits for it.
\<close>

definition own_process :: "string \<Rightarrow> instance_dir option \<Rightarrow> int list \<Rightarrow> 's host \<Rightarrow> bool" where
  "own_process vm e procs h \<longleftrightarrow>
     (pid_of e \<le> 0 \<and> map_of (hs_waits h) vm = None \<and> set (hs_procs h) = set procs \<or>
      0 < pid_of e \<and> map_of (hs_waits h) vm = Some (pid_of e) \<and> pid_of e \<notin> set procs \<and>
      set (hs_procs h) = insert (pid_of e) (set procs))"

text \<open>What an instance has on the host between its creation and its removal, seen from the state before.\<close>

definition life_inv ::
  "('s \<Rightarrow> string list \<Rightarrow> nat) \<Rightarrow> ('s \<Rightarrow> string set) \<Rightarrow> string \<Rightarrow> string \<Rightarrow> 's host \<Rightarrow> 's host \<Rightarrow> bool" where
  "life_inv copies taps listen vm h h' \<longleftrightarrow>
     touched copies (set (device_rules (tapName vm) listen)) (hs_net h) (hs_net h') \<and>
     device_tap vm taps (hs_net h) (hs_net h') \<and>
     (\<forall>n. n \<noteq> vm \<longrightarrow> entry n h' = entry n h) \<and>
     (case entry vm h' of
        None \<Rightarrow> set (hs_procs h') = set (hs_procs h)
      | Some e \<Rightarrow> ns_tap (net_of vm e) = tapName vm \<and> own_process vm e (hs_procs h) h')"

lemma life_give_up:
  assumes "touched copies (set (device_rules (tapName vm) listen)) (hs_net h) (hs_net h1)"
    and "device_tap vm taps (hs_net h) (hs_net h1)" and "hs_procs h1 = hs_procs h" and "\<forall>n. n \<noteq> vm \<longrightarrow> entry n h1 = entry n h"
    and "map_of (hs_waits h1) vm = None" and "in_meta i = NoMeta" and "map_of (in_files i) ''firecracker.pid'' = None"
  shows "life_inv copies taps listen vm h (give_up os vm i h1)"
proof -
  obtain e h2 where r: "RemoveAll os vm (put_entry vm (Some i) h1) = (e, h2)" by fastforce
  have f: "hs_net h2 = hs_net h1" "hs_procs h2 = hs_procs h" "hs_waits h2 = hs_waits h1" "\<forall>n. n \<noteq> vm \<longrightarrow> entry n h2 = entry n h"
    using RemoveAll_frame [of os vm "put_entry vm (Some i) h1"] r RemoveAll_entry [OF r] assms by auto
  have "entry vm h2 = None \<or> entry vm h2 = Some (Some i)"
    using r by (auto simp: RemoveAll_def split: if_splits option.splits)
  then show ?thesis
    using assms f by (auto simp: life_inv_def own_process_def give_up_def r net_of_def pid_of_def synthetic_net_def ReadPIDFile_def)
qed

lemma write_file_lookup [simp]: "map_of (write_file p t fs) q = (if q = p then Some t else map_of fs q)"
  by (simp add: write_file_def update_conv')

lemma write_all_keeps: "write_all io ws fs = (e, fs') \<Longrightarrow> q \<notin> fst ` set ws \<Longrightarrow> map_of fs' q = map_of fs q"
  by (induction io ws fs rule: write_all.induct) (auto split: option.splits)

lemma write_each_keeps: "q \<notin> fst ` set ws \<Longrightarrow> map_of (write_each io ws fs) q = map_of fs q"
  unfolding write_each_def by (induction ws arbitrary: fs) auto

lemma setup_files:
  assumes "SetupNetwork tls listen io text' dir vm fs s = (res, fs1, s1)"
  shows "map_of fs1 ''firecracker.pid'' = map_of fs ''firecracker.pid''"
proof -
  have d: "defaultSetupNetwork io dir vm f = (r, f1) \<Longrightarrow> map_of f1 ''firecracker.pid'' = map_of f ''firecracker.pid''" for f f1 r
    by (auto simp: defaultSetupNetwork_def dest!: write_all_keeps [where q = "''firecracker.pid''"] split: prod.splits option.splits)
  have "realSetupNetwork tls io text' dir vm fs s = (r, f1, v) \<Longrightarrow> map_of f1 ''firecracker.pid'' = map_of fs ''firecracker.pid''" for r f1 v
    by (auto simp: realSetupNetwork_def Let_def write_each_keeps dest!: d split: option.splits prod.splits bool.splits)
  then show ?thesis using assms
    by (auto simp: SetupNetwork_def Let_def write_each_keeps split: if_splits prod.splits sum.splits option.splits)
qed

lemma fc_drives_pid: "map_of (fc_drives io ce) ''firecracker.pid'' = None"
  by (auto simp: fc_drives_def Let_def write_each_keeps split: sum.splits)

definition fresh :: "string \<Rightarrow> 's host \<Rightarrow> 's host \<Rightarrow> bool" where
  "fresh vm h h' \<longleftrightarrow> set (hs_procs h') = set (hs_procs h) \<and> map_of (hs_waits h') vm = None \<and>
     (\<forall>e. entry vm h' = Some e \<longrightarrow> (\<exists>i. e = Some i \<and> map_of (in_files i) ''firecracker.pid'' = None \<and>
        (\<forall>m. in_meta i = Meta m \<longrightarrow> im_pid m = 0)))"

lemma fresh_pid: "fresh vm h h' \<Longrightarrow> entry vm h' = Some e \<Longrightarrow> pid_of e = 0"
  by (force simp: fresh_def pid_of_def ReadPIDFile_def split: option.splits meta_file.splits)

lemma give_up_frame:
  "hs_procs (give_up os vm i h) = hs_procs h" "hs_waits (give_up os vm i h) = hs_waits h"
  "entry vm (give_up os vm i h) = None \<or> entry vm (give_up os vm i h) = Some (Some i)"
  using RemoveAll_frame [of os vm "put_entry vm (Some i) h"]
  by (auto simp: give_up_def RemoveAll_def split: option.splits)

lemma torn_down_touched:
  assumes none: "\<forall>r \<in> set (device_rules (tapName vm) listen). copies s r = 0"
    and t: "torn_down copies taps refused (tapName vm) listen s s'"
  shows "touched copies (set (device_rules (tapName vm) listen)) s s'" "device_tap vm taps s s'"
proof -
  have "copies s' r \<le> 1" if "r \<in> set (device_rules (tapName vm) listen)" for r
  proof -
    have "hd r \<noteq> ''POSTROUTING''" by (rule device_rules_chain [OF that])
    then have "copies s' r = copies s r \<or> copies s' r = 1" using t unfolding torn_down_def by blast
    then show ?thesis using none that by auto
  qed
  then show "touched copies (set (device_rules (tapName vm) listen)) s s'"
    using t unfolding touched_def torn_down_def by blast
  show "device_tap vm taps s s'" using t by (simp add: torn_down_def device_tap_def)
qed

lemma fc_Create_life:
  assumes m: "host_manual tls copies taps refused"
    and none: "\<forall>r \<in> set (device_rules (tapName (vc_id c)) (fcc_listen fc)). copies (hs_net h) r = 0"
    and absent: "entry (vc_id c) h = None" "map_of (hs_waits h) (vc_id c) = None" and cr: "fc_Create tls fc os ce c h = (res, h1)"
  shows "life_inv copies taps (fcc_listen fc) (vc_id c) h h1 \<and> fresh (vc_id c) h h1"
proof -
  let ?vm = "vc_id c" let ?L = "fcc_listen fc" let ?io = "os_io os ?vm" let ?R = "set (device_rules (tapName (vc_id c)) ?L)"
  have t0: "touched copies ?R (hs_net h) (hs_net h)" by (rule touched_start [of _ copies, OF none])
  have same: "life_inv copies taps ?L ?vm h h \<and> fresh ?vm h h"
    using t0 absent by (simp add: life_inv_def device_tap_def fresh_def)
  obtain net fs s where su: "SetupNetwork tls ?L ?io (ce_text ce) (InstanceDir os ?vm @ ''/net'') ?vm (fc_drives ?io ce) (hs_net h) = (net, fs, s)"
    by (metis prod_cases3)
  note st = setup_touched [OF m t0 su]
  have pid: "map_of fs ''firecracker.pid'' = None" using setup_files [OF su] fc_drives_pid by simp
  let ?i = "new_instance fs" let ?h1 = "h\<lparr> hs_net := s \<rparr>"
  have gu: "life_inv copies taps ?L ?vm h (give_up os ?vm i h') \<and> fresh ?vm h (give_up os ?vm i h')"
    if "touched copies ?R (hs_net h) (hs_net h')" "device_tap ?vm taps (hs_net h) (hs_net h')" "hs_procs h' = hs_procs h"
      "\<forall>n. n \<noteq> ?vm \<longrightarrow> entry n h' = entry n h" "map_of (hs_waits h') ?vm = None" "in_meta i = NoMeta" "map_of (in_files i) ''firecracker.pid'' = None" for i h'
    using life_give_up [OF that] give_up_frame [where os = os and vm = ?vm and i = i and h = h'] that
    by (auto simp: fresh_def)
  consider (nothing) "h1 = h" | (early) "h1 = give_up os ?vm (new_instance []) h"
    | (late) "h1 = give_up os ?vm ?i ?h1"
    | (meta) v where "net = Inr v" "h1 = give_up os ?vm ?i (?h1\<lparr> hs_net := TeardownNetwork tls ?L v s \<rparr>)"
    | (made) v where "net = Inr v" "h1 = put_entry ?vm (Some (?i\<lparr> in_meta := Meta (fc_meta (ce_now ce) c v) \<rparr>)) ?h1"
    using cr by (auto simp: fc_Create_def Let_def su WriteMeta_def split: option.splits if_splits sum.splits)
  then show ?thesis
  proof cases
    case nothing
    then show ?thesis using same by simp
  next
    case early
    then show ?thesis using gu [of h "new_instance []"] t0 absent by (simp add: device_tap_def new_instance_def)
  next
    case late
    then show ?thesis using gu [of ?h1 ?i] st pid absent by (simp add: new_instance_def)
  next
    case (meta v)
    have tc: "torn_down copies taps refused (tapName ?vm) ?L (hs_net h) (TeardownNetwork tls ?L v s)"
      using teardown_clean [OF m none] st meta(1) by simp
    note torn_down_touched [OF none tc]
    then show ?thesis using gu [of "?h1\<lparr> hs_net := TeardownNetwork tls ?L v s \<rparr>" ?i] meta(2) pid absent
      by (simp add: new_instance_def)
  next
    case (made v)
    then show ?thesis using st pid absent
      by (auto simp: life_inv_def own_process_def fresh_def net_of_def pid_of_def fc_meta_def new_instance_def ReadPIDFile_def)
  qed
qed

lemma life_put:
  assumes "life_inv copies taps listen vm h h1" and "entry vm h1 = Some e1"
    and "hs_net h2 = hs_net h1" and "\<forall>n. n \<noteq> vm \<longrightarrow> entry n h2 = entry n h1" and "entry vm h2 = Some e2"
    and "ns_tap (net_of vm e2) = ns_tap (net_of vm e1)"
    and "own_process vm e2 (hs_procs h) h2"
  shows "life_inv copies taps listen vm h h2"
  using assms by (simp add: life_inv_def)

lemma pid_file:
  assumes "0 < pid" and "pid < 2 ^ 63" and "map_of fs ''firecracker.pid'' = Some (itoa pid @ [CHR 0x0A])"
  shows "ReadPIDFile fs = pid"
  using assms trim_number [of pid] atoi_itoa [of pid] by (simp add: ReadPIDFile_def Let_def)

lemma fc_Boot_life:
  assumes l: "life_inv copies taps listen vm h h1" and f: "fresh vm h h1"
    and pid: "\<And>p. be_start be = Inr p \<Longrightarrow> 0 < p \<and> p < 2 ^ 63 \<and> p \<notin> set (hs_procs h)"
    and b: "fc_Boot os be vm h1 = (err, h2)"
  shows "life_inv copies taps listen vm h h2"
proof (cases "h2 = h1")
  case True
  then show ?thesis using l by simp
next
  case False
  obtain m i where i: "valid_id vm" "ReadMeta vm h1 = Inr m" "im_state m \<noteq> StateRunning" "entry vm h1 = Some (Some i)"
    using b False by (auto simp: fc_Boot_def split: if_splits sum.splits option.splits)
  have meta: "in_meta i = Meta m" using i(2,4) by (auto simp: ReadMeta_def split: meta_file.splits)
  have fr: "set (hs_procs h1) = set (hs_procs h)" "map_of (in_files i) ''firecracker.pid'' = None" "im_pid m = 0"
      "map_of (hs_waits h1) vm = None"
    using f i(4) meta by (auto simp: fresh_def)
  let ?i0 = "i\<lparr> in_files := AList.delete ''api.sock'' (in_files i) \<rparr>"
  have p0: "pid_of (Some ?i0) = 0" "net_of vm (Some ?i0) = net_of vm (Some i)"
    using fr meta by (simp_all add: pid_of_def ReadPIDFile_def delete_conv' net_of_def)
  note lp = life_put [OF l i(4)]
  have kept: "life_inv copies taps listen vm h v"
    if "hs_net v = hs_net h1" "set (hs_procs v) = set (hs_procs h)" "hs_waits v = hs_waits h1" "\<forall>n. entry n v = (if n = vm then Some (Some ?i0) else entry n h1)" for v
    by (rule lp [where ?e2.0 = "Some ?i0"]) (use that p0 fr in \<open>auto simp: own_process_def\<close>)
  show ?thesis
  proof (cases "be_start be")
    case (Inl e)
    then have "h2 = put_entry vm (Some ?i0) h1" using b i by (simp add: fc_Boot_def Let_def)
    then show ?thesis using kept [of h2] fr by simp
  next
    case (Inr p)
    note pp = pid [OF Inr]
    let ?h1 = "(put_entry vm (Some ?i0) h1)\<lparr> hs_procs := p # hs_procs h1 \<rparr>"
    have stop: "life_inv copies taps listen vm h (await_end (Some p) (StopProcess os p ?h1))"
      by (rule kept) (use pp fr in auto)
    show ?thesis
    proof (cases "h2 = await_end (Some p) (StopProcess os p ?h1)")
      case True
      then show ?thesis using stop by simp
    next
      case False
      define fs where "fs = write_file ''firecracker.pid'' (itoa p @ [CHR 0x0A]) (in_files ?i0)"
      have "\<exists>i1. h2 = put_entry vm (Some i1) (storeWait vm p ?h1) \<and>
          (i1 = ?i0\<lparr> in_files := fs \<rparr> \<or> i1 = ?i0\<lparr> in_files := fs, in_meta := Meta (m\<lparr> im_state := StateRunning, im_pid := p \<rparr>) \<rparr>)"
        using b i Inr False
        by (auto simp: fc_Boot_def Let_def WriteMeta_def fs_def split: option.splits)
      then obtain i1 where i1: "h2 = put_entry vm (Some i1) (storeWait vm p ?h1)"
        "i1 = ?i0\<lparr> in_files := fs \<rparr> \<or> i1 = ?i0\<lparr> in_files := fs, in_meta := Meta (m\<lparr> im_state := StateRunning, im_pid := p \<rparr>) \<rparr>"
        by blast
      have "ReadPIDFile fs = p" using pid_file pp by (simp add: fs_def)
      then have "pid_of (Some i1) = p" "ns_tap (net_of vm (Some i1)) = ns_tap (net_of vm (Some i))"
        using i1(2) meta fr pp by (auto simp: pid_of_def net_of_def)
      then show ?thesis
        by (intro lp [where ?e2.0 = "Some i1"])
          (use i1(1) pp fr i(1) in \<open>auto simp: own_process_def storeWait_def update_conv' valid_id_def\<close>)
    qed
  qed
qed


text \<open>
  C22. A sweep takes exactly the orphans, on either backend: whatever it destroys and however far it gets, only
  directories with valid names that are not wanted can go; wanted instances, plain files and strange names stay
  untouched, and each instance it reports is gone. When it reports no error, no orphan is left.
\<close>

theorem sweep_takes_orphans_only:
  assumes "host_ok h" and "os_root os \<noteq> ''''"
    and "mg \<in> {\<lparr> mg_destroy = fake_Destroy os, mg_list = fake_List os \<rparr>,
               \<lparr> mg_destroy = fc_Destroy tls fc os, mg_list = fc_List os \<rparr>}"
    and "SweepOrphansFunc os (Some mg) ctx (Some (Inr desired)) h = (destroyed, err, h')"
  shows "host_ok h' \<and> (\<forall>n. n \<notin> orphaned desired h \<longrightarrow> entry n h' = entry n h) \<and>
    set destroyed \<subseteq> orphaned desired h \<and> (\<forall>n \<in> set destroyed. entry n h' = None) \<and>
    (err = None \<longrightarrow> set destroyed = orphaned desired h \<and> orphaned desired h' = {})"
proof -
  have s: "SweepOrphans os (Some mg) ctx desired h = (destroyed, err, h')" using assms(4) by (simp add: SweepOrphansFunc_def)
  from assms(3) consider "mg = \<lparr> mg_destroy = fake_Destroy os, mg_list = fake_List os \<rparr>"
    | "mg = \<lparr> mg_destroy = fc_Destroy tls fc os, mg_list = fc_List os \<rparr>" by blast
  then show ?thesis
  proof cases
    case 1
    show ?thesis by (rule fake.sweep_leaves [OF assms(1,2) s [unfolded 1]])
  next
    case 2
    show ?thesis by (rule fc.sweep_leaves [OF assms(1,2) s [unfolded 2]])
  qed
qed

section \<open>A host with two guests\<close>

definition demo_os :: os where
  "demo_os = \<lparr> os_root = ''/var/lib/temperci'', os_io = (\<lambda>vm p. None), os_stat = (\<lambda>vm. None), os_rm = (\<lambda>vm. None), os_list = None,
     os_kill = (\<lambda>p. False) \<rparr>"

definition demo_vm :: "string \<Rightarrow> vm_config" where
  "demo_vm vm = \<lparr> vc_id = vm, vc_vcpus = 2, vc_memory = 2048, vc_kernel = ''/k'', vc_rootfs = ''/r'', vc_metadata = [] \<rparr>"

definition demo_host :: "((string list \<Rightarrow> nat) \<times> string set) host" where
  "demo_host =
     \<lparr> hs_dirs = [(''vm-a'', Some (new_instance [])), (''vm-b'', Some (new_instance [])), (''notes'', None)],
        hs_net = (\<lambda>r. 0, {''eth0''}), hs_procs = [1], hs_waits = [] \<rparr>"

definition demo_fc :: fc_config where
  "demo_fc = \<lparr> fcc_listen = '''', fcc_require_clone = False \<rparr>"

lemma demo_host_ok: "host_ok demo_host"
  by (simp add: host_ok_def demo_host_def new_instance_def)

lemma sweep_takes_orphans_only_witness:
  "case SweepOrphansFunc demo_os (Some \<lparr> mg_destroy = fake_Destroy demo_os, mg_list = fake_List demo_os \<rparr>) (\<lambda>_. None)
       (Some (Inr [''vm-a''])) demo_host of
     (destroyed, err, h') \<Rightarrow> err = None \<and> set destroyed = {''vm-b''} \<and> orphaned [''vm-a''] h' = {}"
proof -
  let ?mg = "\<lparr> mg_destroy = fake_Destroy demo_os, mg_list = fake_List demo_os \<rparr> :: ((string list \<Rightarrow> nat) \<times> string set) manager"
  obtain d err h' where s: "SweepOrphansFunc demo_os (Some ?mg) (\<lambda>_. None) (Some (Inr [''vm-a''])) demo_host = (d, err, h')"
    by (metis prod_cases3)
  have v: "valid_id ''vm-a'' \<and> valid_id ''vm-b''" by code_simp
  have "fst (snd (SweepOrphansFunc demo_os (Some ?mg) (\<lambda>_. None) (Some (Inr [''vm-a''])) demo_host)) = None" by code_simp
  then have e: "err = None" using s by simp
  have "orphaned [''vm-a''] demo_host = {''vm-b''}"
    using v by (auto simp: orphaned_def demo_host_def entry_def split: if_splits)
  then show ?thesis
    using sweep_takes_orphans_only [OF demo_host_ok _ _ s, where tls = "demo_tools (\<lambda>c. False)" and fc = demo_fc] e
    by (simp add: s) (simp add: demo_os_def)
qed

lemma demo_destroy_succeeds: "valid_id vm \<Longrightarrow> fst (fc_Destroy tls fc demo_os vm h) = None"
  by (simp add: fc_Destroy_def RemoveAll_def demo_os_def Let_def split: option.splits prod.splits)


text \<open>
  A destroy reports success though the host has refused to delete the guest's device, and though the guest's
  process outlives its signals when another manager had started it.
\<close>

lemma destroy_ignores_refusals:
  assumes "fc_Destroy (demo_tools refuses_link_del) demo_fc demo_os vm h = (err, h')" and "valid_id vm" "entry vm h = Some e"
    and "hs_waits h = []"
  shows "err = None \<and> snd (hs_net h') = snd (hs_net h) \<and> set (hs_procs h') = set (hs_procs h)"
proof -
  have "err = None" using demo_destroy_succeeds [OF assms(2), of "demo_tools refuses_link_del" demo_fc h] assms(1) by simp
  moreover have "TeardownNetwork tls '''' net s = realTeardownNetwork tls net s" for tls :: "((string list \<Rightarrow> nat) \<times> string set) tools" and net s
    by (simp add: TeardownNetwork_def Let_def)
  ultimately show ?thesis
    using fc_Destroy_spec [OF assms(1)] assms(2-4) refused_device_stays
    by (simp add: demo_fc_def ended_def demo_os_def)
qed

end
