(* ===== verification/GuestLogs.thy ===== *)
theory GuestLogs
  imports SparseCopy MicroVM
begin

text \<open>
  The texts a guest sends and the host keeps: \<open>internal/agent/joblogs.go\<close> (clipping a log to what is uploaded) and
  the wire formats of \<open>mailbox.go\<close> (frames of the log stream, datagrams with base64), with what these use of the
  standard library: \<open>unicode/utf8\<close>, \<open>strings.Fields\<close> and \<open>encoding/base64\<close>. Texts stand for byte strings.
\<close>

section \<open>UTF-8\<close>

definition byte_in :: "nat \<Rightarrow> nat \<Rightarrow> char \<Rightarrow> bool" where
  "byte_in lo hi c \<longleftrightarrow> lo \<le> (of_char c :: nat) \<and> (of_char c :: nat) \<le> hi"

text \<open>
  The table of the package: for the first byte of a rune, the range of the second and how many bytes follow.
\<close>

definition rune_form :: "char \<Rightarrow> (nat \<times> nat \<times> nat) option" where
  "rune_form c =
     (let n = (of_char c :: nat) in
      if n \<le> 127 then Some (0, 0, 0)
      else if 194 \<le> n \<and> n \<le> 223 then Some (128, 191, 1)
      else if n = 224 then Some (160, 191, 2)
      else if 225 \<le> n \<and> n \<le> 236 \<or> n = 238 \<or> n = 239 then Some (128, 191, 2)
      else if n = 237 then Some (128, 159, 2)
      else if n = 240 then Some (144, 191, 3)
      else if 241 \<le> n \<and> n \<le> 243 then Some (128, 191, 3)
      else if n = 244 then Some (128, 143, 3)
      else None)"

text \<open>The length of the valid rune a text starts with.\<close>

fun rune_width :: "string \<Rightarrow> nat option" where
  "rune_width [] = None"
| "rune_width (c # r) =
     (case rune_form c of
        None \<Rightarrow> None
      | Some (lo, hi, k) \<Rightarrow>
          if k = 0 then Some 1
          else if length r \<ge> k \<and> byte_in lo hi (r ! 0) \<and> list_all (byte_in 128 191) (take (k - 1) (drop 1 r))
          then Some (k + 1) else None)"


lemma rune_width_pos: "rune_width s = Some n \<Longrightarrow> 0 < n \<and> s \<noteq> []"
  by (cases s) (auto split: if_splits option.splits)

text \<open>\<open>utf8.ValidString\<close>.\<close>

function valid_utf8 :: "string \<Rightarrow> bool" where
  "valid_utf8 s = (s = [] \<or> (case rune_width s of None \<Rightarrow> False | Some n \<Rightarrow> valid_utf8 (drop n s)))"
  by pat_completeness auto
termination
  by (relation "measure length") (auto dest: rune_width_pos)

declare valid_utf8.simps [simp del]

text \<open>\<open>string([]rune(s))\<close>: every byte that starts no rune becomes the replacement character.\<close>

function rune_text :: "string \<Rightarrow> string" where
  "rune_text s =
     (if s = [] then []
      else case rune_width s of
        None \<Rightarrow> [CHR 0xEF, CHR 0xBF, CHR 0xBD] @ rune_text (tl s)
      | Some n \<Rightarrow> take n s @ rune_text (drop n s))"
  by pat_completeness auto
termination
  by (relation "measure length") (auto dest: rune_width_pos)

declare rune_text.simps [simp del]

section \<open>Clipping a log\<close>

definition maxUploadedLogBytes :: int where "maxUploadedLogBytes = 128 * 1024"
definition maxUploadedWorkflowLogBytes :: int where "maxUploadedWorkflowLogBytes = 2 * 2 ^ 20"

text \<open>The loop at the end of \<open>clipLog\<close>: bytes go from the front until the rest is valid.\<close>

fun drop_invalid :: "string \<Rightarrow> string" where
  "drop_invalid [] = []"
| "drop_invalid (c # s) = (if \<not> valid_utf8 (c # s) then drop_invalid s else c # s)"

definition clipLog :: "string \<Rightarrow> int \<Rightarrow> string" where
  "clipLog s mx =
     (if mx \<le> 0 \<or> int (length s) \<le> mx then (if valid_utf8 s then s else rune_text s)
      else drop_invalid (drop (length s - nat mx) s))"

text \<open>The first of the files that can be read and is not empty.\<close>

fun readLogFileN :: "int \<Rightarrow> string option list \<Rightarrow> string" where
  "readLogFileN mx [] = ''''"
| "readLogFileN mx (f # fs) =
     (case f of
        None \<Rightarrow> readLogFileN mx fs
      | Some b \<Rightarrow> if b = '''' then readLogFileN mx fs else clipLog b mx)"

definition readLogFile :: "string option list \<Rightarrow> string" where
  "readLogFile fs = readLogFileN maxUploadedLogBytes fs"

definition TailFile :: "string option \<Rightarrow> int \<Rightarrow> string" where
  "TailFile f mx =
     (if mx \<le> 0 then ''''
      else case f of
        None \<Rightarrow> ''''
      | Some b \<Rightarrow>
          if b = '''' then ''''
          else clipLog (if int (length b) > mx then drop (length b - nat mx) b else b) mx)"

lemma valid_Nil [simp]: "valid_utf8 []"
  by (simp add: valid_utf8.simps [of "[]"])

lemma drop_invalid_longest:
  "suffix (drop_invalid s) s \<and> valid_utf8 (drop_invalid s) \<and>
   (\<forall>t. suffix t s \<longrightarrow> valid_utf8 t \<longrightarrow> length t \<le> length (drop_invalid s))"
proof (induction s)
  case (Cons c s)
  show ?case
  proof (cases "valid_utf8 (c # s)")
    case True
    then show ?thesis by (auto dest: suffix_length_le)
  next
    case False
    then have "suffix t (c # s) \<Longrightarrow> valid_utf8 t \<Longrightarrow> suffix t s" for t by (auto simp: suffix_Cons)
    then show ?thesis using False Cons by (auto intro: suffix_ConsI)
  qed
qed simp

text \<open>
  Clipping keeps a valid log that fits as it is; of a longer one it keeps the longest end that fits
  into the limit and is valid UTF-8 by itself.
\<close>

theorem clip_keeps_tail:
  "if int (length s) \<le> mx \<and> valid_utf8 s then clipLog s mx = s
   else 0 < mx \<and> mx < int (length s) \<longrightarrow>
     suffix (clipLog s mx) s \<and> int (length (clipLog s mx)) \<le> mx \<and> valid_utf8 (clipLog s mx) \<and>
     (\<forall>t. suffix t s \<and> int (length t) \<le> mx \<and> valid_utf8 t \<longrightarrow> length t \<le> length (clipLog s mx))"
proof (cases "0 < mx \<and> mx < int (length s)")
  case False
  then show ?thesis by (auto simp: clipLog_def)
next
  case True
  let ?d = "drop (length s - nat mx) s"
  have c: "clipLog s mx = drop_invalid ?d" using True by (simp add: clipLog_def)
  have ld: "length ?d = nat mx" using True by (simp add: diff_diff_cancel nat_le_iff)
  note dl = drop_invalid_longest [of ?d]
  have "suffix ?d s" by (rule suffix_drop)
  then have "suffix (drop_invalid ?d) s" using dl suffix_order.trans by blast
  moreover have "int (length (drop_invalid ?d)) \<le> mx" using dl ld suffix_length_le [of "drop_invalid ?d" ?d] True by auto
  moreover have "suffix t ?d" if "suffix t s" "int (length t) \<le> mx" for t
    using that \<open>suffix ?d s\<close> ld suffix_length_suffix [of t s ?d] by auto
  ultimately show ?thesis using c dl True by auto
qed

lemma clip_keeps_tail_witness: "clipLog [CHR ''a'', CHR 0xC3, CHR 0xA9, CHR ''b''] 2 = ''b''"
proof -
  let ?s = "[CHR ''a'', CHR 0xC3, CHR 0xA9, CHR ''b'']"
  have v: "valid_utf8 ''b''" "\<not> valid_utf8 [CHR 0xA9, CHR ''b'']" by code_simp+
  from clip_keeps_tail [of ?s 2]
  have c: "suffix (clipLog ?s 2) ?s" "length (clipLog ?s 2) \<le> 2" "valid_utf8 (clipLog ?s 2)"
    "\<forall>t. suffix t ?s \<and> int (length t) \<le> 2 \<and> valid_utf8 t \<longrightarrow> length t \<le> length (clipLog ?s 2)" by auto
  have "suffix ''b'' ?s" by (simp add: suffix_def)
  then have "1 \<le> length (clipLog ?s 2)" using c(4) v(1) by fastforce
  then show ?thesis using c(1,2,3) v(2) by (auto simp: suffix_Cons)
qed

lemma not_ff: "byte_in lo hi c \<Longrightarrow> hi < 255 \<Longrightarrow> c \<noteq> CHR 0xFF"
  by (auto simp: byte_in_def)

lemma rune_form_no_ff: "rune_form c = Some (lo, hi, k) \<Longrightarrow> c \<noteq> CHR 0xFF \<and> hi < 255"
  by (auto simp: rune_form_def Let_def split: if_splits)

lemma rune_no_ff:
  assumes "rune_width s = Some n"
  shows "CHR 0xFF \<notin> set (take n s)"
proof (cases s)
  case (Cons c r)
  obtain lo hi k where f: "rune_form c = Some (lo, hi, k)" using assms Cons by (auto split: option.splits)
  note ff = rune_form_no_ff [OF f]
  show ?thesis
  proof (cases k)
    case 0
    then show ?thesis using assms Cons f ff by auto
  next
    case (Suc j)
    then have w: "n = k + 1" "length r \<ge> k" "byte_in lo hi (r ! 0)" "list_all (byte_in 128 191) (take j (drop 1 r))"
      using assms Cons f by (auto split: if_splits)
    then obtain x xs where r: "r = x # xs" using Suc by (cases r) auto
    have "x \<noteq> CHR 0xFF" using not_ff w(3) r ff by fastforce
    moreover have "CHR 0xFF \<notin> set (take j xs)" using w(4) not_ff [of 128 191] r by (auto simp: list_all_iff)
    ultimately show ?thesis using r w(1) Suc Cons ff by auto
  qed
qed simp


lemma valid_no_ff: "valid_utf8 s \<Longrightarrow> CHR 0xFF \<notin> set s"
proof (induction s rule: valid_utf8.induct)
  case (1 s)
  show ?case
  proof (cases "rune_width s")
    case None
    then show ?thesis using 1(2) by (simp add: valid_utf8.simps [of s])
  next
    case (Some n)
    then have s: "s \<noteq> []" "valid_utf8 (drop n s)"
      using 1(2) rune_width_pos [OF Some] by (simp_all add: valid_utf8.simps [of s])
    have "CHR 0xFF \<notin> set (take n s)" by (rule rune_no_ff [OF Some])
    moreover have "CHR 0xFF \<notin> set (drop n s)" using 1(1) [OF Some s(2)] s(1) by simp
    ultimately show ?thesis using append_take_drop_id [of n s] by (metis Un_iff set_append)
  qed
qed

text \<open>
  One byte that is no text at the end of a long log, such as a guest that dies in the middle of a line leaves,
  costs the whole log: clipping drops everything in front of that byte although only the byte itself
  is invalid.
\<close>

theorem clip_loses_all_before_bad_byte:
  assumes "0 < mx" and "mx < int (length s) + 1"
  shows "clipLog (s @ [CHR 0xFF]) mx = ''''"
proof -
  have "drop_invalid (t @ [CHR 0xFF]) = ''''" for t
  proof (induction t)
    case (Cons a t)
    have "\<not> valid_utf8 (a # t @ [CHR 0xFF])" using valid_no_ff [of "a # t @ [CHR 0xFF]"] by auto
    then show ?case using Cons by simp
  next
    case Nil
    have "\<not> valid_utf8 [CHR 0xFF]" using valid_no_ff [of "[CHR 0xFF]"] by auto
    then show ?case by simp
  qed
  then show ?thesis using assms by (simp add: clipLog_def)
qed

lemma clip_loses_all_before_bad_byte_witness: "clipLog (replicate 200000 (CHR ''x'') @ [CHR 0xFF]) maxUploadedLogBytes = ''''"
  by (rule clip_loses_all_before_bad_byte) (simp_all add: maxUploadedLogBytes_def)

section \<open>The log stream\<close>

text \<open>\<open>strings.Fields\<close>: the words between runs of spaces.\<close>

definition space_at :: "string \<Rightarrow> bool" where
  "space_at s \<longleftrightarrow> find (\<lambda>r. r \<noteq> [] \<and> prefix r s) space_runes \<noteq> None"

fun word_end :: "string \<Rightarrow> string \<times> string" where
  "word_end [] = ([], [])"
| "word_end (c # s) = (if space_at (c # s) then ([], c # s) else (case word_end s of (w, r) \<Rightarrow> (c # w, r)))"

lemma word_end_split: "word_end s = (w, r) \<Longrightarrow> s = w @ r \<and> (r = [] \<or> space_at r)"
  by (induction s arbitrary: w) (auto split: if_splits prod.splits)

lemma trim_left_start: "trim_left s = [] \<or> \<not> space_at (trim_left s)"
proof -
  have "strip_runes rs t = [] \<or> find (\<lambda>r. r \<noteq> [] \<and> prefix r (strip_runes rs t)) rs = None" for rs t
  proof (induction rs t rule: strip_runes.induct)
    case (1 rs t)
    then show ?case by (cases "find (\<lambda>r. r \<noteq> [] \<and> prefix r t) rs") (simp_all add: strip_runes.simps [of rs t])
  qed
  then show ?thesis by (simp add: trim_left_def space_at_def)
qed

function fields :: "string \<Rightarrow> string list" where
  "fields s =
     (let t = trim_left s in
      if t = [] then []
      else (case word_end t of (w, r) \<Rightarrow> w # fields r))"
  by pat_completeness auto
termination
proof (relation "measure length")
  fix s t w r
  assume t: "t = trim_left s" "t \<noteq> []" "(w, r) = word_end t"
  then have "t = w @ r" using word_end_split [of t w r] by auto
  moreover have "w \<noteq> []"
  proof
    assume "w = []"
    obtain c u where c: "t = c # u" using t(2) by (cases t) auto
    then have "\<not> space_at (c # u)" using trim_left_start [of s] t(1,2) by simp
    then show False using t(3) c \<open>w = []\<close> by (auto split: prod.splits)
  qed
  ultimately show "(r, s) \<in> measure length" using length_trim_left [of s] t(1) by (cases w) auto
qed simp

declare fields.simps [simp del]

definition maxLogStreamFrame :: int where "maxLogStreamFrame = 2 ^ 20"

datatype frame_error = StreamEnded | BadHeader string | BadSizes

text \<open>\<open>ReadLogStreamFrame\<close> on the bytes that are still to come, with those after the frame.\<close>

definition ReadLogStreamFrame :: "string \<Rightarrow> (frame_error + int \<times> string) \<times> string" where
  "ReadLogStreamFrame bs =
     (case str_index bs [CHR 0x0A] of
        None \<Rightarrow> (Inl StreamEnded, [])
      | Some i \<Rightarrow>
          (let line = trim_space (take (i + 1) bs); rest = drop (i + 1) bs; fs = fields line in
           if length fs < 3 \<or> fs ! 0 \<noteq> ''wf'' then (Inl (BadHeader line), rest)
           else case (atoi (fs ! 1), atoi (fs ! 2)) of
             (Some off, Some n) \<Rightarrow>
               if off < 0 \<or> n < 0 \<or> n > maxLogStreamFrame then (Inl BadSizes, rest)
               else if n = 0 then (Inr (off, []), rest)
               else if int (length rest) < n then (Inl StreamEnded, [])
               else (Inr (off, take (nat n) rest), drop (nat n) rest)
           | _ \<Rightarrow> (Inl BadSizes, rest)))"

lemma frame_consumes:
  assumes "ReadLogStreamFrame bs = (Inr x, rest)"
  shows "length rest < length bs"
proof (cases "str_index bs [CHR 0x0A]")
  case None
  then show ?thesis using assms by (simp add: ReadLogStreamFrame_def)
next
  case (Some i)
  then have "bs \<noteq> []" by (cases bs) auto
  then have d: "length (drop (i + 1) bs) < length bs" by simp
  have "\<exists>n. rest = drop n (drop (i + 1) bs)"
    using assms Some
    by (auto simp: ReadLogStreamFrame_def Let_def split: option.splits if_splits intro: exI [of _ "0 :: nat"])
  then show ?thesis using d by auto
qed

text \<open>\<open>readLogStream\<close>: the chunks of a connection, up to its first bad frame.\<close>

function readLogStream :: "string \<Rightarrow> (int \<times> string) list" where
  "readLogStream bs =
     (case ReadLogStreamFrame bs of
        (Inl e, rest) \<Rightarrow> []
      | (Inr (off, chunk), rest) \<Rightarrow> if chunk = [] then readLogStream rest else (off, chunk) # readLogStream rest)"
  by pat_completeness auto
termination
  by (relation "measure length") (auto dest: frame_consumes [OF sym])

declare readLogStream.simps [simp del]

section \<open>Datagrams\<close>

text \<open>\<open>encoding/base64\<close>: line ends are skipped; \<open>StdEncoding\<close> wants full groups, padded, \<open>RawStdEncoding\<close> none.\<close>

definition b64_value :: "char \<Rightarrow> nat option" where
  "b64_value c =
     (let n = (of_char c :: nat) in
      if 65 \<le> n \<and> n \<le> 90 then Some (n - 65)
      else if 97 \<le> n \<and> n \<le> 122 then Some (n - 71)
      else if 48 \<le> n \<and> n \<le> 57 then Some (n + 4)
      else if c = CHR ''+'' then Some 62
      else if c = CHR ''/'' then Some 63
      else None)"

fun b64_groups :: "nat list \<Rightarrow> string option" where
  "b64_groups [] = Some []"
| "b64_groups [a] = None"
| "b64_groups [a, b] = Some [char_of (a * 4 + b div 16)]"
| "b64_groups [a, b, c] = Some [char_of (a * 4 + b div 16), char_of ((b mod 16) * 16 + c div 4)]"
| "b64_groups (a # b # c # d # r) =
     (case b64_groups r of
        None \<Rightarrow> None
      | Some t \<Rightarrow> Some (char_of (a * 4 + b div 16) # char_of ((b mod 16) * 16 + c div 4) # char_of ((c mod 4) * 64 + d) # t))"

definition b64_raw :: "string \<Rightarrow> string option" where
  "b64_raw s =
     (let vs = map b64_value (filter (\<lambda>c. c \<noteq> CHR 0x0A \<and> c \<noteq> CHR 0x0D) s) in
      if None \<in> set vs then None else b64_groups (map the vs))"

definition b64_std :: "string \<Rightarrow> string option" where
  "b64_std s =
     (let t = filter (\<lambda>c. c \<noteq> CHR 0x0A \<and> c \<noteq> CHR 0x0D) s;
          pad = (if has_suffix t ''=='' then 2 else if has_suffix t ''='' then 1 else 0)
      in if length t mod 4 \<noteq> 0 then None else b64_raw (take (length t - pad) t))"

definition decodeMailboxB64 :: "string \<Rightarrow> string option" where
  "decodeMailboxB64 s = (case b64_std s of Some b \<Rightarrow> Some b | None \<Rightarrow> b64_raw s)"

text \<open>At most four pieces, as \<open>strings.SplitN(s, " ", 4)\<close> gives them.\<close>

fun split_n :: "nat \<Rightarrow> string \<Rightarrow> string list" where
  "split_n 0 s = []"
| "split_n (Suc 0) s = [s]"
| "split_n (Suc (Suc n)) s =
     (case str_index s '' '' of None \<Rightarrow> [s] | Some i \<Rightarrow> take i s # split_n (Suc n) (drop (i + 1) s))"

text \<open>The chunk a datagram \<open>wf <offset> <total> <base64>\<close> carries.\<close>

definition workflow_datagram :: "string \<Rightarrow> (int \<times> string) option" where
  "workflow_datagram raw =
     (let line = (case str_index raw [CHR 0x0A] of None \<Rightarrow> raw | Some i \<Rightarrow> take i raw);
          fs = split_n 4 (trim_space line)
      in if length fs \<noteq> 4 \<or> fs ! 0 \<noteq> ''wf'' then None
         else case (atoi (fs ! 1), atoi (fs ! 2)) of
           (Some off, Some tot) \<Rightarrow>
             if off < 0 \<or> tot < 0 then None
             else (case decodeMailboxB64 (fs ! 3) of
                     None \<Rightarrow> None
                   | Some chunk \<Rightarrow> if chunk = [] then None else Some (off, chunk))
         | _ \<Rightarrow> None)"

section \<open>The log file\<close>

text \<open>
  \<open>applyWorkflowChunk\<close> on \<open>workflow.log\<close> (\<open>None\<close>: there is none), every system call succeeding: bytes are written in
  place, and a chunk that would leave a gap is dropped.
\<close>

definition chunk_file :: "int \<Rightarrow> string \<Rightarrow> string option \<Rightarrow> string option" where
  "chunk_file off chunk f =
     (case f of
        None \<Rightarrow> if off \<noteq> 0 then None else Some (write_at 0 chunk [])
      | Some t \<Rightarrow> if off > int (length t) then Some t else Some (write_at (nat off) chunk t))"

text \<open>A true slice of the guest's log.\<close>

definition slice_of :: "string \<Rightarrow> int \<times> string \<Rightarrow> bool" where
  "slice_of full c \<longleftrightarrow> 0 \<le> fst c \<and> (\<exists>n. snd c = take n (drop (nat (fst c)) full))"

definition apply_chunks :: "(int \<times> string) list \<Rightarrow> string option \<Rightarrow> string option" where
  "apply_chunks cs f = fold (\<lambda>(off, chunk) g. chunk_file off chunk g) cs f"

lemma write_slice:
  assumes "prefix t full" and "off \<le> length t" and "chunk = take n (drop off full)"
  shows "prefix (write_at off chunk t) full \<and> length t \<le> length (write_at off chunk t)"
proof -
  define m where "m = max (length t) (off + length chunk)"
  have t: "t = take (length t) full" using assms(1) by (auto simp: prefix_def)
  have l: "off \<le> length full" using assms(1,2) prefix_length_le by fastforce
  have lc: "off + length chunk \<le> length full" using assms(3) l by simp
  have "write_at off chunk t = take off t @ chunk @ drop (off + length chunk) t"
    using assms(2) by (simp add: write_at_def)
  also have "\<dots> = take m full"
  proof (rule nth_equalityI)
    show "length (take off t @ chunk @ drop (off + length chunk) t) = length (take m full)"
      using assms(2) lc prefix_length_le [OF assms(1)] by (auto simp: m_def max_def min_def)
    fix i assume i: "i < length (take off t @ chunk @ drop (off + length chunk) t)"
    have nth_t: "k < length t \<Longrightarrow> t ! k = full ! k" for k by (subst t) simp
    have nth_c: "k < length chunk \<Longrightarrow> chunk ! k = full ! (off + k)" for k using assms(3) l by simp
    show "(take off t @ chunk @ drop (off + length chunk) t) ! i = take m full ! i"
      using i assms(2) by (auto simp: nth_append m_def nth_t nth_c max_def split: if_splits)
  qed
  finally have "write_at off chunk t = take m full" .
  moreover have "length t \<le> m" "m \<le> length full" using lc prefix_length_le [OF assms(1)] by (simp_all add: m_def)
  ultimately show ?thesis by (simp add: take_is_prefix)
qed

definition prefix_file :: "string \<Rightarrow> string option \<Rightarrow> bool" where
  "prefix_file full f \<longleftrightarrow> (case f of None \<Rightarrow> True | Some t \<Rightarrow> prefix t full)"

lemma chunk_keeps_prefix:
  assumes "slice_of full (off, chunk)" and "prefix_file full f"
  shows "prefix_file full (chunk_file off chunk f)"
proof -
  obtain n where c: "0 \<le> off" "chunk = take n (drop (nat off) full)" using assms(1) by (auto simp: slice_of_def)
  show ?thesis
  proof (cases f)
    case None
    then show ?thesis using c write_slice [of "[]" full 0 chunk n] by (auto simp: chunk_file_def prefix_file_def)
  next
    case (Some t)
    then show ?thesis using assms(2) c write_slice [of t full "nat off" chunk n]
      by (auto simp: chunk_file_def prefix_file_def)
  qed
qed

text \<open>The pieces of a log in order, each with where it starts.\<close>

fun numbered :: "nat \<Rightarrow> string list \<Rightarrow> (int \<times> string) list" where
  "numbered off [] = []"
| "numbered off (p # ps) = (int off, p) # numbered (off + length p) ps"

lemma apply_numbered: "apply_chunks (numbered (length t) ps) (Some t) = Some (t @ concat ps)"
proof (induction ps arbitrary: t)
  case (Cons p ps)
  have "chunk_file (int (length t)) p (Some t) = Some (t @ p)" by (simp add: chunk_file_def write_at_def)
  then show ?case using Cons [of "t @ p"] by (simp add: apply_chunks_def)
qed (simp add: apply_chunks_def)

text \<open>
  Whatever the network does to the slices of a guest's log (losing, repeating or reordering them, over datagrams
  or the stream), the file on the host is always a beginning of that log, never with a hole or a wrong byte;
  and when all pieces arrive in order it is the whole log.
\<close>

theorem host_log_is_prefix:
  assumes "list_all (slice_of full) cs"
  shows "(case apply_chunks cs None of None \<Rightarrow> True | Some t \<Rightarrow> prefix t full) \<and>
    (\<forall>p ps. apply_chunks (numbered 0 (p # ps)) None = Some (concat (p # ps)))"
proof -
  have "prefix_file full f \<Longrightarrow> list_all (slice_of full) cs \<Longrightarrow> prefix_file full (apply_chunks cs f)" for f
    unfolding apply_chunks_def by (induction cs arbitrary: f) (auto simp: chunk_keeps_prefix)
  then have "prefix_file full (apply_chunks cs None)" using assms by (simp add: prefix_file_def)
  moreover have "apply_chunks (numbered 0 (p # ps)) None = Some (concat (p # ps))" for p ps
    using apply_numbered [of p ps] by (simp add: apply_chunks_def chunk_file_def write_at_def)
  ultimately show ?thesis by (simp add: prefix_file_def)
qed

lemma host_log_is_prefix_witness:
  "apply_chunks [(0, ''ab''), (4, ''ef''), (2, ''cd''), (0, ''a'')] None = Some ''abcd'' \<and> prefix ''abcd'' ''abcdef''"
proof -
  have s: "list_all (slice_of ''abcdef'') [(0, ''ab''), (4, ''ef''), (2, ''cd''), (0, ''a'')]"
  proof -
    have "slice_of ''abcdef'' (0, ''ab'')" unfolding slice_of_def by (intro conjI exI [of _ 2]) simp_all
    moreover have "slice_of ''abcdef'' (4, ''ef'')" unfolding slice_of_def by (intro conjI exI [of _ 2]) simp_all
    moreover have "slice_of ''abcdef'' (2, ''cd'')" unfolding slice_of_def by (intro conjI exI [of _ 2]) simp_all
    moreover have "slice_of ''abcdef'' (0, ''a'')" unfolding slice_of_def by (intro conjI exI [of _ 1]) simp_all
    ultimately show ?thesis by simp
  qed
  have e: "apply_chunks [(0, ''ab''), (4, ''ef''), (2, ''cd''), (0, ''a'')] None = Some ''abcd''" by code_simp
  from conjunct1 [OF host_log_is_prefix [OF s]] show ?thesis by (simp add: e)
qed

end
