(* ===== verification/GuestBox.thy ===== *)
theory GuestBox
  imports Worker GuestLogs
begin

text \<open>
  The box a guest and its host exchange files through, the directory \<open>guest/\<close> of an instance:
  \<open>internal/agent/guest.go\<close> (staging files, starting the runner, waiting for its end), \<open>runner.go\<close> (injecting a
  job), the messages of \<open>mailbox.go\<close>, the logs kept by \<open>joblogs.go\<close>, and \<open>vmm/firecracker/inject.go\<close> once
  its drive is mounted. Instances have valid names (\<open>valid_id\<close>), and file modes are not modelled.
\<close>

section \<open>Files of the box\<close>

definition guest_file :: "string \<Rightarrow> string \<Rightarrow> 's host \<Rightarrow> string option" where
  "guest_file vm name h =
     (case entry vm h of Some (Some i) \<Rightarrow> map_of (in_files i) (''guest/'' @ name) | _ \<Rightarrow> None)"

definition put_file :: "string \<Rightarrow> string \<Rightarrow> string \<Rightarrow> 's host \<Rightarrow> 's host" where
  "put_file vm path bytes h =
     (case entry vm h of
        Some (Some i) \<Rightarrow> put_entry vm (Some (i\<lparr> in_files := write_file path bytes (in_files i) \<rparr>)) h
      | _ \<Rightarrow> h)"

text \<open>\<open>os.MkdirAll\<close> of the box, which makes the instance's directory too.\<close>

definition guest_mkdir :: "os \<Rightarrow> string \<Rightarrow> 's host \<Rightarrow> string option \<times> 's host" where
  "guest_mkdir os vm h =
     (case entry vm h of
        Some None \<Rightarrow> (Some ''not a directory'', h)
      | Some (Some i) \<Rightarrow> (os_io os vm ''guest'', h)
      | None \<Rightarrow>
          (case os_io os vm ''guest'' of
             Some e \<Rightarrow> (Some e, h) | None \<Rightarrow> (None, put_entry vm (Some \<lparr> in_meta = NoMeta, in_files = [] \<rparr>) h)))"

text \<open>That, and a file written into it.\<close>

definition guest_put :: "os \<Rightarrow> string \<Rightarrow> string \<Rightarrow> string \<Rightarrow> 's host \<Rightarrow> string option \<times> 's host" where
  "guest_put os vm name bytes h =
     (case guest_mkdir os vm h of
        (Some e, h1) \<Rightarrow> (Some e, h1)
      | (None, h1) \<Rightarrow>
          (case os_io os vm (''guest/'' @ name) of
             Some e \<Rightarrow> (Some e, h1) | None \<Rightarrow> (None, put_file vm (''guest/'' @ name) bytes h1)))"

section \<open>The runner's end\<close>

definition SignalRunnerStopped :: "os \<Rightarrow> string \<Rightarrow> 's host \<Rightarrow> 's host" where
  "SignalRunnerStopped os vm h =
     (if os_root os = '''' \<or> vm = '''' then h
      else snd (guest_put os vm ''runner.exit'' (''cancelled'' @ [CHR 0x0A]) h))"

definition isHostStoppedExit :: "string \<Rightarrow> bool" where
  "isHostStoppedExit text' \<longleftrightarrow> to_lower text' \<in> {''cancelled'', ''canceled'', ''killed''}"

text \<open>\<open>fmt.Sscanf(text, "%d", &n)\<close> on a text that starts with no space: what follows the number is ignored.\<close>

definition scan_int :: "string \<Rightarrow> int option" where
  "scan_int s =
     (let signed = s \<noteq> [] \<and> (hd s = CHR ''+'' \<or> hd s = CHR ''-'');
          ds = takeWhile is_digit (if signed then tl s else s)
      in if ds = [] then None else atoi ((if signed then [hd s] else []) @ ds))"

definition abortLogQuiet :: duration where "abortLogQuiet = second"

text \<open>\<open>age\<close> is how long \<open>runner.log\<close> has not been written.\<close>

definition writeAbortExitIfQuiet :: "os \<Rightarrow> duration \<Rightarrow> string \<Rightarrow> 's host \<Rightarrow> bool \<times> 's host" where
  "writeAbortExitIfQuiet os age vm h =
     (if os_root os = '''' \<or> vm = '''' then (False, h)
      else case guest_file vm ''runner.log'' h of
        None \<Rightarrow> (False, h)
      | Some text' \<Rightarrow>
          if age < abortLogQuiet \<or> \<not> runnerLogIndicatesAbort text' then (False, h)
          else if (case guest_file vm ''runner.exit'' h of None \<Rightarrow> False | Some cur \<Rightarrow> trim_space cur \<noteq> '''') then (False, h)
          else (case guest_put os vm ''runner.exit'' (''97'' @ [CHR 0x0A]) h of
                  (Some e, h1) \<Rightarrow> (False, h1) | (None, h1) \<Rightarrow> (True, h1)))"

lemma trim_97 [simp]: "trim_space [CHR ''9'', CHR ''7'', CHR 0x0A] = ''97''"
  using trim_line [of "''97''"] by (simp add: space_runes_def)

lemma guest_file_put [simp]:
  "guest_file n name (put_entry vm e h) =
     (if n = vm then (case e of Some i \<Rightarrow> map_of (in_files i) (''guest/'' @ name) | None \<Rightarrow> None) else guest_file n name h)"
  by (simp add: guest_file_def split: option.splits)

lemma guest_put_done:
  assumes "guest_put os vm name bytes h = (None, h')"
  shows "guest_file vm name h' = Some bytes"
  using assms
  by (auto simp: guest_put_def guest_mkdir_def put_file_def guest_file_def write_file_def update_conv'
      split: prod.splits option.splits)

lemma abort_writes_exit:
  "writeAbortExitIfQuiet os age vm h = (True, h') \<Longrightarrow> guest_file vm ''runner.exit'' h' = Some (''97'' @ [CHR 0x0A])"
  by (auto simp: writeAbortExitIfQuiet_def guest_put_done split: option.splits if_splits prod.splits)

text \<open>The code, whether the runner is done, and the error.\<close>

function runnerWaitStatus :: "os \<Rightarrow> duration \<Rightarrow> string \<Rightarrow> 's host \<Rightarrow> (int \<times> bool \<times> wait_error option) \<times> 's host" where
  "runnerWaitStatus os age vm h =
     (if os_root os = '''' \<or> vm = '''' then ((0, False, None), h)
      else case guest_file vm ''runner.exit'' h of
        Some b \<Rightarrow>
          (let text' = trim_space b in
           if text' = '''' then ((0, False, None), h)
           else if isHostStoppedExit text' then ((- 1, True, Some RunnerStopped), h)
           else case scan_int text' of
             None \<Rightarrow> ((1, True, None), h)
           | Some n \<Rightarrow> ((n, True, None), h))
      | None \<Rightarrow>
          if entry vm h = None \<and> os_stat os vm = None then ((- 1, True, Some RunnerStopped), h)
          else case writeAbortExitIfQuiet os age vm h of
            (True, h1) \<Rightarrow> runnerWaitStatus os age vm h1
          | (False, h1) \<Rightarrow> ((0, False, None), h1))"
  by pat_completeness auto
termination
  by (relation "measure (\<lambda>(os, age, vm, h). if guest_file vm ''runner.exit'' h = None then 1 else 0)")
    (auto dest: abort_writes_exit [OF sym])

declare runnerWaitStatus.simps [simp del]

text \<open>
  A runner that was aborted without reporting an end (out of memory, signal 134) is noticed once its log has been
  quiet for a second: the wait gets the code 97, which is also written down, so that every later look gives it again.
\<close>

theorem abort_is_noticed:
  assumes "os_root os \<noteq> ''''" and "vm \<noteq> ''''" and "guest_file vm ''runner.exit'' h = None"
    and "guest_file vm ''runner.log'' h = Some log'" and "runnerLogIndicatesAbort log'" and "second \<le> age"
    and "os_io os vm ''guest'' = None" and "os_io os vm ''guest/runner.exit'' = None"
  shows "\<exists>h'. runnerWaitStatus os age vm h = ((97, True, None), h') \<and>
    (\<forall>later. runnerWaitStatus os later vm h' = ((97, True, None), h'))"
proof -
  obtain i where e: "entry vm h = Some (Some i)" using assms(4) by (auto simp: guest_file_def split: option.splits)
  define h' where "h' = snd (guest_put os vm ''runner.exit'' (''97'' @ [CHR 0x0A]) h)"
  have p: "guest_put os vm ''runner.exit'' (''97'' @ [CHR 0x0A]) h = (None, h')"
    using assms(7,8) e by (simp add: h'_def guest_put_def guest_mkdir_def)
  have w: "writeAbortExitIfQuiet os age vm h = (True, h')"
    using assms p by (simp add: writeAbortExitIfQuiet_def abortLogQuiet_def)
  have "scan_int ''97'' = Some 97" "\<not> isHostStoppedExit ''97''" by code_simp+
  then have done97: "runnerWaitStatus os later vm h' = ((97, True, None), h')" for later
    using guest_put_done [OF p] assms(1,2) by (simp add: runnerWaitStatus.simps [of os later vm h'])
  then show ?thesis using assms(1-3) e w by (simp add: runnerWaitStatus.simps [of os age vm h])
qed

text \<open>
  An exit file without text, though, keeps an aborted runner from being noticed: it is not an end, and as it
  is there the log is not looked at, whatever it says and however long it has been quiet.
\<close>

theorem blank_exit_hides_abort:
  assumes "guest_file vm ''runner.exit'' h = Some b" and "trim_space b = ''''"
  shows "runnerWaitStatus os age vm h = ((0, False, None), h)"
  using assms by (simp add: runnerWaitStatus.simps [of os age vm h])

section \<open>What a guest sends\<close>

definition applyWorkflowChunk :: "os \<Rightarrow> string \<Rightarrow> int \<Rightarrow> string \<Rightarrow> 's host \<Rightarrow> 's host" where
  "applyWorkflowChunk os vm off chunk h =
     (case guest_mkdir os vm h of
        (Some e, h1) \<Rightarrow> h1
      | (None, h1) \<Rightarrow>
          (case chunk_file off chunk (guest_file vm ''workflow.log'' h1) of
             None \<Rightarrow> h1
           | Some t \<Rightarrow> if os_io os vm ''guest/workflow.log'' = None then put_file vm ''guest/workflow.log'' t h1 else h1))"

definition applyWorkflowMailbox :: "os \<Rightarrow> string \<Rightarrow> string \<Rightarrow> 's host \<Rightarrow> 's host" where
  "applyWorkflowMailbox os vm raw h =
     (case workflow_datagram raw of None \<Rightarrow> h | Some (off, chunk) \<Rightarrow> applyWorkflowChunk os vm off chunk h)"

definition ApplyMailboxMessage :: "os \<Rightarrow> string \<Rightarrow> string \<Rightarrow> 's host \<Rightarrow> 's host" where
  "ApplyMailboxMessage os vm raw h =
     (if os_root os = '''' \<or> vm = '''' then h
      else if has_prefix raw ''wf '' then applyWorkflowMailbox os vm raw h
      else
        let msg = trim_space raw in
        if msg = '''' then h
        else if msg = ''ready'' \<or> has_prefix msg ''ready'' then snd (guest_put os vm ''agent.ready'' (msg @ [CHR 0x0A]) h)
        else if has_prefix msg ''exit'' then
          (let code0 = trim_space (trim_prefix msg ''exit''); code = (if code0 = '''' then ''0'' else code0)
           in snd (guest_put os vm ''runner.exit'' (code @ [CHR 0x0A]) h))
        else snd (guest_mkdir os vm h))"

text \<open>The traffic of a guest: datagrams, and connections to the log stream with the bytes they carry.\<close>

datatype traffic = Datagram string | LogStream string

primrec receive :: "os \<Rightarrow> string \<Rightarrow> traffic \<Rightarrow> 's host \<Rightarrow> 's host" where
  "receive os vm (Datagram raw) h = ApplyMailboxMessage os vm raw h"
| "receive os vm (LogStream bs) h = fold (\<lambda>(off, chunk). applyWorkflowChunk os vm off chunk) (readLogStream bs) h"

definition receive_all :: "os \<Rightarrow> string \<Rightarrow> traffic list \<Rightarrow> 's host \<Rightarrow> 's host" where
  "receive_all os vm ts h = fold (receive os vm) ts h"

text \<open>Only files of the box of \<open>vm\<close> differ.\<close>

definition box_only :: "string \<Rightarrow> 's host \<Rightarrow> 's host \<Rightarrow> bool" where
  "box_only vm h h' \<longleftrightarrow>
     (\<forall>n. n \<noteq> vm \<longrightarrow> entry n h' = entry n h) \<and> hs_net h' = hs_net h \<and> hs_procs h' = hs_procs h \<and> hs_waits h' = hs_waits h \<and>
     (case entry vm h of
        None \<Rightarrow> (case entry vm h' of None \<Rightarrow> True
                 | Some e \<Rightarrow> (case e of None \<Rightarrow> False
                    | Some i \<Rightarrow> in_meta i = NoMeta \<and> (\<forall>q. map_of (in_files i) q \<noteq> None \<longrightarrow> has_prefix q ''guest/'')))
      | Some None \<Rightarrow> entry vm h' = Some None
      | Some (Some i) \<Rightarrow>
          (case entry vm h' of
             Some (Some i') \<Rightarrow> in_meta i' = in_meta i \<and>
               (\<forall>q. \<not> has_prefix q ''guest/'' \<longrightarrow> map_of (in_files i') q = map_of (in_files i) q)
           | _ \<Rightarrow> False))"

lemma box_only_refl [simp]: "box_only vm h h"
  by (simp add: box_only_def split: option.splits)

lemma box_only_trans: "box_only vm h h1 \<Longrightarrow> box_only vm h1 h2 \<Longrightarrow> box_only vm h h2"
  by (auto simp: box_only_def split: option.splits)

lemma guest_mkdir_box: "guest_mkdir os vm h = (e, h') \<Longrightarrow> box_only vm h h'"
  by (auto simp: guest_mkdir_def box_only_def split: option.splits)

lemma box_path [simp]:
  "has_prefix (CHR ''g'' # CHR ''u'' # CHR ''e'' # CHR ''s'' # CHR ''t'' # CHR ''/'' # name) ''guest/''"
  by (simp add: has_prefix_def)

lemma put_file_box: "has_prefix q ''guest/'' \<Longrightarrow> box_only vm h (put_file vm q bytes h)"
  by (auto simp: put_file_def box_only_def write_file_def update_conv' split: option.splits)

lemma guest_put_box: "guest_put os vm name bytes h = (e, h') \<Longrightarrow> box_only vm h h'"
  using box_only_trans [OF guest_mkdir_box put_file_box [of "''guest/'' @ name"]]
  by (auto simp: guest_put_def guest_mkdir_box split: prod.splits option.splits)

lemma snd_box: "(\<And>e h'. f = (e, h') \<Longrightarrow> box_only vm h h') \<Longrightarrow> box_only vm h (snd f)"
  by (cases f) auto

lemma chunk_box: "box_only vm h (applyWorkflowChunk os vm off chunk h)"
  using box_only_trans [OF guest_mkdir_box put_file_box [of "''guest/workflow.log''"]]
  by (auto simp: applyWorkflowChunk_def guest_mkdir_box split: prod.splits option.splits)

lemma message_box: "box_only vm h (ApplyMailboxMessage os vm raw h)"
  by (auto simp: ApplyMailboxMessage_def applyWorkflowMailbox_def Let_def chunk_box
      intro!: snd_box intro: guest_put_box guest_mkdir_box split: option.splits)

lemma fold_box: "(\<And>x h. box_only vm h (f x h)) \<Longrightarrow> box_only vm h (fold f xs h)"
  by (induction xs arbitrary: h) (auto intro: box_only_trans)

lemma receive_box: "box_only vm h (receive os vm t h)"
  by (cases t) (auto simp: message_box intro!: fold_box chunk_box split: prod.splits)

text \<open>
  A guest's messages reach its own box only: whatever it sends, of datagrams and connections, in any number,
  every other instance, its own metadata and disks, the host's network and processes stay as they are.
\<close>

theorem traffic_stays_in_box: "box_only vm h (receive_all os vm ts h)"
  unfolding receive_all_def by (rule fold_box) (rule receive_box)

lemma guest_file_mkdir: "guest_mkdir os vm h = (e, h') \<Longrightarrow> guest_file vm name h' = guest_file vm name h"
  by (auto simp: guest_mkdir_def guest_file_def split: option.splits)

lemma guest_file_put_file [simp]:
  "guest_file vm name (put_file vm (CHR ''g'' # CHR ''u'' # CHR ''e'' # CHR ''s'' # CHR ''t'' # CHR ''/'' # k) bytes h) =
     (if name = k \<and> (\<exists>i. entry vm h = Some (Some i)) then Some bytes else guest_file vm name h)"
  by (auto simp: put_file_def guest_file_def write_file_def update_conv' split: option.splits)

lemma guest_put_file:
  "guest_put os vm k bytes h = (e, h') \<Longrightarrow> name \<noteq> k \<Longrightarrow> guest_file vm name h' = guest_file vm name h"
  using guest_file_mkdir [of os vm h _ _ name] by (auto simp: guest_put_def split: prod.splits option.splits)

lemma chunk_keeps_log:
  assumes "slice_of full (off, chunk)" and "prefix_file full (guest_file vm ''workflow.log'' h)"
  shows "prefix_file full (guest_file vm ''workflow.log'' (applyWorkflowChunk os vm off chunk h))"
proof -
  obtain e h1 where m: "guest_mkdir os vm h = (e, h1)" by fastforce
  have p: "prefix_file full (guest_file vm ''workflow.log'' h1)" using assms(2) guest_file_mkdir [OF m] by simp
  have c: "prefix_file full (chunk_file off chunk (guest_file vm ''workflow.log'' h1))"
    by (rule chunk_keeps_prefix [OF assms(1) p])
  show ?thesis using m p c by (auto simp: applyWorkflowChunk_def prefix_file_def split: option.splits)
qed

text \<open>The chunks that a guest's traffic carries.\<close>

primrec carried :: "traffic \<Rightarrow> (int \<times> string) list" where
  "carried (Datagram raw) = (if has_prefix raw ''wf '' then (case workflow_datagram raw of None \<Rightarrow> [] | Some c \<Rightarrow> [c]) else [])"
| "carried (LogStream bs) = readLogStream bs"

lemma receive_keeps_log:
  assumes "list_all (slice_of full) (carried t)" and "prefix_file full (guest_file vm ''workflow.log'' h)"
  shows "prefix_file full (guest_file vm ''workflow.log'' (receive os vm t h))"
proof (cases t)
  case (LogStream bs)
  have "list_all (slice_of full) cs \<Longrightarrow> prefix_file full (guest_file vm ''workflow.log'' g) \<Longrightarrow>
      prefix_file full (guest_file vm ''workflow.log'' (fold (\<lambda>(off, chunk). applyWorkflowChunk os vm off chunk) cs g))"
    for cs g
    by (induction cs arbitrary: g) (auto simp: chunk_keeps_log)
  then show ?thesis using assms LogStream by simp
next
  case (Datagram raw)
  have put: "guest_file vm ''workflow.log'' (snd (guest_put os vm k b h)) = guest_file vm ''workflow.log'' h"
    if "k \<noteq> ''workflow.log''" for k b
    using that guest_put_file [of os vm k b h] by (cases "guest_put os vm k b h") auto
  have mk: "guest_file vm ''workflow.log'' (snd (guest_mkdir os vm h)) = guest_file vm ''workflow.log'' h"
    by (cases "guest_mkdir os vm h") (simp add: guest_file_mkdir)
  show ?thesis
    using assms Datagram
    by (auto simp: ApplyMailboxMessage_def applyWorkflowMailbox_def Let_def put mk chunk_keeps_log split: option.splits)
qed

lemma receive_all_keeps_log:
  "(\<And>t. t \<in> set ts \<Longrightarrow> list_all (slice_of full) (carried t)) \<Longrightarrow> prefix_file full (guest_file vm ''workflow.log'' h) \<Longrightarrow>
    prefix_file full (guest_file vm ''workflow.log'' (receive_all os vm ts h))"
  unfolding receive_all_def by (induction ts arbitrary: h) (auto simp: receive_keeps_log)


definition box_os :: os where
  "box_os = \<lparr> os_root = ''/var/lib/temperci'', os_io = (\<lambda>vm p. None), os_stat = (\<lambda>vm. None), os_rm = (\<lambda>vm. None),
     os_list = None, os_kill = (\<lambda>p. True) \<rparr>"

definition box_host :: "files \<Rightarrow> unit host" where
  "box_host fs = \<lparr> hs_dirs = [(''vm-1'', Some \<lparr> in_meta = NoMeta, in_files = fs \<rparr>)], hs_net = (), hs_procs = [], hs_waits = [] \<rparr>"

definition box_traffic :: "traffic list" where
  "box_traffic = [Datagram ''ready'', Datagram ''wf 0 6 YWI='', LogStream (''wf 4 2'' @ [CHR 0x0A] @ ''efwf 2 2'' @ [CHR 0x0A] @ ''cd'')]"

lemma box_carried:
  "carried (Datagram ''ready'') = []" "carried (Datagram ''wf 0 6 YWI='') = [(0, ''ab'')]"
  "carried (LogStream (''wf 4 2'' @ [CHR 0x0A] @ ''efwf 2 2'' @ [CHR 0x0A] @ ''cd'')) = [(4, ''ef''), (2, ''cd'')]"
  by code_simp+


lemma abort_is_noticed_witness:
  "\<exists>h'. runnerWaitStatus box_os second ''vm-1'' (box_host [(''guest/runner.log'', ''Out of memory'')]) = ((97, True, None), h')"
proof -
  have "guest_file ''vm-1'' ''runner.exit'' (box_host [(''guest/runner.log'', ''Out of memory'')]) = None"
    "guest_file ''vm-1'' ''runner.log'' (box_host [(''guest/runner.log'', ''Out of memory'')]) = Some ''Out of memory''"
    "runnerLogIndicatesAbort ''Out of memory''"
    by code_simp+
  from abort_is_noticed [of box_os "''vm-1''", OF _ _ this] show ?thesis by (auto simp: box_os_def)
qed

lemma blank_exit_hides_abort_witness:
  "runnerWaitStatus box_os (3600 * second) ''vm-1''
     (box_host [(''guest/runner.exit'', [CHR 0x0A]), (''guest/runner.log'', ''Out of memory'')]) =
   ((0, False, None), box_host [(''guest/runner.exit'', [CHR 0x0A]), (''guest/runner.log'', ''Out of memory'')])"
proof -
  have "guest_file ''vm-1'' ''runner.exit'' (box_host [(''guest/runner.exit'', [CHR 0x0A]), (''guest/runner.log'', ''Out of memory'')]) =
      Some [CHR 0x0A]" "trim_space [CHR 0x0A] = ''''"
    by code_simp+
  then show ?thesis by (rule blank_exit_hides_abort)
qed

end
