(* ===== verification/Paths.thy ===== *)
theory Paths
  imports NetText
begin

text \<open>
  The functions of package \<open>path/filepath\<close> the program uses to put paths together, on slash-separated paths.
\<close>

definition clean_step :: "bool \<Rightarrow> string list \<Rightarrow> string \<Rightarrow> string list" where
  "clean_step rooted out seg =
     (if seg = '''' \<or> seg = ''.'' then out
      else if seg = ''..'' then
        (if out \<noteq> [] \<and> last out \<noteq> ''..'' then butlast out else if rooted then out else out @ [seg])
      else out @ [seg])"

definition filepath_Clean :: "string \<Rightarrow> string" where
  "filepath_Clean p =
     (let rooted = has_prefix p ''/'';
          out = foldl (clean_step rooted) [] (split_on (CHR ''/'') p);
          body = join_on (CHR ''/'') out
      in if rooted then CHR ''/'' # body else if out = [] then ''.'' else body)"

text \<open>\<open>filepath.Join\<close> skips empty elements; \<open>filepath.Dir\<close> keeps what is before the last slash.\<close>

definition filepath_Join :: "string list \<Rightarrow> string" where
  "filepath_Join ps =
     (let qs = filter (\<lambda>p. p \<noteq> '''') ps in if qs = [] then '''' else filepath_Clean (join_on (CHR ''/'') qs))"

definition filepath_Dir :: "string \<Rightarrow> string" where
  "filepath_Dir p = filepath_Clean (case last_index p ''/'' of None \<Rightarrow> '''' | Some i \<Rightarrow> take (Suc i) p)"

lemma clean_step_nonempty: "'''' \<notin> set out \<Longrightarrow> '''' \<notin> set (clean_step r out seg)"
  by (simp add: clean_step_def) (meson in_set_butlastD)

lemma clean_steps_nonempty: "'''' \<notin> set out \<Longrightarrow> '''' \<notin> set (foldl (clean_step r) out segs)"
  by (induction segs arbitrary: out) (simp_all add: clean_step_nonempty)

lemma clean_nonempty: "filepath_Clean p \<noteq> ''''"
proof -
  let ?out = "foldl (clean_step (has_prefix p ''/'')) [] (split_on (CHR ''/'') p)"
  have "'''' \<notin> set ?out" by (rule clean_steps_nonempty) simp
  then have "?out \<noteq> [] \<Longrightarrow> join_on (CHR ''/'') ?out \<noteq> ''''"
    by (cases ?out) (auto simp: join_on_def)
  then show ?thesis by (auto simp: filepath_Clean_def Let_def)
qed

lemma join_nonempty: "p \<in> set ps \<Longrightarrow> p \<noteq> '''' \<Longrightarrow> filepath_Join ps \<noteq> ''''"
  by (auto simp: filepath_Join_def Let_def clean_nonempty filter_empty_conv)

end
