(* ===== verification/GuestRunner.thy ===== *)
theory GuestRunner
  imports GuestBox Paths
begin

text \<open>
  Starting the runner of a guest and waiting for it: the two \<open>GuestExec\<close> of \<open>internal/agent/guest.go\<close> (files in the
  box only, and with the inject drive), \<open>InjectRunner\<close> of \<open>runner.go\<close> on any of them, the mounted drive of
  \<open>vmm/firecracker/inject.go\<close>, and the logs collected afterwards (\<open>joblogs.go\<close>).
\<close>

section \<open>Where the files of a guest are\<close>

definition GuestDir :: "os \<Rightarrow> string \<Rightarrow> string" where
  "GuestDir os vm = InstanceDir os vm @ ''/guest''"

text \<open>\<open>filepath.Dir\<close> of a path within the instance.\<close>

definition parent :: "string \<Rightarrow> string" where
  "parent p = (case last_index p ''/'' of None \<Rightarrow> '''' | Some i \<Rightarrow> take i p)"

section \<open>Staging files\<close>

datatype guest_error =
  GuestContext string | GuestBadID | GuestBadPath string | GuestEscapes | GuestIO string | GuestNil | NoJIT
| WriteJIT guest_error | WriteCA guest_error | ExecRunner guest_error | SyncInject string

text \<open>Where a path that passes the checks is written, and the file of the instance that is.\<close>

definition full_path :: "os \<Rightarrow> string \<Rightarrow> string \<Rightarrow> string" where
  "full_path os vm rel = filepath_Clean (GuestDir os vm @ ''/'' @ rel)"

definition box_file :: "os \<Rightarrow> string \<Rightarrow> string \<Rightarrow> string" where
  "box_file os vm path = ''guest/'' @ drop (length (GuestDir os vm) + 1) (full_path os vm (filepath_Clean path))"

text \<open>\<open>ctx\<close> is the error of the context, if it is done.\<close>

definition file_WriteFile ::
  "os \<Rightarrow> string option \<Rightarrow> string \<Rightarrow> string \<Rightarrow> string \<Rightarrow> 's host \<Rightarrow> guest_error option \<times> 's host" where
  "file_WriteFile os ctx vm path bytes h =
     (case ctx of
        Some e \<Rightarrow> (Some (GuestContext e), h)
      | None \<Rightarrow>
          if \<not> valid_id vm then (Some GuestBadID, h)
          else
            let rel = filepath_Clean path in
            if rel = ''.'' \<or> rel = ''..'' \<or> has_prefix rel ''..'' \<or> has_prefix rel ''/'' then (Some (GuestBadPath rel), h)
            else case guest_mkdir os vm h of
              (Some e, h1) \<Rightarrow> (Some (GuestIO e), h1)
            | (None, h1) \<Rightarrow>
                (let dir = GuestDir os vm; full = full_path os vm rel; q = box_file os vm path
                 in if \<not> has_prefix full (dir @ ''/'') \<and> full \<noteq> dir then (Some GuestEscapes, h1)
                    else case os_io os vm (parent q) of
                      Some e \<Rightarrow> (Some (GuestIO e), h1)
                    | None \<Rightarrow>
                        (case os_io os vm q of
                           Some e \<Rightarrow> (Some (GuestIO e), h1) | None \<Rightarrow> (None, put_file vm q bytes h1))))"


text \<open>\<open>Exec\<close> adds the command to \<open>exec.log\<close> and marks the start, at a time given as text.\<close>

definition file_Exec ::
  "os \<Rightarrow> string option \<Rightarrow> string \<Rightarrow> string \<Rightarrow> string \<Rightarrow> string list \<Rightarrow> 's host \<Rightarrow> guest_error option \<times> 's host" where
  "file_Exec os ctx now vm name args h =
     (case ctx of
        Some e \<Rightarrow> (Some (GuestContext e), h)
      | None \<Rightarrow>
          if \<not> valid_id vm then (Some GuestBadID, h)
          else case guest_mkdir os vm h of
            (Some e, h1) \<Rightarrow> (Some (GuestIO e), h1)
          | (None, h1) \<Rightarrow>
              (let line = name @ (if args \<noteq> [] then '' '' @ join_on (CHR '' '') args else '''') @ [CHR 0x0A];
                   old = (case guest_file vm ''exec.log'' h1 of None \<Rightarrow> '''' | Some t \<Rightarrow> t);
                   marker = ''name='' @ name @ [CHR 0x0A] @ ''time='' @ now @ [CHR 0x0A]
               in case os_io os vm ''guest/exec.log'' of
                    Some e \<Rightarrow> (Some (GuestIO e), h1)
                  | None \<Rightarrow>
                      (let h2 = put_file vm ''guest/exec.log'' (old @ line) h1 in
                       case os_io os vm ''guest/runner.started'' of
                         Some e \<Rightarrow> (Some (GuestIO e), h2)
                       | None \<Rightarrow> (None, put_file vm ''guest/runner.started'' marker h2))))"

section \<open>The inject drive\<close>

text \<open>
  The ext4 image of an instance, as far as the code sees it: mounting it fails with an error, or shows the files
  of its root directory. It is in the state when the host has a drive for the instance.
\<close>

record 's boxed =
  bx_host :: "'s host"
  bx_drive :: files

record drive_env =
  dv_mount :: "string option"
  dv_write :: "string \<Rightarrow> string option"

text \<open>The files at the top of the box, in the order of their names.\<close>

definition staged :: "string \<Rightarrow> 's host \<Rightarrow> (string \<times> string) list" where
  "staged vm h =
     (case entry vm h of
        Some (Some i) \<Rightarrow>
          map (\<lambda>n. (n, case map_of (in_files i) (''guest/'' @ n) of None \<Rightarrow> '''' | Some t \<Rightarrow> t))
            (sort_texts (map (drop 6) (filter (\<lambda>q. has_prefix q ''guest/'' \<and> CHR ''/'' \<notin> set (drop 6 q)) (map fst (in_files i)))))
      | _ \<Rightarrow> [])"


fun copy_staged :: "(string \<Rightarrow> string option) \<Rightarrow> (string \<times> string) list \<Rightarrow> files \<Rightarrow> string option \<times> files" where
  "copy_staged io [] d = (None, d)"
| "copy_staged io ((n, t) # fs) d =
     (case io n of Some e \<Rightarrow> (Some e, d) | None \<Rightarrow> copy_staged io fs (write_file n t d))"

definition SyncGuestDirToInjectDrive ::
  "os \<Rightarrow> drive_env \<Rightarrow> string \<Rightarrow> 's boxed \<Rightarrow> string option \<times> 's boxed" where
  "SyncGuestDirToInjectDrive os dv vm s =
     (if (case entry vm (bx_host s) of Some (Some i) \<Rightarrow> map_of (in_files i) ''inject.ext4'' = None | _ \<Rightarrow> True)
      then (Some ''inject drive'', s)
      else case guest_mkdir os vm (bx_host s) of
        (Some e, h1) \<Rightarrow> (Some e, s\<lparr> bx_host := h1 \<rparr>)
      | (None, h1) \<Rightarrow>
          (case dv_mount dv of
             Some e \<Rightarrow> (Some e, s\<lparr> bx_host := h1 \<rparr>)
           | None \<Rightarrow>
               (case copy_staged (dv_write dv) (staged vm h1) (bx_drive s) of
                  (err, d) \<Rightarrow> (err, \<lparr> bx_host = h1, bx_drive = d \<rparr>))))"

definition ReadInjectFile :: "drive_env \<Rightarrow> string \<Rightarrow> 's boxed \<Rightarrow> string option" where
  "ReadInjectFile dv name s = (if dv_mount dv \<noteq> None then None else map_of (bx_drive s) name)"

fun copy_named :: "os \<Rightarrow> string \<Rightarrow> files \<Rightarrow> string list \<Rightarrow> 's host \<Rightarrow> files \<times> 's host" where
  "copy_named os vm d [] h = ([], h)"
| "copy_named os vm d (n # ns) h =
     (if n = '''' \<or> n = ''.'' \<or> n = ''..'' \<or> contains n ''/'' then copy_named os vm d ns h
      else case map_of d n of
        None \<Rightarrow> copy_named os vm d ns h
      | Some b \<Rightarrow>
          if b = '''' \<or> os_io os vm (''guest/'' @ n) \<noteq> None then copy_named os vm d ns h
          else (case copy_named os vm d ns (put_file vm (''guest/'' @ n) b h) of
                  (out, h1) \<Rightarrow> ((n, b) # out, h1)))"

text \<open>\<open>CopyInjectFiles\<close> into the box: \<open>None\<close> when the drive cannot be mounted.\<close>

definition CopyInjectFiles :: "os \<Rightarrow> drive_env \<Rightarrow> string \<Rightarrow> string list \<Rightarrow> 's boxed \<Rightarrow> files option \<times> 's boxed" where
  "CopyInjectFiles os dv vm names s =
     (if names = [] then (Some [], s)
      else if dv_mount dv \<noteq> None then (None, s)
      else case guest_mkdir os vm (bx_host s) of
        (Some e, h1) \<Rightarrow> (None, s\<lparr> bx_host := h1 \<rparr>)
      | (None, h1) \<Rightarrow>
          (case copy_named os vm (bx_drive s) names h1 of (out, h2) \<Rightarrow> (Some out, s\<lparr> bx_host := h2 \<rparr>)))"

section \<open>The two ways to a guest\<close>

record 'h guest_exec =
  ge_write :: "string \<Rightarrow> string \<Rightarrow> string \<Rightarrow> 'h \<Rightarrow> guest_error option \<times> 'h"
  ge_exec :: "string \<Rightarrow> string \<Rightarrow> string list \<Rightarrow> 'h \<Rightarrow> guest_error option \<times> 'h"

definition FileGuestExec :: "os \<Rightarrow> string option \<Rightarrow> string \<Rightarrow> 's host guest_exec" where
  "FileGuestExec os ctx now = \<lparr> ge_write = file_WriteFile os ctx, ge_exec = file_Exec os ctx now \<rparr>"

text \<open>The context, the time and the drive are those of the call; \<open>inner\<close> tells whether \<open>Inner\<close> is set.\<close>

definition firecracker_WriteFile ::
  "bool \<Rightarrow> os \<Rightarrow> string option \<Rightarrow> string \<Rightarrow> string \<Rightarrow> string \<Rightarrow> 's boxed \<Rightarrow> guest_error option \<times> 's boxed" where
  "firecracker_WriteFile inner os ctx vm path bytes s =
     (if \<not> inner then (Some GuestNil, s)
      else case file_WriteFile os ctx vm path bytes (bx_host s) of (e, h) \<Rightarrow> (e, s\<lparr> bx_host := h \<rparr>))"

definition firecracker_Exec ::
  "bool \<Rightarrow> os \<Rightarrow> drive_env \<Rightarrow> string option \<Rightarrow> string \<Rightarrow> string \<Rightarrow> string \<Rightarrow> string list \<Rightarrow> 's boxed \<Rightarrow>
   guest_error option \<times> 's boxed" where
  "firecracker_Exec inner os dv ctx now vm name args s =
     (if \<not> inner then (Some GuestNil, s)
      else case file_Exec os ctx now vm name args (bx_host s) of
        (Some e, h) \<Rightarrow> (Some e, s\<lparr> bx_host := h \<rparr>)
      | (None, h) \<Rightarrow>
          (case SyncGuestDirToInjectDrive os dv vm (s\<lparr> bx_host := h \<rparr>) of
             (Some e, s1) \<Rightarrow> (Some (SyncInject e), s1) | (None, s1) \<Rightarrow> (None, s1)))"

definition FirecrackerGuestExec :: "bool \<Rightarrow> os \<Rightarrow> drive_env \<Rightarrow> string option \<Rightarrow> string \<Rightarrow> 's boxed guest_exec" where
  "FirecrackerGuestExec inner os dv ctx now =
     \<lparr> ge_write = firecracker_WriteFile inner os ctx, ge_exec = firecracker_Exec inner os dv ctx now \<rparr>"

section \<open>Injecting a job\<close>

record InjectRunner =
  ir_runner_path :: string
  ir_jit_path :: string
  ir_ca :: string

text \<open>The files beside the secret: \<open>job.meta\<close>, whose error is dropped, and the certificate, if there is one.\<close>

definition stage_public :: "InjectRunner \<Rightarrow> 'h guest_exec \<Rightarrow> string \<Rightarrow> JobPayload \<Rightarrow> 'h \<Rightarrow> guest_error option \<times> 'h" where
  "stage_public r g vm job h =
     (let meta = ''job_id='' @ jp_job_id job @ [CHR 0x0A] @ ''runner_name='' @ jp_runner_name job @ [CHR 0x0A];
          h1 = snd (ge_write g vm ''job.meta'' meta h)
      in if ir_ca r = '''' then (None, h1) else ge_write g vm ''cache-ca.crt'' (ir_ca r) h1)"

text \<open>The start: the fields of the line that is logged, the command noted and run.\<close>

definition run_command ::
  "InjectRunner \<Rightarrow> 'h guest_exec \<Rightarrow> string \<Rightarrow> JobPayload \<Rightarrow> 'h \<Rightarrow>
   guest_error option \<times> (string \<times> string) list \<times> 'h" where
  "run_command r g vm job h =
     (let runner = (if ir_runner_path r = '''' then ''/opt/actions-runner/run.sh'' else ir_runner_path r);
          line = [(''vm_id'', vm), (''job_id'', jp_job_id job), (''jit_present'', ''true''),
                  (''jit_bytes'', itoa (int (length (jp_jit job)))), (''runner_path'', runner)];
          h1 = snd (ge_write g vm ''runner.cmd'' (runner @ '' --jitconfig <encoded-jit-string>'' @ [CHR 0x0A]) h)
      in case ge_exec g vm runner [''--jitconfig'', ''<encoded-jit-string>''] h1 of
           (e, h2) \<Rightarrow> (map_option ExecRunner e, line, h2))"

definition StartRunner ::
  "InjectRunner \<Rightarrow> 'h guest_exec option \<Rightarrow> string \<Rightarrow> JobPayload \<Rightarrow> 'h \<Rightarrow>
   guest_error option \<times> (string \<times> string) list \<times> 'h" where
  "StartRunner r guest vm job h =
     (case guest of
        None \<Rightarrow> (Some GuestNil, [], h)
      | Some g \<Rightarrow>
          if jp_jit job = '''' then (Some NoJIT, [], h)
          else case ge_write g vm (if ir_jit_path r = '''' then ''jitconfig'' else ir_jit_path r) (jp_jit job) h of
            (Some e, h1) \<Rightarrow> (Some (WriteJIT e), [], h1)
          | (None, h1) \<Rightarrow>
              (case stage_public r g vm job h1 of
                 (Some e, h2) \<Rightarrow> (Some (WriteCA e), [], h2)
               | (None, h2) \<Rightarrow> run_command r g vm job h2))"

section \<open>Staged files stay in the box\<close>

lemma split_join:
  "ws \<noteq> [] \<Longrightarrow> \<forall>w \<in> set ws. c \<notin> set w \<Longrightarrow> split_on c (join_on c ws) = ws"
proof (induction ws)
  case (Cons w ws)
  show ?case
  proof (cases ws)
    case Nil
    then show ?thesis using Cons(3) by (simp add: join_on_def split_on_single)
  next
    case (Cons x xs)
    then have "join_on c (w # ws) = w @ c # join_on c ws" by (simp add: join_on_def)
    then show ?thesis using Cons Cons.IH Cons.prems by (simp add: split_on_append)
  qed
qed simp

lemma join_append: "as \<noteq> [] \<Longrightarrow> bs \<noteq> [] \<Longrightarrow> join_on c (as @ bs) = join_on c as @ c # join_on c bs"
  by (cases as; cases bs) (simp_all add: join_on_def)

definition plain_segs :: "string list \<Rightarrow> bool" where
  "plain_segs ws \<longleftrightarrow> list_all (\<lambda>w. plain_component w \<and> CHR ''/'' \<notin> set w) ws"

lemma clean_plain: "list_all plain_component ws \<Longrightarrow> foldl (clean_step r) out ws = out @ ws"
  by (induction ws arbitrary: out) (auto simp: clean_step_def plain_component_def)

lemma clean_absolute:
  assumes "plain_segs ws" and "ws \<noteq> []"
  shows "filepath_Clean (CHR ''/'' # join_on (CHR ''/'') ws) = CHR ''/'' # join_on (CHR ''/'') ws"
proof -
  have s: "split_on (CHR ''/'') (CHR ''/'' # join_on (CHR ''/'') ws) = [] # ws"
    using split_join [of ws "CHR ''/''"] assms split_on_append [of "CHR ''/''" "[]"]
    by (simp add: plain_segs_def list_all_iff)
  have "list_all plain_component ws" using assms(1) by (simp add: plain_segs_def list_all_iff)
  then have "foldl (clean_step True) [] ([] # ws) = ws" using clean_plain [of ws True "[]"] by (simp add: clean_step_def)
  then show ?thesis using s by (simp add: filepath_Clean_def Let_def has_prefix_def)
qed

text \<open>What is left of a relative path: steps up, then names.\<close>

definition ups_then_names :: "string list \<Rightarrow> bool" where
  "ups_then_names ws \<longleftrightarrow> (\<exists>us ns. ws = us @ ns \<and> list_all (\<lambda>u. u = ''..'') us \<and> plain_segs ns)"

lemma clean_step_shape:
  assumes "ups_then_names out" and "CHR ''/'' \<notin> set w"
  shows "ups_then_names (clean_step False out w)"
proof -
  obtain us ns where o: "out = us @ ns" "list_all (\<lambda>u. u = ''..'') us" "plain_segs ns"
    using assms(1) by (auto simp: ups_then_names_def)
  consider "w = '''' \<or> w = ''.''" | "w = ''..''" | "plain_component w" by (auto simp: plain_component_def)
  then show ?thesis
  proof cases
    case 1
    then show ?thesis using assms(1) by (auto simp: clean_step_def)
  next
    case 3
    then have "clean_step False out w = us @ (ns @ [w])" using o(1) by (simp add: clean_step_def plain_component_def)
    then show ?thesis using o 3 assms(2) unfolding ups_then_names_def
      by (intro exI [of _ us] exI [of _ "ns @ [w]"]) (simp add: plain_segs_def)
  next
    case 2
    show ?thesis
    proof (cases ns rule: rev_cases)
      case Nil
      then have "clean_step False out w = (us @ [w]) @ []"
        using o 2 by (cases us rule: rev_cases) (auto simp: clean_step_def)
      then show ?thesis using o 2 Nil unfolding ups_then_names_def
        by (intro exI [of _ "us @ [w]"] exI [of _ "[]"]) (simp add: plain_segs_def)
    next
      case (snoc ms m)
      then have "m \<noteq> ''..''" using o(3) by (auto simp: plain_segs_def plain_component_def)
      then have "clean_step False out w = us @ ms" using o(1) 2 snoc by (simp add: clean_step_def butlast_append)
      then show ?thesis using o snoc unfolding ups_then_names_def
        by (intro exI [of _ us] exI [of _ ms]) (simp add: plain_segs_def)
    qed
  qed
qed

lemma clean_relative:
  assumes "\<not> has_prefix (filepath_Clean p) ''/''" and "\<not> has_prefix (filepath_Clean p) ''..''" and "filepath_Clean p \<noteq> ''.''"
  obtains ws where "plain_segs ws" "ws \<noteq> []" "filepath_Clean p = join_on (CHR ''/'') ws"
proof -
  have r: "\<not> has_prefix p ''/''" using assms(1) by (auto simp: filepath_Clean_def Let_def has_prefix_def)
  let ?out = "foldl (clean_step False) [] (split_on (CHR ''/'') p)"
  have out: "?out \<noteq> []" "filepath_Clean p = join_on (CHR ''/'') ?out" using r assms(3) by (auto simp: filepath_Clean_def Let_def)
  have "ups_then_names out \<Longrightarrow> \<forall>w \<in> set ws. CHR ''/'' \<notin> set w \<Longrightarrow> ups_then_names (foldl (clean_step False) out ws)" for out ws
    by (induction ws arbitrary: out) (auto simp: clean_step_shape)
  moreover have "ups_then_names []" by (simp add: ups_then_names_def plain_segs_def)
  ultimately have "ups_then_names ?out" using split_on_no_sep by blast
  then obtain us ns where u: "?out = us @ ns" "list_all (\<lambda>u. u = ''..'') us" "plain_segs ns"
    by (auto simp: ups_then_names_def)
  have "us = []"
  proof (rule ccontr)
    assume "us \<noteq> []"
    then obtain vs where "us = ''..'' # vs" using u(2) by (cases us) auto
    then have "has_prefix (filepath_Clean p) ''..''" using out(2) u(1) by (simp add: join_on_def has_prefix_def)
    then show False using assms(2) by simp
  qed
  then show ?thesis using that [of ?out] out u by simp
qed

lemma valid_plain: "valid_id vm \<Longrightarrow> plain_segs [vm]"
  by (auto simp: valid_id_def plain_segs_def plain_component_def id_char_def list_all_iff)

text \<open>A data root as \<open>filepath.Join\<close> leaves it.\<close>

definition clean_root :: "os \<Rightarrow> bool" where
  "clean_root os \<longleftrightarrow> has_prefix (os_root os) ''/'' \<and> plain_segs (tl (split_on (CHR ''/'') (os_root os))) \<and>
     tl (split_on (CHR ''/'') (os_root os)) \<noteq> []"

lemma clean_root_segs:
  assumes "clean_root os"
  obtains ws where "plain_segs ws" "ws \<noteq> []" "os_root os = CHR ''/'' # join_on (CHR ''/'') ws"
proof -
  obtain r where r: "os_root os = CHR ''/'' # r" using assms by (cases "os_root os") (auto simp: clean_root_def has_prefix_def)
  have s: "split_on (CHR ''/'') (os_root os) = [] # split_on (CHR ''/'') r"
    using r split_on_append [of "CHR ''/''" "[]" r] by simp
  then show ?thesis using that [of "split_on (CHR ''/'') r"] assms r join_split [of "CHR ''/''" r] by (simp add: clean_root_def)
qed

lemma guest_dir_segs:
  assumes "clean_root os" and "valid_id vm"
  obtains ws where "plain_segs ws" "ws \<noteq> []" "GuestDir os vm = CHR ''/'' # join_on (CHR ''/'') ws"
proof -
  obtain rs where r: "plain_segs rs" "rs \<noteq> []" "os_root os = CHR ''/'' # join_on (CHR ''/'') rs"
    by (rule clean_root_segs [OF assms(1)])
  have "join_on (CHR ''/'') (rs @ [''instances'', vm, ''guest'']) =
      join_on (CHR ''/'') rs @ ''/instances/'' @ vm @ ''/guest''"
    by (simp add: join_append r(2)) (simp add: join_on_def)
  moreover have "plain_segs (rs @ [''instances'', vm, ''guest''])"
    using r(1) valid_plain [OF assms(2)] by (auto simp: plain_segs_def plain_component_def)
  ultimately show ?thesis using that [of "rs @ [''instances'', vm, ''guest'']"] r(3) by (simp add: GuestDir_def InstanceDir_def)
qed

lemma full_path_inside:
  assumes "clean_root os" and "valid_id vm" and "plain_segs ws" and "ws \<noteq> []"
  shows "full_path os vm (join_on (CHR ''/'') ws) = GuestDir os vm @ ''/'' @ join_on (CHR ''/'') ws"
proof -
  obtain gs where g: "plain_segs gs" "gs \<noteq> []" "GuestDir os vm = CHR ''/'' # join_on (CHR ''/'') gs"
    by (rule guest_dir_segs [OF assms(1,2)])
  have j: "join_on (CHR ''/'') (gs @ ws) = join_on (CHR ''/'') gs @ ''/'' @ join_on (CHR ''/'') ws"
    using join_append [OF g(2) assms(4), of "CHR ''/''"] by simp
  have "plain_segs (gs @ ws)" using g(1) assms(3) by (simp add: plain_segs_def)
  from clean_absolute [OF this] g(2) show ?thesis by (simp add: full_path_def g(3) j)
qed

text \<open>
  C26. Staging a file for a guest cannot leave its box. A path is refused, or it comes down to plain names, and then
  exactly the file of these names under the box is written; and a path that does not start by climbing up is
  only refused for what the file system says.
\<close>

theorem staged_files_stay_in_box:
  assumes "clean_root os" and "file_WriteFile os ctx vm path bytes h = (err, h')"
  shows "box_only vm h h' \<and>
     (err = None \<longrightarrow> (\<exists>ws. ws \<noteq> [] \<and> plain_segs ws \<and> filepath_Clean path = join_on (CHR ''/'') ws \<and>
        guest_file vm (join_on (CHR ''/'') ws) h' = Some bytes)) \<and>
     (ctx = None \<and> valid_id vm \<and> (\<forall>q. os_io os vm q = None) \<and> entry vm h \<noteq> Some None \<and>
        \<not> has_prefix (filepath_Clean path) ''/'' \<and> \<not> has_prefix (filepath_Clean path) ''..'' \<and> filepath_Clean path \<noteq> ''.'' \<longrightarrow>
        err = None)"
    (is "?box \<and> ?written \<and> ?taken")
proof (cases "ctx = None \<and> valid_id vm \<and> \<not> has_prefix (filepath_Clean path) ''/'' \<and> \<not> has_prefix (filepath_Clean path) ''..'' \<and> (filepath_Clean path) \<noteq> ''.''")
  case False
  then show ?thesis using assms(2) by (auto simp: file_WriteFile_def Let_def split: option.splits if_splits)
next
  case True
  obtain ws where ws: "plain_segs ws" "ws \<noteq> []" "(filepath_Clean path) = join_on (CHR ''/'') ws"
    using clean_relative [of path] True by metis
  have full: "full_path os vm (filepath_Clean path) = GuestDir os vm @ ''/'' @ join_on (CHR ''/'') ws"
    using full_path_inside [OF assms(1) _ ws(1,2)] True ws(3) by simp
  then have q: "box_file os vm path = ''guest/'' @ join_on (CHR ''/'') ws" by (simp add: box_file_def)
  have "(filepath_Clean path) \<noteq> ''..''" using True by (auto simp: has_prefix_def)
  then have w: "file_WriteFile os ctx vm path bytes h =
      (case guest_mkdir os vm h of
         (Some e, h1) \<Rightarrow> (Some (GuestIO e), h1)
       | (None, h1) \<Rightarrow>
           (case os_io os vm (parent (''guest/'' @ join_on (CHR ''/'') ws)) of
              Some e \<Rightarrow> (Some (GuestIO e), h1)
            | None \<Rightarrow>
                (case os_io os vm (''guest/'' @ join_on (CHR ''/'') ws) of
                   Some e \<Rightarrow> (Some (GuestIO e), h1)
                 | None \<Rightarrow> (None, put_file vm (''guest/'' @ join_on (CHR ''/'') ws) bytes h1))))"
    using True full q by (auto simp: file_WriteFile_def Let_def has_prefix_def split: prod.splits option.splits)
  have box: "box_only vm h h'"
    using assms(2) box_only_trans [OF guest_mkdir_box put_file_box [of "''guest/'' @ join_on (CHR ''/'') ws"]]
    unfolding w by (auto simp: guest_mkdir_box split: prod.splits option.splits)
  have "guest_file vm (join_on (CHR ''/'') ws) h' = Some bytes" if "err = None"
    using assms(2) that unfolding w
    by (auto simp: guest_mkdir_def split: prod.splits option.splits)
  moreover have "err = None" if "\<forall>q. os_io os vm q = None" "entry vm h \<noteq> Some None"
    using assms(2) that unfolding w by (auto simp: guest_mkdir_def split: prod.splits option.splits)
  ultimately show ?thesis using box ws by auto
qed

lemma staged_files_stay_in_box_witness:
  "\<exists>h'. file_WriteFile box_os None ''vm-1'' ''./x/../jitconfig'' ''s'' (box_host []) = (None, h') \<and>
     guest_file ''vm-1'' ''jitconfig'' h' = Some ''s'' \<and> box_only ''vm-1'' (box_host []) h'"
proof -
  obtain e h' where w: "file_WriteFile box_os None ''vm-1'' ''./x/../jitconfig'' ''s'' (box_host []) = (e, h')" by fastforce
  have r: "clean_root box_os" by code_simp
  have c: "filepath_Clean ''./x/../jitconfig'' = ''jitconfig''" "valid_id ''vm-1''" "entry ''vm-1'' (box_host []) \<noteq> Some None"
    by code_simp+
  have io: "\<forall>q. os_io box_os ''vm-1'' q = None" by (simp add: box_os_def)
  from staged_files_stay_in_box [OF r w] have "e = None" "box_only ''vm-1'' (box_host []) h'"
    "e = None \<longrightarrow> (\<exists>ws. ''jitconfig'' = join_on (CHR ''/'') ws \<and> guest_file ''vm-1'' (join_on (CHR ''/'') ws) h' = Some ''s'')"
    using c io by (auto simp: has_prefix_def)
  then show ?thesis using w by metis
qed

section \<open>Where the secret goes\<close>

text \<open>The same files, but for the contents of one.\<close>

definition same_files :: "string \<Rightarrow> files \<Rightarrow> files \<Rightarrow> bool" where
  "same_files q fs gs \<longleftrightarrow> list_all2 (\<lambda>f g. fst f = fst g \<and> (fst f \<noteq> q \<longrightarrow> snd f = snd g)) fs gs"

lemma same_files_refl [simp]: "same_files q fs fs"
  by (simp add: same_files_def list.rel_refl)

lemma same_files_keys: "same_files q fs gs \<Longrightarrow> map fst fs = map fst gs"
  unfolding same_files_def by (induction rule: list_all2_induct) auto

lemma same_files_lookup:
  "same_files q fs gs \<Longrightarrow> (map_of fs p = None) = (map_of gs p = None) \<and> (p \<noteq> q \<longrightarrow> map_of fs p = map_of gs p)"
  unfolding same_files_def by (induction rule: list_all2_induct) auto

lemma same_files_write:
  "same_files q fs gs \<Longrightarrow> p \<noteq> q \<longrightarrow> a = b \<Longrightarrow> same_files q (write_file p a fs) (write_file p b gs)"
  unfolding same_files_def write_file_def by (induction rule: list_all2_induct) auto

definition same_instance :: "string \<Rightarrow> instance_dir option option \<Rightarrow> instance_dir option option \<Rightarrow> bool" where
  "same_instance q = rel_option (rel_option (\<lambda>i j. in_meta i = in_meta j \<and> same_files q (in_files i) (in_files j)))"

definition same_host :: "string \<Rightarrow> string \<Rightarrow> 's host \<Rightarrow> 's host \<Rightarrow> bool" where
  "same_host vm q h1 h2 \<longleftrightarrow>
     (\<forall>n. n \<noteq> vm \<longrightarrow> entry n h1 = entry n h2) \<and> hs_net h1 = hs_net h2 \<and> hs_procs h1 = hs_procs h2 \<and>
     hs_waits h1 = hs_waits h2 \<and> same_instance q (entry vm h1) (entry vm h2)"

lemma same_host_refl [simp]: "same_host vm q h h"
  by (simp add: same_host_def same_instance_def option.rel_refl)

lemma same_host_put:
  assumes "same_host vm q h1 h2" and "p \<noteq> q \<longrightarrow> a = b"
  shows "same_host vm q (put_file vm p a h1) (put_file vm p b h2)"
proof -
  consider "entry vm h1 = None" "entry vm h2 = None" | "entry vm h1 = Some None" "entry vm h2 = Some None"
    | i j where "entry vm h1 = Some (Some i)" "entry vm h2 = Some (Some j)" "in_meta i = in_meta j"
        "same_files q (in_files i) (in_files j)"
    using assms(1) by (auto simp: same_host_def same_instance_def elim!: option.rel_cases)
  then show ?thesis
  proof cases
    case 3
    then show ?thesis using assms same_files_write [OF 3(4) assms(2)]
      by (auto simp: same_host_def same_instance_def put_file_def)
  qed (use assms(1) in \<open>simp_all add: put_file_def\<close>)
qed

lemma same_host_mkdir:
  assumes "same_host vm q h1 h2"
  shows "fst (guest_mkdir os vm h1) = fst (guest_mkdir os vm h2) \<and>
    same_host vm q (snd (guest_mkdir os vm h1)) (snd (guest_mkdir os vm h2))"
  using assms
  by (auto simp: same_host_def same_instance_def guest_mkdir_def elim!: option.rel_cases split: option.splits)

lemma same_host_file:
  "same_host vm q h1 h2 \<Longrightarrow> ''guest/'' @ name \<noteq> q \<Longrightarrow> guest_file vm name h1 = guest_file vm name h2"
  using same_files_lookup [of q _ _ "''guest/'' @ name"]
  by (auto simp: same_host_def same_instance_def guest_file_def elim!: option.rel_cases)

lemma same_host_cases:
  assumes "same_host vm q h1 h2"
  obtains e g1 g2 where "guest_mkdir os vm h1 = (e, g1)" "guest_mkdir os vm h2 = (e, g2)" "same_host vm q g1 g2"
  using same_host_mkdir [OF assms, of os] by (metis prod.collapse)

lemma same_write:
  assumes "same_host vm q h1 h2" and "box_file os vm path \<noteq> q \<longrightarrow> a = b"
  shows "fst (file_WriteFile os ctx vm path a h1) = fst (file_WriteFile os ctx vm path b h2) \<and>
    same_host vm q (snd (file_WriteFile os ctx vm path a h1)) (snd (file_WriteFile os ctx vm path b h2))"
proof -
  obtain e g1 g2 where g: "guest_mkdir os vm h1 = (e, g1)" "guest_mkdir os vm h2 = (e, g2)" "same_host vm q g1 g2"
    by (rule same_host_cases [OF assms(1)])
  then show ?thesis using assms same_host_put [OF g(3) assms(2)]
    by (auto simp: file_WriteFile_def Let_def split: option.splits)
qed

lemma same_exec:
  assumes "same_host vm q h1 h2"
  shows "fst (file_Exec os ctx now vm name args h1) = fst (file_Exec os ctx now vm name args h2) \<and>
    same_host vm q (snd (file_Exec os ctx now vm name args h1)) (snd (file_Exec os ctx now vm name args h2))"
proof -
  obtain e g1 g2 where g: "guest_mkdir os vm h1 = (e, g1)" "guest_mkdir os vm h2 = (e, g2)" "same_host vm q g1 g2"
    by (rule same_host_cases [OF assms])
  have l: "same_host vm q (put_file vm ''guest/exec.log'' (old (guest_file vm ''exec.log'' g1) @ t) g1)
      (put_file vm ''guest/exec.log'' (old (guest_file vm ''exec.log'' g2) @ t) g2)" for old :: "string option \<Rightarrow> string" and t
    using same_host_file [OF g(3), of "''exec.log''"] by (intro same_host_put [OF g(3)]) auto
  show ?thesis using g assms l [of "case_option '''' (\<lambda>t. t)"] same_host_put [OF l [of "case_option '''' (\<lambda>t. t)"]]
    by (auto simp: file_Exec_def Let_def split: option.splits)
qed

text \<open>
  What injecting a job relies on: states that agree but for the secret give the same errors and keep agreeing, when
  different contents are written to the file of the secret, and when anything else is done alike.
\<close>

locale secret_box =
  fixes g :: "'h guest_exec" and vm :: string and jit :: string and same :: "'h \<Rightarrow> 'h \<Rightarrow> bool"
  assumes secret_written: "same h1 h2 \<Longrightarrow> fst (ge_write g vm jit a h1) = fst (ge_write g vm jit b h2) \<and>
      same (snd (ge_write g vm jit a h1)) (snd (ge_write g vm jit b h2))"
    and other_written: "same h1 h2 \<Longrightarrow> fst (ge_write g vm path a h1) = fst (ge_write g vm path a h2) \<and>
      same (snd (ge_write g vm path a h1)) (snd (ge_write g vm path a h2))"
    and command_run: "same h1 h2 \<Longrightarrow> fst (ge_exec g vm name args h1) = fst (ge_exec g vm name args h2) \<and>
      same (snd (ge_exec g vm name args h1)) (snd (ge_exec g vm name args h2))"
begin

lemma public_staged:
  assumes "same h1 h2"
  shows "fst (stage_public r g vm job h1) = fst (stage_public r g vm job h2) \<and>
    same (snd (stage_public r g vm job h1)) (snd (stage_public r g vm job h2))"
  using other_written [OF conjunct2 [OF other_written [OF assms]]] other_written [OF assms]
  by (simp add: stage_public_def Let_def)

lemma runner_started:
  assumes "same h1 h2"
  shows "fst (run_command r g vm job h1) = fst (run_command r g vm job h2) \<and>
    fst (snd (run_command r g vm job h1)) = fst (snd (run_command r g vm job h2)) \<and>
    same (snd (snd (run_command r g vm job h1))) (snd (snd (run_command r g vm job h2)))"
  using command_run [OF conjunct2 [OF other_written [OF assms]]]
  by (simp add: run_command_def Let_def split_beta)

text \<open>Two jobs that differ in their secrets only leave the same but for the secret, and log the same.\<close>

lemma secret_confined:
  assumes "same h1 h2" and jit: "jit = (if ir_jit_path r = '''' then ''jitconfig'' else ir_jit_path r)"
    and j: "jp_jit j1 \<noteq> ''''" "length secret = length (jp_jit j1)" "j2 = j1\<lparr> jp_jit := secret \<rparr>"
  shows "fst (StartRunner r (Some g) vm j1 h1) = fst (StartRunner r (Some g) vm j2 h2) \<and>
    fst (snd (StartRunner r (Some g) vm j1 h1)) = fst (snd (StartRunner r (Some g) vm j2 h2)) \<and>
    same (snd (snd (StartRunner r (Some g) vm j1 h1))) (snd (snd (StartRunner r (Some g) vm j2 h2)))"
proof -
  have pub: "stage_public r g vm j2 = stage_public r g vm j1" "run_command r g vm j2 = run_command r g vm j1"
    using j(2,3) by (simp_all add: fun_eq_iff stage_public_def run_command_def)
  have n: "jp_jit j2 \<noteq> ''''" "jp_jit j2 = secret" using j by auto
  obtain e a1 a2 where a: "ge_write g vm jit (jp_jit j1) h1 = (e, a1)" "ge_write g vm jit (jp_jit j2) h2 = (e, a2)" "same a1 a2"
    using secret_written [OF assms(1), of "jp_jit j1" "jp_jit j2"] by (metis prod.collapse)
  obtain c c1 c2 where c: "stage_public r g vm j1 a1 = (c, c1)" "stage_public r g vm j1 a2 = (c, c2)" "same c1 c2"
    using public_staged [OF a(3), of r j1] by (metis prod.collapse)
  show ?thesis
    using a c j(1) n runner_started [OF c(3), of r j1]
    by (cases e; cases c) (simp_all add: StartRunner_def pub jit [symmetric])
qed

end

interpretation file_box:
  secret_box "FileGuestExec os ctx now" vm path "same_host vm (box_file os vm path)"
  for os ctx now vm path
  by unfold_locales (unfold FileGuestExec_def guest_exec.simps, (rule same_write same_exec; simp)+)

definition same_box :: "string \<Rightarrow> string \<Rightarrow> 's boxed \<Rightarrow> 's boxed \<Rightarrow> bool" where
  "same_box vm q s1 s2 \<longleftrightarrow> same_host vm q (bx_host s1) (bx_host s2) \<and> same_files (drop 6 q) (bx_drive s1) (bx_drive s2)"

lemma same_staged:
  assumes "same_host vm q h1 h2"
  shows "same_files (drop 6 q) (staged vm h1) (staged vm h2)"
proof -
  have m: "same_files (drop 6 q) (map (\<lambda>n. (n, u n)) ns) (map (\<lambda>n. (n, v n)) ns)"
    if "\<And>n. n \<noteq> drop 6 q \<Longrightarrow> u n = v n" for u v :: "string \<Rightarrow> string" and ns
    using that by (induction ns) (auto simp: same_files_def)
  have d: "n \<noteq> drop 6 q \<Longrightarrow> CHR ''g'' # CHR ''u'' # CHR ''e'' # CHR ''s'' # CHR ''t'' # CHR ''/'' # n \<noteq> q" for n
    by auto
  consider "entry vm h1 = None" "entry vm h2 = None" | "entry vm h1 = Some None" "entry vm h2 = Some None"
    | i j where "entry vm h1 = Some (Some i)" "entry vm h2 = Some (Some j)" "same_files q (in_files i) (in_files j)"
    using assms by (auto simp: same_host_def same_instance_def elim!: option.rel_cases)
  then show ?thesis
  proof cases
    case 3
    then show ?thesis using same_files_keys [OF 3(3)] same_files_lookup [OF 3(3)] d by (auto simp: staged_def intro!: m)
  qed (simp_all add: staged_def)
qed

lemma same_copy:
  "same_files q fs gs \<Longrightarrow> same_files q d1 d2 \<Longrightarrow>
    fst (copy_staged io fs d1) = fst (copy_staged io gs d2) \<and> same_files q (snd (copy_staged io fs d1)) (snd (copy_staged io gs d2))"
proof (induction fs arbitrary: gs d1 d2)
  case (Cons f fs)
  then obtain b gs' where g: "gs = (fst f, b) # gs'" "fst f \<noteq> q \<longrightarrow> snd f = b" "same_files q fs gs'"
    by (auto simp: same_files_def list_all2_Cons1)
  show ?case
    using Cons.IH [OF g(3) same_files_write [OF Cons.prems(2) g(2)]] g(1) Cons.prems(2)
    by (cases f) (auto split: option.splits)
qed (simp add: same_files_def)

lemma same_sync:
  assumes "same_box vm q s1 s2"
  shows "fst (SyncGuestDirToInjectDrive os dv vm s1) = fst (SyncGuestDirToInjectDrive os dv vm s2) \<and>
    same_box vm q (snd (SyncGuestDirToInjectDrive os dv vm s1)) (snd (SyncGuestDirToInjectDrive os dv vm s2))"
proof -
  have hs: "same_host vm q (bx_host s1) (bx_host s2)" "same_files (drop 6 q) (bx_drive s1) (bx_drive s2)"
    using assms by (simp_all add: same_box_def)
  obtain e g1 g2 where g: "guest_mkdir os vm (bx_host s1) = (e, g1)" "guest_mkdir os vm (bx_host s2) = (e, g2)"
    "same_host vm q g1 g2"
    by (rule same_host_cases [OF hs(1)])
  have drive: "(case entry vm (bx_host s1) of Some (Some i) \<Rightarrow> map_of (in_files i) ''inject.ext4'' = None | _ \<Rightarrow> True) =
      (case entry vm (bx_host s2) of Some (Some i) \<Rightarrow> map_of (in_files i) ''inject.ext4'' = None | _ \<Rightarrow> True)"
    using hs(1) same_files_lookup [of q _ _ "''inject.ext4''"]
    by (auto simp: same_host_def same_instance_def elim!: option.rel_cases)
  obtain err d1 d2 where c: "copy_staged (dv_write dv) (staged vm g1) (bx_drive s1) = (err, d1)"
    "copy_staged (dv_write dv) (staged vm g2) (bx_drive s2) = (err, d2)" "same_files (drop 6 q) d1 d2"
    using same_copy [OF same_staged [OF g(3)] hs(2), of "dv_write dv"] by (metis prod.collapse)
  show ?thesis using g c hs unfolding SyncGuestDirToInjectDrive_def drive
    by (auto simp: same_box_def split: option.splits)
qed

interpretation inject_box:
  secret_box "FirecrackerGuestExec inner os dv ctx now" vm path "same_box vm (box_file os vm path)"
  for inner os dv ctx now vm path
proof (unfold_locales, goal_cases)
  case (1 s1 s2 a b)
  then show ?case using same_write [of vm "box_file os vm path" "bx_host s1" "bx_host s2" os path a b ctx]
    by (auto simp: FirecrackerGuestExec_def firecracker_WriteFile_def same_box_def split_beta)
next
  case (2 s1 s2 p a)
  then show ?case using same_write [of vm "box_file os vm path" "bx_host s1" "bx_host s2" os p a a ctx]
    by (auto simp: FirecrackerGuestExec_def firecracker_WriteFile_def same_box_def split_beta)
next
  case (3 s1 s2 name args)
  then have s: "same_host vm (box_file os vm path) (bx_host s1) (bx_host s2)" by (simp add: same_box_def)
  obtain e g1 g2 where g: "file_Exec os ctx now vm name args (bx_host s1) = (e, g1)"
    "file_Exec os ctx now vm name args (bx_host s2) = (e, g2)" "same_host vm (box_file os vm path) g1 g2"
    using same_exec [OF s, of os ctx now name args] by (metis prod.collapse)
  have "same_box vm (box_file os vm path) (s1\<lparr> bx_host := g1 \<rparr>) (s2\<lparr> bx_host := g2 \<rparr>)" using 3 g(3) by (simp add: same_box_def)
  from same_sync [OF this, of os dv] g 3 this show ?case
    by (auto simp: FirecrackerGuestExec_def firecracker_Exec_def split: option.splits prod.splits)
qed

text \<open>
  C18. The secret of a job (its JIT configuration) goes to one file of the guest's box, and from there to the file of
  that name on its inject drive, and nowhere else: had the job another secret of the same length, then starting
  its runner would answer and log the same and leave the same on the host and on the drive, but for these.
\<close>

theorem jit_secret_confined:
  assumes "jp_jit job \<noteq> ''''" and "length secret = length (jp_jit job)"
    and "q = box_file os vm (if ir_jit_path r = '''' then ''jitconfig'' else ir_jit_path r)"
    and "StartRunner r (Some (FirecrackerGuestExec inner os dv ctx now)) vm job s = (e1, line1, s1)"
    and "StartRunner r (Some (FirecrackerGuestExec inner os dv ctx now)) vm (job\<lparr> jp_jit := secret \<rparr>) s = (e2, line2, s2)"
  shows "e1 = e2 \<and> line1 = line2 \<and> same_host vm q (bx_host s1) (bx_host s2) \<and> same_files (drop 6 q) (bx_drive s1) (bx_drive s2)"
proof -
  have "same_box vm q s s" by (simp add: same_box_def)
  from inject_box.secret_confined [OF this [unfolded assms(3)] refl assms(1,2) refl, of inner dv ctx now] assms(3-5)
  show ?thesis by (simp add: same_box_def)
qed

definition box_job :: "string \<Rightarrow> JobPayload" where
  "box_job secret = \<lparr> jp_job_id = ''7'', jp_runner_name = ''temperci-7'', jp_labels = [], jp_jit = secret \<rparr>"

definition box_runner :: InjectRunner where
  "box_runner = \<lparr> ir_runner_path = '''', ir_jit_path = '''', ir_ca = '''' \<rparr>"

definition box_drive :: drive_env where
  "box_drive = \<lparr> dv_mount = None, dv_write = (\<lambda>n. None) \<rparr>"

definition box_state :: "unit boxed" where
  "box_state = \<lparr> bx_host = box_host [(''inject.ext4'', '''')], bx_drive = [] \<rparr>"

lemma jit_secret_confined_witness:
  "\<exists>line s1 s2.
     StartRunner box_runner (Some (FirecrackerGuestExec True box_os box_drive None ''now'')) ''vm-1'' (box_job ''aaaa'') box_state =
       (None, line, s1) \<and>
     StartRunner box_runner (Some (FirecrackerGuestExec True box_os box_drive None ''now'')) ''vm-1'' (box_job ''bbbb'') box_state =
       (None, line, s2) \<and>
     map_of (bx_drive s1) ''jitconfig'' = Some ''aaaa'' \<and> same_files ''jitconfig'' (bx_drive s1) (bx_drive s2)"
proof -
  let ?run = "\<lambda>j. StartRunner box_runner (Some (FirecrackerGuestExec True box_os box_drive None ''now'')) ''vm-1'' j box_state"
  obtain e1 l1 s1 where a: "?run (box_job ''aaaa'') = (e1, l1, s1)" by (metis prod.collapse)
  obtain e2 l2 s2 where b: "?run ((box_job ''aaaa'')\<lparr> jp_jit := ''bbbb'' \<rparr>) = (e2, l2, s2)" by (metis prod.collapse)
  have q: "box_file box_os ''vm-1'' (if ir_jit_path box_runner = '''' then ''jitconfig'' else ir_jit_path box_runner) = ''guest/jitconfig''"
    by code_simp
  have r: "fst (?run (box_job ''aaaa'')) = None" "map_of (bx_drive (snd (snd (?run (box_job ''aaaa''))))) ''jitconfig'' = Some ''aaaa''"
    by code_simp+
  have j: "jp_jit (box_job ''aaaa'') \<noteq> ''''" "length ''bbbb'' = length (jp_jit (box_job ''aaaa''))"
    "(box_job ''aaaa'')\<lparr> jp_jit := ''bbbb'' \<rparr> = box_job ''bbbb''"
    by (simp_all add: box_job_def)
  from jit_secret_confined [OF j(1,2) q [symmetric] a b] show ?thesis using a b r j(3) by auto
qed

end
