(* ===== verification/GuestWait.thy ===== *)
theory GuestWait
  imports GuestRunner
begin

text \<open>
  Waiting for a guest's runner (the two \<open>WaitRunner\<close> of \<open>internal/agent/guest.go\<close>), how that answer becomes the
  outcome of a job, what goes over the inject drive and back, and the logs collected at the end
  (\<open>joblogs.go\<close>).
\<close>

section \<open>The loops\<close>

text \<open>
  A pass of a loop: what happened on the host since the last one, how long \<open>runner.log\<close> has been quiet, the
  time, the drive as it can be mounted, and what the \<open>select\<close> takes (the context's error, or else a tick).
\<close>

record 'w wait_round =
  wr_world :: "'w \<Rightarrow> 'w"
  wr_age :: duration
  wr_now :: gotime
  wr_drive :: drive_env
  wr_ctx :: "wait_error option"

text \<open>\<open>None\<close> when the passes are used up while the loop still runs.\<close>

fun file_WaitRunner ::
  "os \<Rightarrow> string \<Rightarrow> gotime \<Rightarrow> 's host wait_round list \<Rightarrow> 's host \<Rightarrow> (int \<times> wait_error option) option \<times> 's host" where
  "file_WaitRunner os vm deadline [] h = (None, h)"
| "file_WaitRunner os vm deadline (r # rs) h =
     (case runnerWaitStatus os (wr_age r) vm (wr_world r h) of
        ((code, fin, err), h1) \<Rightarrow>
          if fin then (Some (code, err), h1)
          else case wr_ctx r of
            Some e \<Rightarrow> (Some (- 1, Some e), h1)
          | None \<Rightarrow>
              if wr_now r > deadline then
                (if guest_file vm ''runner.started'' h1 \<noteq> None then (Some (0, None), h1)
                 else file_WaitRunner os vm (wr_now r + 30 * second) rs h1)
              else file_WaitRunner os vm deadline rs h1)"

text \<open>
  A slow look at the drive copies the logs and the exit file; with an exit file the next pass follows at once.
\<close>

definition slow_look :: "os \<Rightarrow> drive_env \<Rightarrow> string \<Rightarrow> 's boxed \<Rightarrow> bool \<times> 's boxed" where
  "slow_look os dv vm s =
     (case CopyInjectFiles os dv vm [''runner.exit'', ''runner.log'', ''agent.log'', ''workflow.log''] s of
        (Some out, s1) \<Rightarrow>
          (case map_of out ''runner.exit'' of
             Some b \<Rightarrow>
               if trim_space b \<noteq> '''' then
                 (True, if os_io os vm ''guest/runner.exit'' = None
                        then s1\<lparr> bx_host := put_file vm ''guest/runner.exit'' b (bx_host s1) \<rparr> else s1)
               else (False, s1)
           | None \<Rightarrow> (False, s1))
      | (None, s1) \<Rightarrow> (False, s1))"

fun firecracker_WaitRunner ::
  "os \<Rightarrow> string \<Rightarrow> gotime \<Rightarrow> 's boxed wait_round list \<Rightarrow> 's boxed \<Rightarrow> (int \<times> wait_error option) option \<times> 's boxed" where
  "firecracker_WaitRunner os vm slow_at [] s = (None, s)"
| "firecracker_WaitRunner os vm slow_at (r # rs) s =
     (case runnerWaitStatus os (wr_age r) vm (bx_host (wr_world r s)) of
        ((code, fin, err), h1) \<Rightarrow>
          (let s1 = (wr_world r s)\<lparr> bx_host := h1 \<rparr> in
           if fin then
             (Some (code, err), snd (CopyInjectFiles os (wr_drive r) vm [''runner.log'', ''agent.log'', ''workflow.log''] s1))
           else
             let slow = wr_now r > slow_at;
                 (again, s2) = (if slow then slow_look os (wr_drive r) vm s1 else (False, s1));
                 next_slow = (if slow then wr_now r + 5 * second else slow_at)
             in if again then firecracker_WaitRunner os vm next_slow rs s2
                else case wr_ctx r of
                  Some e \<Rightarrow> (Some (- 1, Some e), s2)
                | None \<Rightarrow> firecracker_WaitRunner os vm next_slow rs s2))"

section \<open>A stopped guest\<close>

text \<open>The host has stopped the guest: its mark is in the box, or the instance is gone.\<close>

definition stopped :: "os \<Rightarrow> string \<Rightarrow> 's host \<Rightarrow> bool" where
  "stopped os vm h \<longleftrightarrow>
     guest_file vm ''runner.exit'' h = Some (''cancelled'' @ [CHR 0x0A]) \<or> entry vm h = None \<and> os_stat os vm = None"

lemma signal_stops:
  assumes "os_root os \<noteq> ''''" and "vm \<noteq> ''''" and "entry vm h \<noteq> Some None"
    and "os_io os vm ''guest'' = None" and "os_io os vm ''guest/runner.exit'' = None"
  shows "stopped os vm (SignalRunnerStopped os vm h)"
proof -
  obtain e h1 where p: "guest_put os vm ''runner.exit'' (''cancelled'' @ [CHR 0x0A]) h = (e, h1)" by fastforce
  have "e = None" using p assms(3-5) by (auto simp: guest_put_def guest_mkdir_def split: option.splits prod.splits)
  then show ?thesis using guest_put_done [of os vm "''runner.exit''" "''cancelled'' @ [CHR 0x0A]" h h1] p assms(1,2)
    by (simp add: stopped_def SignalRunnerStopped_def)
qed

lemma stopped_status:
  assumes "stopped os vm h" and "os_root os \<noteq> ''''" and "vm \<noteq> ''''"
  shows "runnerWaitStatus os age vm h = ((- 1, True, Some RunnerStopped), h)"
proof -
  have t: "trim_space (''cancelled'' @ [CHR 0x0A]) = ''cancelled''" "isHostStoppedExit ''cancelled''" by code_simp+
  have "entry vm h = None \<Longrightarrow> guest_file vm ''runner.exit'' h = None" by (simp add: guest_file_def)
  then show ?thesis using assms t by (auto simp: stopped_def runnerWaitStatus.simps [of os age vm h])
qed

text \<open>The wait ends in the pass that finds the guest stopped, if it had not ended before.\<close>

lemma stopped_ends_wait:
  assumes "os_root os \<noteq> ''''" and "vm \<noteq> ''''"
  shows "firecracker_WaitRunner os vm slow_at rs s = (None, s1) \<Longrightarrow> stopped os vm (bx_host (wr_world r s1)) \<Longrightarrow>
    fst (firecracker_WaitRunner os vm slow_at (rs @ r # rs') s) = Some (- 1, Some RunnerStopped)"
proof (induction rs arbitrary: slow_at s)
  case Nil
  then show ?case using stopped_status [OF _ assms, of "bx_host (wr_world r s1)" "wr_age r"] by simp
next
  case (Cons q rs)
  then show ?case
    by (cases "runnerWaitStatus os (wr_age q) vm (bx_host (wr_world q s))")
      (auto simp: Let_def split: prod.splits option.splits if_splits)
qed


text \<open>What the worker makes of the answer; \<open>late\<close> tells whether its deadline had passed.\<close>

definition answer_of :: "bool \<Rightarrow> int \<times> wait_error option \<Rightarrow> runner_answer" where
  "answer_of late a = (case snd a of None \<Rightarrow> RunnerExit (fst a) | Some e \<Rightarrow> RunnerFailed e late)"

text \<open>
  C20. Stopping a guest from the host ends its job: once the host has left its mark, or the instance is gone, the wait
  for the runner ends in the very next pass with that as the reason, and if the guest had not ended before, the
  job is reported as cancelled, whatever its logs say.
\<close>

theorem stopped_guest_is_cancelled:
  assumes root: "os_root os \<noteq> ''''" "vm \<noteq> ''''"
    and running: "firecracker_WaitRunner os vm slow_at rs s = (None, s1)" and stop: "stopped os vm (bx_host (wr_world r s1))"
    and real: "wk_simulate wk \<le> 0" "wk_wait_real wk" "je_has_runner env"
    and answer: "fst (firecracker_WaitRunner os vm slow_at (rs @ r # rs') s) = Some a" "je_answer env = answer_of False a"
    and handled: "handleJob wk env job ag = Some ([CallStarted st, call], err, ag')"
  shows "\<exists>c. call = CallFinished c \<and> fq_job_id c = ja_job_id job \<and> fq_outcome c = ''cancelled'' \<and>
    fq_error c = ''agent: runner stopped'' \<and> err = Some (WaitError RunnerStopped)"
proof -
  have "a = (- 1, Some RunnerStopped)"
    using stopped_ends_wait [OF root running stop, of rs'] answer(1) by simp
  then have w: "waitForJob wk (je_has_runner env) None (je_answer env) = (''cancelled'', Some RunnerStopped)"
    using real answer(2) by (simp add: waitForJob_def answer_of_def)
  from handled show ?thesis
  proof (cases rule: handleJob_cases)
    case (failed e p logs)
    then show ?thesis by simp
  next
    case (ran b p ip call' ag2 ag3)
    then show ?thesis
      by (auto simp: conclude_def w Let_def finish_job_def finished_request_def split: prod.splits option.splits if_splits)
  qed
qed

section \<open>Exit codes\<close>

lemma scan_itoa:
  assumes "- (2 ^ 63) \<le> n" and "n < 2 ^ 63"
  shows "scan_int (itoa n) = Some n"
proof -
  have d: "takeWhile is_digit (nat_digits k) = nat_digits k" for k
    by (simp add: takeWhile_eq_all_conv nat_digits_digits)
  show ?thesis
  proof (cases "n < 0")
    case True
    then have "itoa n = CHR ''-'' # nat_digits (nat (- n))" by (simp add: itoa_def)
    then show ?thesis using atoi_itoa [OF assms] by (simp add: scan_int_def Let_def d)
  next
    case False
    then have i: "itoa n = nat_digits (nat n)" by (simp add: itoa_def)
    have "hd (nat_digits (nat n)) \<noteq> CHR ''+''" "hd (nat_digits (nat n)) \<noteq> CHR ''-''"
      using nat_digits_digits [OF hd_in_set [of "nat_digits (nat n)"]] not_digit_sign by auto
    then show ?thesis using i atoi_itoa [OF assms] by (simp add: scan_int_def Let_def d)
  qed
qed

lemma itoa_chars: "c \<in> set (itoa n) \<Longrightarrow> c = CHR ''-'' \<or> is_digit c"
  by (auto simp: itoa_def dest: nat_digits_digits split: if_splits)

lemma itoa_ends: "hd (itoa n) \<notin> hd ` set space_runes" "last (itoa n) \<notin> last ` set space_runes"
proof -
  have m: "CHR ''-'' \<notin> hd ` set space_runes \<and> CHR ''-'' \<notin> last ` set space_runes" by (simp add: space_runes_def)
  show "hd (itoa n) \<notin> hd ` set space_runes" using itoa_chars [OF hd_in_set [OF itoa_nonempty, of n]] m digit_not_space by metis
  show "last (itoa n) \<notin> last ` set space_runes" using itoa_chars [OF last_in_set [OF itoa_nonempty, of n]] m digit_not_space by metis
qed

lemma number_not_word: "isHostStoppedExit (itoa n) = False"
proof -
  have d: "lower_char c \<noteq> CHR ''d''" if "c = CHR ''-'' \<or> is_digit c" for c
  proof -
    have "lower_char c = c" using that by (auto simp: is_digit_def digit_of_def lower_char_def Let_def split: if_splits)
    moreover have "\<not> is_digit (CHR ''d'')" by code_simp
    ultimately show ?thesis using that by auto
  qed
  have "last (to_lower (itoa n)) = lower_char (last (itoa n))" by (simp add: to_lower_def last_map)
  then show ?thesis using d [OF itoa_chars [OF last_in_set [OF itoa_nonempty, of n]]] by (auto simp: isHostStoppedExit_def)
qed


lemma trim_space_pad:
  assumes "w \<noteq> []" and "hd w \<notin> hd ` set space_runes" and "last w \<notin> last ` set space_runes" and "set pad \<subseteq> {CHR 0x0A}"
  shows "trim_space (w @ pad) = w"
  using assms(4)
proof (induction pad rule: rev_induct)
  case Nil
  then show ?case using trim_space_graphic [OF assms(1-3)] by simp
next
  case (snoc c cs)
  have l: "trim_left ((w @ cs) @ [c]) = (w @ cs) @ [c]" "trim_left (w @ cs) = w @ cs"
    unfolding trim_left_def using assms(1,2) by (auto intro!: strip_runes_hd) (metis imageI)+
  have "strip_runes (map rev space_runes) (CHR 0x0A # t) = strip_runes (map rev space_runes) t" for t
  proof -
    have "find (\<lambda>r. r \<noteq> [] \<and> prefix r (CHR 0x0A # t)) (map rev space_runes) = Some [CHR 0x0A]"
      by (simp add: space_runes_def)
    then show ?thesis by (subst strip_runes.simps) simp
  qed
  then have "trim_space ((w @ cs) @ [c]) = trim_space (w @ cs)" using l snoc(2) by (simp add: trim_space_def trim_right_def)
  then show ?case using snoc by simp
qed

lemma exit_code_text: "trim_space (trim_prefix (''exit '' @ itoa n) ''exit'') = itoa n"
proof -
  have "find (\<lambda>r. r \<noteq> [] \<and> prefix r ('' '' @ itoa n)) space_runes = Some '' ''" by (simp add: space_runes_def)
  then have "trim_left ('' '' @ itoa n) = trim_left (itoa n)"
    unfolding trim_left_def by (subst strip_runes.simps) simp
  moreover have "trim_left (itoa n) = itoa n"
    unfolding trim_left_def using itoa_ends(1) [of n] by (intro strip_runes_hd) (auto, metis imageI)
  ultimately show ?thesis using trim_space_graphic [OF itoa_nonempty itoa_ends [of n]]
    by (simp add: trim_prefix_def has_prefix_def trim_space_def)
qed

text \<open>
  C38. The exit code a guest sends over its mailbox is the code the wait answers, for every code an integer holds,
  and any number of looks later still, until something else is written.
\<close>

theorem exit_code_roundtrip:
  assumes "- (2 ^ 63) \<le> n" and "n < 2 ^ 63" and "os_root os \<noteq> ''''" and "vm \<noteq> ''''" and "entry vm h \<noteq> Some None"
    and "os_io os vm ''guest'' = None" and "os_io os vm ''guest/runner.exit'' = None"
    and "h' = ApplyMailboxMessage os vm (''exit '' @ itoa n @ pad) h" and "set pad \<subseteq> {CHR 0x0A}"
  shows "runnerWaitStatus os age vm h' = ((n, True, None), h')"
proof -
  let ?msg = "''exit '' @ itoa n"
  have "hd ?msg \<notin> hd ` set space_runes" "last ?msg \<notin> last ` set space_runes"
    using itoa_ends(2) [of n] by (simp_all add: space_runes_def)
  then have msg: "trim_space (?msg @ pad) = ?msg" by (intro trim_space_pad assms(9)) simp_all
  have "\<not> has_prefix (?msg @ pad) ''wf ''" "\<not> has_prefix ?msg ''ready''" "has_prefix ?msg ''exit''"
    by (simp_all add: has_prefix_def)
  then have h': "h' = snd (guest_put os vm ''runner.exit'' (itoa n @ [CHR 0x0A]) h)"
    using assms(3,4,8) msg exit_code_text [of n] by (simp add: ApplyMailboxMessage_def Let_def)
  obtain er g where p: "guest_put os vm ''runner.exit'' (itoa n @ [CHR 0x0A]) h = (er, g)" by fastforce
  have "er = None" using p assms(5-7) by (auto simp: guest_put_def guest_mkdir_def split: option.splits prod.splits)
  then have "guest_file vm ''runner.exit'' h' = Some (itoa n @ [CHR 0x0A])" using guest_put_done p h' by simp
  moreover have "trim_space (itoa n @ [CHR 0x0A]) = itoa n" by (rule trim_line) (use itoa_ends [of n] in simp_all)
  ultimately show ?thesis
    using assms(3,4) scan_itoa [OF assms(1,2)] by (simp add: runnerWaitStatus.simps [of os age vm h'] number_not_word)
qed

lemma exit_code_roundtrip_witness:
  "\<exists>h. h = ApplyMailboxMessage box_os ''vm-1'' (''exit -3'' @ [CHR 0x0A]) (box_host []) \<and>
     runnerWaitStatus box_os 0 ''vm-1'' h = ((- 3, True, None), h)"
proof -
  have i: "itoa (- 3) = ''-3''" by code_simp
  have "entry ''vm-1'' (box_host []) \<noteq> Some None" by code_simp
  from exit_code_roundtrip [of "- 3" box_os "''vm-1''", OF _ _ _ _ this _ _ refl, of "[CHR 0x0A]" 0]
  show ?thesis by (simp add: i box_os_def)
qed

definition idle_round :: "unit boxed wait_round" where
  "idle_round = \<lparr> wr_world = (\<lambda>s. s), wr_age = 0, wr_now = 0, wr_drive = box_drive, wr_ctx = None \<rparr>"

definition stop_round :: "unit boxed wait_round" where
  "stop_round = idle_round\<lparr> wr_world := (\<lambda>s. s\<lparr> bx_host := SignalRunnerStopped box_os ''vm-1'' (bx_host s) \<rparr>) \<rparr>"

lemma stopped_guest_is_cancelled_witness:
  "\<exists>calls err ag'.
     handleJob demo_worker (demo_job_env (answer_of False (the (fst (firecracker_WaitRunner box_os ''vm-1'' 9 [idle_round, stop_round] box_state)))))
       demo_assignment demo_agent = Some (calls, err, ag') \<and> err = Some (WaitError RunnerStopped)"
proof -
  have run: "firecracker_WaitRunner box_os ''vm-1'' 9 [idle_round] box_state = (None, box_state)" by code_simp
  have "entry ''vm-1'' (bx_host box_state) \<noteq> Some None" by code_simp
  then have stop: "stopped box_os ''vm-1'' (bx_host (wr_world stop_round box_state))"
    using signal_stops [of box_os "''vm-1''"] by (simp add: stop_round_def idle_round_def box_os_def)
  have root: "os_root box_os \<noteq> ''''" "''vm-1'' \<noteq> ''''" by (simp_all add: box_os_def)
  have a: "fst (firecracker_WaitRunner box_os ''vm-1'' 9 ([idle_round] @ stop_round # []) box_state) = Some (- 1, Some RunnerStopped)"
    by (rule stopped_ends_wait [OF root run stop])
  let ?env = "demo_job_env (answer_of False (- 1, Some RunnerStopped))"
  have b: "case handleJob demo_worker ?env demo_assignment demo_agent of
      None \<Rightarrow> False | Some (calls, err, ag') \<Rightarrow> (case calls of [CallStarted st, call] \<Rightarrow> True | _ \<Rightarrow> False)"
    by code_simp
  then obtain st call err ag' where h: "handleJob demo_worker ?env demo_assignment demo_agent = Some ([CallStarted st, call], err, ag')"
    by (auto split: option.splits prod.splits list.splits agent_call.splits)
  have w: "wk_simulate demo_worker \<le> 0" "wk_wait_real demo_worker" "je_has_runner ?env"
    "je_answer ?env = answer_of False (- 1, Some RunnerStopped)"
    by (simp_all add: demo_worker_def demo_job_env_def)
  from stopped_guest_is_cancelled [OF root run stop w(1-3) a w(4) h] show ?thesis using h a by auto
qed

section \<open>Over the drive and back\<close>

lemma map_of_pairs: "map_of (map (\<lambda>n. (n, f n)) ns) n = (if n \<in> set ns then Some (f n) else None)"
  by (induction ns) auto

lemma copied:
  "copy_staged io fs d = (None, d') \<Longrightarrow> distinct (map fst fs) \<Longrightarrow>
    map_of d' n = (case map_of fs n of None \<Rightarrow> map_of d n | Some t \<Rightarrow> Some t)"
proof (induction io fs d rule: copy_staged.induct)
  case (2 io m t fs d)
  have "m \<notin> fst ` set fs" "distinct (map fst fs)" using 2(3) by simp_all
  moreover from this have "map_of fs m = None" by (simp add: map_of_eq_None_iff)
  ultimately show ?case using 2(1,2) by (cases "n = m") (auto simp: write_file_def update_conv' split: option.splits)
qed simp

lemma staged_lookup:
  assumes "CHR ''/'' \<notin> set n"
  shows "map_of (staged vm h) n = guest_file vm n h"
proof -
  consider (none) "\<nexists>i. entry vm h = Some (Some i)" | (dir) i where "entry vm h = Some (Some i)" by blast
  then show ?thesis
  proof cases
    case none
    then show ?thesis by (auto simp: staged_def guest_file_def split: option.splits)
  next
    case dir
    let ?k = "''guest/'' @ n"
    have m: "n \<in> drop 6 ` {q \<in> fst ` set (in_files i). has_prefix q ''guest/'' \<and> CHR ''/'' \<notin> set (drop 6 q)} \<longleftrightarrow>
        map_of (in_files i) ?k \<noteq> None"
    proof -
      have k: "q = ?k" if "has_prefix q ''guest/''" "drop 6 q = n" for q using that by (auto simp: has_prefix_def prefix_def)
      have "n \<in> drop 6 ` {q \<in> fst ` set (in_files i). has_prefix q ''guest/'' \<and> CHR ''/'' \<notin> set (drop 6 q)} \<longleftrightarrow>
          ?k \<in> fst ` set (in_files i)"
      proof
        assume "?k \<in> fst ` set (in_files i)"
        then show "n \<in> drop 6 ` {q \<in> fst ` set (in_files i). has_prefix q ''guest/'' \<and> CHR ''/'' \<notin> set (drop 6 q)}"
          using assms by (intro image_eqI [of _ _ ?k]) simp_all
      next
        assume "n \<in> drop 6 ` {q \<in> fst ` set (in_files i). has_prefix q ''guest/'' \<and> CHR ''/'' \<notin> set (drop 6 q)}"
        then obtain q where "q \<in> fst ` set (in_files i)" "has_prefix q ''guest/''" "drop 6 q = n" by blast
        then show "?k \<in> fst ` set (in_files i)" using k by metis
      qed
      then show ?thesis by (simp add: map_of_eq_None_iff)
    qed
    then show ?thesis using dir
      by (auto simp: staged_def guest_file_def map_of_pairs sort_texts_def split: option.splits)
  qed
qed

lemma staged_distinct: "distinct (map fst (staged vm h))"
proof -
  have "distinct (sort_texts xs)" for xs
    using distinct_map_isort_by [of "\<lambda>x. x" "\<lambda>a b. \<not> text_less b a" "remdups xs"] by (simp add: sort_texts_def)
  then show ?thesis by (auto simp: staged_def comp_def split: option.splits)
qed

text \<open>
  What the host stages for a guest arrives on its inject drive byte for byte, files that were there before and are
  not staged stay, and what is copied from the drive is what is on it.
\<close>

theorem inject_drive_roundtrip:
  assumes "SyncGuestDirToInjectDrive os dv vm s = (None, s')" and "CHR ''/'' \<notin> set name"
  shows "ReadInjectFile dv name s' =
      (case guest_file vm name (bx_host s) of None \<Rightarrow> map_of (bx_drive s) name | Some bytes \<Rightarrow> Some bytes) \<and>
    (\<forall>bytes. ReadInjectFile dv name s' = Some bytes \<and> bytes \<noteq> '''' \<and> name \<notin> {'''', ''.'', ''..''} \<and>
       os_io os vm (''guest/'' @ name) = None \<longrightarrow> fst (CopyInjectFiles os dv vm [name] s') = Some [(name, bytes)])"
proof -
  obtain i where i: "entry vm (bx_host s) = Some (Some i)" and io: "os_io os vm ''guest'' = None" and mnt: "dv_mount dv = None"
    and c: "copy_staged (dv_write dv) (staged vm (bx_host s)) (bx_drive s) = (None, bx_drive s')" and h: "bx_host s' = bx_host s"
    using assms(1) by (auto simp: SyncGuestDirToInjectDrive_def guest_mkdir_def split: option.splits if_splits prod.splits)
  have "map_of (bx_drive s') name =
      (case guest_file vm name (bx_host s) of None \<Rightarrow> map_of (bx_drive s) name | Some bytes \<Rightarrow> Some bytes)"
    using copied [OF c staged_distinct, of name] staged_lookup [OF assms(2), of vm "bx_host s"] by simp
  moreover have "fst (CopyInjectFiles os dv vm [name] s') = Some [(name, bytes)]"
    if "map_of (bx_drive s') name = Some bytes" "bytes \<noteq> ''''" "name \<notin> {'''', ''.'', ''..''}" "os_io os vm (''guest/'' @ name) = None"
    for bytes
    using that assms(2) mnt io i h by (auto simp: CopyInjectFiles_def guest_mkdir_def contains_char split: prod.splits)
  ultimately show ?thesis using mnt by (simp add: ReadInjectFile_def)
qed

lemma inject_drive_roundtrip_witness:
  "\<exists>s'. SyncGuestDirToInjectDrive box_os box_drive ''vm-1''
      \<lparr> bx_host = box_host [(''inject.ext4'', ''''), (''guest/jitconfig'', ''s'')], bx_drive = [(''old'', ''o'')] \<rparr> = (None, s') \<and>
    ReadInjectFile box_drive ''jitconfig'' s' = Some ''s'' \<and>
    fst (CopyInjectFiles box_os box_drive ''vm-1'' [''jitconfig''] s') = Some [(''jitconfig'', ''s'')]"
proof -
  let ?s = "\<lparr> bx_host = box_host [(''inject.ext4'', ''''), (''guest/jitconfig'', ''s'')], bx_drive = [(''old'', ''o'')] \<rparr>"
  obtain e s' where s: "SyncGuestDirToInjectDrive box_os box_drive ''vm-1'' ?s = (e, s')" by fastforce
  have "fst (SyncGuestDirToInjectDrive box_os box_drive ''vm-1'' ?s) = None" by code_simp
  with s have "SyncGuestDirToInjectDrive box_os box_drive ''vm-1'' ?s = (None, s')" by simp
  from inject_drive_roundtrip [OF this, of "''jitconfig''"] this
  show ?thesis by (simp add: box_os_def guest_file_def entry_def box_host_def)
qed

section \<open>The logs of a job\<close>

definition instance_file :: "string \<Rightarrow> string \<Rightarrow> 's host \<Rightarrow> string option" where
  "instance_file vm path h = (case entry vm h of Some (Some i) \<Rightarrow> map_of (in_files i) path | _ \<Rightarrow> None)"

text \<open>The archive of the guest outlives its instance; \<open>io\<close> is the error of writing to it.\<close>

definition ArchiveConsole :: "os \<Rightarrow> (string \<Rightarrow> string option) \<Rightarrow> string \<Rightarrow> 's host \<Rightarrow> files \<Rightarrow> files" where
  "ArchiveConsole os io vm h arch =
     (if os_root os = '''' \<or> vm = '''' then arch
      else case instance_file vm ''logs/console.log'' h of
        None \<Rightarrow> arch
      | Some b \<Rightarrow> if b = '''' then arch else write_each io [(''console.log'', b)] arch)"

definition CollectJobLogs :: "os \<Rightarrow> string \<Rightarrow> 's host \<Rightarrow> files \<Rightarrow> JobLogs" where
  "CollectJobLogs os vm h arch =
     (if os_root os = '''' \<or> vm = '''' then no_logs
      else no_logs\<lparr>
        jl_runner := readLogFile [map_of arch ''runner.log'', guest_file vm ''runner.log'' h],
        jl_agent := readLogFile [map_of arch ''agent.log'', guest_file vm ''agent.log'' h],
        jl_console := readLogFile [map_of arch ''console.log'', instance_file vm ''logs/console.log'' h],
        jl_workflow := readLogFileN maxUploadedWorkflowLogBytes [map_of arch ''workflow.log'', guest_file vm ''workflow.log'' h] \<rparr>)"

definition collectLogs :: "os \<Rightarrow> (string \<Rightarrow> string option) \<Rightarrow> string \<Rightarrow> 's host \<Rightarrow> files \<Rightarrow> JobLogs \<times> files" where
  "collectLogs os io vm h arch =
     (if vm = '''' then (no_logs, arch)
      else let arch1 = ArchiveConsole os io vm h arch in (CollectJobLogs os vm h arch1, arch1))"

text \<open>
  The console is still there after the guest is gone: what was collected from it before is collected again from
  the archive, whatever became of the host.
\<close>

lemma console_outlives_guest:
  assumes "collectLogs os io vm h arch = (logs, arch')" and "io ''console.log'' = None" and "os_root os \<noteq> ''''"
    and "instance_file vm ''logs/console.log'' h = Some b" and "b \<noteq> ''''" and "vm \<noteq> ''''"
  shows "jl_console logs = clipLog b maxUploadedLogBytes \<and> jl_console (CollectJobLogs os vm g arch') = clipLog b maxUploadedLogBytes"
  using assms
  by (auto simp: collectLogs_def ArchiveConsole_def CollectJobLogs_def readLogFile_def write_each_def write_file_def
      update_conv' Let_def)

end
