(* ===== verification/GuestHub.thy ===== *)
theory GuestHub
  imports GuestWait FirecrackerVM
begin

text \<open>
  Bringing a guest up (\<open>provision\<close>, \<open>listenMailbox\<close>, \<open>waitGuestReady\<close> and their callers in
  \<open>internal/agent/pool.go\<close>) on a manager of microVMs, with the sockets of the mailbox
  (\<open>MailboxHub\<close> in \<open>mailbox.go\<close>).
\<close>

section \<open>The sockets of the mailbox\<close>

datatype sock = Udp string | Tcp string

record hub =
  hb_conns :: "(string \<times> string) list"
  hb_logs :: "(string \<times> string) list"

definition new_hub :: hub where
  "new_hub = \<lparr> hb_conns = [], hb_logs = [] \<rparr>"

definition MailboxPort :: int where "MailboxPort = 9876"
definition LogStreamPort :: int where "LogStreamPort = 9877"

definition JoinHostPort :: "string \<Rightarrow> string \<Rightarrow> string" where
  "JoinHostPort host port =
     (if contains host '':'' \<or> contains host ''%'' then ''['' @ host @ '']:'' @ port else host @ '':'' @ port)"

text \<open>
  \<open>Listen\<close> and \<open>Close\<close> with the sockets the host has open: an address that is taken, or that the system
  refuses (\<open>deny\<close>), cannot be opened.
\<close>

definition Listen :: "(sock \<Rightarrow> string option) \<Rightarrow> string \<Rightarrow> string \<Rightarrow> hub \<times> sock list \<Rightarrow> string option \<times> hub \<times> sock list" where
  "Listen deny vm ip st =
     (case st of (hb, open') \<Rightarrow>
        if ip = '''' \<or> vm = '''' then (None, st)
        else if map_of (hb_conns hb) vm \<noteq> None then (None, st)
        else
          let addr = JoinHostPort ip (itoa MailboxPort); log_addr = JoinHostPort ip (itoa LogStreamPort) in
          case (if Udp addr \<in> set open' then Some ''address already in use'' else deny (Udp addr)) of
            Some e \<Rightarrow> (Some e, st)
          | None \<Rightarrow>
              (let hb1 = hb\<lparr> hb_conns := AList.update vm addr (hb_conns hb) \<rparr>; open1 = Udp addr # open' in
               if Tcp log_addr \<in> set open1 \<or> deny (Tcp log_addr) \<noteq> None then (None, hb1, open1)
               else (None, hb1\<lparr> hb_logs := AList.update vm log_addr (hb_logs hb1) \<rparr>, Tcp log_addr # open1)))"

definition closed :: "sock option \<Rightarrow> sock list \<Rightarrow> sock list" where
  "closed s open' = (case s of None \<Rightarrow> open' | Some x \<Rightarrow> filter (\<lambda>y. y \<noteq> x) open')"

definition hub_Close :: "string \<Rightarrow> hub \<times> sock list \<Rightarrow> hub \<times> sock list" where
  "hub_Close vm st =
     (case st of (hb, open') \<Rightarrow>
        (\<lparr> hb_conns = AList.delete vm (hb_conns hb), hb_logs = AList.delete vm (hb_logs hb) \<rparr>,
         closed (map_option Tcp (map_of (hb_logs hb) vm)) (closed (map_option Udp (map_of (hb_conns hb) vm)) open')))"

definition hub_CloseAll :: "hub \<times> sock list \<Rightarrow> hub \<times> sock list" where
  "hub_CloseAll st =
     (case st of (hb, open') \<Rightarrow>
        (new_hub, filter (\<lambda>s. s \<notin> Udp ` snd ` set (hb_conns hb) \<and> s \<notin> Tcp ` snd ` set (hb_logs hb)) open'))"

datatype hub_op = Op_listen string string | Op_close string | Op_close_all

primrec hub_step :: "(sock \<Rightarrow> string option) \<Rightarrow> hub_op \<Rightarrow> hub \<times> sock list \<Rightarrow> hub \<times> sock list" where
  "hub_step deny (Op_listen vm ip) st = snd (Listen deny vm ip st)"
| "hub_step deny (Op_close vm) st = hub_Close vm st"
| "hub_step deny Op_close_all st = hub_CloseAll st"

text \<open>
  The sockets of the hub; they are open, each once, beside those of others, and a log stream belongs to a mailbox.
\<close>

definition own :: "hub \<Rightarrow> sock set" where
  "own hb = Udp ` snd ` set (hb_conns hb) \<union> Tcp ` snd ` set (hb_logs hb)"

definition hub_inv :: "sock set \<Rightarrow> hub \<times> sock list \<Rightarrow> bool" where
  "hub_inv others st \<longleftrightarrow>
     (case st of (hb, open') \<Rightarrow>
        distinct (map fst (hb_conns hb)) \<and> distinct (map snd (hb_conns hb)) \<and> distinct (map fst (hb_logs hb)) \<and>
        distinct (map snd (hb_logs hb)) \<and> fst ` set (hb_logs hb) \<subseteq> fst ` set (hb_conns hb) \<and>
        others \<inter> own hb = {} \<and> set open' = others \<union> own hb)"

lemma delete_values:
  "distinct (map fst xs) \<Longrightarrow> distinct (map snd xs) \<Longrightarrow>
    snd ` set (AList.delete k xs) = snd ` set xs - (case map_of xs k of None \<Rightarrow> {} | Some v \<Rightarrow> {v})"
  by (induction xs) (auto split: option.splits dest: map_of_SomeD intro: rev_image_eqI)

lemma distinct_values_delete: "distinct (map snd xs) \<Longrightarrow> distinct (map snd (AList.delete k xs))"
  by (induction xs) (auto simp: in_set_delete)

lemma delete_keys: "fst ` set (AList.delete k xs) = fst ` set xs - {k}"
  by (force simp: in_set_delete)

lemma hub_inv_conn:
  assumes "hub_inv others (hb, open')" and "vm \<notin> fst ` set (hb_conns hb)" and "Udp addr \<notin> set open'"
  shows "hub_inv others (hb\<lparr> hb_conns := AList.update vm addr (hb_conns hb) \<rparr>, Udp addr # open')"
  using assms by (auto simp: hub_inv_def update_fresh own_def)

lemma hub_inv_log:
  assumes "hub_inv others (hb, open')" and "vm \<notin> fst ` set (hb_logs hb)" and "vm \<in> fst ` set (hb_conns hb)"
    and "Tcp addr \<notin> set open'"
  shows "hub_inv others (hb\<lparr> hb_logs := AList.update vm addr (hb_logs hb) \<rparr>, Tcp addr # open')"
  using assms by (auto simp: hub_inv_def update_fresh own_def)

lemma listen_inv:
  assumes "hub_inv others (hb, open')"
  shows "hub_inv others (snd (Listen deny vm ip (hb, open')))"
proof (cases "ip = '''' \<or> vm = '''' \<or> map_of (hb_conns hb) vm \<noteq> None")
  case True
  then show ?thesis using assms by (auto simp: Listen_def)
next
  case False
  let ?a = "JoinHostPort ip (itoa MailboxPort)" and ?l = "JoinHostPort ip (itoa LogStreamPort)"
  let ?hb1 = "hb\<lparr> hb_conns := AList.update vm ?a (hb_conns hb) \<rparr>"
  have f: "vm \<notin> fst ` set (hb_conns hb)" "vm \<notin> fst ` set (hb_logs hb)"
    using False assms by (auto simp: hub_inv_def map_of_eq_None_iff)
  show ?thesis
  proof (cases "Udp ?a \<notin> set open' \<and> deny (Udp ?a) = None")
    case False
    then show ?thesis using \<open>\<not> (ip = '''' \<or> vm = '''' \<or> map_of (hb_conns hb) vm \<noteq> None)\<close> assms
      by (auto simp: Listen_def Let_def split: option.splits)
  next
    case udp: True
    have i: "hub_inv others (?hb1, Udp ?a # open')" using hub_inv_conn [OF assms f(1)] udp by blast
    have "vm \<notin> fst ` set (hb_logs ?hb1)" "vm \<in> fst ` set (hb_conns ?hb1)"
      using f by (simp_all add: update_fresh)
    note j = hub_inv_log [OF i this, of ?l]
    show ?thesis using False udp i j by (auto simp: Listen_def Let_def)
  qed
qed

lemma close_inv:
  assumes "hub_inv others (hb, open')"
  shows "hub_inv others (hub_Close vm (hb, open'))"
proof -
  let ?hb = "\<lparr> hb_conns = AList.delete vm (hb_conns hb), hb_logs = AList.delete vm (hb_logs hb) \<rparr>"
  let ?u = "case map_of (hb_conns hb) vm of None \<Rightarrow> {} | Some v \<Rightarrow> {Udp v}"
  let ?t = "case map_of (hb_logs hb) vm of None \<Rightarrow> {} | Some v \<Rightarrow> {Tcp v}"
  have o: "own ?hb = own hb - ?u - ?t"
    using assms delete_values [of "hb_conns hb" vm] delete_values [of "hb_logs hb" vm]
    by (auto simp: own_def hub_inv_def split: option.splits)
  have c: "?u \<union> ?t \<subseteq> own hb"
    by (auto simp: own_def split: option.splits dest!: map_of_SomeD intro: rev_image_eqI)
  have "set (closed (map_option Tcp (map_of (hb_logs hb) vm)) (closed (map_option Udp (map_of (hb_conns hb) vm)) open')) =
      set open' - ?u - ?t"
    by (auto simp: closed_def split: option.splits)
  moreover have "set open' = others \<union> own hb" "others \<inter> own hb = {}" using assms by (simp_all add: hub_inv_def)
  ultimately have "set (snd (hub_Close vm (hb, open'))) = others \<union> own ?hb" "others \<inter> own ?hb = {}"
    using o c by (auto simp: hub_Close_def)
  then show ?thesis using assms
    by (auto simp: hub_inv_def hub_Close_def distinct_values_delete distinct_delete delete_keys)
qed

lemma close_all_inv:
  assumes "hub_inv others (hb, open')"
  shows "hub_inv others (hub_CloseAll (hb, open')) \<and> set (snd (hub_CloseAll (hb, open'))) = others"
proof -
  have "set (snd (hub_CloseAll (hb, open'))) = set open' - own hb" by (auto simp: hub_CloseAll_def own_def)
  also have "\<dots> = others" using assms by (auto simp: hub_inv_def)
  finally show ?thesis by (auto simp: hub_inv_def hub_CloseAll_def new_hub_def own_def)
qed

text \<open>
  The mailbox accounts for its sockets: after any sequence of guests listened to and closed, the sockets open on
  the host are exactly those of others and one mailbox for each guest that is listened to, with its log stream
  where that could be opened; none is lost, and when all are closed only the others are left.
\<close>

theorem hub_accounts:
  "hub_inv (set foreign) (fold (hub_step deny) ops (new_hub, foreign)) \<and>
   set (snd (hub_CloseAll (fold (hub_step deny) ops (new_hub, foreign)))) = set foreign"
proof -
  have step: "hub_inv (set foreign) s \<Longrightarrow> hub_inv (set foreign) (hub_step deny op s)" for op s
    using listen_inv close_inv close_all_inv by (cases op; cases s) auto
  have "hub_inv (set foreign) s \<Longrightarrow> hub_inv (set foreign) (fold (hub_step deny) ops s)" for s
    by (induction ops arbitrary: s) (auto simp: step)
  moreover have "hub_inv (set foreign) (new_hub, foreign)" by (simp add: hub_inv_def new_hub_def own_def)
  ultimately have "hub_inv (set foreign) (fold (hub_step deny) ops (new_hub, foreign))" by blast
  then show ?thesis using close_all_inv by (metis prod.collapse)
qed

section \<open>Bringing a guest up\<close>

text \<open>
  The host with the mailbox and its sockets. A backend is its create and boot, as they come out, and the manager
  the cleaner uses.
\<close>

record 's node =
  nd_host :: "'s host"
  nd_hub :: "hub option"
  nd_socks :: "sock list"

record 's backend =
  bk_create :: "vm_config \<Rightarrow> 's host \<Rightarrow> (vmm_error + vm_info) \<times> 's host"
  bk_boot :: "string \<Rightarrow> 's host \<Rightarrow> vmm_error option \<times> 's host"
  bk_manager :: "'s manager"

definition HostIP :: "os \<Rightarrow> string \<Rightarrow> 's host \<Rightarrow> string" where
  "HostIP os vm h =
     (if os_root os = '''' \<or> vm = '''' then ''''
      else case instance_file vm ''net/host_ip'' h of None \<Rightarrow> '''' | Some t \<Rightarrow> trim_space t)"

definition listenMailbox :: "os \<Rightarrow> (sock \<Rightarrow> string option) \<Rightarrow> string \<Rightarrow> 's node \<Rightarrow> 's node" where
  "listenMailbox os deny vm nd =
     (case nd_hub nd of
        None \<Rightarrow> nd
      | Some hb \<Rightarrow>
          (let ip = HostIP os vm (nd_host nd) in
           if ip = '''' then nd
           else case Listen deny vm ip (hb, nd_socks nd) of
             (e, hb1, socks) \<Rightarrow> nd\<lparr> nd_hub := Some hb1, nd_socks := socks \<rparr>))"

text \<open>A pass of \<open>waitGuestReady\<close>: what happened since, the check given to the pool, the time, the context.\<close>

record 's ready_round =
  rr_world :: "'s host \<Rightarrow> 's host"
  rr_check :: bool
  rr_now :: gotime
  rr_ctx :: "string option"

datatype bring_error = CreateFailed vmm_error | BootFailed vmm_error | NotReady string

fun waitGuestReady :: "string \<Rightarrow> gotime \<Rightarrow> 's ready_round list \<Rightarrow> 's host \<Rightarrow> string option option \<times> 's host" where
  "waitGuestReady vm deadline [] h = (None, h)"
| "waitGuestReady vm deadline (r # rs) h =
     (let h1 = rr_world r h in
      if rr_check r \<or> guest_file vm ''agent.ready'' h1 \<noteq> None then (Some None, h1)
      else if rr_now r > deadline then (Some (Some ''timeout''), h1)
      else case rr_ctx r of Some e \<Rightarrow> (Some (Some e), h1) | None \<Rightarrow> waitGuestReady vm deadline rs h1)"

definition cleaned :: "os \<Rightarrow> 's backend \<Rightarrow> string \<Rightarrow> 's node \<Rightarrow> 's node" where
  "cleaned os bk vm nd = nd\<lparr> nd_host := snd (Cleaner_Destroy os (Some (bk_manager bk)) vm (nd_host nd)) \<rparr>"

text \<open>\<open>provision\<close>; \<open>None\<close> when the guest is neither ready nor given up within the passes.\<close>

definition provision ::
  "os \<Rightarrow> (sock \<Rightarrow> string option) \<Rightarrow> 's backend \<Rightarrow> gotime \<Rightarrow> 's ready_round list \<Rightarrow> vm_config \<Rightarrow> 's node \<Rightarrow>
   bring_error option option \<times> 's node" where
  "provision os deny bk deadline rounds c nd =
     (let vm = vc_id c in
      case bk_create bk c (nd_host nd) of
        (Inl e, h) \<Rightarrow> (Some (Some (CreateFailed e)), nd\<lparr> nd_host := h \<rparr>)
      | (Inr info, h) \<Rightarrow>
          (let nd1 = listenMailbox os deny vm (nd\<lparr> nd_host := h \<rparr>) in
           case bk_boot bk vm (nd_host nd1) of
             (Some e, h1) \<Rightarrow> (Some (Some (BootFailed e)), cleaned os bk vm (nd1\<lparr> nd_host := h1 \<rparr>))
           | (None, h1) \<Rightarrow>
               (case waitGuestReady vm deadline rounds h1 of
                  (None, h2) \<Rightarrow> (None, nd1\<lparr> nd_host := h2 \<rparr>)
                | (Some None, h2) \<Rightarrow> (Some None, nd1\<lparr> nd_host := h2 \<rparr>)
                | (Some (Some e), h2) \<Rightarrow> (Some (Some (NotReady e)), cleaned os bk vm (nd1\<lparr> nd_host := h2 \<rparr>)))))"

text \<open>What \<open>finishBootWarm\<close> and \<open>createAndBoot\<close> do on the host: one more destroy when that failed.\<close>

definition bring_up ::
  "os \<Rightarrow> (sock \<Rightarrow> string option) \<Rightarrow> 's backend \<Rightarrow> gotime \<Rightarrow> 's ready_round list \<Rightarrow> vm_config \<Rightarrow> 's node \<Rightarrow>
   bring_error option option \<times> 's node" where
  "bring_up os deny bk deadline rounds c nd =
     (case provision os deny bk deadline rounds c nd of
        (Some (Some e), nd1) \<Rightarrow> (Some (Some e), cleaned os bk (vc_id c) nd1)
      | (r, nd1) \<Rightarrow> (r, nd1))"

text \<open>\<open>destroyNow\<close> on the host: the mailbox is closed, waits are told, the instance is destroyed.\<close>

definition take_down :: "os \<Rightarrow> 's backend \<Rightarrow> string \<Rightarrow> 's node \<Rightarrow> vmm_error option \<times> 's node" where
  "take_down os bk vm nd =
     (let nd1 = (case nd_hub nd of
                   None \<Rightarrow> nd
                 | Some hb \<Rightarrow> (case hub_Close vm (hb, nd_socks nd) of (hb1, socks) \<Rightarrow> nd\<lparr> nd_hub := Some hb1, nd_socks := socks \<rparr>));
          h1 = SignalRunnerStopped os vm (nd_host nd1)
      in case Cleaner_Destroy os (Some (bk_manager bk)) vm h1 of (e, h2) \<Rightarrow> (e, nd1\<lparr> nd_host := h2 \<rparr>))"

lemma listening:
  assumes "vm \<noteq> ''''" and "ip \<noteq> ''''" and "map_of (hb_conns hb) vm = None"
    and "Udp (JoinHostPort ip (itoa MailboxPort)) \<notin> set socks" and "deny (Udp (JoinHostPort ip (itoa MailboxPort))) = None"
    and "Listen deny vm ip (hb, socks) = (e, hb1, socks1)"
  shows "map_of (hb_conns hb1) vm = Some (JoinHostPort ip (itoa MailboxPort)) \<and>
    Udp (JoinHostPort ip (itoa MailboxPort)) \<in> set socks1"
  using assms by (auto simp: Listen_def Let_def update_conv' split: if_splits)

lemma listen_taken:
  "ip \<noteq> '''' \<Longrightarrow> vm \<noteq> '''' \<Longrightarrow> map_of (hb_conns hb) vm = None \<Longrightarrow> Udp (JoinHostPort ip (itoa MailboxPort)) \<in> set socks \<Longrightarrow>
    fst (Listen deny vm ip (hb, socks)) \<noteq> None"
  by (simp add: Listen_def Let_def)

lemma cleaned_hub [simp]: "nd_hub (cleaned os bk vm nd) = nd_hub nd" "nd_socks (cleaned os bk vm nd) = nd_socks nd"
  by (simp_all add: cleaned_def)

lemma bring_up_hub:
  assumes "bring_up os deny bk deadline rounds c nd = (Some (Some e), nd')" and "bk_create bk c (nd_host nd) = (Inr info, h)"
  shows "nd_hub nd' = nd_hub (listenMailbox os deny (vc_id c) (nd\<lparr> nd_host := h \<rparr>)) \<and>
    nd_socks nd' = nd_socks (listenMailbox os deny (vc_id c) (nd\<lparr> nd_host := h \<rparr>))"
  using assms by (auto simp: bring_up_def provision_def Let_def split: option.splits prod.splits)

text \<open>
  A guest that is created but does not come up (it does not boot, or is not ready in time) is destroyed without
  closing its mailbox: its socket stays open although nobody knows the guest any more, and no other guest can be
  listened to at that address for as long as the agent runs.
\<close>

theorem failed_guest_keeps_mailbox:
  assumes "bring_up os deny bk deadline rounds c nd = (Some (Some e), nd')"
    and "bk_create bk c (nd_host nd) = (Inr info, h)"
    and "nd_hub nd = Some hb" and "HostIP os (vc_id c) h = ip" and "ip \<noteq> ''''" and "map_of (hb_conns hb) (vc_id c) = None"
    and "Udp (JoinHostPort ip (itoa MailboxPort)) \<notin> set (nd_socks nd)" and "deny (Udp (JoinHostPort ip (itoa MailboxPort))) = None"
  shows "\<exists>hb'. nd_hub nd' = Some hb' \<and> map_of (hb_conns hb') (vc_id c) = Some (JoinHostPort ip (itoa MailboxPort)) \<and>
    Udp (JoinHostPort ip (itoa MailboxPort)) \<in> set (nd_socks nd') \<and>
    (\<forall>other. other \<noteq> '''' \<and> map_of (hb_conns hb') other = None \<longrightarrow> fst (Listen deny other ip (hb', nd_socks nd')) \<noteq> None)"
proof -
  have vm: "vc_id c \<noteq> ''''" using assms(4,5) by (auto simp: HostIP_def)
  obtain er hb1 socks1 where l: "Listen deny (vc_id c) ip (hb, nd_socks nd) = (er, hb1, socks1)" by (metis prod_cases3)
  have "nd_hub nd' = Some hb1" "nd_socks nd' = socks1"
    using bring_up_hub [OF assms(1,2)] assms(3-5) l by (auto simp: listenMailbox_def)
  then show ?thesis using listening [OF vm assms(5-8) l] listen_taken [OF assms(5)] by auto
qed

text \<open>Taken down in the regular way, a guest's mailbox is closed.\<close>

lemma taken_down_closed:
  "take_down os bk vm nd = (e, nd') \<Longrightarrow> nd_hub nd = Some hb \<Longrightarrow> hub_inv others (hb, nd_socks nd) \<Longrightarrow>
    \<exists>hb'. nd_hub nd' = Some hb' \<and> map_of (hb_conns hb') vm = None \<and> hub_inv others (hb', nd_socks nd')"
  using close_inv [of others hb "nd_socks nd" vm]
  by (auto simp: take_down_def hub_Close_def Let_def delete_conv' split: prod.splits)

definition quiet_tools :: "unit tools" where
  "quiet_tools = \<lparr> t_ip = (\<lambda>args s. (True, s)), t_ipt = (\<lambda>args s. (True, s)) \<rparr>"

definition failing_backend :: "unit backend" where
  "failing_backend =
     \<lparr> bk_create = (\<lambda>c h. (Inr (bare_info (vc_id c)),
          put_entry (vc_id c) (Some \<lparr> in_meta = NoMeta, in_files = [(''net/host_ip'', ''10.231.0.5'')] \<rparr>) h)),
        bk_boot = fc_Boot box_os \<lparr> be_start = Inl ''no kvm'', be_sock = False, be_api = (\<lambda>_. None) \<rparr>,
        bk_manager = \<lparr> mg_destroy = fc_Destroy quiet_tools demo_fc box_os, mg_list = fc_List box_os \<rparr> \<rparr>"


definition demo_node :: "unit node" where
  "demo_node = \<lparr> nd_host = box_host [], nd_hub = Some new_hub, nd_socks = [] \<rparr>"


lemma failed_guest_keeps_mailbox_witness:
  "\<exists>e nd'. bring_up box_os (\<lambda>_. None) failing_backend 0 [] (demo_vm ''vm-c'') demo_node = (Some (Some e), nd') \<and> nd_socks nd' \<noteq> []"
proof -
  let ?up = "bring_up box_os (\<lambda>_. None) failing_backend 0 [] (demo_vm ''vm-c'') demo_node"
  let ?h = "put_entry ''vm-c'' (Some \<lparr> in_meta = NoMeta, in_files = [(''net/host_ip'', ''10.231.0.5'')] \<rparr>) (box_host [])"
  have c: "bk_create failing_backend (demo_vm ''vm-c'') (nd_host demo_node) = (Inr (bare_info ''vm-c''), ?h)"
    by (simp add: failing_backend_def demo_vm_def demo_node_def)
  have "bk_boot failing_backend vm g \<noteq> (None, g')" for vm g g'
    by (auto simp: failing_backend_def fc_Boot_def Let_def split: sum.splits option.splits)
  then have "\<exists>e. fst ?up = Some (Some e)"
    using c by (auto simp: bring_up_def provision_def Let_def split: prod.splits option.splits)
  then obtain e nd' where u: "?up = (Some (Some e), nd')" by (metis prod.collapse)
  have "instance_file (vc_id (demo_vm ''vm-c'')) ''net/host_ip'' ?h = Some ''10.231.0.5''"
    by (simp add: instance_file_def demo_vm_def put_entry_def entry_def update_conv')
  moreover have "trim_space ''10.231.0.5'' = ''10.231.0.5''" by code_simp
  ultimately have ip: "HostIP box_os (vc_id (demo_vm ''vm-c'')) ?h = ''10.231.0.5''"
    by (simp add: HostIP_def box_os_def demo_vm_def)
  have hub: "nd_hub demo_node = Some new_hub" "map_of (hb_conns new_hub) (vc_id (demo_vm ''vm-c'')) = None" "nd_socks demo_node = []"
    by (simp_all add: demo_node_def new_hub_def)
  from failed_guest_keeps_mailbox [OF u c hub(1) ip _ hub(2)] show ?thesis using u hub(3) by auto
qed

end
