(* ===== verification/Config.thy ===== *)
theory Config
  imports Pool Paths
begin

text \<open>
  \<open>internal/config/config.go\<close>: the configuration of the control plane and of the agent, with the defaults and
  checks of \<open>Validate\<close>, and the settings of the pool made from it (\<open>agent.go\<close>). Reading TOML is a library's.
  A field that \<open>Validate\<close> changes before it fails is changed in the result too.
\<close>

section \<open>Trimming\<close>

lemma trim_space_idem [golib, simp]: "trim_space (trim_space s) = trim_space s"
  by (rule trim_space_twice)

definition blank :: "string \<Rightarrow> bool" where
  "blank s \<longleftrightarrow> trim_space s = ''''"

definition or_text :: "string \<Rightarrow> string \<Rightarrow> string" where
  "or_text d s = (if blank s then d else s)"

lemma strip_runes_last: "strip_runes rs s = [] \<Longrightarrow> s \<noteq> [] \<Longrightarrow> last s \<in> last ` set rs"
proof (induction rs s rule: strip_runes.induct)
  case (1 rs s)
  then obtain r where r: "find (\<lambda>r. r \<noteq> [] \<and> prefix r s) rs = Some r"
    by (cases "find (\<lambda>r. r \<noteq> [] \<and> prefix r s) rs") (auto simp: strip_runes.simps [of rs s])
  then have "r \<in> set rs" "r \<noteq> []" and p: "prefix r s" by (auto dest: find_SomeD)
  show ?case
  proof (cases "drop (length r) s = []")
    case True
    then have "s = r" using p by (auto simp: prefix_def)
    then show ?thesis using \<open>r \<in> set rs\<close> by blast
  next
    case False
    then have "last (drop (length r) s) \<in> last ` set rs"
      using "1.IH" [OF r] "1.prems"(1) r by (simp add: strip_runes.simps [of rs s])
    then show ?thesis using False by (simp add: last_drop)
  qed
qed

lemma not_blank_last:
  assumes "s \<noteq> []" and "last s \<notin> last ` set space_runes"
  shows "\<not> blank s"
proof -
  have l: "trim_left s \<noteq> []" using strip_runes_last [of space_runes s] assms by (auto simp: trim_left_def)
  have "suffix (trim_left s) s" by (simp add: trim_left_def strip_runes_suffix)
  then have "last (trim_left s) = last s" using l by (metis last_appendR suffix_def)
  then have "strip_runes (map rev space_runes) (rev (trim_left s)) = rev (trim_left s)"
    using assms(2) l by (intro strip_runes_hd) (auto simp: hd_rev, metis imageI)
  then show ?thesis using l by (simp add: blank_def trim_space_def trim_right_def)
qed

lemma split_on_join: "split_on c (a @ c # b) = split_on c a @ split_on c b"
  by (induction a) (auto split: list.splits)

lemma join_on_snoc: "join_on c (ws @ [w]) = (if ws = [] then w else join_on c ws @ c # w)"
  by (cases ws) (auto simp: join_on_def)

lemma clean_ends: "CHR ''/'' \<notin> set n \<Longrightarrow> n \<notin> {'''', ''.'', ''..''} \<Longrightarrow> suffix n (filepath_Clean (d @ CHR ''/'' # n))"
  by (auto simp: filepath_Clean_def Let_def split_on_join split_on_single clean_step_def join_on_snoc has_prefix_def
      intro!: suffix_ConsI suffix_appendI)

lemma join_file: "d \<noteq> '''' \<Longrightarrow> filepath_Join [d, ''control.db''] = filepath_Clean (d @ CHR ''/'' # ''control.db'')"
  by (simp add: filepath_Join_def join_on_def)

lemma database_not_blank: "\<not> blank (filepath_Join [d, ''control.db''])" if "d \<noteq> ''''"
proof -
  have "suffix ''control.db'' (filepath_Join [d, ''control.db''])"
    unfolding join_file [OF that] by (rule clean_ends) simp_all
  then obtain p where "filepath_Join [d, ''control.db''] = p @ ''control.db''" by (auto simp: suffix_def)
  moreover have "CHR ''b'' \<notin> last ` set space_runes" by code_simp
  ultimately show ?thesis by (intro not_blank_last) simp_all
qed

section \<open>The control plane\<close>

record ControlConfig =
  cfg_listen :: string
  cfg_app_id :: int
  cfg_pem_path :: string
  cfg_webhook_secret :: string
  cfg_org :: string
  cfg_label_prefix :: string
  cfg_group :: int
  cfg_agent_token :: string
  cfg_mcp_token :: string
  cfg_tls_cert :: string
  cfg_tls_key :: string
  cfg_tls_ca :: string
  cfg_stuck :: int
  cfg_stale :: int
  cfg_reconcile :: int
  cfg_auth :: string
  cfg_sqlite :: string
  cfg_setup :: bool
  cfg_hostctl :: string
  cfg_data :: string

datatype config_error =
  BadAuthMode | Missing string | TLSPair | TLSClientCA | Negative string | ReadyOrder | BadBackend string | TotalOrder

definition looksFullyConfigured :: "ControlConfig \<Rightarrow> bool" where
  "looksFullyConfigured c \<longleftrightarrow>
     cfg_app_id c \<noteq> 0 \<and> \<not> blank (cfg_org c) \<and> \<not> blank (cfg_agent_token c) \<and> \<not> blank (cfg_webhook_secret c)"

definition NeedsSetup :: "ControlConfig \<Rightarrow> bool" where
  "NeedsSetup c \<longleftrightarrow> \<not> (cfg_setup c \<or> looksFullyConfigured c)"

text \<open>\<open>Validate\<close> in its stages: the fields up to the mode, the other defaults, the credentials, TLS, the intervals.\<close>

definition control_mode :: "ControlConfig \<Rightarrow> ControlConfig" where
  "control_mode c =
     (let data = or_text ''/var/lib/temperci'' (cfg_data c)
      in c\<lparr> cfg_listen := or_text ''0.0.0.0:8080'' (cfg_listen c), cfg_data := data,
            cfg_sqlite := or_text (filepath_Join [data, ''control.db'']) (cfg_sqlite c),
            cfg_auth := to_lower (trim_space (or_text ''open'' (cfg_auth c))) \<rparr>)"

definition control_defaults :: "ControlConfig \<Rightarrow> ControlConfig" where
  "control_defaults c =
     c\<lparr> cfg_hostctl := or_text ''/usr/local/bin/temperci-hostctl'' (cfg_hostctl c),
        cfg_label_prefix := (if cfg_label_prefix c = '''' then ''temperci-'' else cfg_label_prefix c),
        cfg_group := (if cfg_group c = 0 then 1 else cfg_group c),
        cfg_pem_path := or_text ''/etc/temperci/github-app.pem'' (cfg_pem_path c) \<rparr>"

definition missing_credential :: "ControlConfig \<Rightarrow> config_error option" where
  "missing_credential c =
     (if cfg_app_id c = 0 then Some (Missing ''github_app_id'')
      else if blank (cfg_webhook_secret c) then Some (Missing ''github_webhook_secret'')
      else if blank (cfg_org c) then Some (Missing ''github_org'')
      else if blank (cfg_agent_token c) then Some (Missing ''agent_token'') else None)"

definition control_tls :: "ControlConfig \<Rightarrow> ControlConfig" where
  "control_tls c = c\<lparr> cfg_tls_cert := trim_space (cfg_tls_cert c), cfg_tls_key := trim_space (cfg_tls_key c),
     cfg_tls_ca := trim_space (cfg_tls_ca c) \<rparr>"

definition control_times :: "ControlConfig \<Rightarrow> ControlConfig" where
  "control_times c =
     c\<lparr> cfg_stuck := (if cfg_stuck c = 0 then 3600 else cfg_stuck c),
        cfg_stale := (if cfg_stale c = 0 then 7200 else cfg_stale c),
        cfg_reconcile := (if cfg_reconcile c \<le> 0 then 30 else cfg_reconcile c) \<rparr>"

definition Validate_control :: "ControlConfig \<Rightarrow> config_error option \<times> ControlConfig" where
  "Validate_control c0 =
     (let c1 = control_mode c0 in
      if cfg_auth c1 \<noteq> ''open'' \<and> cfg_auth c1 \<noteq> ''password'' then (Some BadAuthMode, c1)
      else
        (let c2 = control_defaults c1 in
         case (if cfg_setup c2 \<or> looksFullyConfigured c2 then missing_credential c2 else None) of
           Some e \<Rightarrow> (Some e, c2)
         | None \<Rightarrow>
             (let c3 = control_tls c2 in
              if (cfg_tls_cert c3 = '''') \<noteq> (cfg_tls_key c3 = '''') then (Some TLSPair, c3)
              else if cfg_tls_ca c3 \<noteq> '''' \<and> cfg_tls_cert c3 = '''' then (Some TLSClientCA, c3)
              else (None, control_times c3))))"

text \<open>What the rest of the program relies on.\<close>

definition control_ok :: "ControlConfig \<Rightarrow> bool" where
  "control_ok c \<longleftrightarrow>
     \<not> blank (cfg_listen c) \<and> \<not> blank (cfg_data c) \<and> \<not> blank (cfg_sqlite c) \<and>
     (cfg_auth c = ''open'' \<or> cfg_auth c = ''password'') \<and> \<not> blank (cfg_hostctl c) \<and> cfg_label_prefix c \<noteq> '''' \<and>
     cfg_group c \<noteq> 0 \<and> \<not> blank (cfg_pem_path c) \<and> (cfg_setup c \<longrightarrow> looksFullyConfigured c) \<and>
     trim_space (cfg_tls_cert c) = cfg_tls_cert c \<and> trim_space (cfg_tls_key c) = cfg_tls_key c \<and>
     trim_space (cfg_tls_ca c) = cfg_tls_ca c \<and> (cfg_tls_cert c = '''' \<longleftrightarrow> cfg_tls_key c = '''') \<and>
     (cfg_tls_ca c \<noteq> '''' \<longrightarrow> cfg_tls_cert c \<noteq> '''') \<and> cfg_stuck c \<noteq> 0 \<and> cfg_stale c \<noteq> 0 \<and> 0 < cfg_reconcile c"

lemma blank_literals [simp]:
  "\<not> blank ''open''" "\<not> blank ''/var/lib/temperci''" "\<not> blank ''0.0.0.0:8080''"
  "\<not> blank ''/usr/local/bin/temperci-hostctl''" "\<not> blank ''/etc/temperci/github-app.pem''"
  "trim_space ''open'' = ''open''"
  by code_simp+

lemma or_text_blank [simp]: "blank (or_text d s) \<longleftrightarrow> blank d \<and> blank s"
  by (simp add: or_text_def)

text \<open>What \<open>Validate\<close> accepts is well formed, and passes unchanged.\<close>

lemma blank_eq: "blank s \<longleftrightarrow> trim_space s = ''''"
  by (simp add: blank_def)

lemma not_blank: "\<not> blank s \<Longrightarrow> s \<noteq> ''''"
  by (auto simp: blank_def)

lemma mode_fixed:
  "cfg_auth c = ''open'' \<or> cfg_auth c = ''password'' \<Longrightarrow> to_lower (trim_space (or_text ''open'' (cfg_auth c))) = cfg_auth c"
  by (elim disjE) (simp_all, code_simp+)

lemma control_ok_fixed:
  assumes "control_ok c"
  shows "control_tls c = c" "control_times c = c" "control_defaults c = c"
  using assms
  by (auto simp: control_ok_def control_tls_def control_times_def control_defaults_def or_text_def)

theorem control_config_accepted:
  assumes "Validate_control c0 = (None, c)"
  shows "control_ok c \<and> (NeedsSetup c \<or> looksFullyConfigured c)"
proof -
  let ?c1 = "control_mode c0" let ?c2 = "control_defaults ?c1" let ?c3 = "control_tls ?c2"
  have c: "c = control_times ?c3"
    and mode: "cfg_auth ?c1 = ''open'' \<or> cfg_auth ?c1 = ''password''"
    and cred: "(if cfg_setup ?c2 \<or> looksFullyConfigured ?c2 then missing_credential ?c2 else None) = None"
    and tls: "(cfg_tls_cert ?c3 = '''') = (cfg_tls_key ?c3 = '''')" "\<not> (cfg_tls_ca ?c3 \<noteq> '''' \<and> cfg_tls_cert ?c3 = '''')"
    using assms by (auto simp: Validate_control_def Let_def split: if_splits option.splits)
  have full: "cfg_setup ?c2 \<Longrightarrow> looksFullyConfigured ?c2"
    using cred by (auto simp: missing_credential_def looksFullyConfigured_def split: if_splits)
  have "\<not> blank (cfg_sqlite ?c1)"
    by (simp add: control_mode_def Let_def) (metis blank_literals(2) database_not_blank not_blank or_text_blank)
  moreover have "looksFullyConfigured c = looksFullyConfigured ?c2" "cfg_setup c = cfg_setup ?c2"
    unfolding c by (simp_all add: control_times_def control_tls_def looksFullyConfigured_def)
  ultimately show ?thesis
    using mode tls full unfolding c NeedsSetup_def
    by (auto simp: control_ok_def control_times_def control_tls_def control_defaults_def control_mode_def Let_def)
qed

lemma control_validation_again:
  assumes "Validate_control c0 = (None, c)"
  shows "Validate_control c = (None, c)"
proof -
  have ok: "control_ok c" and "NeedsSetup c \<or> looksFullyConfigured c" using control_config_accepted [OF assms] by auto
  then have cred: "(if cfg_setup c \<or> looksFullyConfigured c then missing_credential c else None) = None"
    by (auto simp: control_ok_def missing_credential_def looksFullyConfigured_def)
  have "control_mode c = c"
    using ok mode_fixed [of c] unfolding control_ok_def
    by (auto simp: control_mode_def Let_def or_text_def)
  then show ?thesis
    using ok cred control_ok_fixed [OF ok] by (auto simp: Validate_control_def control_ok_def)
qed

text \<open>
  Validating the control plane's configuration again changes nothing: what was accepted once is accepted as it is,
  so a configuration that was written to the file is the one that is loaded from it.
\<close>

theorem control_validation_idempotent:
  assumes "Validate_control c0 = (None, c)"
  shows "Validate_control c = (None, c) \<and> control_ok c"
  using control_validation_again control_config_accepted assms by blast

definition empty_control_config :: ControlConfig where
  "empty_control_config =
     \<lparr> cfg_listen = '''', cfg_app_id = 0, cfg_pem_path = '''', cfg_webhook_secret = '''', cfg_org = '''',
        cfg_label_prefix = '''', cfg_group = 0, cfg_agent_token = '''', cfg_mcp_token = '''', cfg_tls_cert = '''', cfg_tls_key = '''',
        cfg_tls_ca = '''', cfg_stuck = 0, cfg_stale = 0, cfg_reconcile = 0, cfg_auth = '' Open'', cfg_sqlite = '''',
        cfg_setup = False, cfg_hostctl = '''', cfg_data = '''' \<rparr>"

lemma control_validation_idempotent_witness:
  "\<exists>c. Validate_control empty_control_config = (None, c) \<and> Validate_control c = (None, c) \<and> cfg_auth c = ''open''"
proof -
  let ?r = "Validate_control empty_control_config"
  have "fst ?r = None \<and> cfg_auth (snd ?r) = ''open''" by code_simp
  then have r: "?r = (None, snd ?r)" "cfg_auth (snd ?r) = ''open''" by (simp_all add: prod_eq_iff)
  from control_validation_idempotent [OF r(1)] r show ?thesis by blast
qed

section \<open>The agent\<close>

record VMShapeConfig =
  shc_label :: string
  shc_vcpu :: int
  shc_memory :: int
  shc_min_ready :: int

record AgentConfig =
  acf_control_url :: string
  acf_agent_id :: string
  acf_token :: string
  acf_poll :: int
  acf_simulate :: int
  acf_deadline :: int
  acf_min_ready :: int
  acf_max_ready :: int
  acf_image :: string
  acf_kernel :: string
  acf_data :: string
  acf_scratch :: string
  acf_vcpu :: int
  acf_memory :: int
  acf_shapes :: "VMShapeConfig list"
  acf_idle :: int
  acf_backend :: string
  acf_reconcile :: int
  acf_max_total :: int
  acf_reserve_memory :: int
  acf_reserve_disk :: int
  acf_metrics :: string
  acf_cache_max :: int
  acf_cache_listen :: string
  acf_oci_max :: int
  acf_tls_ca :: string
  acf_tls_cert :: string
  acf_tls_key :: string
  acf_tls_insecure :: bool

definition defaultShapeLabel :: "int \<Rightarrow> int \<Rightarrow> string" where
  "defaultShapeLabel vcpus mem =
     (if vcpus = 4 \<and> mem = 8192 then ''temperci-4vcpu-ubuntu-2404''
      else (let g0 = mem sdiv 1024; g = (if g0 < 1 then 1 else g0)
            in ''temperci-'' @ itoa vcpus @ ''vcpu-'' @ itoa g @ ''g-ubuntu-2404''))"

definition normalizeShape :: "int \<Rightarrow> int \<Rightarrow> VMShapeConfig \<Rightarrow> config_error option \<times> VMShapeConfig" where
  "normalizeShape vcpu mem s0 =
     (let s1 = s0\<lparr> shc_vcpu := (if shc_vcpu s0 \<le> 0 then vcpu else shc_vcpu s0),
                   shc_memory := (if shc_memory s0 \<le> 0 then mem else shc_memory s0) \<rparr>
      in if shc_min_ready s1 < 0 then (Some (Negative ''shape min_ready''), s1)
         else (None, s1\<lparr> shc_label := or_text (defaultShapeLabel (shc_vcpu s1) (shc_memory s1)) (shc_label s1) \<rparr>))"

text \<open>The loop stops at the first shape that fails; those after it stay as they are.\<close>

fun normalize_shapes :: "int \<Rightarrow> int \<Rightarrow> VMShapeConfig list \<Rightarrow> config_error option \<times> VMShapeConfig list" where
  "normalize_shapes vcpu mem [] = (None, [])"
| "normalize_shapes vcpu mem (s # ss) =
     (case normalizeShape vcpu mem s of
        (Some e, s1) \<Rightarrow> (Some e, s1 # ss)
      | (None, s1) \<Rightarrow> (case normalize_shapes vcpu mem ss of (e, ss1) \<Rightarrow> (e, s1 # ss1)))"

definition sumShapeMinReady :: "VMShapeConfig list \<Rightarrow> int" where
  "sumShapeMinReady ss = foldl (\<lambda>n s. wrap64 (n + shc_min_ready s)) 0 ss"

definition trim_right_slashes :: "string \<Rightarrow> string" where
  "trim_right_slashes s = rev (dropWhile (\<lambda>c. c = CHR ''/'') (rev s))"

definition data_root :: "string \<Rightarrow> string \<Rightarrow> string" where
  "data_root data scratch =
     (if data \<noteq> '''' then data
      else if scratch = '''' then ''/var/lib/temperci''
      else
        let base = trim_right_slashes scratch in
        if has_suffix base ''/instances'' \<or> has_suffix base ''instances'' then
          (let d = trim_right_slashes (trim_suffix base ''instances'') in if d = '''' then ''/'' else d)
        else base)"

text \<open>
  \<open>Validate\<close> in its stages, \<open>None\<close> or the first error. \<open>host\<close> is the host's name, when the system tells one.
\<close>

definition agent_identity :: "string option \<Rightarrow> AgentConfig \<Rightarrow> config_error option \<times> AgentConfig" where
  "agent_identity host c0 =
     (let c1 = c0\<lparr> acf_control_url := or_text ''http://127.0.0.1:8080'' (acf_control_url c0) \<rparr> in
      if blank (acf_token c1) then (Some (Missing ''agent_token''), c1)
      else
        (let name = (case host of None \<Rightarrow> ''temperci-agent'' | Some h \<Rightarrow> if h = '''' then ''temperci-agent'' else h);
             c2 = c1\<lparr> acf_agent_id := or_text name (acf_agent_id c1),
                      acf_poll := (if acf_poll c1 \<le> 0 then 1 else acf_poll c1) \<rparr>
         in if acf_simulate c2 < 0 then (Some (Negative ''job_simulate_seconds''), c2)
            else if acf_deadline c2 < 0 then (Some (Negative ''job_deadline_seconds''), c2)
            else (None, c2)))"

definition agent_counts :: "AgentConfig \<Rightarrow> config_error option \<times> AgentConfig" where
  "agent_counts c0 =
     (if acf_min_ready c0 < 0 then (Some (Negative ''min_ready''), c0)
      else
        (let c1 = c0\<lparr> acf_max_ready :=
                     (if acf_max_ready c0 \<le> 0 then if acf_min_ready c0 > 0 then acf_min_ready c0 else 2
                      else acf_max_ready c0) \<rparr>
         in if acf_max_ready c1 < acf_min_ready c1 then (Some ReadyOrder, c1)
            else if blank (acf_image c1) then (Some (Missing ''image_path''), c1)
            else (None, c1\<lparr> acf_vcpu := (if acf_vcpu c1 \<le> 0 then 2 else acf_vcpu c1),
                             acf_memory := (if acf_memory c1 \<le> 0 then 2048 else acf_memory c1) \<rparr>)))"

definition agent_shapes :: "AgentConfig \<Rightarrow> config_error option \<times> AgentConfig" where
  "agent_shapes c0 =
     (case normalize_shapes (acf_vcpu c0) (acf_memory c0) (acf_shapes c0) of
        (Some e, ss) \<Rightarrow> (Some e, c0\<lparr> acf_shapes := ss \<rparr>)
      | (None, ss) \<Rightarrow>
          (None, c0\<lparr> acf_shapes := ss,
                     acf_max_ready := (if sumShapeMinReady ss > acf_max_ready c0 then sumShapeMinReady ss else acf_max_ready c0) \<rparr>))"

definition agent_backend :: "AgentConfig \<Rightarrow> config_error option \<times> AgentConfig" where
  "agent_backend c0 =
     (if acf_idle c0 < 0 then (Some (Negative ''idle_recycle_seconds''), c0)
      else
        (let c1 = c0\<lparr> acf_backend := or_text ''fake'' (acf_backend c0) \<rparr>; b = to_lower (acf_backend c1)
         in if b \<noteq> ''fake'' \<and> b \<noteq> ''firecracker'' then (Some (BadBackend (acf_backend c1)), c1)
            else if b = ''firecracker'' \<and> blank (acf_kernel c1) then (Some (Missing ''kernel_path''), c1\<lparr> acf_backend := b \<rparr>)
            else (None, c1\<lparr> acf_backend := b, acf_reconcile := (if acf_reconcile c1 \<le> 0 then 1 else acf_reconcile c1) \<rparr>)))"

definition positive_or :: "string \<Rightarrow> int \<Rightarrow> int \<Rightarrow> config_error + int" where
  "positive_or key d n = (if n < 0 then Inl (Negative key) else Inr (if n = 0 then d else n))"

definition agent_limits :: "AgentConfig \<Rightarrow> config_error option \<times> AgentConfig" where
  "agent_limits c0 =
     (let c1 = c0\<lparr> acf_max_total := (if acf_max_total c0 \<le> 0 then wrap64 (acf_max_ready c0 + 32) else acf_max_total c0) \<rparr> in
      if acf_max_total c1 < acf_max_ready c1 then (Some TotalOrder, c1)
      else case positive_or ''host_reserve_memory_mib'' 2048 (acf_reserve_memory c1) of
        Inl e \<Rightarrow> (Some e, c1)
      | Inr m \<Rightarrow>
          (let c2 = c1\<lparr> acf_reserve_memory := m \<rparr> in
           case positive_or ''host_reserve_disk_mib'' 5120 (acf_reserve_disk c2) of
             Inl e \<Rightarrow> (Some e, c2)
           | Inr d \<Rightarrow> (None, c2\<lparr> acf_reserve_disk := d \<rparr>)))"

definition agent_rest :: "AgentConfig \<Rightarrow> config_error option \<times> AgentConfig" where
  "agent_rest c0 =
     (let c1 = c0\<lparr> acf_metrics := trim_space (acf_metrics c0), acf_cache_listen := trim_space (acf_cache_listen c0) \<rparr> in
      case positive_or ''cache_max_bytes'' (50 * 2 ^ 30) (acf_cache_max c1) of
        Inl e \<Rightarrow> (Some e, c1)
      | Inr b \<Rightarrow>
          (let c2 = c1\<lparr> acf_cache_max := b \<rparr> in
           case positive_or ''oci_cache_max_bytes'' (100 * 2 ^ 30) (acf_oci_max c2) of
             Inl e \<Rightarrow> (Some e, c2)
           | Inr o' \<Rightarrow>
               (let c3 = c2\<lparr> acf_oci_max := o', acf_tls_ca := trim_space (acf_tls_ca c2),
                             acf_tls_cert := trim_space (acf_tls_cert c2), acf_tls_key := trim_space (acf_tls_key c2) \<rparr>
                in if (acf_tls_cert c3 = '''') \<noteq> (acf_tls_key c3 = '''') then (Some TLSPair, c3)
                   else (None, c3\<lparr> acf_scratch := trim_space (acf_scratch c3),
                                   acf_data := data_root (trim_space (acf_data c3)) (trim_space (acf_scratch c3)) \<rparr>))))"

definition and_then ::
  "(AgentConfig \<Rightarrow> config_error option \<times> AgentConfig) \<Rightarrow> config_error option \<times> AgentConfig \<Rightarrow>
   config_error option \<times> AgentConfig" where
  "and_then f r = (case r of (Some e, c) \<Rightarrow> (Some e, c) | (None, c) \<Rightarrow> f c)"

definition Validate_agent :: "string option \<Rightarrow> AgentConfig \<Rightarrow> config_error option \<times> AgentConfig" where
  "Validate_agent host c =
     and_then agent_rest (and_then agent_limits (and_then agent_backend (and_then agent_shapes
       (and_then agent_counts (agent_identity host c)))))"

section \<open>The pool of a configuration\<close>

definition EffectiveShapes :: "AgentConfig \<Rightarrow> VMShapeConfig list" where
  "EffectiveShapes c =
     (if acf_shapes c \<noteq> [] then acf_shapes c
      else if acf_min_ready c \<le> 0 then []
      else [\<lparr> shc_label = defaultShapeLabel (acf_vcpu c) (acf_memory c), shc_vcpu = acf_vcpu c,
              shc_memory = acf_memory c, shc_min_ready = acf_min_ready c \<rparr>])"

definition pool_shape :: "VMShapeConfig \<Rightarrow> VMShape" where
  "pool_shape s = \<lparr> vs_label = shc_label s, vs_vcpus = shc_vcpu s, vs_memory = shc_memory s, vs_min_ready = shc_min_ready s \<rparr>"

definition ShapesFromConfig :: "AgentConfig \<Rightarrow> VMShape list" where
  "ShapesFromConfig c = map pool_shape (EffectiveShapes c)"

text \<open>\<open>stat\<close> is what \<open>os.Stat\<close> says of the image.\<close>

definition PoolConfigFromAgent :: "(int \<times> int option) option \<Rightarrow> AgentConfig \<Rightarrow> PoolConfig" where
  "PoolConfigFromAgent stat c =
     (let r = wrap64 (acf_reconcile c * second)
      in \<lparr> pc_min_ready = acf_min_ready c, pc_max_ready = acf_max_ready c, pc_max_total = acf_max_total c,
           pc_vcpus = acf_vcpu c, pc_memory = acf_memory c, pc_disk = OverlayEstimateMiB stat,
           pc_reserve_ram = acf_reserve_memory c, pc_reserve_disk = acf_reserve_disk c, pc_image = acf_image c,
           pc_kernel = acf_kernel c, pc_idle_recycle = wrap64 (acf_idle c * second),
           pc_reconcile_interval = (if r \<le> 0 then second else r), pc_retry_base = 100 * millisecond,
           pc_retry_max = 5 * second, pc_bind_wait = 2 * second, pc_guest_ready_wait = 45 * second,
           pc_shapes = ShapesFromConfig c \<rparr>)"

definition shape_ok :: "VMShapeConfig \<Rightarrow> bool" where
  "shape_ok s \<longleftrightarrow> 0 < shc_vcpu s \<and> 0 < shc_memory s \<and> 0 \<le> shc_min_ready s \<and> \<not> blank (shc_label s)"

definition agent_ok :: "AgentConfig \<Rightarrow> bool" where
  "agent_ok c \<longleftrightarrow>
     \<not> blank (acf_control_url c) \<and> \<not> blank (acf_token c) \<and> 0 < acf_poll c \<and> 0 \<le> acf_simulate c \<and> 0 \<le> acf_deadline c \<and>
     0 \<le> acf_min_ready c \<and> acf_min_ready c \<le> acf_max_ready c \<and> 0 < acf_max_ready c \<and> acf_max_ready c \<le> acf_max_total c \<and>
     \<not> blank (acf_image c) \<and> 0 < acf_vcpu c \<and> 0 < acf_memory c \<and> list_all shape_ok (acf_shapes c) \<and>
     sumShapeMinReady (acf_shapes c) \<le> acf_max_ready c \<and> 0 \<le> acf_idle c \<and>
     (acf_backend c = ''fake'' \<or> acf_backend c = ''firecracker'' \<and> \<not> blank (acf_kernel c)) \<and> 0 < acf_reconcile c \<and>
     0 < acf_reserve_memory c \<and> 0 < acf_reserve_disk c \<and> 0 < acf_cache_max c \<and> 0 < acf_oci_max c \<and>
     (acf_tls_cert c = '''' \<longleftrightarrow> acf_tls_key c = '''')"

lemma and_then_None: "and_then f r = (None, c) \<longleftrightarrow> (\<exists>c1. r = (None, c1) \<and> f c1 = (None, c))"
  by (auto simp: and_then_def split: prod.splits option.splits)

lemma shape_label_starts: "\<exists>t. defaultShapeLabel v m = ''temperci-'' @ t \<and> t \<noteq> [] \<and> last t = CHR ''4''"
  by (auto simp: defaultShapeLabel_def Let_def)

lemma shape_label_not_blank: "\<not> blank (defaultShapeLabel v m)"
proof -
  have "CHR ''4'' \<notin> last ` set space_runes" by code_simp
  then show ?thesis using shape_label_starts [of v m] by (intro not_blank_last) auto
qed

lemma normalized:
  assumes "normalize_shapes v m ss = (None, ss')" and "0 < v" and "0 < m"
  shows "list_all shape_ok ss'"
  using assms(1)
proof (induction ss arbitrary: ss')
  case (Cons s ss)
  then obtain s1 ss1 where "normalizeShape v m s = (None, s1)" "normalize_shapes v m ss = (None, ss1)" "ss' = s1 # ss1"
    by (auto split: prod.splits option.splits)
  then show ?case
    using Cons.IH assms(2,3) by (auto simp: normalizeShape_def shape_ok_def Let_def shape_label_not_blank split: if_splits)
qed simp

lemma agent_identity_ok:
  "agent_identity host c0 = (None, c) \<Longrightarrow>
    \<not> blank (acf_control_url c) \<and> \<not> blank (acf_token c) \<and> 0 < acf_poll c \<and> 0 \<le> acf_simulate c \<and> 0 \<le> acf_deadline c"
proof -
  have "\<not> blank ''http://127.0.0.1:8080''" by code_simp
  then show "agent_identity host c0 = (None, c) \<Longrightarrow> ?thesis" by (auto simp: agent_identity_def Let_def split: if_splits)
qed

lemma agent_counts_ok:
  "agent_counts c0 = (None, c) \<Longrightarrow>
    0 \<le> acf_min_ready c \<and> acf_min_ready c \<le> acf_max_ready c \<and> 0 < acf_max_ready c \<and> \<not> blank (acf_image c) \<and>
    0 < acf_vcpu c \<and> 0 < acf_memory c"
  by (auto simp: agent_counts_def Let_def split: if_splits)

lemma agent_shapes_ok:
  "agent_shapes c0 = (None, c) \<Longrightarrow> 0 < acf_vcpu c0 \<Longrightarrow> 0 < acf_memory c0 \<Longrightarrow>
    list_all shape_ok (acf_shapes c) \<and> sumShapeMinReady (acf_shapes c) \<le> acf_max_ready c \<and> acf_max_ready c0 \<le> acf_max_ready c"
  using normalized by (auto simp: agent_shapes_def split: prod.splits option.splits)

lemma agent_backend_ok:
  "agent_backend c0 = (None, c) \<Longrightarrow>
    0 \<le> acf_idle c \<and> (acf_backend c = ''fake'' \<or> acf_backend c = ''firecracker'' \<and> \<not> blank (acf_kernel c)) \<and> 0 < acf_reconcile c"
  by (auto simp: agent_backend_def Let_def split: if_splits)

lemma positive_or_pos: "positive_or k d n = Inr m \<Longrightarrow> 0 < d \<Longrightarrow> 0 < m"
  by (auto simp: positive_or_def split: if_splits)

lemma agent_limits_ok:
  "agent_limits c0 = (None, c) \<Longrightarrow>
    acf_max_ready c \<le> acf_max_total c \<and> 0 < acf_reserve_memory c \<and> 0 < acf_reserve_disk c"
  by (auto simp: agent_limits_def Let_def split: if_splits sum.splits dest: positive_or_pos)

lemma agent_rest_ok:
  "agent_rest c0 = (None, c) \<Longrightarrow>
    0 < acf_cache_max c \<and> 0 < acf_oci_max c \<and> (acf_tls_cert c = '''' \<longleftrightarrow> acf_tls_key c = '''')"
  by (auto simp: agent_rest_def Let_def split: if_splits sum.splits dest: positive_or_pos)

text \<open>What the later stages leave as it was.\<close>

lemmas stage_defs = agent_counts_def agent_shapes_def agent_backend_def agent_limits_def agent_rest_def Let_def

lemma counts_keeps:
  "agent_counts c0 = (None, c) \<Longrightarrow> acf_control_url c = acf_control_url c0 \<and> acf_token c = acf_token c0 \<and>
    acf_poll c = acf_poll c0 \<and> acf_simulate c = acf_simulate c0 \<and> acf_deadline c = acf_deadline c0"
  by (auto simp: agent_counts_def Let_def split: if_splits)

lemma shapes_keeps:
  "agent_shapes c0 = (None, c) \<Longrightarrow> c = c0\<lparr> acf_shapes := acf_shapes c, acf_max_ready := acf_max_ready c \<rparr>"
  by (auto simp: agent_shapes_def split: prod.splits option.splits)

lemma backend_keeps:
  "agent_backend c0 = (None, c) \<Longrightarrow> c = c0\<lparr> acf_backend := acf_backend c, acf_reconcile := acf_reconcile c \<rparr>"
  by (auto simp: agent_backend_def Let_def split: if_splits)

lemma limits_keeps:
  "agent_limits c0 = (None, c) \<Longrightarrow> c = c0\<lparr> acf_max_total := acf_max_total c, acf_reserve_memory := acf_reserve_memory c,
    acf_reserve_disk := acf_reserve_disk c \<rparr>"
  by (auto simp: agent_limits_def Let_def split: if_splits sum.splits)

lemma rest_keeps:
  "agent_rest c0 = (None, c) \<Longrightarrow> c = c0\<lparr> acf_metrics := acf_metrics c, acf_cache_listen := acf_cache_listen c,
    acf_cache_max := acf_cache_max c, acf_oci_max := acf_oci_max c, acf_tls_ca := acf_tls_ca c, acf_tls_cert := acf_tls_cert c,
    acf_tls_key := acf_tls_key c, acf_scratch := acf_scratch c, acf_data := acf_data c \<rparr>"
  by (auto simp: agent_rest_def Let_def split: if_splits sum.splits)

lemma agent_config_accepted:
  assumes "Validate_agent host c0 = (None, c)"
  shows "agent_ok c"
proof -
  obtain c1 c2 c3 c4 c5 where s: "agent_identity host c0 = (None, c1)" "agent_counts c1 = (None, c2)"
      "agent_shapes c2 = (None, c3)" "agent_backend c3 = (None, c4)" "agent_limits c4 = (None, c5)" "agent_rest c5 = (None, c)"
    using assms by (auto simp: Validate_agent_def and_then_None)
  have k3: "c3 = c2\<lparr> acf_shapes := acf_shapes c3, acf_max_ready := acf_max_ready c3 \<rparr>" by (rule shapes_keeps [OF s(3)])
  have k4: "c4 = c3\<lparr> acf_backend := acf_backend c4, acf_reconcile := acf_reconcile c4 \<rparr>" by (rule backend_keeps [OF s(4)])
  have k5: "c5 = c4\<lparr> acf_max_total := acf_max_total c5, acf_reserve_memory := acf_reserve_memory c5,
      acf_reserve_disk := acf_reserve_disk c5 \<rparr>" by (rule limits_keeps [OF s(5)])
  have e3: "acf_min_ready c3 = acf_min_ready c2" "acf_control_url c3 = acf_control_url c2" "acf_token c3 = acf_token c2"
      "acf_poll c3 = acf_poll c2" "acf_simulate c3 = acf_simulate c2" "acf_deadline c3 = acf_deadline c2"
      "acf_image c3 = acf_image c2" "acf_vcpu c3 = acf_vcpu c2" "acf_memory c3 = acf_memory c2"
    by (subst k3, simp)+
  have e4: "acf_min_ready c4 = acf_min_ready c3" "acf_control_url c4 = acf_control_url c3" "acf_token c4 = acf_token c3"
      "acf_poll c4 = acf_poll c3" "acf_simulate c4 = acf_simulate c3" "acf_deadline c4 = acf_deadline c3"
      "acf_image c4 = acf_image c3" "acf_vcpu c4 = acf_vcpu c3" "acf_memory c4 = acf_memory c3"
      "acf_shapes c4 = acf_shapes c3" "acf_max_ready c4 = acf_max_ready c3"
    by (subst k4, simp)+
  have e5: "acf_min_ready c5 = acf_min_ready c4" "acf_control_url c5 = acf_control_url c4" "acf_token c5 = acf_token c4"
      "acf_poll c5 = acf_poll c4" "acf_simulate c5 = acf_simulate c4" "acf_deadline c5 = acf_deadline c4"
      "acf_image c5 = acf_image c4" "acf_vcpu c5 = acf_vcpu c4" "acf_memory c5 = acf_memory c4"
      "acf_shapes c5 = acf_shapes c4" "acf_max_ready c5 = acf_max_ready c4" "acf_idle c5 = acf_idle c4"
      "acf_backend c5 = acf_backend c4" "acf_kernel c5 = acf_kernel c4" "acf_reconcile c5 = acf_reconcile c4"
    by (subst k5, simp)+
  have "agent_ok c \<longleftrightarrow> agent_ok (c5\<lparr> acf_cache_max := acf_cache_max c, acf_oci_max := acf_oci_max c,
      acf_tls_cert := acf_tls_cert c, acf_tls_key := acf_tls_key c \<rparr>)"
    by (subst rest_keeps [OF s(6)]) (simp add: agent_ok_def)
  then show ?thesis
    using agent_identity_ok [OF s(1)] agent_counts_ok [OF s(2)] agent_backend_ok [OF s(4)] agent_limits_ok [OF s(5)]
      agent_rest_ok [OF s(6)] counts_keeps [OF s(2)] agent_shapes_ok [OF s(3)]
    by (simp add: agent_ok_def e5 e4 e3)
qed

section \<open>From the configuration to a filled pool\<close>

lemma sum_wrapped:
  "\<forall>s \<in> set ss. 0 \<le> shc_min_ready s \<Longrightarrow> 0 \<le> n \<Longrightarrow> n + sum_list (map shc_min_ready ss) < 2 ^ 63 \<Longrightarrow>
    foldl (\<lambda>n s. wrap64 (n + shc_min_ready s)) n ss = n + sum_list (map shc_min_ready ss)"
proof (induction ss arbitrary: n)
  case (Cons s ss)
  have "0 \<le> sum_list (map shc_min_ready ss)" using Cons.prems(1) by (intro sum_list_nonneg) auto
  then have "wrap64 (n + shc_min_ready s) = n + shc_min_ready s" using Cons.prems by (intro wrap64_id) auto
  then show ?case using Cons by simp
qed simp

lemma total_target_shapes:
  "list_all shape_ok ss \<Longrightarrow> total_target (map pool_shape ss) = sum_list (map shc_min_ready ss)"
  by (induction ss) (auto simp: total_target_def pool_shape_def shape_ok_def)

lemma effective_total:
  assumes "agent_ok c" and "total_target (ShapesFromConfig c) < 2 ^ 63"
  shows "total_target (ShapesFromConfig c) \<le> acf_max_ready c"
proof (cases "acf_shapes c = []")
  case True
  then show ?thesis using assms by (auto simp: agent_ok_def ShapesFromConfig_def EffectiveShapes_def total_target_def pool_shape_def)
next
  case False
  then have t: "total_target (ShapesFromConfig c) = sum_list (map shc_min_ready (acf_shapes c))"
    using assms(1) by (simp add: ShapesFromConfig_def EffectiveShapes_def total_target_shapes agent_ok_def)
  moreover have "sumShapeMinReady (acf_shapes c) = 0 + sum_list (map shc_min_ready (acf_shapes c))"
    unfolding sumShapeMinReady_def
    using assms t by (intro sum_wrapped) (auto simp: agent_ok_def shape_ok_def list_all_iff)
  ultimately show ?thesis using assms(1) by (simp add: agent_ok_def)
qed

text \<open>
  A refill on a host whose inventory is asked: each size gets its guests until a reservation is refused, for want of
  room on the host or because the pool is full.
\<close>

definition no_room :: "sample \<Rightarrow> VMShape \<Rightarrow> pool \<Rightarrow> bool" where
  "no_room smp s q \<longleftrightarrow> \<not> fst (canCreateLocked smp (vs_memory s) q) \<or>
     pc_max_ready (pl_cfg q) \<le> ct_warm (countsLocked q) + ct_boot (countsLocked q)"

definition names_free :: "vmID list \<Rightarrow> pool \<Rightarrow> bool" where
  "names_free ids p \<longleftrightarrow> \<not> pl_stopping p \<and> in_state Busy p = 0 \<and> distinct ids \<and> set ids \<inter> fst ` set (pl_vms p) = {}"

abbreviation with_boots :: "string \<Rightarrow> (vmID \<times> poolVM) list \<Rightarrow> pool \<Rightarrow> pool" where
  "with_boots a xs p \<equiv> p\<lparr> pl_last_admit := a, pl_vms := pl_vms p @ xs \<rparr>"

lemma reserve_cases:
  assumes "names_free (i # ids) p"
  obtains (boots) a where "reservePoolBoot now smp (Some i) s p = (None, with_boots a (boots_of now s [i]) p)"
      "have_ready s p < vs_min_ready s"
  | (refused) a where "reservePoolBoot now smp (Some i) s p = (Some ErrNoCapacity, p\<lparr> pl_last_admit := a \<rparr>)"
      "vs_min_ready s \<le> have_ready s p \<or> no_room smp s p"
proof -
  obtain ok a where q: "canCreateLocked smp (vs_memory s) p = (ok, p\<lparr> pl_last_admit := a \<rparr>)"
    by (atomize_elim) (auto simp: canCreateLocked_def noteAdmitRefuse_def Let_def split: option.splits)
  let ?full = "pc_max_ready (pl_cfg p) \<le> ct_warm (countsLocked p) + ct_boot (countsLocked p)"
  have n: "no_room smp s p \<longleftrightarrow> \<not> ok \<or> ?full" by (simp add: no_room_def q)
  have r: "reservePoolBoot now smp (Some i) s p =
      (if vs_min_ready s \<le> have_ready s p then (Some ErrNoCapacity, p)
       else if \<not> ok \<or> ?full then (Some ErrNoCapacity, p\<lparr> pl_last_admit := a \<rparr>)
       else (None, with_boots a (boots_of now s [i]) p))"
    using assms
    by (cases ok) (auto simp: reservePoolBoot_def Let_def q names_free_def have_ready_def countsLocked_def put_vm_def update_fresh boots_of_def)
  show thesis
  proof (cases "vs_min_ready s \<le> have_ready s p")
    case True
    then show thesis using refused [of "pl_last_admit p"] r by simp
  next
    case False
    then show thesis using refused [of a] boots [of a] r n by (cases "\<not> ok \<or> ?full") auto
  qed
qed

lemma no_room_admit [simp]: "no_room smp s (p\<lparr> pl_last_admit := a, pl_vms := xs \<rparr>) = no_room smp s (p\<lparr> pl_vms := xs \<rparr>)"
  "no_room smp s (p\<lparr> pl_last_admit := a \<rparr>) = no_room smp s p"
  by (auto simp: no_room_def canCreateLocked_def countsLocked_def in_state_def noteAdmitRefuse_def Total_def
      allocatedRAMLocked_def Let_def split: option.splits)

lemma names_free_boots:
  "names_free (i # ids) p \<Longrightarrow> names_free ids (with_boots a (boots_of now s [i]) p)"
  by (auto simp: names_free_def in_state_def boots_of_def pool_simps)

lemma have_ready_boots:
  "have_ready s (with_boots a (boots_of now s is) p) = have_ready s p + int (length is)"
  by (simp add: have_ready_def countShapeLocked_def boots_of_def filter_map o_def pool_simps)

lemma replenish_shape_asks:
  assumes "names_free ids p" and "vs_min_ready s - have_ready s p < int (length ids)" and "0 < length ids"
  shows "\<exists>k a. k < length ids \<and> replenish_shape now smp s ids p =
      (False, take k ids, drop (Suc k) ids, with_boots a (boots_of now s (take k ids)) p) \<and>
    (k = 0 \<or> int k \<le> vs_min_ready s - have_ready s p) \<and>
    (vs_min_ready s \<le> have_ready s p + int k \<or>
     int k < vs_min_ready s - have_ready s p \<and> no_room smp s (p\<lparr> pl_vms := pl_vms p @ boots_of now s (take k ids) \<rparr>))"
  using assms
proof (induction ids arbitrary: p)
  case (Cons i ids)
  from Cons.prems(1) show ?case
  proof (cases rule: reserve_cases [where now = now and smp = smp and s = s])
    case (boots a)
    let ?q = "with_boots a (boots_of now s [i]) p"
    have h: "have_ready s ?q = have_ready s p + 1" using have_ready_boots [where a = a and p = p and s = s and now = now and ?is = "[i]"] by simp
    have "vs_min_ready s - have_ready s ?q < int (length ids)" "0 < length ids"
      using Cons.prems(2) boots(2) h by auto
    then obtain k b where k: "k < length ids" "replenish_shape now smp s ids ?q =
        (False, take k ids, drop (Suc k) ids, with_boots b (boots_of now s (take k ids)) ?q)"
      "k = 0 \<or> int k \<le> vs_min_ready s - have_ready s ?q"
      "vs_min_ready s \<le> have_ready s ?q + int k \<or> int k < vs_min_ready s - have_ready s ?q \<and>
        no_room smp s (?q\<lparr> pl_vms := pl_vms ?q @ boots_of now s (take k ids) \<rparr>)"
      using Cons.IH [OF names_free_boots [OF Cons.prems(1)]] by blast
    have "replenish_shape now smp s (i # ids) p =
        (False, take (Suc k) (i # ids), drop (Suc (Suc k)) (i # ids), with_boots b (boots_of now s (take (Suc k) (i # ids))) p)"
      using boots(1) k(2) by (simp add: boots_of_def)
    then show ?thesis using k(1,3,4) h boots(2) by (intro exI [of _ "Suc k"] exI [of _ b]) (auto simp: boots_of_def)
  next
    case (refused a)
    then show ?thesis by (intro exI [of _ 0] exI [of _ a]) (auto simp: boots_of_def)
  qed
qed simp

lemma names_free_shape:
  assumes "names_free ids p"
  shows "names_free (drop (Suc k) ids) (with_boots a (boots_of now s (take k ids)) p)"
proof -
  have f: "filter (\<lambda>(i, vm). pv_state vm = Busy) (boots_of now s xs) = []" for xs
    by (induction xs) (auto simp: boots_of_def pool_simps)
  have "set (take k ids) \<inter> set (drop (Suc k) ids) = {}"
    using assms set_take_disj_set_drop_if_distinct [of ids k "Suc k"] by (simp add: names_free_def)
  then show ?thesis
    using assms f set_drop_subset [of "Suc k" ids]
    by (auto simp: names_free_def in_state_def boots_of_def distinct_drop)
qed

text \<open>How a refill leaves a size: at its target, or short of it since a reservation was refused on the way.\<close>

definition served :: "sample \<Rightarrow> VMShape list \<Rightarrow> pool \<Rightarrow> (vmID \<times> poolVM) list \<Rightarrow> VMShape \<Rightarrow> bool" where
  "served smp ss p xs s \<longleftrightarrow> vs_min_ready s \<le> 0 \<or> vs_min_ready s \<le> have_ready s (p\<lparr> pl_vms := pl_vms p @ xs \<rparr>) \<or>
     (\<exists>ys zs. xs = ys @ zs \<and> int (length ys) < total_target ss \<and> no_room smp s (p\<lparr> pl_vms := pl_vms p @ ys \<rparr>))"

lemma served_admit [simp]: "served smp ss (p\<lparr> pl_last_admit := a \<rparr>) xs s = served smp ss p xs s"
  by (simp add: served_def have_ready_def countShapeLocked_def)

lemma replenish_all_asks:
  assumes "names_free ids p" and "total_target ss + int (length ss) \<le> int (length ids)"
  shows "\<exists>a xs. replenish_all now smp ss ids p = (map fst xs, with_boots a xs p) \<and>
    (\<forall>(i, vm) \<in> set xs. pv_state vm = PoolBoot) \<and> distinct (map fst xs) \<and> set (map fst xs) \<subseteq> set ids \<and>
    (\<forall>s \<in> set ss. served smp ss p xs s)"
  using assms
proof (induction ss arbitrary: ids p)
  case Nil
  show ?case by (intro exI [of _ "pl_last_admit p"] exI [of _ "[]"]) simp
next
  case (Cons s ss)
  have t0: "0 \<le> total_target ss" by (rule total_target_nonneg)
  show ?case
  proof (cases "vs_min_ready s \<le> 0")
    case True
    then have t: "total_target (s # ss) = total_target ss" by (simp add: total_target_def)
    then obtain a xs where "replenish_all now smp ss ids p = (map fst xs, with_boots a xs p)"
      "\<forall>(i, vm) \<in> set xs. pv_state vm = PoolBoot" "distinct (map fst xs)" "set (map fst xs) \<subseteq> set ids"
      "\<forall>s \<in> set ss. served smp ss p xs s"
      using Cons.IH [of ids p] Cons.prems by auto
    then show ?thesis using True t by (intro exI [of _ a] exI [of _ xs]) (auto simp: served_def)
  next
    case False
    have h0: "0 \<le> have_ready s p" by (simp add: have_ready_def countShapeLocked_def)
    have t: "total_target (s # ss) = vs_min_ready s + total_target ss" using False by (simp add: total_target_def)
    have len: "vs_min_ready s - have_ready s p < int (length ids)" "0 < length ids" using Cons.prems(2) t t0 h0 False by auto
    obtain k a where k: "k < length ids" "replenish_shape now smp s ids p =
        (False, take k ids, drop (Suc k) ids, with_boots a (boots_of now s (take k ids)) p)"
      "k = 0 \<or> int k \<le> vs_min_ready s - have_ready s p"
      "vs_min_ready s \<le> have_ready s p + int k \<or> int k < vs_min_ready s - have_ready s p \<and>
        no_room smp s (p\<lparr> pl_vms := pl_vms p @ boots_of now s (take k ids) \<rparr>)"
      using replenish_shape_asks [OF Cons.prems(1) len, of now smp] by blast
    let ?b = "boots_of now s (take k ids)" let ?q = "with_boots a ?b p"
    have km: "int k \<le> vs_min_ready s" using k(3) h0 False by auto
    have lb: "length ?b = k" using k(1) by (simp add: boots_of_def)
    have "total_target ss + int (length ss) \<le> int (length (drop (Suc k) ids))"
      using Cons.prems(2) t km k(1) by simp
    then obtain b xs where ih: "replenish_all now smp ss (drop (Suc k) ids) ?q = (map fst xs, with_boots b xs ?q)"
        "\<forall>(i, vm) \<in> set xs. pv_state vm = PoolBoot" "distinct (map fst xs)" "set (map fst xs) \<subseteq> set (drop (Suc k) ids)"
        "\<forall>s \<in> set ss. served smp ss ?q xs s"
      using Cons.IH [OF names_free_shape [OF Cons.prems(1)]] by blast
    have fb: "map fst ?b = take k ids" by (simp add: boots_of_def o_def)
    have r: "replenish_all now smp (s # ss) ids p = (map fst (?b @ xs), with_boots b (?b @ xs) p)"
      using False k(2) ih(1) by (simp add: fb)
    have states: "\<forall>(i, vm) \<in> set (?b @ xs). pv_state vm = PoolBoot" using ih(2) by (auto simp: boots_of_def pool_simps)
    have d: "distinct (map fst (?b @ xs))" "set (map fst (?b @ xs)) \<subseteq> set ids"
      using ih(3,4) fb Cons.prems(1) set_take_disj_set_drop_if_distinct [of ids k "Suc k"] set_take_subset [of k ids]
        set_drop_subset [of "Suc k" ids]
      by (auto simp: names_free_def distinct_take)
    have first: "served smp (s # ss) p (?b @ xs) s"
      using k(4)
    proof
      assume "vs_min_ready s \<le> have_ready s p + int k"
      moreover have "have_ready s p + int k \<le> have_ready s (p\<lparr> pl_vms := pl_vms p @ ?b @ xs \<rparr>)"
        using have_ready_boots [where a = "pl_last_admit p" and p = p and s = s and now = now and ?is = "take k ids"] k(1)
        by (simp add: have_ready_def countShapeLocked_def)
      ultimately show ?thesis by (simp add: served_def)
    next
      assume short: "int k < vs_min_ready s - have_ready s p \<and> no_room smp s (p\<lparr> pl_vms := pl_vms p @ ?b \<rparr>)"
      then have "int (length ?b) < total_target (s # ss)" using lb t t0 h0 by linarith
      then show ?thesis using short unfolding served_def by blast
    qed
    have later: "served smp (s # ss) p (?b @ xs) s'" if s': "s' \<in> set ss" for s'
    proof -
      from ih(5) s' consider "vs_min_ready s' \<le> 0" | "vs_min_ready s' \<le> have_ready s' (?q\<lparr> pl_vms := pl_vms ?q @ xs \<rparr>)"
        | ys zs where "xs = ys @ zs" "int (length ys) < total_target ss" "no_room smp s' (?q\<lparr> pl_vms := pl_vms ?q @ ys \<rparr>)"
        unfolding served_def by blast
      then show ?thesis
      proof cases
        case (3 ys zs)
        have "?b @ xs = (?b @ ys) @ zs \<and> int (length (?b @ ys)) < total_target (s # ss) \<and>
            no_room smp s' (p\<lparr> pl_vms := pl_vms p @ ?b @ ys \<rparr>)"
          using 3 lb km t by simp
        then show ?thesis unfolding served_def by blast
      qed (simp_all add: served_def have_ready_def countShapeLocked_def)
    qed
    show ?thesis using r states d first later
      by (intro exI [of _ b] exI [of _ "?b @ xs"]) (auto simp del: map_append)
  qed
qed

text \<open>Every boot that succeeds turns its guest warm.\<close>

definition all_booted :: "gotime \<Rightarrow> vmID list \<Rightarrow> pool \<Rightarrow> pool" where
  "all_booted now ids p = fold (\<lambda>i q. snd (finish_boot_section now True i q)) ids p"

lemma all_booted_vms:
  assumes "distinct (map fst (pl_vms p))" and "set ids \<subseteq> fst ` set (pl_vms p)"
  shows "pl_vms (all_booted now ids p) =
    map (\<lambda>(i, vm). (i, if i \<in> set ids then vm\<lparr> pv_state := Warm, pv_warm_since := now \<rparr> else vm)) (pl_vms p)"
  using assms
proof (induction ids arbitrary: p)
  case Nil
  show ?case by (simp add: all_booted_def)
next
  case (Cons i ids)
  obtain vm where vm: "map_of (pl_vms p) i = Some vm" using Cons.prems(2) by (metis (no_types, lifting) list.set_intros(1) map_of_eq_None_iff not_None_eq subsetD)
  let ?w = "vm\<lparr> pv_state := Warm, pv_warm_since := now \<rparr>"
  let ?q = "p\<lparr> pl_vms := AList.update i ?w (pl_vms p) \<rparr>"
  have u: "AList.update i ?w xs = map (\<lambda>(j, v). (j, if j = i then v\<lparr> pv_state := Warm, pv_warm_since := now \<rparr> else v)) xs"
    if "distinct (map fst xs)" "map_of xs i = Some vm" for xs
    using that by (induction xs) (auto split: if_splits simp: rev_image_eqI intro!: map_idI [symmetric])
  have q: "pl_vms ?q = map (\<lambda>(j, v). (j, if j = i then v\<lparr> pv_state := Warm, pv_warm_since := now \<rparr> else v)) (pl_vms p)"
    using u [OF Cons.prems(1) vm] by simp
  have f: "map fst (pl_vms ?q) = map fst (pl_vms p)" unfolding q by (simp add: case_prod_beta o_def)
  have "pl_vms (all_booted now ids ?q) =
      map (\<lambda>(j, v). (j, if j \<in> set ids then v\<lparr> pv_state := Warm, pv_warm_since := now \<rparr> else v)) (pl_vms ?q)"
  proof (rule Cons.IH)
    show "distinct (map fst (pl_vms ?q))" unfolding f by (rule Cons.prems(1))
    have "fst ` set (pl_vms ?q) = fst ` set (pl_vms p)" using arg_cong [OF f, of set] by (simp only: set_map)
    then show "set ids \<subseteq> fst ` set (pl_vms ?q)" using Cons.prems(2) by (simp only: list.set insert_subset)
  qed
  moreover have "all_booted now (i # ids) p = all_booted now ids ?q"
    by (simp add: all_booted_def finish_boot_section_def get_vm_def vm put_vm_def)
  ultimately show ?case unfolding q by (auto simp: case_prod_beta)
qed

text \<open>What the inventory may change of a new pool: how many guests it keeps ready.\<close>

lemma new_pool_sampled:
  assumes "NewPool stat None cfg = Inr p0"
  shows "\<exists>g w. NewPool stat smp cfg = Inr (p0\<lparr> pl_cfg := g, pl_clamp_reason := w \<rparr>) \<and>
    pc_max_total g = pc_max_total (pl_cfg p0) \<and> pc_shapes g = pc_shapes (pl_cfg p0) \<and> (smp = None \<longrightarrow> g = pl_cfg p0)"
proof -
  have clamp: "pc_max_total c' = pc_max_total c \<and> pc_shapes c' = pc_shapes c" if "ClampPoolToHost c h = (c', fit, why)" for c h c' fit why
    using that by (auto simp: ClampPoolToHost_def Let_def split: prod.splits if_splits)
  define c3 where "c3 = (let c2 = sane_times (sane_shapes (sane_counts cfg))
    in if pc_disk c2 \<le> 0 then c2\<lparr> pc_disk := OverlayEstimateMiB stat \<rparr> else c2)"
  have image: "pc_image (sane_shapes (sane_counts cfg)) \<noteq> ''''" using assms by (auto simp: NewPool_def Let_def split: if_splits)
  have p0: "p0 = \<lparr> pl_cfg = c3, pl_vms = [], pl_started = False, pl_stopping = False, pl_last_err = '''',
      pl_metrics = no_metrics, pl_in_flight = 0, pl_in_flight_mem = 0, pl_configured_max = pc_max_ready c3,
      pl_clamp_reason = '''', pl_last_admit = '''', pl_wake = False \<rparr>"
    using assms by (auto simp: NewPool_def Let_def c3_def split: if_splits)
  show ?thesis
  proof (cases smp)
    case None
    then show ?thesis using assms p0 by simp
  next
    case (Some x)
    show ?thesis
    proof (cases x)
      case None
      then show ?thesis using Some image unfolding p0 by (simp add: NewPool_def Let_def c3_def [symmetric, unfolded Let_def])
    next
      case (Some h)
      obtain c' fit why where k: "ClampPoolToHost c3 h = (c', fit, why)" by (metis prod_cases3)
      show ?thesis using \<open>smp = Some x\<close> Some image clamp [OF k] k unfolding p0
        by (simp add: NewPool_def Let_def c3_def [symmetric, unfolded Let_def])
    qed
  qed
qed

lemma configured_pool_unsampled:
  assumes "agent_ok c"
  shows "\<exists>p. NewPool stat None (PoolConfigFromAgent stat c) = Inr p \<and> pl_vms p = [] \<and> pl_in_flight p = 0 \<and> \<not> pl_stopping p \<and>
    pl_configured_max p = acf_max_ready c \<and> pc_max_ready (pl_cfg p) = acf_max_ready c \<and>
    pc_max_total (pl_cfg p) = acf_max_total c \<and>
    pc_shapes (pl_cfg p) =
      (if ShapesFromConfig c = [] then [\<lparr> vs_label = ShapeLabel (acf_vcpu c) (acf_memory c), vs_vcpus = acf_vcpu c,
         vs_memory = acf_memory c, vs_min_ready = acf_min_ready c \<rparr>] else ShapesFromConfig c)"
proof -
  have "sane_counts (PoolConfigFromAgent stat c) = PoolConfigFromAgent stat c"
    using assms by (auto simp: agent_ok_def sane_counts_def PoolConfigFromAgent_def Let_def)
  moreover have "pc_image (PoolConfigFromAgent stat c) \<noteq> ''''"
    using assms by (auto simp: agent_ok_def PoolConfigFromAgent_def Let_def not_blank)
  ultimately show ?thesis
    using assms
    by (auto simp: NewPool_def Let_def sane_shapes_def sane_times_def PoolConfigFromAgent_def agent_ok_def)
qed

lemma configured_pool:
  assumes "agent_ok c"
  shows "\<exists>p. NewPool stat smp (PoolConfigFromAgent stat c) = Inr p \<and> pl_vms p = [] \<and> pl_in_flight p = 0 \<and> \<not> pl_stopping p \<and>
    pl_configured_max p = acf_max_ready c \<and> (smp = None \<longrightarrow> pc_max_ready (pl_cfg p) = acf_max_ready c) \<and>
    pc_max_total (pl_cfg p) = acf_max_total c \<and>
    pc_shapes (pl_cfg p) =
      (if ShapesFromConfig c = [] then [\<lparr> vs_label = ShapeLabel (acf_vcpu c) (acf_memory c), vs_vcpus = acf_vcpu c,
         vs_memory = acf_memory c, vs_min_ready = acf_min_ready c \<rparr>] else ShapesFromConfig c)"
proof -
  obtain p0 where p0: "NewPool stat None (PoolConfigFromAgent stat c) = Inr p0" and f: "pl_vms p0 = []" "pl_in_flight p0 = 0"
      "\<not> pl_stopping p0" "pl_configured_max p0 = acf_max_ready c" "pc_max_ready (pl_cfg p0) = acf_max_ready c"
      "pc_max_total (pl_cfg p0) = acf_max_total c"
      "pc_shapes (pl_cfg p0) =
        (if ShapesFromConfig c = [] then [\<lparr> vs_label = ShapeLabel (acf_vcpu c) (acf_memory c), vs_vcpus = acf_vcpu c,
           vs_memory = acf_memory c, vs_min_ready = acf_min_ready c \<rparr>] else ShapesFromConfig c)"
    using configured_pool_unsampled [OF assms] by blast
  obtain g w where g: "NewPool stat smp (PoolConfigFromAgent stat c) = Inr (p0\<lparr> pl_cfg := g, pl_clamp_reason := w \<rparr>)"
      "pc_max_total g = pc_max_total (pl_cfg p0)" "pc_shapes g = pc_shapes (pl_cfg p0)" "smp = None \<longrightarrow> g = pl_cfg p0"
    using new_pool_sampled [OF p0] by blast
  show ?thesis
    using g f by (intro exI [of _ "p0\<lparr> pl_cfg := g, pl_clamp_reason := w \<rparr>"]) (simp del: if_split)
qed

text \<open>What may keep a size from its target: the inventory refuses, or has cut the pool below what is configured.\<close>

definition host_refuses :: "sample \<Rightarrow> int \<Rightarrow> pool \<Rightarrow> bool" where
  "host_refuses smp mem q \<longleftrightarrow>
     (case smp of
        None \<Rightarrow> False
      | Some None \<Rightarrow> True
      | Some (Some h) \<Rightarrow> \<not> dec_ok (CanCreateMemory (pool_admission (pl_cfg q)) h (allocatedRAMLocked q) mem))"

definition pool_cut :: "pool \<Rightarrow> bool" where
  "pool_cut q \<longleftrightarrow> EffectiveMaxReady q < ConfiguredMaxReady q \<and> EffectiveMaxReady q \<le> Total (countsLocked q)"


definition demo_agent_config :: AgentConfig where
  "demo_agent_config =
     \<lparr> acf_control_url = '''', acf_agent_id = ''a'', acf_token = ''t'', acf_poll = 0, acf_simulate = 0, acf_deadline = 0,
        acf_min_ready = 0, acf_max_ready = 0, acf_image = ''/i'', acf_kernel = '''', acf_data = '''', acf_scratch = '''',
        acf_vcpu = 0, acf_memory = 0,
        acf_shapes = [\<lparr> shc_label = ''s'', shc_vcpu = 2, shc_memory = 2048, shc_min_ready = 3 \<rparr>], acf_idle = 0,
        acf_backend = '''', acf_reconcile = 0, acf_max_total = 0, acf_reserve_memory = 0, acf_reserve_disk = 0, acf_metrics = '''',
        acf_cache_max = 0, acf_cache_listen = '''', acf_oci_max = 0, acf_tls_ca = '''', acf_tls_cert = '''', acf_tls_key = '''',
        acf_tls_insecure = False \<rparr>"


text \<open>The data root of a scratch directory whose name ends in \<open>instances\<close>, but is not that name, is cut short.\<close>

lemma trim_right_slashes_id: "s = '''' \<or> last s \<noteq> CHR ''/'' \<Longrightarrow> trim_right_slashes s = s"
  by (cases s rule: rev_cases) (simp_all add: trim_right_slashes_def)

lemma scratch_dir_cut:
  assumes "last d \<noteq> CHR ''/''" and "d \<noteq> ''''"
  shows "data_root '''' (d @ ''instances'') = d"
proof -
  have "trim_right_slashes (d @ ''instances'') = d @ ''instances''" by (rule trim_right_slashes_id) simp
  then show ?thesis
    using assms trim_right_slashes_id [of d]
    by (simp add: data_root_def Let_def has_suffix_def trim_suffix_def suffix_def)
qed

end
