(* ===== verification/ConfigFiles.thy ===== *)
theory ConfigFiles
  imports Config
begin

text \<open>
  \<open>internal/config/write.go\<close>: how the dashboard edits \<open>agent.toml\<close> as text. The regular expressions are written
  out as the matchers they denote, \<open>regexp.ReplaceAllString\<close> with the expansion of its template; \<open>%q\<close> is
  written for printable texts. Reading TOML and writing \<open>control.toml\<close> are a library's.
\<close>

section \<open>One key\<close>

definition re_space :: "char \<Rightarrow> bool" where
  "re_space c \<longleftrightarrow> c \<in> {CHR 0x09, CHR 0x0A, CHR 0x0C, CHR 0x0D, CHR '' ''}"

definition newline :: char where "newline = CHR 0x0A"

text \<open>\<open>^\s*key\s*=\s*.*$\<close> at the beginning of a line: what follows the match.\<close>

definition key_match :: "string \<Rightarrow> string \<Rightarrow> string option" where
  "key_match key s =
     (let s1 = dropWhile re_space s in
      if has_prefix s1 key then
        (case dropWhile re_space (drop (length key) s1) of
           c # s2 \<Rightarrow> if c = CHR ''='' then Some (dropWhile (\<lambda>c. c \<noteq> newline) (dropWhile re_space s2)) else None
         | [] \<Rightarrow> None)
      else None)"

lemma length_dropWhile2: "length (dropWhile P (dropWhile Q s)) \<le> length s"
  by (meson length_dropWhile_le order_trans)

lemma length_key_match:
  assumes "key_match key s = Some r"
  shows "length r < length s"
proof -
  define s1 where "s1 = dropWhile re_space s"
  define t where "t = dropWhile re_space (drop (length key) s1)"
  have m: "(case t of c # s2 \<Rightarrow> if c = CHR ''='' then Some (dropWhile (\<lambda>c. c \<noteq> newline) (dropWhile re_space s2)) else None
      | [] \<Rightarrow> None) = Some r"
    using assms by (simp add: key_match_def Let_def s1_def t_def split: if_splits)
  have "length r < length t"
  proof (cases t)
    case (Cons c s2)
    then have "r = dropWhile (\<lambda>c. c \<noteq> newline) (dropWhile re_space s2)" using m by (simp split: if_splits)
    then show ?thesis using length_dropWhile2 [of "\<lambda>c. c \<noteq> newline" re_space s2] Cons by simp
  qed (use m in simp)
  also have "length t \<le> length (drop (length key) s1)" unfolding t_def by (rule length_dropWhile_le)
  also have "\<dots> \<le> length s" using length_dropWhile_le [of re_space s] by (simp add: s1_def)
  finally show ?thesis .
qed


fun has_key :: "string \<Rightarrow> bool \<Rightarrow> string \<Rightarrow> bool" where
  "has_key key bol [] = False"
| "has_key key bol (c # s) = (bol \<and> key_match key (c # s) \<noteq> None \<or> has_key key (c = newline) s)"

text \<open>Every match is replaced by \<open>f\<close> of what it matched.\<close>

function replace_key :: "string \<Rightarrow> (string \<Rightarrow> string) \<Rightarrow> bool \<Rightarrow> string \<Rightarrow> string" where
  "replace_key key f bol [] = []"
| "replace_key key f bol (c # s) =
     (case (if bol then key_match key (c # s) else None) of
        Some r \<Rightarrow> f (take (length (c # s) - length r) (c # s)) @ replace_key key f False r
      | None \<Rightarrow> c # replace_key key f (c = newline) s)"
  by pat_completeness auto
termination
  by (relation "measure (\<lambda>(key, f, bol, s). length s)") (auto dest: length_key_match split: if_splits)

text \<open>
  The template: \<open>$name\<close> and \<open>${name}\<close> stand for a group, of which there is only the whole match (\<open>0\<close>); any
  other name is empty. \<open>$$\<close> is a dollar, and so is a dollar that names nothing.
\<close>

definition name_char :: "char \<Rightarrow> bool" where
  "name_char c \<longleftrightarrow> is_digit c \<or> c = CHR 0x5F \<or> (let n = (of_char (lower_char c) :: nat) in 97 \<le> n \<and> n \<le> 122)"

definition template_name :: "string \<Rightarrow> (string \<times> string) option" where
  "template_name s =
     (case s of
        [] \<Rightarrow> None
      | c # s1 \<Rightarrow>
          if c = CHR ''{'' then
            (let n = takeWhile name_char s1; r = dropWhile name_char s1
             in if n = [] then None else (case r of [] \<Rightarrow> None | d # r1 \<Rightarrow> if d = CHR ''}'' then Some (n, r1) else None))
          else (let n = takeWhile name_char s in if n = [] then None else Some (n, dropWhile name_char s)))"

lemma length_template_name: "template_name s = Some (n, r) \<Longrightarrow> length r < length s"
proof -
  assume e: "template_name s = Some (n, r)"
  have "length (dropWhile name_char t) < length t" if "takeWhile name_char t \<noteq> []" for t
    using that by (cases t) (auto simp: le_imp_less_Suc length_dropWhile_le split: if_splits)
  then show ?thesis
    using e length_dropWhile_le [of name_char "tl s"]
    by (auto simp: template_name_def Let_def split: list.splits if_splits)
qed

function expand :: "string \<Rightarrow> string \<Rightarrow> string" where
  "expand m [] = []"
| "expand m (c # s) =
     (if c \<noteq> CHR ''$'' then c # expand m s
      else case s of
        [] \<Rightarrow> [c]
      | d # s1 \<Rightarrow>
          if d = CHR ''$'' then c # expand m s1
          else case template_name s of
            None \<Rightarrow> c # expand m s
          | Some (n, r) \<Rightarrow> (if n = ''0'' then m else []) @ expand m r)"
  by pat_completeness auto
termination
  by (relation "measure (\<lambda>(m, s). length s)") (auto dest: length_template_name)

definition quoted_char :: "char \<Rightarrow> string" where
  "quoted_char c = (if c = CHR 0x22 \<or> c = CHR 0x5C then [CHR 0x5C, c] else [c])"

definition go_quote :: "string \<Rightarrow> string" where
  "go_quote s = CHR 0x22 # concat (map quoted_char s) @ [CHR 0x22]"

definition key_line :: "string \<Rightarrow> string \<Rightarrow> string" where
  "key_line key value' = key @ '' = '' @ value'"

definition append_line :: "string \<Rightarrow> string \<Rightarrow> string" where
  "append_line line text' = (if has_suffix text' [newline] then text' else text' @ [newline]) @ line @ [newline]"

text \<open>The errors, and how the file ends up; \<open>None\<close> is a file that cannot be read, \<open>io\<close> the error of writing.\<close>

definition PatchAgentTOMLString ::
  "string option \<Rightarrow> string \<Rightarrow> string \<Rightarrow> string \<Rightarrow> string option \<Rightarrow> string option \<times> string option" where
  "PatchAgentTOMLString io path key value' file =
     (if path = '''' then (Some ''empty path'', file)
      else if key = '''' \<or> (\<exists>c \<in> {CHR '' '', CHR 0x09, CHR 0x0A, CHR ''=''}. c \<in> set key) then (Some ''invalid toml key'', file)
      else case file of
        None \<Rightarrow> (Some ''read'', file)
      | Some text' \<Rightarrow>
          (let line = key_line key (go_quote value');
               t = (if has_key key True text' then replace_key key (\<lambda>m. expand m line) True text' else append_line line text')
           in case io of Some e \<Rightarrow> (Some e, file) | None \<Rightarrow> (None, Some t)))"

definition upsertTOMLInt :: "string \<Rightarrow> string \<Rightarrow> int \<Rightarrow> string" where
  "upsertTOMLInt text' key n =
     (let line = key_line key (itoa n) in
      if has_key key True text' then replace_key key (\<lambda>m. expand m line) True text' else append_line line text')"

section \<open>The shapes\<close>

text \<open>\<open>(?:^[^\[][^\n]*\n)*\<close>: a row begins with any byte but a bracket, a newline too.\<close>

function eat_rows :: "string \<Rightarrow> string" where
  "eat_rows [] = []"
| "eat_rows (c # s) =
     (if c = CHR ''['' then c # s
      else case dropWhile (\<lambda>c. c \<noteq> newline) s of [] \<Rightarrow> c # s | _ # r \<Rightarrow> eat_rows r)"
  by pat_completeness auto
termination
  by (relation "measure length") (auto, metis dropWhile_eq_Cons_conv length_dropWhile_le length_Cons Suc_le_lessD less_Suc_eq)

text \<open>\<open>^\[\[name\]\]\s*\n\<close> and the rows after it, at the beginning of a line.\<close>

definition table_match :: "string \<Rightarrow> string \<Rightarrow> string option" where
  "table_match name s =
     (let h = ''[['' @ name @ '']]'' in
      if has_prefix s h then
        (let s1 = drop (length h) s; w = takeWhile re_space s1
         in if newline \<in> set w
            then Some (eat_rows (rev (takeWhile (\<lambda>c. c \<noteq> newline) (rev w)) @ dropWhile re_space s1)) else None)
      else None)"

lemma length_eat_rows: "length (eat_rows s) \<le> length s"
proof (induction s rule: eat_rows.induct)
  case (2 c s)
  show ?case
  proof (cases "dropWhile (\<lambda>c. c \<noteq> newline) s")
    case (Cons d r)
    have "length (d # r) \<le> length s" using length_dropWhile_le [of "\<lambda>c. c \<noteq> newline" s] by (simp add: Cons)
    then show ?thesis using 2 [OF _ Cons] Cons by auto
  next
    case Nil
    show ?thesis by (simp add: Nil split del: if_split) (simp add: Nil)
  qed
qed simp

lemma length_table_match:
  assumes "table_match name s = Some r"
  shows "length r < length s"
proof -
  let ?h = "''[['' @ name @ '']]''" let ?s1 = "drop (length ?h) s"
  have "length (rev (takeWhile (\<lambda>c. c \<noteq> newline) (rev (takeWhile re_space ?s1)))) \<le> length (takeWhile re_space ?s1)"
    by (metis length_rev length_takeWhile_le)
  moreover have "length (takeWhile re_space ?s1) + length (dropWhile re_space ?s1) = length ?s1"
    by (metis length_append takeWhile_dropWhile_id)
  moreover have "length ?s1 < length s" using assms by (auto simp: table_match_def has_prefix_def prefix_def split: if_splits)
  moreover have "length r \<le> length (rev (takeWhile (\<lambda>c. c \<noteq> newline) (rev (takeWhile re_space ?s1))) @ dropWhile re_space ?s1)"
    using assms length_eat_rows [of "rev (takeWhile (\<lambda>c. c \<noteq> newline) (rev (takeWhile re_space ?s1))) @ dropWhile re_space ?s1"]
    by (simp add: table_match_def Let_def split: if_splits)
  ultimately show ?thesis by simp
qed

function strip_tables :: "string \<Rightarrow> bool \<Rightarrow> string \<Rightarrow> string" where
  "strip_tables name bol [] = []"
| "strip_tables name bol (c # s) =
     (case (if bol then table_match name (c # s) else None) of
        Some r \<Rightarrow> strip_tables name True r
      | None \<Rightarrow> c # strip_tables name (c = newline) s)"
  by pat_completeness auto
termination
  by (relation "measure (\<lambda>(name, bol, s). length s)") (auto dest: length_table_match split: if_splits)

definition trim_newlines :: "string \<Rightarrow> string" where
  "trim_newlines s = rev (dropWhile (\<lambda>c. c = newline) (rev s))"

definition stripTOMLTables :: "string \<Rightarrow> string \<Rightarrow> string" where
  "stripTOMLTables text' name = trim_newlines (strip_tables name True text') @ [newline]"

definition shape_rows :: "VMShapeConfig \<Rightarrow> string" where
  "shape_rows s =
     ''[[shapes]]'' @ newline # key_line ''label'' (go_quote (shc_label s)) @ newline # key_line ''vcpu'' (itoa (shc_vcpu s)) @
     newline # key_line ''memory_mib'' (itoa (shc_memory s)) @ newline # key_line ''min_ready'' (itoa (shc_min_ready s)) @
     [newline, newline]"

text \<open>The error, the shapes as they were normalised, the file.\<close>

definition WriteAgentShapes ::
  "string option \<Rightarrow> string \<Rightarrow> VMShapeConfig list \<Rightarrow> string option \<Rightarrow> string option \<times> string option" where
  "WriteAgentShapes io path shapes file =
     (if path = '''' then (Some ''empty path'', file)
      else case normalize_shapes 4 8192 shapes of
        (Some e, ss) \<Rightarrow> (Some ''shape min_ready must be >= 0'', file)
      | (None, ss) \<Rightarrow>
          (case file of
             None \<Rightarrow> (Some ''read'', file)
           | Some raw \<Rightarrow>
               (let t0 = stripTOMLTables raw ''shapes'';
                    t1 = (case ss of
                            [] \<Rightarrow> upsertTOMLInt t0 ''min_ready'' 0
                          | s # _ \<Rightarrow>
                              upsertTOMLInt (upsertTOMLInt (upsertTOMLInt t0 ''vcpu'' (shc_vcpu s)) ''memory_mib'' (shc_memory s))
                                ''min_ready'' (shc_min_ready s));
                    t2 = (if has_suffix t1 [newline] then t1 else t1 @ [newline]);
                    t3 = (if ss = [] then t2 else t2 @ newline # concat (map shape_rows ss))
                in case io of Some e \<Rightarrow> (Some e, file) | None \<Rightarrow> (None, Some t3))))"

section \<open>The first agent file\<close>

definition AgentPathBeside :: "string \<Rightarrow> string" where
  "AgentPathBeside path =
     (if blank path then ''/etc/temperci/agent.toml'' else filepath_Join [filepath_Dir path, ''agent.toml''])"

definition agent_template :: "string \<Rightarrow> string \<Rightarrow> string \<Rightarrow> string" where
  "agent_template url token data =
     concat (map (\<lambda>l. l @ [newline])
       [''# Written by the TemperCI dashboard (first-time agent install).'',
        key_line ''control_url'' (go_quote url), key_line ''agent_token'' (go_quote token), key_line ''data_dir'' (go_quote data),
        key_line ''image_path'' (go_quote (filepath_Join [data, ''images'', ''ubuntu-2404-runner.ext4''])),
        key_line ''kernel_path'' (go_quote (filepath_Join [data, ''images'', ''vmlinux''])),
        key_line ''vmm_backend'' (go_quote ''firecracker''), key_line ''min_ready'' ''1'', key_line ''max_ready'' ''2'',
        key_line ''job_simulate_seconds'' ''0'', key_line ''cache_listen_addr'' (go_quote '''')])"

text \<open>\<open>stat\<close> is the error of \<open>os.Stat\<close> for a file that is neither there nor missing. The result says if it was made.\<close>

definition EnsureAgentTOML ::
  "string option \<Rightarrow> string option \<Rightarrow> string \<Rightarrow> string \<Rightarrow> string \<Rightarrow> string \<Rightarrow> string option \<Rightarrow> (string + bool) \<times> string option" where
  "EnsureAgentTOML stat io path url token0 data file =
     (if blank path then (Inl ''empty path'', file)
      else case file of
        Some t \<Rightarrow> (Inr False, file)
      | None \<Rightarrow>
          (case stat of
             Some e \<Rightarrow> (Inl e, file)
           | None \<Rightarrow>
               (let token = trim_space token0 in
                if token = '''' then (Inl ''agent_token is required'', file)
                else case io of
                  Some e \<Rightarrow> (Inl e, file)
                | None \<Rightarrow>
                    (Inr True, Some (agent_template (or_text ''http://127.0.0.1:8080'' url) token
                       (or_text ''/var/lib/temperci'' data))))))"

section \<open>What an edit keeps\<close>

lemma expand_plain: "CHR ''$'' \<notin> set s \<Longrightarrow> expand m s = s"
  by (induction s) auto

text \<open>The part of a file before its first table.\<close>

fun top_level :: "bool \<Rightarrow> string \<Rightarrow> string" where
  "top_level bol [] = []"
| "top_level bol (c # s) = (if bol \<and> c = CHR ''['' then [] else c # top_level (c = newline) s)"

fun has_table :: "bool \<Rightarrow> string \<Rightarrow> bool" where
  "has_table bol [] = False"
| "has_table bol (c # s) = (bol \<and> c = CHR ''['' \<or> has_table (c = newline) s)"

lemma top_level_append: "has_table bol a \<Longrightarrow> top_level bol (a @ b) = top_level bol a"
  by (induction a arbitrary: bol) auto

text \<open>
  A setting that a file with tables does not have yet is written into the last table: what is before the first
  table, where the agent looks for the setting, stays as it was.
\<close>

theorem new_setting_misses_top_level:
  assumes "PatchAgentTOMLString None path key value' (Some text') = (None, Some t)"
    and "has_table True text'" and "\<not> has_key key True text'"
  shows "top_level True t = top_level True text' \<and> prefix text' t"
proof -
  have "t = append_line (key_line key (go_quote value')) text'"
    using assms(1,3) by (auto simp: PatchAgentTOMLString_def Let_def split: if_splits)
  then show ?thesis
    using top_level_append [OF assms(2)] by (auto simp: append_line_def)
qed

lemma new_setting_misses_top_level_witness:
  "\<exists>t. PatchAgentTOMLString None ''a'' ''cache_listen_addr'' '':1'' (Some (''[[shapes]]'' @ [newline])) = (None, Some t) \<and>
     top_level True t = ''''"
proof -
  let ?r = "PatchAgentTOMLString None ''a'' ''cache_listen_addr'' '':1'' (Some (''[[shapes]]'' @ [newline]))"
  have "fst ?r = None \<and> snd ?r \<noteq> None" by code_simp
  then obtain t where t: "?r = (None, Some t)" by (metis option.exhaust prod.collapse)
  have "has_table True (''[[shapes]]'' @ [newline])" "\<not> has_key ''cache_listen_addr'' True (''[[shapes]]'' @ [newline])"
    by code_simp+
  from new_setting_misses_top_level [OF t this] t show ?thesis by simp
qed

text \<open>A setting with a dollar in it is taken for a template: what follows the dollar is lost.\<close>

lemma dollar_is_lost:
  "snd (PatchAgentTOMLString None ''a'' ''token'' ''x$y'' (Some ''token = 1'')) = Some (''token = '' @ go_quote ''x'')"
  by code_simp

text \<open>Removing the shapes removes another table, too, when a blank line is before it.\<close>

lemma strip_takes_next_table:
  "stripTOMLTables (''[[shapes]]'' @ [newline] @ ''vcpu = 1'' @ [newline, newline] @ ''[cache]'' @ [newline] @ ''max = 1'' @ [newline])
     ''shapes'' = [newline]"
  by code_simp

section \<open>Writing the shapes again\<close>

text \<open>What \<open>WriteAgentShapes\<close> appends is what it takes out the next time.\<close>

fun has_header :: "string \<Rightarrow> bool \<Rightarrow> string \<Rightarrow> bool" where
  "has_header name bol [] = False"
| "has_header name bol (c # s) = (bol \<and> has_prefix (c # s) (''[['' @ name @ '']]'') \<or> has_header name (c = newline) s)"

lemma header_within:
  assumes "has_prefix (u @ x) h" and "newline \<notin> set h" and "u \<noteq> []" and "last u = newline"
  shows "has_prefix u h"
proof (rule ccontr)
  assume "\<not> has_prefix u h"
  then obtain z where "h = u @ z" using assms(1) by (auto simp: has_prefix_def prefix_append)
  then show False using assms(2-4) by (metis UnCI last_in_set set_append)
qed

lemma strip_walk:
  assumes "newline \<notin> set name"
  shows "\<not> has_header name bol t \<Longrightarrow> (if t = [] then bol else last t = newline) \<Longrightarrow>
    strip_tables name bol (t @ x) = t @ strip_tables name True x"
proof (induction t arbitrary: bol)
  case (Cons c s)
  have "\<not> (bol \<and> has_prefix ((c # s) @ x) (''[['' @ name @ '']]''))"
    using Cons.prems assms header_within [of "c # s" x "''[['' @ name @ '']]''"] by (auto simp: newline_def)
  then have "(if bol then table_match name ((c # s) @ x) else None) = None" by (auto simp: table_match_def Let_def)
  moreover have "strip_tables name (c = newline) (s @ x) = s @ strip_tables name True x"
    using Cons.prems by (intro Cons.IH) (auto split: if_splits)
  ultimately show ?case by (cases bol) simp_all
qed (simp split: if_splits)

lemma eat_line: "c \<noteq> CHR ''['' \<Longrightarrow> newline \<notin> set l \<Longrightarrow> eat_rows (c # l @ newline # r) = eat_rows r"
proof -
  assume a: "c \<noteq> CHR ''[''" "newline \<notin> set l"
  have "dropWhile (\<lambda>c. c \<noteq> newline) (l @ newline # r) = newline # r"
    using a(2) by (metis (mono_tags, lifting) dropWhile.simps(2) dropWhile_append2)
  then show ?thesis using a(1) by simp
qed

definition shape_body :: "VMShapeConfig \<Rightarrow> string" where
  "shape_body s = drop 11 (shape_rows s)"

lemma shape_body_eq:
  "shape_body s = key_line ''label'' (go_quote (shc_label s)) @ newline # key_line ''vcpu'' (itoa (shc_vcpu s)) @
     newline # key_line ''memory_mib'' (itoa (shc_memory s)) @ newline # key_line ''min_ready'' (itoa (shc_min_ready s)) @
     [newline, newline]"
  by (simp add: shape_body_def shape_rows_def)

lemma shape_rows_eq: "shape_rows s = ''[[shapes]]'' @ newline # shape_body s"
  by (simp add: shape_body_def shape_rows_def)

lemma newline_facts: "newline \<noteq> CHR ''[''" "\<not> is_digit newline" "newline \<noteq> CHR ''-''" "newline \<noteq> CHR 0x22" "newline \<noteq> CHR 0x5C"
  "newline \<noteq> CHR '' ''" "newline \<noteq> CHR ''=''"
  by (simp_all add: newline_def is_digit_def digit_of_def)

lemma itoa_one_line: "newline \<notin> set (itoa n)"
  using nat_digits_digits [of newline] newline_facts(2,3) by (auto simp: itoa_def)

lemma quote_one_line: "newline \<notin> set s \<Longrightarrow> newline \<notin> set (go_quote s)"
  using newline_facts by (auto simp: go_quote_def quoted_char_def)

lemma eat_body:
  assumes "newline \<notin> set (shc_label s)"
  shows "eat_rows (shape_body s @ x) = eat_rows (newline # x)"
proof -
  have n: "newline \<notin> set ''abel = ''" "newline \<notin> set ''cpu = ''" "newline \<notin> set ''emory_mib = ''" "newline \<notin> set ''in_ready = ''"
    by code_simp+
  have "shape_body s @ x = CHR ''l'' # (''abel = '' @ go_quote (shc_label s)) @ newline #
      CHR ''v'' # (''cpu = '' @ itoa (shc_vcpu s)) @ newline # CHR ''m'' # (''emory_mib = '' @ itoa (shc_memory s)) @ newline #
      CHR ''m'' # (''in_ready = '' @ itoa (shc_min_ready s)) @ newline # newline # x"
    by (simp add: shape_body_eq key_line_def)
  moreover have "newline \<notin> set (''abel = '' @ go_quote (shc_label s))" "newline \<notin> set (''cpu = '' @ itoa (shc_vcpu s))"
      "newline \<notin> set (''emory_mib = '' @ itoa (shc_memory s))" "newline \<notin> set (''in_ready = '' @ itoa (shc_min_ready s))"
    using n quote_one_line [OF assms] itoa_one_line by (simp_all only: set_append Un_iff) blast+
  note this [THEN eat_line [rotated]]
  moreover have "CHR ''l'' \<noteq> CHR ''[''" "CHR ''v'' \<noteq> CHR ''[''" "CHR ''m'' \<noteq> CHR ''[''" by simp_all
  ultimately show ?thesis by (simp only: not_False_eq_True)
qed

lemma eat_written:
  "\<forall>s \<in> set ss. newline \<notin> set (shc_label s) \<Longrightarrow> newline \<notin> set (shc_label s0) \<Longrightarrow>
    eat_rows (shape_body s0 @ concat (map shape_rows ss)) = [newline]"
proof (induction ss arbitrary: s0)
  case Nil
  then show ?case using eat_body [of s0 "[]"] newline_facts(1) by simp
next
  case (Cons s ss)
  have n: "newline \<notin> set ''[[shapes]]''" by code_simp
  have "eat_rows (shape_body s0 @ concat (map shape_rows (s # ss))) =
      eat_rows (newline # ''[[shapes]]'' @ newline # (shape_body s @ concat (map shape_rows ss)))"
    by (subst eat_body [OF Cons.prems(2)]) (simp only: list.map concat.simps shape_rows_eq append_assoc append_Cons)
  also have "\<dots> = eat_rows (shape_body s @ concat (map shape_rows ss))"
    using n newline_facts(1) by (rule eat_line [rotated])
  finally show ?case using Cons by simp
qed

lemma trim_newlines_snoc [simp]: "trim_newlines (s @ [newline]) = trim_newlines s"
  by (simp add: trim_newlines_def)

text \<open>
  The shapes written into a file are taken out again as a whole: a file that had no shapes and to which shapes
  were appended as \<open>WriteAgentShapes\<close> does, reads after the removal as if they had never been there.
\<close>

theorem written_shapes_removed:
  assumes "\<not> has_header ''shapes'' True t" and "t \<noteq> ''''" and "last t = newline"
    and "\<forall>s \<in> set ss. newline \<notin> set (shc_label s)"
  shows "stripTOMLTables (t @ newline # concat (map shape_rows ss)) ''shapes'' = stripTOMLTables t ''shapes''"
proof -
  have n: "newline \<notin> set ''shapes''" by code_simp
  have nl: "strip_tables ''shapes'' True [newline] = [newline]" by code_simp
  have walk: "strip_tables ''shapes'' True (t @ x) = t @ strip_tables ''shapes'' True x" for x
    by (rule strip_walk [OF n assms(1)]) (simp add: assms(2,3))
  have "strip_tables ''shapes'' True (newline # concat (map shape_rows ss)) =
      newline # strip_tables ''shapes'' True (concat (map shape_rows ss))"
    by (simp add: table_match_def has_prefix_def newline_def)
  moreover have "strip_tables ''shapes'' True (concat (map shape_rows ss)) \<in> {[], [newline]}"
  proof (cases ss)
    case (Cons s rest)
    let ?x = "shape_body s @ concat (map shape_rows rest)"
    have b: "\<exists>c r. ?x = c # r \<and> \<not> re_space c" by (simp add: shape_body_eq key_line_def re_space_def)
    then have "table_match ''shapes'' (''[[shapes]]'' @ newline # ?x) = Some (eat_rows ?x)"
      by (auto simp: table_match_def Let_def has_prefix_def re_space_def newline_def)
    also have "eat_rows ?x = [newline]" using assms(4) Cons by (intro eat_written) auto
    finally have m: "table_match ''shapes'' (''[[shapes]]'' @ newline # ?x) = Some [newline]" .
    have "concat (map shape_rows ss) = CHR ''['' # ''[shapes]]'' @ newline # ?x" by (simp add: Cons shape_rows_eq)
    then show ?thesis using m nl by simp
  qed simp
  ultimately have "strip_tables ''shapes'' True (t @ newline # concat (map shape_rows ss)) \<in> {t @ [newline], (t @ [newline]) @ [newline]}"
    by (auto simp: walk)
  moreover have "strip_tables ''shapes'' True t = t" using walk [of "[]"] by simp
  ultimately show ?thesis
    unfolding stripTOMLTables_def by (elim insertE emptyE) (simp_all only: trim_newlines_snoc)
qed

lemma written_shapes_removed_witness:
  "stripTOMLTables (''a = 1'' @ [newline] @ newline # concat (map shape_rows [\<lparr> shc_label = ''x'', shc_vcpu = 1, shc_memory = 2, shc_min_ready = 3 \<rparr>]))
     ''shapes'' = ''a = 1'' @ [newline]"
proof -
  have "\<not> has_header ''shapes'' True (''a = 1'' @ [newline])" "\<forall>s \<in> set [\<lparr> shc_label = ''x'', shc_vcpu = 1, shc_memory = 2, shc_min_ready = 3 \<rparr>]. newline \<notin> set (shc_label s)"
    and "stripTOMLTables (''a = 1'' @ [newline]) ''shapes'' = ''a = 1'' @ [newline]" by code_simp+
  with written_shapes_removed [of "''a = 1'' @ [newline]" "[\<lparr> shc_label = ''x'', shc_vcpu = 1, shc_memory = 2, shc_min_ready = 3 \<rparr>]"]
  show ?thesis by simp
qed

end
