(* ===== verification/Accounts.thy ===== *)
theory Accounts
  imports StoredTime
begin

text \<open>
  \<open>internal/store/store.go\<close>: users, sessions and the setup flag in the dashboard's database. A table is the list
  of its rows; \<open>io\<close> says which statement fails, with what error. The password hash and the digest of a token
  are arguments: \<open>kdf salt password\<close> is bcrypt's hash or \<open>None\<close>, \<open>check hash password\<close> its comparison,
  \<open>sha\<close> the digest as hexadecimal text. Columns with times hold \<open>rfc3339nano\<close> texts.
\<close>

section \<open>Tables\<close>

definition RoleAdmin :: string where "RoleAdmin = ''admin''"
definition RoleViewer :: string where "RoleViewer = ''viewer''"

record account =
  au_id :: int
  au_email :: string
  au_hash :: string
  au_role :: string
  au_must_change :: bool
  au_created :: string

record session =
  se_user :: int
  se_token :: string
  se_expires :: string
  se_created :: string

record userdb =
  ud_users :: "account list"
  ud_next :: int
  ud_sessions :: "session list"
  ud_setup :: "string option"

datatype account_error = DbError string | CredentialsRequired | EmailTaken | InvalidCredentials | HashError

datatype stmt = InsertUser | CountUsers | SelectUser | InsertSession | SelectSession | DeleteSessionRow | SelectMeta | WriteMeta

type_synonym dbio = "stmt \<Rightarrow> string option"

section \<open>Operations\<close>

definition SetupCompleted :: "dbio \<Rightarrow> userdb \<Rightarrow> account_error + bool" where
  "SetupCompleted io db =
     (case io SelectMeta of
        Some e \<Rightarrow> Inl (DbError e)
      | None \<Rightarrow> Inr (case ud_setup db of None \<Rightarrow> False | Some v \<Rightarrow> v = ''true'' \<or> v = ''1''))"

definition SetSetupCompleted :: "dbio \<Rightarrow> bool \<Rightarrow> userdb \<Rightarrow> account_error option \<times> userdb" where
  "SetSetupCompleted io done' db =
     (case io WriteMeta of
        Some e \<Rightarrow> (Some (DbError e), db)
      | None \<Rightarrow> (None, db\<lparr> ud_setup := Some (if done' then ''true'' else ''false'') \<rparr>))"

definition account_email :: "string \<Rightarrow> string" where
  "account_email s = trim_space (to_lower s)"

text \<open>Emails are unique without regard to case; ids are never given twice.\<close>

definition CreateUser ::
  "(string \<Rightarrow> string option) \<Rightarrow> dbio \<Rightarrow> gotime \<Rightarrow> string \<Rightarrow> string \<Rightarrow> string \<Rightarrow> bool \<Rightarrow> userdb \<Rightarrow>
   (account_error + account) \<times> userdb" where
  "CreateUser kdf io now email password role must db =
     (let m = account_email email in
      if m = '''' \<or> password = '''' then (Inl CredentialsRequired, db)
      else case kdf password of
        None \<Rightarrow> (Inl HashError, db)
      | Some h \<Rightarrow>
          (case io InsertUser of
             Some e \<Rightarrow> (Inl (DbError e), db)
           | None \<Rightarrow>
               if list_ex (\<lambda>u. equal_fold (au_email u) m) (ud_users db) then (Inl EmailTaken, db)
               else
                 (let u = \<lparr> au_id = ud_next db, au_email = m, au_hash = h,
                            au_role = (if role \<noteq> RoleAdmin \<and> role \<noteq> RoleViewer then RoleViewer else role),
                            au_must_change = must, au_created = rfc3339nano now \<rparr>
                  in (Inr u, db\<lparr> ud_users := ud_users db @ [u], ud_next := ud_next db + 1 \<rparr>))))"

definition UserCount :: "dbio \<Rightarrow> userdb \<Rightarrow> account_error + int" where
  "UserCount io db = (case io CountUsers of Some e \<Rightarrow> Inl (DbError e) | None \<Rightarrow> Inr (int (length (ud_users db))))"

definition GetUserByEmail :: "dbio \<Rightarrow> string \<Rightarrow> userdb \<Rightarrow> account_error + account option" where
  "GetUserByEmail io email db =
     (case io SelectUser of
        Some e \<Rightarrow> Inl (DbError e)
      | None \<Rightarrow> Inr (find (\<lambda>u. equal_fold (au_email u) (account_email email)) (ud_users db)))"

definition GetUserByID :: "dbio \<Rightarrow> int \<Rightarrow> userdb \<Rightarrow> account_error + account option" where
  "GetUserByID io i db =
     (case io SelectUser of Some e \<Rightarrow> Inl (DbError e) | None \<Rightarrow> Inr (find (\<lambda>u. au_id u = i) (ud_users db)))"

definition ListUsers :: "dbio \<Rightarrow> userdb \<Rightarrow> account_error + account list" where
  "ListUsers io db =
     (case io SelectUser of
        Some e \<Rightarrow> Inl (DbError e)
      | None \<Rightarrow> Inr (map (\<lambda>u. u\<lparr> au_hash := '''' \<rparr>) (isort_by (\<lambda>a b. au_id a \<le> au_id b) (ud_users db))))"

definition Authenticate ::
  "(string \<Rightarrow> string \<Rightarrow> bool) \<Rightarrow> dbio \<Rightarrow> string \<Rightarrow> string \<Rightarrow> userdb \<Rightarrow> account_error + account" where
  "Authenticate check io email password db =
     (case GetUserByEmail io email db of
        Inl e \<Rightarrow> Inl e
      | Inr None \<Rightarrow> Inl InvalidCredentials
      | Inr (Some u) \<Rightarrow> if check (au_hash u) password then Inr u else Inl InvalidCredentials)"

definition day :: int where "day = 86400 * 1000000000"

text \<open>\<open>raw\<close> is the fresh token. The row's key is the digest; a user that is gone is refused (foreign keys are on).\<close>

definition CreateSession ::
  "(string \<Rightarrow> string) \<Rightarrow> dbio \<Rightarrow> gotime \<Rightarrow> string \<Rightarrow> int \<Rightarrow> int \<Rightarrow> userdb \<Rightarrow> (account_error + string \<times> gotime) \<times> userdb" where
  "CreateSession sha io now raw user ttl db =
     (let expires = now + (if ttl \<le> 0 then day else ttl) in
      case io InsertSession of
        Some e \<Rightarrow> (Inl (DbError e), db)
      | None \<Rightarrow>
          if sha raw \<in> se_token ` set (ud_sessions db) then (Inl (DbError ''UNIQUE''), db)
          else if user \<notin> au_id ` set (ud_users db) then (Inl (DbError ''FOREIGN KEY''), db)
          else (Inr (raw, expires),
                db\<lparr> ud_sessions := ud_sessions db @
                  [\<lparr> se_user = user, se_token = sha raw, se_expires = rfc3339nano expires, se_created = rfc3339nano now \<rparr>] \<rparr>))"

definition drop_session :: "string \<Rightarrow> userdb \<Rightarrow> userdb" where
  "drop_session d db = db\<lparr> ud_sessions := filter (\<lambda>s. se_token s \<noteq> d) (ud_sessions db) \<rparr>"

text \<open>An expired session is removed when it is used; the error of that is ignored. \<open>0\<close> is a time that does not parse.\<close>

definition SessionUser ::
  "(string \<Rightarrow> string) \<Rightarrow> dbio \<Rightarrow> gotime \<Rightarrow> string \<Rightarrow> userdb \<Rightarrow> (account_error + account option) \<times> userdb" where
  "SessionUser sha io now raw db =
     (if raw = '''' then (Inr None, db)
      else case io SelectSession of
        Some e \<Rightarrow> (Inl (DbError e), db)
      | None \<Rightarrow>
          (case find (\<lambda>s. se_token s = sha raw) (ud_sessions db) of
             None \<Rightarrow> (Inr None, db)
           | Some s \<Rightarrow>
               (let exp = parseStoredTime (se_expires s) in
                if exp = 0 \<or> now > exp then
                  (Inr None, if io DeleteSessionRow = None then drop_session (sha raw) db else db)
                else (GetUserByID io (se_user s) db, db))))"

definition DeleteSession :: "(string \<Rightarrow> string) \<Rightarrow> dbio \<Rightarrow> string \<Rightarrow> userdb \<Rightarrow> account_error option \<times> userdb" where
  "DeleteSession sha io raw db =
     (case io DeleteSessionRow of
        Some e \<Rightarrow> (Some (DbError e), db)
      | None \<Rightarrow> (None, drop_session (sha raw) db))"

section \<open>What the tables keep\<close>

definition accounts_ok :: "userdb \<Rightarrow> bool" where
  "accounts_ok db \<longleftrightarrow>
     distinct (map au_id (ud_users db)) \<and> distinct (map (\<lambda>u. to_lower (au_email u)) (ud_users db)) \<and>
     (\<forall>u \<in> set (ud_users db). au_id u < ud_next db \<and> au_email u \<noteq> [] \<and> (au_role u = RoleAdmin \<or> au_role u = RoleViewer)) \<and>
     distinct (map se_token (ud_sessions db)) \<and> (\<forall>s \<in> set (ud_sessions db). \<exists>u \<in> set (ud_users db). au_id u = se_user s)"

lemma add_account_ok:
  assumes "accounts_ok db" and "au_id u = ud_next db" and "au_email u \<noteq> []" and "au_role u = RoleAdmin \<or> au_role u = RoleViewer"
    and "\<forall>v \<in> set (ud_users db). to_lower (au_email v) \<noteq> to_lower (au_email u)"
  shows "accounts_ok (db\<lparr> ud_users := ud_users db @ [u], ud_next := ud_next db + 1 \<rparr>)"
proof -
  have "ud_next db \<notin> au_id ` set (ud_users db)" using assms(1) by (force simp: accounts_ok_def)
  moreover have "to_lower (au_email u) \<notin> (\<lambda>v. to_lower (au_email v)) ` set (ud_users db)" using assms(5) by force
  ultimately show ?thesis using assms by (auto simp: accounts_ok_def intro: less_imp_le)
qed

lemma created:
  assumes "CreateUser kdf io now email password role must db = (Inr u, db')"
  shows "kdf password = Some (au_hash u) \<and> au_email u = account_email email \<and> au_email u \<noteq> [] \<and> au_id u = ud_next db \<and>
    (au_role u = RoleAdmin \<or> au_role u = RoleViewer) \<and> (role = RoleAdmin \<longrightarrow> au_role u = RoleAdmin) \<and>
    (\<forall>v \<in> set (ud_users db). to_lower (au_email v) \<noteq> to_lower (au_email u)) \<and>
    db' = db\<lparr> ud_users := ud_users db @ [u], ud_next := ud_next db + 1 \<rparr>"
  using assms
  by (auto simp: CreateUser_def Let_def equal_fold_def list_ex_iff split: if_splits option.splits)

lemma create_refused: "CreateUser kdf io now email password role must db = (Inl e, db') \<Longrightarrow> db' = db"
  by (auto simp: CreateUser_def Let_def split: if_splits option.splits)

lemma create_user_ok:
  assumes "accounts_ok db" and "CreateUser kdf io now email password role must db = (r, db')"
  shows "accounts_ok db'"
proof (cases r)
  case (Inr u)
  then show ?thesis using created [OF assms(2) [unfolded Inr]] add_account_ok [OF assms(1), of u] by auto
next
  case (Inl e)
  then show ?thesis using assms(1) create_refused [OF assms(2) [unfolded Inl]] by simp
qed

lemma session_created:
  assumes "CreateSession sha io now raw user ttl db = (Inr x, db')"
  shows "fst x = raw \<and> sha raw \<notin> se_token ` set (ud_sessions db) \<and> (\<exists>u \<in> set (ud_users db). au_id u = user) \<and>
    db' = db\<lparr> ud_sessions := ud_sessions db @
      [\<lparr> se_user = user, se_token = sha raw, se_expires = rfc3339nano (snd x), se_created = rfc3339nano now \<rparr>] \<rparr>"
  using assms by (auto simp: CreateSession_def Let_def split: if_splits option.splits)

lemma session_refused: "CreateSession sha io now raw user ttl db = (Inl e, db') \<Longrightarrow> db' = db"
  by (auto simp: CreateSession_def Let_def split: if_splits option.splits)

lemma create_session_ok:
  assumes "accounts_ok db" and "CreateSession sha io now raw user ttl db = (r, db')"
  shows "accounts_ok db'"
proof (cases r)
  case (Inl e)
  then show ?thesis using assms(1) session_refused [OF assms(2) [unfolded Inl]] by simp
next
  case (Inr x)
  then show ?thesis
    using assms(1) session_created [OF assms(2) [unfolded Inr]] by (auto simp: accounts_ok_def)
qed

lemma drop_session_ok: "accounts_ok db \<Longrightarrow> accounts_ok (drop_session d db)"
  by (auto simp: accounts_ok_def drop_session_def distinct_map_filter)

lemma drop_session_users [simp]: "ud_users (drop_session d db) = ud_users db" "ud_next (drop_session d db) = ud_next db"
  by (simp_all add: drop_session_def)

lemma session_user_ok:
  assumes "accounts_ok db" and "SessionUser sha io now raw db = (r, db')"
  shows "accounts_ok db' \<and> ud_users db' = ud_users db"
  using assms drop_session_ok [of db]
  by (auto simp: SessionUser_def Let_def split: if_splits option.splits)

lemma find_snoc: "find P (xs @ [x]) = (case find P xs of None \<Rightarrow> if P x then Some x else None | Some y \<Rightarrow> Some y)"
  by (induction xs) auto

lemma find_unique: "distinct (map f xs) \<Longrightarrow> x \<in> set xs \<Longrightarrow> find (\<lambda>y. f y = f x) xs = Some x"
proof (induction xs)
  case (Cons y ys)
  then show ?case by (cases "f y = f x") (auto simp: image_iff)
qed simp

section \<open>Sessions\<close>

text \<open>The times a session's columns can hold.\<close>

definition storable_time :: "gotime \<Rightarrow> bool" where
  "storable_time t \<longleftrightarrow> 0 < t \<and> t < int (days_before_year 10000) * 86400 * 1000000000"

lemma stored_session_time: "storable_time t \<Longrightarrow> parseStoredTime (rfc3339nano t) = t"
  using stored_time_roundtrip_aux [of t] by (auto simp: storable_time_def formatStoredTime_def)

text \<open>Whose session a token is.\<close>

lemma session_user_spec:
  assumes "SessionUser sha io now raw db = (Inr (Some u), db')"
  shows "raw \<noteq> [] \<and> u \<in> set (ud_users db) \<and> db' = db \<and>
    (\<exists>s \<in> set (ud_sessions db). se_token s = sha raw \<and> se_user s = au_id u \<and> now \<le> parseStoredTime (se_expires s))"
  using assms
  by (auto simp: SessionUser_def GetUserByID_def Let_def not_less split: if_splits option.splits dest!: find_SomeD)

lemma login_spec:
  assumes "Authenticate check io email password db = Inr u"
  shows "u \<in> set (ud_users db) \<and> check (au_hash u) password \<and> to_lower (au_email u) = to_lower (account_email email)"
  using assms
  by (auto simp: Authenticate_def GetUserByEmail_def equal_fold_def split: sum.splits option.splits if_splits dest!: find_SomeD)

lemma authenticated:
  assumes "accounts_ok db" and "u \<in> set (ud_users db)" and "to_lower (au_email u) = to_lower (account_email email)"
    and "check (au_hash u) password" and "io SelectUser = None"
  shows "Authenticate check io email password db = Inr u"
proof -
  have "find (\<lambda>v. to_lower (au_email v) = to_lower (au_email u)) (ud_users db) = Some u"
    using assms(1,2) by (intro find_unique) (auto simp: accounts_ok_def)
  then show ?thesis using assms by (simp add: Authenticate_def GetUserByEmail_def equal_fold_def)
qed

text \<open>A session works from its creation until it expires or is deleted, and not after.\<close>

lemma session_life:
  assumes "accounts_ok db" and "CreateSession sha io now raw (au_id u) ttl db = (Inr (raw, exp), db1)" and "u \<in> set (ud_users db)"
    and "raw \<noteq> []" and "storable_time exp" and "io' SelectSession = None" and "io' SelectUser = None"
  shows "SessionUser sha io' t raw db1 =
    (if t \<le> exp then (Inr (Some u), db1)
     else (Inr None, if io' DeleteSessionRow = None then drop_session (sha raw) db1 else db1))"
proof -
  have c: "sha raw \<notin> se_token ` set (ud_sessions db)" "db1 = db\<lparr> ud_sessions := ud_sessions db @
      [\<lparr> se_user = au_id u, se_token = sha raw, se_expires = rfc3339nano exp, se_created = rfc3339nano now \<rparr>] \<rparr>"
    using session_created [OF assms(2)] by auto
  have "find (\<lambda>s. se_token s = sha raw) (ud_sessions db) = None" using c(1) by (force simp: find_None_iff)
  then have "find (\<lambda>s. se_token s = sha raw) (ud_sessions db1) =
      Some \<lparr> se_user = au_id u, se_token = sha raw, se_expires = rfc3339nano exp, se_created = rfc3339nano now \<rparr>"
    by (simp add: c(2) find_snoc)
  moreover have "find (\<lambda>v. au_id v = au_id u) (ud_users db1) = Some u"
    using assms(1,3) unfolding c(2) by (simp add: accounts_ok_def find_unique)
  ultimately show ?thesis
    using assms(4-7) stored_session_time [OF assms(5)]
    by (auto simp: SessionUser_def GetUserByID_def Let_def storable_time_def)
qed

end
