(* ===== verification/Dashboard.thy ===== *)
theory Dashboard
  imports ConfigFiles Accounts
begin

text \<open>
  The dashboard's own state and what changes it (\<open>internal/control/dashboard.go\<close>): who a request comes from, the
  setup wizard with its drafts, login and logout, the settings, users; and the start of the control plane from what
  is on disk (\<open>cmd/temperci-control\<close>). Marshalling a configuration to TOML and back is a library's, so
  \<open>control.toml\<close> is the configuration in it.
\<close>

section \<open>State\<close>

record dash =
  da_cfg :: ControlConfig
  da_file :: "ControlConfig option"
  da_agent_path :: string
  da_agent_file :: "string option"
  da_pems :: "(string \<times> string) list"
  da_token :: string
  da_secret :: string
  da_ready :: bool
  da_db :: "userdb option"

text \<open>What a request meets: the time, the errors of the operating system, fresh random text, and the hashes.\<close>

record world =
  wd_now :: gotime
  wd_db :: dbio
  wd_mkdir :: "string option"
  wd_pem :: "string option"
  wd_write :: "string option"
  wd_stat :: "string option"
  wd_agent :: "string option"
  wd_random :: string
  wd_kdf :: "string \<Rightarrow> string option"
  wd_check :: "string \<Rightarrow> string \<Rightarrow> bool"
  wd_sha :: "string \<Rightarrow> string"

type_synonym answer = "nat \<times> string"

section \<open>Who asks\<close>

record principal =
  pr_user :: "account option"
  pr_admin :: bool
  pr_open :: bool

definition open_principal :: principal where
  "open_principal = \<lparr> pr_user = None, pr_admin = True, pr_open = True \<rparr>"

text \<open>\<open>cookie\<close> is the value of the session cookie, if there is one.\<close>

definition resolvePrincipal :: "world \<Rightarrow> string option \<Rightarrow> dash \<Rightarrow> principal option \<times> dash" where
  "resolvePrincipal w cookie st =
     (if NeedsSetup (da_cfg st) then (Some open_principal, st)
      else if cfg_auth (da_cfg st) = ''open'' then (Some open_principal, st)
      else case da_db st of
        None \<Rightarrow> (None, st)
      | Some db \<Rightarrow>
          if cookie = None \<or> cookie = Some '''' then (None, st)
          else (case SessionUser (wd_sha w) (wd_db w) (wd_now w) (the cookie) db of
                  (Inr (Some u), db1) \<Rightarrow>
                    (Some \<lparr> pr_user = Some u, pr_admin = (au_role u = RoleAdmin), pr_open = False \<rparr>, st\<lparr> da_db := Some db1 \<rparr>)
                | (_, db1) \<Rightarrow> (None, st\<lparr> da_db := Some db1 \<rparr>)))"

definition withUIAuth ::
  "world \<Rightarrow> string option \<Rightarrow> bool \<Rightarrow> (principal \<Rightarrow> dash \<Rightarrow> answer \<times> dash) \<Rightarrow> dash \<Rightarrow> answer \<times> dash" where
  "withUIAuth w cookie adminOnly nxt st =
     (case resolvePrincipal w cookie st of
        (None, st1) \<Rightarrow> ((401, ''unauthorized''), st1)
      | (Some p, st1) \<Rightarrow> if adminOnly \<and> \<not> pr_admin p then ((403, ''admin required''), st1) else nxt p st1)"

section \<open>The wizard\<close>

definition validateCacheListenAddr :: "string \<Rightarrow> bool" where
  "validateCacheListenAddr addr \<longleftrightarrow> blank addr \<or> SplitHostPort (trim_space addr) \<noteq> None"

definition cache_key :: string where "cache_key = ''cache_listen_addr''"

text \<open>A missing agent file is left missing; \<open>wd_stat\<close> is another error of looking for it.\<close>

definition writeAgentCacheListenAddr :: "world \<Rightarrow> string \<Rightarrow> dash \<Rightarrow> string option \<times> dash" where
  "writeAgentCacheListenAddr w addr st =
     (case wd_stat w of
        Some e \<Rightarrow> (Some e, st)
      | None \<Rightarrow>
          if da_agent_file st = None then (None, st)
          else (case PatchAgentTOMLString (wd_agent w) (da_agent_path st) cache_key (trim_space addr) (da_agent_file st) of
                  (e, f) \<Rightarrow> (e, st\<lparr> da_agent_file := f \<rparr>)))"

record setup_request =
  sr_auth :: string
  sr_email :: string
  sr_password :: string
  sr_app_id :: int
  sr_org :: string
  sr_secret :: string
  sr_pem :: string
  sr_token :: string
  sr_listen :: string
  sr_cache :: string
  sr_restart :: bool
  sr_draft :: bool

definition given :: "string \<Rightarrow> string \<Rightarrow> string" where
  "given new old = (if blank new then old else trim_space new)"

definition key_pem :: "string \<Rightarrow> bool" where
  "key_pem pem \<longleftrightarrow> contains pem ''PRIVATE KEY''"

definition default_pem :: string where "default_pem = ''/etc/temperci/github-app.pem''"

definition pem_path :: "ControlConfig \<Rightarrow> string" where
  "pem_path c = (if cfg_pem_path c = '''' then default_pem else cfg_pem_path c)"

definition write_pem :: "world \<Rightarrow> string \<Rightarrow> string \<Rightarrow> dash \<Rightarrow> answer option \<times> dash" where
  "write_pem w path pem st =
     (case wd_mkdir w of
        Some e \<Rightarrow> (Some (500, ''mkdir pem: '' @ e), st)
      | None \<Rightarrow>
          (case wd_pem w of
             Some e \<Rightarrow> (Some (500, ''write pem: '' @ e), st)
           | None \<Rightarrow> (None, st\<lparr> da_pems := AList.update path (pem @ [newline]) (da_pems st) \<rparr>)))"

definition write_config :: "world \<Rightarrow> ControlConfig \<Rightarrow> dash \<Rightarrow> answer option \<times> dash" where
  "write_config w c st =
     (case wd_write w of Some e \<Rightarrow> (Some (500, ''write config: '' @ e), st) | None \<Rightarrow> (None, st\<lparr> da_file := Some c \<rparr>))"

definition draft_config :: "setup_request \<Rightarrow> ControlConfig \<Rightarrow> ControlConfig" where
  "draft_config req c =
     (let m = to_lower (trim_space (sr_auth req))
      in c\<lparr> cfg_app_id := (if sr_app_id req \<noteq> 0 then sr_app_id req else cfg_app_id c),
            cfg_org := given (sr_org req) (cfg_org c), cfg_webhook_secret := given (sr_secret req) (cfg_webhook_secret c),
            cfg_auth := (if m = ''open'' \<or> m = ''password'' then m else cfg_auth c),
            cfg_listen := given (sr_listen req) (cfg_listen c), cfg_agent_token := given (sr_token req) (cfg_agent_token c) \<rparr>)"

text \<open>The configuration as it is when the draft is stored; \<open>cur\<close> is the merged one.\<close>

definition store_draft :: "world \<Rightarrow> setup_request \<Rightarrow> ControlConfig \<Rightarrow> dash \<Rightarrow> answer \<times> dash" where
  "store_draft w req cur st =
     (case Validate_control (cur\<lparr> cfg_setup := False \<rparr>) of
        (Some e, c) \<Rightarrow> ((400, ''config''), st)
      | (None, c) \<Rightarrow>
          (case write_config w c st of
             (Some a, st1) \<Rightarrow> (a, st1)
           | (None, st1) \<Rightarrow>
               (case (if blank (sr_cache req) then (None, st1) else writeAgentCacheListenAddr w (sr_cache req) st1) of
                  (Some e, st2) \<Rightarrow> ((500, ''write agent cache_listen_addr: '' @ e), st2)
                | (None, st2) \<Rightarrow> ((200, ''draft''), st2\<lparr> da_cfg := c \<rparr>))))"

definition handleSetupDraft :: "world \<Rightarrow> setup_request \<Rightarrow> dash \<Rightarrow> answer \<times> dash" where
  "handleSetupDraft w req st =
     (let cur = draft_config req (da_cfg st);
          st1 = st\<lparr> da_token := given (sr_token req) (da_token st) \<rparr>;
          pem = trim_space (sr_pem req)
      in if pem = '''' then store_draft w req cur st1
         else if \<not> key_pem pem then ((400, ''invalid private key pem''), st1)
         else case write_pem w (pem_path cur) pem st1 of
           (Some a, st2) \<Rightarrow> (a, st2)
         | (None, st2) \<Rightarrow> store_draft w req (cur\<lparr> cfg_pem_path := pem_path cur \<rparr>) st2)"

definition markFleetReadyIfConfigured :: "dash \<Rightarrow> dash" where
  "markFleetReadyIfConfigured st = (if NeedsSetup (da_cfg st) then st else st\<lparr> da_ready := True \<rparr>)"

definition adopt :: "ControlConfig \<Rightarrow> dash \<Rightarrow> dash" where
  "adopt c st = markFleetReadyIfConfigured (st\<lparr> da_cfg := c, da_token := cfg_agent_token c, da_secret := cfg_webhook_secret c \<rparr>)"

text \<open>The first administrator; counting users may fail, and is then taken for none.\<close>

definition first_admin :: "world \<Rightarrow> setup_request \<Rightarrow> string \<Rightarrow> dash \<Rightarrow> answer option \<times> dash" where
  "first_admin w req mode st =
     (case da_db st of
        None \<Rightarrow> (None, st)
      | Some db \<Rightarrow>
          (let n = (case UserCount (wd_db w) db of Inl e \<Rightarrow> 0 | Inr n \<Rightarrow> n);
               r = (if mode = ''password'' \<and> n = 0 then
                      if blank (sr_email req) \<or> blank (sr_password req)
                      then (Some (400, ''admin_email and admin_password required for password mode''), db)
                      else (case CreateUser (wd_kdf w) (wd_db w) (wd_now w) (sr_email req) (sr_password req) RoleAdmin False db of
                              (Inl e, db1) \<Rightarrow> (Some (500, ''create admin''), db1) | (Inr u, db1) \<Rightarrow> (None, db1))
                    else (None, db))
           in case r of
                (Some a, db1) \<Rightarrow> (Some a, st\<lparr> da_db := Some db1 \<rparr>)
              | (None, db1) \<Rightarrow> (None, st\<lparr> da_db := Some (snd (SetSetupCompleted (wd_db w) True db1)) \<rparr>)))"

text \<open>
  \<open>handleSetupApply\<close>: the checks that need nothing, then the key, the file, the agent's file, the administrator,
  and the configuration in memory last.
\<close>

definition apply_config :: "world \<Rightarrow> setup_request \<Rightarrow> string \<Rightarrow> ControlConfig \<Rightarrow> ControlConfig" where
  "apply_config w req mode cur =
     (let tok = (if \<not> blank (sr_token req) then trim_space (sr_token req)
                 else if \<not> blank (cfg_agent_token cur) then trim_space (cfg_agent_token cur) else wd_random w);
          listen = (if \<not> blank (sr_listen req) then trim_space (sr_listen req)
                    else if cfg_listen cur \<noteq> '''' then cfg_listen cur else ''0.0.0.0:8080'')
      in cur\<lparr> cfg_listen := listen, cfg_app_id := sr_app_id req, cfg_org := trim_space (sr_org req),
              cfg_webhook_secret := sr_secret req, cfg_pem_path := pem_path cur, cfg_agent_token := tok, cfg_auth := mode,
              cfg_setup := True,
              cfg_sqlite := (if cfg_sqlite cur = '''' then filepath_Join [cfg_data cur, ''control.db''] else cfg_sqlite cur) \<rparr>)"

definition fill_request :: "setup_request \<Rightarrow> ControlConfig \<Rightarrow> setup_request" where
  "fill_request req cur =
     req\<lparr> sr_app_id := (if sr_app_id req = 0 then cfg_app_id cur else sr_app_id req),
          sr_org := (if blank (sr_org req) then cfg_org cur else sr_org req),
          sr_secret := (if blank (sr_secret req) then cfg_webhook_secret cur else sr_secret req) \<rparr>"

definition apply_refused :: "bool \<Rightarrow> setup_request \<Rightarrow> answer option" where
  "apply_refused reentry req =
     (if \<not> reentry \<and> (sr_app_id req = 0 \<or> blank (sr_org req) \<or> blank (sr_secret req))
      then Some (400, ''github_app_id, github_org, github_webhook_secret required'')
      else if \<not> reentry \<and> blank (sr_pem req) then Some (400, ''github_app_private_key_pem required'')
      else if \<not> blank (sr_pem req) \<and> \<not> key_pem (trim_space (sr_pem req)) then Some (400, ''invalid private key pem'')
      else None)"

definition finish_apply :: "world \<Rightarrow> setup_request \<Rightarrow> string \<Rightarrow> ControlConfig \<Rightarrow> dash \<Rightarrow> answer \<times> dash" where
  "finish_apply w req mode new st =
     (case Validate_control new of
        (Some e, c) \<Rightarrow> ((400, ''config''), st)
      | (None, c) \<Rightarrow>
          if \<not> validateCacheListenAddr (sr_cache req) then ((400, ''cache_listen_addr must be host:port or empty to disable''), st)
          else (case write_config w c st of
            (Some a, st1) \<Rightarrow> (a, st1)
          | (None, st1) \<Rightarrow>
              (case writeAgentCacheListenAddr w (sr_cache req) st1 of
                 (Some e, st2) \<Rightarrow> ((500, ''write agent cache_listen_addr: '' @ e), st2)
               | (None, st2) \<Rightarrow>
                   (case first_admin w req mode st2 of
                      (Some a, st3) \<Rightarrow> (a, st3)
                    | (None, st3) \<Rightarrow> ((if sr_restart req then 202 else 200, cfg_agent_token c), adopt c st3)))))"

definition handleSetupApply :: "world \<Rightarrow> string option \<Rightarrow> setup_request \<Rightarrow> dash \<Rightarrow> answer \<times> dash" where
  "handleSetupApply w cookie req0 st0 =
     (let (ok, st) = (if NeedsSetup (da_cfg st0) then (True, st0)
                      else case resolvePrincipal w cookie st0 of
                        (None, st1) \<Rightarrow> (False, st1) | (Some p, st1) \<Rightarrow> (pr_admin p, st1))
      in if \<not> ok then ((403, ''setup already completed''), st)
         else if sr_draft req0 then handleSetupDraft w req0 st
         else
           (let m = to_lower (trim_space (sr_auth req0)); mode = (if m = '''' then ''password'' else m); cur = da_cfg st in
            if mode \<noteq> ''open'' \<and> mode \<noteq> ''password'' then ((400, ''auth_mode must be open or password''), st)
            else
              (let req = fill_request req0 cur in
               case apply_refused (\<not> NeedsSetup cur) req of
                 Some a \<Rightarrow> (a, st)
               | None \<Rightarrow>
                   (case (if blank (sr_pem req) then (None, st) else write_pem w (pem_path cur) (trim_space (sr_pem req)) st) of
                      (Some a, st1) \<Rightarrow> (a, st1)
                    | (None, st1) \<Rightarrow> finish_apply w req mode (apply_config w req mode cur) st1))))"

section \<open>Sessions and users\<close>

text \<open>The cookie a login sets; \<open>wd_random\<close> is the new token.\<close>

definition handleAuthLogin :: "world \<Rightarrow> string \<Rightarrow> string \<Rightarrow> dash \<Rightarrow> (answer \<times> string option) \<times> dash" where
  "handleAuthLogin w email password st =
     (case da_db st of
        None \<Rightarrow> (((400, ''password auth not enabled''), None), st)
      | Some db \<Rightarrow>
          if cfg_auth (da_cfg st) \<noteq> ''password'' then (((400, ''password auth not enabled''), None), st)
          else (case Authenticate (wd_check w) (wd_db w) email password db of
                  Inl e \<Rightarrow> (((401, ''invalid credentials''), None), st)
                | Inr u \<Rightarrow>
                    (case CreateSession (wd_sha w) (wd_db w) (wd_now w) (wd_random w) (au_id u) day db of
                       (Inl e, db1) \<Rightarrow> (((500, ''session''), None), st\<lparr> da_db := Some db1 \<rparr>)
                     | (Inr (tok, exp), db1) \<Rightarrow> (((200, ''''), Some tok), st\<lparr> da_db := Some db1 \<rparr>))))"

definition handleAuthLogout :: "world \<Rightarrow> string option \<Rightarrow> dash \<Rightarrow> answer \<times> dash" where
  "handleAuthLogout w cookie st =
     (case (cookie, da_db st) of
        (Some raw, Some db) \<Rightarrow> ((200, ''''), st\<lparr> da_db := Some (snd (DeleteSession (wd_sha w) (wd_db w) raw db)) \<rparr>)
      | _ \<Rightarrow> ((200, ''''), st))"

definition handleCreateUser :: "world \<Rightarrow> string \<Rightarrow> string \<Rightarrow> string \<Rightarrow> bool \<Rightarrow> principal \<Rightarrow> dash \<Rightarrow> answer \<times> dash" where
  "handleCreateUser w email password role must p st =
     (case da_db st of
        None \<Rightarrow> ((400, ''password mode required''), st)
      | Some db \<Rightarrow>
          if cfg_auth (da_cfg st) \<noteq> ''password'' then ((400, ''password mode required''), st)
          else (case CreateUser (wd_kdf w) (wd_db w) (wd_now w) email password role must db of
                  (Inl e, db1) \<Rightarrow> ((400, ''create user''), st\<lparr> da_db := Some db1 \<rparr>)
                | (Inr u, db1) \<Rightarrow> ((201, au_email u), st\<lparr> da_db := Some db1 \<rparr>)))"

section \<open>Settings\<close>

record settings_request =
  ss_listen :: string
  ss_app_id :: "int option"
  ss_org :: string
  ss_secret :: string
  ss_pem_path :: string
  ss_pem :: string
  ss_prefix :: string
  ss_group :: "int option"
  ss_token :: string
  ss_mcp :: string
  ss_auth :: string
  ss_setup :: "bool option"
  ss_sqlite :: string
  ss_data :: string
  ss_hostctl :: string
  ss_cache :: "string option"
  ss_restart :: bool

definition settings_config :: "settings_request \<Rightarrow> ControlConfig \<Rightarrow> ControlConfig" where
  "settings_config req c =
     c\<lparr> cfg_listen := given (ss_listen req) (cfg_listen c),
        cfg_app_id := (case ss_app_id req of None \<Rightarrow> cfg_app_id c | Some n \<Rightarrow> n),
        cfg_org := given (ss_org req) (cfg_org c), cfg_webhook_secret := given (ss_secret req) (cfg_webhook_secret c),
        cfg_pem_path := given (ss_pem_path req) (cfg_pem_path c), cfg_label_prefix := given (ss_prefix req) (cfg_label_prefix c),
        cfg_group := (case ss_group req of None \<Rightarrow> cfg_group c | Some n \<Rightarrow> n),
        cfg_agent_token := given (ss_token req) (cfg_agent_token c), cfg_mcp_token := given (ss_mcp req) (cfg_mcp_token c),
        cfg_auth := (let m = to_lower (trim_space (ss_auth req)) in if m = '''' then cfg_auth c else m),
        cfg_setup := (case ss_setup req of None \<Rightarrow> cfg_setup c | Some b \<Rightarrow> b),
        cfg_sqlite := given (ss_sqlite req) (cfg_sqlite c), cfg_data := given (ss_data req) (cfg_data c),
        cfg_hostctl := given (ss_hostctl req) (cfg_hostctl c) \<rparr>"

definition settings_refused :: "settings_request \<Rightarrow> answer option" where
  "settings_refused req =
     (let m = to_lower (trim_space (ss_auth req)) in
      if m \<noteq> '''' \<and> m \<noteq> ''open'' \<and> m \<noteq> ''password'' then Some (400, ''auth_mode must be open or password'')
      else if ss_cache req \<noteq> None \<and> \<not> validateCacheListenAddr (the (ss_cache req))
        then Some (400, ''cache_listen_addr must be host:port or empty to disable'')
      else if \<not> blank (ss_pem req) \<and> \<not> key_pem (trim_space (ss_pem req)) then Some (400, ''invalid private key pem'')
      else None)"

definition store_settings :: "world \<Rightarrow> settings_request \<Rightarrow> ControlConfig \<Rightarrow> dash \<Rightarrow> answer \<times> dash" where
  "store_settings w req new st =
     (let full = cfg_app_id new \<noteq> 0 \<and> cfg_org new \<noteq> '''' \<and> cfg_agent_token new \<noteq> '''' \<and> cfg_webhook_secret new \<noteq> '''' in
      case Validate_control (if full then new\<lparr> cfg_setup := True \<rparr> else new) of
        (Some e, c) \<Rightarrow> ((400, ''config''), st)
      | (None, c) \<Rightarrow>
          (case write_config w c st of
             (Some a, st1) \<Rightarrow> (a, st1)
           | (None, st1) \<Rightarrow>
               (case (case ss_cache req of
                        None \<Rightarrow> (None, da_agent_file st1)
                      | Some addr \<Rightarrow> PatchAgentTOMLString (wd_agent w) (da_agent_path st1) cache_key (trim_space addr) (da_agent_file st1)) of
                  (Some e, f) \<Rightarrow> ((500, ''write agent cache_listen_addr: '' @ e), st1\<lparr> da_agent_file := f \<rparr>)
                | (None, f) \<Rightarrow> ((if ss_restart req then 202 else 200, ''''), adopt c (st1\<lparr> da_agent_file := f \<rparr>)))))"

definition handleSettingsConfigSave :: "world \<Rightarrow> settings_request \<Rightarrow> principal \<Rightarrow> dash \<Rightarrow> answer \<times> dash" where
  "handleSettingsConfigSave w req p st =
     (case settings_refused req of
        Some a \<Rightarrow> (a, st)
      | None \<Rightarrow>
          (let new = settings_config req (da_cfg st); pem = trim_space (ss_pem req) in
           if pem = '''' then store_settings w req new st
           else case write_pem w (pem_path new) pem st of
             (Some a, st1) \<Rightarrow> (a, st1)
           | (None, st1) \<Rightarrow> store_settings w req (new\<lparr> cfg_pem_path := pem_path new \<rparr>) st1))"

definition handleSettingsShapesSave :: "world \<Rightarrow> VMShapeConfig list \<Rightarrow> bool \<Rightarrow> principal \<Rightarrow> dash \<Rightarrow> answer \<times> dash" where
  "handleSettingsShapesSave w shapes restart p st =
     (if da_agent_file st = None then ((404, ''agent.toml not found''), st)
      else case WriteAgentShapes (wd_agent w) (da_agent_path st) shapes (da_agent_file st) of
        (Some e, f) \<Rightarrow> ((400, e), st\<lparr> da_agent_file := f \<rparr>)
      | (None, f) \<Rightarrow> ((if restart then 202 else 200, ''''), st\<lparr> da_agent_file := f \<rparr>))"

section \<open>The requests that change something\<close>

datatype request =
  ReqSetup setup_request
| ReqLogin string string
| ReqLogout
| ReqSettings settings_request
| ReqShapes "VMShapeConfig list" bool
| ReqCreateUser string string string bool

fun serve_dashboard :: "world \<Rightarrow> string option \<Rightarrow> request \<Rightarrow> dash \<Rightarrow> answer \<times> dash" where
  "serve_dashboard w cookie (ReqSetup r) st = handleSetupApply w cookie r st"
| "serve_dashboard w cookie (ReqLogin email password) st = (case handleAuthLogin w email password st of ((a, _), st1) \<Rightarrow> (a, st1))"
| "serve_dashboard w cookie ReqLogout st = handleAuthLogout w cookie st"
| "serve_dashboard w cookie (ReqSettings r) st = withUIAuth w cookie True (handleSettingsConfigSave w r) st"
| "serve_dashboard w cookie (ReqShapes ss restart) st = withUIAuth w cookie True (handleSettingsShapesSave w ss restart) st"
| "serve_dashboard w cookie (ReqCreateUser email password role must) st =
     withUIAuth w cookie True (handleCreateUser w email password role must) st"

text \<open>
  The start of the control plane from what is stored: \<open>None\<close> when it exits. \<open>parses\<close> says which key files are keys.
\<close>

definition bootstrap_config :: ControlConfig where
  "bootstrap_config =
     \<lparr> cfg_listen = ''0.0.0.0:8080'', cfg_app_id = 0, cfg_pem_path = default_pem, cfg_webhook_secret = '''', cfg_org = '''',
        cfg_label_prefix = '''', cfg_group = 0, cfg_agent_token = '''', cfg_mcp_token = '''', cfg_tls_cert = '''', cfg_tls_key = '''',
        cfg_tls_ca = '''', cfg_stuck = 0, cfg_stale = 0, cfg_reconcile = 0, cfg_auth = ''open'', cfg_sqlite = ''/var/lib/temperci/control.db'',
        cfg_setup = False, cfg_hostctl = ''/usr/local/bin/temperci-hostctl'', cfg_data = ''/var/lib/temperci'' \<rparr>"

definition control_start :: "(string \<Rightarrow> bool) \<Rightarrow> dbio \<Rightarrow> userdb \<Rightarrow> dash \<Rightarrow> dash option" where
  "control_start parses io db st =
     (case Validate_control (case da_file st of None \<Rightarrow> bootstrap_config | Some c \<Rightarrow> c) of
        (Some e, c) \<Rightarrow> None
      | (None, c0) \<Rightarrow>
          (let c = (if SetupCompleted io db = Inr True then c0\<lparr> cfg_setup := True \<rparr> else c0);
               up = st\<lparr> da_cfg := c, da_token := cfg_agent_token c, da_secret := cfg_webhook_secret c,
                        da_ready := \<not> NeedsSetup c, da_db := Some db \<rparr>
           in if NeedsSetup c then Some up
              else case map_of (da_pems st) (cfg_pem_path c) of
                None \<Rightarrow> None
              | Some pem \<Rightarrow> if parses pem then Some up else None))"

end
