(* ===== verification/DashboardAccess.thy ===== *)
theory DashboardAccess
  imports Dashboard
begin

text \<open>
  What the dashboard promises: who may change it, that its state stays well formed, how long a session lasts, and
  how an operator can be locked out of it.
\<close>

section \<open>Who gets through\<close>

definition users_of :: "dash \<Rightarrow> account list" where
  "users_of st = (case da_db st of None \<Rightarrow> [] | Some db \<Rightarrow> ud_users db)"

definition dash_ok :: "dash \<Rightarrow> bool" where
  "dash_ok st \<longleftrightarrow> control_ok (da_cfg st) \<and> (\<forall>db. da_db st = Some db \<longrightarrow> accounts_ok db)"

lemma resolve_frame:
  assumes "resolvePrincipal w cookie st = (p, st1)"
  shows "\<exists>d. st1 = st\<lparr> da_db := d \<rparr> \<and> users_of st1 = users_of st \<and> (dash_ok st \<longrightarrow> dash_ok st1)"
proof (cases "\<exists>db. da_db st = Some db \<and> \<not> NeedsSetup (da_cfg st) \<and> cfg_auth (da_cfg st) \<noteq> ''open'' \<and> cookie \<noteq> None \<and> cookie \<noteq> Some ''''")
  case False
  then have "st1 = st" using assms by (auto simp: resolvePrincipal_def split: if_splits option.splits)
  then show ?thesis by (intro exI [of _ "da_db st"]) simp
next
  case True
  then obtain db where db: "da_db st = Some db" "\<not> NeedsSetup (da_cfg st)" "cfg_auth (da_cfg st) \<noteq> ''open''" "cookie \<noteq> None" "cookie \<noteq> Some ''''"
    by blast
  obtain r db1 where s: "SessionUser (wd_sha w) (wd_db w) (wd_now w) (the cookie) db = (r, db1)" by fastforce
  then have "ud_users db1 = ud_users db" by (auto simp: SessionUser_def Let_def split: if_splits option.splits)
  moreover have "accounts_ok db \<Longrightarrow> accounts_ok db1" using session_user_ok s by blast
  moreover have "st1 = st\<lparr> da_db := Some db1 \<rparr>"
    using assms db s by (auto simp: resolvePrincipal_def split: sum.splits option.splits)
  ultimately show ?thesis using db by (intro exI [of _ "Some db1"]) (simp add: users_of_def dash_ok_def)
qed

text \<open>In password mode after the setup, someone is only somebody with a session.\<close>

definition has_session :: "world \<Rightarrow> string option \<Rightarrow> account \<Rightarrow> dash \<Rightarrow> bool" where
  "has_session w cookie u st \<longleftrightarrow>
     (\<exists>db raw s. da_db st = Some db \<and> cookie = Some raw \<and> u \<in> set (ud_users db) \<and> s \<in> set (ud_sessions db) \<and>
        se_token s = wd_sha w raw \<and> se_user s = au_id u \<and> wd_now w \<le> parseStoredTime (se_expires s))"

lemma somebody:
  assumes "resolvePrincipal w cookie st = (Some p, st1)" and "\<not> NeedsSetup (da_cfg st)" and "cfg_auth (da_cfg st) \<noteq> ''open''"
  shows "\<exists>u. pr_user p = Some u \<and> pr_admin p = (au_role u = RoleAdmin) \<and> has_session w cookie u st"
proof -
  obtain db raw where db: "da_db st = Some db" "cookie = Some raw"
    using assms by (auto simp: resolvePrincipal_def split: if_splits option.splits)
  obtain r db1 where s: "SessionUser (wd_sha w) (wd_db w) (wd_now w) raw db = (r, db1)" by fastforce
  then obtain u where "r = Inr (Some u)" "p = \<lparr> pr_user = Some u, pr_admin = (au_role u = RoleAdmin), pr_open = False \<rparr>"
    using assms db by (auto simp: resolvePrincipal_def split: if_splits sum.splits option.splits)
  then show ?thesis using session_user_spec s db unfolding has_session_def by fastforce
qed

text \<open>What a request may change: everything but the sessions.\<close>

definition same_setup :: "dash \<Rightarrow> dash \<Rightarrow> bool" where
  "same_setup st st' \<longleftrightarrow>
     da_cfg st' = da_cfg st \<and> da_file st' = da_file st \<and> da_agent_file st' = da_agent_file st \<and> da_pems st' = da_pems st \<and>
     da_token st' = da_token st \<and> da_secret st' = da_secret st \<and> users_of st' = users_of st"

lemma same_db: "st1 = st\<lparr> da_db := d \<rparr> \<Longrightarrow> users_of st1 = users_of st \<Longrightarrow> same_setup st st1"
  by (simp add: same_setup_def)

lemma resolve_same: "resolvePrincipal w cookie st = (p, st1) \<Longrightarrow> same_setup st st1"
  using resolve_frame same_db by blast

lemma guarded:
  assumes "withUIAuth w cookie True nxt st = (a, st')"
  shows "fst a \<in> {401, 403} \<and> same_setup st st' \<or>
    (\<exists>p st1. resolvePrincipal w cookie st = (Some p, st1) \<and> pr_admin p \<and> nxt p st1 = (a, st'))"
proof -
  obtain p st1 where r: "resolvePrincipal w cookie st = (p, st1)" by fastforce
  show ?thesis
  proof (cases p)
    case None
    then show ?thesis using assms r resolve_same [OF r] by (auto simp: withUIAuth_def)
  next
    case (Some q)
    then show ?thesis using assms r resolve_same [OF r] by (auto simp: withUIAuth_def split: if_splits)
  qed
qed

lemma guarded_admin:
  "withUIAuth w cookie True nxt st = (a, st') \<Longrightarrow> \<not> same_setup st st' \<Longrightarrow>
    \<exists>p st1. resolvePrincipal w cookie st = (Some p, st1) \<and> pr_admin p"
  using guarded by blast

lemma login_same:
  assumes "handleAuthLogin w email password st = (x, st')"
  shows "same_setup st st' \<and> (users_of st = [] \<longrightarrow> 400 \<le> fst (fst x))"
proof (cases "\<exists>db u. da_db st = Some db \<and> cfg_auth (da_cfg st) = ''password'' \<and> Authenticate (wd_check w) (wd_db w) email password db = Inr u")
  case False
  then show ?thesis
    using assms by (auto simp: handleAuthLogin_def same_setup_def users_of_def split: option.splits if_splits sum.splits)
next
  case True
  then obtain db u where db: "da_db st = Some db" "cfg_auth (da_cfg st) = ''password''"
      "Authenticate (wd_check w) (wd_db w) email password db = Inr u" by blast
  obtain r db1 where s: "CreateSession (wd_sha w) (wd_db w) (wd_now w) (wd_random w) (au_id u) day db = (r, db1)" by fastforce
  have "ud_users db1 = ud_users db" using s by (auto simp: CreateSession_def Let_def split: option.splits if_splits)
  moreover have "st' = st\<lparr> da_db := Some db1 \<rparr>" using assms db s by (auto simp: handleAuthLogin_def split: sum.splits)
  moreover have "u \<in> set (users_of st)" using login_spec [OF db(3)] db(1) by (simp add: users_of_def)
  ultimately show ?thesis using db(1) by (auto simp: same_setup_def users_of_def)
qed

lemma logout_same: "handleAuthLogout w cookie st = (a, st') \<Longrightarrow> same_setup st st'"
  by (auto simp: handleAuthLogout_def same_setup_def users_of_def DeleteSession_def split: option.splits)

lemma setup_guarded:
  assumes "handleSetupApply w cookie r st = (a, st')" and "\<not> NeedsSetup (da_cfg st)"
  shows "fst a = 403 \<and> same_setup st st' \<or> (\<exists>p st1. resolvePrincipal w cookie st = (Some p, st1) \<and> pr_admin p)"
proof -
  obtain p st1 where res: "resolvePrincipal w cookie st = (p, st1)" by fastforce
  show ?thesis
  proof (cases "p = None \<or> \<not> pr_admin (the p)")
    case True
    then have "a = (403, ''setup already completed'') \<and> st' = st1"
      using assms res by (cases p) (auto simp: handleSetupApply_def)
    then show ?thesis using resolve_same [OF res] by simp
  qed (use res in auto)
qed

text \<open>
  C19. After the setup and in password mode, only an administrator changes anything: a request that changes the
  configuration, a file, a secret or the users carries the cookie of an unexpired session of a user who is an
  administrator. Every other request leaves all of that as it was, whatever it asks for.
\<close>

theorem changes_need_admin:
  assumes "serve_dashboard w cookie r st = (a, st')" and "\<not> NeedsSetup (da_cfg st)" and "cfg_auth (da_cfg st) = ''password''"
    and "\<not> same_setup st st'"
  shows "\<exists>u. au_role u = RoleAdmin \<and> has_session w cookie u st"
proof -
  have admin: "\<exists>p st1. resolvePrincipal w cookie st = (Some p, st1) \<and> pr_admin p"
  proof (cases r)
    case (ReqSetup q)
    then show ?thesis using setup_guarded [of w cookie q st a st'] assms by auto
  next
    case (ReqLogin email password)
    then show ?thesis using login_same assms by (auto split: prod.splits)
  next
    case ReqLogout
    then show ?thesis using logout_same assms by auto
  next
    case (ReqSettings q)
    show ?thesis by (rule guarded_admin [of w cookie "handleSettingsConfigSave w q" st a st']) (use assms ReqSettings in simp_all)
  next
    case (ReqShapes ss restart)
    show ?thesis by (rule guarded_admin [of w cookie "handleSettingsShapesSave w ss restart" st a st']) (use assms ReqShapes in simp_all)
  next
    case (ReqCreateUser email password role must)
    show ?thesis
      by (rule guarded_admin [of w cookie "handleCreateUser w email password role must" st a st']) (use assms ReqCreateUser in simp_all)
  qed
  then obtain p st1 where p: "resolvePrincipal w cookie st = (Some p, st1)" "pr_admin p" by blast
  have "cfg_auth (da_cfg st) \<noteq> ''open''" using assms(3) by simp
  from somebody [OF p(1) assms(2) this] p(2) show ?thesis by auto
qed

section \<open>Locked out\<close>

definition locked :: "dash \<Rightarrow> bool" where
  "locked st \<longleftrightarrow> \<not> NeedsSetup (da_cfg st) \<and> cfg_auth (da_cfg st) = ''password'' \<and> users_of st = []"

lemma locked_same: "locked st \<Longrightarrow> same_setup st st' \<Longrightarrow> locked st'"
  by (simp add: locked_def same_setup_def)

lemma locked_nobody: "locked st \<Longrightarrow> resolvePrincipal w cookie st = (p, st1) \<Longrightarrow> p = None"
  using somebody [of w cookie st "the p" st1] by (cases p) (auto simp: locked_def has_session_def users_of_def)

lemma serve_locked:
  assumes "locked st" and "serve_dashboard w cookie r st = (a, st')"
  shows "same_setup st st' \<and> (r = ReqLogout \<or> 400 \<le> fst a)"
proof -
  have n: "\<not> NeedsSetup (da_cfg st)" and u: "users_of st = []" using assms(1) by (simp_all add: locked_def)
  have nobody: "\<not> (\<exists>p st1. resolvePrincipal w cookie st = (Some p, st1) \<and> pr_admin p)"
    using locked_nobody [OF assms(1)] by blast
  have g: "same_setup st st' \<and> 400 \<le> fst a" if "withUIAuth w cookie True nxt st = (a, st')" for nxt
    using guarded [OF that] nobody by auto
  show ?thesis
  proof (cases r)
    case (ReqSetup q)
    then show ?thesis using setup_guarded [OF _ n, of w cookie q a st'] nobody assms(2) by auto
  next
    case (ReqLogin email password)
    then show ?thesis using login_same u assms(2) by (auto split: prod.splits)
  next
    case ReqLogout
    then show ?thesis using logout_same assms(2) by auto
  next
    case (ReqSettings q)
    show ?thesis using g [of "handleSettingsConfigSave w q"] assms(2) ReqSettings by simp
  next
    case (ReqShapes ss restart)
    show ?thesis using g [of "handleSettingsShapesSave w ss restart"] assms(2) ReqShapes by simp
  next
    case (ReqCreateUser email password role must)
    show ?thesis using g [of "handleCreateUser w email password role must"] assms(2) ReqCreateUser by simp
  qed
qed

fun serve_all :: "(world \<times> string option \<times> request) list \<Rightarrow> dash \<Rightarrow> (request \<times> answer) list \<times> dash" where
  "serve_all [] st = ([], st)"
| "serve_all ((w, cookie, r) # rs) st =
     (case serve_dashboard w cookie r st of (a, st1) \<Rightarrow> (case serve_all rs st1 of (as, st2) \<Rightarrow> ((r, a) # as, st2)))"

lemma same_trans: "same_setup a b \<Longrightarrow> same_setup b c \<Longrightarrow> same_setup a c"
  by (simp add: same_setup_def)

text \<open>
  A dashboard in password mode without a user stays locked for good: of any sequence of requests all but
  logouts are refused, and nothing is changed, not by the wizard either.
\<close>

theorem locked_for_good:
  assumes "locked st" and "serve_all rs st = (as, st')"
  shows "locked st' \<and> same_setup st st' \<and> (\<forall>(r, a) \<in> set as. r = ReqLogout \<or> 400 \<le> fst a)"
  using assms
proof (induction rs arbitrary: st as)
  case Nil
  then show ?case by (auto simp: same_setup_def)
next
  case (Cons x rs)
  obtain w cookie r where x: "x = (w, cookie, r)" by (cases x)
  obtain a st1 where s: "serve_dashboard w cookie r st = (a, st1)" by fastforce
  obtain as2 st2 where r: "serve_all rs st1 = (as2, st2)" by fastforce
  have e: "as = (r, a) # as2" "st' = st2" using Cons.prems(2) x s r by auto
  have l: "same_setup st st1 \<and> (r = ReqLogout \<or> 400 \<le> fst a)" by (rule serve_locked [OF Cons.prems(1) s])
  then have "locked st1" using locked_same Cons.prems(1) by blast
  from Cons.IH [OF this r [folded e(2)]] show ?case using l e same_trans by auto
qed

text \<open>A draft that completes the credentials ends the setup.\<close>

lemma given_not_blank: "\<not> blank new \<Longrightarrow> \<not> blank (given new old)"
  by (simp add: given_def blank_def)

lemma validate_accepts:
  assumes "cfg_auth c = ''open'' \<or> cfg_auth c = ''password''" and "cfg_setup c \<Longrightarrow> looksFullyConfigured c"
    and "trim_space (cfg_tls_cert c) = cfg_tls_cert c" and "trim_space (cfg_tls_key c) = cfg_tls_key c"
    and "trim_space (cfg_tls_ca c) = cfg_tls_ca c" and "cfg_tls_cert c = '''' \<longleftrightarrow> cfg_tls_key c = ''''"
    and "cfg_tls_ca c \<noteq> '''' \<Longrightarrow> cfg_tls_cert c \<noteq> ''''"
  shows "\<exists>c'. Validate_control c = (None, c') \<and> cfg_auth c' = cfg_auth c \<and> cfg_setup c' = cfg_setup c \<and>
    looksFullyConfigured c' = looksFullyConfigured c"
proof -
  let ?c2 = "control_defaults (control_mode c)"
  have a: "cfg_auth (control_mode c) = cfg_auth c"
    using mode_fixed [OF assms(1)] by (simp add: control_mode_def Let_def)
  have same: "looksFullyConfigured ?c2 = looksFullyConfigured c" "cfg_setup ?c2 = cfg_setup c"
    by (simp_all add: control_defaults_def control_mode_def Let_def looksFullyConfigured_def)
  have tls: "control_tls ?c2 = ?c2"
    using assms(3-5) by (simp add: control_tls_def control_defaults_def control_mode_def Let_def)
  have "(if cfg_setup ?c2 \<or> looksFullyConfigured ?c2 then missing_credential ?c2 else None) = None"
    using assms(2) same by (auto simp: missing_credential_def looksFullyConfigured_def)
  moreover have "cfg_tls_cert ?c2 = cfg_tls_cert c" "cfg_tls_key ?c2 = cfg_tls_key c" "cfg_tls_ca ?c2 = cfg_tls_ca c"
    by (simp_all add: control_defaults_def control_mode_def Let_def)
  ultimately have "Validate_control c = (None, control_times ?c2)"
    using assms(1,6,7) a tls by (auto simp: Validate_control_def Let_def)
  moreover have "cfg_auth ?c2 = cfg_auth c" using a by (simp add: control_defaults_def)
  ultimately show ?thesis using same by (simp add: control_times_def looksFullyConfigured_def)
qed

definition no_errors :: "world \<Rightarrow> bool" where
  "no_errors w \<longleftrightarrow> wd_db w = (\<lambda>_. None) \<and> wd_mkdir w = None \<and> wd_pem w = None \<and> wd_write w = None \<and> wd_stat w = None \<and> wd_agent w = None"

text \<open>What an operator fills in at the step of the wizard that asks for the GitHub app.\<close>

definition filled_in :: "setup_request \<Rightarrow> bool" where
  "filled_in r \<longleftrightarrow> sr_app_id r \<noteq> 0 \<and> \<not> blank (sr_org r) \<and> \<not> blank (sr_secret r) \<and> \<not> blank (sr_pem r) \<and>
     key_pem (trim_space (sr_pem r)) \<and> to_lower (trim_space (sr_auth r)) = ''password''"

text \<open>
  C37. Saving a draft of the wizard locks the operator out: when the fields are filled in, the agent token too, and
  password mode is chosen, the draft is accepted; from then on the setup counts as done, although no user exists,
  and by the theorem above every further request is refused, the last step of the wizard first of all.
\<close>

theorem draft_locks_out:
  assumes "NeedsSetup (da_cfg st)" and "dash_ok st" and "users_of st = []" and "no_errors w"
    and "filled_in r" and "sr_draft r" and "\<not> blank (sr_token r)" and "blank (sr_cache r)"
    and "serve_dashboard w cookie (ReqSetup r) st = (a, st')"
  shows "fst a = 200 \<and> locked st'"
proof -
  let ?c = "da_cfg st"
  let ?d = "(draft_config r ?c)\<lparr> cfg_pem_path := pem_path (draft_config r ?c) \<rparr>"
  have auth: "cfg_auth ?d = ''password''" using assms(5) by (simp add: draft_config_def filled_in_def Let_def)
  have full: "looksFullyConfigured ?d"
    using assms(5,7) by (simp add: draft_config_def filled_in_def Let_def looksFullyConfigured_def given_not_blank)
  have tls: "cfg_tls_cert ?d = cfg_tls_cert ?c" "cfg_tls_key ?d = cfg_tls_key ?c" "cfg_tls_ca ?d = cfg_tls_ca ?c"
    by (simp_all add: draft_config_def Let_def)
  have "\<exists>c'. Validate_control (?d\<lparr> cfg_setup := False \<rparr>) = (None, c') \<and> cfg_auth c' = ''password'' \<and> looksFullyConfigured c'"
    using validate_accepts [of "?d\<lparr> cfg_setup := False \<rparr>"] auth full tls assms(2)
    by (auto simp: dash_ok_def control_ok_def looksFullyConfigured_def)
  then obtain c' where v: "Validate_control (?d\<lparr> cfg_setup := False \<rparr>) = (None, c')" "cfg_auth c' = ''password''" "looksFullyConfigured c'"
    by blast
  have "trim_space (sr_pem r) \<noteq> ''''" using assms(5) by (simp add: filled_in_def blank_def)
  then have "serve_dashboard w cookie (ReqSetup r) st = handleSetupDraft w r st"
    using assms(1,6) by (simp add: handleSetupApply_def)
  also have "\<dots> = ((200, ''draft''), st\<lparr> da_token := given (sr_token r) (da_token st),
      da_pems := AList.update (pem_path (draft_config r ?c)) (trim_space (sr_pem r) @ [newline]) (da_pems st),
      da_file := Some c', da_cfg := c' \<rparr>)"
    using assms(4,5,8) \<open>trim_space (sr_pem r) \<noteq> ''''\<close> v(1)
    by (simp add: handleSetupDraft_def Let_def filled_in_def write_pem_def no_errors_def store_draft_def write_config_def)
  finally show ?thesis
    using assms(3,9) v(2,3) by (auto simp: locked_def NeedsSetup_def users_of_def)
qed

definition demo_control :: ControlConfig where
  "demo_control = snd (Validate_control bootstrap_config)"

definition demo_world :: world where
  "demo_world = \<lparr> wd_now = 5, wd_db = (\<lambda>_. None), wd_mkdir = None, wd_pem = None, wd_write = None, wd_stat = None, wd_agent = None,
     wd_random = ''r'', wd_kdf = (\<lambda>p. Some (CHR ''h'' # p)), wd_check = (\<lambda>h p. h = CHR ''h'' # p), wd_sha = rev \<rparr>"

definition no_users :: userdb where
  "no_users = \<lparr> ud_users = [], ud_next = 1, ud_sessions = [], ud_setup = None \<rparr>"

definition fresh_dash :: dash where
  "fresh_dash = \<lparr> da_cfg = demo_control, da_file = None, da_agent_path = ''/etc/temperci/agent.toml'', da_agent_file = None, da_pems = [],
     da_token = '''', da_secret = '''', da_ready = False, da_db = Some no_users \<rparr>"

definition wizard_request :: setup_request where
  "wizard_request = \<lparr> sr_auth = ''password'', sr_email = '''', sr_password = '''', sr_app_id = 7, sr_org = ''acme'', sr_secret = ''s'',
     sr_pem = ''PRIVATE KEY'', sr_token = ''t'', sr_listen = '''', sr_cache = '''', sr_restart = False, sr_draft = True \<rparr>"

lemma fresh_dash_facts:
  "NeedsSetup (da_cfg fresh_dash)" "dash_ok fresh_dash" "users_of fresh_dash = []" "no_errors demo_world"
proof -
  show "NeedsSetup (da_cfg fresh_dash)" unfolding fresh_dash_def demo_control_def by code_simp
  have "fst (Validate_control bootstrap_config) = None" by code_simp
  then have "Validate_control bootstrap_config = (None, demo_control)" by (metis demo_control_def prod.collapse)
  then show "dash_ok fresh_dash"
    using control_config_accepted by (auto simp: dash_ok_def fresh_dash_def accounts_ok_def no_users_def)
  show "users_of fresh_dash = []" "no_errors demo_world"
    by (simp_all add: users_of_def fresh_dash_def no_users_def no_errors_def demo_world_def)
qed

lemma wizard_facts:
  "filled_in wizard_request" "\<not> blank (sr_token wizard_request)" "blank (sr_cache wizard_request)" "\<not> blank (sr_pem wizard_request)"
  unfolding wizard_request_def by code_simp+

lemma draft_locks_out_witness:
  "\<exists>a st'. serve_dashboard demo_world None (ReqSetup wizard_request) fresh_dash = (a, st') \<and> fst a = 200 \<and> locked st'"
proof -
  obtain a st' where s: "serve_dashboard demo_world None (ReqSetup wizard_request) fresh_dash = (a, st')" by fastforce
  have "sr_draft wizard_request" by (simp add: wizard_request_def)
  from draft_locks_out [OF fresh_dash_facts wizard_facts(1) this wizard_facts(2,3) s] s show ?thesis by blast
qed

lemma locked_for_good_witness:
  "\<exists>as st'. serve_all [(demo_world, None, ReqLogin ''a'' ''b''), (demo_world, Some ''x'', ReqSetup wizard_request)]
      (fresh_dash\<lparr> da_cfg := demo_control\<lparr> cfg_auth := ''password'', cfg_setup := True \<rparr> \<rparr>) = (as, st') \<and> locked st' \<and>
    (\<forall>(r, a) \<in> set as. r = ReqLogout \<or> 400 \<le> fst a)"
proof -
  let ?st = "fresh_dash\<lparr> da_cfg := demo_control\<lparr> cfg_auth := ''password'', cfg_setup := True \<rparr> \<rparr>"
  obtain as st' where s: "serve_all [(demo_world, None, ReqLogin ''a'' ''b''), (demo_world, Some ''x'', ReqSetup wizard_request)] ?st = (as, st')"
    by fastforce
  have "locked ?st" by (simp add: locked_def NeedsSetup_def users_of_def fresh_dash_def no_users_def)
  from locked_for_good [OF this s] s show ?thesis by blast
qed

text \<open>A user and a session for the other witnesses.\<close>

definition admin_account :: account where
  "admin_account = \<lparr> au_id = 1, au_email = ''a'', au_hash = ''hp'', au_role = RoleAdmin, au_must_change = False, au_created = '''' \<rparr>"

definition password_dash :: dash where
  "password_dash = fresh_dash\<lparr> da_cfg := demo_control\<lparr> cfg_auth := ''password'', cfg_setup := True, cfg_app_id := 1, cfg_org := ''o'',
       cfg_agent_token := ''t'', cfg_webhook_secret := ''s'' \<rparr>,
     da_db := Some \<lparr> ud_users = [admin_account], ud_next = 2, ud_sessions = [], ud_setup = None \<rparr> \<rparr>"

text \<open>
  A refused setup is stored all the same: finished in password mode without an administrator's email, the wizard
  is told that these are required and goes on as before in memory; but the file says that the setup is completed, and
  the control plane that is started from it is locked.
\<close>

theorem refused_setup_is_stored:
  assumes "NeedsSetup (da_cfg st)" and "dash_ok st" and "da_db st = Some db" and "ud_users db = []" and "no_errors w"
    and "filled_in r" and "\<not> sr_draft r" and "blank (sr_email r)" and "blank (sr_cache r)" and "da_agent_file st = None"
    and "\<not> blank (sr_token r)"
    and "serve_dashboard w cookie (ReqSetup r) st = (a, st')"
  shows "fst a = 400 \<and> da_cfg st' = da_cfg st \<and>
    (\<exists>c. da_file st' = Some c \<and> cfg_setup c \<and> cfg_auth c = ''password'') \<and>
    (\<forall>parses io up. control_start parses io db st' = Some up \<longrightarrow> locked up)"
proof -
  let ?c = "da_cfg st" let ?r = "fill_request r ?c"
  have r: "?r = r" using assms(6) by (simp add: fill_request_def filled_in_def)
  let ?new = "apply_config w r ''password'' ?c"
  have pem: "\<not> blank (sr_pem r)" "trim_space (sr_pem r) \<noteq> ''''" using assms(6) by (simp_all add: filled_in_def blank_def)
  have tok: "\<not> blank (trim_space (sr_token r))" using assms(11) by (simp add: blank_def)
  have tls: "cfg_tls_cert ?new = cfg_tls_cert ?c" "cfg_tls_key ?new = cfg_tls_key ?c" "cfg_tls_ca ?new = cfg_tls_ca ?c"
    and m: "cfg_auth ?new = ''password''" "cfg_setup ?new"
    by (simp_all add: apply_config_def Let_def)
  have full: "looksFullyConfigured ?new"
    using assms(6,11) tok by (simp add: apply_config_def Let_def looksFullyConfigured_def filled_in_def blank_def)
  have "\<exists>c'. Validate_control ?new = (None, c') \<and> cfg_auth c' = ''password'' \<and> cfg_setup c'"
    using validate_accepts [of ?new] m full tls assms(2) by (auto simp: dash_ok_def control_ok_def)
  then obtain c' where v: "Validate_control ?new = (None, c')" "cfg_auth c' = ''password''" "cfg_setup c'" by blast
  let ?st1 = "st\<lparr> da_pems := AList.update (pem_path ?c) (trim_space (sr_pem r) @ [newline]) (da_pems st) \<rparr>"
  have auth: "to_lower (trim_space (sr_auth r)) = ''password''" using assms(6) by (simp add: filled_in_def)
  have "apply_refused False r = None" using assms(6) by (simp add: apply_refused_def filled_in_def)
  then have "handleSetupApply w cookie r st = finish_apply w r ''password'' ?new ?st1"
    using assms(1,5,7) auth r pem by (simp add: handleSetupApply_def Let_def write_pem_def no_errors_def)
  also have "\<dots> = ((400, ''admin_email and admin_password required for password mode''), ?st1\<lparr> da_file := Some c', da_db := Some db \<rparr>)"
    using assms(3,4,5,8,9,10) v(1)
    by (simp add: finish_apply_def validateCacheListenAddr_def write_config_def no_errors_def writeAgentCacheListenAddr_def
        first_admin_def UserCount_def Let_def)
  finally have e: "a = (400, ''admin_email and admin_password required for password mode'')"
      "st' = ?st1\<lparr> da_file := Some c', da_db := Some db \<rparr>" using assms(12) by auto
  have "Validate_control c' = (None, c')" by (rule control_validation_again [OF v(1)])
  then have "locked up" if "control_start parses io db st' = Some up" for parses io up
    using that v(2,3) assms(4)
    by (auto simp: e(2) control_start_def Let_def locked_def NeedsSetup_def users_of_def split: if_splits option.splits)
  then show ?thesis using e v(2,3) by auto
qed

lemma refused_setup_is_stored_witness:
  "\<exists>a st' c. serve_dashboard demo_world None (ReqSetup (wizard_request\<lparr> sr_draft := False \<rparr>)) fresh_dash = (a, st') \<and> fst a = 400 \<and>
     da_file st' = Some c \<and> cfg_setup c"
proof -
  obtain a st' where s: "serve_dashboard demo_world None (ReqSetup (wizard_request\<lparr> sr_draft := False \<rparr>)) fresh_dash = (a, st')" by fastforce
  have f: "filled_in (wizard_request\<lparr> sr_draft := False \<rparr>)" using wizard_facts(1) by (simp add: filled_in_def)
  have "da_db fresh_dash = Some no_users" "ud_users no_users = []" "da_agent_file fresh_dash = None" "blank (sr_email wizard_request)"
    by (simp_all add: fresh_dash_def no_users_def wizard_request_def blank_def)
  then show ?thesis
    using refused_setup_is_stored [OF fresh_dash_facts(1,2) _ _ fresh_dash_facts(4) f, of no_users None a st'] s wizard_facts by auto
qed

section \<open>What every request keeps\<close>

lemma write_pem_keeps: "write_pem w path pem st = (x, st') \<Longrightarrow> da_cfg st' = da_cfg st \<and> da_db st' = da_db st"
  by (auto simp: write_pem_def split: option.splits)

lemma write_config_keeps: "write_config w c st = (x, st') \<Longrightarrow> da_cfg st' = da_cfg st \<and> da_db st' = da_db st"
  by (auto simp: write_config_def split: option.splits)

lemma write_agent_keeps: "writeAgentCacheListenAddr w addr st = (x, st') \<Longrightarrow> da_cfg st' = da_cfg st \<and> da_db st' = da_db st"
  by (auto simp: writeAgentCacheListenAddr_def split: option.splits prod.splits if_splits)

lemma dash_ok_cong: "dash_ok st \<Longrightarrow> da_cfg st' = da_cfg st \<Longrightarrow> da_db st' = da_db st \<Longrightarrow> dash_ok st'"
  by (simp add: dash_ok_def)

lemma adopt_ok: "dash_ok st \<Longrightarrow> control_ok c \<Longrightarrow> dash_ok (adopt c st)"
  by (simp add: dash_ok_def adopt_def markFleetReadyIfConfigured_def)

lemma first_admin_ok:
  assumes "first_admin w req mode st = (x, st')" and "dash_ok st"
  shows "dash_ok st'"
proof (cases "da_db st")
  case (Some db)
  have ok: "accounts_ok db" using assms(2) Some by (simp add: dash_ok_def)
  obtain r db1 where c: "CreateUser (wd_kdf w) (wd_db w) (wd_now w) (sr_email req) (sr_password req) RoleAdmin False db = (r, db1)"
    by fastforce
  have ok1: "accounts_ok db1" by (rule create_user_ok [OF ok c])
  have meta: "accounts_ok (snd (SetSetupCompleted (wd_db w) True d))" if "accounts_ok d" for d
    using that by (simp add: SetSetupCompleted_def accounts_ok_def split: option.split)
  obtain d where "st' = st\<lparr> da_db := Some d \<rparr>" "accounts_ok d"
    using assms(1) Some c ok ok1 meta by (auto simp: first_admin_def Let_def split: if_splits sum.splits prod.splits option.splits)
  then show ?thesis using assms(2) by (simp add: dash_ok_def)
qed (use assms in \<open>auto simp: first_admin_def\<close>)

lemma validated_ok: "Validate_control c0 = (None, c) \<Longrightarrow> control_ok c"
  using control_config_accepted by blast

lemma store_draft_ok:
  assumes "store_draft w req cur st = (a, st')" and "dash_ok st"
  shows "dash_ok st'"
proof -
  obtain e c where v: "Validate_control (cur\<lparr> cfg_setup := False \<rparr>) = (e, c)" by fastforce
  obtain x st1 where f: "write_config w c st = (x, st1)" by fastforce
  obtain y st2 where g: "(if blank (sr_cache req) then (None, st1) else writeAgentCacheListenAddr w (sr_cache req) st1) = (y, st2)"
    by fastforce
  have k: "da_cfg st1 = da_cfg st" "da_db st1 = da_db st" using write_config_keeps [OF f] by auto
  have k2: "da_cfg st2 = da_cfg st" "da_db st2 = da_db st" using g k write_agent_keeps by (auto split: if_splits)
  have ok: "e = None \<Longrightarrow> control_ok c" using v validated_ok by simp
  show ?thesis
    using assms f g v k k2 ok dash_ok_cong [OF assms(2)]
    by (cases e; cases x; cases y) (auto simp: store_draft_def dash_ok_def)
qed

lemma finish_apply_ok:
  assumes "finish_apply w req mode new st = (a, st')" and "dash_ok st"
  shows "dash_ok st'"
proof -
  obtain e c where v: "Validate_control new = (e, c)" by fastforce
  obtain x st1 where f: "write_config w c st = (x, st1)" by fastforce
  obtain y st2 where g: "writeAgentCacheListenAddr w (sr_cache req) st1 = (y, st2)" by fastforce
  obtain z st3 where h: "first_admin w req mode st2 = (z, st3)" by fastforce
  have k: "dash_ok st1" using dash_ok_cong [OF assms(2)] write_config_keeps [OF f] by auto
  have k2: "dash_ok st2" using dash_ok_cong [OF k] write_agent_keeps [OF g] by auto
  have k3: "dash_ok st3" by (rule first_admin_ok [OF h k2])
  have ok: "e = None \<Longrightarrow> control_ok c" using v validated_ok by simp
  show ?thesis
    using assms f g h v k k2 k3 ok adopt_ok [OF k3, of c]
    by (cases e; cases x; cases y; cases z) (auto simp: finish_apply_def split: if_splits)
qed

lemma draft_ok:
  assumes "handleSetupDraft w req st = (a, st')" and "dash_ok st"
  shows "dash_ok st'"
proof -
  let ?st1 = "st\<lparr> da_token := given (sr_token req) (da_token st) \<rparr>" let ?cur = "draft_config req (da_cfg st)"
  have ok1: "dash_ok ?st1" using assms(2) by (simp add: dash_ok_def)
  obtain x st2 where p: "write_pem w (pem_path ?cur) (trim_space (sr_pem req)) ?st1 = (x, st2)" by fastforce
  have "dash_ok st2" using dash_ok_cong [OF ok1] write_pem_keeps [OF p] by auto
  then show ?thesis
    using assms(1) ok1 p store_draft_ok
    by (cases x) (auto simp: handleSetupDraft_def Let_def split: if_splits)
qed

lemma setup_ok:
  assumes "handleSetupApply w cookie req st = (a, st')" and "dash_ok st"
  shows "dash_ok st'"
proof -
  obtain ok st1 where g: "(if NeedsSetup (da_cfg st) then (True, st)
      else case resolvePrincipal w cookie st of (None, st1) \<Rightarrow> (False, st1) | (Some p, st1) \<Rightarrow> (pr_admin p, st1)) = (ok, st1)" by fastforce
  have ok1: "dash_ok st1"
    using g assms(2) resolve_frame [of w cookie st] by (auto split: if_splits prod.splits option.splits)
  obtain x st2 where p: "(if blank (sr_pem (fill_request req (da_cfg st1))) then (None, st1)
      else write_pem w (pem_path (da_cfg st1)) (trim_space (sr_pem (fill_request req (da_cfg st1)))) st1) = (x, st2)" by fastforce
  have "dash_ok st2" using p ok1 dash_ok_cong [OF ok1] write_pem_keeps by (auto split: if_splits)
  then show ?thesis
    using assms(1) g ok1 p draft_ok finish_apply_ok
    unfolding handleSetupApply_def Let_def g
    by (cases x) (auto split: if_splits option.splits)
qed

lemma store_settings_ok:
  assumes "store_settings w req new st = (a, st')" and "dash_ok st"
  shows "dash_ok st'"
proof -
  let ?new = "if cfg_app_id new \<noteq> 0 \<and> cfg_org new \<noteq> '''' \<and> cfg_agent_token new \<noteq> '''' \<and> cfg_webhook_secret new \<noteq> ''''
    then new\<lparr> cfg_setup := True \<rparr> else new"
  obtain e c where v: "Validate_control ?new = (e, c)" by fastforce
  obtain x st1 where f: "write_config w c st = (x, st1)" by fastforce
  obtain y g where p: "(case ss_cache req of None \<Rightarrow> (None, da_agent_file st1)
      | Some addr \<Rightarrow> PatchAgentTOMLString (wd_agent w) (da_agent_path st1) cache_key (trim_space addr) (da_agent_file st1)) = (y, g)"
    by fastforce
  have k: "dash_ok (st1\<lparr> da_agent_file := g \<rparr>)" "dash_ok st1"
    using dash_ok_cong [OF assms(2)] write_config_keeps [OF f] by auto
  have ok: "e = None \<Longrightarrow> control_ok c" using v validated_ok by blast
  show ?thesis
    using assms v f p k ok adopt_ok [OF k(1), of c]
    unfolding store_settings_def Let_def
    by (cases e; cases x; cases y) (auto simp del: if_split split del: if_split)
qed

lemma settings_ok:
  assumes "handleSettingsConfigSave w req p st = (a, st')" and "dash_ok st"
  shows "dash_ok st'"
proof -
  let ?new = "settings_config req (da_cfg st)"
  obtain x st1 where f: "write_pem w (pem_path ?new) (trim_space (ss_pem req)) st = (x, st1)" by fastforce
  have "dash_ok st1" using dash_ok_cong [OF assms(2)] write_pem_keeps [OF f] by auto
  then show ?thesis
    using assms f store_settings_ok
    by (cases "settings_refused req"; cases x) (auto simp: handleSettingsConfigSave_def Let_def split: if_splits)
qed

lemma shapes_ok: "handleSettingsShapesSave w ss restart p st = (a, st') \<Longrightarrow> dash_ok st \<Longrightarrow> dash_ok st'"
  by (auto simp: handleSettingsShapesSave_def dash_ok_def split: if_splits option.splits prod.splits)

lemma create_ok:
  assumes "handleCreateUser w email password role must p st = (a, st')" and "dash_ok st"
  shows "dash_ok st'"
proof (cases "da_db st")
  case (Some db)
  obtain r db1 where c: "CreateUser (wd_kdf w) (wd_db w) (wd_now w) email password role must db = (r, db1)" by fastforce
  have "accounts_ok db1" using create_user_ok [OF _ c] assms(2) Some by (simp add: dash_ok_def)
  then show ?thesis
    using assms Some c by (auto simp: handleCreateUser_def dash_ok_def split: if_splits sum.splits)
qed (use assms in \<open>auto simp: handleCreateUser_def\<close>)

lemma login_ok:
  assumes "handleAuthLogin w email password st = (x, st')" and "dash_ok st"
  shows "dash_ok st'"
proof (cases "\<exists>db u. da_db st = Some db \<and> cfg_auth (da_cfg st) = ''password'' \<and> Authenticate (wd_check w) (wd_db w) email password db = Inr u")
  case False
  then show ?thesis using assms by (auto simp: handleAuthLogin_def split: option.splits if_splits sum.splits)
next
  case True
  then obtain db u where db: "da_db st = Some db" "cfg_auth (da_cfg st) = ''password''"
      "Authenticate (wd_check w) (wd_db w) email password db = Inr u" by blast
  obtain r db1 where s: "CreateSession (wd_sha w) (wd_db w) (wd_now w) (wd_random w) (au_id u) day db = (r, db1)" by fastforce
  have "accounts_ok db1" using create_session_ok [OF _ s] assms(2) db(1) by (simp add: dash_ok_def)
  moreover have "st' = st\<lparr> da_db := Some db1 \<rparr>" using assms(1) db s by (auto simp: handleAuthLogin_def split: sum.splits)
  ultimately show ?thesis using assms(2) by (simp add: dash_ok_def)
qed

lemma logout_ok: "handleAuthLogout w cookie st = (a, st') \<Longrightarrow> dash_ok st \<Longrightarrow> dash_ok st'"
  by (auto simp: handleAuthLogout_def dash_ok_def DeleteSession_def drop_session_ok split: option.splits)

lemma guarded_ok:
  assumes "withUIAuth w cookie True nxt st = (a, st')" and "dash_ok st"
    and "\<And>p st1 a st'. nxt p st1 = (a, st') \<Longrightarrow> dash_ok st1 \<Longrightarrow> dash_ok st'"
  shows "dash_ok st'"
proof -
  obtain p st1 where r: "resolvePrincipal w cookie st = (p, st1)" by fastforce
  then have "dash_ok st1" using resolve_frame assms(2) by blast
  then show ?thesis using assms(1,3) r by (auto simp: withUIAuth_def split: option.splits if_splits)
qed

lemma serve_ok:
  assumes "serve_dashboard w cookie r st = (a, st')" and "dash_ok st"
  shows "dash_ok st'"
proof (cases r)
  case (ReqSetup q)
  then show ?thesis using setup_ok assms by auto
next
  case (ReqLogin email password)
  then show ?thesis using login_ok assms by (auto split: prod.splits)
next
  case ReqLogout
  then show ?thesis using logout_ok assms by auto
next
  case (ReqSettings q)
  show ?thesis by (rule guarded_ok [of w cookie "handleSettingsConfigSave w q" st a]) (use assms ReqSettings settings_ok in auto)
next
  case (ReqShapes ss restart)
  show ?thesis by (rule guarded_ok [of w cookie "handleSettingsShapesSave w ss restart" st a]) (use assms ReqShapes shapes_ok in auto)
next
  case (ReqCreateUser email password role must)
  show ?thesis
    by (rule guarded_ok [of w cookie "handleCreateUser w email password role must" st a]) (use assms ReqCreateUser create_ok in auto)
qed

text \<open>
  C35. Whatever is asked of the dashboard, in whatever order and with whatever errors, the configuration in memory is
  one that validation accepts, and the accounts stay consistent: ids and emails unique, roles known, every session
  that of an existing user.
\<close>

theorem dashboard_invariant:
  assumes "dash_ok st" and "serve_all rs st = (as, st')"
  shows "dash_ok st'"
  using assms
proof (induction rs arbitrary: st as)
  case (Cons x rs)
  obtain w cookie r where x: "x = (w, cookie, r)" by (cases x)
  obtain a st1 where s: "serve_dashboard w cookie r st = (a, st1)" by fastforce
  obtain as2 st2 where r: "serve_all rs st1 = (as2, st2)" by fastforce
  have e: "st' = st2" using Cons.prems(2) x s r by auto
  show ?case by (rule Cons.IH [OF serve_ok [OF s Cons.prems(1)] r [folded e]])
qed simp

lemma dashboard_invariant_witness:
  "dash_ok (snd (serve_all [(demo_world, None, ReqSetup wizard_request), (demo_world, None, ReqLogin ''a'' ''b'')] fresh_dash))"
  by (rule dashboard_invariant [OF fresh_dash_facts(2)]) (rule prod.collapse [symmetric])

section \<open>A login's session\<close>

text \<open>
  C36. A login with the right password opens a session that is exactly that user's, until it expires a day later or is
  logged out, and no longer.
\<close>

theorem login_opens_session:
  assumes "handleAuthLogin w email password st = (((200, b), Some tok), st1)" and "dash_ok st"
    and "\<not> NeedsSetup (da_cfg st)" and "tok \<noteq> ''''" and "storable_time (wd_now w + day)"
    and "wd_sha w' = wd_sha w" and "no_errors w'"
  shows "\<exists>u. u \<in> set (users_of st) \<and> wd_check w (au_hash u) password \<and> to_lower (au_email u) = to_lower (account_email email) \<and>
    fst (resolvePrincipal w' (Some tok) st1) =
      (if wd_now w' \<le> wd_now w + day then Some \<lparr> pr_user = Some u, pr_admin = (au_role u = RoleAdmin), pr_open = False \<rparr> else None) \<and>
    fst (resolvePrincipal w' (Some tok) (snd (handleAuthLogout w' (Some tok) st1))) = None"
proof -
  obtain db u where db: "da_db st = Some db" "cfg_auth (da_cfg st) = ''password''"
      "Authenticate (wd_check w) (wd_db w) email password db = Inr u"
    using assms(1) by (auto simp: handleAuthLogin_def split: option.splits if_splits sum.splits)
  have u: "u \<in> set (ud_users db)" "wd_check w (au_hash u) password" "to_lower (au_email u) = to_lower (account_email email)"
    using login_spec [OF db(3)] by auto
  obtain exp db1 where s: "CreateSession (wd_sha w) (wd_db w) (wd_now w) (wd_random w) (au_id u) day db = (Inr (tok, exp), db1)"
    and st1: "st1 = st\<lparr> da_db := Some db1 \<rparr>"
    using assms(1) db by (auto simp: handleAuthLogin_def split: sum.splits prod.splits)
  have x: "tok = wd_random w" "exp = wd_now w + day"
    using s by (auto simp: CreateSession_def Let_def day_def split: option.splits if_splits)
  have ok: "accounts_ok db" using assms(2) db(1) by (simp add: dash_ok_def)
  have life: "SessionUser (wd_sha w') (wd_db w') (wd_now w') tok db1 =
      (if wd_now w' \<le> exp then (Inr (Some u), db1) else (Inr None, drop_session (wd_sha w tok) db1))"
    using session_life [OF ok s [folded x(1)] u(1), of "wd_db w'" "wd_now w'"] assms(4-7) x(2) by (simp add: no_errors_def)
  have cfg: "da_cfg st1 = da_cfg st" "da_db st1 = Some db1" by (simp_all add: st1)
  have a: "fst (resolvePrincipal w' (Some tok) st1) =
      (if wd_now w' \<le> exp then Some \<lparr> pr_user = Some u, pr_admin = (au_role u = RoleAdmin), pr_open = False \<rparr> else None)"
    using life db(2) assms(3,4) cfg by (simp add: resolvePrincipal_def)
  let ?out = "snd (handleAuthLogout w' (Some tok) st1)"
  have out: "da_cfg ?out = da_cfg st" "da_db ?out = Some (drop_session (wd_sha w' tok) db1)"
    using assms(7) cfg by (simp_all add: handleAuthLogout_def DeleteSession_def no_errors_def)
  have "find (\<lambda>s. se_token s = wd_sha w' tok) (ud_sessions (drop_session (wd_sha w' tok) db1)) = None"
    by (auto simp: drop_session_def find_None_iff)
  then have "SessionUser (wd_sha w') (wd_db w') (wd_now w') tok (drop_session (wd_sha w' tok) db1) =
      (Inr None, drop_session (wd_sha w' tok) db1)"
    using assms(4,7) by (simp add: SessionUser_def no_errors_def)
  then have "fst (resolvePrincipal w' (Some tok) ?out) = None"
    using out db(2) assms(3) by (simp add: resolvePrincipal_def)
  then show ?thesis using a u x(2) db(1) by (auto simp: users_of_def)
qed

lemma password_dash_ok: "dash_ok password_dash" "\<not> NeedsSetup (da_cfg password_dash)" "cfg_auth (da_cfg password_dash) = ''password''"
proof -
  have b: "\<not> blank ''o''" "\<not> blank ''t''" "\<not> blank ''s''" by code_simp+
  have "control_ok demo_control" using fresh_dash_facts(2) by (simp add: dash_ok_def fresh_dash_def)
  then have "control_ok (da_cfg password_dash)"
    using b by (auto simp: password_dash_def control_ok_def looksFullyConfigured_def)
  moreover have "accounts_ok \<lparr> ud_users = [admin_account], ud_next = 2, ud_sessions = [], ud_setup = None \<rparr>"
    by (simp add: accounts_ok_def admin_account_def)
  ultimately show "dash_ok password_dash" by (simp add: dash_ok_def password_dash_def)
  show "\<not> NeedsSetup (da_cfg password_dash)" "cfg_auth (da_cfg password_dash) = ''password''"
    by (simp_all add: password_dash_def NeedsSetup_def)
qed

lemma password_login:
  "\<exists>st1. handleAuthLogin demo_world ''a'' ''p'' password_dash = (((200, ''''), Some ''r''), st1)"
proof -
  have "account_email ''a'' = ''a''" by code_simp
  then show ?thesis
    by (simp add: handleAuthLogin_def password_dash_def fresh_dash_def Authenticate_def GetUserByEmail_def demo_world_def admin_account_def
        equal_fold_def CreateSession_def Let_def)
qed

lemma demo_time: "storable_time (wd_now demo_world + day)"
  using days_before_year_lower [of 9999] by (simp add: storable_time_def demo_world_def day_def)

lemma login_opens_session_witness:
  "\<exists>st1 u. handleAuthLogin demo_world ''a'' ''p'' password_dash = (((200, ''''), Some ''r''), st1) \<and>
     fst (resolvePrincipal demo_world (Some ''r'') st1) = Some \<lparr> pr_user = Some u, pr_admin = (au_role u = RoleAdmin), pr_open = False \<rparr>"
proof -
  obtain st1 where l: "handleAuthLogin demo_world ''a'' ''p'' password_dash = (((200, ''''), Some ''r''), st1)" using password_login by blast
  have "wd_now demo_world \<le> wd_now demo_world + day" by (simp add: day_def)
  with login_opens_session [OF l password_dash_ok(1,2) _ demo_time refl fresh_dash_facts(4)] l show ?thesis by auto
qed

lemma changes_need_admin_witness:
  "\<exists>st1 a st2 u. serve_dashboard demo_world (Some ''r'') (ReqCreateUser ''b'' ''q'' ''viewer'' False) st1 = (a, st2) \<and>
     au_role u = RoleAdmin \<and> has_session demo_world (Some ''r'') u st1"
proof -
  obtain st1 where l: "handleAuthLogin demo_world ''a'' ''p'' password_dash = (((200, ''''), Some ''r''), st1)" using password_login by blast
  have same: "same_setup password_dash st1" using login_same [OF l] by blast
  have db1: "da_cfg st1 = da_cfg password_dash" using same by (simp add: same_setup_def)
  obtain a st2 where s: "serve_dashboard demo_world (Some ''r'') (ReqCreateUser ''b'' ''q'' ''viewer'' False) st1 = (a, st2)" by fastforce
  have e: "account_email ''b'' = ''b''" "account_email ''a'' = ''a''" by code_simp+
  have "parseStoredTime (rfc3339nano (wd_now demo_world + day)) = wd_now demo_world + day" by (rule stored_session_time [OF demo_time])
  then have st: "parseStoredTime (rfc3339nano (5 + day)) = 5 + day" by (simp add: demo_world_def)
  have d: "0 < day" by (simp add: day_def)
  have "st1 = password_dash\<lparr> da_db := Some \<lparr> ud_users = [admin_account], ud_next = 2,
      ud_sessions = [\<lparr> se_user = 1, se_token = ''r'', se_expires = rfc3339nano (5 + day), se_created = rfc3339nano 5 \<rparr>], ud_setup = None \<rparr> \<rparr>"
    using l e d by (simp add: handleAuthLogin_def password_dash_def fresh_dash_def Authenticate_def GetUserByEmail_def demo_world_def
        admin_account_def equal_fold_def CreateSession_def Let_def)
  then have "length (users_of st2) = 2"
    using s e st d password_dash_ok(2,3)
    by (auto simp: withUIAuth_def resolvePrincipal_def SessionUser_def GetUserByID_def demo_world_def Let_def handleCreateUser_def
        CreateUser_def admin_account_def equal_fold_def users_of_def to_lower_def lower_char_def RoleAdmin_def RoleViewer_def)
  moreover have "length (users_of st1) = 1" using same by (simp add: same_setup_def users_of_def password_dash_def)
  ultimately have "\<not> same_setup st1 st2" by (auto simp: same_setup_def)
  from changes_need_admin [OF s _ _ this] show ?thesis using s password_dash_ok(2,3) db1 by auto
qed

section \<open>Two more ways to lose the dashboard or the agents\<close>

definition blank_settings :: settings_request where
  "blank_settings = \<lparr> ss_listen = '''', ss_app_id = None, ss_org = '''', ss_secret = '''', ss_pem_path = '''', ss_pem = '''', ss_prefix = '''',
     ss_group = None, ss_token = '''', ss_mcp = '''', ss_auth = '''', ss_setup = None, ss_sqlite = '''', ss_data = '''', ss_hostctl = '''',
     ss_cache = None, ss_restart = False \<rparr>"

lemma blank_Nil [simp]: "blank ''''" "given '''' old = old"
  by (simp_all add: blank_def given_def)

text \<open>Choosing password mode in the settings of an open dashboard without users locks it.\<close>

lemma settings_lock_out:
  assumes "\<not> NeedsSetup (da_cfg st)" and "cfg_auth (da_cfg st) = ''open''" and "dash_ok st" and "users_of st = []" and "no_errors w"
    and "serve_dashboard w cookie (ReqSettings (blank_settings\<lparr> ss_auth := ''password'' \<rparr>)) st = (a, st')"
  shows "fst a = 200 \<and> locked st'"
proof -
  let ?q = "blank_settings\<lparr> ss_auth := ''password'' \<rparr>" let ?c = "(da_cfg st)\<lparr> cfg_auth := ''password'' \<rparr>"
  have pw: "to_lower (trim_space ''password'') = ''password''" by code_simp
  have full: "looksFullyConfigured (da_cfg st)"
    using assms(1,3) by (auto simp: NeedsSetup_def dash_ok_def control_ok_def)
  then have f: "cfg_app_id ?c \<noteq> 0 \<and> cfg_org ?c \<noteq> '''' \<and> cfg_agent_token ?c \<noteq> '''' \<and> cfg_webhook_secret ?c \<noteq> ''''"
    by (auto simp: looksFullyConfigured_def blank_def)
  have "settings_config ?q (da_cfg st) = ?c" "settings_refused ?q = None" "trim_space (ss_pem ?q) = ''''"
    using pw by (simp_all add: settings_config_def settings_refused_def blank_settings_def Let_def)
  then have "handleSettingsConfigSave w ?q open_principal st = store_settings w ?q ?c st"
    by (simp add: handleSettingsConfigSave_def)
  then have s: "(a, st') = store_settings w ?q ?c st"
    using assms(1,2,6) by (simp add: withUIAuth_def resolvePrincipal_def open_principal_def)
  obtain c' where v: "Validate_control (?c\<lparr> cfg_setup := True \<rparr>) = (None, c')" "cfg_auth c' = ''password''" "cfg_setup c'"
    using validate_accepts [of "?c\<lparr> cfg_setup := True \<rparr>"] full assms(3)
    by (auto simp: dash_ok_def control_ok_def looksFullyConfigured_def)
  have "(a, st') = ((200, ''''), adopt c' (st\<lparr> da_file := Some c' \<rparr>))"
    unfolding s using f v(1) assms(5)
    by (simp add: store_settings_def write_config_def no_errors_def blank_settings_def)
  then show ?thesis
    using v assms(4) by (auto simp: adopt_def markFleetReadyIfConfigured_def locked_def NeedsSetup_def users_of_def)
qed

text \<open>A draft that is refused for its key has changed the token the agents must send, but nothing else.\<close>

lemma refused_draft_changes_token:
  assumes "trim_space (sr_pem r) \<noteq> ''''" and "\<not> key_pem (trim_space (sr_pem r))"
  shows "handleSetupDraft w r st = ((400, ''invalid private key pem''), st\<lparr> da_token := given (sr_token r) (da_token st) \<rparr>)"
  using assms by (simp add: handleSetupDraft_def Let_def)

end
