(* ===== verification/GitHubClient.thy ===== *)
theory GitHubClient
  imports Config
begin

text \<open>
  \<open>internal/github/client.go\<close> and the claims of \<open>auth.go\<close>: the requests the control plane sends to GitHub as the
  app, and the installation token it keeps for them. The HTTP exchange, the signature and the decoding of JSON
  are arguments; a call lists the requests it sends.
\<close>

section \<open>Requests\<close>

datatype verb = GET | POST | DELETE

datatype gh_body = NoBody | JitBody string int "string list" string

record gh_request =
  gr_verb :: verb
  gr_url :: string
  gr_bearer :: string
  gr_body :: gh_body

text \<open>
  No reply and why (a request that cannot be formed has none either), or a status, what arrives of the body, and the
  failure that broke it off.
\<close>

datatype gh_reply = NoAnswer string | Answer nat string "string option"

datatype gh_error =
  Needs string | SignError string | RequestError string string | StatusError string nat string | DecodeError string | MissingField string

record runner_info =
  ri_id :: int
  ri_name :: string

record step_detail =
  js_name :: string
  js_status :: string
  js_conclusion :: string
  js_number :: int

record job_detail =
  jd_id :: int
  jd_name :: string
  jd_status :: string
  jd_conclusion :: string
  jd_steps :: "step_detail list"

record workflow_run =
  wr_id :: int
  wr_name :: string
  wr_path :: string

text \<open>
  What a call meets: the times of its looks at the clock, the signature, the answers of GitHub, and the decoders.
  An \<open>expires_at\<close> that is absent is the zero time.
\<close>

record gh_env =
  ge_look :: gotime
  ge_sign_time :: gotime
  ge_store_time :: gotime
  ge_sign :: "int \<Rightarrow> int \<Rightarrow> int \<Rightarrow> string + string"
  ge_http :: "gh_request \<Rightarrow> gh_reply"
  ge_token :: "string \<Rightarrow> string + string \<times> gotime"
  ge_jit :: "string \<Rightarrow> string + runner_info \<times> string"
  ge_job :: "string \<Rightarrow> string + job_detail"
  ge_run :: "string \<Rightarrow> string + workflow_run"

record client =
  gc_app :: int
  gc_install :: int
  gc_base :: string
  gc_token :: string
  gc_expiry :: gotime
  gc_for :: int

definition defaultAPIBase :: string where "defaultAPIBase = ''https://api.github.com''"

text \<open>\<open>NewClient\<close>; whether the key parses is an argument.\<close>

definition NewClient :: "int \<Rightarrow> int \<Rightarrow> string \<Rightarrow> (string + unit) \<Rightarrow> gh_error + client" where
  "NewClient app install base key =
     (if app = 0 then Inl (Needs ''AppID'')
      else case key of
        Inl e \<Rightarrow> Inl (DecodeError e)
      | Inr _ \<Rightarrow> Inr \<lparr> gc_app = app, gc_install = install,
                   gc_base = trim_right_slashes (if base = '''' then defaultAPIBase else base),
                   gc_token = '''', gc_expiry = 0, gc_for = 0 \<rparr>)"

section \<open>The installation token\<close>

text \<open>\<open>Unix\<close>: whole seconds since 1970, for times since the year 1.\<close>

definition unix :: "gotime \<Rightarrow> int" where
  "unix t = t div 1000000000 - 62135596800"

definition minute :: int where "minute = 60 * 1000000000"

definition mintAppJWT :: "gh_env \<Rightarrow> int \<Rightarrow> gotime \<Rightarrow> gh_error + string" where
  "mintAppJWT env app now =
     (if app = 0 then Inl (Needs ''app id'')
      else case ge_sign env app (unix (now - minute)) (unix (now + 9 * minute)) of
        Inl e \<Rightarrow> Inl (SignError e) | Inr s \<Rightarrow> Inr s)"

definition ok_status :: "nat \<Rightarrow> bool" where
  "ok_status n \<longleftrightarrow> 200 \<le> n \<and> n < 300"

definition truncate_text :: "string \<Rightarrow> nat \<Rightarrow> string" where
  "truncate_text s n = (if length s \<le> n then s else take n s @ [CHR 0xE2, CHR 0x80, CHR 0xA6])"

definition limit_body :: "string \<Rightarrow> string" where
  "limit_body b = take (2 ^ 20) b"

definition token_request :: "client \<Rightarrow> int \<Rightarrow> string \<Rightarrow> gh_request" where
  "token_request c install jwt =
     \<lparr> gr_verb = POST, gr_url = gc_base c @ ''/app/installations/'' @ itoa install @ ''/access_tokens'', gr_bearer = jwt, gr_body = NoBody \<rparr>"

definition fresh_token :: "gh_env \<Rightarrow> client \<Rightarrow> int \<Rightarrow> bool" where
  "fresh_token env c install \<longleftrightarrow> gc_token c \<noteq> '''' \<and> gc_for c = install \<and> ge_look env < gc_expiry c - 2 * minute"

definition token_reply :: "gh_env \<Rightarrow> gh_reply \<Rightarrow> gh_error + string \<times> gotime" where
  "token_reply env r =
     (case r of
        NoAnswer e \<Rightarrow> Inl (RequestError ''installation token'' e)
      | Answer st body err \<Rightarrow>
          if \<not> ok_status st then Inl (StatusError ''installation token'' st (truncate_text (limit_body body) 256))
          else case ge_token env (limit_body body) of
            Inl e \<Rightarrow> Inl (DecodeError e)
          | Inr (tok, exp) \<Rightarrow>
              if tok = '''' then Inl (MissingField ''token'')
              else Inr (tok, if exp = 0 then ge_store_time env + 50 * minute else exp))"

definition installationToken :: "gh_env \<Rightarrow> int \<Rightarrow> client \<Rightarrow> (gh_error + string) \<times> gh_request list \<times> client" where
  "installationToken env install c =
     (if fresh_token env c install then (Inr (gc_token c), [], c)
      else case mintAppJWT env (gc_app c) (ge_sign_time env) of
        Inl e \<Rightarrow> (Inl e, [], c)
      | Inr jwt \<Rightarrow>
          (let rq = token_request c install jwt in
           case token_reply env (ge_http env rq) of
             Inl e \<Rightarrow> (Inl e, [rq], c)
           | Inr (tok, exp) \<Rightarrow> (Inr tok, [rq], c\<lparr> gc_token := tok, gc_expiry := exp, gc_for := install \<rparr>)))"

section \<open>The calls\<close>

text \<open>What all calls do: the installation, its token, and the request made with it.\<close>

definition install_id :: "int \<Rightarrow> client \<Rightarrow> int" where
  "install_id n c = (if n = 0 then gc_install c else n)"

definition authorised ::
  "gh_env \<Rightarrow> int \<Rightarrow> (string \<Rightarrow> gh_request) \<Rightarrow> (gh_reply \<Rightarrow> gh_error + 'a) \<Rightarrow> client \<Rightarrow>
   (gh_error + 'a) \<times> gh_request list \<times> client" where
  "authorised env n rq answer c =
     (let i = install_id n c in
      if i = 0 then (Inl (Needs ''installation id''), [], c)
      else case installationToken env i c of
        (Inl e, rs, c1) \<Rightarrow> (Inl e, rs, c1)
      | (Inr tok, rs, c1) \<Rightarrow> (answer (ge_http env (rq tok)), rs @ [rq tok], c1))"

definition api_request :: "client \<Rightarrow> verb \<Rightarrow> string \<Rightarrow> gh_body \<Rightarrow> string \<Rightarrow> gh_request" where
  "api_request c v path body tok = \<lparr> gr_verb = v, gr_url = gc_base c @ path, gr_bearer = tok, gr_body = body \<rparr>"

text \<open>A body that breaks off is an error where the code looks at what reading returns, and what arrived otherwise.\<close>

definition broken_off :: "string \<Rightarrow> nat \<Rightarrow> string \<Rightarrow> string option \<Rightarrow> gh_error option" where
  "broken_off reading n body err =
     (case err of Some e \<Rightarrow> if reading \<noteq> '''' \<and> length body < n then Some (RequestError reading e) else None
                | None \<Rightarrow> None)"

definition checked_reply :: "string \<Rightarrow> string \<Rightarrow> nat \<Rightarrow> (string \<Rightarrow> gh_error + 'a) \<Rightarrow> gh_reply \<Rightarrow> gh_error + 'a" where
  "checked_reply what reading n ok r =
     (case r of
        NoAnswer e \<Rightarrow> Inl (RequestError what e)
      | Answer st body err \<Rightarrow>
          (case broken_off reading n body err of
             Some e \<Rightarrow> Inl e
           | None \<Rightarrow>
               if \<not> ok_status st then Inl (StatusError what st (truncate_text (take n body) 256)) else ok (take n body)))"


record jit_call =
  jq_org :: string
  jq_name :: string
  jq_group :: int
  jq_labels :: "string list"
  jq_work :: string
  jq_install :: int

definition GenerateJITConfig :: "gh_env \<Rightarrow> jit_call \<Rightarrow> client \<Rightarrow> (gh_error + runner_info \<times> string) \<times> gh_request list \<times> client" where
  "GenerateJITConfig env q c =
     (if jq_org q = '''' then (Inl (Needs ''org''), [], c)
      else if jq_labels q = [] then (Inl (Needs ''labels''), [], c)
      else if jq_group q = 0 then (Inl (Needs ''runner_group_id''), [], c)
      else
        (let name = (if jq_name q = '''' then ''temperci'' else jq_name q);
             work = (if jq_work q = '''' then ''_work'' else jq_work q)
         in authorised env (jq_install q)
              (api_request c POST (''/orgs/'' @ jq_org q @ ''/actions/runners/generate-jitconfig'')
                 (JitBody name (jq_group q) (jq_labels q) work))
              (checked_reply ''generate-jitconfig'' '''' (2 ^ 20)
                 (\<lambda>b. case ge_jit env b of
                        Inl e \<Rightarrow> Inl (DecodeError e)
                      | Inr (r, jit) \<Rightarrow> if jit = '''' then Inl (MissingField ''encoded_jit_config'') else Inr (r, jit)))
              c))"

definition repo_path :: "string \<Rightarrow> string \<Rightarrow> string \<Rightarrow> string" where
  "repo_path owner repo rest = ''/repos/'' @ owner @ ''/'' @ repo @ ''/actions/'' @ rest"

definition GetJob :: "gh_env \<Rightarrow> string \<Rightarrow> string \<Rightarrow> int \<Rightarrow> int \<Rightarrow> client \<Rightarrow> (gh_error + job_detail) \<times> gh_request list \<times> client" where
  "GetJob env owner repo job install c =
     (if owner = '''' \<or> repo = '''' then (Inl (Needs ''owner and repo''), [], c)
      else if job = 0 then (Inl (Needs ''job id''), [], c)
      else authorised env install (api_request c GET (repo_path owner repo (''jobs/'' @ itoa job)) NoBody)
             (checked_reply ''get job'' ''read job'' (2 ^ 20)
                (\<lambda>b. case ge_job env b of
                       Inl e \<Rightarrow> Inl (DecodeError e)
                     | Inr d \<Rightarrow> Inr (if jd_id d = 0 then d\<lparr> jd_id := job \<rparr> else d))) c)"

definition GetRun :: "gh_env \<Rightarrow> string \<Rightarrow> string \<Rightarrow> int \<Rightarrow> int \<Rightarrow> client \<Rightarrow> (gh_error + workflow_run) \<times> gh_request list \<times> client" where
  "GetRun env owner repo run install c =
     (if owner = '''' \<or> repo = '''' then (Inl (Needs ''owner and repo''), [], c)
      else if run = 0 then (Inl (Needs ''run id''), [], c)
      else authorised env install (api_request c GET (repo_path owner repo (''runs/'' @ itoa run)) NoBody)
             (checked_reply ''get run'' ''read run'' (2 ^ 20)
                (\<lambda>b. case ge_run env b of Inl e \<Rightarrow> Inl (DecodeError e) | Inr d \<Rightarrow> Inr d)) c)"

definition maxJobLogBytes :: nat where "maxJobLogBytes = 2 * 2 ^ 20"

definition byte_order_mark :: string where "byte_order_mark = [CHR 0xEF, CHR 0xBB, CHR 0xBF]"

text \<open>One byte more than the limit is read, and the last of what was read, up to the limit, is kept.\<close>

definition log_text :: "string \<Rightarrow> string" where
  "log_text b = trim_prefix (if length b > maxJobLogBytes then drop (length b - maxJobLogBytes) b else b) byte_order_mark"

definition DownloadJobLogs :: "gh_env \<Rightarrow> string \<Rightarrow> string \<Rightarrow> int \<Rightarrow> int \<Rightarrow> client \<Rightarrow> (gh_error + string) \<times> gh_request list \<times> client" where
  "DownloadJobLogs env owner repo job install c =
     (if owner = '''' \<or> repo = '''' then (Inl (Needs ''owner and repo''), [], c)
      else if job = 0 then (Inl (Needs ''job id''), [], c)
      else authorised env install (api_request c GET (repo_path owner repo (''jobs/'' @ itoa job @ ''/logs'')) NoBody)
             (checked_reply ''job logs'' ''read job logs'' (maxJobLogBytes + 1) (\<lambda>b. Inr (log_text b))) c)"


definition DeleteOrgRunner :: "gh_env \<Rightarrow> string \<Rightarrow> int \<Rightarrow> int \<Rightarrow> client \<Rightarrow> (gh_error + unit) \<times> gh_request list \<times> client" where
  "DeleteOrgRunner env org runner install c =
     (if org = '''' then (Inl (Needs ''org''), [], c)
      else if runner = 0 then (Inl (Needs ''runner id''), [], c)
      else authorised env install (api_request c DELETE (''/orgs/'' @ org @ ''/actions/runners/'' @ itoa runner) NoBody)
             (\<lambda>r. case r of
                    NoAnswer e \<Rightarrow> Inl (RequestError ''delete runner'' e)
                  | Answer st body err \<Rightarrow>
                      if st = 404 then Inr ()
                      else if \<not> ok_status st then Inl (StatusError ''delete runner'' st (truncate_text (limit_body body) 256))
                      else Inr ()) c)"

section \<open>Whose token is sent\<close>

datatype gh_call =
  CallJIT jit_call
| CallJob string string int int
| CallRun string string int int
| CallLogs string string int int
| CallDelete string int int

fun call_install :: "gh_call \<Rightarrow> int" where
  "call_install (CallJIT q) = jq_install q"
| "call_install (CallJob owner repo n i) = i"
| "call_install (CallRun owner repo n i) = i"
| "call_install (CallLogs owner repo n i) = i"
| "call_install (CallDelete org n i) = i"

fun do_call :: "gh_env \<Rightarrow> gh_call \<Rightarrow> client \<Rightarrow> gh_request list \<times> client" where
  "do_call env (CallJIT q) c = snd (GenerateJITConfig env q c)"
| "do_call env (CallJob owner repo n i) c = snd (GetJob env owner repo n i c)"
| "do_call env (CallRun owner repo n i) c = snd (GetRun env owner repo n i c)"
| "do_call env (CallLogs owner repo n i) c = snd (DownloadJobLogs env owner repo n i c)"
| "do_call env (CallDelete org n i) c = snd (DeleteOrgRunner env org n i c)"

fun run_calls :: "(gh_env \<times> gh_call) list \<Rightarrow> client \<Rightarrow> gh_request list \<times> client" where
  "run_calls [] c = ([], c)"
| "run_calls ((env, cl) # cs) c =
     (case do_call env cl c of (rs, c1) \<Rightarrow> (case run_calls cs c1 of (rs2, c2) \<Rightarrow> (rs @ rs2, c2)))"

text \<open>GitHub gave the token to the app for the installation during a call.\<close>

definition issued_in :: "client \<Rightarrow> gh_env \<Rightarrow> int \<Rightarrow> string \<Rightarrow> gotime \<Rightarrow> bool" where
  "issued_in c env i tok exp \<longleftrightarrow> (\<exists>jwt. token_reply env (ge_http env (token_request c i jwt)) = Inr (tok, exp))"

definition known_token :: "gh_env list \<Rightarrow> client \<Rightarrow> bool" where
  "known_token es c \<longleftrightarrow> gc_token c \<noteq> '''' \<longrightarrow> (\<exists>e \<in> set es. issued_in c e (gc_for c) (gc_token c) (gc_expiry c))"

definition same_app :: "client \<Rightarrow> client \<Rightarrow> bool" where
  "same_app c c' \<longleftrightarrow> gc_app c' = gc_app c \<and> gc_base c' = gc_base c \<and> gc_install c' = gc_install c"

lemma issued_same_app: "same_app c c' \<Longrightarrow> issued_in c' env i tok exp = issued_in c env i tok exp"
  by (simp add: issued_in_def token_request_def same_app_def)

lemma token_spec:
  assumes "installationToken env i c = (r, rs, c')"
  shows "same_app c c' \<and> (\<forall>rq \<in> set rs. \<exists>jwt. rq = token_request c i jwt) \<and>
    (c' = c \<or> issued_in c env (gc_for c') (gc_token c') (gc_expiry c')) \<and>
    (\<forall>tok. r = Inr tok \<longrightarrow> gc_token c' = tok \<and> gc_for c' = i \<and> tok \<noteq> '''' \<and>
       (c' = c \<and> ge_look env < gc_expiry c - 2 * minute \<or> issued_in c env i tok (gc_expiry c')))"
proof (cases "fresh_token env c i")
  case True
  then show ?thesis using assms by (auto simp: installationToken_def fresh_token_def same_app_def)
next
  case False
  then show ?thesis
  proof (cases "mintAppJWT env (gc_app c) (ge_sign_time env)")
    case (Inl e)
    then show ?thesis using False assms by (auto simp: installationToken_def same_app_def)
  next
    case (Inr jwt)
    show ?thesis
    proof (cases "token_reply env (ge_http env (token_request c i jwt))")
      case (Inl e)
      then show ?thesis using False Inr assms by (auto simp: installationToken_def same_app_def Let_def)
    next
      case (Inr x)
      then obtain tok exp where x: "token_reply env (ge_http env (token_request c i jwt)) = Inr (tok, exp)" by (cases x) auto
      then have "tok \<noteq> ''''" by (auto simp: token_reply_def split: gh_reply.splits if_splits sum.splits)
      then show ?thesis
        using False \<open>mintAppJWT env (gc_app c) (ge_sign_time env) = Inr jwt\<close> x assms
        by (auto simp: installationToken_def same_app_def Let_def issued_in_def)
    qed
  qed
qed

lemma token_known:
  assumes "installationToken env i c = (r, rs, c')" and "known_token es c"
  shows "known_token (es @ [env]) c'"
  using token_spec [OF assms(1)] assms(2) issued_same_app [of c c']
  by (auto simp: known_token_def)

text \<open>A request of a call carries a token of the call's installation, just issued or still valid for two minutes.\<close>

definition carries :: "client \<Rightarrow> gh_env list \<Rightarrow> gh_env \<Rightarrow> int \<Rightarrow> gh_request \<Rightarrow> bool" where
  "carries c es env i rq \<longleftrightarrow>
     (\<exists>exp. issued_in c env i (gr_bearer rq) exp) \<or>
     (\<exists>e \<in> set es. \<exists>exp. issued_in c e i (gr_bearer rq) exp \<and> ge_look env < exp - 2 * minute)"

lemma authorised_spec:
  assumes "authorised env n rq answer c = (r, rs, c')" and "known_token es c" and "\<And>tok. gr_bearer (rq tok) = tok"
  shows "same_app c c' \<and> known_token (es @ [env]) c' \<and>
    (\<forall>q \<in> set rs. (\<exists>jwt. q = token_request c (install_id n c) jwt) \<or> carries c es env (install_id n c) q)"
proof (cases "install_id n c = 0")
  case True
  then show ?thesis using assms by (auto simp: authorised_def same_app_def known_token_def)
next
  case False
  obtain r1 rs1 c1 where t: "installationToken env (install_id n c) c = (r1, rs1, c1)" by (metis prod_cases3)
  note spec = token_spec [OF t]
  have c': "c' = c1" and rs: "rs = rs1 \<or> (\<exists>tok. r1 = Inr tok \<and> rs = rs1 @ [rq tok])"
    using assms(1) False t by (auto simp: authorised_def split: sum.splits)
  have known: "known_token (es @ [env]) c'" unfolding c' by (rule token_known [OF t assms(2)])
  have "carries c es env (install_id n c) (rq tok)" if r: "r1 = Inr tok" for tok
  proof -
    have k: "gc_token c1 = tok" "gc_for c1 = install_id n c" "tok \<noteq> ''''"
      and o': "c1 = c \<and> ge_look env < gc_expiry c - 2 * minute \<or> issued_in c env (install_id n c) tok (gc_expiry c1)"
      using spec r by auto
    then show ?thesis
      using assms(2,3) by (auto simp: carries_def known_token_def)
  qed
  then show ?thesis using spec known rs unfolding c' by auto
qed

lemma authorised_call:
  assumes "snd (authorised env n (api_request c v path body) answer c) = (rs, c')" and "known_token es c"
  shows "same_app c c' \<and> known_token (es @ [env]) c' \<and>
    (\<forall>q \<in> set rs. (\<exists>jwt. q = token_request c (install_id n c) jwt) \<or> carries c es env (install_id n c) q)"
proof -
  obtain r where "authorised env n (api_request c v path body) answer c = (r, rs, c')"
    using assms(1) by (metis prod.collapse)
  from authorised_spec [OF this assms(2)] show ?thesis by (simp add: api_request_def)
qed

lemma no_call:
  "known_token es c \<Longrightarrow> same_app c c \<and> known_token (es @ [env]) c \<and> (\<forall>q \<in> set []. P q)"
  by (auto simp: same_app_def known_token_def)

lemma do_call_spec:
  assumes "do_call env cl c = (rs, c')" and "known_token es c"
  shows "same_app c c' \<and> known_token (es @ [env]) c' \<and>
    (\<forall>q \<in> set rs. (\<exists>jwt. q = token_request c (install_id (call_install cl) c) jwt) \<or> carries c es env (install_id (call_install cl) c) q)"
proof (cases cl)
  case (CallJIT q)
  show ?thesis
  proof (cases "jq_org q = '''' \<or> jq_labels q = [] \<or> jq_group q = 0")
    case True
    then have "rs = [] \<and> c' = c" using assms(1) CallJIT by (auto simp: GenerateJITConfig_def split: if_splits)
    then show ?thesis using no_call [OF assms(2)] by simp
  next
    case False
    then show ?thesis
      using authorised_call [OF _ assms(2)] assms(1) CallJIT by (simp only: do_call.simps GenerateJITConfig_def Let_def de_Morgan_disj if_False call_install.simps)
  qed
next
  case (CallJob owner repo n i)
  show ?thesis
  proof (cases "owner = '''' \<or> repo = '''' \<or> n = 0")
    case True
    then have "rs = [] \<and> c' = c" using assms(1) CallJob by (auto simp: GetJob_def split: if_splits)
    then show ?thesis using no_call [OF assms(2)] by simp
  next
    case False
    then show ?thesis
      using authorised_call [OF _ assms(2)] assms(1) CallJob by (simp only: do_call.simps GetJob_def de_Morgan_disj if_False call_install.simps simp_thms)
  qed
next
  case (CallRun owner repo n i)
  show ?thesis
  proof (cases "owner = '''' \<or> repo = '''' \<or> n = 0")
    case True
    then have "rs = [] \<and> c' = c" using assms(1) CallRun by (auto simp: GetRun_def split: if_splits)
    then show ?thesis using no_call [OF assms(2)] by simp
  next
    case False
    then show ?thesis
      using authorised_call [OF _ assms(2)] assms(1) CallRun by (simp only: do_call.simps GetRun_def de_Morgan_disj if_False call_install.simps simp_thms)
  qed
next
  case (CallLogs owner repo n i)
  show ?thesis
  proof (cases "owner = '''' \<or> repo = '''' \<or> n = 0")
    case True
    then have "rs = [] \<and> c' = c" using assms(1) CallLogs by (auto simp: DownloadJobLogs_def split: if_splits)
    then show ?thesis using no_call [OF assms(2)] by simp
  next
    case False
    then show ?thesis
      using authorised_call [OF _ assms(2)] assms(1) CallLogs by (simp only: do_call.simps DownloadJobLogs_def de_Morgan_disj if_False call_install.simps simp_thms)
  qed
next
  case (CallDelete org n i)
  show ?thesis
  proof (cases "org = '''' \<or> n = 0")
    case True
    then have "rs = [] \<and> c' = c" using assms(1) CallDelete by (auto simp: DeleteOrgRunner_def split: if_splits)
    then show ?thesis using no_call [OF assms(2)] by simp
  next
    case False
    then show ?thesis
      using authorised_call [OF _ assms(2)] assms(1) CallDelete by (simp only: do_call.simps DeleteOrgRunner_def de_Morgan_disj if_False call_install.simps simp_thms)
  qed
qed

lemma same_app_carries: "same_app c c' \<Longrightarrow> carries c' es env i q = carries c es env i q"
  by (simp add: carries_def issued_same_app)

lemma run_calls_known:
  assumes "run_calls cs c = (rs, c')" and "known_token es c"
  shows "same_app c c' \<and> known_token (es @ map fst cs) c'"
  using assms
proof (induction cs arbitrary: c rs es)
  case Nil
  then show ?case by (simp add: same_app_def)
next
  case (Cons p cs)
  obtain env cl where p: "p = (env, cl)" by (cases p)
  obtain rs1 c1 where d: "do_call env cl c = (rs1, c1)" by (metis surj_pair)
  obtain rs2 c2 where r: "run_calls cs c1 = (rs2, c2)" by (metis surj_pair)
  have "c2 = c'" using Cons.prems(1) p d r by simp
  then show ?case
    using do_call_spec [OF d Cons.prems(2)] Cons.IH [OF r [unfolded \<open>c2 = c'\<close>], of "es @ [env]"] p by (auto simp: same_app_def)
qed


section \<open>Properties\<close>

text \<open>
  C39. A request never carries a credential of another installation. Whatever calls a client has made, every request of
  its next call is the one that asks for a token of the installation the call is for, or carries a token GitHub gave
  the app for that installation: during this call, or during an earlier one and more than two minutes before it expires.
\<close>

theorem requests_carry_own_token:
  assumes "NewClient app install base key = Inr c0" and "run_calls cs c0 = (rs0, c)" and "do_call env cl c = (rs, c')"
  shows "\<forall>q \<in> set rs. (\<exists>jwt. q = token_request c0 (install_id (call_install cl) c0) jwt) \<or>
    carries c0 (map fst cs) env (install_id (call_install cl) c0) q"
proof -
  have k0: "known_token [] c0" using assms(1) by (auto simp: NewClient_def known_token_def split: if_splits sum.splits)
  have k: "same_app c0 c" "known_token (map fst cs) c" using run_calls_known [OF assms(2) k0] by auto
  then have "token_request c = token_request c0" "install_id n c = install_id n c0" for n
    by (auto simp: token_request_def install_id_def same_app_def fun_eq_iff)
  then show ?thesis
    using do_call_spec [OF assms(3) k(2)] same_app_carries [OF k(1)] by simp
qed

definition sample_env :: gh_env where
  "sample_env = \<lparr> ge_look = 10 * minute, ge_sign_time = 10 * minute, ge_store_time = 10 * minute,
     ge_sign = (\<lambda>app iat exp. Inr ''jwt''),
     ge_http = (\<lambda>q. if gr_bearer q = ''jwt'' then Answer 201 ''t'' None else Answer 204 '''' None),
     ge_token = (\<lambda>b. Inr (''tok'', 70 * minute)), ge_jit = (\<lambda>b. Inl ''''), ge_job = (\<lambda>b. Inl ''''), ge_run = (\<lambda>b. Inl '''') \<rparr>"

definition sample_client :: client where
  "sample_client = \<lparr> gc_app = 7, gc_install = 1, gc_base = defaultAPIBase, gc_token = '''', gc_expiry = 0, gc_for = 0 \<rparr>"

lemma requests_carry_own_token_witness:
  "NewClient 7 1 '''' (Inr ()) = Inr sample_client \<and>
   (let (rs0, c) = run_calls [(sample_env, CallDelete ''o'' 5 0)] sample_client;
        (rs, c') = do_call sample_env (CallDelete ''o'' 6 0) c
    in length rs0 = 2 \<and> length rs = 1 \<and>
       (\<forall>q \<in> set rs. (\<exists>jwt. q = token_request sample_client 1 jwt) \<or> carries sample_client [sample_env] sample_env 1 q))"
proof -
  have n: "NewClient 7 1 '''' (Inr ()) = Inr sample_client" by code_simp
  define c where "c = sample_client\<lparr> gc_token := ''tok'', gc_expiry := 70 * minute, gc_for := 1 \<rparr>"
  obtain rs0 where r: "run_calls [(sample_env, CallDelete ''o'' 5 0)] sample_client = (rs0, c)" "length rs0 = 2"
    by (simp add: DeleteOrgRunner_def authorised_def install_id_def installationToken_def fresh_token_def mintAppJWT_def
      token_reply_def token_request_def api_request_def ok_status_def sample_env_def sample_client_def c_def limit_body_def minute_def)
  obtain rs where d: "do_call sample_env (CallDelete ''o'' 6 0) c = (rs, c)" "length rs = 1"
    by (simp add: DeleteOrgRunner_def authorised_def install_id_def installationToken_def fresh_token_def
      sample_env_def sample_client_def c_def minute_def)
  show ?thesis
    using n r d requests_carry_own_token [OF n r(1) d(1)] by (simp add: install_id_def sample_client_def)
qed

text \<open>The claims are of the last minute and nine minutes ahead, whatever the fraction of a second.\<close>

lemma jwt_lives_ten_minutes: "unix (now + 9 * minute) - unix (now - minute) = 600"
proof -
  have "now + 9 * minute = (now - minute) + 600 * 1000000000" by (simp add: minute_def)
  then show ?thesis by (simp add: unix_def)
qed

text \<open>A token is replaced two minutes before it expires, and one without an expiry after forty-eight minutes.\<close>

lemma fresh_token_is_reused:
  "fresh_token env c i \<Longrightarrow> installationToken env i c = (Inr (gc_token c), [], c)"
  by (simp add: installationToken_def)

lemma long_log_loses_its_end:
  assumes "length log > maxJobLogBytes"
  shows "log_text (take (maxJobLogBytes + 1) log) = trim_prefix (take maxJobLogBytes (tl log)) byte_order_mark"
proof -
  obtain x xs where "log = x # xs" using assms by (cases log) auto
  then show ?thesis using assms by (simp add: log_text_def)
qed

text \<open>
  Of a job's log at most two megabytes are kept, and only a log within the limit is kept as it is, less a byte order
  mark. Of a longer one the part kept starts at its second byte, not at its end: how the job ended is lost, whatever
  follows the first two megabytes.
\<close>

theorem long_log_keeps_its_beginning:
  "length (log_text (take (maxJobLogBytes + 1) log)) \<le> maxJobLogBytes \<and>
   (length log \<le> maxJobLogBytes \<longrightarrow> log_text (take (maxJobLogBytes + 1) log) = trim_prefix log byte_order_mark) \<and>
   (length log > maxJobLogBytes \<longrightarrow>
      log_text (take (maxJobLogBytes + 1) (log @ rest)) = trim_prefix (take maxJobLogBytes (tl log)) byte_order_mark)"
proof -
  have shorter: "length (trim_prefix s p) \<le> length s" for s p :: string
    by (simp add: trim_prefix_def)
  have "length (log_text b) \<le> maxJobLogBytes" for b
    using shorter [of "if length b > maxJobLogBytes then drop (length b - maxJobLogBytes) b else b" byte_order_mark]
    by (auto simp: log_text_def split: if_splits)
  moreover have "log_text log = trim_prefix log byte_order_mark" if "length log \<le> maxJobLogBytes"
    using that by (simp add: log_text_def)
  ultimately show ?thesis using long_log_loses_its_end [of log] by simp
qed

lemma long_log_keeps_its_beginning_witness:
  "let line = replicate (Suc maxJobLogBytes) CHR ''a'' in
   length line > maxJobLogBytes \<and> length ''ok'' \<le> maxJobLogBytes \<and>
   log_text (take (maxJobLogBytes + 1) ''ok'') = ''ok'' \<and>
   log_text (take (maxJobLogBytes + 1) (line @ ''job failed'')) = log_text (take (maxJobLogBytes + 1) (line @ ''job ok''))"
  using long_log_keeps_its_beginning [of "replicate (Suc maxJobLogBytes) CHR ''a''" "''job failed''"]
    long_log_keeps_its_beginning [of "replicate (Suc maxJobLogBytes) CHR ''a''" "''job ok''"]
    long_log_keeps_its_beginning [of "''ok''" "[]"]
  by (simp add: Let_def byte_order_mark_def trim_prefix_def has_prefix_def maxJobLogBytes_def del: replicate_Suc take_append)

text \<open>A runner that is gone already counts as removed.\<close>

lemma delete_of_absent_runner:
  assumes "ge_http env (api_request c DELETE (''/orgs/'' @ org @ ''/actions/runners/'' @ itoa runner) NoBody tok) = Answer 404 body err"
    and "org \<noteq> ''''" and "runner \<noteq> 0" and "install_id n c \<noteq> 0"
    and "installationToken env (install_id n c) c = (Inr tok, rs, c')"
  shows "fst (DeleteOrgRunner env org runner n c) = Inr ()"
  using assms by (simp add: DeleteOrgRunner_def authorised_def)

end
