(* ===== verification/Intercept.thy ===== *)
theory Intercept
  imports CacheNet
begin

text \<open>
  The listener a guest's HTTPS is sent to: \<open>internal/ghacache/cert.go\<close> (the certificate authority of a host and the
  certificates it makes for the names it answers to) and \<open>intercept.go\<close> (which connections are answered here and
  which are passed on). Keys, certificates and their texts are arguments; the disk holds the two files of the authority.
\<close>

section \<open>The authority on disk\<close>

record ca_files =
  cd_crt :: "string option"
  cd_key :: "string option"

text \<open>What is made at a first start, or why it failed, and what becomes of a write: done, or failed with what it left.\<close>

datatype write_end = Written | Broke string "string option"

record 'c ca_env =
  ce_mkdir :: "string option"
  ce_read_crt :: "string option"
  ce_read_key :: "string option"
  ce_generate :: "string + 'c"
  ce_write_crt :: write_end
  ce_write_key :: write_end

record 'c ca_codec =
  cc_crt :: "'c \<Rightarrow> string"
  cc_key :: "'c \<Rightarrow> string"
  cc_load :: "string \<Rightarrow> string \<Rightarrow> string + 'c"

definition loadCA :: "'c ca_codec \<Rightarrow> 'c ca_env \<Rightarrow> string \<Rightarrow> string \<Rightarrow> string + 'c" where
  "loadCA cc env crt key =
     (case ce_read_crt env of
        Some e \<Rightarrow> Inl e
      | None \<Rightarrow> (case ce_read_key env of Some e \<Rightarrow> Inl e | None \<Rightarrow> cc_load cc crt key))"

definition written :: "write_end \<Rightarrow> string \<Rightarrow> string option \<Rightarrow> string option \<times> string option" where
  "written w new old = (case w of Written \<Rightarrow> (None, Some new) | Broke e left \<Rightarrow> (Some e, left))"

definition writeCA :: "'c ca_codec \<Rightarrow> 'c ca_env \<Rightarrow> 'c \<Rightarrow> ca_files \<Rightarrow> string option \<times> ca_files" where
  "writeCA cc env a d =
     (case written (ce_write_crt env) (cc_crt cc a) (cd_crt d) of
        (Some e, crt) \<Rightarrow> (Some e, d\<lparr> cd_crt := crt \<rparr>)
      | (None, crt) \<Rightarrow>
          (case written (ce_write_key env) (cc_key cc a) (cd_key d) of
             (e, key) \<Rightarrow> (e, \<lparr> cd_crt = crt, cd_key = key \<rparr>)))"

text \<open>The pair on disk is used when both files are there, and otherwise a new one is made and written.\<close>

definition LoadOrCreateCA :: "'c ca_codec \<Rightarrow> 'c ca_env \<Rightarrow> ca_files \<Rightarrow> (string + 'c) \<times> ca_files" where
  "LoadOrCreateCA cc env d =
     (case ce_mkdir env of
        Some e \<Rightarrow> (Inl e, d)
      | None \<Rightarrow>
          (case (cd_crt d, cd_key d) of
             (Some crt, Some key) \<Rightarrow> (loadCA cc env crt key, d)
           | _ \<Rightarrow>
               (case ce_generate env of
                  Inl e \<Rightarrow> (Inl e, d)
                | Inr a \<Rightarrow> (case writeCA cc env a d of (Some e, d1) \<Rightarrow> (Inl e, d1) | (None, d1) \<Rightarrow> (Inr a, d1)))))"

text \<open>The starts of an agent, one after the other.\<close>

fun starts :: "'c ca_codec \<Rightarrow> 'c ca_env list \<Rightarrow> ca_files \<Rightarrow> (string + 'c) list \<times> ca_files" where
  "starts cc [] d = ([], d)"
| "starts cc (env # es) d =
     (case LoadOrCreateCA cc env d of (r, d1) \<Rightarrow> (case starts cc es d1 of (rs, d2) \<Rightarrow> (r # rs, d2)))"

section \<open>Certificates for names\<close>

record leaf =
  lf_host :: string
  lf_from :: gotime
  lf_until :: gotime
  lf_serial :: int
  lf_der :: string

record 'c authority =
  au_ca :: "'c option"
  au_leafs :: "(string \<times> leaf) list"

record 'c leaf_env =
  le_key :: "string + string"
  le_serial :: "string + int"
  le_from :: gotime
  le_until :: gotime
  le_sign :: "'c \<Rightarrow> string \<Rightarrow> int \<Rightarrow> string \<Rightarrow> gotime \<Rightarrow> gotime \<Rightarrow> string + string"

definition hour :: int where "hour = 3600 * 1000000000"

definition Certificate :: "'c leaf_env \<Rightarrow> string \<Rightarrow> 'c authority \<Rightarrow> (string + leaf) \<times> 'c authority" where
  "Certificate env host0 a =
     (case au_ca a of
        None \<Rightarrow> (Inl ''missing CA'', a)
      | Some ca \<Rightarrow>
          (let host = (if host0 = '''' then ''localhost'' else host0) in
           case map_of (au_leafs a) host of
             Some l \<Rightarrow> (Inr l, a)
           | None \<Rightarrow>
               (case le_key env of
                  Inl e \<Rightarrow> (Inl e, a)
                | Inr key \<Rightarrow>
                    (case le_serial env of
                       Inl e \<Rightarrow> (Inl e, a)
                     | Inr n \<Rightarrow>
                         (let from = le_from env - hour; until = le_until env + 90 * 24 * hour in
                          case le_sign env ca key n host from until of
                            Inl e \<Rightarrow> (Inl e, a)
                          | Inr der \<Rightarrow>
                              (let l = \<lparr> lf_host = host, lf_from = from, lf_until = until, lf_serial = n, lf_der = der \<rparr>
                               in (Inr l, a\<lparr> au_leafs := AList.update host l (au_leafs a) \<rparr>)))))))"

fun hellos :: "('c leaf_env \<times> string) list \<Rightarrow> 'c authority \<Rightarrow> 'c authority" where
  "hellos [] a = a"
| "hellos ((env, host) # hs) a = hellos hs (snd (Certificate env host a))"

section \<open>Connections\<close>

text \<open>
  A connection is what its first message says (the server name, and the bytes read to find it) and the bytes that
  follow. It is closed, answered with a certificate, or passed on.
\<close>

record conn =
  cn_sni :: string
  cn_hello :: string
  cn_rest :: string

datatype conn_end = Closed | Answered leaf string | Spliced string string

text \<open>The original destination the kernel knows, the dialling of an address, and the replay of the first bytes.\<close>

record net_env =
  ne_dest :: "string + string"
  ne_dial :: "string \<Rightarrow> string option"
  ne_replay :: "string option"

definition splice_addr :: "net_env \<Rightarrow> string \<Rightarrow> string option" where
  "splice_addr ne sni =
     (if sni \<noteq> '''' then Some (sni @ '':443'')
      else case ne_dest ne of Inr dest \<Rightarrow> if dest \<noteq> '''' then Some dest else None | Inl _ \<Rightarrow> None)"

definition splice :: "net_env \<Rightarrow> conn \<Rightarrow> conn_end" where
  "splice ne c =
     (case splice_addr ne (cn_sni c) of
        None \<Rightarrow> Closed
      | Some addr \<Rightarrow>
          (case ne_dial ne addr of
             Some e \<Rightarrow> Closed
           | None \<Rightarrow> (case ne_replay ne of Some e \<Rightarrow> Closed | None \<Rightarrow> Spliced addr (cn_hello c @ cn_rest c))))"

text \<open>\<open>shouldTerminate\<close>: the agent gives its own classification, \<open>ShouldIntercept\<close> is the default.\<close>

definition shouldTerminate :: "(string \<Rightarrow> bool) option \<Rightarrow> string \<Rightarrow> bool" where
  "shouldTerminate classify sni = (case classify of Some f \<Rightarrow> f sni | None \<Rightarrow> ShouldIntercept sni)"

definition handle_conn ::
  "(string \<Rightarrow> bool) option \<Rightarrow> 'c leaf_env \<Rightarrow> net_env \<Rightarrow> conn \<Rightarrow> 'c authority option \<Rightarrow> conn_end \<times> 'c authority option" where
  "handle_conn classify env ne c ca =
     (if cn_hello c = '''' then (Closed, ca)
      else if \<not> shouldTerminate classify (cn_sni c) then (splice ne c, ca)
      else case ca of
        None \<Rightarrow> (Closed, None)
      | Some a \<Rightarrow>
          (case Certificate env (cn_sni c) a of
             (Inl e, a1) \<Rightarrow> (Closed, Some a1)
           | (Inr l, a1) \<Rightarrow> (Answered l (cn_hello c @ cn_rest c), Some a1)))"


section \<open>The authority over restarts\<close>

definition usual_start :: "'c ca_env \<Rightarrow> bool" where
  "usual_start env \<longleftrightarrow> ce_mkdir env = None \<and> ce_read_crt env = None \<and> ce_read_key env = None"

lemma load_complete:
  "usual_start env \<Longrightarrow> cd_crt d = Some crt \<Longrightarrow> cd_key d = Some key \<Longrightarrow> LoadOrCreateCA cc env d = (cc_load cc crt key, d)"
  by (simp add: usual_start_def LoadOrCreateCA_def loadCA_def)

lemma starts_complete:
  assumes "\<forall>env \<in> set es. usual_start env" and "cd_crt d = Some crt" "cd_key d = Some key"
  shows "starts cc es d = (replicate (length es) (cc_load cc crt key), d)"
  using assms(1) by (induction es) (simp_all add: load_complete assms(2,3))

lemma made_authority_is_written:
  assumes "LoadOrCreateCA cc env d = (Inr a, d')" and "cd_crt d = None \<or> cd_key d = None"
  shows "cd_crt d' = Some (cc_crt cc a) \<and> cd_key d' = Some (cc_key cc a)"
  using assms
  by (auto simp: LoadOrCreateCA_def writeCA_def written_def split: option.splits sum.splits write_end.splits prod.splits)

text \<open>
  The guests of a host trust one authority for good: once an agent has started with an authority it made, every
  later start reads that authority back, if files can be read and a written pair parses as the pair it was made from.
\<close>

theorem authority_survives_restarts:
  assumes "LoadOrCreateCA cc env d = (Inr a, d')" and "cd_crt d = None \<or> cd_key d = None"
    and "\<forall>env \<in> set es. usual_start env" and "cc_load cc (cc_crt cc a) (cc_key cc a) = Inr a"
  shows "starts cc es d' = (replicate (length es) (Inr a), d')"
  using starts_complete [OF assms(3)] made_authority_is_written [OF assms(1,2)] assms(4) by simp

definition demo_codec :: "string ca_codec" where
  "demo_codec = \<lparr> cc_crt = (\<lambda>a. ''C'' @ a), cc_key = (\<lambda>a. ''K'' @ a),
     cc_load = (\<lambda>crt key. if key = '''' then Inl ''invalid ca.key'' else if tl crt = tl key then Inr (tl key) else Inl ''pair'') \<rparr>"

definition demo_boot :: "string ca_env" where
  "demo_boot = \<lparr> ce_mkdir = None, ce_read_crt = None, ce_read_key = None, ce_generate = Inr ''a1'',
     ce_write_crt = Written, ce_write_key = Written \<rparr>"

definition no_files :: ca_files where "no_files = \<lparr> cd_crt = None, cd_key = None \<rparr>"

lemma authority_survives_restarts_witness:
  "fst (starts demo_codec [demo_boot, demo_boot\<lparr> ce_generate := Inr ''a2'' \<rparr>, demo_boot] no_files) = [Inr ''a1'', Inr ''a1'', Inr ''a1'']"
proof -
  define d' where "d' = \<lparr> cd_crt = Some ''Ca1'', cd_key = Some ''Ka1'' \<rparr>"
  have s: "LoadOrCreateCA demo_codec demo_boot no_files = (Inr ''a1'', d')"
    by (simp add: LoadOrCreateCA_def writeCA_def written_def demo_codec_def demo_boot_def no_files_def d'_def)
  have "starts demo_codec [demo_boot\<lparr> ce_generate := Inr ''a2'' \<rparr>, demo_boot] d' = (replicate 2 (Inr ''a1''), d')"
    using authority_survives_restarts [OF s, of "[demo_boot\<lparr> ce_generate := Inr ''a2'' \<rparr>, demo_boot]"]
    by (simp add: no_files_def usual_start_def demo_boot_def demo_codec_def numeral_2_eq_2)
  then show ?thesis using s by (simp add: numeral_2_eq_2)
qed

text \<open>
  A first start that is cut off while it writes the key leaves a host that cannot start any more: when both files
  are there and do not parse, every later start fails and leaves them as they are.
\<close>

theorem broken_authority_is_for_good:
  assumes "LoadOrCreateCA cc env d = (Inl e, d')" and "cd_crt d' = Some crt" "cd_key d' = Some key"
    and "cc_load cc crt key = Inl e'" and "\<forall>env \<in> set es. usual_start env"
  shows "starts cc es d' = (replicate (length es) (Inl e'), d')"
  using starts_complete [OF assms(5) assms(2,3)] assms(4) by simp

lemma broken_authority_is_for_good_witness:
  "\<exists>d. LoadOrCreateCA demo_codec (demo_boot\<lparr> ce_write_key := Broke ''no space left on device'' (Some '''') \<rparr>) no_files =
      (Inl ''no space left on device'', d) \<and>
    starts demo_codec [demo_boot, demo_boot] d = ([Inl ''invalid ca.key'', Inl ''invalid ca.key''], d)"
proof -
  define d where "d = \<lparr> cd_crt = Some ''Ca1'', cd_key = Some '''' \<rparr>"
  have s: "LoadOrCreateCA demo_codec (demo_boot\<lparr> ce_write_key := Broke ''no space left on device'' (Some '''') \<rparr>) no_files =
      (Inl ''no space left on device'', d)"
    by (simp add: LoadOrCreateCA_def writeCA_def written_def demo_codec_def demo_boot_def no_files_def d_def)
  show ?thesis
    using s broken_authority_is_for_good [OF s, of _ _ "''invalid ca.key''" "[demo_boot, demo_boot]"]
    by (auto simp: d_def usual_start_def demo_boot_def demo_codec_def numeral_2_eq_2)
qed

section \<open>The certificates that are served\<close>

definition leafs_ok :: "'c authority \<Rightarrow> bool" where
  "leafs_ok a \<longleftrightarrow> (\<forall>h l. map_of (au_leafs a) h = Some l \<longrightarrow> lf_host l = h)"

lemma Certificate_ok: "leafs_ok a \<Longrightarrow> leafs_ok (snd (Certificate env host a))"
  by (auto simp: Certificate_def leafs_ok_def Let_def update_conv' split: option.splits sum.splits if_splits)

lemma hellos_ok: "leafs_ok a \<Longrightarrow> leafs_ok (hellos hs a)"
  by (induction hs a rule: hellos.induct) (simp_all add: Certificate_ok)

lemma Certificate_host:
  assumes "leafs_ok a" and "Certificate env host a = (Inr l, a')" and "host \<noteq> ''''"
  shows "lf_host l = host \<and> map_of (au_leafs a') host = Some l \<and> au_ca a' \<noteq> None"
  using assms by (auto simp: Certificate_def leafs_ok_def Let_def update_conv' split: option.splits sum.splits)

lemma Certificate_keeps:
  "map_of (au_leafs a) h = Some l \<Longrightarrow> map_of (au_leafs (snd (Certificate env host a))) h = Some l"
  "au_ca (snd (Certificate env host a)) = au_ca a"
  by (auto simp: Certificate_def Let_def update_conv' split: option.splits sum.splits)

lemma hellos_keep:
  "map_of (au_leafs a) h = Some l \<Longrightarrow> map_of (au_leafs (hellos hs a)) h = Some l" "au_ca (hellos hs a) = au_ca a"
  by (induction hs a rule: hellos.induct) (simp_all add: Certificate_keeps)

lemma Certificate_kept:
  "au_ca a \<noteq> None \<Longrightarrow> host \<noteq> '''' \<Longrightarrow> map_of (au_leafs a) host = Some l \<Longrightarrow> Certificate env host a = (Inr l, a)"
  by (auto simp: Certificate_def)

text \<open>
  A certificate is made once for a name and never renewed: whatever an agent is asked for afterwards and however
  much time passes, it answers the name with the same certificate, also when that has expired, ninety days later.
\<close>

theorem certificate_is_never_renewed:
  assumes "leafs_ok a" and "host \<noteq> ''''" and "Certificate env host a = (Inr l, a')"
  shows "fst (Certificate later host (hellos hs a')) = Inr l"
proof -
  have "map_of (au_leafs (hellos hs a')) host = Some l" "au_ca (hellos hs a') \<noteq> None"
    using Certificate_host [OF assms(1,3,2)] hellos_keep(1) [of a' host l] hellos_keep(2) [of hs a'] by auto
  then show ?thesis by (metis Certificate_kept assms(2) fst_conv)
qed

definition demo_leaf_env :: "gotime \<Rightarrow> string leaf_env" where
  "demo_leaf_env now = \<lparr> le_key = Inr ''k'', le_serial = Inr 5, le_from = now, le_until = now,
     le_sign = (\<lambda>ca key n host from until. Inr host) \<rparr>"

lemma certificate_is_never_renewed_witness:
  "\<exists>l a. Certificate (demo_leaf_env 0) ''ghcr.io'' \<lparr> au_ca = Some ''a1'', au_leafs = [] \<rparr> = (Inr l, a) \<and>
     lf_until l = 90 * 24 * hour \<and>
     fst (Certificate (demo_leaf_env (91 * 24 * hour)) ''ghcr.io'' (hellos [(demo_leaf_env hour, ''registry-1.docker.io'')] a)) = Inr l \<and>
     le_from (demo_leaf_env (91 * 24 * hour)) > lf_until l"
proof -
  obtain l a where c: "Certificate (demo_leaf_env 0) ''ghcr.io'' \<lparr> au_ca = Some ''a1'', au_leafs = [] \<rparr> = (Inr l, a)"
    "lf_until l = 90 * 24 * hour"
    by (simp add: Certificate_def demo_leaf_env_def Let_def)
  have "fst (Certificate (demo_leaf_env (91 * 24 * hour)) ''ghcr.io'' (hellos [(demo_leaf_env hour, ''registry-1.docker.io'')] a)) = Inr l"
    by (rule certificate_is_never_renewed [OF _ _ c(1)]) (simp_all add: leafs_ok_def)
  moreover have "le_from (demo_leaf_env (91 * 24 * hour)) > lf_until l" using c(2) by (simp add: demo_leaf_env_def hour_def)
  ultimately show ?thesis using c by blast
qed

section \<open>Which connections are answered\<close>



text \<open>The guest names the machine that is dialled from the host, the host itself included.\<close>

lemma guest_names_the_destination:
  assumes "\<not> ShouldTerminate (cn_sni c)" "cn_sni c \<noteq> ''''" "cn_hello c \<noteq> ''''"
    and "ne_dial ne (cn_sni c @ '':443'') = None" "ne_replay ne = None"
  shows "fst (handle_conn (Some ShouldTerminate) env ne c ca) = Spliced (cn_sni c @ '':443'') (cn_hello c @ cn_rest c)"
  using assms by (simp add: handle_conn_def shouldTerminate_def splice_def splice_addr_def)

end
