(* ===== verification/UpdateCheck.thy ===== *)
theory UpdateCheck
  imports Config
begin

text \<open>
  \<open>internal/control/updatecheck.go\<close>: whether a newer release exists. One request at a time asks GitHub, the others are
  answered with what is kept or wait for it. A definition here is one locked section or the request between two of
  them. A \<open>CheckedAt\<close> that is empty is \<open>None\<close>, and the time it is the text of otherwise.
\<close>

section \<open>Version numbers\<close>

type_synonym semver = "int \<times> int \<times> int"

fun before_marks :: "string \<Rightarrow> string" where
  "before_marks [] = []"
| "before_marks (x # xs) = (if x = CHR ''-'' \<or> x = CHR ''+'' then [] else x # before_marks xs)"

definition parseSemver :: "string \<Rightarrow> semver option" where
  "parseSemver s =
     (case split_on CHR ''.'' (before_marks (trim_prefix (trim_prefix (trim_space s) ''v'') ''V'')) of
        a # b # c # _ \<Rightarrow>
          (case (atoi a, atoi b, atoi c) of
             (Some x, Some y, Some z) \<Rightarrow> if x < 0 \<or> y < 0 \<or> z < 0 then None else Some (x, y, z)
           | _ \<Rightarrow> None)
      | _ \<Rightarrow> None)"

definition compareSemver :: "semver \<Rightarrow> semver \<Rightarrow> int" where
  "compareSemver a b =
     (case a of (a1, a2, a3) \<Rightarrow> case b of (b1, b2, b3) \<Rightarrow>
        if a1 \<noteq> b1 then wrap64 (a1 - b1) else if a2 \<noteq> b2 then wrap64 (a2 - b2) else wrap64 (a3 - b3))"

definition updateAvailable :: "string \<Rightarrow> string \<Rightarrow> bool" where
  "updateAvailable current latest =
     (case parseSemver latest of
        None \<Rightarrow> False
      | Some l \<Rightarrow> (case parseSemver current of None \<Rightarrow> True | Some c \<Rightarrow> compareSemver l c > 0))"

section \<open>The checker\<close>

record version_status =
  ve_ok :: bool
  ve_version :: string
  ve_latest :: string
  ve_update :: bool
  ve_url :: string
  ve_checked :: "gotime option"
  ve_error :: string

record checker =
  uc_current :: string
  uc_repo :: string
  uc_base :: string
  uc_ttl :: duration
  uc_fail_ttl :: duration
  uc_cached :: version_status
  uc_expires :: gotime
  uc_etag :: string
  uc_pending :: "(string \<times> version_status) option"

definition no_status :: version_status where
  "no_status = \<lparr> ve_ok = False, ve_version = '''', ve_latest = '''', ve_update = False, ve_url = '''', ve_checked = None, ve_error = '''' \<rparr>"

definition one_second :: duration where "one_second = 1000000000"

definition defaultUpdateTTL :: duration where "defaultUpdateTTL = 6 * 3600 * one_second"

definition defaultUpdateFail :: duration where "defaultUpdateFail = 15 * 60 * one_second"

definition NewUpdateChecker :: "string \<Rightarrow> string \<Rightarrow> string \<Rightarrow> duration \<Rightarrow> duration \<Rightarrow> checker" where
  "NewUpdateChecker current repo base ttl fail_ttl =
     (let c = trim_space current; r = trim_space repo; b = trim_right_slashes (trim_space base)
      in \<lparr> uc_current = (if c = '''' then ''dev'' else c),
           uc_repo = (if r = '''' then ''TwanLuttik/TemperCI'' else r),
           uc_base = (if b = '''' then ''https://api.github.com'' else b),
           uc_ttl = (if ttl \<le> 0 then defaultUpdateTTL else ttl),
           uc_fail_ttl = (if fail_ttl \<le> 0 then defaultUpdateFail else fail_ttl),
           uc_cached = no_status, uc_expires = 0, uc_etag = '''', uc_pending = None \<rparr>)"

text \<open>A call of \<open>Status\<close>: answered from what is kept, told to wait for the request under way, or to make the request.\<close>

datatype status_call = Kept version_status | Waits | Asks string version_status

definition enter :: "gotime \<Rightarrow> checker \<Rightarrow> status_call \<times> checker" where
  "enter now c =
     (if uc_expires c \<noteq> 0 \<and> now < uc_expires c then (Kept (uc_cached c), c)
      else if uc_pending c \<noteq> None then (Waits, c)
      else (Asks (uc_etag c) (uc_cached c), c\<lparr> uc_pending := Some (uc_etag c, uc_cached c) \<rparr>))"

text \<open>What a call that waited returns, in time or because its own context ended.\<close>

definition currentOnly :: "string \<Rightarrow> checker \<Rightarrow> version_status" where
  "currentOnly err c =
     (let st0 = uc_cached c;
          st1 = (if ve_version st0 = '''' then st0\<lparr> ve_version := uc_current c, ve_ok := True \<rparr> else st0)
      in if err \<noteq> '''' \<and> ve_error st1 = '''' then st1\<lparr> ve_error := err \<rparr> else st1)"

definition waited :: "bool \<Rightarrow> checker \<Rightarrow> version_status" where
  "waited cancelled c = (if cancelled then currentOnly ''check cancelled'' c else uc_cached c)"

definition mergePrev :: "version_status \<Rightarrow> version_status \<Rightarrow> version_status" where
  "mergePrev st prev =
     (if ve_latest st = '''' \<and> ve_latest prev \<noteq> ''''
      then st\<lparr> ve_latest := ve_latest prev, ve_url := ve_url prev,
               ve_update := updateAvailable (ve_version st) (ve_latest prev),
               ve_checked := (if ve_checked st = None then ve_checked prev else ve_checked st) \<rparr>
      else st)"

text \<open>GitHub's answer: none, a status, a body that does not decode, or a release with its page and entity tag.\<close>

datatype release_answer = Unanswered string | Unchanged | Refused nat | Garbled string | Release string string string

definition refused_text :: "nat \<Rightarrow> string" where
  "refused_text n = ''github releases: HTTP '' @ itoa (int n)"

definition refresh :: "gotime \<Rightarrow> release_answer \<Rightarrow> version_status \<Rightarrow> checker \<Rightarrow> version_status \<times> checker" where
  "refresh now ans prev c =
     (let st = no_status\<lparr> ve_ok := True, ve_version := uc_current c \<rparr> in
      case ans of
        Unanswered e \<Rightarrow> (mergePrev (st\<lparr> ve_error := e \<rparr>) prev, c)
      | Unchanged \<Rightarrow> ((mergePrev st prev)\<lparr> ve_checked := Some now, ve_error := '''' \<rparr>, c)
      | Refused n \<Rightarrow> (mergePrev (st\<lparr> ve_error := refused_text n \<rparr>) prev, c)
      | Garbled e \<Rightarrow> (mergePrev (st\<lparr> ve_error := e \<rparr>) prev, c)
      | Release tag0 url etag0 \<Rightarrow>
          (let tag = trim_space tag0; etag = trim_space etag0 in
           (st\<lparr> ve_latest := tag, ve_url := trim_space url, ve_update := updateAvailable (uc_current c) tag, ve_checked := Some now \<rparr>,
            if etag \<noteq> '''' then c\<lparr> uc_etag := etag \<rparr> else c)))"

definition keep :: "gotime \<Rightarrow> version_status \<Rightarrow> version_status \<Rightarrow> checker \<Rightarrow> checker" where
  "keep now st prev c =
     c\<lparr> uc_cached := st, uc_pending := None,
        uc_expires := now + (if ve_error st \<noteq> '''' \<and> ve_latest prev = '''' then uc_fail_ttl c else uc_ttl c) \<rparr>"

text \<open>The end of the request that is under way.\<close>

definition leave :: "gotime \<Rightarrow> gotime \<Rightarrow> release_answer \<Rightarrow> checker \<Rightarrow> version_status option \<times> checker" where
  "leave now later ans c =
     (case uc_pending c of
        None \<Rightarrow> (None, c)
      | Some (etag, prev) \<Rightarrow> (case refresh now ans prev c of (st, c1) \<Rightarrow> (Some st, keep later st prev c1)))"


section \<open>Newer versions\<close>

lemma digits_val_nonneg: "0 \<le> acc \<Longrightarrow> digits_val acc s = Some v \<Longrightarrow> 0 \<le> v"
proof (induction acc s rule: digits_val.induct)
  case (2 acc c s)
  show ?case
  proof (cases "digit_of c")
    case None
    then show ?thesis using 2(3) by simp
  next
    case (Some d)
    then have "0 \<le> d" by (auto simp: digit_of_def Let_def split: if_splits)
    then show ?thesis using 2 Some by simp
  qed
qed simp

definition small_version :: "semver \<Rightarrow> bool" where
  "small_version v = (case v of (a, b, c) \<Rightarrow> 0 \<le> a \<and> a < 2 ^ 63 \<and> 0 \<le> b \<and> b < 2 ^ 63 \<and> 0 \<le> c \<and> c < 2 ^ 63)"

lemma atoi_small: "atoi s = Some v \<Longrightarrow> v < 2 ^ 63"
  by (auto simp: atoi_def Let_def split: option.splits prod.splits if_splits)

lemma parseSemver_small: "parseSemver s = Some v \<Longrightarrow> small_version v"
  by (auto simp: parseSemver_def small_version_def dest: atoi_small split: list.splits option.splits if_splits)

lemma wrap64_diff: "0 \<le> a \<Longrightarrow> a < 2 ^ 63 \<Longrightarrow> 0 \<le> b \<Longrightarrow> b < 2 ^ 63 \<Longrightarrow> wrap64 (a - b) = a - b"
  by (rule wrap64_id) simp_all

text \<open>The subtractions do not overflow, so the comparison is the lexicographic order on the three numbers.\<close>

lemma compareSemver_order:
  assumes "small_version a" "small_version b"
  shows "compareSemver a b > 0 \<longleftrightarrow>
    fst b < fst a \<or> fst b = fst a \<and> (fst (snd b) < fst (snd a) \<or> fst (snd b) = fst (snd a) \<and> snd (snd b) < snd (snd a))"
  using assms by (cases a; cases b) (auto simp: compareSemver_def small_version_def wrap64_diff)

text \<open>
  An update is offered exactly when the release is newer: of two versions that parse, numbers are compared part by
  part, so no version is newer than itself, of two versions at most one is newer than the other, and newer than newer is
  newer.
\<close>

theorem updates_are_newer:
  assumes "parseSemver a = Some x" "parseSemver b = Some y" "parseSemver c = Some z"
  shows "\<not> updateAvailable a a \<and> (updateAvailable a b \<longrightarrow> \<not> updateAvailable b a) \<and>
    (updateAvailable a b \<longrightarrow> updateAvailable b c \<longrightarrow> updateAvailable a c) \<and>
    (x \<noteq> y \<longrightarrow> updateAvailable a b \<or> updateAvailable b a)"
proof -
  note small = assms [THEN parseSemver_small]
  show ?thesis
    using assms small by (cases x; cases y; cases z) (auto simp: updateAvailable_def compareSemver_order)
qed

lemma updates_are_newer_witness:
  "parseSemver ''v1.2.3'' = Some (1, 2, 3) \<and> updateAvailable ''v1.2.3'' ''v1.10.0'' \<and> \<not> updateAvailable ''v1.10.0'' ''v1.2.3''"
proof -
  have p: "parseSemver ''v1.2.3'' = Some (1, 2, 3)" "parseSemver ''v1.10.0'' = Some (1, 10, 0)" by code_simp+
  have "updateAvailable ''v1.2.3'' ''v1.10.0''" by code_simp
  then show ?thesis using p updates_are_newer [OF p p(1)] by blast
qed


text \<open>What follows a hyphen is cut off, so a candidate of a release counts as the release.\<close>

lemma candidate_counts_as_release:
  "updateAvailable ''v1.4.0-rc1'' ''v1.4.0'' = False" "updateAvailable ''v1.4.0'' ''v1.10.0'' = True"
  by code_simp+

section \<open>How often GitHub is asked\<close>

datatype uc_event = Call gotime | Reply_comes gotime gotime release_answer

fun event_times :: "uc_event \<Rightarrow> gotime list" where
  "event_times (Call t) = [t]"
| "event_times (Reply_comes t u a) = [t, u]"

definition times_of :: "uc_event list \<Rightarrow> gotime list" where
  "times_of es = concat (map event_times es)"

text \<open>The times of the requests that a sequence of events makes.\<close>

fun asked :: "uc_event list \<Rightarrow> checker \<Rightarrow> gotime list \<times> checker" where
  "asked [] c = ([], c)"
| "asked (Call t # es) c =
     (case enter t c of
        (Asks e p, c1) \<Rightarrow> (case asked es c1 of (ts, c2) \<Rightarrow> (t # ts, c2))
      | (_, c1) \<Rightarrow> asked es c1)"
| "asked (Reply_comes t u a # es) c = asked es (snd (leave t u a c))"

definition pause :: "checker \<Rightarrow> duration" where "pause c = min (uc_ttl c) (uc_fail_ttl c)"

text \<open>No request before the next change of the state at \<open>t\<close> or later can come within the pause after \<open>s\<close>.\<close>

definition spaced :: "gotime \<Rightarrow> gotime \<Rightarrow> checker \<Rightarrow> bool" where
  "spaced s t c \<longleftrightarrow> (if uc_pending c = None then uc_expires c \<noteq> 0 \<and> s + pause c \<le> uc_expires c else s \<le> t)"

lemma leave_same: "pause (snd (leave t u a c)) = pause c" "uc_ttl (snd (leave t u a c)) = uc_ttl c"
    "uc_fail_ttl (snd (leave t u a c)) = uc_fail_ttl c"
  by (auto simp: leave_def keep_def refresh_def pause_def Let_def split: option.splits release_answer.splits prod.splits)

lemma leave_spaced:
  assumes "spaced s t0 c" "t0 \<le> t" "t \<le> u" "0 \<le> u" "0 < uc_ttl c" "0 < uc_fail_ttl c"
  shows "spaced s u (snd (leave t u a c))"
proof (cases "uc_pending c")
  case None
  then show ?thesis using assms by (simp add: leave_def spaced_def)
next
  case (Some ep)
  obtain e p where ep: "ep = (e, p)" by (cases ep)
  obtain st c1 where r: "refresh t a p c = (st, c1)" by (metis surj_pair)
  have c1: "uc_ttl c1 = uc_ttl c" "uc_fail_ttl c1 = uc_fail_ttl c"
    using r by (auto simp: refresh_def Let_def split: release_answer.splits)
  show ?thesis using assms Some ep r c1 by (auto simp: leave_def spaced_def keep_def pause_def)
qed

lemma enter_spaced:
  assumes "enter t c = (r, c')" and "spaced s t0 c" and "t0 \<le> t" and "0 \<le> pause c"
  shows "spaced s t c' \<and> (\<forall>e p. r = Asks e p \<longrightarrow> s + pause c \<le> t)"
  using assms by (auto simp: enter_def spaced_def split: if_splits)

lemma enter_same:
  assumes "enter t c = (r, c')"
  shows "pause c' = pause c" "uc_ttl c' = uc_ttl c" "uc_fail_ttl c' = uc_fail_ttl c"
  using assms by (auto simp: enter_def pause_def split: if_splits)

lemma asked_after:
  assumes "spaced s t0 c" and "sorted (t0 # times_of es)" and "0 \<le> t0" and "0 < uc_ttl c" "0 < uc_fail_ttl c"
  shows "\<forall>t \<in> set (fst (asked es c)). s + pause c \<le> t"
  using assms
proof (induction es arbitrary: t0 c)
  case (Cons x es)
  have p: "0 \<le> pause c" using Cons.prems(4,5) by (simp add: pause_def)
  show ?case
  proof (cases x)
    case (Call t)
    obtain r c1 where e: "enter t c = (r, c1)" by (metis surj_pair)
    have "t0 \<le> t" "sorted (t # times_of es)" "0 \<le> t" using Cons.prems(2,3) Call by (auto simp: times_of_def)
    with enter_spaced [OF e Cons.prems(1) this(1) p] Cons.IH [of t c1] Cons.prems(4,5) enter_same [OF e]
    show ?thesis using Call e by (cases r) (auto split: prod.splits)
  next
    case (Reply_comes t u a)
    have "sorted (u # times_of es)" "0 \<le> u" "t0 \<le> t" "t \<le> u"
      using Cons.prems(2,3) Reply_comes by (auto simp: times_of_def)
    with leave_spaced [OF Cons.prems(1)] Cons.IH [of u "snd (leave t u a c)"] Cons.prems(4,5)
    show ?thesis using Reply_comes by (simp add: leave_same)
  qed
qed simp

lemma asked_spaced:
  assumes "sorted (t0 # times_of es)" and "0 \<le> t0" and "0 < uc_ttl c" "0 < uc_fail_ttl c"
  shows "sorted_wrt (\<lambda>s t. s + pause c \<le> t) (fst (asked es c))"
  using assms
proof (induction es arbitrary: t0 c)
  case (Cons x es)
  show ?case
  proof (cases x)
    case (Call t)
    obtain r c1 where e: "enter t c = (r, c1)" by (metis surj_pair)
    have t: "sorted (t # times_of es)" "0 \<le> t" using Cons.prems(1,2) Call by (auto simp: times_of_def)
    have ih: "sorted_wrt (\<lambda>s t. s + pause c1 \<le> t) (fst (asked es c1))"
      using Cons.IH [OF t, of c1] Cons.prems(3,4) enter_same [OF e] by simp
    have "\<forall>t' \<in> set (fst (asked es c1)). t + pause c \<le> t'" if "r = Asks y z" for y z
    proof -
      have "spaced t t c1" using e that by (auto simp: enter_def spaced_def split: if_splits)
      from asked_after [OF this t] show ?thesis using Cons.prems(3,4) enter_same [OF e] by simp
    qed
    then show ?thesis using Call e ih enter_same [OF e] by (cases r) (auto split: prod.splits)
  next
    case (Reply_comes t u a)
    have "sorted (u # times_of es)" "0 \<le> u" using Cons.prems(1,2) Reply_comes by (auto simp: times_of_def)
    with Cons.IH [of u "snd (leave t u a c)"] Cons.prems(3,4)
    show ?thesis using Reply_comes by (simp add: leave_same)
  qed
qed simp


text \<open>
  However often the dashboard asks, and whatever GitHub answers, requests to GitHub are apart by at least the pause
  after a failed one: between two of them there is always the end of the first and then its pause.
\<close>

theorem checks_are_rare:
  assumes "c = NewUpdateChecker current repo base ttl fail_ttl" and "sorted (0 # times_of es)"
  shows "sorted_wrt (\<lambda>s t. s + min (uc_ttl c) (uc_fail_ttl c) \<le> t) (fst (asked es c))"
proof -
  have "0 < uc_ttl c" "0 < uc_fail_ttl c"
    by (auto simp: assms(1) NewUpdateChecker_def Let_def defaultUpdateTTL_def defaultUpdateFail_def one_second_def)
  then show ?thesis using asked_spaced [OF assms(2)] by (simp add: pause_def)
qed

lemma checks_are_rare_witness:
  "let c = NewUpdateChecker ''1.0.0'' '''' '''' 0 0;
       es = [Call 5, Call 6, Reply_comes 7 8 (Unanswered ''context canceled''), Call 9, Call (1000 * one_second), Call (1001 * one_second)]
   in fst (asked es c) = [5, 1000 * one_second] \<and> sorted_wrt (\<lambda>s t. s + min (uc_ttl c) (uc_fail_ttl c) \<le> t) (fst (asked es c))"
proof -
  let ?es = "[Call 5, Call 6, Reply_comes 7 8 (Unanswered ''context canceled''), Call 9, Call (1000 * one_second), Call (1001 * one_second)]"
  have "fst (asked ?es (NewUpdateChecker ''1.0.0'' '''' '''' 0 0)) = [5, 1000 * one_second]" by code_simp
  moreover have "sorted (0 # times_of ?es)" by (simp add: times_of_def one_second_def)
  ultimately show ?thesis
    unfolding Let_def using checks_are_rare [OF refl, of ?es "''1.0.0''" "''''" "''''" 0 0] by blast
qed

text \<open>A failure is kept for everybody, also one that is only the end of the connection of whoever asked first.\<close>

lemma cancelled_check_is_kept:
  assumes "uc_pending c = Some (etag, p)" "ve_latest p = ''''" and "0 < now + uc_fail_ttl c" "later < now + uc_fail_ttl c"
    and "snd (leave t now (Unanswered ''context canceled'') c) = c'"
  shows "\<exists>st. fst (enter later c') = Kept st \<and> ve_error st = ''context canceled''"
  using assms by (auto simp: leave_def refresh_def keep_def enter_def mergePrev_def no_status_def)

text \<open>With a release known from before, the next try after a failure comes after the long time, not the short one.\<close>

lemma later_failure_waits_long:
  assumes "uc_pending c = Some (etag, p)" "ve_latest p \<noteq> ''''" and "snd (leave t now (Unanswered e) c) = c'"
  shows "uc_expires c' = now + uc_ttl c"
  using assms by (auto simp: leave_def refresh_def keep_def)


end
