(* ===== verification/Timings.thy ===== *)
theory Timings
  imports Assignments Complex_Main
begin

text \<open>
  \<open>internal/control/timings.go\<close>: how long a job waited and ran, and the statistics of recent jobs. Durations are whole
  milliseconds; \<open>Sub\<close> saturates. The rounding of \<open>float64\<close> arithmetic is an argument.
\<close>

record JobTimings =
  tm_queue :: int
  tm_bind :: int
  tm_run :: int
  tm_total :: int

text \<open>\<open>Duration.Milliseconds\<close> truncates towards zero; a negative duration counts as none.\<close>

definition milliseconds :: "duration \<Rightarrow> int" where
  "milliseconds d = (if d < 0 then - ((- d) div 1000000) else d div 1000000)"

definition msSince :: "gotime \<Rightarrow> gotime \<Rightarrow> int" where
  "msSince start stop =
     (if start = 0 \<or> stop = 0 then 0
      else let n = milliseconds (time_sub stop start) in if n < 0 then 0 else n)"

definition or_now :: "gotime \<Rightarrow> gotime \<Rightarrow> gotime" where
  "or_now t now = (if t = 0 then now else t)"

definition ComputeJobTimings :: "gotime \<Rightarrow> gotime \<Rightarrow> gotime \<Rightarrow> gotime \<Rightarrow> gotime \<Rightarrow> gotime \<Rightarrow> JobTimings" where
  "ComputeJobTimings clock created assigned started finished now0 =
     (let now = or_now now0 clock in
      \<lparr> tm_queue = (if created = 0 then 0 else msSince created (or_now assigned now)),
        tm_bind = (if assigned = 0 then 0 else msSince assigned (or_now started now)),
        tm_run = (if started = 0 then 0 else msSince started (or_now finished now)),
        tm_total = (if created = 0 then 0 else msSince created (or_now finished now)) \<rparr>)"

definition timingsFromAssignment :: "gotime \<Rightarrow> assignment option \<Rightarrow> gotime \<Rightarrow> JobTimings" where
  "timingsFromAssignment clock ao now =
     (case ao of
        None \<Rightarrow> \<lparr> tm_queue = 0, tm_bind = 0, tm_run = 0, tm_total = 0 \<rparr>
      | Some a \<Rightarrow> ComputeJobTimings clock (a_created_at a) (a_assigned_at a) (a_started_at a) (a_finished_at a) now)"

text \<open>The nearest rank; \<open>fl\<close> rounds to a \<open>float64\<close>.\<close>

definition percentile_index :: "(real \<Rightarrow> real) \<Rightarrow> nat \<Rightarrow> real \<Rightarrow> nat" where
  "percentile_index fl n p =
     (let i = \<lceil>fl (fl (p / 100) * real n)\<rceil> - 1 in
      if i < 0 then 0 else if int n \<le> i then n - 1 else nat i)"

definition PercentileInt64 :: "(real \<Rightarrow> real) \<Rightarrow> int list \<Rightarrow> real \<Rightarrow> int" where
  "PercentileInt64 fl vals p =
     (if vals = [] then 0
      else let cp = sort vals in
           if p \<le> 0 then hd cp else if p \<ge> 100 then last cp else cp ! percentile_index fl (length cp) p)"

definition recent_runs :: "assignment list \<Rightarrow> int list" where
  "recent_runs as =
     filter (\<lambda>n. n > 0)
       (map (\<lambda>a. msSince (a_started_at a) (a_finished_at a))
          (filter (\<lambda>a. a_status a = AssignmentFinished \<and> a_started_at a \<noteq> 0 \<and> a_finished_at a \<noteq> 0) as))"

definition recentRunPercentiles :: "(real \<Rightarrow> real) \<Rightarrow> assignment list \<Rightarrow> int \<times> int" where
  "recentRunPercentiles fl as = (PercentileInt64 fl (recent_runs as) 50, PercentileInt64 fl (recent_runs as) 95)"

definition add64 :: "int \<Rightarrow> int \<Rightarrow> int" where "add64 x y = wrap64 (x + y)"

definition recentCacheTotals :: "assignment list \<Rightarrow> int \<times> int \<times> int \<times> int" where
  "recentCacheTotals as =
     (foldl (\<lambda>n a. add64 n (a_cache_hits a)) 0 as, foldl (\<lambda>n a. add64 n (a_cache_misses a)) 0 as,
      foldl (\<lambda>n a. add64 n (a_cache_bytes_in a)) 0 as, foldl (\<lambda>n a. add64 n (a_cache_bytes_out a)) 0 as)"

section \<open>Times\<close>

lemma msSince_nonneg: "0 \<le> msSince s t"
  by (simp add: msSince_def Let_def)

lemma msSince_div:
  "s \<noteq> 0 \<Longrightarrow> t \<noteq> 0 \<Longrightarrow> s \<le> t \<Longrightarrow> t - s < 2 ^ 63 \<Longrightarrow> msSince s t = (t - s) div 1000000"
  by (simp add: msSince_def milliseconds_def time_sub_def Let_def pos_imp_zdiv_nonneg_iff not_less)

lemma div_two: "a div 1000000 + b div 1000000 \<le> (a + b) div (1000000 :: int) \<and> (a + b) div 1000000 \<le> a div 1000000 + b div 1000000 + 1"
proof -
  define r where "r = a mod 1000000 + b mod 1000000"
  have "0 \<le> r" "r < 2 * 1000000"
    unfolding r_def using pos_mod_bound [of 1000000 a] pos_mod_bound [of 1000000 b] by simp_all
  then have "0 \<le> r div 1000000" "r div 1000000 \<le> 1"
    using zdiv_mono1 [of r 1999999 1000000] by (simp_all add: pos_imp_zdiv_nonneg_iff)
  then show ?thesis by (simp add: div_add1_eq [of a b] r_def)
qed

lemma div_parts:
  "a div 1000000 + b div 1000000 + c div 1000000 \<le> (a + b + c) div (1000000 :: int) \<and>
   (a + b + c) div 1000000 \<le> a div 1000000 + b div 1000000 + c div 1000000 + 2"
  using div_two [of a b] div_two [of "a + b" c] by linarith


text \<open>
  The times shown of a job add up: when the four instants of its life are in order, the times it waited, was bound
  and ran make up its total, less at most two milliseconds of rounding; and no time shown is ever negative.
\<close>

theorem job_times_add_up:
  assumes "0 < created" "created \<le> assigned" "assigned \<le> started" "started \<le> finished" "finished - created < 2 ^ 63"
  shows "let t = ComputeJobTimings clock created assigned started finished now in
    tm_queue t + tm_bind t + tm_run t \<le> tm_total t \<and> tm_total t \<le> tm_queue t + tm_bind t + tm_run t + 2 \<and>
    0 \<le> tm_queue t \<and> 0 \<le> tm_bind t \<and> 0 \<le> tm_run t"
proof -
  have "ComputeJobTimings clock created assigned started finished now =
      \<lparr> tm_queue = (assigned - created) div 1000000, tm_bind = (started - assigned) div 1000000,
        tm_run = (finished - started) div 1000000, tm_total = (finished - created) div 1000000 \<rparr>"
    using assms by (simp add: ComputeJobTimings_def or_now_def Let_def msSince_div)
  then show ?thesis
    using div_parts [of "assigned - created" "started - assigned" "finished - started"] assms
    by (simp add: Let_def pos_imp_zdiv_nonneg_iff)
qed

lemma job_times_add_up_witness:
  "let t = ComputeJobTimings 0 1000000 2999999 4999998 6999997 0 in
   tm_queue t = 1 \<and> tm_bind t = 1 \<and> tm_run t = 1 \<and> tm_total t = 5 \<and> tm_total t \<le> tm_queue t + tm_bind t + tm_run t + 2"
proof -
  have t: "ComputeJobTimings 0 1000000 2999999 4999998 6999997 0 = \<lparr> tm_queue = 1, tm_bind = 1, tm_run = 1, tm_total = 5 \<rparr>"
    by code_simp
  have "tm_total (ComputeJobTimings 0 1000000 2999999 4999998 6999997 0) \<le>
      tm_queue (ComputeJobTimings 0 1000000 2999999 4999998 6999997 0) + tm_bind (ComputeJobTimings 0 1000000 2999999 4999998 6999997 0) +
      tm_run (ComputeJobTimings 0 1000000 2999999 4999998 6999997 0) + 2"
    using job_times_add_up [of 1000000 2999999 4999998 6999997 0 0] by (simp only: Let_def) simp
  then show ?thesis unfolding Let_def t by simp
qed

lemma times_never_negative:
  "0 \<le> tm_queue (ComputeJobTimings clock c a s f now)" "0 \<le> tm_bind (ComputeJobTimings clock c a s f now)"
  "0 \<le> tm_run (ComputeJobTimings clock c a s f now)" "0 \<le> tm_total (ComputeJobTimings clock c a s f now)"
  by (simp_all add: ComputeJobTimings_def Let_def msSince_nonneg)

section \<open>Percentiles\<close>

lemma percentile_index_less: "0 < n \<Longrightarrow> percentile_index fl n p < n"
  by (auto simp: percentile_index_def Let_def)

lemma percentile_is_a_value:
  assumes "vals \<noteq> []"
  shows "PercentileInt64 fl vals p \<in> set vals"
proof -
  have "sort vals \<noteq> []" using assms by (metis set_sort set_empty)
  then show ?thesis
    using assms percentile_index_less [of "length vals" fl p] hd_in_set [of "sort vals"] last_in_set [of "sort vals"]
      nth_mem [of "percentile_index fl (length vals) p" "sort vals"]
    by (simp add: PercentileInt64_def Let_def)
qed

lemma percentile_index_mono:
  assumes "mono fl" "p \<le> q"
  shows "percentile_index fl n p \<le> percentile_index fl n q"
proof -
  have "fl (p / 100) * real n \<le> fl (q / 100) * real n"
    using assms by (simp add: mult_right_mono monoD divide_right_mono)
  then have "\<lceil>fl (fl (p / 100) * real n)\<rceil> \<le> \<lceil>fl (fl (q / 100) * real n)\<rceil>"
    using assms(1) by (intro ceiling_mono) (rule monoD)
  moreover have "(if i - 1 < 0 then 0 else if int n \<le> i - 1 then n - 1 else nat (i - 1)) \<le>
      (if j - 1 < 0 then 0 else if int n \<le> j - 1 then n - 1 else nat (j - 1))" if "i \<le> j" for i j :: int
    using that by (auto simp: nat_le_iff)
  ultimately show ?thesis unfolding percentile_index_def Let_def by blast
qed

text \<open>
  The two percentiles shown are values of the sample, and the higher one is not below the lower one, however
  \<open>float64\<close> arithmetic rounds, as long as it rounds monotonically.
\<close>

theorem percentiles_in_order:
  assumes "mono fl" "recent_runs as \<noteq> []"
  shows "case recentRunPercentiles fl as of (p50, p95) \<Rightarrow> p50 \<in> set (recent_runs as) \<and> p95 \<in> set (recent_runs as) \<and> 0 < p50 \<and> p50 \<le> p95"
proof -
  let ?v = "recent_runs as"
  have "percentile_index fl (length ?v) 50 \<le> percentile_index fl (length ?v) 95"
    by (rule percentile_index_mono [OF assms(1)]) simp
  then have "sort ?v ! percentile_index fl (length ?v) 50 \<le> sort ?v ! percentile_index fl (length ?v) 95"
    using percentile_index_less [of "length ?v" fl 95] assms(2) by (intro sorted_nth_mono) auto
  moreover have "sort ?v ! percentile_index fl (length ?v) p \<in> set ?v" for p
    using nth_mem [of "percentile_index fl (length ?v) p" "sort ?v"] percentile_index_less [of "length ?v" fl p] assms(2) by simp
  moreover have "\<forall>n \<in> set ?v. 0 < n" by (simp add: recent_runs_def)
  ultimately show ?thesis using assms(2) by (simp add: recentRunPercentiles_def PercentileInt64_def Let_def)
qed


lemma percentiles_in_order_witness:
  "mono (id :: real \<Rightarrow> real) \<and>
   (let as = [zero_assignment\<lparr> a_status := AssignmentFinished, a_started_at := 1, a_finished_at := 5000001 \<rparr>,
              zero_assignment\<lparr> a_status := AssignmentFinished, a_started_at := 1, a_finished_at := 9000001 \<rparr>]
    in recent_runs as = [5, 9] \<and> (case recentRunPercentiles id as of (p50, p95) \<Rightarrow> p50 \<in> {5, 9} \<and> p50 \<le> p95))"
proof -
  let ?as = "[zero_assignment\<lparr> a_status := AssignmentFinished, a_started_at := 1, a_finished_at := 5000001 \<rparr>,
              zero_assignment\<lparr> a_status := AssignmentFinished, a_started_at := 1, a_finished_at := 9000001 \<rparr>]"
  have m: "mono (id :: real \<Rightarrow> real)" by (simp add: mono_def)
  have r: "recent_runs ?as = [5, 9]" by code_simp
  show ?thesis using m r percentiles_in_order [OF m, of ?as] by (auto simp: Let_def split: prod.splits)
qed


end
